(* ===== verification/Prelude.thy ===== *)
theory Prelude
  imports Main "HOL-Library.Word" "HOL-Library.List_Lexorder" "HOL-Library.Char_ord"
begin

text \<open>
  Shared vocabulary of the development.

  \<^item> Machine integers: \<open>u64\<close> and \<open>u32\<close> are words; \<open>usize\<close> values are natural numbers
    with the 64-bit bound written out where the code saturates; \<open>i64\<close> values are
    integers with their range written out where the code checks or saturates.
  \<^item> Text: a Rust \<open>String\<close> is its UTF-8 byte sequence, an Isabelle \<open>string\<close>; its order
    is the byte-wise lexicographic one, as in Rust.
  \<^item> Fallible code: a value of \<open>'e + 'a\<close>, with \<open>Inl\<close> for \<open>Err\<close>; \<open>and_then\<close> is the
    question-mark operator and \<open>try_map\<close> is collecting into a \<open>Result\<close>.
  \<^item> A \<open>BTreeMap\<close> is an association list kept in strictly increasing key order
    (\<open>om_*\<close>), so iteration order is the order of the list; a \<open>HashMap\<close> whose iteration
    order never matters is a partial function.
\<close>

subsection \<open>Collections of facts\<close>

named_theorems guard_defs \<open>definitions of the guards and validators of the code\<close>
named_theorems frame_simps \<open>which fields an operation leaves alone\<close>

subsection \<open>Types\<close>

type_synonym u64 = "64 word"
type_synonym u32 = "32 word"
type_synonym usize = nat
type_synonym i64 = int
type_synonym bytes = "8 word list"

subsection \<open>Results\<close>

fun and_then :: "'e + 'a \<Rightarrow> ('a \<Rightarrow> 'e + 'b) \<Rightarrow> 'e + 'b" where
  "and_then (Inl e) f = Inl e"
| "and_then (Inr x) f = f x"

lemma and_then_Inr_iff: "and_then r f = Inr y \<longleftrightarrow> (\<exists>x. r = Inr x \<and> f x = Inr y)"
  by (cases r) auto

lemma and_then_Inl_iff:
  "and_then r f = Inl e \<longleftrightarrow> r = Inl e \<or> (\<exists>x. r = Inr x \<and> f x = Inl e)"
  by (cases r) auto

lemma and_then_Inr_right [simp]: "and_then r Inr = r" "and_then r (\<lambda>x. Inr x) = r"
  by (cases r; simp)+

lemma and_then_assoc: "and_then (and_then r f) g = and_then r (\<lambda>x. and_then (f x) g)"
  by (cases r) auto

lemma and_then_cong [fundef_cong]:
  "r = r' \<Longrightarrow> (\<And>x. r' = Inr x \<Longrightarrow> f x = g x) \<Longrightarrow> and_then r f = and_then r' g"
  by (cases r') auto

fun map_err :: "('e \<Rightarrow> 'f) \<Rightarrow> 'e + 'a \<Rightarrow> 'f + 'a" where
  "map_err g (Inl e) = Inl (g e)"
| "map_err g (Inr x) = Inr x"

lemma map_err_Inr_iff [simp]: "map_err g r = Inr x \<longleftrightarrow> r = Inr x"
  by (cases r) auto

fun ok_or :: "'e \<Rightarrow> 'a option \<Rightarrow> 'e + 'a" where
  "ok_or e None = Inl e"
| "ok_or e (Some x) = Inr x"

lemma ok_or_Inr_iff [simp]: "ok_or e v = Inr x \<longleftrightarrow> v = Some x"
  by (cases v) auto

fun is_ok :: "'e + 'a \<Rightarrow> bool" where
  "is_ok (Inl e) = False"
| "is_ok (Inr x) = True"

lemma is_ok_iff: "is_ok r \<longleftrightarrow> (\<exists>x. r = Inr x)"
  by (cases r) auto

text \<open>Acting on the result of a call that succeeded.\<close>

fun map_ok :: "('a \<Rightarrow> 'b) \<Rightarrow> 'e + 'a \<Rightarrow> 'e + 'b" where
  "map_ok f (Inl e) = Inl e"
| "map_ok f (Inr x) = Inr (f x)"

lemma map_ok_and_then: "map_ok d (and_then r f) = and_then r (\<lambda>x. map_ok d (f x))"
  by (cases r) auto

lemma and_then_case: "and_then r f = (case r of Inl e \<Rightarrow> Inl e | Inr x \<Rightarrow> f x)"
  by (cases r) auto

lemma is_ok_bind: "is_ok r \<Longrightarrow> (\<And>x. is_ok (f x)) \<Longrightarrow> is_ok (and_then r f)"
  by (auto simp: is_ok_iff)

lemma is_ok_map_err: "is_ok (map_err f r) \<longleftrightarrow> is_ok r"
  by (cases r) simp_all

fun try_map :: "('a \<Rightarrow> 'e + 'b) \<Rightarrow> 'a list \<Rightarrow> 'e + 'b list" where
  "try_map f [] = Inr []"
| "try_map f (x # xs) = and_then (f x) (\<lambda>y. and_then (try_map f xs) (\<lambda>ys. Inr (y # ys)))"

lemma try_map_Inr_iff: "try_map f xs = Inr ys \<longleftrightarrow> list_all2 (\<lambda>x y. f x = Inr y) xs ys"
proof (induction xs arbitrary: ys)
  case Nil
  then show ?case by auto
next
  case (Cons x xs)
  then show ?case by (auto simp: and_then_Inr_iff list_all2_Cons1)
qed

lemma try_map_length: "try_map f xs = Inr ys \<Longrightarrow> length ys = length xs"
  by (simp add: try_map_Inr_iff list_all2_lengthD)

lemma try_map_total: "(\<And>x. x \<in> set xs \<Longrightarrow> f x = Inr (g x)) \<Longrightarrow> try_map f xs = Inr (map g xs)"
  by (induction xs) auto

subsection \<open>Bounded integers\<close>

definition usize_max :: usize where
  "usize_max = 2 ^ 64 - 1"

definition usize_sat_add :: "usize \<Rightarrow> usize \<Rightarrow> usize" where
  "usize_sat_add a b = min (a + b) usize_max"

definition usize_sat_mul :: "usize \<Rightarrow> usize \<Rightarrow> usize" where
  "usize_sat_mul a b = min (a * b) usize_max"

definition i64_max :: i64 where
  "i64_max = 2 ^ 63 - 1"

definition i64_min :: i64 where
  "i64_min = - (2 ^ 63)"

definition i64_ok :: "int \<Rightarrow> bool" where
  "i64_ok x \<longleftrightarrow> i64_min \<le> x \<and> x \<le> i64_max"

definition i64_checked_add :: "i64 \<Rightarrow> i64 \<Rightarrow> i64 option" where
  "i64_checked_add a b = (if i64_ok (a + b) then Some (a + b) else None)"

definition i64_sat_add :: "i64 \<Rightarrow> i64 \<Rightarrow> i64" where
  "i64_sat_add a b = max i64_min (min i64_max (a + b))"

definition u64_checked_add :: "u64 \<Rightarrow> u64 \<Rightarrow> u64 option" where
  "u64_checked_add a b = (if unat a + unat b < 2 ^ 64 then Some (a + b) else None)"

lemma i64_checked_add_Some_iff: "i64_checked_add a b = Some c \<longleftrightarrow> c = a + b \<and> i64_ok (a + b)"
  by (auto simp: i64_checked_add_def)

lemma i64_sat_add_ok: "i64_ok (i64_sat_add a b)"
  by (simp add: i64_ok_def i64_sat_add_def i64_min_def i64_max_def)

lemma i64_sat_add_exact: "i64_ok (a + b) \<Longrightarrow> i64_sat_add a b = a + b"
  by (simp add: i64_ok_def i64_sat_add_def)

lemma u64_checked_add_one_Some:
  "u64_checked_add a 1 = Some b \<Longrightarrow> b = a + 1 \<and> unat b = Suc (unat a)"
  by (auto simp: u64_checked_add_def unat_word_ariths split: if_splits)

lemma u64_checked_add_one_None: "u64_checked_add a 1 = None \<longleftrightarrow> unat a = 2 ^ 64 - 1"
  proof -
  have "unat a < 2 ^ 64"
    using unsigned_less [of a] by simp
  then show ?thesis by (auto simp: u64_checked_add_def)
qed

subsection \<open>Decimal numbers, as \<open>to_string\<close> and \<open>format!\<close> print them\<close>

definition digit_char :: "nat \<Rightarrow> char" where
  "digit_char d = char_of (48 + d)"

fun nat_to_dec :: "nat \<Rightarrow> string" where
  "nat_to_dec n = (if n < 10 then [digit_char n] else nat_to_dec (n div 10) @ [digit_char (n mod 10)])"

declare nat_to_dec.simps [simp del]

definition int_to_dec :: "int \<Rightarrow> string" where
  "int_to_dec i = (if i < 0 then CHR ''-'' # nat_to_dec (nat (- i)) else nat_to_dec (nat i))"

definition digit_val :: "char \<Rightarrow> nat" where
  "digit_val c = of_char c - 48"

definition dec_val :: "string \<Rightarrow> nat" where
  "dec_val = foldl (\<lambda>n c. 10 * n + digit_val c) 0"

lemma of_char_digit_char: "d < 10 \<Longrightarrow> of_char (digit_char d) = 48 + d"
  by (simp add: digit_char_def)

lemma digit_val_digit_char: "d < 10 \<Longrightarrow> digit_val (digit_char d) = d"
  by (simp add: digit_val_def of_char_digit_char)

lemma dec_val_nat_to_dec [simp]: "dec_val (nat_to_dec n) = n"
proof (induction n rule: nat_to_dec.induct)
  case (1 n)
  then show ?case
    by (subst nat_to_dec.simps) (auto simp: dec_val_def digit_val_digit_char)
qed

lemma nat_to_dec_inject [simp]: "nat_to_dec m = nat_to_dec n \<longleftrightarrow> m = n"
  by (metis dec_val_nat_to_dec)

lemma set_nat_to_dec: "c \<in> set (nat_to_dec n) \<Longrightarrow> \<exists>d<10. c = digit_char d"
proof (induction n rule: nat_to_dec.induct)
  case (1 n)
  from "1.prems" show ?case
    using "1.IH" by (subst (asm) nat_to_dec.simps) (auto split: if_splits intro: mod_less_divisor exI [of _ "n mod 10"])
qed

lemma minus_notin_nat_to_dec: "CHR ''-'' \<notin> set (nat_to_dec n)"
proof
  assume "CHR ''-'' \<in> set (nat_to_dec n)"
  then obtain d where "d < 10" and "CHR ''-'' = digit_char d"
    using set_nat_to_dec by blast
  then have "of_char (CHR ''-'') = 48 + d"
    using of_char_digit_char by metis
  then show False by simp
qed

lemma int_to_dec_inject [simp]: "int_to_dec i = int_to_dec j \<longleftrightarrow> i = j"
proof
  assume eq: "int_to_dec i = int_to_dec j"
  show "i = j"
  proof (cases "i < 0"; cases "j < 0")
    assume "i < 0" "j < 0"
    with eq show ?thesis by (simp add: int_to_dec_def)
  next
    assume "i < 0" "\<not> j < 0"
    with eq have "CHR ''-'' \<in> set (nat_to_dec (nat j))"
      by (metis int_to_dec_def list.set_intros(1))
    then show ?thesis by (simp add: minus_notin_nat_to_dec)
  next
    assume "\<not> i < 0" "j < 0"
    with eq have "CHR ''-'' \<in> set (nat_to_dec (nat i))"
      by (metis int_to_dec_def list.set_intros(1))
    then show ?thesis by (simp add: minus_notin_nat_to_dec)
  next
    assume "\<not> i < 0" "\<not> j < 0"
    with eq show ?thesis by (simp add: int_to_dec_def)
  qed
qed simp

subsection \<open>Ordered maps\<close>

type_synonym ('k, 'v) omap = "('k \<times> 'v) list"

definition om_keys :: "('k, 'v) omap \<Rightarrow> 'k list" where
  "om_keys m = map fst m"

definition om_ok :: "('k::linorder, 'v) omap \<Rightarrow> bool" where
  "om_ok m \<longleftrightarrow> sorted_wrt (<) (om_keys m)"

fun om_insert :: "'k::linorder \<Rightarrow> 'v \<Rightarrow> ('k, 'v) omap \<Rightarrow> ('k, 'v) omap" where
  "om_insert k v [] = [(k, v)]"
| "om_insert k v (e # m) =
     (if k < fst e then (k, v) # e # m
      else if fst e = k then (k, v) # m
      else e # om_insert k v m)"

definition om_update :: "'v \<Rightarrow> ('v \<Rightarrow> 'v) \<Rightarrow> 'k::linorder \<Rightarrow> ('k, 'v) omap \<Rightarrow> ('k, 'v) omap" where
  "om_update d f k m = om_insert k (f (case map_of m k of None \<Rightarrow> d | Some v \<Rightarrow> v)) m"

lemma om_ok_Nil [simp]: "om_ok []"
  by (simp add: om_ok_def om_keys_def)

lemma om_ok_Cons: "om_ok (e # m) \<longleftrightarrow> (\<forall>k \<in> set (om_keys m). fst e < k) \<and> om_ok m"
  by (simp add: om_ok_def om_keys_def)

lemma set_om_keys: "set (om_keys m) = dom (map_of m)"
  by (simp add: om_keys_def dom_map_of_conv_image_fst)

lemma om_keys_insert [simp]: "set (om_keys (om_insert k v m)) = insert k (set (om_keys m))"
  by (induction m) (auto simp: om_keys_def)

lemma om_ok_insert [simp]: "om_ok m \<Longrightarrow> om_ok (om_insert k v m)"
proof (induction m)
  case Nil
  then show ?case by (simp add: om_ok_Cons om_keys_def)
next
  case (Cons e m)
  then show ?case
    using om_keys_insert [of k v m] by (fastforce simp: om_ok_Cons om_keys_def)
qed

lemma map_of_om_insert [simp]: "om_ok m \<Longrightarrow> map_of (om_insert k v m) = (map_of m)(k \<mapsto> v)"
proof (induction m)
  case Nil
  then show ?case by simp
next
  case (Cons e m)
  have "map_of m k = None" if "k \<le> fst e"
  proof (rule ccontr)
    assume "map_of m k \<noteq> None"
    then have "k \<in> set (om_keys m)" by (auto simp: set_om_keys)
    with Cons.prems have "fst e < k" by (simp add: om_ok_Cons)
    with that show False by simp
  qed
  with Cons show ?case by (cases e) (auto simp: om_ok_Cons fun_eq_iff)
qed

lemma om_ok_update [simp]: "om_ok m \<Longrightarrow> om_ok (om_update d f k m)"
  by (simp add: om_update_def)

lemma map_of_om_update:
  "om_ok m \<Longrightarrow>
   map_of (om_update d f k m) = (map_of m)(k \<mapsto> f (case map_of m k of None \<Rightarrow> d | Some v \<Rightarrow> v))"
  by (simp add: om_update_def)

lemma om_keys_update [simp]: "set (om_keys (om_update d f k m)) = insert k (set (om_keys m))"
  by (simp add: om_update_def)

lemma om_ok_distinct: "om_ok m \<Longrightarrow> distinct (om_keys m)"
  by (simp add: om_ok_def strict_sorted_iff)

lemma om_ok_sorted: "om_ok m \<Longrightarrow> sorted (om_keys m)"
  by (simp add: om_ok_def strict_sorted_iff)

subsection \<open>Lists\<close>

fun enumerate_from :: "nat \<Rightarrow> 'a list \<Rightarrow> (nat \<times> 'a) list" where
  "enumerate_from n [] = []"
| "enumerate_from n (x # xs) = (n, x) # enumerate_from (Suc n) xs"

lemma enumerate_from_conv: "enumerate_from n xs = zip [n..<n + length xs] xs"
proof (induction xs arbitrary: n)
  case Nil
  then show ?case by simp
next
  case (Cons x xs)
  then show ?case by (simp add: upt_conv_Cons del: upt_Suc)
qed

lemma map_fst_enumerate_from: "map fst (enumerate_from n xs) = [n..<n + length xs]"
  by (simp add: enumerate_from_conv)

lemma map_snd_enumerate_from: "map snd (enumerate_from n xs) = xs"
  by (simp add: enumerate_from_conv)

fun join_with :: "string \<Rightarrow> string list \<Rightarrow> string" where
  "join_with sep [] = []"
| "join_with sep [x] = x"
| "join_with sep (x # y # ys) = x @ sep @ join_with sep (y # ys)"

lemma foldl_max: "foldl max (a::'a::linorder) xs = Max (insert a (set xs))"
proof (induction xs arbitrary: a)
  case (Cons x xs)
  have "Max (insert (max a x) (set xs)) = Max (insert a (insert x (set xs)))"
    by (cases "xs = []") (simp_all add: max.assoc)
  with Cons show ?case by simp
qed simp

lemma is_ok_try_map: "is_ok (try_map f xs) \<longleftrightarrow> (\<forall>x \<in> set xs. is_ok (f x))"
proof (induction xs)
  case (Cons x xs)
  then show ?case by (cases "f x"; cases "try_map f xs") auto
qed simp

lemma try_map_const_Inr: "try_map f xs = Inr ys \<Longrightarrow> (\<And>x y. f x = Inr y \<Longrightarrow> y = g x) \<Longrightarrow> ys = map g xs"
  by (auto simp: try_map_Inr_iff list_all2_conv_all_nth intro: nth_equalityI)

lemma try_map_mem: "try_map f xs = Inr ys \<Longrightarrow> y \<in> set ys \<Longrightarrow> \<exists>x \<in> set xs. f x = Inr y"
  by (induction xs arbitrary: ys) (auto simp: and_then_Inr_iff)

lemma filter_distinct_key: "distinct (map f xs) \<Longrightarrow> x \<in> set xs \<Longrightarrow> filter (\<lambda>y. f y = f x) xs = [x]"
proof (induction xs)
  case (Cons y ys)
  show ?case
  proof (cases "x = y")
    case True
    with Cons.prems(1) have "filter (\<lambda>y. f y = f x) ys = []" by (auto simp: filter_empty_conv image_iff)
    with True show ?thesis by simp
  next
    case False
    with Cons.prems have "x \<in> set ys" "f y \<noteq> f x" by (auto simp: image_iff)
    with Cons show ?thesis by simp
  qed
qed simp

lemma om_keys_eq_sorted: "om_ok m \<Longrightarrow> om_keys m = sorted_list_of_set (set (om_keys m))"
  by (simp add: om_ok_distinct om_ok_sorted sorted_list_of_set.idem_if_sorted_distinct)

lemma try_map_Inl: "try_map f xs = Inl e \<Longrightarrow> \<exists>x \<in> set xs. f x = Inl e"
  by (induction xs) (auto simp: and_then_Inl_iff)

text \<open>Collecting pairs into a map keeps the last value of a key.\<close>

definition collect_map :: "('k \<times> 'v) list \<Rightarrow> 'k \<rightharpoonup> 'v" where
  "collect_map kvs = map_of (rev kvs)"

lemma collect_map_snoc: "collect_map (kvs @ [(k, v)]) = (collect_map kvs)(k \<mapsto> v)"
  by (simp add: collect_map_def)

lemma dom_collect_map: "dom (collect_map kvs) = fst ` set kvs"
  by (simp add: collect_map_def dom_map_of_conv_image_fst)

lemma collect_map_Some: "collect_map kvs k = Some v \<Longrightarrow> (k, v) \<in> set kvs"
  by (auto simp: collect_map_def dest: map_of_SomeD)

lemma collect_map_distinct:
  assumes "distinct (map fst kvs)"
  shows "collect_map kvs k = Some v \<longleftrightarrow> (k, v) \<in> set kvs"
proof -
  have "distinct (map fst (rev kvs))" using assms by (simp add: rev_map [symmetric])
  then show ?thesis by (simp add: collect_map_def)
qed

end
