(* ===== verification/Json.thy ===== *)
theory Json
  imports Prelude
begin

text \<open>
  The \<open>serde_json::Value\<close> type the code inspects, and its \<open>get\<close>/\<open>as_*\<close> accessors. Floating-point
  numbers are an abstract type \<open>'f\<close>; parsing and printing of JSON text is third-party code and a
  parameter where it is used. An object is an association list with distinct keys.
\<close>

datatype 'f json_number = NInt int | NFloat 'f

datatype 'f json =
    JNull
  | JBool bool
  | JNumber "'f json_number"
  | JString string
  | JArray "'f json list"
  | JObject "(string \<times> 'f json) list"

fun json_get :: "'f json \<Rightarrow> string \<Rightarrow> 'f json option" where
  "json_get (JObject fields) key = map_of fields key"
| "json_get _ key = None"

fun json_as_array :: "'f json \<Rightarrow> 'f json list option" where
  "json_as_array (JArray xs) = Some xs"
| "json_as_array _ = None"

fun json_as_str :: "'f json \<Rightarrow> string option" where
  "json_as_str (JString s) = Some s"
| "json_as_str _ = None"

fun json_as_object :: "'f json \<Rightarrow> (string \<times> 'f json) list option" where
  "json_as_object (JObject fields) = Some fields"
| "json_as_object _ = None"

end
