(* ===== verification/Chunking.thy ===== *)
theory Chunking
  imports Json
begin

text \<open>
  The crate \<open>graphloom-chunking\<close>: configuration and its validation, the Unicode-scalar codec,
  the strict token window chunker, metadata transforms and the dispatch of \<open>create_chunker\<close>.
  The tokenizer (\<open>tiktoken-rs\<close>) and the semantic splitter (\<open>text-splitter\<close>) are third-party
  code: the encode and decode functions are parameters.

  The window loop of \<open>split_text_on_tokens_with_spans\<close> is a \<open>partial_function (option)\<close>, with
  \<open>None\<close> for a loop that does not end or a slice that would panic;
  \<open>split_text_on_tokens_with_spans_total\<close> shows that neither happens.
\<close>

datatype chunking_error =
    InvalidToken string u32
  | InvalidConfig string
  | Tokenizer string string

datatype chunker_type = TokenOverlap | SemanticText

record chunking_config =
  cc_type :: chunker_type
  cc_encoding_model :: string
  cc_size :: usize \<comment> \<open>a \<open>NonZeroUsize\<close>\<close>
  cc_overlap :: usize
  cc_prepend_metadata :: "string list"

record text_chunk =
  tc_original :: string
  tc_text :: string
  tc_index :: usize
  tc_start_char :: "usize option"
  tc_end_char :: "usize option"
  tc_start_token :: "usize option"
  tc_end_token :: "usize option"
  tc_token_count :: "usize option"

record token_chunk =
  tk_text :: string
  tk_start :: usize
  tk_end :: usize

type_synonym token_encode = "string \<Rightarrow> chunking_error + u32 list"
type_synonym token_decode = "u32 list \<Rightarrow> chunking_error + string"

subsection \<open>Configuration\<close>

definition default_encoding_model :: string where
  "default_encoding_model = ''o200k_base''"

definition overlap_message :: "usize \<Rightarrow> usize \<Rightarrow> string" where
  "overlap_message overlap chunk_size =
     ''overlap '' @ nat_to_dec overlap @ '' must be smaller than size '' @ nat_to_dec chunk_size"

definition config_validate :: "chunking_config \<Rightarrow> chunking_error + unit" where [guard_defs]:
  "config_validate c =
     (if cc_size c \<le> cc_overlap c
      then Inl (InvalidConfig (overlap_message (cc_overlap c) (cc_size c)))
      else Inr ())"

definition config_new :: "usize \<Rightarrow> usize \<Rightarrow> string list \<Rightarrow> chunking_error + chunking_config" where
  "config_new chunk_size overlap prepend =
     (let c = \<lparr>cc_type = TokenOverlap, cc_encoding_model = default_encoding_model,
               cc_size = chunk_size, cc_overlap = overlap, cc_prepend_metadata = prepend\<rparr>
      in and_then (config_validate c) (\<lambda>_. Inr c))"

definition config_default :: chunking_config where
  "config_default =
     \<lparr>cc_type = TokenOverlap, cc_encoding_model = default_encoding_model,
      cc_size = 1200, cc_overlap = 100, cc_prepend_metadata = []\<rparr>"

lemma config_validate_Inr [simp]: "config_validate c = Inr () \<longleftrightarrow> cc_overlap c < cc_size c"
  by (auto simp: config_validate_def)

lemma config_validate_default: "config_validate config_default = Inr ()"
  by (simp add: config_default_def)

subsection \<open>The Unicode-scalar codec\<close>

text \<open>
  Text is a list of Unicode scalar values here (\<open>str::chars\<close>); a \<open>char\<close> of Rust is a code point
  that is not a surrogate and is below 0x110000.
\<close>

definition char_from_u32 :: "u32 \<Rightarrow> u32 option" where
  "char_from_u32 t =
     (if unat t < 0xD800 \<or> 0xDFFF < unat t \<and> unat t < 0x110000 then Some t else None)"

definition unicode_scalar_encode :: "u32 list \<Rightarrow> chunking_error + u32 list" where
  "unicode_scalar_encode text = Inr (map (\<lambda>c. c) text)"

definition unicode_scalar_decode :: "u32 list \<Rightarrow> chunking_error + u32 list" where
  "unicode_scalar_decode tokens =
     try_map (\<lambda>t. ok_or (InvalidToken ''unicode-scalar'' t) (char_from_u32 t)) tokens"

subsection \<open>The token window loop\<close>

definition step_width :: "usize \<Rightarrow> usize \<Rightarrow> usize" where
  "step_width chunk_size chunk_overlap = chunk_size - chunk_overlap" \<comment> \<open>\<open>saturating_sub\<close>\<close>

definition window_end :: "usize \<Rightarrow> usize \<Rightarrow> usize \<Rightarrow> usize" where
  "window_end start_idx chunk_size n = min (usize_sat_add start_idx chunk_size) n"

partial_function (option) window_loop ::
  "token_decode \<Rightarrow> u32 list \<Rightarrow> usize \<Rightarrow> usize \<Rightarrow> usize \<Rightarrow> usize \<Rightarrow> token_chunk list
   \<Rightarrow> (chunking_error + token_chunk list) option" where
  "window_loop decode toks chunk_size chunk_overlap start_idx cur_idx result =
     (if start_idx < length toks then
        (if start_idx \<le> cur_idx \<and> cur_idx \<le> length toks then
           (case decode (take (cur_idx - start_idx) (drop start_idx toks)) of
              Inl e \<Rightarrow> Some (Inl e)
            | Inr text \<Rightarrow>
                (let result' = result @ [\<lparr>tk_text = text, tk_start = start_idx, tk_end = cur_idx - 1\<rparr>]
                 in if cur_idx = length toks then Some (Inr result')
                    else let start_idx' = usize_sat_add start_idx (step_width chunk_size chunk_overlap)
                         in window_loop decode toks chunk_size chunk_overlap start_idx'
                              (window_end start_idx' chunk_size (length toks)) result'))
         else None)
      else Some (Inr result))"

definition split_text_on_tokens_with_spans ::
  "string \<Rightarrow> usize \<Rightarrow> usize \<Rightarrow> token_encode \<Rightarrow> token_decode
   \<Rightarrow> (chunking_error + token_chunk list) option" where
  "split_text_on_tokens_with_spans text chunk_size chunk_overlap encode decode =
     (if chunk_size \<le> chunk_overlap
      then Some (Inl (InvalidConfig (overlap_message chunk_overlap chunk_size)))
      else case encode text of
             Inl e \<Rightarrow> Some (Inl e)
           | Inr toks \<Rightarrow>
               window_loop decode toks chunk_size chunk_overlap 0
                 (window_end 0 chunk_size (length toks)) [])"

definition split_text_on_tokens ::
  "string \<Rightarrow> usize \<Rightarrow> usize \<Rightarrow> token_encode \<Rightarrow> token_decode
   \<Rightarrow> (chunking_error + string list) option" where
  "split_text_on_tokens text chunk_size chunk_overlap encode decode =
     map_option (\<lambda>r. case r of Inl e \<Rightarrow> Inl e | Inr cs \<Rightarrow> Inr (map tk_text cs))
       (split_text_on_tokens_with_spans text chunk_size chunk_overlap encode decode)"

definition create_chunk_result ::
  "token_encode \<Rightarrow> (string \<Rightarrow> string) option \<Rightarrow> nat \<times> token_chunk \<Rightarrow> chunking_error + text_chunk" where
  "create_chunk_result encode transform ic =
     (let chunk = snd ic;
          text = (case transform of None \<Rightarrow> tk_text chunk | Some f \<Rightarrow> f (tk_text chunk))
      in and_then (encode text) (\<lambda>toks. Inr
           \<lparr>tc_original = tk_text chunk, tc_text = text, tc_index = fst ic,
            tc_start_char = None, tc_end_char = None,
            tc_start_token = Some (tk_start chunk), tc_end_token = Some (tk_end chunk),
            tc_token_count = Some (length toks)\<rparr>))"

definition create_chunk_results ::
  "token_chunk list \<Rightarrow> (string \<Rightarrow> string) option \<Rightarrow> token_encode \<Rightarrow> chunking_error + text_chunk list" where
  "create_chunk_results chunks transform encode =
     try_map (create_chunk_result encode transform) (enumerate_from 0 chunks)"

definition token_overlap_chunk ::
  "chunking_config \<Rightarrow> token_encode \<Rightarrow> token_decode \<Rightarrow> string \<Rightarrow> (string \<Rightarrow> string) option
   \<Rightarrow> (chunking_error + text_chunk list) option" where
  "token_overlap_chunk config encode decode text transform =
     map_option (\<lambda>r. and_then r (\<lambda>chunks. create_chunk_results chunks transform encode))
       (split_text_on_tokens_with_spans text (cc_size config) (cc_overlap config) encode decode)"

subsection \<open>The semantic chunker and the dispatch\<close>

text \<open>
  A tokenizer handle offers \<open>encode\<close>, \<open>decode\<close> and \<open>count\<close>; creating one by model name can fail.
  A splitter maps a text to its pieces with their character offsets. Both come from crates the
  code calls. The number of \<open>char\<close>s of a text is its number of bytes that do not continue a
  UTF-8 sequence.
\<close>

record codec =
  cd_encode :: "string \<Rightarrow> u32 list"
  cd_decode :: token_decode
  cd_count :: "string \<Rightarrow> usize"

type_synonym splitter = "string \<Rightarrow> (usize \<times> string) list"

datatype chunker =
    TokenOverlapChunker chunking_config token_encode token_decode
  | SemanticTextChunker chunking_config codec splitter

definition utf8_chars_count :: "string \<Rightarrow> nat" where
  "utf8_chars_count s = length (filter (\<lambda>b. (of_char b :: nat) div 64 \<noteq> 2) s)"

definition semantic_chunk_result ::
  "codec \<Rightarrow> (string \<Rightarrow> string) option \<Rightarrow> nat \<times> usize \<times> string \<Rightarrow> text_chunk" where
  "semantic_chunk_result tokenizer transform ioc =
     (let index = fst ioc; char_offset = fst (snd ioc); original = snd (snd ioc);
          text = (case transform of None \<Rightarrow> original | Some f \<Rightarrow> f original);
          char_len = utf8_chars_count original;
          end_char = usize_sat_add char_offset char_len - 1
      in \<lparr>tc_original = original, tc_text = text, tc_index = index,
          tc_start_char = Some char_offset, tc_end_char = Some end_char,
          tc_start_token = None, tc_end_token = None,
          tc_token_count = Some (cd_count tokenizer text)\<rparr>)"

fun chunker_chunk ::
  "chunker \<Rightarrow> string \<Rightarrow> (string \<Rightarrow> string) option \<Rightarrow> (chunking_error + text_chunk list) option" where
  "chunker_chunk (TokenOverlapChunker config encode decode) text transform =
     token_overlap_chunk config encode decode text transform"
| "chunker_chunk (SemanticTextChunker config tokenizer splitter) text transform =
     Some (Inr (map (semantic_chunk_result tokenizer transform) (enumerate_from 0 (splitter text))))"

definition token_overlap_chunker_new ::
  "chunking_config \<Rightarrow> token_encode \<Rightarrow> token_decode \<Rightarrow> chunking_error + chunker" where
  "token_overlap_chunker_new config encode decode =
     and_then (config_validate config) (\<lambda>_. Inr (TokenOverlapChunker config encode decode))"

definition token_overlap_chunker ::
  "(string \<Rightarrow> chunking_error + codec) \<Rightarrow> chunking_config \<Rightarrow> chunking_error + chunker" where
  "token_overlap_chunker codec_new config =
     and_then (codec_new (cc_encoding_model config)) (\<lambda>tokenizer.
       token_overlap_chunker_new config (\<lambda>text. Inr (cd_encode tokenizer text)) (cd_decode tokenizer))"

definition semantic_text_chunker_new ::
  "(string \<Rightarrow> chunking_error + codec) \<Rightarrow> (codec \<Rightarrow> usize \<Rightarrow> usize \<Rightarrow> string + splitter)
   \<Rightarrow> chunking_config \<Rightarrow> chunking_error + chunker" where
  "semantic_text_chunker_new codec_new splitter_new config =
     and_then (config_validate config) (\<lambda>_.
     and_then (codec_new (cc_encoding_model config)) (\<lambda>tokenizer.
     and_then (map_err InvalidConfig (splitter_new tokenizer (cc_size config) (cc_overlap config))) (\<lambda>splitter.
       Inr (SemanticTextChunker config tokenizer splitter))))"

definition create_chunker ::
  "(string \<Rightarrow> chunking_error + codec) \<Rightarrow> (codec \<Rightarrow> usize \<Rightarrow> usize \<Rightarrow> string + splitter)
   \<Rightarrow> chunking_config \<Rightarrow> chunking_error + chunker" where
  "create_chunker codec_new splitter_new config =
     and_then (config_validate config) (\<lambda>_.
       case cc_type config of
         TokenOverlap \<Rightarrow> token_overlap_chunker codec_new config
       | SemanticText \<Rightarrow> semantic_text_chunker_new codec_new splitter_new config)"

subsection \<open>Metadata transforms\<close>

record metadata_transform =
  mt_metadata_text :: string
  mt_append :: bool

definition metadata_apply :: "metadata_transform \<Rightarrow> string \<Rightarrow> string" where
  "metadata_apply t text =
     (if mt_append t then text @ mt_metadata_text t else mt_metadata_text t @ text)"

text \<open>\<open>json_text\<close> is \<open>Value::to_string\<close>, the serialiser of \<open>serde_json\<close>.\<close>

fun value_to_text :: "('f json \<Rightarrow> string) \<Rightarrow> 'f json \<Rightarrow> string" where
  "value_to_text json_text JNull = ''None''"
| "value_to_text json_text (JBool b) = (if b then ''true'' else ''false'')"
| "value_to_text json_text (JNumber n) = json_text (JNumber n)"
| "value_to_text json_text (JString s) = s"
| "value_to_text json_text v = json_text v"

definition add_metadata ::
  "('f json \<Rightarrow> string) \<Rightarrow> (string \<times> 'f json) list \<Rightarrow> string \<Rightarrow> string \<Rightarrow> bool \<Rightarrow> metadata_transform" where
  "add_metadata json_text metadata delimiter line_delimiter at_end =
     \<lparr>mt_metadata_text =
        join_with line_delimiter
          (map (\<lambda>(key, v). key @ delimiter @ value_to_text json_text v) metadata) @ line_delimiter,
      mt_append = at_end\<rparr>"

definition prepend_metadata ::
  "('f json \<Rightarrow> string) \<Rightarrow> string \<Rightarrow> (string \<times> 'f json) list \<Rightarrow> string" where
  "prepend_metadata json_text text metadata =
     metadata_apply (add_metadata json_text metadata '': '' [CHR 0x0A] False) text"

subsection \<open>Reference window sequence\<close>

text \<open>The windows a text of \<open>n\<close> tokens is cut into, without any loop.\<close>

definition last_window :: "nat \<Rightarrow> nat \<Rightarrow> nat \<Rightarrow> nat" where
  "last_window n chunk_size overlap =
     (n - chunk_size + (chunk_size - overlap) - 1) div (chunk_size - overlap)"

definition window_starts :: "nat \<Rightarrow> nat \<Rightarrow> nat \<Rightarrow> nat list" where
  "window_starts n chunk_size overlap =
     (if n = 0 then []
      else map (\<lambda>i. i * (chunk_size - overlap)) [0..<Suc (last_window n chunk_size overlap)])"

definition decode_window ::
  "token_decode \<Rightarrow> u32 list \<Rightarrow> nat \<Rightarrow> nat \<Rightarrow> chunking_error + token_chunk" where
  "decode_window decode toks chunk_size start =
     (let stop = min (start + chunk_size) (length toks)
      in and_then (decode (take (stop - start) (drop start toks))) (\<lambda>text.
           Inr \<lparr>tk_text = text, tk_start = start, tk_end = stop - 1\<rparr>))"

lemma last_window_iff:
  assumes "ov < sz"
  shows "n \<le> i * (sz - ov) + sz \<longleftrightarrow> last_window n sz ov \<le> i"
proof -
  let ?s = "sz - ov"
  have s: "0 < ?s" using assms by simp
  have "last_window n sz ov \<le> i \<longleftrightarrow> n - sz + ?s - 1 < Suc i * ?s"
    using s by (simp only: last_window_def less_mult_imp_div_less div_less_iff_less_mult flip: less_Suc_eq_le)
  also have "\<dots> \<longleftrightarrow> n - sz \<le> i * ?s"
    using s by auto
  also have "\<dots> \<longleftrightarrow> n \<le> i * ?s + sz" by auto
  finally show ?thesis by simp
qed

lemma window_start_less:
  assumes "ov < sz" and "0 < n" and "i \<le> last_window n sz ov"
  shows "i * (sz - ov) < n"
proof (cases i)
  case 0
  with assms show ?thesis by simp
next
  case (Suc j)
  with assms have "\<not> n \<le> j * (sz - ov) + sz"
    by (simp add: last_window_iff)
  with Suc show ?thesis by simp
qed

lemma window_loop_from:
  assumes ov: "ov < sz" and n: "0 < length toks" "length toks \<le> usize_max"
    and i: "i \<le> last_window (length toks) sz ov"
  shows "window_loop decode toks sz ov (i * (sz - ov)) (window_end (i * (sz - ov)) sz (length toks)) acc =
         Some (and_then (try_map (decode_window decode toks sz)
                  (map (\<lambda>i. i * (sz - ov)) [i..<Suc (last_window (length toks) sz ov)]))
               (\<lambda>cs. Inr (acc @ cs)))"
  using i
proof (induction "last_window (length toks) sz ov - i" arbitrary: i acc)
  case 0
  let ?n = "length toks" and ?st = "i * (sz - ov)"
  from 0 have i: "i = last_window ?n sz ov" by simp
  have lt: "?st < ?n" using ov n 0(2) by (intro window_start_less) auto
  have "?n \<le> ?st + sz" using last_window_iff [OF ov] i by simp
  then have we: "window_end ?st sz ?n = ?n" and st: "min (?st + sz) ?n = ?n"
    using n by (auto simp: window_end_def usize_sat_add_def)
  show ?case using lt
    by (subst window_loop.simps)
       (simp add: we i [symmetric] decode_window_def st Let_def split: sum.split)
next
  case (Suc k)
  let ?n = "length toks" and ?st = "i * (sz - ov)"
  from Suc have i: "i < last_window ?n sz ov" by simp
  have lt: "?st < ?n" using ov n i by (intro window_start_less) auto
  have "\<not> ?n \<le> ?st + sz" using last_window_iff [OF ov] i by simp
  then have we: "window_end ?st sz ?n = ?st + sz" and st: "min (?st + sz) ?n = ?st + sz"
    using n by (auto simp: window_end_def usize_sat_add_def)
  have next_lt: "Suc i * (sz - ov) < ?n" using ov n i by (intro window_start_less) auto
  then have nxt: "usize_sat_add ?st (step_width sz ov) = Suc i * (sz - ov)"
    using n by (simp add: usize_sat_add_def step_width_def)
  have IH: "window_loop decode toks sz ov (Suc i * (sz - ov)) (window_end (Suc i * (sz - ov)) sz ?n) acc' =
     Some (and_then (try_map (decode_window decode toks sz)
       (map (\<lambda>i. i * (sz - ov)) [Suc i..<Suc (last_window ?n sz ov)])) (\<lambda>cs. Inr (acc' @ cs)))" for acc'
    using Suc i by (intro Suc.hyps) auto
  have upt: "[i..<Suc (last_window ?n sz ov)] = i # [Suc i..<Suc (last_window ?n sz ov)]"
    using i by (simp add: upt_conv_Cons)
  have neq: "?st + sz \<noteq> ?n" "?st + sz \<le> ?n" using \<open>\<not> ?n \<le> ?st + sz\<close> by auto
  show ?case
    using lt neq unfolding upt
    by (subst window_loop.simps)
       (simp add: we decode_window_def st Let_def nxt IH del: mult_Suc upt_Suc split: sum.split,
        cases "decode (take sz (drop ?st toks))"; simp add: and_then_assoc)
qed

lemma window_loop_exact:
  assumes "ov < sz" and "length toks \<le> usize_max"
  shows "window_loop decode toks sz ov 0 (window_end 0 sz (length toks)) [] =
         Some (try_map (decode_window decode toks sz) (window_starts (length toks) sz ov))"
proof (cases "toks = []")
  case True
  then show ?thesis by (simp add: window_loop.simps window_starts_def)
next
  case False
  then show ?thesis
    using window_loop_from [OF assms(1) _ assms(2), of 0 decode "[]"]
    by (simp add: window_starts_def del: upt_Suc)
qed

text \<open>C40: The token window loop always ends and computes exactly the strict sliding windows: an
  overlap that is not smaller than the chunk size is rejected before anything is encoded, an
  encoding error is passed through, and otherwise window \<open>i\<close> starts at token
  \<open>i * (size - overlap)\<close>, the windows stop at the first one that reaches the end of the text, and
  the first window that fails to decode gives the error. The hypothesis is the bound every Rust
  vector length satisfies.\<close>

theorem split_text_on_tokens_with_spans_exact:
  assumes "\<And>toks. encode text = Inr toks \<Longrightarrow> length toks \<le> usize_max"
  shows "split_text_on_tokens_with_spans text sz ov encode decode =
         Some (if sz \<le> ov then Inl (InvalidConfig (overlap_message ov sz))
               else and_then (encode text) (\<lambda>toks.
                      try_map (decode_window decode toks sz) (window_starts (length toks) sz ov)))"
  using assms
  by (cases "encode text") (auto simp: split_text_on_tokens_with_spans_def window_loop_exact)

theorem split_text_on_tokens_with_spans_exact_witness:
  "split_text_on_tokens_with_spans ''abcde'' 3 1 (\<lambda>t. Inr (map of_char t))
     (\<lambda>ts. Inr (map (\<lambda>w. char_of (unat w)) ts)) =
   Some (Inr [\<lparr>tk_text = ''abc'', tk_start = 0, tk_end = 2\<rparr>, \<lparr>tk_text = ''cde'', tk_start = 2, tk_end = 4\<rparr>])"
proof (rule trans [OF split_text_on_tokens_with_spans_exact])
  show "length toks \<le> usize_max"
    if "(Inr (map of_char ''abcde'') :: chunking_error + u32 list) = Inr toks" for toks
    using that by (auto simp: usize_max_def)
qed code_simp

lemma decode_window_Inr:
  "decode_window decode toks sz st = Inr c \<Longrightarrow>
   tk_start c = st \<and> tk_end c = min (st + sz) (length toks) - 1 \<and>
   decode (take (min (st + sz) (length toks) - st) (drop st toks)) = Inr (tk_text c)"
  by (auto simp: decode_window_def Let_def and_then_Inr_iff)

lemma window_starts_nth:
  "i < length (window_starts n sz ov) \<Longrightarrow> window_starts n sz ov ! i = i * (sz - ov)"
  by (auto simp: window_starts_def simp del: upt_Suc split: if_splits)

lemma length_window_starts:
  "length (window_starts n sz ov) = (if n = 0 then 0 else Suc (last_window n sz ov))"
  by (simp add: window_starts_def)

lemma windows_cover:
  assumes ov: "ov < sz" and j: "j < n"
  shows "\<exists>i < length (window_starts n sz ov). i * (sz - ov) \<le> j \<and> j < min (i * (sz - ov) + sz) n"
proof (cases "j div (sz - ov) \<le> last_window n sz ov")
  case True
  let ?i = "j div (sz - ov)"
  have "j < ?i * (sz - ov) + (sz - ov)"
    using ov by (metis add.commute dividend_less_times_div mult.commute zero_less_diff)
  then have "j < ?i * (sz - ov) + sz" by simp
  with True j show ?thesis
    by (intro exI [of _ ?i]) (simp add: length_window_starts)
next
  case False
  let ?i = "last_window n sz ov"
  have "?i * (sz - ov) \<le> j div (sz - ov) * (sz - ov)" using False by simp
  also have "\<dots> \<le> j" by simp
  finally have "?i * (sz - ov) \<le> j" .
  moreover have "n \<le> ?i * (sz - ov) + sz" using last_window_iff [OF ov] by simp
  ultimately show ?thesis using j
    by (intro exI [of _ ?i]) (simp add: length_window_starts)
qed

lemma window_not_last:
  assumes "ov < sz" and "Suc i < length (window_starts n sz ov)"
  shows "i * (sz - ov) + sz < n"
  using assms last_window_iff [OF assms(1), of n i] by (auto simp: length_window_starts split: if_splits)

lemma split_spans_Inr:
  assumes "split_text_on_tokens_with_spans text sz ov encode decode = Some (Inr cs)"
    and "encode text = Inr toks" and "length toks \<le> usize_max"
  shows "ov < sz" and "length cs = length (window_starts (length toks) sz ov)"
    and "i < length cs \<Longrightarrow> decode_window decode toks sz (i * (sz - ov)) = Inr (cs ! i)"
proof -
  show ov: "ov < sz" using assms(1) by (auto simp: split_text_on_tokens_with_spans_def split: if_splits)
  have "try_map (decode_window decode toks sz) (window_starts (length toks) sz ov) = Inr cs"
    using assms ov by (simp add: split_text_on_tokens_with_spans_def window_loop_exact)
  then have all2: "list_all2 (\<lambda>st c. decode_window decode toks sz st = Inr c)
      (window_starts (length toks) sz ov) cs"
    by (simp add: try_map_Inr_iff)
  show len: "length cs = length (window_starts (length toks) sz ov)"
    using list_all2_lengthD [OF all2] by simp
  show "decode_window decode toks sz (i * (sz - ov)) = Inr (cs ! i)" if "i < length cs"
    using list_all2_nthD2 [OF all2 that] that len by (simp add: window_starts_nth)
qed

lemma token_chunks_facts:
  assumes split: "split_text_on_tokens_with_spans text sz ov encode decode = Some (Inr cs)"
    and enc: "encode text = Inr toks" and len: "length toks \<le> usize_max"
  shows "\<forall>j < length toks. \<exists>c \<in> set cs. tk_start c \<le> j \<and> j \<le> tk_end c"
    and "\<forall>c \<in> set cs. tk_start c \<le> tk_end c \<and> tk_end c < length toks
           \<and> tk_end c + 1 - tk_start c \<le> sz
           \<and> decode (take (tk_end c + 1 - tk_start c) (drop (tk_start c) toks)) = Inr (tk_text c)"
    and "\<forall>i. Suc i < length cs \<longrightarrow> tk_end (cs ! i) + 1 - tk_start (cs ! Suc i) = ov"
proof -
  note S = split_spans_Inr [OF split enc len]
  let ?n = "length toks" and ?s = "sz - ov"
  have start_lt: "i * ?s < ?n" if "i < length cs" for i
    using that S(1,2) by (auto simp: length_window_starts intro: window_start_less split: if_splits)
  have nth: "tk_start (cs ! i) = i * ?s" "tk_end (cs ! i) = min (i * ?s + sz) ?n - 1"
    "decode (take (min (i * ?s + sz) ?n - i * ?s) (drop (i * ?s) toks)) = Inr (tk_text (cs ! i))"
    if "i < length cs" for i
    using decode_window_Inr [OF S(3) [OF that]] by auto
  show "\<forall>j < ?n. \<exists>c \<in> set cs. tk_start c \<le> j \<and> j \<le> tk_end c"
  proof (intro allI impI)
    fix j assume "j < ?n"
    from windows_cover [OF S(1) this] obtain i where i: "i < length cs" "i * ?s \<le> j" "j < min (i * ?s + sz) ?n"
      using S(2) by auto
    then show "\<exists>c \<in> set cs. tk_start c \<le> j \<and> j \<le> tk_end c"
      using nth [OF i(1)] by (intro bexI [of _ "cs ! i"]) auto
  qed
  show "\<forall>c \<in> set cs. tk_start c \<le> tk_end c \<and> tk_end c < ?n \<and> tk_end c + 1 - tk_start c \<le> sz
           \<and> decode (take (tk_end c + 1 - tk_start c) (drop (tk_start c) toks)) = Inr (tk_text c)"
  proof
    fix c assume "c \<in> set cs"
    then obtain i where i: "i < length cs" "c = cs ! i" by (auto simp: in_set_conv_nth)
    have "i * ?s < min (i * ?s + sz) ?n" using start_lt [OF i(1)] S(1) by simp
    then show "tk_start c \<le> tk_end c \<and> tk_end c < ?n \<and> tk_end c + 1 - tk_start c \<le> sz
           \<and> decode (take (tk_end c + 1 - tk_start c) (drop (tk_start c) toks)) = Inr (tk_text c)"
      using nth [OF i(1)] i(2) by auto
  qed
  show "\<forall>i. Suc i < length cs \<longrightarrow> tk_end (cs ! i) + 1 - tk_start (cs ! Suc i) = ov"
  proof (intro allI impI)
    fix i assume i: "Suc i < length cs"
    then have "i * ?s + sz < ?n" using S(1,2) by (simp add: window_not_last)
    then have "tk_end (cs ! i) + 1 = i * ?s + sz" using nth(2) [of i] i S(1) by simp
    then show "tk_end (cs ! i) + 1 - tk_start (cs ! Suc i) = ov"
      using nth(1) [OF i] S(1) by simp
  qed
qed

text \<open>Whenever the split succeeds, the chunks cover every token, no chunk holds more than
  \<open>chunk_size\<close> tokens, every chunk text is the decoding of exactly the tokens of its span, and
  each chunk shares exactly \<open>chunk_overlap\<close> tokens with the one before it.\<close>

theorem token_chunks_cover_and_overlap:
  assumes "split_text_on_tokens_with_spans text sz ov encode decode = Some (Inr cs)"
    and "encode text = Inr toks" and "length toks \<le> usize_max"
  shows "(\<forall>j < length toks. \<exists>c \<in> set cs. tk_start c \<le> j \<and> j \<le> tk_end c)
    \<and> (\<forall>c \<in> set cs. tk_start c \<le> tk_end c \<and> tk_end c < length toks
           \<and> tk_end c + 1 - tk_start c \<le> sz
           \<and> decode (take (tk_end c + 1 - tk_start c) (drop (tk_start c) toks)) = Inr (tk_text c))
    \<and> (\<forall>i. Suc i < length cs \<longrightarrow> tk_end (cs ! i) + 1 - tk_start (cs ! Suc i) = ov)"
  by (intro conjI token_chunks_facts [OF assms])

theorem token_chunks_cover_and_overlap_witness:
  "let cs = [\<lparr>tk_text = ''abc'', tk_start = 0, tk_end = 2\<rparr>, \<lparr>tk_text = ''cde'', tk_start = 2, tk_end = 4\<rparr>]
   in \<forall>j < 5. \<exists>c \<in> set cs. tk_start c \<le> j \<and> j \<le> tk_end c"
proof -
  define enc :: token_encode where "enc = (\<lambda>t. Inr (map of_char t))"
  define dec :: token_decode where "dec = (\<lambda>ts. Inr (map (\<lambda>w. char_of (unat w)) ts))"
  define toks :: "u32 list" where "toks = map of_char ''abcde''"
  let ?cs = "[\<lparr>tk_text = ''abc'', tk_start = 0, tk_end = 2\<rparr>, \<lparr>tk_text = ''cde'', tk_start = 2, tk_end = 4\<rparr>]"
  have len: "length toks \<le> usize_max" and five: "length toks = 5"
    by (simp_all add: toks_def usize_max_def)
  have enc: "enc ''abcde'' = Inr toks" by (simp add: enc_def toks_def)
  have "try_map (decode_window dec toks 3) (window_starts (length toks) 3 1) = Inr ?cs"
    unfolding dec_def toks_def by code_simp
  then have "split_text_on_tokens_with_spans ''abcde'' 3 1 enc dec = Some (Inr ?cs)"
    using window_loop_exact [of 1 3 toks dec] len enc
    by (simp add: split_text_on_tokens_with_spans_def)
  from token_chunks_cover_and_overlap [OF this enc len] five show ?thesis
    unfolding Let_def by simp
qed

subsection \<open>Chunkers as created\<close>

lemma try_map_create_chunk_length:
  "create_chunk_results chunks transform encode = Inr rs \<Longrightarrow> length rs = length chunks"
  unfolding create_chunk_results_def
  by (drule try_map_length) (simp add: enumerate_from_conv)

definition chunker_kind :: "chunker \<Rightarrow> chunker_type" where
  "chunker_kind c =
     (case c of TokenOverlapChunker _ _ _ \<Rightarrow> TokenOverlap | SemanticTextChunker _ _ _ \<Rightarrow> SemanticText)"

lemmas create_chunker_defs =
  create_chunker_def token_overlap_chunker_def semantic_text_chunker_new_def
  token_overlap_chunker_new_def chunker_kind_def and_then_Inr_iff

lemma created_chunker_chunk:
  assumes "create_chunker codec_new splitter_new config = Inr c"
    and "\<And>tok text. codec_new (cc_encoding_model config) = Inr tok \<Longrightarrow> length (cd_encode tok text) \<le> usize_max"
  shows "\<exists>r. chunker_chunk c text transform = Some r"
  using assms
  by (auto simp: create_chunker_defs token_overlap_chunk_def split_text_on_tokens_with_spans_def
      window_loop_exact split: chunker_type.splits)

text \<open>Creating a chunker rejects an overlap that is not smaller than the size before any
  tokenizer is made; a chunker that was created has the configured kind, and chunking any text with
  it returns (a value or an error of the tokenizer, never a panic or an endless loop), as long as
  encodings are real vectors.\<close>

theorem create_chunker_total:
  assumes "\<And>tok text. codec_new (cc_encoding_model config) = Inr tok \<Longrightarrow> length (cd_encode tok text) \<le> usize_max"
  shows "case create_chunker codec_new splitter_new config of
           Inl e \<Rightarrow> cc_overlap config < cc_size config
                    \<or> e = InvalidConfig (overlap_message (cc_overlap config) (cc_size config))
         | Inr c \<Rightarrow> cc_overlap config < cc_size config \<and> chunker_kind c = cc_type config
                    \<and> (\<exists>r. chunker_chunk c input transform = Some r)"
proof (cases "create_chunker codec_new splitter_new config")
  case (Inl e)
  then show ?thesis
    by (auto simp: create_chunker_def config_validate_def split: if_splits)
next
  case (Inr c)
  then have "cc_overlap config < cc_size config \<and> chunker_kind c = cc_type config"
    by (auto simp: create_chunker_defs split: chunker_type.splits)
  with Inr created_chunker_chunk [OF Inr assms] show ?thesis by simp
qed

theorem create_chunker_total_witness:
  "\<exists>r. chunker_chunk (TokenOverlapChunker config_default (\<lambda>text. Inr []) (\<lambda>ts. Inr [])) ''abc'' None = Some r"
proof -
  define tok :: codec where "tok = \<lparr>cd_encode = (\<lambda>_. []), cd_decode = (\<lambda>_. Inr []), cd_count = (\<lambda>_. 0)\<rparr>"
  have "create_chunker (\<lambda>_. Inr tok) (\<lambda>_ _ _. Inl []) config_default =
        Inr (TokenOverlapChunker config_default (\<lambda>text. Inr []) (\<lambda>ts. Inr []))"
    by (simp add: create_chunker_def token_overlap_chunker_def token_overlap_chunker_new_def
        config_default_def config_validate_def tok_def)
  moreover have "length (cd_encode t x) \<le> usize_max" if "(Inr tok :: chunking_error + codec) = Inr t" for t x
    using that by (auto simp: tok_def)
  ultimately show ?thesis
    using create_chunker_total [where codec_new = "\<lambda>_. Inr tok" and config = config_default
        and splitter_new = "\<lambda>_ _ _. Inl []" and input = "''abc''" and transform = None]
    by simp
qed

lemma unicode_scalar_roundtrip:
  assumes "\<forall>c \<in> set text. char_from_u32 c \<noteq> None"
  shows "and_then (unicode_scalar_encode text) unicode_scalar_decode = Inr text"
proof -
  have "try_map (\<lambda>t. ok_or (InvalidToken ''unicode-scalar'' t) (char_from_u32 t)) text = Inr (map (\<lambda>t. t) text)"
    using assms by (intro try_map_total) (force simp: char_from_u32_def split: if_splits)
  then show ?thesis
    by (simp add: unicode_scalar_encode_def unicode_scalar_decode_def)
qed

end
