(* ===== verification/Cache_Key.thy ===== *)
theory Cache_Key
  imports Prelude "HOL-Library.Multiset"
begin

text \<open>
  Cache keys of model requests (\<open>graphloom-llm\<close>, \<open>cache_key.rs\<close>): the YAML text of a request, written as
  PyYAML writes it, and the hash of that text. Text is a list of code points here, because escaping depends on
  them. \<open>serde_json\<close> numbers, their printing and the hash function are third-party: parameters.
\<close>

subsection \<open>Text\<close>

type_synonym utext = "nat list"

definition u :: "string \<Rightarrow> utext" where
  "u s = map of_char s"

definition spaces :: "usize \<Rightarrow> utext" where
  "spaces n = replicate n 32"

definition is_whitespace :: "nat \<Rightarrow> bool" where
  "is_whitespace c \<longleftrightarrow> 9 \<le> c \<and> c \<le> 13 \<or> c \<in> {0x20, 0x85, 0xA0, 0x1680, 0x2028, 0x2029, 0x202F, 0x205F, 0x3000} \<or> 0x2000 \<le> c \<and> c \<le> 0x200A"

fun has_pair :: "nat \<Rightarrow> nat \<Rightarrow> utext \<Rightarrow> bool" where
  "has_pair a b (x # y # cs) \<longleftrightarrow> x = a \<and> y = b \<or> has_pair a b (y # cs)"
| "has_pair a b _ \<longleftrightarrow> False"

definition starts_with :: "utext \<Rightarrow> utext \<Rightarrow> bool" where
  "starts_with p cs \<longleftrightarrow> take (length p) cs = p"

definition printable :: "nat \<Rightarrow> bool" where
  "printable c \<longleftrightarrow> 32 \<le> c \<and> c \<le> 126"

subsection \<open>The implicit scalars of PyYAML\<close>

text \<open>The pattern is a regular expression over code points; matching is by derivatives.\<close>

datatype rx = Nil_rx | Eps | Cls "(nat \<times> nat) list" | Seq rx rx | Alt rx rx | Star rx

fun rx_nullable :: "rx \<Rightarrow> bool" where
  "rx_nullable Nil_rx \<longleftrightarrow> False"
| "rx_nullable Eps \<longleftrightarrow> True"
| "rx_nullable (Cls rs) \<longleftrightarrow> False"
| "rx_nullable (Seq r s) \<longleftrightarrow> rx_nullable r \<and> rx_nullable s"
| "rx_nullable (Alt r s) \<longleftrightarrow> rx_nullable r \<or> rx_nullable s"
| "rx_nullable (Star r) \<longleftrightarrow> True"

fun rx_deriv :: "nat \<Rightarrow> rx \<Rightarrow> rx" where
  "rx_deriv c Nil_rx = Nil_rx"
| "rx_deriv c Eps = Nil_rx"
| "rx_deriv c (Cls rs) = (if list_ex (\<lambda>(lo, hi). lo \<le> c \<and> c \<le> hi) rs then Eps else Nil_rx)"
| "rx_deriv c (Seq r s) =
     (if rx_nullable r then Alt (Seq (rx_deriv c r) s) (rx_deriv c s) else Seq (rx_deriv c r) s)"
| "rx_deriv c (Alt r s) = Alt (rx_deriv c r) (rx_deriv c s)"
| "rx_deriv c (Star r) = Seq (rx_deriv c r) (Star r)"

fun rx_match :: "rx \<Rightarrow> utext \<Rightarrow> bool" where
  "rx_match r [] \<longleftrightarrow> rx_nullable r"
| "rx_match r (c # cs) \<longleftrightarrow> rx_match (rx_deriv c r) cs"

fun rx_seq :: "rx list \<Rightarrow> rx" where
  "rx_seq [] = Eps"
| "rx_seq [r] = r"
| "rx_seq (r # rs) = Seq r (rx_seq rs)"

fun rx_alt :: "rx list \<Rightarrow> rx" where
  "rx_alt [] = Nil_rx"
| "rx_alt [r] = r"
| "rx_alt (r # rs) = Alt r (rx_alt rs)"

definition rx_text :: "string \<Rightarrow> rx" where
  "rx_text s = rx_seq (map (\<lambda>c. Cls [(c, c)]) (u s))"

definition rx_words :: "string list \<Rightarrow> rx" where
  "rx_words ws = rx_alt (map rx_text ws)"

definition rx_in :: "(string \<times> string) list \<Rightarrow> rx" where
  "rx_in rs = Cls (map (\<lambda>(lo, hi). (hd (u lo), hd (u hi))) rs)"

definition rx_opt :: "rx \<Rightarrow> rx" where "rx_opt r = Alt r Eps"
definition rx_plus :: "rx \<Rightarrow> rx" where "rx_plus r = Seq r (Star r)"
definition rx_times :: "nat \<Rightarrow> rx \<Rightarrow> rx" where "rx_times n r = rx_seq (replicate n r)"

abbreviation rx_sign :: rx where "rx_sign \<equiv> rx_opt (rx_in [(''-'', ''-''), (''+'', ''+'')])"
abbreviation rx_digit :: rx where "rx_digit \<equiv> rx_in [(''0'', ''9'')]"
abbreviation rx_numeral :: rx where "rx_numeral \<equiv> rx_in [(''0'', ''9''), (''_'', ''_'')]"
abbreviation rx_exponent :: rx where
  "rx_exponent \<equiv> rx_opt (rx_seq [rx_in [(''e'', ''e''), (''E'', ''E'')], rx_in [(''-'', ''-''), (''+'', ''+'')], rx_plus rx_digit])"
abbreviation rx_sexagesimal :: rx where
  "rx_sexagesimal \<equiv> rx_plus (rx_seq [rx_text '':'', rx_opt (rx_in [(''0'', ''5'')]), rx_digit])"
abbreviation rx_blank :: rx where "rx_blank \<equiv> Cls [(0x20, 0x20), (9, 9)]"
abbreviation rx_one_or_two :: rx where "rx_one_or_two \<equiv> Seq rx_digit (rx_opt rx_digit)"

definition implicit_scalar_rx :: rx where
  "implicit_scalar_rx = rx_alt
     [rx_words [''yes'', ''Yes'', ''YES'', ''no'', ''No'', ''NO'', ''true'', ''True'', ''TRUE'', ''false'', ''False'', ''FALSE'',
                ''on'', ''On'', ''ON'', ''off'', ''Off'', ''OFF''],
      rx_words [''~'', ''null'', ''Null'', ''NULL''],
      rx_seq [rx_sign, rx_text ''0b'', rx_plus (rx_in [(''0'', ''1''), (''_'', ''_'')])],
      rx_seq [rx_sign, rx_text ''0'', rx_plus (rx_in [(''0'', ''7''), (''_'', ''_'')])],
      rx_seq [rx_sign, Alt (rx_text ''0'') (Seq (rx_in [(''1'', ''9'')]) (Star rx_numeral))],
      rx_seq [rx_sign, rx_text ''0x'', rx_plus (rx_in [(''0'', ''9''), (''a'', ''f''), (''A'', ''F''), (''_'', ''_'')])],
      rx_seq [rx_sign, rx_in [(''1'', ''9'')], Star rx_numeral, rx_sexagesimal],
      rx_seq [rx_sign, rx_digit, Star rx_numeral, rx_text ''.'', Star rx_numeral, rx_exponent],
      rx_seq [rx_text ''.'', rx_digit, Star rx_numeral, rx_exponent],
      rx_seq [rx_sign, rx_digit, Star rx_numeral, rx_sexagesimal, rx_text ''.'', Star rx_numeral],
      rx_seq [rx_sign, rx_text ''.'', rx_words [''inf'', ''Inf'', ''INF'']],
      rx_seq [rx_text ''.'', rx_words [''nan'', ''NaN'', ''NAN'']],
      rx_seq [rx_times 4 rx_digit, rx_text ''-'', rx_times 2 rx_digit, rx_text ''-'', rx_times 2 rx_digit],
      rx_seq [rx_times 4 rx_digit, rx_text ''-'', rx_one_or_two, rx_text ''-'', rx_one_or_two,
              Alt (rx_in [(''T'', ''T''), (''t'', ''t'')]) (rx_plus rx_blank), rx_one_or_two,
              rx_text '':'', rx_times 2 rx_digit, rx_text '':'', rx_times 2 rx_digit,
              rx_opt (Seq (rx_text ''.'') (Star rx_digit)),
              rx_opt (Seq (Star rx_blank)
                (Alt (rx_text ''Z'') (rx_seq [rx_in [(''-'', ''-''), (''+'', ''+'')], rx_one_or_two,
                   rx_opt (Seq (rx_text '':'') (rx_times 2 rx_digit))])))]]"

definition resembles_yaml_implicit_scalar :: "utext \<Rightarrow> bool" where
  "resembles_yaml_implicit_scalar cs \<longleftrightarrow> rx_match implicit_scalar_rx cs \<or> cs \<in> {u ''<<'', u ''=''}"

subsection \<open>Values\<close>

datatype 'n jvalue =
    VNull
  | VBool bool
  | VNumber 'n
  | VString utext
  | VArray "'n jvalue list"
  | VObject "(utext \<times> 'n jvalue) list"

record 'n number_env =
  ne_to_string :: "'n \<Rightarrow> utext"           \<comment> \<open>\<open>Number::to_string\<close>\<close>
  ne_f64_string :: "'n \<Rightarrow> utext option"   \<comment> \<open>\<open>as_f64\<close>, printed\<close>

datatype cache_error = CacheKeyParse string

definition cache_version :: nat where "cache_version = 4"

definition excluded_keys :: "utext list" where
  "excluded_keys = map u [''metrics'', ''stream'', ''stream_options'', ''mock_response'', ''timeout'', ''base_url'',
     ''api_base'', ''api_version'', ''api_key'', ''azure_ad_token_provider'', ''drop_params'']"

fun filter_cache_parameters :: "'n jvalue \<Rightarrow> 'n jvalue" where
  "filter_cache_parameters (VObject entries) = VObject (filter (\<lambda>(k, _). k \<notin> set excluded_keys) entries)"
| "filter_cache_parameters v = v"

subsection \<open>Scalars\<close>

record scalar_context =
  sc_initial_column :: usize
  sc_continuation_indent :: usize
  sc_width :: usize

datatype scalar_style = Plain | SingleQuoted | SingleQuotedMultiline | DoubleQuoted
datatype mapping_key_style = Simple | Explicit

definition pyyaml_width :: usize where "pyyaml_width = 80"
definition pyyaml_simple_key_limit :: usize where "pyyaml_simple_key_limit = 128"
definition pyyaml_string_tag_length :: usize where "pyyaml_string_tag_length = 5"
definition yaml_indent_width :: usize where "yaml_indent_width = 2"

fun wrap_words :: "scalar_context \<Rightarrow> usize \<Rightarrow> utext \<Rightarrow> utext" where
  "wrap_words ctx column [] = []"
| "wrap_words ctx column (c # cs) =
     (if c = 32 \<and> sc_width ctx < column \<and> cs \<noteq> []
      then 10 # spaces (sc_continuation_indent ctx) @ wrap_words ctx (sc_continuation_indent ctx) cs
      else c # wrap_words ctx (usize_sat_add column 1) cs)"

definition wrap_scalar_words :: "utext \<Rightarrow> scalar_context \<Rightarrow> utext \<Rightarrow> utext \<Rightarrow> utext" where
  "wrap_scalar_words v ctx prefix suffix =
     prefix @ wrap_words ctx (usize_sat_add (sc_initial_column ctx) (length prefix)) v @ suffix"

definition double_quotes :: "utext \<Rightarrow> utext" where
  "double_quotes v = concat (map (\<lambda>c. if c = 39 then [39, 39] else [c]) v)"

definition format_plain_scalar :: "utext \<Rightarrow> scalar_context \<Rightarrow> utext" where
  "format_plain_scalar v ctx = wrap_scalar_words v ctx [] []"

definition format_single_quoted_scalar :: "utext \<Rightarrow> scalar_context \<Rightarrow> utext" where
  "format_single_quoted_scalar v ctx = wrap_scalar_words (double_quotes v) ctx [39] [39]"

definition original_newline_group :: "usize \<Rightarrow> usize \<Rightarrow> utext" where
  "original_newline_group n continuation_indent = replicate (usize_sat_add n 1) 10 @ spaces continuation_indent"

definition wrapped_line :: "scalar_context \<Rightarrow> bool \<Rightarrow> utext \<Rightarrow> utext \<Rightarrow> utext" where
  "wrapped_line ctx first_line line suffix =
     wrap_scalar_words (double_quotes line)
       (if first_line then ctx else ctx\<lparr>sc_initial_column := sc_continuation_indent ctx\<rparr>)
       (if first_line then [39] else []) suffix"

function multiline_loop :: "scalar_context \<Rightarrow> bool \<Rightarrow> utext \<Rightarrow> utext \<Rightarrow> utext" where
  "multiline_loop ctx first_line line [] = wrapped_line ctx first_line line [39]"
| "multiline_loop ctx first_line line (c # cs) =
     (if c = 10
      then wrapped_line ctx first_line line []
        @ original_newline_group (Suc (length (takeWhile (\<lambda>x. x = 10) cs))) (sc_continuation_indent ctx)
        @ multiline_loop ctx False [] (dropWhile (\<lambda>x. x = 10) cs)
      else multiline_loop ctx first_line (line @ [c]) cs)"
  by pat_completeness auto
termination
  by (relation "measure (\<lambda>(_, _, _, cs). length cs)") (auto simp: less_Suc_eq_le length_dropWhile_le)

definition format_single_quoted_multiline_scalar :: "utext \<Rightarrow> scalar_context \<Rightarrow> utext" where
  "format_single_quoted_multiline_scalar v ctx = multiline_loop ctx True [] v"

definition needs_double_quoted_string :: "utext \<Rightarrow> bool" where
  "needs_double_quoted_string v \<longleftrightarrow>
     list_ex (\<lambda>c. c \<noteq> 10 \<and> \<not> printable c) v \<or> has_pair 10 32 v \<or> has_pair 32 10 v"

definition starts_with_yaml_indicator :: "utext \<Rightarrow> bool" where
  "starts_with_yaml_indicator v =
     (case v of
        [] \<Rightarrow> False
      | first # rest \<Rightarrow>
          first \<in> set (u '',[]{}#&*!|>%@`'') \<union> {34, 39}
          \<or> first \<in> set (u ''-?:'') \<and> (rest = [] \<or> is_whitespace (hd rest))
          \<or> v \<in> {u ''---'', u ''...''}
          \<or> starts_with (u ''--- '') v \<or> starts_with (u ''... '') v)"

definition plain_scalar_is_allowed :: "utext \<Rightarrow> bool" where
  "plain_scalar_is_allowed v \<longleftrightarrow>
     v \<noteq> [] \<and> \<not> is_whitespace (hd v) \<and> \<not> is_whitespace (last v) \<and> \<not> starts_with_yaml_indicator v
     \<and> \<not> resembles_yaml_implicit_scalar v \<and> \<not> has_pair 58 32 v \<and> \<not> has_pair 32 35 v \<and> last v \<noteq> 58"

definition classify_string_scalar :: "utext \<Rightarrow> scalar_style" where
  "classify_string_scalar v =
     (if needs_double_quoted_string v then DoubleQuoted
      else if 10 \<in> set v then SingleQuotedMultiline
      else if plain_scalar_is_allowed v then Plain
      else SingleQuoted)"

definition is_pyyaml_line_break :: "nat \<Rightarrow> bool" where
  "is_pyyaml_line_break c \<longleftrightarrow> c \<in> {10, 0x85, 0x2028, 0x2029}"

definition classify_mapping_key :: "utext \<Rightarrow> mapping_key_style" where
  "classify_mapping_key key =
     (if key \<noteq> [] \<and> \<not> list_ex is_pyyaml_line_break key
        \<and> usize_sat_add (length key) pyyaml_string_tag_length < pyyaml_simple_key_limit
      then Simple else Explicit)"

subsection \<open>Double quotes\<close>

fun yaml_escape_replacement :: "nat \<Rightarrow> nat option" where
  "yaml_escape_replacement c = map_of
     [(0, 48), (7, 97), (8, 98), (9, 116), (10, 110), (11, 118), (12, 102), (13, 114), (27, 101), (34, 34), (92, 92),
      (0x85, 78), (0xA0, 95), (0x2028, 76), (0x2029, 80)] c"

definition hex_digit :: "nat \<Rightarrow> nat" where
  "hex_digit d = (if d < 10 then 48 + d else 55 + d)"

definition hex_upper :: "nat \<Rightarrow> nat \<Rightarrow> utext" where
  "hex_upper w n = map (\<lambda>i. hex_digit (n div 16 ^ i mod 16)) (rev [0..<w])"

definition yaml_numeric_escape :: "nat \<Rightarrow> utext" where
  "yaml_numeric_escape c =
     (if c \<le> 0xFF then [92, 120] @ hex_upper 2 c
      else if c \<le> 0xFFFF then [92, 117] @ hex_upper 4 c
      else [92, 85] @ hex_upper 8 c)"

definition yaml_escape :: "nat \<Rightarrow> utext" where
  "yaml_escape c = (case yaml_escape_replacement c of None \<Rightarrow> yaml_numeric_escape c | Some x \<Rightarrow> [92, x])"

definition needs_yaml_escape :: "nat \<Rightarrow> bool" where
  "needs_yaml_escape c \<longleftrightarrow> yaml_escape_replacement c \<noteq> None \<or> \<not> printable c"

definition projected_double_quoted_column :: "usize \<Rightarrow> usize \<Rightarrow> usize \<Rightarrow> usize" where
  "projected_double_quoted_column column end start =
     (if start \<le> end then usize_sat_add column (end - start) else column - (start - end))"

definition slice :: "'a list \<Rightarrow> usize \<Rightarrow> usize \<Rightarrow> 'a list" where
  "slice xs a b = take (b - a) (drop a xs)"

text \<open>The two halves of the loop body, on the state \<open>(start, column, output)\<close>: writing what is pending before a
  character that is escaped, and breaking the line.\<close>

definition dq_write :: "utext \<Rightarrow> usize \<Rightarrow> usize \<times> usize \<times> utext \<Rightarrow> usize \<times> usize \<times> utext" where
  "dq_write chars end st =
     (case st of (start, column, out) \<Rightarrow>
        let character = (if end < length chars then Some (chars ! end) else None) in
        if (case character of None \<Rightarrow> True | Some c \<Rightarrow> needs_yaml_escape c) then
          (case (if start < end then (end, usize_sat_add column (length (slice chars start end)), out @ slice chars start end) else st) of
             (start, column, out) \<Rightarrow>
               (case character of
                  None \<Rightarrow> (start, column, out)
                | Some c \<Rightarrow> (usize_sat_add end 1, usize_sat_add column (length (yaml_escape c)), out @ yaml_escape c)))
        else st)"

definition dq_break :: "scalar_context \<Rightarrow> utext \<Rightarrow> usize \<Rightarrow> usize \<times> usize \<times> utext \<Rightarrow> usize \<times> usize \<times> utext" where
  "dq_break ctx chars end st =
     (case st of (start, column, out) \<Rightarrow>
        if 0 < end \<and> end < length chars - 1 \<and> (chars ! end = 32 \<or> end \<le> start)
           \<and> sc_width ctx < projected_double_quoted_column column end start
        then
          (let data = (if start < end then slice chars start end else []);
               start = (if start < end then end else start);
               out = out @ data @ [92, 10] @ spaces (sc_continuation_indent ctx);
               column = sc_continuation_indent ctx
           in if start < length chars \<and> chars ! start = 32 then (start, usize_sat_add column 1, out @ [92])
              else (start, column, out))
        else st)"

function dq_loop :: "scalar_context \<Rightarrow> utext \<Rightarrow> usize \<Rightarrow> usize \<times> usize \<times> utext \<Rightarrow> utext" where
  "dq_loop ctx chars end st =
     (if length chars < end then snd (snd st)
      else dq_loop ctx chars (Suc end) (dq_break ctx chars end (dq_write chars end st)))"
  by pat_completeness auto
termination by (relation "measure (\<lambda>(_, chars, end, _). Suc (length chars) - end)") auto

declare dq_loop.simps [simp del]

definition format_double_quoted_scalar :: "utext \<Rightarrow> scalar_context \<Rightarrow> utext" where
  "format_double_quoted_scalar v ctx = dq_loop ctx v 0 (0, usize_sat_add (sc_initial_column ctx) 1, [34]) @ [34]"

definition format_string_with_context :: "utext \<Rightarrow> scalar_context \<Rightarrow> utext" where
  "format_string_with_context v ctx =
     (case classify_string_scalar v of
        Plain \<Rightarrow> format_plain_scalar v ctx
      | SingleQuoted \<Rightarrow> format_single_quoted_scalar v ctx
      | SingleQuotedMultiline \<Rightarrow> format_single_quoted_multiline_scalar v ctx
      | DoubleQuoted \<Rightarrow> format_double_quoted_scalar v ctx)"

definition format_string :: "utext \<Rightarrow> usize \<Rightarrow> usize \<Rightarrow> utext" where
  "format_string v continuation_indent current_column = format_string_with_context v
     \<lparr>sc_initial_column = current_column, sc_continuation_indent = continuation_indent, sc_width = pyyaml_width\<rparr>"

subsection \<open>Documents\<close>

definition cut_exponent :: "utext \<Rightarrow> (utext \<times> utext) option" where
  "cut_exponent r =
     (let mantissa = takeWhile (\<lambda>c. c \<noteq> 101 \<and> c \<noteq> 69) r in
      if length mantissa = length r then None else Some (mantissa, drop (Suc (length mantissa)) r))"

text \<open>\<open>str::parse::<i32>\<close>.\<close>

definition exponent_digits :: "utext \<Rightarrow> nat option" where
  "exponent_digits cs =
     (if cs = [] \<or> list_ex (\<lambda>c. c < 48 \<or> 57 < c) cs then None else Some (foldl (\<lambda>n c. 10 * n + (c - 48)) 0 cs))"

definition exponent_i32 :: "utext \<Rightarrow> int option" where
  "exponent_i32 cs =
     (let (negative, digits) = (case cs of c # rest \<Rightarrow> if c = 45 then (True, rest) else if c = 43 then (False, rest) else (False, cs)
                                | [] \<Rightarrow> (False, [])) in
      case exponent_digits digits of
        None \<Rightarrow> None
      | Some n \<Rightarrow>
          (let i = (if negative then - int n else int n) in if - (2 ^ 31) \<le> i \<and> i < 2 ^ 31 then Some i else None))"

definition two_digits :: "nat \<Rightarrow> utext" where
  "two_digits n = (if n < 10 then 48 # u (nat_to_dec n) else u (nat_to_dec n))"

definition with_fraction :: "utext \<Rightarrow> utext" where
  "with_fraction d = (if 46 \<in> set d then d else d @ u ''.0'')"

definition format_yaml_number :: "'n number_env \<Rightarrow> 'n \<Rightarrow> utext" where
  "format_yaml_number env n =
     (let rendered = ne_to_string env n in
      case cut_exponent rendered of
        None \<Rightarrow> rendered
      | Some (mantissa, digits) \<Rightarrow>
     (case exponent_i32 digits of
        None \<Rightarrow> rendered
      | Some exponent \<Rightarrow>
     (case (if 0 \<le> exponent \<and> exponent \<le> 15 then ne_f64_string env n else None) of
        Some decimal \<Rightarrow> with_fraction decimal
      | None \<Rightarrow>
          with_fraction mantissa @ [101, if exponent < 0 then 45 else 43] @ two_digits (nat \<bar>exponent\<bar>))))"

text \<open>The column counts bytes; the output is ASCII.\<close>

definition current_column :: "utext \<Rightarrow> usize" where
  "current_column out = length (takeWhile (\<lambda>c. c \<noteq> 10) (rev out))"

definition format_scalar :: "'n number_env \<Rightarrow> 'n jvalue \<Rightarrow> usize \<Rightarrow> usize \<Rightarrow> cache_error + utext" where
  "format_scalar env v continuation_indent column =
     (case v of
        VNull \<Rightarrow> Inr (u ''null'')
      | VBool b \<Rightarrow> Inr (if b then u ''true'' else u ''false'')
      | VNumber n \<Rightarrow> Inr (format_yaml_number env n)
      | VString s \<Rightarrow> Inr (format_string s continuation_indent column)
      | _ \<Rightarrow> Inl (CacheKeyParse ''nested value reached scalar formatter''))"

definition write_sequence_prefix :: "usize \<Rightarrow> bool \<Rightarrow> utext \<Rightarrow> utext" where
  "write_sequence_prefix indent inline_first out = (if inline_first then out else out @ spaces indent)"

fun vsize :: "'n jvalue \<Rightarrow> nat" where
  "vsize (VArray vs) = Suc (sum_list (map (\<lambda>v. Suc (vsize v)) vs))"
| "vsize (VObject es) = Suc (sum_list (map (\<lambda>(k, v). Suc (vsize v)) es))"
| "vsize _ = 0"

definition entries_size :: "(utext \<times> 'n jvalue) list \<Rightarrow> nat" where
  "entries_size es = sum_list (map (\<lambda>(k, v). Suc (vsize v)) es)"

definition values_size :: "'n jvalue list \<Rightarrow> nat" where
  "values_size vs = sum_list (map (\<lambda>v. Suc (vsize v)) vs)"

text \<open>\<open>collect::<BTreeMap>\<close> of an object, whose keys are distinct.\<close>

definition sorted_entries :: "(utext \<times> 'n jvalue) list \<Rightarrow> (utext \<times> 'n jvalue) list" where
  "sorted_entries es = sort_key fst es"

lemma entries_size_sorted [simp]: "entries_size (sorted_entries es) = entries_size (es :: (utext \<times> 'n jvalue) list)"
proof -
  have "mset (map f (sort_key fst es)) = mset (map f es)" for f :: "utext \<times> 'n jvalue \<Rightarrow> nat" by simp
  then show ?thesis unfolding entries_size_def sorted_entries_def by (metis sum_mset_sum_list)
qed

lemma size_simps [simp]:
  "vsize (VArray vs) = Suc (values_size vs)" "vsize (VObject es) = Suc (entries_size es)"
  "values_size (v # vs) = Suc (vsize v + values_size vs)" "entries_size ((k, v) # es) = Suc (vsize v + entries_size es)"
  unfolding values_size_def entries_size_def by (rule vsize.simps, rule vsize.simps, simp_all only: list.map sum_list.Cons prod.case add_Suc)

declare vsize.simps(1, 2) [simp del]

function (sequential)
  write_yaml_value :: "'n number_env \<Rightarrow> 'n jvalue \<Rightarrow> usize \<Rightarrow> utext \<Rightarrow> cache_error + utext" and
  write_yaml_mapping :: "'n number_env \<Rightarrow> (utext \<times> 'n jvalue) list \<Rightarrow> usize \<Rightarrow> utext \<Rightarrow> cache_error + utext" and
  write_entries :: "'n number_env \<Rightarrow> (utext \<times> 'n jvalue) list \<Rightarrow> usize \<Rightarrow> bool \<Rightarrow> utext \<Rightarrow> cache_error + utext" and
  write_yaml_mapping_entry :: "'n number_env \<Rightarrow> utext \<Rightarrow> 'n jvalue \<Rightarrow> usize \<Rightarrow> utext \<Rightarrow> cache_error + utext" and
  write_simple_mapping_value :: "'n number_env \<Rightarrow> 'n jvalue \<Rightarrow> usize \<Rightarrow> utext \<Rightarrow> cache_error + utext" and
  write_explicit_mapping_value :: "'n number_env \<Rightarrow> 'n jvalue \<Rightarrow> usize \<Rightarrow> utext \<Rightarrow> cache_error + utext" and
  write_yaml_sequence :: "'n number_env \<Rightarrow> 'n jvalue list \<Rightarrow> usize \<Rightarrow> utext \<Rightarrow> cache_error + utext" and
  write_yaml_sequence_with_first :: "'n number_env \<Rightarrow> 'n jvalue list \<Rightarrow> usize \<Rightarrow> bool \<Rightarrow> utext \<Rightarrow> cache_error + utext" and
  write_sequence_item :: "'n number_env \<Rightarrow> 'n jvalue \<Rightarrow> usize \<Rightarrow> bool \<Rightarrow> utext \<Rightarrow> cache_error + utext" and
  write_sequence_entries :: "'n number_env \<Rightarrow> (utext \<times> 'n jvalue) list \<Rightarrow> usize \<Rightarrow> utext \<Rightarrow> utext \<Rightarrow> cache_error + utext"
where
  "write_yaml_value env (VObject es) indent out = write_yaml_mapping env es indent out"
| "write_yaml_value env (VArray vs) indent out = write_yaml_sequence env vs indent out"
| "write_yaml_value env v indent out =
     map_ok (\<lambda>s. out @ s @ [10]) (format_scalar env v (indent + 2) (current_column out))"
| "write_yaml_mapping env es indent out =
     (if es = [] then Inr (out @ u ''{}'' @ [10]) else write_entries env (sorted_entries es) indent False out)"
| "write_entries env [] indent first_inline out = Inr out"
| "write_entries env ((key, v) # es) indent first_inline out =
     and_then (write_yaml_mapping_entry env key v indent (if first_inline then out else out @ spaces indent))
       (write_entries env es indent False)"
| "write_yaml_mapping_entry env key v indent out =
     (case classify_mapping_key key of
        Simple \<Rightarrow>
          write_simple_mapping_value env v indent (out @ format_string_with_context key
            \<lparr>sc_initial_column = current_column out, sc_continuation_indent = usize_sat_add indent yaml_indent_width,
             sc_width = usize_max\<rparr>)
      | Explicit \<Rightarrow>
          (let out = out @ u ''? ''
           in write_explicit_mapping_value env v indent (out @ format_string_with_context key
                \<lparr>sc_initial_column = current_column out, sc_continuation_indent = usize_sat_add indent yaml_indent_width,
                 sc_width = pyyaml_width\<rparr> @ [10] @ spaces indent @ u '':'')))"
| "write_simple_mapping_value env v indent out =
     (case v of
        VObject [] \<Rightarrow> Inr (out @ u '': {}'' @ [10])
      | VArray [] \<Rightarrow> Inr (out @ u '': []'' @ [10])
      | VObject _ \<Rightarrow> write_yaml_value env v (indent + 2) (out @ u '':'' @ [10])
      | VArray _ \<Rightarrow> write_yaml_value env v indent (out @ u '':'' @ [10])
      | _ \<Rightarrow> (let out = out @ u '': '' in
             map_ok (\<lambda>s. out @ s @ [10]) (format_scalar env v (indent + 2) (current_column out))))"
| "write_explicit_mapping_value env v indent out =
     (case v of
        VObject [] \<Rightarrow> Inr (out @ u '' {}'' @ [10])
      | VArray [] \<Rightarrow> Inr (out @ u '' []'' @ [10])
      | VObject es \<Rightarrow> write_entries env (sorted_entries es) (indent + 2) True (out @ [32])
      | VArray vs \<Rightarrow> write_yaml_sequence_with_first env vs (indent + 2) True (out @ [32])
      | _ \<Rightarrow> (let out = out @ [32] in
             map_ok (\<lambda>s. out @ s @ [10]) (format_scalar env v (indent + 2) (current_column out))))"
| "write_yaml_sequence env vs indent out =
     (if vs = [] then Inr (out @ spaces indent @ u ''[]'' @ [10]) else write_yaml_sequence_with_first env vs indent False out)"
| "write_yaml_sequence_with_first env [] indent first_inline out = Inr out"
| "write_yaml_sequence_with_first env (v # vs) indent first_inline out =
     and_then (write_sequence_item env v indent first_inline out) (write_yaml_sequence_with_first env vs indent False)"
| "write_sequence_item env v indent first_inline out =
     (case v of
        VObject [] \<Rightarrow> Inr (write_sequence_prefix indent first_inline out @ u ''- {}'' @ [10])
      | VObject es \<Rightarrow> write_sequence_entries env (sorted_entries es) indent (write_sequence_prefix indent first_inline [] @ u ''- '') out
      | VArray [] \<Rightarrow> Inr (write_sequence_prefix indent first_inline out @ u ''- []'' @ [10])
      | VArray ws \<Rightarrow>
          map_ok (\<lambda>nested. write_sequence_prefix indent first_inline out @ u ''- '' @ dropWhile (\<lambda>c. c = 32) nested)
            (write_yaml_sequence env ws (indent + 2) [])
      | _ \<Rightarrow>
          (let out = write_sequence_prefix indent first_inline out @ u ''- '' in
           map_ok (\<lambda>s. out @ s @ [10]) (format_scalar env v (indent + 2) (current_column out))))"
| "write_sequence_entries env [] indent prefix out = Inr out"
| "write_sequence_entries env ((key, v) # es) indent prefix out =
     and_then (write_yaml_mapping_entry env key v (indent + 2) (out @ prefix))
       (write_sequence_entries env es indent (spaces (indent + 2)))"
  by pat_completeness auto

termination
  by (relation "measure (case_sum
        (case_sum
          (case_sum (\<lambda>(_, v, _). 6 * vsize v + 1) (\<lambda>(_, es, _). 6 * entries_size es + 5))
          (case_sum (\<lambda>(_, es, _). 6 * entries_size es + 4)
            (case_sum (\<lambda>(_, _, v, _). 6 * vsize v + 5) (\<lambda>(_, v, _). 6 * vsize v + 2))))
        (case_sum
          (case_sum (\<lambda>(_, v, _). 6 * vsize v + 2) (\<lambda>(_, vs, _). 6 * values_size vs + 5))
          (case_sum (\<lambda>(_, vs, _). 6 * values_size vs + 4)
            (case_sum (\<lambda>(_, v, _). 6 * vsize v + 3) (\<lambda>(_, es, _). 6 * entries_size es + 4)))))") simp_all

definition py_yaml_dump :: "'n number_env \<Rightarrow> 'n jvalue \<Rightarrow> cache_error + utext" where
  "py_yaml_dump env v = write_yaml_value env v 0 []"

definition graphrag_cache_yaml :: "'n number_env \<Rightarrow> 'n jvalue \<Rightarrow> cache_error + utext" where
  "graphrag_cache_yaml env input_args = py_yaml_dump env (filter_cache_parameters input_args)"

definition to_hex :: "nat list \<Rightarrow> utext" where
  "to_hex bytes = concat (map (\<lambda>b. let digit = (\<lambda>d. if d < 10 then 48 + d else 87 + d) in [digit (b div 16), digit (b mod 16)]) bytes)"

definition graphrag_cache_key ::
  "(utext \<Rightarrow> nat list) \<Rightarrow> 'n number_env \<Rightarrow> 'n jvalue \<Rightarrow> cache_error + utext" where
  "graphrag_cache_key sha256 env input_args =
     map_ok (\<lambda>serialized. to_hex (sha256 serialized) @ u ''_v'' @ u (nat_to_dec cache_version)) (graphrag_cache_yaml env input_args)"

text \<open>A request is validated and serialised by its own type: \<open>validated\<close> and \<open>kwargs\<close> are what that gives.\<close>

definition completion_request_cache_key ::
  "(utext \<Rightarrow> nat list) \<Rightarrow> 'n number_env \<Rightarrow> cache_error + unit \<Rightarrow> cache_error + 'n jvalue \<Rightarrow> cache_error + utext" where
  "completion_request_cache_key sha256 env validated kwargs =
     and_then validated (\<lambda>_. and_then kwargs (\<lambda>v.
       case v of
         VObject es \<Rightarrow>
           graphrag_cache_key sha256 env (VObject (if u ''response_format'' \<in> set (map fst es) then es
             else es @ [(u ''response_format'', VNull)]))
       | _ \<Rightarrow> Inl (CacheKeyParse ''completion request did not serialize to an object'')))"

definition embedding_request_cache_key ::
  "(utext \<Rightarrow> nat list) \<Rightarrow> 'n number_env \<Rightarrow> cache_error + unit \<Rightarrow> cache_error + 'n jvalue \<Rightarrow> cache_error + utext" where
  "embedding_request_cache_key sha256 env validated kwargs =
     and_then validated (\<lambda>_. and_then kwargs (graphrag_cache_key sha256 env))"

end
