(* ===== verification/Cache_Key_Laws.thy ===== *)
theory Cache_Key_Laws
  imports Cache_Key
begin

text \<open>
  What the cache keys guarantee: writing never fails, a string reads back from its scalar, requests that
  differ only in excluded parameters or the order of keys share a key.
\<close>

subsection \<open>Reading double quotes\<close>

definition hex_value :: "utext \<Rightarrow> nat" where
  "hex_value = foldl (\<lambda>n c. 16 * n + (if c < 58 then c - 48 else c - 55)) 0"

definition unescape :: "nat \<Rightarrow> nat" where
  "unescape c = the (map_of
     [(48, 0), (97, 7), (98, 8), (116, 9), (110, 10), (118, 11), (102, 12), (114, 13), (101, 27), (32, 32), (34, 34),
      (92, 92), (78, 0x85), (95, 0xA0), (76, 0x2028), (80, 0x2029)] c)"

text \<open>YAML: an escaped line break and the spaces after it are skipped.\<close>

function read_double_quoted :: "utext \<Rightarrow> utext" where
  "read_double_quoted [] = []"
| "read_double_quoted (c # cs) =
     (if c \<noteq> 92 then c # read_double_quoted cs
      else case cs of
        [] \<Rightarrow> []
      | x # rest \<Rightarrow>
          if x = 10 then read_double_quoted (dropWhile (\<lambda>c. c = 32) rest)
          else if x = 120 then hex_value (take 2 rest) # read_double_quoted (drop 2 rest)
          else if x = 117 then hex_value (take 4 rest) # read_double_quoted (drop 4 rest)
          else if x = 85 then hex_value (take 8 rest) # read_double_quoted (drop 8 rest)
          else unescape x # read_double_quoted rest)"
  by pat_completeness auto
termination
  by (relation "measure length") (auto simp: less_Suc_eq_le length_dropWhile_le intro: le_SucI)

declare read_double_quoted.simps(2) [simp del]






lemma length_hex_upper [simp]: "length (hex_upper w n) = w"
  by (simp add: hex_upper_def)








lemma dropWhile_spaces [simp]: "dropWhile (\<lambda>c. c = 32) (spaces n @ t) = dropWhile (\<lambda>c. c = 32) t"
  by (induction n) (auto simp: spaces_def)

text \<open>The text of a line break, and of the backslash before a space that follows it.\<close>

definition broken :: "usize \<Rightarrow> utext \<Rightarrow> usize \<Rightarrow> utext" where
  "broken ci chars start = [92, 10] @ spaces ci @ (if start < length chars \<and> chars ! start = 32 then [92] else [])"




lemma dq_break_last: "end = length chars \<Longrightarrow> dq_break ctx chars end st = st"
proof -
  assume "end = length chars"
  then have "\<not> end < length chars - 1" by arith
  then show ?thesis by (cases st) (simp only: dq_break_def prod.case simp_thms if_False)
qed

lemma dq_break_eq:
  "start \<le> end \<Longrightarrow> dq_break ctx chars end (start, column, out) = (start, column, out)
   \<or> sc_width ctx < column + (end - start) \<and> end < length chars \<and>
     (\<exists>column'. dq_break ctx chars end (start, column, out) =
        (end, column', out @ slice chars start end @ broken (sc_continuation_indent ctx) chars end)
      \<and> column' \<le> Suc (sc_continuation_indent ctx))"
  by (auto simp: dq_break_def broken_def projected_double_quoted_column_def usize_sat_add_def slice_def Let_def)

lemma dq_break_escaped:
  "dq_break ctx chars end (Suc end, column, out) = (Suc end, column, out)
   \<or> (\<exists>column'. dq_break ctx chars end (Suc end, column, out) =
        (Suc end, column', out @ broken (sc_continuation_indent ctx) chars (Suc end))
      \<and> column' \<le> Suc (sc_continuation_indent ctx))"
  by (auto simp: dq_break_def broken_def usize_sat_add_def Let_def)

lemma dq_write_plain:
  "end < length chars \<Longrightarrow> \<not> needs_yaml_escape (chars ! end) \<Longrightarrow> dq_write chars end st = st"
  by (cases st) (simp add: dq_write_def)

lemma dq_write_escape:
  "end < length chars \<Longrightarrow> needs_yaml_escape (chars ! end) \<Longrightarrow> length chars \<le> usize_max \<Longrightarrow> start \<le> end \<Longrightarrow>
   \<exists>column'. dq_write chars end (start, column, out) = (Suc end, column', out @ slice chars start end @ yaml_escape (chars ! end))"
  by (auto simp: dq_write_def usize_sat_add_def slice_def)



subsection \<open>Reading folded lines\<close>

text \<open>YAML's line folding: in a run of spaces and line breaks that has a break, the spaces are dropped, one break
  reads as a space, and more read as the breaks after the first.\<close>

definition unfolded_breaks :: "usize \<Rightarrow> utext" where
  "unfolded_breaks n = (if n = 1 then [32] else replicate (n - 1) 10)"

definition folding :: "nat \<Rightarrow> bool" where
  "folding c \<longleftrightarrow> c = 32 \<or> c = 10"

function read_folded :: "utext \<Rightarrow> utext" where
  "read_folded [] = []"
| "read_folded (c # cs) =
     (if folding c
      then
        (let run = c # takeWhile folding cs; breaks = length (filter (\<lambda>x. x = 10) run)
         in (if breaks = 0 then run else unfolded_breaks breaks))
        @ read_folded (dropWhile folding cs)
      else c # read_folded cs)"
  by pat_completeness auto
termination
  by (relation "measure length") (auto simp: less_Suc_eq_le length_dropWhile_le)

declare read_folded.simps(2) [simp del]

fun undouble_quotes :: "utext \<Rightarrow> utext" where
  "undouble_quotes (c # cs) =
     (if c = 39 then (case cs of [] \<Rightarrow> [39] | _ # rest \<Rightarrow> 39 # undouble_quotes rest) else c # undouble_quotes cs)"
| "undouble_quotes [] = []"

lemma undouble_double_quotes [simp]: "undouble_quotes (double_quotes v) = v"
  by (induction v) (auto simp: double_quotes_def)

lemma double_quotes_simps [simp]:
  "double_quotes [] = []" "double_quotes (c # cs) = (if c = 39 then [39, 39] else [c]) @ double_quotes cs"
  by (simp_all add: double_quotes_def)

text \<open>Text that does not start with a space or a break ends a run before it.\<close>

definition starts_solid :: "utext \<Rightarrow> bool" where
  "starts_solid cs \<longleftrightarrow> (case cs of [] \<Rightarrow> True | c # _ \<Rightarrow> \<not> folding c)"

lemma starts_solid_simps [simp]: "starts_solid []" "starts_solid (c # cs) \<longleftrightarrow> \<not> folding c"
  by (simp_all add: starts_solid_def)







lemma newline_double_quotes [simp]: "10 \<in> set (double_quotes v) \<longleftrightarrow> 10 \<in> set v"
  by (induction v) auto

lemma pair_double_quotes [simp]: "has_pair 32 32 (double_quotes v) = has_pair 32 32 v"
proof (induction v)
  case (Cons c cs)
  then show ?case by (cases cs) auto
qed simp

lemma double_quotes_Nil [simp]: "double_quotes v = [] \<longleftrightarrow> v = []"
  by (cases v) auto



lemma double_quotes_append [simp]: "double_quotes (v @ w) = double_quotes v @ double_quotes w"
  by (induction v) auto









subsection \<open>Reading a scalar\<close>

text \<open>The spaces around a plain scalar do not belong to it.\<close>

definition strip_spaces :: "utext \<Rightarrow> utext" where
  "strip_spaces t = rev (dropWhile (\<lambda>c. c = 32) (rev (dropWhile (\<lambda>c. c = 32) t)))"

definition read_scalar :: "utext \<Rightarrow> utext" where
  "read_scalar t =
     (case t of
        [] \<Rightarrow> []
      | c # rest \<Rightarrow>
          if c = 34 then read_double_quoted (butlast rest)
          else if c = 39 then undouble_quotes (read_folded (butlast rest))
          else read_folded (strip_spaces t))"





subsection \<open>Writing never fails, and writes ASCII\<close>

definition ascii_char :: "nat \<Rightarrow> bool" where
  "ascii_char c \<longleftrightarrow> c = 10 \<or> printable c"

abbreviation ascii_text :: "utext \<Rightarrow> bool" where
  "ascii_text \<equiv> list_all ascii_char"

lemma ascii_char_simps [simp]: "ascii_char 10" "printable c \<Longrightarrow> ascii_char c"
  by (simp_all add: ascii_char_def)

lemma printable_simps [simp]:
  "printable 32" "printable 34" "printable 39" "printable 85" "printable 92" "printable 117" "printable 120"
  by (simp_all add: printable_def)

definition ascii_numbers :: "'n number_env \<Rightarrow> bool" where
  "ascii_numbers env \<longleftrightarrow>
     (\<forall>n. ascii_text (ne_to_string env n) \<and> (\<forall>d. ne_f64_string env n = Some d \<longrightarrow> ascii_text d))"

lemma ascii_replicate [simp]: "ascii_char c \<Longrightarrow> ascii_text (replicate n c)"
  by (simp add: list_all_iff)

lemma ascii_spaces [simp]: "ascii_text (spaces n)"
  by (simp add: spaces_def)

lemma ascii_wrap_words: "ascii_text v \<Longrightarrow> ascii_text (wrap_words ctx column v)"
  by (induction ctx column v rule: wrap_words.induct) auto

lemma ascii_double_quotes [simp]: "ascii_text (double_quotes v) = ascii_text v"
  by (induction v) auto

lemma ascii_wrapped_line: "ascii_text line \<Longrightarrow> ascii_text suffix \<Longrightarrow> ascii_text (wrapped_line ctx first_line line suffix)"
  by (simp add: wrapped_line_def wrap_scalar_words_def ascii_wrap_words)

lemma ascii_multiline_loop: "ascii_text line \<Longrightarrow> ascii_text cs \<Longrightarrow> ascii_text (multiline_loop ctx first_line line cs)"
proof (induction ctx first_line line cs rule: multiline_loop.induct)
  case (1 ctx first_line line)
  then show ?case by (simp add: ascii_wrapped_line)
next
  case (2 ctx first_line line c cs)
  have "ascii_text (dropWhile (\<lambda>x. x = 10) cs)" using "2.prems"(2) by (auto simp: list_all_iff dest: set_dropWhileD)
  moreover have "ascii_text (original_newline_group n ci)" for n ci by (simp add: original_newline_group_def)
  ultimately show ?case using 2 by (simp add: ascii_wrapped_line)
qed

lemma ascii_hex: "ascii_text (hex_upper w n)"
proof -
  have "printable (hex_digit (d mod 16))" for d
    using mod_less_divisor [of 16 d] by (auto simp: hex_digit_def printable_def simp del: mod_less_divisor)
  then show ?thesis by (simp add: hex_upper_def list_all_iff)
qed

lemma ascii_yaml_escape: "ascii_text (yaml_escape c)"
proof (cases "yaml_escape_replacement c")
  case (Some x)
  then have "printable x" by (auto simp: printable_def split: if_splits)
  then show ?thesis using Some by (simp add: yaml_escape_def del: yaml_escape_replacement.simps)
qed (simp add: yaml_escape_def yaml_numeric_escape_def ascii_hex del: yaml_escape_replacement.simps)

lemma ascii_unescaped: "\<not> needs_yaml_escape c \<Longrightarrow> printable c"
  by (simp add: needs_yaml_escape_def)

lemma ascii_format_double_quoted:
  assumes "length v \<le> usize_max"
  shows "ascii_text (format_double_quoted_scalar v ctx)"
proof -
  have "ascii_text (dq_loop ctx v end (start, column, out))"
    if "ascii_text out" "start \<le> end" "\<forall>i. start \<le> i \<and> i < end \<and> i < length v \<longrightarrow> \<not> needs_yaml_escape (v ! i)" for start column "end" out
    using that
  proof (induction "Suc (length v) - end" arbitrary: start column "end" out)
    case 0
    then show ?case by (simp add: dq_loop.simps)
  next
    case (Suc n)
    have len: "end \<le> length v" using Suc.hyps(2) by simp
    note IH = Suc.hyps(1) [of "Suc end"]
    have n: "n = Suc (length v) - Suc end" using Suc.hyps(2) by simp
    have slice: "ascii_text (slice v start end)"
      using Suc.prems(3) len by (auto simp: slice_def list_all_length less_diff_conv ascii_unescaped add.commute)
    have broken: "ascii_text (broken ci v k)" for ci k by (simp add: broken_def)
    have loop: "dq_loop ctx v end (start, column, out) = dq_loop ctx v (Suc end) (dq_break ctx v end (dq_write v end (start, column, out)))"
      using len by (simp add: dq_loop.simps [of ctx v "end"])
    consider (last) "end = length v" | (plain) "end < length v" "\<not> needs_yaml_escape (v ! end)" | (escape) "end < length v" "needs_yaml_escape (v ! end)"
      using len by linarith
    then show ?case
    proof cases
      case last
      then have "dq_break ctx v end (dq_write v end (start, column, out)) = dq_write v end (start, column, out)" by (rule dq_break_last)
      moreover have "ascii_text (snd (snd (dq_write v end (start, column, out))))"
        using last slice Suc.prems(1) by (simp add: dq_write_def)
      ultimately show ?thesis unfolding loop using last by (simp add: dq_loop.simps)
    next
      case plain
      note keep = dq_write_plain [OF plain]
      have pending: "\<forall>i. start \<le> i \<and> i < Suc end \<and> i < length v \<longrightarrow> \<not> needs_yaml_escape (v ! i)"
        using Suc.prems(3) plain(2) by (metis less_antisym)
      have here: "\<forall>i. end \<le> i \<and> i < Suc end \<and> i < length v \<longrightarrow> \<not> needs_yaml_escape (v ! i)"
        using plain(2) le_antisym less_Suc_eq_le by blast
      from dq_break_eq [OF Suc.prems(2), of ctx v column out] show ?thesis
      proof (elim disjE conjE exE)
        assume "dq_break ctx v end (start, column, out) = (start, column, out)"
        then show ?thesis unfolding loop keep using IH [OF n Suc.prems(1) _ pending] Suc.prems(2) by simp
      next
        fix column' assume "dq_break ctx v end (start, column, out) = (end, column', out @ slice v start end @ broken (sc_continuation_indent ctx) v end)"
        then show ?thesis unfolding loop keep using IH [OF n _ _ here] Suc.prems(1) slice broken by simp
      qed
    next
      case escape
      obtain column0 where st: "dq_write v end (start, column, out) = (Suc end, column0, out @ slice v start end @ yaml_escape (v ! end))"
        using dq_write_escape [OF escape assms Suc.prems(2)] by blast
      have none: "\<forall>i. Suc end \<le> i \<and> i < Suc end \<and> i < length v \<longrightarrow> \<not> needs_yaml_escape (v ! i)" by auto
      have next_loop: "ascii_text (dq_loop ctx v (Suc end) (Suc end, column', out'))" if "ascii_text out'" for column' out'
        using IH [OF n that _ none] by simp
      show ?thesis unfolding loop st
        using dq_break_escaped [of ctx v "end" column0 "out @ slice v start end @ yaml_escape (v ! end)"]
          Suc.prems(1) slice broken ascii_yaml_escape by (auto simp: next_loop)
    qed
  qed
  then show ?thesis by (simp add: format_double_quoted_scalar_def)
qed

lemma ascii_format_string:
  assumes "length v \<le> usize_max"
  shows "ascii_text (format_string_with_context v ctx)"
proof (cases "needs_double_quoted_string v")
  case True
  then show ?thesis using ascii_format_double_quoted [OF assms]
    by (simp add: format_string_with_context_def classify_string_scalar_def)
next
  case False
  then have "ascii_text v" by (auto simp: needs_double_quoted_string_def list_all_iff list_ex_iff ascii_char_def)
  then show ?thesis using False
    by (auto simp: format_string_with_context_def classify_string_scalar_def format_plain_scalar_def format_single_quoted_scalar_def
        format_single_quoted_multiline_scalar_def wrap_scalar_words_def ascii_wrap_words ascii_multiline_loop)
qed

fun all_strings :: "(utext \<Rightarrow> bool) \<Rightarrow> 'n jvalue \<Rightarrow> bool" where
  "all_strings P (VString s) \<longleftrightarrow> P s"
| "all_strings P (VArray vs) \<longleftrightarrow> list_all (all_strings P) vs"
| "all_strings P (VObject es) \<longleftrightarrow> list_all (\<lambda>(k, v). P k \<and> all_strings P v) es"
| "all_strings P v \<longleftrightarrow> True"

abbreviation entries_ok :: "(utext \<times> 'n jvalue) list \<Rightarrow> bool" where
  "entries_ok \<equiv> list_all (\<lambda>(k, v). length k \<le> usize_max \<and> all_strings (\<lambda>s. length s \<le> usize_max) v)"

abbreviation value_ok :: "'n jvalue \<Rightarrow> bool" where
  "value_ok \<equiv> all_strings (\<lambda>s. length s \<le> usize_max)"

lemma entries_ok_sorted [simp]: "entries_ok (sorted_entries es) = entries_ok es"
  by (simp add: sorted_entries_def list_all_iff)

definition writes :: "utext \<Rightarrow> cache_error + utext \<Rightarrow> bool" where
  "writes out r \<longleftrightarrow> (\<exists>s. r = Inr (out @ s) \<and> ascii_text s)"

lemma writes_Inr [simp]: "writes out (Inr (out @ s)) = ascii_text s"
  by (simp add: writes_def)

lemma writes_id [simp]: "writes out (Inr out)"
  by (simp add: writes_def)

lemma writes_more: "writes (out @ s) r \<Longrightarrow> ascii_text s \<Longrightarrow> writes out r"
  by (auto simp: writes_def)

lemma writes_bind: "writes out r \<Longrightarrow> (\<And>s. ascii_text s \<Longrightarrow> writes (out @ s) (f (out @ s))) \<Longrightarrow> writes out (and_then r f)"
  by (fastforce simp: writes_def)

lemma ascii_u: "\<forall>c \<in> set s. printable (of_char c) \<Longrightarrow> ascii_text (u s)"
  by (simp add: u_def list_all_iff)

lemma ascii_format_yaml_number: "ascii_numbers env \<Longrightarrow> ascii_text (format_yaml_number env n)"
proof -
  assume env: "ascii_numbers env"
  then have "ascii_text (ne_to_string env n)" by (simp add: ascii_numbers_def)
  then have "ascii_text (takeWhile P (ne_to_string env n))" for P by (auto simp: list_all_iff dest: set_takeWhileD)
  moreover have "ascii_text (with_fraction d)" if "ascii_text d" for d
    using that by (simp add: with_fraction_def u_def printable_def)
  moreover have "ascii_text (two_digits k)" for k
  proof -
    have "\<forall>c \<in> set (nat_to_dec k). printable (of_char c)"
      by (auto simp: digit_char_def printable_def dest!: set_nat_to_dec)
    then show ?thesis by (simp add: two_digits_def ascii_u printable_def)
  qed
  ultimately show ?thesis using env
    by (auto simp: format_yaml_number_def cut_exponent_def Let_def ascii_numbers_def printable_def split: option.split)
qed

lemma writes_scalar:
  assumes "ascii_numbers env" "value_ok v" "\<forall>vs. v \<noteq> VArray vs" "\<forall>es. v \<noteq> VObject es" "ascii_text prefix"
  shows "writes out (map_ok (\<lambda>s. out @ prefix @ s @ [10]) (format_scalar env v ci column))"
  using assms
  by (cases v) (simp_all add: format_scalar_def u_def printable_def format_string_def ascii_format_string ascii_format_yaml_number)

lemma writes_and_then:
  "writes out r \<Longrightarrow> (\<And>y. r = Inr y \<Longrightarrow> writes y (f y)) \<Longrightarrow> writes out (and_then r f)"
  by (fastforce simp: writes_def)

lemma writes_after: "writes (out @ s) r \<Longrightarrow> ascii_text s \<Longrightarrow> writes out r"
  by (rule writes_more)

lemma ascii_u_simps [simp]:
  "ascii_text (u '':'')" "ascii_text (u '': '')" "ascii_text (u ''? '')" "ascii_text (u ''- '')"
  "ascii_text (u ''{}'')" "ascii_text (u ''[]'')" "ascii_text (u '': {}'')" "ascii_text (u '': []'')" "ascii_text (u '' {}'')"
  "ascii_text (u '' []'')" "ascii_text (u ''- {}'')" "ascii_text (u ''- []'')"
  by (simp_all add: u_def printable_def)

lemma writes_value: 
  assumes "ascii_numbers env" "value_ok v" "\<forall>vs. v \<noteq> VArray vs" "\<forall>es. v \<noteq> VObject es" "ascii_text prefix"
  shows "writes out (map_ok (\<lambda>s. (out @ prefix) @ s @ [10]) (format_scalar env v ci column))"
  using writes_scalar [OF assms] by simp

lemma writes_prefix: "\<exists>s. write_sequence_prefix indent first_inline out = out @ s \<and> ascii_text s"
  by (auto simp: write_sequence_prefix_def)

lemma writers_write:
  fixes env :: "'n number_env"
  shows "ascii_numbers env \<Longrightarrow> value_ok v \<Longrightarrow> writes out (write_yaml_value env v indent out)"
    and "ascii_numbers env \<Longrightarrow> entries_ok es \<Longrightarrow> writes out (write_yaml_mapping env es indent out)"
    and "ascii_numbers env \<Longrightarrow> entries_ok es \<Longrightarrow> writes out (write_entries env es indent first_inline out)"
    and "ascii_numbers env \<Longrightarrow> length k \<le> usize_max \<Longrightarrow> value_ok v \<Longrightarrow> writes out (write_yaml_mapping_entry env k v indent out)"
    and "ascii_numbers env \<Longrightarrow> value_ok v \<Longrightarrow> writes out (write_simple_mapping_value env v indent out)"
    and "ascii_numbers env \<Longrightarrow> value_ok v \<Longrightarrow> writes out (write_explicit_mapping_value env v indent out)"
    and "ascii_numbers env \<Longrightarrow> list_all value_ok vs \<Longrightarrow> writes out (write_yaml_sequence env vs indent out)"
    and "ascii_numbers env \<Longrightarrow> list_all value_ok vs \<Longrightarrow> writes out (write_yaml_sequence_with_first env vs indent first_inline out)"
    and "ascii_numbers env \<Longrightarrow> value_ok v \<Longrightarrow> writes out (write_sequence_item env v indent first_inline out)"
    and "ascii_numbers env \<Longrightarrow> entries_ok es \<Longrightarrow> ascii_text prefix \<Longrightarrow> writes out (write_sequence_entries env es indent prefix out)"
proof (induction env v indent out and env es indent out and env es indent first_inline out and env k v indent out
    and env v indent out and env v indent out and env vs indent out and env vs indent first_inline out
    and env v indent first_inline out and env es indent prefix out 
    rule: write_yaml_value_write_yaml_mapping_write_entries_write_yaml_mapping_entry_write_simple_mapping_value_write_explicit_mapping_value_write_yaml_sequence_write_yaml_sequence_with_first_write_sequence_item_write_sequence_entries.induct, goal_cases)
  case (3 env indent out)
  then show ?case using writes_scalar [of env VNull "[]"] by simp
next
  case (4 env b indent out)
  then show ?case using writes_scalar [of env "VBool b" "[]"] by simp
next
  case (5 env n indent out)
  then show ?case using writes_scalar [of env "VNumber n" "[]"] by simp
next
  case (6 env s indent out)
  then show ?case using writes_scalar [of env "VString s" "[]"] by simp
next
  case (9 env k v es indent first_inline out)
  have "writes (if first_inline then out else out @ spaces indent)
      (and_then (write_yaml_mapping_entry env k v indent (if first_inline then out else out @ spaces indent)) (write_entries env es indent False))"
    using 9 by (intro writes_and_then) auto
  then show ?case using writes_after [of out "spaces indent"] by (simp split: if_splits)
next
  case (10 env k v indent out)
  have "ascii_text (format_string_with_context k ctx)" for ctx using 10 by (simp add: ascii_format_string)
  then show ?case using 10
    by (cases "classify_mapping_key k")
       (auto simp: Let_def intro: writes_after simp del: write_simple_mapping_value.simps write_explicit_mapping_value.simps)
next
  case (11 env v indent out)
  show ?case
  proof (cases v)
    case (VArray vs)
    then show ?thesis using 11 by (cases vs) (auto intro: writes_after)
  next
    case (VObject es)
    then show ?thesis using 11 by (cases es) (auto intro: writes_after)
  qed (use 11 writes_value [of env v "u '': ''"] in \<open>simp_all add: Let_def\<close>)
next
  case (12 env v indent out)
  show ?case
  proof (cases v)
    case (VArray vs)
    then show ?thesis using 12 by (cases vs) (auto intro: writes_after)
  next
    case (VObject es)
    then show ?thesis using 12 by (cases es) (auto intro: writes_after)
  qed (use 12 writes_value [of env v "[32]"] in \<open>simp_all add: Let_def\<close>)
next
  case (15 env v vs indent first_inline out)
  then show ?case by (auto intro: writes_and_then)
next
  case (16 env v indent first_inline out)
  obtain p where p: "write_sequence_prefix indent first_inline out = out @ p" "ascii_text p"
    using writes_prefix [of indent first_inline out] by blast
  have p0: "ascii_text (write_sequence_prefix indent first_inline [])" using writes_prefix [of indent first_inline "[]"] by auto
  show ?case
  proof (cases v)
    case (VArray vs)
    show ?thesis
    proof (cases vs)
      case Nil
      then show ?thesis using VArray p by simp
    next
      case (Cons w ws)
      have "writes [] (write_yaml_sequence env vs (indent + 2) [])" using 16 VArray Cons by simp
      then obtain s where "write_yaml_sequence env vs (indent + 2) [] = Inr s" "ascii_text s" by (auto simp: writes_def)
      moreover have "ascii_text (dropWhile (\<lambda>c. c = 32) s)" using \<open>ascii_text s\<close> by (auto simp: list_all_iff dest: set_dropWhileD)
      ultimately show ?thesis using VArray Cons p by simp
    qed
  next
    case (VObject es)
    then show ?thesis using 16 p p0 by (cases es) auto
  qed (use 16 p writes_value [of env v "p @ u ''- ''"] in \<open>simp_all add: Let_def\<close>)
next
  case (18 env k v es indent prefix out)
  have "writes (out @ prefix) (and_then (write_yaml_mapping_entry env k v (indent + 2) (out @ prefix)) (write_sequence_entries env es indent (spaces (indent + 2))))"
    using 18 by (intro writes_and_then) auto
  then show ?case using 18 writes_after by auto
qed simp_all

lemma value_ok_filtered: "value_ok v \<Longrightarrow> value_ok (filter_cache_parameters v)"
  by (cases v) (auto simp: list_all_iff)

text \<open>C37: Every request has a cache key: writing never fails (the scalar formatter is never given an array or an object), and the
  text is ASCII, so that the byte counts the code takes as columns are columns.\<close>

theorem cache_yaml_total_and_ascii:
  assumes "ascii_numbers env" "value_ok v"
  shows "\<exists>y. graphrag_cache_yaml env v = Inr y \<and> list_all (\<lambda>c. c = 10 \<or> printable c) y"
  using writers_write(1) [OF assms(1) value_ok_filtered [OF assms(2)], of "[]" 0]
  by (auto simp: graphrag_cache_yaml_def py_yaml_dump_def writes_def ascii_char_def list_all_iff)

subsection \<open>The order of keys\<close>

fun canonical :: "'n jvalue \<Rightarrow> 'n jvalue" where
  "canonical (VArray vs) = VArray (map canonical vs)"
| "canonical (VObject es) = VObject (sort_key fst (map (\<lambda>(k, v). (k, canonical v)) es))"
| "canonical v = v"

abbreviation canonical_entries :: "(utext \<times> 'n jvalue) list \<Rightarrow> (utext \<times> 'n jvalue) list" where
  "canonical_entries \<equiv> map (\<lambda>(k, v). (k, canonical v))"

lemma sort_key_canonical: "sort_key fst (canonical_entries es) = canonical_entries (sort_key fst es)"
proof (induction es)
  case (Cons e es)
  have "insort_key fst (case e of (k, v) \<Rightarrow> (k, canonical v)) (canonical_entries xs) = canonical_entries (insort_key fst e xs)" for xs
    by (induction xs) (auto split: prod.split)
  then show ?case using Cons by simp
qed simp

lemma sorted_entries_canonical [simp]:
  "sorted_entries (sort_key fst (canonical_entries es)) = canonical_entries (sorted_entries es)"
  by (simp add: sorted_entries_def sort_key_canonical sort_key_id_if_sorted)

lemma sort_key_Nil [simp]: "sort_key f xs = [] \<longleftrightarrow> xs = []"
  by (metis length_0_conv length_sort)

lemma canonical_object:
  assumes "es \<noteq> []"
  obtains a l where "canonical (VObject es) = VObject (a # l)" "sorted_entries (a # l) = canonical_entries (sorted_entries es)"
proof -
  obtain a l where "sort_key fst (canonical_entries es) = a # l"
    using assms sort_key_Nil [of fst "canonical_entries es"] by (cases "sort_key fst (canonical_entries es)") auto
  then show thesis using that sorted_entries_canonical [of es] by simp
qed

lemma canonical_writers:
  fixes env :: "'n number_env"
  shows "write_yaml_value env (canonical v) indent out = write_yaml_value env v indent out"
    and "write_yaml_mapping env (sort_key fst (canonical_entries es)) indent out = write_yaml_mapping env es indent out"
    and "write_entries env (canonical_entries es) indent first_inline out = write_entries env es indent first_inline out"
    and "write_yaml_mapping_entry env k (canonical v) indent out = write_yaml_mapping_entry env k v indent out"
    and "write_simple_mapping_value env (canonical v) indent out = write_simple_mapping_value env v indent out"
    and "write_explicit_mapping_value env (canonical v) indent out = write_explicit_mapping_value env v indent out"
    and "write_yaml_sequence env (map canonical vs) indent out = write_yaml_sequence env vs indent out"
    and "write_yaml_sequence_with_first env (map canonical vs) indent first_inline out = write_yaml_sequence_with_first env vs indent first_inline out"
    and "write_sequence_item env (canonical v) indent first_inline out = write_sequence_item env v indent first_inline out"
    and "write_sequence_entries env (canonical_entries es) indent prefix out = write_sequence_entries env es indent prefix out"
proof (induction env v indent out and env es indent out and env es indent first_inline out and env k v indent out
    and env v indent out and env v indent out and env vs indent out and env vs indent first_inline out
    and env v indent first_inline out and env es indent prefix out
    rule: write_yaml_value_write_yaml_mapping_write_entries_write_yaml_mapping_entry_write_simple_mapping_value_write_explicit_mapping_value_write_yaml_sequence_write_yaml_sequence_with_first_write_sequence_item_write_sequence_entries.induct, goal_cases)
  case (7 env es indent out)
  then show ?case by (cases "es = []") auto
next
  case (9 env k v es indent first_inline out)
  then show ?case by (simp only: list.map prod.case write_entries.simps) (rule and_then_cong, auto)
next
  case (10 env k v indent out)
  then show ?case
    by (cases "classify_mapping_key k") (simp_all add: Let_def del: write_simple_mapping_value.simps write_explicit_mapping_value.simps)
next
  case (11 env v indent out)
  show ?case
  proof (cases v)
    case (VArray vs)
    then show ?thesis using 11 by (cases vs) auto
  next
    case (VObject es)
    show ?thesis
    proof (cases es)
      case (Cons e rest)
      obtain a l where "canonical v = VObject (a # l)" "sorted_entries (a # l) = canonical_entries (sorted_entries es)"
        using canonical_object [of es] Cons VObject by auto
      then show ?thesis using 11(2) [OF VObject Cons] VObject Cons by simp
    qed (use VObject in simp)
  qed simp_all
next
  case (12 env v indent out)
  show ?case
  proof (cases v)
    case (VArray vs)
    then show ?thesis using 12 by (cases vs) auto
  next
    case (VObject es)
    show ?thesis
    proof (cases es)
      case (Cons e rest)
      obtain a l where "canonical v = VObject (a # l)" "sorted_entries (a # l) = canonical_entries (sorted_entries es)"
        using canonical_object [of es] Cons VObject by auto
      then show ?thesis using 12(2) [OF VObject Cons] VObject Cons by simp
    qed (use VObject in simp)
  qed simp_all
next
  case (13 env vs indent out)
  then show ?case by (cases vs) auto
next
  case (15 env v vs indent first_inline out)
  then show ?case by (simp only: list.map write_yaml_sequence_with_first.simps) (rule and_then_cong, auto)
next
  case (16 env v indent first_inline out)
  show ?case
  proof (cases v)
    case (VArray vs)
    then show ?thesis using 16 by (cases vs) auto
  next
    case (VObject es)
    show ?thesis
    proof (cases es)
      case (Cons e rest)
      obtain a l where "canonical v = VObject (a # l)" "sorted_entries (a # l) = canonical_entries (sorted_entries es)"
        using canonical_object [of es] Cons VObject by auto
      then show ?thesis using 16(2) [OF VObject Cons] VObject Cons by simp
    qed (use VObject in simp)
  qed simp_all
next
  case (18 env k v es indent prefix out)
  then show ?case by (simp only: list.map prod.case write_sequence_entries.simps) (rule and_then_cong, auto)
qed simp_all

text \<open>C36: The key of a request depends on its parameters only: two requests with the same parameters, those that do not
  affect the answer left out, share a key, in whatever order their objects list them.\<close>

theorem cache_key_ignores_order_and_excluded:
  fixes es es' :: "(utext \<times> 'n jvalue) list"
  assumes "distinct (map fst es)"
    and "mset (canonical_entries (filter (\<lambda>(k, _). k \<notin> set excluded_keys) es))
       = mset (canonical_entries (filter (\<lambda>(k, _). k \<notin> set excluded_keys) es'))"
  shows "graphrag_cache_key sha256 env (VObject es) = graphrag_cache_key sha256 env (VObject es')"
proof -
  let ?kept = "\<lambda>es. filter (\<lambda>(k, _). k \<notin> set excluded_keys) es"
  have "inj_on fst (set (canonical_entries (?kept es)))"
  proof -
    have "fst \<circ> (\<lambda>(k :: utext, v :: 'n jvalue). (k, canonical v)) = fst" by auto
    then have "distinct (map fst (canonical_entries (?kept es)))" using assms(1) by (simp add: distinct_map_filter)
    then show ?thesis unfolding distinct_map set_map by blast
  qed
  then have "sort_key fst (canonical_entries (?kept es)) = sort_key fst (canonical_entries (?kept es'))"
    using assms(2) by (intro sort_key_inj_key_eq) simp_all
  then have "canonical (VObject (?kept es)) = canonical (VObject (?kept es'))" by simp
  then have "write_yaml_value env (VObject (?kept es)) 0 [] = write_yaml_value env (VObject (?kept es')) 0 []"
    using canonical_writers(1) by metis
  then show ?thesis by (simp add: graphrag_cache_key_def graphrag_cache_yaml_def py_yaml_dump_def)
qed

subsection \<open>Folding at a run of spaces\<close>

text \<open>
  A plain or single-quoted scalar is folded at any space past the width, also inside a run of spaces. YAML then reads
  one space for the break and the indentation and the spaces after it, so such a string does not read back.
\<close>

theorem folded_space_run_is_lost:
  "format_string (u ''a:  b'') 2 95 = [39] @ u ''a:'' @ [10, 32, 32, 32] @ u ''b'' @ [39]
   \<and> read_scalar (format_string (u ''a:  b'') 2 95) = u ''a: b''"
proof -
  have two: "replicate 2 x = [x, x]" for x :: nat by (simp add: numeral_2_eq_2)
  have "format_string (u ''a:  b'') 2 95 = [39] @ u ''a:'' @ [10, 32, 32, 32] @ u ''b'' @ [39]"
    by (simp add: format_string_def format_string_with_context_def classify_string_scalar_def needs_double_quoted_string_def u_def
        printable_def plain_scalar_is_allowed_def format_single_quoted_scalar_def wrap_scalar_words_def pyyaml_width_def
        usize_sat_add_def usize_max_def spaces_def two)
  then show ?thesis by (simp add: read_scalar_def read_folded.simps u_def unfolded_breaks_def folding_def)
qed

subsection \<open>Concrete requests\<close>

definition sample_numbers :: "nat number_env" where
  "sample_numbers = \<lparr>ne_to_string = (\<lambda>n. u (nat_to_dec n)), ne_f64_string = (\<lambda>_. None)\<rparr>"

lemma sample_numbers_ascii: "ascii_numbers sample_numbers"
  by (auto simp: ascii_numbers_def sample_numbers_def digit_char_def printable_def intro!: ascii_u dest!: set_nat_to_dec)


theorem cache_yaml_total_and_ascii_witness:
  "\<exists>y. graphrag_cache_yaml sample_numbers (VObject [(u ''input'', VArray [VString (u ''a''), VNumber 7])]) = Inr y
     \<and> list_all (\<lambda>c. c = 10 \<or> printable c) y"
  by (rule cache_yaml_total_and_ascii [OF sample_numbers_ascii]) (simp add: u_def usize_max_def)

theorem cache_key_ignores_order_and_excluded_witness:
  "graphrag_cache_key (\<lambda>x. x) sample_numbers (VObject [(u ''b'', VNull), (u ''timeout'', VNumber 3), (u ''a'', VBool True)])
   = graphrag_cache_key (\<lambda>x. x) sample_numbers (VObject [(u ''a'', VBool True), (u ''b'', VNull)])"
  by (rule cache_key_ignores_order_and_excluded) (simp_all add: u_def excluded_keys_def)

end
