(* ===== verification/Expl_Types.thy ===== *)
theory Expl_Types
  imports Prelude
begin

text \<open>
  The transport contracts of \<open>crates/graphloom/src/explainability\<close>: validated identifiers,
  data-transfer types, content limits, records and versioned envelopes (\<open>record.rs\<close>, \<open>dto.rs\<close>,
  \<open>validation.rs\<close>, \<open>content_mode.rs\<close>).

  Timestamps are integers (nanoseconds of UTC time). A score is a floating-point number of an
  abstract type \<open>'f\<close>; the test \<open>is_finite\<close> is a parameter. The event of a record is a type
  parameter \<open>'ev\<close>, instantiated in theory \<open>Expl_Events\<close>: the store, the hub and the recorder
  never look inside it.
\<close>

type_synonym datetime = int

subsection \<open>Enumerations\<close>

datatype record_type = Document | TextUnit | Entity | Relationship | Community | CommunityReport | Covariate

datatype selection_reason =
    AnnResult | ExplicitlyIncluded | ExplicitlyExcluded | GraphExpansion | CommunityMembership
  | SourceReference | RankThreshold | TokenBudgetReason | StaleReference | MissingRecord

datatype decision_reason = Selected | NonPositiveScore | TokenBudget

datatype section_kind =
    ConversationHistory | CommunityReports | Entities | Relationships | Covariates
  | LocalGraph | Sources | MapContext | ReduceContext

datatype run_kind = Index | Update | Query | PromptTune

datatype run_status = Pending | Running | Completed | Failed | Cancelled

datatype query_method = Basic | Local | Global | Drift

datatype search_method = SearchBasic | SearchLocal | SearchGlobal | SearchDrift

fun query_method_from :: "search_method \<Rightarrow> query_method" where
  "query_method_from SearchBasic = Basic"
| "query_method_from SearchLocal = Local"
| "query_method_from SearchGlobal = Global"
| "query_method_from SearchDrift = Drift"

datatype content_mode = Metadata | Content | Debug

fun includes_content :: "content_mode \<Rightarrow> bool" where
  "includes_content Content = True"
| "includes_content Debug = True"
| "includes_content Metadata = False"

subsection \<open>Contract errors\<close>

datatype contract_error =
    InvalidIdentifier string string
  | NonFiniteScore
  | CandidateTypeMismatch record_type record_type usize
  | CollectionCountMismatch string
  | GlobalMapPointBatchMismatch usize
  | GlobalMapPointOrderMismatch usize
  | InvalidGlobalReduceDecision usize string
  | GlobalReduceTokensExceedBudget
  | InvalidDynamicSelection string
  | InvalidDynamicRatingRepeat
  | InvalidDynamicRatingDecision
  | UnsupportedSchemaVersion u32 u32
  | ZeroSequence

text \<open>A failure inside a serde serializer or deserializer carries a message or a contract error.\<close>

datatype serde_error = SerdeMessage string | SerdeContract contract_error

subsection \<open>Limits\<close>

definition max_identifier_bytes :: usize where "max_identifier_bytes = 128"
definition max_metadata_string_bytes :: usize where "max_metadata_string_bytes = 256"
definition max_message_bytes :: usize where "max_message_bytes = 4 * 1024"
definition max_content_bytes :: usize where "max_content_bytes = 1024 * 1024"
definition max_candidates :: usize where "max_candidates = 10000"
definition max_record_ids :: usize where "max_record_ids = 10000"
definition max_context_sections :: usize where "max_context_sections = 32"
definition max_global_map_points :: usize where "max_global_map_points = 10000"
definition max_dynamic_communities :: usize where "max_dynamic_communities = 10000"

lemmas limit_defs =
  max_identifier_bytes_def max_metadata_string_bytes_def max_message_bytes_def max_content_bytes_def
  max_candidates_def max_record_ids_def max_context_sections_def max_global_map_points_def
  max_dynamic_communities_def

subsection \<open>Identifiers\<close>

definition byte_is_ascii_alphanumeric :: "char \<Rightarrow> bool" where
  "byte_is_ascii_alphanumeric c \<longleftrightarrow>
     (let b = (of_char c :: nat) in 48 \<le> b \<and> b \<le> 57 \<or> 65 \<le> b \<and> b \<le> 90 \<or> 97 \<le> b \<and> b \<le> 122)"

definition identifier_byte :: "char \<Rightarrow> bool" where
  "identifier_byte c \<longleftrightarrow> byte_is_ascii_alphanumeric c \<or> c \<in> {CHR ''-'', CHR ''_'', CHR ''.'', CHR '':''}"

definition validate_identifier :: "string \<Rightarrow> string \<Rightarrow> contract_error + unit" where [guard_defs]:
  "validate_identifier v kind =
     (if v = [] then Inl (InvalidIdentifier kind ''value must not be empty'')
      else if max_identifier_bytes < length v then Inl (InvalidIdentifier kind ''value exceeds 128 bytes'')
      else if \<not> list_all identifier_byte v
        then Inl (InvalidIdentifier kind
          ''only ASCII letters, digits, hyphen, underscore, period, and colon are allowed'')
      else Inr ())"

datatype run_id = RunId (run_id_str: string)
datatype span_id = SpanId (span_id_str: string)

definition run_id_from_str :: "string \<Rightarrow> contract_error + run_id" where
  "run_id_from_str v = and_then (validate_identifier v ''explainability run id'') (\<lambda>_. Inr (RunId v))"

definition span_id_from_str :: "string \<Rightarrow> contract_error + span_id" where
  "span_id_from_str v = and_then (validate_identifier v ''explainability span id'') (\<lambda>_. Inr (SpanId v))"

text \<open>Run identifiers are compared as their text.\<close>

instantiation run_id :: linorder
begin

definition less_eq_run_id :: "run_id \<Rightarrow> run_id \<Rightarrow> bool" where
  "less_eq_run_id a b \<longleftrightarrow> run_id_str a \<le> run_id_str b"

definition less_run_id :: "run_id \<Rightarrow> run_id \<Rightarrow> bool" where
  "less_run_id a b \<longleftrightarrow> run_id_str a < run_id_str b"

instance
  by standard (auto simp: less_eq_run_id_def less_run_id_def intro: run_id.expand)

end

definition validate_string :: "string \<Rightarrow> usize \<Rightarrow> string \<Rightarrow> string + unit" where [guard_defs]:
  "validate_string v max_bytes label =
     (if max_bytes < length v
      then Inl (label @ '' exceeds '' @ nat_to_dec max_bytes @ '' bytes'')
      else Inr ())"

definition validate_dynamic_id :: "string \<Rightarrow> string \<Rightarrow> string + unit" where [guard_defs]:
  "validate_dynamic_id v label =
     and_then (validate_string v max_metadata_string_bytes label) (\<lambda>_.
       if v = [] then Inl (label @ '' must not be empty'')
       else if \<not> list_all identifier_byte v
         then Inl (label @ '' may contain only ASCII letters, digits, hyphen, underscore, period, or colon'')
       else Inr ())"

definition dynamic_id_ok :: "string \<Rightarrow> bool" where
  "dynamic_id_ok v \<longleftrightarrow> v \<noteq> [] \<and> length v \<le> max_metadata_string_bytes \<and> list_all identifier_byte v"

lemma validate_string_Inr [simp]: "validate_string v n label = Inr () \<longleftrightarrow> length v \<le> n"
  by (auto simp: validate_string_def)

lemma validate_dynamic_id_Inr [simp]: "validate_dynamic_id v label = Inr () \<longleftrightarrow> dynamic_id_ok v"
  by (auto simp: validate_dynamic_id_def dynamic_id_ok_def and_then_Inr_iff)

lemma validate_identifier_Inr:
  "validate_identifier v kind = Inr () \<longleftrightarrow>
   v \<noteq> [] \<and> length v \<le> max_identifier_bytes \<and> list_all identifier_byte v"
  by (auto simp: validate_identifier_def)

subsection \<open>Scores, candidates and evidence\<close>

definition score_try_from :: "('f \<Rightarrow> bool) \<Rightarrow> 'f \<Rightarrow> contract_error + 'f" where
  "score_try_from is_finite v = (if is_finite v then Inr v else Inl NonFiniteScore)"

record 'f candidate =
  ca_id :: string
  ca_short_id :: "string option"
  ca_title :: "string option"
  ca_record_type :: record_type
  ca_score :: "'f option"
  ca_rank :: "u32 option"
  ca_selected :: bool
  ca_reason :: "selection_reason option"
  ca_source_id :: "string option"
  ca_relationship_id :: "string option"
  ca_expansion_depth :: "u32 option"

definition candidate_new :: "string \<Rightarrow> record_type \<Rightarrow> 'f candidate" where
  "candidate_new i t =
     \<lparr>ca_id = i, ca_short_id = None, ca_title = None, ca_record_type = t, ca_score = None, ca_rank = None,
      ca_selected = False, ca_reason = None, ca_source_id = None, ca_relationship_id = None,
      ca_expansion_depth = None\<rparr>"

record context_section =
  cs_section :: section_kind
  cs_name :: "string option"
  cs_token_budget :: u64
  cs_tokens_used :: u64
  cs_candidate_count :: u64
  cs_selected_count :: u64
  cs_truncated :: bool
  cs_selected_record_ids :: "string list"

definition context_section_new :: "section_kind \<Rightarrow> u64 \<Rightarrow> context_section" where
  "context_section_new section budget =
     \<lparr>cs_section = section, cs_name = None, cs_token_budget = budget, cs_tokens_used = 0,
      cs_candidate_count = 0, cs_selected_count = 0, cs_truncated = False, cs_selected_record_ids = []\<rparr>"

record rating_evidence =
  re_community_id :: string
  re_report_id :: string
  re_level :: i64
  re_selected_rating :: i64
  re_threshold_passed :: bool
  re_selected :: bool

definition invalid_dynamic_id :: "string \<Rightarrow> contract_error" where
  "invalid_dynamic_id kind =
     InvalidIdentifier kind ''value is empty, too long, or contains disallowed bytes''"

definition check_dynamic_id :: "string \<Rightarrow> string \<Rightarrow> contract_error + unit" where [guard_defs]:
  "check_dynamic_id v kind = map_err (\<lambda>_. invalid_dynamic_id kind) (validate_dynamic_id v kind)"

definition rating_evidence_validate :: "rating_evidence \<Rightarrow> contract_error + unit" where [guard_defs]:
  "rating_evidence_validate e =
     and_then (check_dynamic_id (re_community_id e) ''Dynamic community ID'') (\<lambda>_.
     and_then (check_dynamic_id (re_report_id e) ''CommunityReport ID'') (\<lambda>_.
       if re_selected e \<and> \<not> re_threshold_passed e then Inl InvalidDynamicRatingDecision else Inr ()))"

definition rating_evidence_try_new ::
  "string \<Rightarrow> string \<Rightarrow> i64 \<Rightarrow> i64 \<Rightarrow> bool \<Rightarrow> bool \<Rightarrow> contract_error + rating_evidence" where
  "rating_evidence_try_new community report level rating passed selected =
     (let e = \<lparr>re_community_id = community, re_report_id = report, re_level = level,
               re_selected_rating = rating, re_threshold_passed = passed, re_selected = selected\<rparr>
      in and_then (rating_evidence_validate e) (\<lambda>_. Inr e))"

record map_point_evidence =
  mp_batch_index :: u32
  mp_point_index :: u32
  mp_score :: i64
  mp_answer :: "string option"

definition map_point_evidence_new :: "u32 \<Rightarrow> u32 \<Rightarrow> i64 \<Rightarrow> map_point_evidence" where
  "map_point_evidence_new b p s =
     \<lparr>mp_batch_index = b, mp_point_index = p, mp_score = s, mp_answer = None\<rparr>"

record map_point_decision =
  md_batch_index :: u32
  md_point_index :: u32
  md_score :: i64
  md_selected :: bool
  md_reason :: decision_reason
  md_answer :: "string option"

definition map_point_decision_new ::
  "u32 \<Rightarrow> u32 \<Rightarrow> i64 \<Rightarrow> bool \<Rightarrow> decision_reason \<Rightarrow> map_point_decision" where
  "map_point_decision_new b p s sel r =
     \<lparr>md_batch_index = b, md_point_index = p, md_score = s, md_selected = sel, md_reason = r,
      md_answer = None\<rparr>"

lemma check_dynamic_id_Inr [simp]: "check_dynamic_id v kind = Inr () \<longleftrightarrow> dynamic_id_ok v"
  by (simp add: check_dynamic_id_def)

lemma rating_evidence_validate_Inr:
  "rating_evidence_validate e = Inr () \<longleftrightarrow>
   dynamic_id_ok (re_community_id e) \<and> dynamic_id_ok (re_report_id e)
   \<and> (re_selected e \<longrightarrow> re_threshold_passed e)"
  by (auto simp: rating_evidence_validate_def and_then_Inr_iff)

subsection \<open>Runs\<close>

record expl_run =
  run_run_id :: run_id
  run_kind :: run_kind
  run_status :: run_status
  run_query :: "string option"
  run_query_method :: "query_method option"
  run_started_at :: datetime
  run_completed_at :: "datetime option"
  run_compatibility_profile :: "string option"
  run_event_count :: u64

definition expl_run_new :: "run_id \<Rightarrow> run_kind \<Rightarrow> datetime \<Rightarrow> expl_run" where
  "expl_run_new r k t =
     \<lparr>run_run_id = r, run_kind = k, run_status = Pending, run_query = None, run_query_method = None,
      run_started_at = t, run_completed_at = None, run_compatibility_profile = None,
      run_event_count = 0\<rparr>"

subsection \<open>Records and envelopes\<close>

record 'ev expl_record =
  rec_run_id :: run_id
  rec_timestamp :: datetime
  rec_span_id :: span_id
  rec_parent_span_id :: "span_id option"
  rec_event :: 'ev

definition schema_version :: u32 where
  "schema_version = 1"

record 'ev envelope =
  env_schema_version :: u32
  env_sequence :: u64 \<comment> \<open>a \<open>NonZeroU64\<close>\<close>
  env_record :: "'ev expl_record"

definition envelope_new :: "u64 \<Rightarrow> 'ev expl_record \<Rightarrow> contract_error + 'ev envelope" where
  "envelope_new sequence r =
     (if sequence = 0 then Inl ZeroSequence
      else Inr \<lparr>env_schema_version = schema_version, env_sequence = sequence, env_record = r\<rparr>)"

text \<open>The wire form of an envelope, before its version and sequence have been checked.\<close>

record 'ev envelope_wire =
  wire_schema_version :: u32
  wire_sequence :: u64
  wire_record :: "'ev expl_record"

definition envelope_serialize :: "'ev envelope \<Rightarrow> 'ev envelope_wire" where
  "envelope_serialize e =
     \<lparr>wire_schema_version = env_schema_version e, wire_sequence = env_sequence e,
      wire_record = env_record e\<rparr>"

definition envelope_deserialize :: "'ev envelope_wire \<Rightarrow> serde_error + 'ev envelope" where
  "envelope_deserialize w =
     (if wire_schema_version w \<noteq> schema_version
      then Inl (SerdeContract (UnsupportedSchemaVersion (wire_schema_version w) schema_version))
      else map_err SerdeContract (envelope_new (wire_sequence w) (wire_record w)))"

abbreviation env_run :: "'ev envelope \<Rightarrow> run_id" where
  "env_run e \<equiv> rec_run_id (env_record e)"

lemma envelope_new_Inr:
  "envelope_new s r = Inr e \<longleftrightarrow>
   s \<noteq> 0 \<and> e = \<lparr>env_schema_version = schema_version, env_sequence = s, env_record = r\<rparr>"
  by (auto simp: envelope_new_def)

text \<open>Envelope wire format: an envelope made by the constructor survives a serialise/deserialise
  round trip unchanged, and whatever deserialises has the current schema version, a non-zero
  sequence and exactly the fields of its wire form.\<close>

theorem envelope_roundtrip:
  "(\<forall>s r e. envelope_new s r = Inr e \<longrightarrow> envelope_deserialize (envelope_serialize e) = Inr e) \<and>
   (\<forall>w e. envelope_deserialize w = Inr e \<longrightarrow>
      env_schema_version e = schema_version \<and> env_sequence e \<noteq> 0 \<and> envelope_serialize e = w)"
  by (auto simp: envelope_new_Inr envelope_deserialize_def envelope_serialize_def split: if_splits)

theorem envelope_roundtrip_witness:
  "envelope_deserialize (envelope_serialize
     \<lparr>env_schema_version = 1, env_sequence = 7,
      env_record = \<lparr>rec_run_id = RunId ''r'', rec_timestamp = 0, rec_span_id = SpanId ''s'',
                    rec_parent_span_id = None, rec_event = (3::nat)\<rparr>\<rparr>) =
   Inr \<lparr>env_schema_version = 1, env_sequence = 7,
      env_record = \<lparr>rec_run_id = RunId ''r'', rec_timestamp = 0, rec_span_id = SpanId ''s'',
                    rec_parent_span_id = None, rec_event = 3\<rparr>\<rparr>"
  by (rule envelope_roundtrip [THEN conjunct1, rule_format,
        of 7 "\<lparr>rec_run_id = RunId ''r'', rec_timestamp = 0, rec_span_id = SpanId ''s'',
               rec_parent_span_id = None, rec_event = 3\<rparr>"])
     (simp add: envelope_new_def schema_version_def)

end
