(* ===== verification/Expl_Events.thy ===== *)
theory Expl_Events
  imports Expl_Types
begin

text \<open>
  The business events of \<open>explainability/event.rs\<close>: one record per payload struct, the event
  enumeration, and the constructors that validate what they build. Private fields are only ever
  filled by these constructors or by the deserializers of theory \<open>Expl_Wire\<close>.
\<close>

subsection \<open>Payloads\<close>

definition u32_of_len :: "usize \<Rightarrow> u32" where
  "u32_of_len n = (if n < 2 ^ 32 then of_nat n else - 1)" \<comment> \<open>\<open>u32::try_from(n).unwrap_or(u32::MAX)\<close>\<close>

definition u64_of_len :: "usize \<Rightarrow> u64" where
  "u64_of_len n = (if n < 2 ^ 64 then of_nat n else - 1)"

record run_started =
  rs_kind :: run_kind
  rs_content_mode :: content_mode

record run_completed =
  rc_elapsed_ms :: u64

record run_failed =
  rf_error_kind :: string
  rf_message :: string

record query_started =
  qs_method :: query_method
  qs_query :: "string option"

record mapping_query_built =
  mq_conversation_turn_count :: u32
  mq_mapping_query :: "string option"

record embedding_started =
  es_model_id :: string
  es_input :: "string option"

record embedding_completed =
  ec_model_id :: string
  ec_prompt_tokens :: u64
  ec_dimensions :: u32

datatype basic_skip_reason = EmptyQuery

record basic_retrieval_skipped =
  bs_reason :: basic_skip_reason

text \<open>\<open>CandidatesRetrieved\<close> and \<open>CandidatesFiltered\<close> have the same fields; the five selection payloads
  made by \<open>candidate_selection_payload!\<close> hold one candidate list of a fixed record type.\<close>

record 'f candidate_collection =
  cc_record_type :: record_type
  cc_candidates :: "'f candidate list"

record 'f candidate_selection =
  sel_candidates :: "'f candidate list"

record graph_expansion_started =
  ge_seed_entity_ids :: "string list"

record section_budget =
  sb_section :: section_kind
  sb_token_budget :: u64

record context_budget_allocated =
  cb_total_token_budget :: u64
  cb_sections :: "section_budget list"

record context_section_built =
  sbu_section :: context_section

record context_completed =
  cco_tokens_used :: u64
  cco_context :: "string option"

record global_context_built =
  gc_batch_count :: u32
  gc_report_count :: u32

datatype wave_source = Initial | ChildExpansion | Fallback

record selection_started =
  ss_initial_community_count :: u32
  ss_threshold :: i64
  ss_max_level :: i64
  ss_keep_parent :: bool
  ss_use_summary :: bool
  ss_num_repeats :: u32

record wave_started =
  ws_wave_index :: u32
  ws_source :: wave_source
  ws_community_ids :: "string list"

record rating_attempt_started =
  ra_community_id :: string
  ra_report_id :: string
  ra_repeat_index :: u32
  ra_repeat_count :: u32

record selection_completed =
  sc_visited_count :: u32
  sc_threshold_passed_count :: u32
  sc_selected_count :: u32
  sc_selected_community_ids :: "string list"
  sc_selected_report_ids :: "string list"
  sc_ratings :: "rating_evidence list"

record global_map_started =
  gm_batch_count :: u32

record map_batch_built =
  mb_batch_index :: u32
  mb_report_count :: u32
  mb_report_ids :: "string list"
  mb_tokens_used :: u64
  mb_token_budget :: u64
  mb_context :: "string option"

record map_points_produced =
  pp_batch_index :: u32
  pp_points :: "map_point_evidence list"

record reduce_context_built =
  rd_candidate_point_count :: u64
  rd_positive_point_count :: u64
  rd_selected_point_count :: u64
  rd_token_budget :: u64
  rd_tokens_used :: u64
  rd_truncated :: bool
  rd_points :: "map_point_decision list"
  rd_context :: "string option"

datatype reduce_skip_reason = NoPositivePoints

record reduce_skipped =
  rk_reason :: reduce_skip_reason

record llm_request_started =
  ls_model_id :: string
  ls_prompt_tokens :: u64
  ls_prompt :: "string option"

record llm_request_completed =
  lc_model_id :: string
  lc_input_tokens :: u64
  lc_output_tokens :: u64
  lc_elapsed_ms :: u64
  lc_response :: "string option"

record expl_warning =
  wa_code :: string
  wa_message :: string
  wa_record_id :: "string option"

datatype 'f expl_event =
    RunStarted run_started
  | RunCompleted run_completed
  | RunFailed run_failed
  | QueryStarted query_started
  | MappingQueryBuilt mapping_query_built
  | EmbeddingStarted embedding_started
  | EmbeddingCompleted embedding_completed
  | BasicRetrievalSkipped basic_retrieval_skipped
  | CandidatesRetrieved "'f candidate_collection"
  | CandidatesFiltered "'f candidate_collection"
  | EntitiesSelected "'f candidate_selection"
  | GraphExpansionStarted graph_expansion_started
  | RelationshipsSelected "'f candidate_selection"
  | CommunityReportsSelected "'f candidate_selection"
  | CovariatesSelected "'f candidate_selection"
  | TextUnitsSelected "'f candidate_selection"
  | ContextBudgetAllocated context_budget_allocated
  | ContextSectionBuilt context_section_built
  | ContextCompleted context_completed
  | GlobalContextBuilt global_context_built
  | DynamicCommunitySelectionStarted selection_started
  | DynamicCommunityTraversalWaveStarted wave_started
  | DynamicCommunityRatingAttemptStarted rating_attempt_started
  | DynamicCommunitySelectionCompleted selection_completed
  | GlobalMapStarted global_map_started
  | GlobalMapBatchBuilt map_batch_built
  | GlobalMapPointsProduced map_points_produced
  | GlobalReduceContextBuilt reduce_context_built
  | GlobalReduceSkipped reduce_skipped
  | LlmRequestStarted llm_request_started
  | LlmRequestCompleted llm_request_completed
  | Warning expl_warning

subsection \<open>Validated constructors\<close>

fun find_enumerated :: "nat \<Rightarrow> (nat \<Rightarrow> 'a \<Rightarrow> bool) \<Rightarrow> 'a list \<Rightarrow> (nat \<times> 'a) option" where
  "find_enumerated n p [] = None"
| "find_enumerated n p (x # xs) = (if p n x then Some (n, x) else find_enumerated (Suc n) p xs)"

lemma find_enumerated_None: "find_enumerated n p xs = None \<longleftrightarrow> (\<forall>i < length xs. \<not> p (n + i) (xs ! i))"
proof (induction xs arbitrary: n)
  case Nil
  then show ?case by simp
next
  case (Cons x xs)
  show ?case
    by (auto simp: Cons.IH nth_Cons' less_Suc_eq_0_disj split: if_splits)
qed

definition validate_candidate_types :: "record_type \<Rightarrow> 'f candidate list \<Rightarrow> contract_error + unit" where [guard_defs]:
  "validate_candidate_types expected candidates =
     (case find_enumerated 0 (\<lambda>_ c. ca_record_type c \<noteq> expected) candidates of
        Some (i, c) \<Rightarrow> Inl (CandidateTypeMismatch expected (ca_record_type c) i)
      | None \<Rightarrow> Inr ())"

definition candidate_collection_try_new ::
  "record_type \<Rightarrow> 'f candidate list \<Rightarrow> contract_error + 'f candidate_collection" where
  "candidate_collection_try_new t cs =
     and_then (validate_candidate_types t cs) (\<lambda>_. Inr \<lparr>cc_record_type = t, cc_candidates = cs\<rparr>)"

definition candidate_selection_try_new ::
  "record_type \<Rightarrow> 'f candidate list \<Rightarrow> contract_error + 'f candidate_selection" where
  "candidate_selection_try_new t cs =
     and_then (validate_candidate_types t cs) (\<lambda>_. Inr \<lparr>sel_candidates = cs\<rparr>)"

definition selection_started_validate :: "selection_started \<Rightarrow> contract_error + unit" where [guard_defs]:
  "selection_started_validate e =
     (if ss_initial_community_count e = 0
        then Inl (InvalidDynamicSelection ''initial community count must be greater than zero'')
      else if ss_max_level e < 0
        then Inl (InvalidDynamicSelection ''max level must be non-negative'')
      else if ss_num_repeats e = 0
        then Inl (InvalidDynamicSelection ''repeat count must be greater than zero'')
      else if max_dynamic_communities < unat (ss_initial_community_count e)
        then Inl (InvalidDynamicSelection ''initial community count exceeds the contract limit'')
      else Inr ())"

definition selection_started_try_new ::
  "u32 \<Rightarrow> i64 \<Rightarrow> i64 \<Rightarrow> bool \<Rightarrow> bool \<Rightarrow> u32 \<Rightarrow> contract_error + selection_started" where
  "selection_started_try_new count threshold max_level keep_parent use_summary repeats =
     (let e = \<lparr>ss_initial_community_count = count, ss_threshold = threshold, ss_max_level = max_level,
               ss_keep_parent = keep_parent, ss_use_summary = use_summary, ss_num_repeats = repeats\<rparr>
      in and_then (selection_started_validate e) (\<lambda>_. Inr e))"

text \<open>The duplicate check walks the list with the set of identifiers seen so far.\<close>

fun wave_ids_check :: "string set \<Rightarrow> string list \<Rightarrow> contract_error + unit" where
  "wave_ids_check seen [] = Inr ()"
| "wave_ids_check seen (i # is) =
     and_then (check_dynamic_id i ''Dynamic community ID'') (\<lambda>_.
       if i \<in> seen
       then Inl (InvalidDynamicSelection ''traversal wave contains duplicate community identities'')
       else wave_ids_check (insert i seen) is)"

definition wave_started_validate :: "wave_started \<Rightarrow> contract_error + unit" where [guard_defs]:
  "wave_started_validate e =
     (if ws_community_ids e = []
        then Inl (InvalidDynamicSelection ''traversal wave must contain at least one community'')
      else if max_dynamic_communities < length (ws_community_ids e)
        then Inl (InvalidDynamicSelection ''traversal wave exceeds the community contract limit'')
      else wave_ids_check {} (ws_community_ids e))"

definition wave_started_try_new :: "u32 \<Rightarrow> wave_source \<Rightarrow> string list \<Rightarrow> contract_error + wave_started" where
  "wave_started_try_new i src ids =
     (let e = \<lparr>ws_wave_index = i, ws_source = src, ws_community_ids = ids\<rparr>
      in and_then (wave_started_validate e) (\<lambda>_. Inr e))"

definition rating_attempt_started_validate :: "rating_attempt_started \<Rightarrow> contract_error + unit" where [guard_defs]:
  "rating_attempt_started_validate e =
     and_then (check_dynamic_id (ra_community_id e) ''Dynamic community ID'') (\<lambda>_.
     and_then (check_dynamic_id (ra_report_id e) ''CommunityReport ID'') (\<lambda>_.
       if ra_repeat_count e = 0 \<or> ra_repeat_count e \<le> ra_repeat_index e
       then Inl InvalidDynamicRatingRepeat else Inr ()))"

definition rating_attempt_started_try_new ::
  "string \<Rightarrow> string \<Rightarrow> u32 \<Rightarrow> u32 \<Rightarrow> contract_error + rating_attempt_started" where
  "rating_attempt_started_try_new community report i n =
     (let e = \<lparr>ra_community_id = community, ra_report_id = report, ra_repeat_index = i, ra_repeat_count = n\<rparr>
      in and_then (rating_attempt_started_validate e) (\<lambda>_. Inr e))"

fun evidence_unique_check :: "string set \<Rightarrow> string set \<Rightarrow> rating_evidence list \<Rightarrow> contract_error + unit" where
  "evidence_unique_check cs rs [] = Inr ()"
| "evidence_unique_check cs rs (e # es) =
     (if re_community_id e \<in> cs \<or> re_report_id e \<in> rs
      then Inl (InvalidDynamicSelection ''selection evidence contains duplicate community or report identities'')
      else evidence_unique_check (insert (re_community_id e) cs) (insert (re_report_id e) rs) es)"

fun selected_agree_check :: "((rating_evidence \<times> string) \<times> string) list \<Rightarrow> contract_error + unit" where
  "selected_agree_check [] = Inr ()"
| "selected_agree_check (((rating, community_id), report_id) # zs) =
     (if \<not> re_threshold_passed rating then Inl InvalidDynamicRatingDecision
      else if re_community_id rating \<noteq> community_id \<or> re_report_id rating \<noteq> report_id
        then Inl (InvalidDynamicSelection ''selected identities disagree with final rating evidence'')
      else selected_agree_check zs)"

definition selection_completed_validate :: "selection_completed \<Rightarrow> contract_error + unit" where [guard_defs]:
  "selection_completed_validate e =
     (if max_dynamic_communities < length (sc_ratings e)
         \<or> max_dynamic_communities < length (sc_selected_community_ids e)
         \<or> max_dynamic_communities < length (sc_selected_report_ids e)
      then Inl (InvalidDynamicSelection ''selection evidence exceeds the community contract limit'')
      else
        let visited = u32_of_len (length (sc_ratings e));
            passed = u32_of_len (length (filter re_threshold_passed (sc_ratings e)));
            selected = filter re_selected (sc_ratings e);
            selected_count = u32_of_len (length selected)
        in and_then (evidence_unique_check {} {} (sc_ratings e)) (\<lambda>_.
          if sc_visited_count e \<noteq> visited
            then Inl (CollectionCountMismatch ''Dynamic visited community'')
          else if sc_threshold_passed_count e \<noteq> passed
            then Inl (CollectionCountMismatch ''Dynamic threshold-passed community'')
          else if sc_selected_count e \<noteq> selected_count
              \<or> length (sc_selected_community_ids e) \<noteq> length selected
              \<or> length (sc_selected_report_ids e) \<noteq> length selected
            then Inl (CollectionCountMismatch ''Dynamic selected community'')
          else selected_agree_check
                 (zip (zip selected (sc_selected_community_ids e)) (sc_selected_report_ids e))))"

definition selection_completed_try_new ::
  "string list \<Rightarrow> string list \<Rightarrow> rating_evidence list \<Rightarrow> contract_error + selection_completed" where
  "selection_completed_try_new community_ids report_ids ratings =
     (let e = \<lparr>sc_visited_count = u32_of_len (length ratings),
               sc_threshold_passed_count = u32_of_len (length (filter re_threshold_passed ratings)),
               sc_selected_count = u32_of_len (length (filter re_selected ratings)),
               sc_selected_community_ids = community_ids, sc_selected_report_ids = report_ids,
               sc_ratings = ratings\<rparr>
      in and_then (selection_completed_validate e) (\<lambda>_. Inr e))"

definition map_batch_built_new :: "u32 \<Rightarrow> string list \<Rightarrow> u64 \<Rightarrow> u64 \<Rightarrow> map_batch_built" where
  "map_batch_built_new i ids used budget =
     \<lparr>mb_batch_index = i, mb_report_count = u32_of_len (length ids), mb_report_ids = ids,
      mb_tokens_used = used, mb_token_budget = budget, mb_context = None\<rparr>"

definition map_batch_built_validate :: "map_batch_built \<Rightarrow> contract_error + unit" where [guard_defs]:
  "map_batch_built_validate e =
     (if unat (mb_report_count e) \<noteq> length (mb_report_ids e)
      then Inl (CollectionCountMismatch ''Global map batch report'') else Inr ())"

definition map_points_produced_validate :: "map_points_produced \<Rightarrow> contract_error + unit" where [guard_defs]:
  "map_points_produced_validate e =
     (case find_enumerated 0 (\<lambda>_ p. mp_batch_index p \<noteq> pp_batch_index e) (pp_points e) of
        Some (i, _) \<Rightarrow> Inl (GlobalMapPointBatchMismatch i)
      | None \<Rightarrow>
        (case find_enumerated 0 (\<lambda>i p. \<not> (i < 2 ^ 32 \<and> of_nat i = mp_point_index p)) (pp_points e) of
           Some (i, _) \<Rightarrow> Inl (GlobalMapPointOrderMismatch i)
         | None \<Rightarrow> Inr ()))"

definition map_points_produced_try_new ::
  "u32 \<Rightarrow> map_point_evidence list \<Rightarrow> contract_error + map_points_produced" where
  "map_points_produced_try_new i ps =
     (let e = \<lparr>pp_batch_index = i, pp_points = ps\<rparr>
      in and_then (map_points_produced_validate e) (\<lambda>_. Inr e))"

definition decision_valid :: "map_point_decision \<Rightarrow> bool" where
  "decision_valid p =
     (case md_reason p of
        Selected \<Rightarrow> md_selected p \<and> 0 < md_score p
      | NonPositiveScore \<Rightarrow> \<not> md_selected p \<and> md_score p \<le> 0
      | TokenBudget \<Rightarrow> \<not> md_selected p \<and> 0 < md_score p)"

definition reduce_context_built_validate :: "reduce_context_built \<Rightarrow> contract_error + unit" where [guard_defs]:
  "reduce_context_built_validate e =
     (if rd_candidate_point_count e \<noteq> u64_of_len (length (rd_points e))
        then Inl (CollectionCountMismatch ''Global Reduce candidate point'')
      else if rd_positive_point_count e \<noteq> u64_of_len (length (filter (\<lambda>p. 0 < md_score p) (rd_points e)))
        then Inl (CollectionCountMismatch ''Global Reduce positive point'')
      else if rd_selected_point_count e \<noteq> u64_of_len (length (filter md_selected (rd_points e)))
        then Inl (CollectionCountMismatch ''Global Reduce selected point'')
      else if rd_token_budget e < rd_tokens_used e
        then Inl GlobalReduceTokensExceedBudget
      else case find_enumerated 0 (\<lambda>_ p. \<not> decision_valid p) (rd_points e) of
             Some (i, _) \<Rightarrow>
               Inl (InvalidGlobalReduceDecision i ''score, selected flag, and decision reason disagree'')
           | None \<Rightarrow>
               if rd_truncated e \<noteq> list_ex (\<lambda>p. md_reason p = TokenBudget) (rd_points e)
               then Inl (InvalidGlobalReduceDecision 0 ''truncated flag disagrees with token-budget decisions'')
               else Inr ())"

definition reduce_context_built_try_new ::
  "u64 \<Rightarrow> u64 \<Rightarrow> bool \<Rightarrow> map_point_decision list \<Rightarrow> contract_error + reduce_context_built" where
  "reduce_context_built_try_new budget used truncated ps =
     (let e = \<lparr>rd_candidate_point_count = u64_of_len (length ps),
               rd_positive_point_count = u64_of_len (length (filter (\<lambda>p. 0 < md_score p) ps)),
               rd_selected_point_count = u64_of_len (length (filter md_selected ps)),
               rd_token_budget = budget, rd_tokens_used = used, rd_truncated = truncated,
               rd_points = ps, rd_context = None\<rparr>
      in and_then (reduce_context_built_validate e) (\<lambda>_. Inr e))"

lemma validate_candidate_types_Inr:
  "validate_candidate_types t cs = Inr () \<longleftrightarrow> (\<forall>c \<in> set cs. ca_record_type c = t)"
proof -
  have "validate_candidate_types t cs = Inr () \<longleftrightarrow> find_enumerated 0 (\<lambda>_ c. ca_record_type c \<noteq> t) cs = None"
    by (auto simp: validate_candidate_types_def split: option.splits)
  then show ?thesis by (simp add: find_enumerated_None all_set_conv_all_nth)
qed

lemma wave_ids_check_Inr:
  "wave_ids_check seen ids = Inr () \<longleftrightarrow>
   (\<forall>i \<in> set ids. dynamic_id_ok i) \<and> distinct ids \<and> set ids \<inter> seen = {}"
  by (induction ids arbitrary: seen) (auto simp: and_then_Inr_iff split: if_splits)

lemma wave_started_validate_Inr:
  "wave_started_validate e = Inr () \<longleftrightarrow>
   ws_community_ids e \<noteq> [] \<and> length (ws_community_ids e) \<le> max_dynamic_communities
   \<and> (\<forall>i \<in> set (ws_community_ids e). dynamic_id_ok i) \<and> distinct (ws_community_ids e)"
  by (auto simp: wave_started_validate_def wave_ids_check_Inr)

lemma evidence_unique_check_Inr:
  "evidence_unique_check cs rs es = Inr () \<longleftrightarrow>
   distinct (map re_community_id es) \<and> set (map re_community_id es) \<inter> cs = {} \<and>
   distinct (map re_report_id es) \<and> set (map re_report_id es) \<inter> rs = {}"
  by (induction es arbitrary: cs rs) (auto split: if_splits)

lemma selected_agree_check_Inr:
  "length cs = length es \<Longrightarrow> length rs = length es \<Longrightarrow>
   selected_agree_check (zip (zip es cs) rs) = Inr () \<longleftrightarrow>
   (\<forall>e \<in> set es. re_threshold_passed e) \<and> cs = map re_community_id es \<and> rs = map re_report_id es"
proof (induction es arbitrary: cs rs)
  case Nil
  then show ?case by simp
next
  case (Cons e es)
  then obtain c cs' r rs' where "cs = c # cs'" "rs = r # rs'" "length cs' = length es" "length rs' = length es"
    by (auto simp: length_Suc_conv)
  with Cons.IH [of cs' rs'] show ?case by auto
qed

definition completed_evidence_ok :: "string list \<Rightarrow> string list \<Rightarrow> rating_evidence list \<Rightarrow> bool" where
  "completed_evidence_ok cs rs es \<longleftrightarrow>
     length es \<le> max_dynamic_communities
     \<and> distinct (map re_community_id es) \<and> distinct (map re_report_id es)
     \<and> (\<forall>e \<in> set es. re_selected e \<longrightarrow> re_threshold_passed e)
     \<and> cs = map re_community_id (filter re_selected es) \<and> rs = map re_report_id (filter re_selected es)"

lemma selection_completed_validate_Inr:
  "selection_completed_validate e = Inr () \<longleftrightarrow>
   completed_evidence_ok (sc_selected_community_ids e) (sc_selected_report_ids e) (sc_ratings e)
   \<and> sc_visited_count e = u32_of_len (length (sc_ratings e))
   \<and> sc_threshold_passed_count e = u32_of_len (length (filter re_threshold_passed (sc_ratings e)))
   \<and> sc_selected_count e = u32_of_len (length (filter re_selected (sc_ratings e)))"
  (is "?l \<longleftrightarrow> ?r")
proof -
  let ?es = "sc_ratings e" and ?cs = "sc_selected_community_ids e" and ?rs = "sc_selected_report_ids e"
  have le: "length ?es \<le> n \<Longrightarrow> \<not> n < length (filter re_selected ?es)" for n
    using length_filter_le [of re_selected ?es] by linarith
  show ?thesis
  proof (cases "length ?cs = length (filter re_selected ?es) \<and> length ?rs = length (filter re_selected ?es)")
    case True
    then show ?thesis
      using le
      by (auto simp: selection_completed_validate_def completed_evidence_ok_def Let_def and_then_Inr_iff
          evidence_unique_check_Inr selected_agree_check_Inr)
  next
    case False
    then show ?thesis
      by (auto simp: selection_completed_validate_def completed_evidence_ok_def Let_def and_then_Inr_iff)
  qed
qed

text \<open>A \<open>DynamicCommunitySelectionCompleted\<close> event can be built from selected identifiers and rating
  evidence exactly when the evidence is bounded, names every community and report once, selects
  only communities that passed the threshold, and the two identifier lists are the selected
  communities and reports in evidence order; its three counts are then the true ones.\<close>

theorem selection_completed_try_new_iff:
  "selection_completed_try_new cs rs es = Inr e \<longleftrightarrow>
     completed_evidence_ok cs rs es
     \<and> e = \<lparr>sc_visited_count = of_nat (length es),
            sc_threshold_passed_count = of_nat (length (filter re_threshold_passed es)),
            sc_selected_count = of_nat (length cs),
            sc_selected_community_ids = cs, sc_selected_report_ids = rs, sc_ratings = es\<rparr>"
proof -
  have bound: "u32_of_len (length (filter P es)) = of_nat (length (filter P es))"
    if "completed_evidence_ok cs rs es" for P
  proof -
    have "length (filter P es) \<le> length es" by simp
    also have "\<dots> \<le> 10000" using that by (simp add: completed_evidence_ok_def max_dynamic_communities_def)
    finally show ?thesis by (simp add: u32_of_len_def)
  qed
  show ?thesis
    using bound [of "\<lambda>_. True"] bound [of re_threshold_passed] bound [of re_selected]
    by (auto simp: selection_completed_try_new_def Let_def and_then_Inr_iff selection_completed_validate_Inr)
       (auto simp: completed_evidence_ok_def)
qed

definition reduce_points_ok :: "u64 \<Rightarrow> u64 \<Rightarrow> bool \<Rightarrow> map_point_decision list \<Rightarrow> bool" where
  "reduce_points_ok budget used truncated ps \<longleftrightarrow>
     used \<le> budget \<and> (\<forall>p \<in> set ps. decision_valid p)
     \<and> truncated = (\<exists>p \<in> set ps. md_reason p = TokenBudget)"

lemma reduce_context_built_validate_Inr:
  "reduce_context_built_validate e = Inr () \<longleftrightarrow>
   reduce_points_ok (rd_token_budget e) (rd_tokens_used e) (rd_truncated e) (rd_points e)
   \<and> rd_candidate_point_count e = u64_of_len (length (rd_points e))
   \<and> rd_positive_point_count e = u64_of_len (length (filter (\<lambda>p. 0 < md_score p) (rd_points e)))
   \<and> rd_selected_point_count e = u64_of_len (length (filter md_selected (rd_points e)))"
proof -
  have "find_enumerated 0 (\<lambda>_ p. \<not> decision_valid p) (rd_points e) = None \<longleftrightarrow>
        (\<forall>p \<in> set (rd_points e). decision_valid p)"
    by (simp add: find_enumerated_None all_set_conv_all_nth)
  then show ?thesis
    by (auto simp: reduce_context_built_validate_def reduce_points_ok_def list_ex_iff not_le
        split: option.splits if_splits)
qed

lemma reduce_context_built_try_new_Inr:
  "(\<exists>e. reduce_context_built_try_new b u t ps = Inr e) \<longleftrightarrow> reduce_points_ok b u t ps"
  by (simp add: reduce_context_built_try_new_def Let_def and_then_Inr_iff reduce_context_built_validate_Inr)

lemma valid_decisions_count:
  "\<forall>p \<in> set ps. decision_valid p \<Longrightarrow>
   length (filter (\<lambda>p. 0 < md_score p) ps) =
   length (filter md_selected ps) + length (filter (\<lambda>p. md_reason p = TokenBudget) ps)"
  by (induction ps) (auto simp: decision_valid_def split: decision_reason.splits)

text \<open>A \<open>GlobalReduceContextBuilt\<close> event can be built exactly when the tokens used fit the budget,
  every point decision agrees with its score and selected flag, and the truncated flag tells
  whether a point was dropped for the budget. In an event built from a real vector of points the
  positive points are then exactly the selected ones plus the budget-excluded ones, so the event is
  marked truncated iff fewer points were selected than were positive.\<close>

theorem reduce_context_built_try_new_sound:
  assumes "length ps < 2 ^ 64"
  shows "case reduce_context_built_try_new budget used truncated ps of
           Inl _ \<Rightarrow> \<not> reduce_points_ok budget used truncated ps
         | Inr e \<Rightarrow> reduce_points_ok budget used truncated ps \<and> rd_points e = ps
             \<and> rd_truncated e = (rd_selected_point_count e < rd_positive_point_count e)"
proof (cases "reduce_context_built_try_new budget used truncated ps")
  case (Inl x)
  then have "\<not> reduce_points_ok budget used truncated ps"
    using reduce_context_built_try_new_Inr [of budget used truncated ps] by simp
  with Inl show ?thesis by simp
next
  case (Inr e)
  let ?pos = "length (filter (\<lambda>p. 0 < md_score p) ps)" and ?sel = "length (filter md_selected ps)"
  from Inr have ok: "reduce_points_ok budget used truncated ps" and e: "rd_points e = ps" "rd_truncated e = truncated"
      "rd_positive_point_count e = u64_of_len ?pos" "rd_selected_point_count e = u64_of_len ?sel"
    by (auto simp: reduce_context_built_try_new_def Let_def and_then_Inr_iff reduce_context_built_validate_Inr)
  have "?pos < 2 ^ 64" "?sel < 2 ^ 64"
    using assms by (auto intro: le_less_trans [OF length_filter_le])
  then have cnt: "u64_of_len ?sel < u64_of_len ?pos \<longleftrightarrow> ?sel < ?pos"
    by (simp add: u64_of_len_def word_less_nat_alt unat_of_nat)
  have "?sel < ?pos \<longleftrightarrow> (\<exists>p \<in> set ps. md_reason p = TokenBudget)"
    using ok valid_decisions_count [of ps] by (auto simp: reduce_points_ok_def filter_empty_conv)
  also have "\<dots> \<longleftrightarrow> truncated" using ok by (simp add: reduce_points_ok_def)
  finally have "rd_truncated e = (rd_selected_point_count e < rd_positive_point_count e)"
    using e cnt by simp
  with ok e Inr show ?thesis by simp
qed

theorem reduce_context_built_try_new_sound_witness:
  "\<exists>e. reduce_context_built_try_new 10 4 True
        [map_point_decision_new 0 0 5 True Selected, map_point_decision_new 0 1 3 False TokenBudget] = Inr e
       \<and> rd_truncated e \<and> rd_selected_point_count e < rd_positive_point_count e"
proof -
  let ?ps = "[map_point_decision_new 0 0 5 True Selected, map_point_decision_new 0 1 3 False TokenBudget]"
  have "reduce_points_ok 10 4 True ?ps"
    by (simp add: reduce_points_ok_def decision_valid_def map_point_decision_new_def)
  moreover have "rd_truncated e" if "reduce_context_built_try_new 10 4 True ?ps = Inr e" for e
    using that by (auto simp: reduce_context_built_try_new_def Let_def and_then_Inr_iff)
  ultimately show ?thesis
    using reduce_context_built_try_new_sound [of ?ps 10 4 True]
    by (cases "reduce_context_built_try_new 10 4 True ?ps") auto
qed

end
