(* ===== verification/Expl_Wire.thy ===== *)
theory Expl_Wire
  imports Expl_Events
begin

text \<open>
  The checks that the serializers and deserializers of \<open>explainability/validation.rs\<close> and
  \<open>explainability/event.rs\<close> make. Serialising is modelled by the checks it makes on the value
  (\<open>ser_*\<close>, with \<open>Inr ()\<close> when the value is written), deserialising by the checks it makes on the
  fields as \<open>serde_json\<close> has parsed them (\<open>de_*\<close>). The JSON text is not modelled: not the names of the
  fields and the tag of an event, nor the text of a number, so nothing here says that what is written
  is what is read, only which values each side accepts.
\<close>

subsection \<open>Field checks of the serde modules\<close>

definition ser_string :: "usize \<Rightarrow> string \<Rightarrow> string \<Rightarrow> serde_error + unit" where
  "ser_string max_bytes label v = map_err SerdeMessage (validate_string v max_bytes label)"

definition de_string :: "usize \<Rightarrow> string \<Rightarrow> string \<Rightarrow> serde_error + string" where
  "de_string max_bytes label v =
     and_then (map_err SerdeMessage (validate_string v max_bytes label)) (\<lambda>_. Inr v)"

fun ser_optional_string :: "usize \<Rightarrow> string \<Rightarrow> string option \<Rightarrow> serde_error + unit" where
  "ser_optional_string max_bytes label None = Inr ()"
| "ser_optional_string max_bytes label (Some v) = ser_string max_bytes label v"

fun de_optional_string :: "usize \<Rightarrow> string option \<Rightarrow> serde_error + string option" where
  "de_optional_string max_bytes None = Inr None"
| "de_optional_string max_bytes (Some v) =
     and_then (de_string max_bytes ''optional field'' v) (\<lambda>w. Inr (Some w))"

definition check_all :: "('a \<Rightarrow> 'e + unit) \<Rightarrow> 'a list \<Rightarrow> 'e + unit" where
  "check_all f xs = and_then (try_map f xs) (\<lambda>_. Inr ())"

definition ser_slice ::
  "usize \<Rightarrow> string \<Rightarrow> ('a \<Rightarrow> serde_error + unit) \<Rightarrow> 'a list \<Rightarrow> serde_error + unit" where
  "ser_slice max_elements label f xs =
     (if max_elements < length xs
      then Inl (SerdeMessage (label @ '' exceeds '' @ nat_to_dec max_elements @ '' elements''))
      else check_all f xs)"

text \<open>The visitor reads elements one by one and gives up on the first one beyond the bound.\<close>

fun visit_seq :: "usize \<Rightarrow> ('w \<Rightarrow> serde_error + 'a) \<Rightarrow> 'a list \<Rightarrow> 'w list \<Rightarrow> serde_error + 'a list" where
  "visit_seq max_elements f vals [] = Inr vals"
| "visit_seq max_elements f vals (w # ws) =
     and_then (f w) (\<lambda>v.
       if length vals = max_elements
       then Inl (SerdeMessage (''array exceeds '' @ nat_to_dec max_elements @ '' elements''))
       else visit_seq max_elements f (vals @ [v]) ws)"

definition de_vec :: "usize \<Rightarrow> ('w \<Rightarrow> serde_error + 'a) \<Rightarrow> 'w list \<Rightarrow> serde_error + 'a list" where
  "de_vec max_elements f ws = visit_seq max_elements f [] ws"

definition ser_record_ids :: "string list \<Rightarrow> serde_error + unit" where
  "ser_record_ids ids = ser_slice max_record_ids ''record ID array'' (ser_string max_metadata_string_bytes ''record ID'') ids"

definition de_record_ids :: "string list \<Rightarrow> serde_error + string list" where
  "de_record_ids ids = de_vec max_record_ids (de_string max_metadata_string_bytes ''optional field'') ids"

definition ser_dynamic_community_ids :: "string list \<Rightarrow> serde_error + unit" where
  "ser_dynamic_community_ids ids =
     ser_slice max_dynamic_communities ''Dynamic community ID array''
       (\<lambda>i. map_err SerdeMessage (validate_dynamic_id i ''Dynamic community ID'')) ids"

definition de_dynamic_community_ids :: "string list \<Rightarrow> serde_error + string list" where
  "de_dynamic_community_ids ids =
     and_then (de_vec max_dynamic_communities (de_string max_metadata_string_bytes ''optional field'') ids) (\<lambda>vs.
     and_then (check_all (\<lambda>i. map_err SerdeMessage (validate_dynamic_id i ''Dynamic community ID'')) vs) (\<lambda>_. Inr vs))"

lemma ser_string_Inr [simp]: "ser_string n l v = Inr () \<longleftrightarrow> length v \<le> n"
  by (simp add: ser_string_def)

lemma de_string_Inr [simp]: "de_string n l v = Inr w \<longleftrightarrow> length v \<le> n \<and> w = v"
  by (auto simp: de_string_def and_then_Inr_iff)

lemma ser_optional_string_Inr:
  "ser_optional_string n l v = Inr () \<longleftrightarrow> (\<forall>s. v = Some s \<longrightarrow> length s \<le> n)"
  by (cases v) auto

lemma de_optional_string_Inr:
  "de_optional_string n v = Inr w \<longleftrightarrow> (\<forall>s. v = Some s \<longrightarrow> length s \<le> n) \<and> w = v"
  by (cases v) (auto simp: and_then_Inr_iff)

lemma check_all_Inr: "check_all f xs = Inr () \<longleftrightarrow> (\<forall>x \<in> set xs. f x = Inr ())"
  by (induction xs) (auto simp: check_all_def and_then_Inr_iff)

lemma ser_slice_Inr:
  "ser_slice n l f xs = Inr () \<longleftrightarrow> length xs \<le> n \<and> (\<forall>x \<in> set xs. f x = Inr ())"
  by (auto simp: ser_slice_def check_all_Inr)

lemma visit_seq_Inr:
  assumes "\<And>w v. w \<in> set ws \<Longrightarrow> f w = Inr v \<longleftrightarrow> P w \<and> v = w" and "length vals \<le> n"
  shows "visit_seq n f vals ws = Inr r \<longleftrightarrow>
         length vals + length ws \<le> n \<and> (\<forall>w \<in> set ws. P w) \<and> r = vals @ ws"
  using assms
proof (induction ws arbitrary: vals)
  case Nil
  then show ?case by auto
next
  case (Cons w ws)
  show ?case
  proof (cases "length vals = n")
    case True
    then show ?thesis by (auto simp: and_then_Inr_iff)
  next
    case False
    with Cons.prems have "length (vals @ [w]) \<le> n" by simp
    with Cons.IH [of "vals @ [w]"] Cons.prems(1)
    have IH: "visit_seq n f (vals @ [w]) ws = Inr r \<longleftrightarrow>
        length (vals @ [w]) + length ws \<le> n \<and> (\<forall>w \<in> set ws. P w) \<and> r = (vals @ [w]) @ ws"
      by simp
    with False Cons.prems(1) [of w] show ?thesis by (auto simp: and_then_Inr_iff)
  qed
qed

lemma de_vec_Inr:
  assumes "\<And>w v. w \<in> set ws \<Longrightarrow> f w = Inr v \<longleftrightarrow> P w \<and> v = w"
  shows "de_vec n f ws = Inr r \<longleftrightarrow> length ws \<le> n \<and> (\<forall>w \<in> set ws. P w) \<and> r = ws"
  using visit_seq_Inr [of ws f P "[]" n r] assms by (simp add: de_vec_def)

definition record_ids_ok :: "string list \<Rightarrow> bool" where
  "record_ids_ok ids \<longleftrightarrow> length ids \<le> max_record_ids \<and> (\<forall>i \<in> set ids. length i \<le> max_metadata_string_bytes)"

definition dynamic_ids_ok :: "string list \<Rightarrow> bool" where
  "dynamic_ids_ok ids \<longleftrightarrow> length ids \<le> max_dynamic_communities \<and> (\<forall>i \<in> set ids. dynamic_id_ok i)"

lemma ser_record_ids_Inr: "ser_record_ids ids = Inr () \<longleftrightarrow> record_ids_ok ids"
  by (simp add: ser_record_ids_def ser_slice_Inr record_ids_ok_def)

lemma de_record_ids_Inr: "de_record_ids ids = Inr r \<longleftrightarrow> record_ids_ok ids \<and> r = ids"
  unfolding de_record_ids_def record_ids_ok_def
  by (subst de_vec_Inr [where P = "\<lambda>i. length i \<le> max_metadata_string_bytes"]) auto

lemma ser_dynamic_community_ids_Inr: "ser_dynamic_community_ids ids = Inr () \<longleftrightarrow> dynamic_ids_ok ids"
  by (simp add: ser_dynamic_community_ids_def ser_slice_Inr dynamic_ids_ok_def)

lemma de_dynamic_community_ids_Inr:
  "de_dynamic_community_ids ids = Inr r \<longleftrightarrow> dynamic_ids_ok ids \<and> r = ids"
proof -
  have "de_vec max_dynamic_communities (de_string max_metadata_string_bytes ''optional field'') ids = Inr vs \<longleftrightarrow>
        length ids \<le> max_dynamic_communities \<and> (\<forall>i \<in> set ids. length i \<le> max_metadata_string_bytes) \<and> vs = ids" for vs
    by (subst de_vec_Inr [where P = "\<lambda>i. length i \<le> max_metadata_string_bytes"]) auto
  then show ?thesis
    by (auto simp: de_dynamic_community_ids_def and_then_Inr_iff check_all_Inr dynamic_ids_ok_def dynamic_id_ok_def)
qed

lemmas serde_field_simps =
  ser_optional_string_Inr de_optional_string_Inr ser_record_ids_Inr de_record_ids_Inr
  ser_dynamic_community_ids_Inr de_dynamic_community_ids_Inr and_then_Inr_iff

subsection \<open>Serialising and deserialising events\<close>

definition ser_metadata :: "string \<Rightarrow> serde_error + unit" where
  "ser_metadata = ser_string max_metadata_string_bytes ''metadata field''"

definition de_metadata :: "string \<Rightarrow> serde_error + string" where
  "de_metadata = de_string max_metadata_string_bytes ''metadata field''"

definition ser_message :: "string \<Rightarrow> serde_error + unit" where
  "ser_message = ser_string max_message_bytes ''message field''"

definition de_message :: "string \<Rightarrow> serde_error + string" where
  "de_message = de_string max_message_bytes ''message field''"

definition ser_opt_metadata :: "string option \<Rightarrow> serde_error + unit" where
  "ser_opt_metadata = ser_optional_string max_metadata_string_bytes ''metadata field''"

definition de_opt_metadata :: "string option \<Rightarrow> serde_error + string option" where
  "de_opt_metadata = de_optional_string max_metadata_string_bytes"

definition ser_opt_content :: "string option \<Rightarrow> serde_error + unit" where
  "ser_opt_content = ser_optional_string max_content_bytes ''content field''"

definition de_opt_content :: "string option \<Rightarrow> serde_error + string option" where
  "de_opt_content = de_optional_string max_content_bytes"

definition ser_candidate :: "'f candidate \<Rightarrow> serde_error + unit" where
  "ser_candidate c =
     and_then (ser_metadata (ca_id c)) (\<lambda>_. and_then (ser_opt_metadata (ca_short_id c)) (\<lambda>_.
     and_then (ser_opt_metadata (ca_title c)) (\<lambda>_. and_then (ser_opt_metadata (ca_source_id c)) (\<lambda>_.
       ser_opt_metadata (ca_relationship_id c)))))"

fun de_opt_score :: "('f \<Rightarrow> bool) \<Rightarrow> 'f option \<Rightarrow> serde_error + 'f option" where
  "de_opt_score is_finite None = Inr None"
| "de_opt_score is_finite (Some v) =
     and_then (map_err SerdeContract (score_try_from is_finite v)) (\<lambda>w. Inr (Some w))"

definition de_candidate :: "('f \<Rightarrow> bool) \<Rightarrow> 'f candidate \<Rightarrow> serde_error + 'f candidate" where
  "de_candidate is_finite c =
     and_then (de_metadata (ca_id c)) (\<lambda>i. and_then (de_opt_metadata (ca_short_id c)) (\<lambda>si.
     and_then (de_opt_metadata (ca_title c)) (\<lambda>ti. and_then (de_opt_score is_finite (ca_score c)) (\<lambda>sc.
     and_then (de_opt_metadata (ca_source_id c)) (\<lambda>so. and_then (de_opt_metadata (ca_relationship_id c)) (\<lambda>re.
       Inr (c\<lparr>ca_id := i, ca_short_id := si, ca_title := ti, ca_score := sc, ca_source_id := so,
             ca_relationship_id := re\<rparr>)))))))"

definition ser_candidates :: "'f candidate list \<Rightarrow> serde_error + unit" where
  "ser_candidates = ser_slice max_candidates ''candidate array'' ser_candidate"

definition de_candidates :: "('f \<Rightarrow> bool) \<Rightarrow> 'f candidate list \<Rightarrow> serde_error + 'f candidate list" where
  "de_candidates is_finite = de_vec max_candidates (de_candidate is_finite)"

definition de_candidate_collection ::
  "('f \<Rightarrow> bool) \<Rightarrow> 'f candidate_collection \<Rightarrow> serde_error + 'f candidate_collection" where
  "de_candidate_collection is_finite w =
     and_then (de_candidates is_finite (cc_candidates w)) (\<lambda>cs.
       map_err SerdeContract (candidate_collection_try_new (cc_record_type w) cs))"

definition de_candidate_selection ::
  "('f \<Rightarrow> bool) \<Rightarrow> record_type \<Rightarrow> 'f candidate_selection \<Rightarrow> serde_error + 'f candidate_selection" where
  "de_candidate_selection is_finite t w =
     and_then (de_candidates is_finite (sel_candidates w)) (\<lambda>cs.
       map_err SerdeContract (candidate_selection_try_new t cs))"

definition ser_rating_evidence :: "rating_evidence \<Rightarrow> serde_error + unit" where
  "ser_rating_evidence e = map_err SerdeContract (rating_evidence_validate e)"

definition de_rating_evidence :: "rating_evidence \<Rightarrow> serde_error + rating_evidence" where
  "de_rating_evidence e = and_then (map_err SerdeContract (rating_evidence_validate e)) (\<lambda>_. Inr e)"

definition ser_map_point :: "map_point_evidence \<Rightarrow> serde_error + unit" where
  "ser_map_point p = ser_opt_content (mp_answer p)"

definition de_map_point :: "map_point_evidence \<Rightarrow> serde_error + map_point_evidence" where
  "de_map_point p = and_then (de_opt_content (mp_answer p)) (\<lambda>a. Inr (p\<lparr>mp_answer := a\<rparr>))"

definition ser_map_decision :: "map_point_decision \<Rightarrow> serde_error + unit" where
  "ser_map_decision p = ser_opt_content (md_answer p)"

definition de_map_decision :: "map_point_decision \<Rightarrow> serde_error + map_point_decision" where
  "de_map_decision p = and_then (de_opt_content (md_answer p)) (\<lambda>a. Inr (p\<lparr>md_answer := a\<rparr>))"

definition ser_context_section :: "context_section \<Rightarrow> serde_error + unit" where
  "ser_context_section s =
     and_then (ser_opt_metadata (cs_name s)) (\<lambda>_. ser_record_ids (cs_selected_record_ids s))"

definition de_context_section :: "context_section \<Rightarrow> serde_error + context_section" where
  "de_context_section s =
     and_then (de_opt_metadata (cs_name s)) (\<lambda>n. and_then (de_record_ids (cs_selected_record_ids s)) (\<lambda>ids.
       Inr (s\<lparr>cs_name := n, cs_selected_record_ids := ids\<rparr>)))"

definition ser_wave_started :: "wave_started \<Rightarrow> serde_error + unit" where
  "ser_wave_started e =
     and_then (map_err SerdeContract (wave_started_validate e)) (\<lambda>_.
       ser_dynamic_community_ids (ws_community_ids e))"

definition de_wave_started :: "wave_started \<Rightarrow> serde_error + wave_started" where
  "de_wave_started w =
     and_then (de_dynamic_community_ids (ws_community_ids w)) (\<lambda>ids.
       let e = w\<lparr>ws_community_ids := ids\<rparr>
       in and_then (map_err SerdeContract (wave_started_validate e)) (\<lambda>_. Inr e))"

definition ser_selection_completed :: "selection_completed \<Rightarrow> serde_error + unit" where
  "ser_selection_completed e =
     and_then (map_err SerdeContract (selection_completed_validate e)) (\<lambda>_.
     and_then (ser_dynamic_community_ids (sc_selected_community_ids e)) (\<lambda>_.
     and_then (ser_dynamic_community_ids (sc_selected_report_ids e)) (\<lambda>_.
       ser_slice max_dynamic_communities ''Dynamic rating evidence array'' ser_rating_evidence (sc_ratings e))))"

definition de_selection_completed :: "selection_completed \<Rightarrow> serde_error + selection_completed" where
  "de_selection_completed w =
     and_then (de_dynamic_community_ids (sc_selected_community_ids w)) (\<lambda>cs.
     and_then (de_dynamic_community_ids (sc_selected_report_ids w)) (\<lambda>rs.
     and_then (de_vec max_dynamic_communities de_rating_evidence (sc_ratings w)) (\<lambda>es.
       let e = w\<lparr>sc_selected_community_ids := cs, sc_selected_report_ids := rs, sc_ratings := es\<rparr>
       in and_then (map_err SerdeContract (selection_completed_validate e)) (\<lambda>_. Inr e))))"

definition ser_map_batch_built :: "map_batch_built \<Rightarrow> serde_error + unit" where
  "ser_map_batch_built e =
     and_then (map_err SerdeContract (map_batch_built_validate e)) (\<lambda>_.
     and_then (ser_record_ids (mb_report_ids e)) (\<lambda>_. ser_opt_content (mb_context e)))"

definition de_map_batch_built :: "map_batch_built \<Rightarrow> serde_error + map_batch_built" where
  "de_map_batch_built w =
     and_then (de_record_ids (mb_report_ids w)) (\<lambda>ids.
     and_then (de_opt_content (mb_context w)) (\<lambda>c.
       let e = w\<lparr>mb_report_ids := ids, mb_context := c\<rparr>
       in and_then (map_err SerdeContract (map_batch_built_validate e)) (\<lambda>_. Inr e)))"

definition ser_map_points_produced :: "map_points_produced \<Rightarrow> serde_error + unit" where
  "ser_map_points_produced e =
     and_then (map_err SerdeContract (map_points_produced_validate e)) (\<lambda>_.
       ser_slice max_global_map_points ''Global map point array'' ser_map_point (pp_points e))"

definition de_map_points_produced :: "map_points_produced \<Rightarrow> serde_error + map_points_produced" where
  "de_map_points_produced w =
     and_then (de_vec max_global_map_points de_map_point (pp_points w)) (\<lambda>ps.
       let e = w\<lparr>pp_points := ps\<rparr>
       in and_then (map_err SerdeContract (map_points_produced_validate e)) (\<lambda>_. Inr e))"

definition ser_reduce_context_built :: "reduce_context_built \<Rightarrow> serde_error + unit" where
  "ser_reduce_context_built e =
     and_then (map_err SerdeContract (reduce_context_built_validate e)) (\<lambda>_.
     and_then (ser_slice max_global_map_points ''Global map point decision array'' ser_map_decision (rd_points e)) (\<lambda>_.
       ser_opt_content (rd_context e)))"

definition de_reduce_context_built :: "reduce_context_built \<Rightarrow> serde_error + reduce_context_built" where
  "de_reduce_context_built w =
     and_then (de_vec max_global_map_points de_map_decision (rd_points w)) (\<lambda>ps.
     and_then (de_opt_content (rd_context w)) (\<lambda>c.
       let e = w\<lparr>rd_points := ps, rd_context := c\<rparr>
       in and_then (map_err SerdeContract (reduce_context_built_validate e)) (\<lambda>_. Inr e)))"

fun event_ser :: "'f expl_event \<Rightarrow> serde_error + unit" where
  "event_ser (RunFailed p) =
     and_then (ser_metadata (rf_error_kind p)) (\<lambda>_. ser_message (rf_message p))"
| "event_ser (QueryStarted p) = ser_opt_content (qs_query p)"
| "event_ser (MappingQueryBuilt p) = ser_opt_content (mq_mapping_query p)"
| "event_ser (EmbeddingStarted p) =
     and_then (ser_metadata (es_model_id p)) (\<lambda>_. ser_opt_content (es_input p))"
| "event_ser (EmbeddingCompleted p) = ser_metadata (ec_model_id p)"
| "event_ser (CandidatesRetrieved p) = ser_candidates (cc_candidates p)"
| "event_ser (CandidatesFiltered p) = ser_candidates (cc_candidates p)"
| "event_ser (EntitiesSelected p) = ser_candidates (sel_candidates p)"
| "event_ser (GraphExpansionStarted p) = ser_record_ids (ge_seed_entity_ids p)"
| "event_ser (RelationshipsSelected p) = ser_candidates (sel_candidates p)"
| "event_ser (CommunityReportsSelected p) = ser_candidates (sel_candidates p)"
| "event_ser (CovariatesSelected p) = ser_candidates (sel_candidates p)"
| "event_ser (TextUnitsSelected p) = ser_candidates (sel_candidates p)"
| "event_ser (ContextBudgetAllocated p) =
     ser_slice max_context_sections ''context section array'' (\<lambda>_. Inr ()) (cb_sections p)"
| "event_ser (ContextSectionBuilt p) = ser_context_section (sbu_section p)"
| "event_ser (ContextCompleted p) = ser_opt_content (cco_context p)"
| "event_ser (DynamicCommunitySelectionStarted p) = map_err SerdeContract (selection_started_validate p)"
| "event_ser (DynamicCommunityTraversalWaveStarted p) = ser_wave_started p"
| "event_ser (DynamicCommunityRatingAttemptStarted p) = map_err SerdeContract (rating_attempt_started_validate p)"
| "event_ser (DynamicCommunitySelectionCompleted p) = ser_selection_completed p"
| "event_ser (GlobalMapBatchBuilt p) = ser_map_batch_built p"
| "event_ser (GlobalMapPointsProduced p) = ser_map_points_produced p"
| "event_ser (GlobalReduceContextBuilt p) = ser_reduce_context_built p"
| "event_ser (LlmRequestStarted p) =
     and_then (ser_metadata (ls_model_id p)) (\<lambda>_. ser_opt_content (ls_prompt p))"
| "event_ser (LlmRequestCompleted p) =
     and_then (ser_metadata (lc_model_id p)) (\<lambda>_. ser_opt_content (lc_response p))"
| "event_ser (Warning p) =
     and_then (ser_metadata (wa_code p)) (\<lambda>_. and_then (ser_message (wa_message p)) (\<lambda>_.
       ser_opt_metadata (wa_record_id p)))"
| "event_ser _ = Inr ()"

fun event_de :: "('f \<Rightarrow> bool) \<Rightarrow> 'f expl_event \<Rightarrow> serde_error + 'f expl_event" where
  "event_de fin (RunFailed p) =
     and_then (de_metadata (rf_error_kind p)) (\<lambda>k. and_then (de_message (rf_message p)) (\<lambda>m.
       Inr (RunFailed (p\<lparr>rf_error_kind := k, rf_message := m\<rparr>))))"
| "event_de fin (QueryStarted p) =
     and_then (de_opt_content (qs_query p)) (\<lambda>q. Inr (QueryStarted (p\<lparr>qs_query := q\<rparr>)))"
| "event_de fin (MappingQueryBuilt p) =
     and_then (de_opt_content (mq_mapping_query p)) (\<lambda>q. Inr (MappingQueryBuilt (p\<lparr>mq_mapping_query := q\<rparr>)))"
| "event_de fin (EmbeddingStarted p) =
     and_then (de_metadata (es_model_id p)) (\<lambda>i. and_then (de_opt_content (es_input p)) (\<lambda>t.
       Inr (EmbeddingStarted (p\<lparr>es_model_id := i, es_input := t\<rparr>))))"
| "event_de fin (EmbeddingCompleted p) =
     and_then (de_metadata (ec_model_id p)) (\<lambda>i. Inr (EmbeddingCompleted (p\<lparr>ec_model_id := i\<rparr>)))"
| "event_de fin (CandidatesRetrieved p) =
     and_then (de_candidate_collection fin p) (\<lambda>q. Inr (CandidatesRetrieved q))"
| "event_de fin (CandidatesFiltered p) =
     and_then (de_candidate_collection fin p) (\<lambda>q. Inr (CandidatesFiltered q))"
| "event_de fin (EntitiesSelected p) =
     and_then (de_candidate_selection fin Entity p) (\<lambda>q. Inr (EntitiesSelected q))"
| "event_de fin (GraphExpansionStarted p) =
     and_then (de_record_ids (ge_seed_entity_ids p)) (\<lambda>ids.
       Inr (GraphExpansionStarted (p\<lparr>ge_seed_entity_ids := ids\<rparr>)))"
| "event_de fin (RelationshipsSelected p) =
     and_then (de_candidate_selection fin Relationship p) (\<lambda>q. Inr (RelationshipsSelected q))"
| "event_de fin (CommunityReportsSelected p) =
     and_then (de_candidate_selection fin CommunityReport p) (\<lambda>q. Inr (CommunityReportsSelected q))"
| "event_de fin (CovariatesSelected p) =
     and_then (de_candidate_selection fin Covariate p) (\<lambda>q. Inr (CovariatesSelected q))"
| "event_de fin (TextUnitsSelected p) =
     and_then (de_candidate_selection fin TextUnit p) (\<lambda>q. Inr (TextUnitsSelected q))"
| "event_de fin (ContextBudgetAllocated p) =
     and_then (de_vec max_context_sections Inr (cb_sections p)) (\<lambda>ss.
       Inr (ContextBudgetAllocated (p\<lparr>cb_sections := ss\<rparr>)))"
| "event_de fin (ContextSectionBuilt p) =
     and_then (de_context_section (sbu_section p)) (\<lambda>s. Inr (ContextSectionBuilt (p\<lparr>sbu_section := s\<rparr>)))"
| "event_de fin (ContextCompleted p) =
     and_then (de_opt_content (cco_context p)) (\<lambda>c. Inr (ContextCompleted (p\<lparr>cco_context := c\<rparr>)))"
| "event_de fin (DynamicCommunitySelectionStarted p) =
     and_then (map_err SerdeContract (selection_started_validate p)) (\<lambda>_.
       Inr (DynamicCommunitySelectionStarted p))"
| "event_de fin (DynamicCommunityTraversalWaveStarted p) =
     and_then (de_wave_started p) (\<lambda>q. Inr (DynamicCommunityTraversalWaveStarted q))"
| "event_de fin (DynamicCommunityRatingAttemptStarted p) =
     and_then (map_err SerdeContract (rating_attempt_started_validate p)) (\<lambda>_.
       Inr (DynamicCommunityRatingAttemptStarted p))"
| "event_de fin (DynamicCommunitySelectionCompleted p) =
     and_then (de_selection_completed p) (\<lambda>q. Inr (DynamicCommunitySelectionCompleted q))"
| "event_de fin (GlobalMapBatchBuilt p) =
     and_then (de_map_batch_built p) (\<lambda>q. Inr (GlobalMapBatchBuilt q))"
| "event_de fin (GlobalMapPointsProduced p) =
     and_then (de_map_points_produced p) (\<lambda>q. Inr (GlobalMapPointsProduced q))"
| "event_de fin (GlobalReduceContextBuilt p) =
     and_then (de_reduce_context_built p) (\<lambda>q. Inr (GlobalReduceContextBuilt q))"
| "event_de fin (LlmRequestStarted p) =
     and_then (de_metadata (ls_model_id p)) (\<lambda>i. and_then (de_opt_content (ls_prompt p)) (\<lambda>t.
       Inr (LlmRequestStarted (p\<lparr>ls_model_id := i, ls_prompt := t\<rparr>))))"
| "event_de fin (LlmRequestCompleted p) =
     and_then (de_metadata (lc_model_id p)) (\<lambda>i. and_then (de_opt_content (lc_response p)) (\<lambda>t.
       Inr (LlmRequestCompleted (p\<lparr>lc_model_id := i, lc_response := t\<rparr>))))"
| "event_de fin (Warning p) =
     and_then (de_metadata (wa_code p)) (\<lambda>c. and_then (de_message (wa_message p)) (\<lambda>m.
     and_then (de_opt_metadata (wa_record_id p)) (\<lambda>r.
       Inr (Warning (p\<lparr>wa_code := c, wa_message := m, wa_record_id := r\<rparr>)))))"
| "event_de fin e = Inr e"

lemmas ser_de_field_defs =
  ser_metadata_def de_metadata_def ser_message_def de_message_def ser_opt_metadata_def de_opt_metadata_def
  ser_opt_content_def de_opt_content_def

lemma de_opt_score_Inr: "de_opt_score fin v = Inr w \<longleftrightarrow> (\<forall>s. v = Some s \<longrightarrow> fin s) \<and> w = v"
  by (cases v) (auto simp: score_try_from_def and_then_Inr_iff)

definition candidate_finite :: "('f \<Rightarrow> bool) \<Rightarrow> 'f candidate \<Rightarrow> bool" where
  "candidate_finite fin c \<longleftrightarrow> (\<forall>s. ca_score c = Some s \<longrightarrow> fin s)"

lemma de_candidate_Inr:
  "de_candidate fin c = Inr w \<longleftrightarrow> (ser_candidate c = Inr () \<and> candidate_finite fin c) \<and> w = c"
  by (auto simp: de_candidate_def ser_candidate_def candidate_finite_def ser_de_field_defs
      serde_field_simps de_opt_score_Inr)

lemma de_candidates_Inr:
  "de_candidates fin cs = Inr r \<longleftrightarrow>
   (ser_candidates cs = Inr () \<and> (\<forall>c \<in> set cs. candidate_finite fin c)) \<and> r = cs"
  unfolding de_candidates_def ser_candidates_def
  by (subst de_vec_Inr [OF de_candidate_Inr]) (auto simp: ser_slice_Inr)

definition candidates_typed :: "('f \<Rightarrow> bool) \<Rightarrow> record_type \<Rightarrow> 'f candidate list \<Rightarrow> bool" where
  "candidates_typed fin t cs \<longleftrightarrow> (\<forall>c \<in> set cs. ca_record_type c = t \<and> candidate_finite fin c)"

lemma de_candidate_collection_Inr:
  "de_candidate_collection fin p = Inr q \<longleftrightarrow>
   (ser_candidates (cc_candidates p) = Inr () \<and> candidates_typed fin (cc_record_type p) (cc_candidates p)) \<and> q = p"
  by (auto simp: de_candidate_collection_def and_then_Inr_iff de_candidates_Inr candidate_collection_try_new_def
      validate_candidate_types_Inr candidates_typed_def)

lemma de_candidate_selection_Inr:
  "de_candidate_selection fin t p = Inr q \<longleftrightarrow>
   (ser_candidates (sel_candidates p) = Inr () \<and> candidates_typed fin t (sel_candidates p)) \<and> q = p"
  by (auto simp: de_candidate_selection_def and_then_Inr_iff de_candidates_Inr candidate_selection_try_new_def
      validate_candidate_types_Inr candidates_typed_def)

lemma de_context_section_Inr: "de_context_section s = Inr r \<longleftrightarrow> ser_context_section s = Inr () \<and> r = s"
  by (auto simp: de_context_section_def ser_context_section_def ser_de_field_defs serde_field_simps)

lemma de_rating_evidence_Inr: "de_rating_evidence e = Inr r \<longleftrightarrow> ser_rating_evidence e = Inr () \<and> r = e"
  by (auto simp: de_rating_evidence_def ser_rating_evidence_def and_then_Inr_iff)

lemma de_map_point_Inr: "de_map_point p = Inr r \<longleftrightarrow> ser_map_point p = Inr () \<and> r = p"
  by (auto simp: de_map_point_def ser_map_point_def ser_de_field_defs serde_field_simps)

lemma de_map_decision_Inr: "de_map_decision p = Inr r \<longleftrightarrow> ser_map_decision p = Inr () \<and> r = p"
  by (auto simp: de_map_decision_def ser_map_decision_def ser_de_field_defs serde_field_simps)

lemma de_wave_started_Inr: "de_wave_started p = Inr r \<longleftrightarrow> ser_wave_started p = Inr () \<and> r = p"
  by (auto simp: de_wave_started_def ser_wave_started_def Let_def serde_field_simps)

lemma de_selection_completed_Inr:
  "de_selection_completed p = Inr r \<longleftrightarrow> ser_selection_completed p = Inr () \<and> r = p"
  unfolding de_selection_completed_def ser_selection_completed_def
  by (auto simp: Let_def serde_field_simps ser_slice_Inr de_vec_Inr [OF de_rating_evidence_Inr])

lemma de_map_batch_built_Inr: "de_map_batch_built p = Inr r \<longleftrightarrow> ser_map_batch_built p = Inr () \<and> r = p"
  by (auto simp: de_map_batch_built_def ser_map_batch_built_def Let_def ser_de_field_defs serde_field_simps)

lemma de_map_points_produced_Inr:
  "de_map_points_produced p = Inr r \<longleftrightarrow> ser_map_points_produced p = Inr () \<and> r = p"
  unfolding de_map_points_produced_def ser_map_points_produced_def
  by (auto simp: Let_def and_then_Inr_iff ser_slice_Inr de_vec_Inr [OF de_map_point_Inr])

lemma de_reduce_context_built_Inr:
  "de_reduce_context_built p = Inr r \<longleftrightarrow> ser_reduce_context_built p = Inr () \<and> r = p"
  unfolding de_reduce_context_built_def ser_reduce_context_built_def
  by (auto simp: Let_def ser_de_field_defs serde_field_simps ser_slice_Inr de_vec_Inr [OF de_map_decision_Inr])

lemmas de_payload_Inr =
  de_candidate_collection_Inr de_candidate_selection_Inr de_context_section_Inr de_wave_started_Inr
  de_selection_completed_Inr de_map_batch_built_Inr de_map_points_produced_Inr de_reduce_context_built_Inr

fun event_ok :: "('f \<Rightarrow> bool) \<Rightarrow> 'f expl_event \<Rightarrow> bool" where
  "event_ok fin (CandidatesRetrieved p) = candidates_typed fin (cc_record_type p) (cc_candidates p)"
| "event_ok fin (CandidatesFiltered p) = candidates_typed fin (cc_record_type p) (cc_candidates p)"
| "event_ok fin (EntitiesSelected p) = candidates_typed fin Entity (sel_candidates p)"
| "event_ok fin (RelationshipsSelected p) = candidates_typed fin Relationship (sel_candidates p)"
| "event_ok fin (CommunityReportsSelected p) = candidates_typed fin CommunityReport (sel_candidates p)"
| "event_ok fin (CovariatesSelected p) = candidates_typed fin Covariate (sel_candidates p)"
| "event_ok fin (TextUnitsSelected p) = candidates_typed fin TextUnit (sel_candidates p)"
| "event_ok fin _ = True"

lemma de_sections_Inr: "de_vec n Inr ss = Inr r \<longleftrightarrow> length ss \<le> n \<and> r = (ss :: section_budget list)"
  by (subst de_vec_Inr [where P = "\<lambda>_. True"]) auto

lemma event_de_Inr: "event_de fin w = Inr e \<longleftrightarrow> w = e \<and> event_ok fin e \<and> event_ser e = Inr ()"
  by (cases w)
     (auto simp: de_payload_Inr ser_de_field_defs serde_field_simps de_sections_Inr ser_slice_Inr)

text \<open>C26: The two directions of the event contract check the same limits: for each of the event kinds, the
  checks that deserialising makes on the fields of an event, as they were parsed, accept exactly the
  events that the checks of serialising accept and that the validated constructors can build (candidate
  lists of one record type, finite scores). So an event that may be written is never refused for its
  size when its fields are read, and an event beyond a limit is refused by both.\<close>

theorem event_checks_agree:
  "is_ok (event_de fin e) \<longleftrightarrow> is_ok (event_ser e) \<and> event_ok fin e"
  by (auto simp: is_ok_iff event_de_Inr)

end
