(* ===== verification/Expl_Store.thy ===== *)
theory Expl_Store
  imports Expl_Types "HOL-Library.AList" "HOL-Library.Product_Lexorder"
begin

text \<open>
  The run history contract and its in-memory implementation
  (\<open>explainability/store.rs\<close>): runs, completions, queries, and the seven operations of
  \<open>InMemoryExplainabilityStore\<close>.

  The two \<open>HashMap\<close>s are association lists, read by \<open>map_of\<close> and written by
  \<open>AList.update\<close> and \<open>AList.delete\<close>; \<open>values()\<close> is the order of the list, which the
  theorems never rely on. An operation maps a state to its result and the state it leaves,
  so what a failing operation does to the store is a theorem and not a convention.
\<close>

subsection \<open>Errors, completions and queries\<close>

datatype store_error =
    RunAlreadyExists run_id
  | RunNotFound run_id
  | InvalidRunMetadata run_id string
  | InvalidRunState run_id run_status
  | RunAlreadyTerminal run_id
  | MixedRunBatch run_id run_id
  | SequenceConflict run_id u64 u64
  | SequenceOverflow run_id
  | InvalidCompletionStatus run_status
  | InvalidCompletionTime run_id datetime datetime
  | CompletionConflict run_id
  | InvalidLimit string u32 u32 u32
  | Internal string

fun is_terminal :: "run_status \<Rightarrow> bool" where
  "is_terminal Completed = True"
| "is_terminal Failed = True"
| "is_terminal Cancelled = True"
| "is_terminal Pending = False"
| "is_terminal Running = False"

record run_completion =
  rc_run_id :: run_id
  rc_status :: run_status
  rc_completed_at :: datetime

definition run_completion_new :: "run_id \<Rightarrow> run_status \<Rightarrow> datetime \<Rightarrow> store_error + run_completion" where
  "run_completion_new r st t =
     (if \<not> is_terminal st then Inl (InvalidCompletionStatus st)
      else Inr \<lparr>rc_run_id = r, rc_status = st, rc_completed_at = t\<rparr>)"

record run_list_cursor =
  cur_started_at :: datetime
  cur_run_id :: run_id

definition run_list_cursor_new :: "datetime \<Rightarrow> run_id \<Rightarrow> run_list_cursor" where
  "run_list_cursor_new t r = \<lparr>cur_started_at = t, cur_run_id = r\<rparr>"

definition default_run_query_limit :: u32 where "default_run_query_limit = 50"
definition max_run_query_limit :: u32 where "max_run_query_limit = 200"
definition default_event_query_limit :: u32 where "default_event_query_limit = 500"
definition max_event_query_limit :: u32 where "max_event_query_limit = 1000"

definition validate_limit :: "u32 \<Rightarrow> u32 \<Rightarrow> u32 \<Rightarrow> string \<Rightarrow> store_error + unit" where [guard_defs]:
  "validate_limit limit lo hi kind =
     (if lo \<le> limit \<and> limit \<le> hi then Inr () else Inl (InvalidLimit kind limit lo hi))"

record run_query =
  rq_kind :: "run_kind option"
  rq_status :: "run_status option"
  rq_query_method :: "query_method option"
  rq_before :: "run_list_cursor option"
  rq_limit :: u32

definition run_query_new :: run_query where
  "run_query_new =
     \<lparr>rq_kind = None, rq_status = None, rq_query_method = None, rq_before = None,
      rq_limit = default_run_query_limit\<rparr>"

definition run_query_with_kind :: "run_kind \<Rightarrow> run_query \<Rightarrow> run_query" where
  "run_query_with_kind k q = q\<lparr>rq_kind := Some k\<rparr>"

definition run_query_with_status :: "run_status \<Rightarrow> run_query \<Rightarrow> run_query" where
  "run_query_with_status st q = q\<lparr>rq_status := Some st\<rparr>"

definition run_query_with_method :: "query_method \<Rightarrow> run_query \<Rightarrow> run_query" where
  "run_query_with_method qm q = q\<lparr>rq_query_method := Some qm\<rparr>"

definition run_query_with_before :: "run_list_cursor \<Rightarrow> run_query \<Rightarrow> run_query" where
  "run_query_with_before c q = q\<lparr>rq_before := Some c\<rparr>"

definition run_query_with_limit :: "u32 \<Rightarrow> run_query \<Rightarrow> store_error + run_query" where
  "run_query_with_limit n q =
     and_then (validate_limit n 1 max_run_query_limit ''run history'') (\<lambda>_. Inr (q\<lparr>rq_limit := n\<rparr>))"

record event_query =
  eq_after_sequence :: "u64 option"
  eq_limit :: u32

definition event_query_new :: event_query where
  "event_query_new = \<lparr>eq_after_sequence = None, eq_limit = default_event_query_limit\<rparr>"

definition event_query_after :: "u64 \<Rightarrow> event_query \<Rightarrow> event_query" where
  "event_query_after s q = q\<lparr>eq_after_sequence := Some s\<rparr>"

definition event_query_with_limit :: "u32 \<Rightarrow> event_query \<Rightarrow> store_error + event_query" where
  "event_query_with_limit n q =
     and_then (validate_limit n 1 max_event_query_limit ''event replay'') (\<lambda>_. Inr (q\<lparr>eq_limit := n\<rparr>))"

definition validate_create_run :: "expl_run \<Rightarrow> store_error + unit" where [guard_defs]:
  "validate_create_run run =
     (if run_event_count run \<noteq> 0
        then Inl (InvalidRunMetadata (run_run_id run) ''initial event_count must be 0'')
      else if run_completed_at run \<noteq> None
        then Inl (InvalidRunMetadata (run_run_id run) ''a new run cannot already be completed'')
      else if is_terminal (run_status run) then Inl (InvalidRunState (run_run_id run) (run_status run))
      else if run_kind run \<noteq> Query \<and> run_query_method run \<noteq> None
        then Inl (InvalidRunMetadata (run_run_id run) ''query_method is only valid for query runs'')
      else Inr ())"

lemma validate_create_run_Inr:
  "validate_create_run run = Inr () \<longleftrightarrow>
   run_event_count run = 0 \<and> run_completed_at run = None \<and> \<not> is_terminal (run_status run)
   \<and> (run_kind run \<noteq> Query \<longrightarrow> run_query_method run = None)"
  by (auto simp: validate_create_run_def)

lemma validate_limit_Inr: "validate_limit n lo hi kind = Inr () \<longleftrightarrow> lo \<le> n \<and> n \<le> hi"
  by (auto simp: validate_limit_def)

subsection \<open>The in-memory store\<close>

record 'ev memory_state =
  ms_runs :: "(run_id \<times> expl_run) list"
  ms_events :: "(run_id \<times> 'ev envelope list) list"

definition memory_state_new :: "'ev memory_state" where
  "memory_state_new = \<lparr>ms_runs = [], ms_events = []\<rparr>"

type_synonym ('ev, 'a) store_op = "'ev memory_state \<Rightarrow> (store_error + 'a) \<times> 'ev memory_state"

definition create_run :: "expl_run \<Rightarrow> ('ev, unit) store_op" where
  "create_run run s =
     (case validate_create_run run of
        Inl e \<Rightarrow> (Inl e, s)
      | Inr _ \<Rightarrow>
          if map_of (ms_runs s) (run_run_id run) \<noteq> None
          then (Inl (RunAlreadyExists (run_run_id run)), s)
          else (Inr (), s\<lparr>ms_runs := AList.update (run_run_id run) run (ms_runs s)\<rparr>))"

text \<open>The loop over the batch: the next expected sequence and the events accepted so far.\<close>

fun check_batch ::
  "run_id \<Rightarrow> u64 \<Rightarrow> 'ev envelope list \<Rightarrow> 'ev envelope list \<Rightarrow> store_error + (u64 \<times> 'ev envelope list)" where
  "check_batch r next pending [] = Inr (next, pending)"
| "check_batch r next pending (e # es) =
     and_then (ok_or (SequenceOverflow r) (u64_checked_add next 1)) (\<lambda>expected.
       if env_sequence e \<noteq> expected then Inl (SequenceConflict r expected (env_sequence e))
       else check_batch r expected (pending @ [e]) es)"

definition entry_extend :: "'k \<Rightarrow> 'v list \<Rightarrow> ('k \<times> 'v list) list \<Rightarrow> ('k \<times> 'v list) list" where
  "entry_extend k vs m = AList.update k ((case map_of m k of None \<Rightarrow> [] | Some l \<Rightarrow> l) @ vs) m"

definition append_events :: "'ev envelope list \<Rightarrow> ('ev, unit) store_op" where
  "append_events events s =
     (case events of
        [] \<Rightarrow> (Inr (), s)
      | first # _ \<Rightarrow>
          let first_run = env_run first in
          case find (\<lambda>e. env_run e \<noteq> first_run) events of
            Some mixed \<Rightarrow> (Inl (MixedRunBatch first_run (env_run mixed)), s)
          | None \<Rightarrow>
              (case map_of (ms_runs s) first_run of
                 None \<Rightarrow> (Inl (RunNotFound first_run), s)
               | Some run \<Rightarrow>
                   if is_terminal (run_status run) then (Inl (RunAlreadyTerminal first_run), s)
                   else
                     (case check_batch first_run (run_event_count run) [] events of
                        Inl e \<Rightarrow> (Inl e, s)
                      | Inr (next_sequence, pending) \<Rightarrow>
                          (Inr (),
                           s\<lparr>ms_runs := AList.update first_run
                                 (run\<lparr>run_event_count := next_sequence\<rparr>) (ms_runs s),
                             ms_events := entry_extend first_run pending (ms_events s)\<rparr>))))"

definition complete_run :: "run_completion \<Rightarrow> ('ev, unit) store_op" where
  "complete_run c s =
     (if \<not> is_terminal (rc_status c) then (Inl (InvalidCompletionStatus (rc_status c)), s)
      else
        case map_of (ms_runs s) (rc_run_id c) of
          None \<Rightarrow> (Inl (RunNotFound (rc_run_id c)), s)
        | Some run \<Rightarrow>
            if rc_completed_at c < run_started_at run
            then (Inl (InvalidCompletionTime (run_run_id run) (rc_completed_at c) (run_started_at run)), s)
            else if run_completed_at run \<noteq> None \<or> is_terminal (run_status run)
            then
              if run_status run = rc_status c \<and> run_completed_at run = Some (rc_completed_at c)
              then (Inr (), s)
              else (Inl (CompletionConflict (run_run_id run)), s)
            else
              (Inr (),
               s\<lparr>ms_runs := AList.update (rc_run_id c)
                     (run\<lparr>run_status := rc_status c, run_completed_at := Some (rc_completed_at c)\<rparr>)
                     (ms_runs s)\<rparr>))"

definition get_run :: "run_id \<Rightarrow> 'ev memory_state \<Rightarrow> store_error + expl_run option" where
  "get_run r s = Inr (map_of (ms_runs s) r)"

definition is_strictly_older_than :: "expl_run \<Rightarrow> run_list_cursor \<Rightarrow> bool" where
  "is_strictly_older_than run c \<longleftrightarrow>
     run_started_at run < cur_started_at c
     \<or> run_started_at run = cur_started_at c \<and> run_run_id run < cur_run_id c"

definition is_none_or :: "('a \<Rightarrow> bool) \<Rightarrow> 'a option \<Rightarrow> bool" where
  "is_none_or p v = (case v of None \<Rightarrow> True | Some x \<Rightarrow> p x)"

definition run_matches :: "run_query \<Rightarrow> expl_run \<Rightarrow> bool" where
  "run_matches q run \<longleftrightarrow>
     is_none_or (\<lambda>k. run_kind run = k) (rq_kind q)
     \<and> is_none_or (\<lambda>st. run_status run = st) (rq_status q)
     \<and> is_none_or (\<lambda>qm. run_query_method run = Some qm) (rq_query_method q)"

definition collect_matching_runs :: "run_query \<Rightarrow> 'ev memory_state \<Rightarrow> expl_run list" where
  "collect_matching_runs q s =
     filter (\<lambda>run. is_none_or (is_strictly_older_than run) (rq_before q))
       (filter (run_matches q) (map snd (ms_runs s)))"

definition run_position :: "expl_run \<Rightarrow> datetime \<times> run_id" where
  "run_position run = (run_started_at run, run_run_id run)"

text \<open>The stable sort by descending position.\<close>

definition order_and_limit_runs :: "expl_run list \<Rightarrow> u32 \<Rightarrow> expl_run list" where
  "order_and_limit_runs runs limit = take (unat limit) (rev (sort_key run_position (rev runs)))"

definition list_runs :: "run_query \<Rightarrow> 'ev memory_state \<Rightarrow> store_error + expl_run list" where
  "list_runs q s =
     and_then (validate_limit (rq_limit q) 1 max_run_query_limit ''run history'') (\<lambda>_.
       Inr (order_and_limit_runs (collect_matching_runs q s) (rq_limit q)))"

definition load_events :: "run_id \<Rightarrow> event_query \<Rightarrow> 'ev memory_state \<Rightarrow> store_error + 'ev envelope list" where
  "load_events r q s =
     and_then (validate_limit (eq_limit q) 1 max_event_query_limit ''event replay'') (\<lambda>_.
       if map_of (ms_runs s) r = None then Inl (RunNotFound r)
       else
         let after = (case eq_after_sequence q of None \<Rightarrow> 0 | Some a \<Rightarrow> a)
         in Inr (take (unat (eq_limit q))
              (filter (\<lambda>e. after < env_sequence e)
                (case map_of (ms_events s) r of None \<Rightarrow> [] | Some l \<Rightarrow> l))))"

definition delete_run :: "run_id \<Rightarrow> ('ev, unit) store_op" where
  "delete_run r s =
     (Inr (), s\<lparr>ms_runs := AList.delete r (ms_runs s), ms_events := AList.delete r (ms_events s)\<rparr>)"

subsection \<open>Well-formed stores\<close>

definition run_of :: "'ev memory_state \<Rightarrow> run_id \<Rightarrow> expl_run option" where
  "run_of s = map_of (ms_runs s)"

definition log_of :: "'ev memory_state \<Rightarrow> run_id \<Rightarrow> 'ev envelope list" where
  "log_of s r = (case map_of (ms_events s) r of None \<Rightarrow> [] | Some l \<Rightarrow> l)"

definition contiguous_from :: "nat \<Rightarrow> 'ev envelope list \<Rightarrow> bool" where
  "contiguous_from n l \<longleftrightarrow> map (\<lambda>e. unat (env_sequence e)) l = [Suc n..<Suc n + length l]"

definition run_entry_ok :: "run_id \<Rightarrow> expl_run \<Rightarrow> 'ev envelope list \<Rightarrow> bool" where
  "run_entry_ok k run l \<longleftrightarrow>
     run_run_id run = k
     \<and> unat (run_event_count run) = length l
     \<and> contiguous_from 0 l
     \<and> (\<forall>e \<in> set l. env_run e = k)
     \<and> (is_terminal (run_status run) \<longleftrightarrow> run_completed_at run \<noteq> None)
     \<and> (\<forall>t \<in> set_option (run_completed_at run). run_started_at run \<le> t)
     \<and> (run_kind run \<noteq> Query \<longrightarrow> run_query_method run = None)"

definition store_inv :: "'ev memory_state \<Rightarrow> bool" where
  "store_inv s \<longleftrightarrow>
     distinct (map fst (ms_runs s)) \<and> distinct (map fst (ms_events s))
     \<and> (\<forall>(k, run) \<in> set (ms_runs s). run_entry_ok k run (log_of s k))
     \<and> (\<forall>(k, l) \<in> set (ms_events s). map_of (ms_runs s) k \<noteq> None)"

lemma store_inv_iff:
  "store_inv s \<longleftrightarrow>
     distinct (map fst (ms_runs s)) \<and> distinct (map fst (ms_events s))
     \<and> (\<forall>k run. run_of s k = Some run \<longrightarrow> run_entry_ok k run (log_of s k))
     \<and> (\<forall>k. run_of s k = None \<longrightarrow> map_of (ms_events s) k = None)"
proof (cases "distinct (map fst (ms_runs s)) \<and> distinct (map fst (ms_events s))")
  case True
  then have "(k, v) \<in> set (ms_runs s) \<longleftrightarrow> run_of s k = Some v" for k v
    by (simp add: run_of_def)
  moreover from True have "(k, v) \<in> set (ms_events s) \<longleftrightarrow> map_of (ms_events s) k = Some v" for k v
    by simp
  ultimately show ?thesis
    by (simp add: store_inv_def split_beta flip: run_of_def) (metis not_None_eq prod.exhaust_sel fst_conv snd_conv)
qed (auto simp: store_inv_def)

lemma store_inv_entry: "store_inv s \<Longrightarrow> run_of s k = Some run \<Longrightarrow> run_entry_ok k run (log_of s k)"
  by (simp add: store_inv_iff)

lemma store_inv_absent: "store_inv s \<Longrightarrow> run_of s k = None \<Longrightarrow> log_of s k = []"
  by (simp add: store_inv_iff log_of_def)

lemma contiguous_from_Nil [simp]: "contiguous_from n []"
  by (simp add: contiguous_from_def)

lemma contiguous_from_append:
  "contiguous_from n (xs @ ys) \<longleftrightarrow> contiguous_from n xs \<and> contiguous_from (n + length xs) ys"
proof -
  have "[Suc n..<Suc n + length (xs @ ys)] =
      [Suc n..<Suc n + length xs] @ [Suc (n + length xs)..<Suc (n + length xs) + length ys]"
    using upt_add_eq_append [of "Suc n" "Suc n + length xs" "length ys"] by (simp add: add.assoc)
  then show ?thesis
    by (simp add: contiguous_from_def del: upt_Suc)
qed

lemma contiguous_from_Cons:
  "contiguous_from n (e # es) \<longleftrightarrow> unat (env_sequence e) = Suc n \<and> contiguous_from (Suc n) es"
  by (simp add: contiguous_from_def upt_conv_Cons del: upt_Suc)

lemma contiguous_nth:
  "contiguous_from n l \<Longrightarrow> i < length l \<Longrightarrow> unat (env_sequence (l ! i)) = Suc (n + i)"
  unfolding contiguous_from_def
  by (metis add_Suc add_less_cancel_left length_map nth_map nth_upt)

text \<open>The batch loop accepts exactly the contiguous batches.\<close>

lemma check_batch_Inr:
  "check_batch r n pending es = Inr (m, out) \<longleftrightarrow>
   contiguous_from (unat n) es \<and> out = pending @ es \<and> unat m = unat n + length es"
proof (induction es arbitrary: n pending)
  case Nil
  then show ?case by (auto simp: word_unat_eq_iff)
next
  case (Cons e es)
  show ?case
  proof (cases "u64_checked_add n 1")
    case None
    then have "unat n = 2 ^ 64 - 1" by (simp add: u64_checked_add_one_None)
    moreover have "unat (env_sequence e) < 2 ^ 64"
      using unsigned_less [of "env_sequence e"] by simp
    ultimately show ?thesis
      using None by (auto simp: contiguous_from_Cons)
  next
    case (Some x)
    note x = u64_checked_add_one_Some [OF Some]
    have "env_sequence e = x \<longleftrightarrow> unat (env_sequence e) = Suc (unat n)"
      using x by (metis unsigned_word_eqI)
    then show ?thesis
      using Some x Cons.IH [of x "pending @ [e]"] by (auto simp: contiguous_from_Cons)
  qed
qed

lemma run_of_update: "run_of (s\<lparr>ms_runs := AList.update k v (ms_runs s)\<rparr>) = (run_of s)(k \<mapsto> v)"
  by (simp add: run_of_def update_conv')

lemma log_of_runs_update [simp]: "log_of (s\<lparr>ms_runs := x\<rparr>) = log_of s"
  by (auto simp: log_of_def)

lemma log_of_extend:
  "log_of (s\<lparr>ms_events := entry_extend k vs (ms_events s)\<rparr>) = (log_of s)(k := log_of s k @ vs)"
  by (auto simp: log_of_def entry_extend_def update_conv' fun_eq_iff)

text \<open>The observable history of a store: every run with its log.\<close>

type_synonym 'ev history = "run_id \<Rightarrow> (expl_run \<times> 'ev envelope list) option"

definition history :: "'ev memory_state \<Rightarrow> 'ev history" where
  "history s k = map_option (\<lambda>run. (run, log_of s k)) (run_of s k)"

lemma history_Some: "history s k = Some (run, l) \<longleftrightarrow> run_of s k = Some run \<and> l = log_of s k"
  by (auto simp: history_def)

lemma history_None: "history s k = None \<longleftrightarrow> run_of s k = None"
  by (simp add: history_def)

subsection \<open>The contract\<close>

text \<open>What the operations promise, on histories: the state they lead to, or \<open>None\<close> where they fail.\<close>

definition spec_create :: "expl_run \<Rightarrow> 'ev history \<Rightarrow> 'ev history option" where
  "spec_create run h =
     (if validate_create_run run = Inr () \<and> h (run_run_id run) = None
      then Some (h(run_run_id run \<mapsto> (run, []))) else None)"

definition spec_append :: "'ev envelope list \<Rightarrow> 'ev history \<Rightarrow> 'ev history option" where
  "spec_append es h =
     (case es of [] \<Rightarrow> Some h
      | first # _ \<Rightarrow>
          (case h (env_run first) of
             None \<Rightarrow> None
           | Some (run, l) \<Rightarrow>
               if (\<forall>e \<in> set es. env_run e = env_run first) \<and> \<not> is_terminal (run_status run)
                  \<and> contiguous_from (length l) es
               then Some (h(env_run first \<mapsto>
                      (run\<lparr>run_event_count := of_nat (length l + length es)\<rparr>, l @ es)))
               else None))"

definition spec_complete :: "run_completion \<Rightarrow> 'ev history \<Rightarrow> 'ev history option" where
  "spec_complete c h =
     (case h (rc_run_id c) of
        None \<Rightarrow> None
      | Some (run, l) \<Rightarrow>
          if is_terminal (rc_status c) \<and> run_started_at run \<le> rc_completed_at c
             \<and> (is_terminal (run_status run) \<longrightarrow>
                  run_status run = rc_status c \<and> run_completed_at run = Some (rc_completed_at c))
          then Some (h(rc_run_id c \<mapsto>
                 (run\<lparr>run_status := rc_status c, run_completed_at := Some (rc_completed_at c)\<rparr>, l)))
          else None)"

definition spec_delete :: "run_id \<Rightarrow> 'ev history \<Rightarrow> 'ev history option" where
  "spec_delete r h = Some (h(r := None))"

text \<open>An operation implements its specification: it succeeds exactly where the specification
  is defined, leads to the specified history, and leaves the store as it is where it fails.\<close>

definition implements ::
  "('ev, unit) store_op \<Rightarrow> ('ev history \<Rightarrow> 'ev history option) \<Rightarrow> 'ev memory_state \<Rightarrow> bool" where
  "implements f spec s \<longleftrightarrow>
     (case f s of
        (Inr _, s') \<Rightarrow> store_inv s' \<and> spec (history s) = Some (history s')
      | (Inl _, s') \<Rightarrow> s' = s \<and> spec (history s) = None)"

lemma store_inv_create:
  assumes "store_inv s" "validate_create_run run = Inr ()" "run_of s (run_run_id run) = None"
  shows "store_inv (s\<lparr>ms_runs := AList.update (run_run_id run) run (ms_runs s)\<rparr>)"
  using assms store_inv_absent [OF assms(1,3)]
  by (auto simp: store_inv_iff run_of_update distinct_update validate_create_run_Inr run_entry_ok_def
      split: if_splits)

lemma create_run_implements:
  assumes "store_inv s" shows "implements (create_run run) (spec_create run) s"
proof (cases "validate_create_run run")
  case (Inr u)
  show ?thesis
  proof (cases "run_of s (run_run_id run)")
    case None
    have "history (s\<lparr>ms_runs := AList.update (run_run_id run) run (ms_runs s)\<rparr>) =
        (history s)(run_run_id run \<mapsto> (run, []))"
      using store_inv_absent [OF assms None]
      by (auto simp: fun_eq_iff history_def run_of_update)
    then show ?thesis
      using None Inr store_inv_create [OF assms _ None]
      by (auto simp: implements_def create_run_def spec_create_def history_None run_of_def)
  qed (use Inr in \<open>auto simp: implements_def create_run_def spec_create_def history_def run_of_def\<close>)
qed (auto simp: implements_def create_run_def spec_create_def)

lemma find_other_run: "find (\<lambda>e. env_run e \<noteq> r) es = None \<longleftrightarrow> (\<forall>e \<in> set es. env_run e = r)"
  by (auto simp: find_None_iff)

definition appended :: "run_id \<Rightarrow> expl_run \<Rightarrow> u64 \<Rightarrow> 'ev envelope list \<Rightarrow> 'ev memory_state \<Rightarrow> 'ev memory_state" where
  "appended r run n es s =
     s\<lparr>ms_runs := AList.update r (run\<lparr>run_event_count := n\<rparr>) (ms_runs s),
       ms_events := entry_extend r es (ms_events s)\<rparr>"

lemma run_of_appended: "run_of (appended r run n es s) = (run_of s)(r \<mapsto> run\<lparr>run_event_count := n\<rparr>)"
  by (simp add: appended_def run_of_def update_conv')

lemma log_of_appended: "log_of (appended r run n es s) = (log_of s)(r := log_of s r @ es)"
  by (auto simp: appended_def log_of_def entry_extend_def update_conv' fun_eq_iff)

lemma history_appended:
  "history (appended r run n es s) = (history s)(r \<mapsto> (run\<lparr>run_event_count := n\<rparr>, log_of s r @ es))"
  by (auto simp: history_def run_of_appended log_of_appended fun_eq_iff)

lemma store_inv_appended:
  assumes "store_inv s" "run_of s r = Some run" "contiguous_from (length (log_of s r)) es"
    "unat n = length (log_of s r) + length es" "\<forall>e \<in> set es. env_run e = r"
  shows "store_inv (appended r run n es s)"
proof -
  note entry = store_inv_entry [OF assms(1,2)]
  have "distinct (map fst (ms_runs (appended r run n es s)))"
       "distinct (map fst (ms_events (appended r run n es s)))"
    using assms(1) by (simp_all add: appended_def store_inv_def distinct_update entry_extend_def)
  moreover have "run_entry_ok k x (log_of (appended r run n es s) k)"
    if "run_of (appended r run n es s) k = Some x" for k x
    using that assms entry store_inv_entry [OF assms(1), of k x]
    by (auto simp: run_of_appended log_of_appended run_entry_ok_def contiguous_from_append split: if_splits)
  moreover have "map_of (ms_events (appended r run n es s)) k = None"
    if "run_of (appended r run n es s) k = None" for k
  proof -
    from that have "k \<noteq> r" "run_of s k = None" by (auto simp: run_of_appended split: if_splits)
    with assms(1) show ?thesis by (simp add: store_inv_iff appended_def entry_extend_def update_conv')
  qed
  ultimately show ?thesis by (simp add: store_inv_iff)
qed

lemma append_events_Cons:
  "append_events (e # es) s =
     (case find (\<lambda>x. env_run x \<noteq> env_run e) (e # es) of
        Some mixed \<Rightarrow> (Inl (MixedRunBatch (env_run e) (env_run mixed)), s)
      | None \<Rightarrow>
          (case run_of s (env_run e) of
             None \<Rightarrow> (Inl (RunNotFound (env_run e)), s)
           | Some run \<Rightarrow>
               if is_terminal (run_status run) then (Inl (RunAlreadyTerminal (env_run e)), s)
               else (case check_batch (env_run e) (run_event_count run) [] (e # es) of
                       Inl x \<Rightarrow> (Inl x, s)
                     | Inr (n, pending) \<Rightarrow> (Inr (), appended (env_run e) run n pending s))))"
  unfolding append_events_def list.case Let_def run_of_def appended_def by (rule refl)

lemma spec_append_nonempty:
  assumes "es = e # rest"
  shows "spec_append es h =
    (case h (env_run e) of
       None \<Rightarrow> None
     | Some (run, l) \<Rightarrow>
         if (\<forall>x \<in> set es. env_run x = env_run e) \<and> \<not> is_terminal (run_status run)
            \<and> contiguous_from (length l) es
         then Some (h(env_run e \<mapsto>
                (run\<lparr>run_event_count := of_nat (length l + length es)\<rparr>, l @ es)))
         else None)"
  by (simp only: assms spec_append_def list.case)

lemma append_events_implements:
  assumes "store_inv s" shows "implements (append_events es) (spec_append es) s"
proof (cases es)
  case Nil
  with assms show ?thesis by (simp add: implements_def append_events_def spec_append_def)
next
  case (Cons e rest)
  let ?r = "env_run e"
  consider (mixed) m where "find (\<lambda>x. env_run x \<noteq> ?r) es = Some m"
    | (absent) "find (\<lambda>x. env_run x \<noteq> ?r) es = None" "run_of s ?r = None"
    | (terminal) run where "find (\<lambda>x. env_run x \<noteq> ?r) es = None" "run_of s ?r = Some run"
        "is_terminal (run_status run)"
    | (bad) run x where "find (\<lambda>x. env_run x \<noteq> ?r) es = None" "run_of s ?r = Some run"
        "\<not> is_terminal (run_status run)" "check_batch ?r (run_event_count run) [] es = Inl x"
    | (ok) run n out where "find (\<lambda>x. env_run x \<noteq> ?r) es = None" "run_of s ?r = Some run"
        "\<not> is_terminal (run_status run)" "check_batch ?r (run_event_count run) [] es = Inr (n, out)"
    by (metis not_Some_eq obj_sumE surj_pair)
  then show ?thesis
  proof cases
    case mixed
    then have "append_events es s = (Inl (MixedRunBatch ?r (env_run m)), s)"
      by (simp add: Cons append_events_Cons del: find.simps)
    moreover from mixed have "\<not> (\<forall>x \<in> set es. env_run x = ?r)"
      by (metis find_other_run option.distinct(1))
    ultimately show ?thesis
      by (auto simp: implements_def spec_append_def Cons split: option.splits)
  next
    case absent
    then show ?thesis
      by (simp add: Cons append_events_Cons implements_def spec_append_def history_def del: find.simps)
  next
    case terminal
    then show ?thesis
      by (simp add: Cons append_events_Cons implements_def spec_append_def history_def del: find.simps)
  next
    case bad
    have "\<not> contiguous_from (unat (run_event_count run)) es"
    proof
      assume c: "contiguous_from (unat (run_event_count run)) es"
      show False
      proof (cases "es = []")
        case False
        let ?last = "env_sequence (es ! (length es - 1))"
        have "unat ?last < 2 ^ 64" using unsigned_less [of ?last] by simp
        moreover have "unat ?last = unat (run_event_count run) + length es"
          using contiguous_nth [OF c, of "length es - 1"] False by (cases es) auto
        ultimately have "unat (run_event_count run) + length es < 2 ^ 64" by simp
        then have "unat (run_event_count run + of_nat (length es)) = unat (run_event_count run) + length es"
          by (simp add: unat_word_ariths unat_of_nat)
        then have "check_batch ?r (run_event_count run) [] es = Inr (run_event_count run + of_nat (length es), es)"
          using c by (simp add: check_batch_Inr)
        with bad show False by simp
      qed (use Cons in simp)
    qed
    then have "\<not> contiguous_from (length (log_of s ?r)) es"
      using store_inv_entry [OF assms bad(2)] by (simp add: run_entry_ok_def)
    with bad show ?thesis
      by (simp add: Cons append_events_Cons implements_def spec_append_def history_def
          del: find.simps check_batch.simps)
  next
    case ok
    note entry = store_inv_entry [OF assms ok(2)]
    from ok(4) entry have c: "contiguous_from (length (log_of s ?r)) es" "out = es"
        and n: "unat n = length (log_of s ?r) + length es"
      by (auto simp: check_batch_Inr run_entry_ok_def)
    from ok(1) have all: "\<forall>x \<in> set es. env_run x = ?r" by (simp add: find_other_run)
    have run: "append_events es s = (Inr (), appended ?r run n es s)"
      using ok c(2) by (simp add: Cons append_events_Cons del: find.simps check_batch.simps)
    have n': "of_nat (length (log_of s ?r) + length es) = n"
      by (subst n [symmetric]) simp
    have cond: "(\<forall>x \<in> set es. env_run x = ?r) \<and> \<not> is_terminal (run_status run)
        \<and> contiguous_from (length (log_of s ?r)) es"
      using all ok(3) c(1) by blast
    have h0: "history s ?r = Some (run, log_of s ?r)" using ok(2) by (simp add: history_def)
    have "spec_append es (history s) = Some (history (appended ?r run n es s))"
      unfolding spec_append_nonempty [OF Cons] h0 option.case prod.case if_P [OF cond] n' history_appended
      by (rule refl)
    with run store_inv_appended [OF assms ok(2) c(1) n all] show ?thesis
      by (simp add: implements_def)
  qed
qed

lemma complete_run_implements:
  assumes "store_inv s" shows "implements (complete_run c) (spec_complete c) s"
proof (cases "run_of s (rc_run_id c)")
  case None
  then show ?thesis
    by (auto simp: implements_def complete_run_def spec_complete_def history_def run_of_def)
next
  case (Some run)
  note entry = store_inv_entry [OF assms Some]
  let ?s = "s\<lparr>ms_runs := AList.update (rc_run_id c)
      (run\<lparr>run_status := rc_status c, run_completed_at := Some (rc_completed_at c)\<rparr>) (ms_runs s)\<rparr>"
  have h: "history ?s = (history s)(rc_run_id c \<mapsto>
      (run\<lparr>run_status := rc_status c, run_completed_at := Some (rc_completed_at c)\<rparr>, log_of s (rc_run_id c)))"
    by (auto simp: fun_eq_iff history_def run_of_update)
  have inv: "store_inv ?s" if "is_terminal (rc_status c)" "run_started_at run \<le> rc_completed_at c"
    using assms entry that
    by (auto simp: store_inv_iff run_of_update distinct_update run_entry_ok_def split: if_splits)
  have same: "(history s)(rc_run_id c \<mapsto>
      (run\<lparr>run_status := rc_status c, run_completed_at := Some (rc_completed_at c)\<rparr>, log_of s (rc_run_id c)))
      = history s" if "run_status run = rc_status c" "run_completed_at run = Some (rc_completed_at c)"
    using that Some by (auto simp: fun_eq_iff history_def)
  have h0: "history s (rc_run_id c) = Some (run, log_of s (rc_run_id c))"
    using Some by (simp add: history_def)
  have tiff: "is_terminal (run_status run) \<longleftrightarrow> (\<exists>y. run_completed_at run = Some y)"
    using entry by (simp add: run_entry_ok_def)
  show ?thesis
    using Some assms inv
    by (auto simp: implements_def complete_run_def spec_complete_def h0 tiff h same simp flip: run_of_def
        split: if_splits)
qed

lemma delete_run_implements:
  assumes "store_inv s" shows "implements (delete_run r) (spec_delete r) s"
proof -
  let ?s = "s\<lparr>ms_runs := AList.delete r (ms_runs s), ms_events := AList.delete r (ms_events s)\<rparr>"
  have ro: "run_of ?s = (run_of s)(r := None)" by (simp add: run_of_def delete_conv')
  have lo: "log_of ?s = (log_of s)(r := [])" by (auto simp: log_of_def delete_conv' fun_eq_iff)
  have "distinct (map fst (ms_runs ?s))" "distinct (map fst (ms_events ?s))"
    using assms by (auto simp: store_inv_def distinct_delete)
  with assms have "store_inv ?s"
    by (auto simp: store_inv_iff ro lo delete_conv' split: if_splits)
  moreover have "history ?s = (history s)(r := None)"
    by (auto simp: fun_eq_iff history_def ro lo)
  ultimately show ?thesis by (simp add: implements_def delete_run_def spec_delete_def)
qed

subsection \<open>Listing and replaying\<close>

definition matching_desc :: "run_query \<Rightarrow> 'ev memory_state \<Rightarrow> expl_run list" where
  "matching_desc q s = rev (sort_key run_position (rev (collect_matching_runs q s)))"

definition cursor_of :: "expl_run \<Rightarrow> run_list_cursor" where
  "cursor_of run = run_list_cursor_new (run_started_at run) (run_run_id run)"

definition newest_first :: "expl_run list \<Rightarrow> bool" where
  "newest_first = sorted_wrt (\<lambda>a b. run_position b < run_position a)"

lemma older_than_position:
  "is_strictly_older_than run c \<longleftrightarrow> run_position run < (cur_started_at c, cur_run_id c)"
  by (auto simp: is_strictly_older_than_def run_position_def less_prod_def)

lemma older_than_cursor_of: "is_strictly_older_than run (cursor_of b) \<longleftrightarrow> run_position run < run_position b"
  by (simp add: older_than_position cursor_of_def run_list_cursor_new_def run_position_def)

lemma list_runs_eq:
  "list_runs q s =
     (if 1 \<le> rq_limit q \<and> rq_limit q \<le> max_run_query_limit
      then Inr (take (unat (rq_limit q)) (matching_desc q s))
      else Inl (InvalidLimit ''run history'' (rq_limit q) 1 max_run_query_limit))"
  by (simp add: list_runs_def validate_limit_def order_and_limit_runs_def matching_desc_def)

lemma set_matching_desc: "set (matching_desc q s) = set (collect_matching_runs q s)"
  by (simp add: matching_desc_def)

lemma set_runs: "store_inv s \<Longrightarrow> run \<in> set (map snd (ms_runs s)) \<longleftrightarrow> run_of s (run_run_id run) = Some run"
proof -
  assume inv: "store_inv s"
  then have d: "distinct (map fst (ms_runs s))" by (simp add: store_inv_def)
  show ?thesis
  proof
    assume "run \<in> set (map snd (ms_runs s))"
    then obtain k where "(k, run) \<in> set (ms_runs s)" by auto
    with d have "run_of s k = Some run" by (simp add: run_of_def)
    with store_inv_entry [OF inv this] show "run_of s (run_run_id run) = Some run"
      by (simp add: run_entry_ok_def)
  qed (metis run_of_def d map_of_eq_Some_iff map_of_SomeD set_zip_rightD zip_map_fst_snd)
qed

lemma distinct_run_ids: "store_inv s \<Longrightarrow> distinct (map run_run_id (map snd (ms_runs s)))"
proof -
  assume inv: "store_inv s"
  then have d: "distinct (map fst (ms_runs s))" by (simp add: store_inv_def)
  have "map (run_run_id \<circ> snd) (ms_runs s) = map fst (ms_runs s)"
  proof (rule map_cong [OF refl])
    fix p assume "p \<in> set (ms_runs s)"
    then have "run_of s (fst p) = Some (snd p)" using d by (simp add: run_of_def)
    from store_inv_entry [OF inv this] show "(run_run_id \<circ> snd) p = fst p"
      by (simp add: run_entry_ok_def)
  qed
  with d show ?thesis by (metis map_map)
qed

lemma newest_first_matching: "store_inv s \<Longrightarrow> newest_first (matching_desc q s)"
proof -
  assume "store_inv s"
  then have "distinct (map run_run_id (collect_matching_runs q s))"
    using distinct_run_ids [of s] by (simp add: collect_matching_runs_def distinct_map_filter)
  then have "distinct (map run_position (collect_matching_runs q s))"
    by (auto simp: distinct_map inj_on_def run_position_def)
  then have "distinct (map run_position (sort_key run_position (rev (collect_matching_runs q s))))"
    by (auto simp: distinct_map)
  then have "sorted_wrt (<) (map run_position (sort_key run_position (rev (collect_matching_runs q s))))"
    by (simp add: strict_sorted_iff)
  then show ?thesis
    by (simp add: newest_first_def matching_desc_def sorted_wrt_rev sorted_wrt_map)
qed

lemma matching_desc_before:
  "matching_desc (q\<lparr>rq_before := Some c\<rparr>) s =
   filter (\<lambda>run. is_strictly_older_than run c) (matching_desc (q\<lparr>rq_before := None\<rparr>) s)"
  by (simp add: matching_desc_def collect_matching_runs_def is_none_or_def filter_sort rev_filter
      run_matches_def [abs_def] flip: rev_filter)

lemma newest_first_filter_last:
  assumes "newest_first xs" "0 < n" "xs \<noteq> []"
  shows "filter (\<lambda>x. run_position x < run_position (last (take n xs))) xs = drop n xs"
proof -
  let ?P = "\<lambda>x. run_position x < run_position (last (take n xs))"
  have sw: "sorted_wrt (\<lambda>a b. run_position b < run_position a) (take n xs @ drop n xs)"
    using assms(1) by (simp add: newest_first_def)
  from assms(2,3) have ne: "take n xs \<noteq> []" by simp
  have "\<not> ?P x" if "x \<in> set (take n xs)" for x
  proof -
    from ne obtain ys y where ys: "take n xs = ys @ [y]" by (cases "take n xs" rule: rev_cases) auto
    with sw that show ?thesis by (auto simp: sorted_wrt_append)
  qed
  moreover have "?P x" if "x \<in> set (drop n xs)" for x
    using sw that ne by (simp only: sorted_wrt_append) (meson last_in_set)
  ultimately have "filter ?P (take n xs @ drop n xs) = drop n xs"
    by (simp only: filter_append) (simp add: filter_id_conv filter_empty_conv)
  then show ?thesis by simp
qed

text \<open>Listing runs returns, newest first and without duplicates, the first \<open>limit\<close> of exactly the
  stored runs that match the kind, status, method and cursor filters.\<close>

theorem list_runs_exact:
  assumes "store_inv s" "list_runs q s = Inr page"
  shows "\<exists>runs. page = take (unat (rq_limit q)) runs \<and> newest_first runs
     \<and> set runs = {run. run_of s (run_run_id run) = Some run \<and> run_matches q run
                       \<and> is_none_or (is_strictly_older_than run) (rq_before q)}"
proof (intro exI conjI)
  show "page = take (unat (rq_limit q)) (matching_desc q s)"
    using assms(2) by (simp add: list_runs_eq split: if_splits)
  show "newest_first (matching_desc q s)" by (rule newest_first_matching [OF assms(1)])
  show "set (matching_desc q s) = {run. run_of s (run_run_id run) = Some run \<and> run_matches q run
                       \<and> is_none_or (is_strictly_older_than run) (rq_before q)}"
    using set_runs [OF assms(1)] by (auto simp: set_matching_desc collect_matching_runs_def)
qed

text \<open>Cursor paging: asking again with the cursor at the last run of a page returns exactly the
  next \<open>limit\<close> runs of the listing, with nothing skipped and nothing repeated.\<close>

theorem list_runs_next_page:
  assumes "store_inv s" "rq_before q = None" "list_runs q s = Inr page" "page \<noteq> []"
  shows "list_runs (run_query_with_before (cursor_of (last page)) q) s =
     Inr (take (unat (rq_limit q)) (drop (unat (rq_limit q)) (matching_desc q s)))"
proof -
  let ?q = "q\<lparr>rq_before := Some (cursor_of (last page))\<rparr>"
  have lim: "1 \<le> rq_limit q \<and> rq_limit q \<le> max_run_query_limit"
    and page: "page = take (unat (rq_limit q)) (matching_desc q s)"
    using assms(3) by (auto simp: list_runs_eq split: if_splits)
  have q: "q\<lparr>rq_before := None\<rparr> = q" using assms(2) by simp
  have "matching_desc ?q s = drop (unat (rq_limit q)) (matching_desc q s)"
    using newest_first_filter_last [OF newest_first_matching [OF assms(1)], of "unat (rq_limit q)" q]
      assms(4) by (auto simp: matching_desc_before q older_than_cursor_of page)
  with lim show ?thesis by (simp add: list_runs_eq run_query_with_before_def)
qed

lemma filter_after_contiguous:
  "contiguous_from n l \<Longrightarrow> filter (\<lambda>e. a < env_sequence e) l = drop (unat a - n) l"
proof (induction l arbitrary: n)
  case Nil
  then show ?case by simp
next
  case (Cons e l)
  then have e: "unat (env_sequence e) = Suc n" and l: "contiguous_from (Suc n) l"
    by (simp_all add: contiguous_from_Cons)
  have a: "a < env_sequence e \<longleftrightarrow> unat a \<le> n" using e by (simp add: word_less_nat_alt less_Suc_eq_le)
  show ?case
  proof (cases "unat a \<le> n")
    case False
    then have "unat a - n = Suc (unat a - Suc n)" by simp
    with False a Cons.IH [OF l] show ?thesis by simp
  qed (use a Cons.IH [OF l] in simp)
qed

text \<open>Replaying: the events after a sequence number are the next \<open>limit\<close> entries of the
  stored log, found at that position; a missing run and a limit out of range are errors.\<close>

theorem load_events_exact:
  assumes "store_inv s"
  shows "load_events r q s =
    (if \<not> (1 \<le> eq_limit q \<and> eq_limit q \<le> max_event_query_limit)
     then Inl (InvalidLimit ''event replay'' (eq_limit q) 1 max_event_query_limit)
     else if run_of s r = None then Inl (RunNotFound r)
     else Inr (take (unat (eq_limit q))
            (drop (case eq_after_sequence q of None \<Rightarrow> 0 | Some a \<Rightarrow> unat a) (log_of s r))))"
proof -
  have "contiguous_from 0 (log_of s r)"
    using store_inv_entry [OF assms] store_inv_absent [OF assms]
    by (cases "run_of s r") (auto simp: run_entry_ok_def)
  from filter_after_contiguous [OF this]
  show ?thesis
    by (auto simp: load_events_def validate_limit_def run_of_def Let_def simp flip: log_of_def
        split: option.split)
qed

subsection \<open>Reachable stores\<close>

datatype 'ev store_call =
    CallCreate expl_run
  | CallAppend "'ev envelope list"
  | CallComplete run_completion
  | CallDelete run_id

fun store_exec :: "'ev store_call \<Rightarrow> ('ev, unit) store_op" where
  "store_exec (CallCreate run) = create_run run"
| "store_exec (CallAppend es) = append_events es"
| "store_exec (CallComplete c) = complete_run c"
| "store_exec (CallDelete r) = delete_run r"

fun call_spec :: "'ev store_call \<Rightarrow> 'ev history \<Rightarrow> 'ev history option" where
  "call_spec (CallCreate run) = spec_create run"
| "call_spec (CallAppend es) = spec_append es"
| "call_spec (CallComplete c) = spec_complete c"
| "call_spec (CallDelete r) = spec_delete r"

definition run_calls :: "'ev store_call list \<Rightarrow> 'ev memory_state" where
  "run_calls calls = foldl (\<lambda>s c. snd (store_exec c s)) memory_state_new calls"

definition spec_calls :: "'ev store_call list \<Rightarrow> 'ev history" where
  "spec_calls calls = foldl (\<lambda>h c. case call_spec c h of None \<Rightarrow> h | Some h' \<Rightarrow> h') Map.empty calls"

lemma store_inv_new [simp]: "store_inv memory_state_new"
  by (simp add: store_inv_def memory_state_new_def)

lemma history_new [simp]: "history memory_state_new = Map.empty"
  by (auto simp: history_def run_of_def memory_state_new_def)

lemma store_exec_implements: "store_inv s \<Longrightarrow> implements (store_exec c) (call_spec c) s"
  by (cases c) (simp_all add: create_run_implements append_events_implements complete_run_implements
      delete_run_implements)

lemma implements_inv: "implements f sp s \<Longrightarrow> store_inv s \<Longrightarrow> store_inv (snd (f s))"
  by (auto simp: implements_def split: prod.splits sum.splits)

lemma implements_history:
  "implements f sp s \<Longrightarrow>
   history (snd (f s)) = (case sp (history s) of None \<Rightarrow> history s | Some h \<Rightarrow> h)"
  by (auto simp: implements_def split: prod.splits sum.splits)

lemma run_calls_snoc: "run_calls (cs @ [c]) = snd (store_exec c (run_calls cs))"
  by (simp add: run_calls_def)

lemma store_inv_run_calls: "store_inv (run_calls cs)"
  by (induction cs rule: rev_induct)
     (auto simp: run_calls_snoc intro: implements_inv store_exec_implements simp: run_calls_def [of "[]"])

lemma history_run_calls: "history (run_calls cs) = spec_calls cs"
proof (induction cs rule: rev_induct)
  case Nil
  then show ?case by (simp add: run_calls_def spec_calls_def)
next
  case (snoc c cs)
  have "history (run_calls (cs @ [c])) =
      (case call_spec c (history (run_calls cs)) of None \<Rightarrow> history (run_calls cs) | Some h \<Rightarrow> h)"
    unfolding run_calls_snoc by (rule implements_history [OF store_exec_implements [OF store_inv_run_calls]])
  with snoc show ?case by (simp add: spec_calls_def cong: option.case_cong)
qed

text \<open>C24: The in-memory store implements the store contract: along any sequence of calls, each call
  succeeds exactly where the contract allows it (contiguous one-run batches, valid creations,
  idempotent completions) and the visible history of runs and logs is the one the contract
  prescribes, a failing call changing nothing.\<close>

theorem store_refines_contract:
  "history (run_calls calls) = spec_calls calls \<and>
   (is_ok (fst (store_exec c (run_calls calls))) \<longleftrightarrow> call_spec c (spec_calls calls) \<noteq> None)"
  using history_run_calls [of calls] store_exec_implements [OF store_inv_run_calls, of c calls]
  by (auto simp: implements_def split: prod.splits sum.splits)

text \<open>C39: Well-formedness of every reachable run: it is stored under its own id, its event count is the
  length of its log, the log carries exactly the sequences 1, 2, 3, \<open>\<dots>\<close> and only its own records, and
  it has a completion time, not before its start, exactly when its status is terminal.\<close>

theorem reachable_run_ok:
  "\<forall>(r, run) \<in> set (ms_runs (run_calls calls)).
     run_run_id run = r
     \<and> unat (run_event_count run) = length (log_of (run_calls calls) r)
     \<and> map (\<lambda>e. unat (env_sequence e)) (log_of (run_calls calls) r)
         = [1..<Suc (length (log_of (run_calls calls) r))]
     \<and> (\<forall>e \<in> set (log_of (run_calls calls) r). env_run e = r)
     \<and> (is_terminal (run_status run) \<longleftrightarrow> run_completed_at run \<noteq> None)
     \<and> (\<forall>t \<in> set_option (run_completed_at run). run_started_at run \<le> t)"
proof -
  have "distinct (map fst (ms_runs (run_calls calls)))"
    using store_inv_run_calls [of calls] by (simp add: store_inv_def)
  then have "run_of (run_calls calls) r = Some run" if "(r, run) \<in> set (ms_runs (run_calls calls))" for r run
    using that by (simp add: run_of_def)
  then show ?thesis
    using store_inv_entry [OF store_inv_run_calls]
    by (fastforce simp: run_entry_ok_def contiguous_from_def simp del: upt_Suc)
qed

text \<open>A concrete history: two runs, two events of the first, which is then completed.\<close>

definition sample_envelope :: "string \<Rightarrow> u64 \<Rightarrow> nat envelope" where
  "sample_envelope r n =
     \<lparr>env_schema_version = 1, env_sequence = n,
      env_record = \<lparr>rec_run_id = RunId r, rec_timestamp = 5, rec_span_id = SpanId ''s'',
                    rec_parent_span_id = None, rec_event = unat n\<rparr>\<rparr>"

definition sample_run :: "string \<Rightarrow> datetime \<Rightarrow> expl_run" where
  "sample_run r t = (expl_run_new (RunId r) Query t)\<lparr>run_status := Running\<rparr>"

definition sample_calls :: "nat store_call list" where
  "sample_calls =
     [CallCreate (sample_run ''a'' 1), CallCreate (sample_run ''b'' 2),
      CallAppend [sample_envelope ''a'' 1], CallAppend [sample_envelope ''a'' 3],
      CallAppend [sample_envelope ''a'' 2],
      CallComplete \<lparr>rc_run_id = RunId ''a'', rc_status = Completed, rc_completed_at = 9\<rparr>]"

lemma sample_state:
  "run_calls sample_calls =
     \<lparr>ms_runs = [(RunId ''a'', (sample_run ''a'' 1)\<lparr>run_event_count := 2, run_status := Completed,
                     run_completed_at := Some 9\<rparr>),
                 (RunId ''b'', sample_run ''b'' 2)],
      ms_events = [(RunId ''a'', [sample_envelope ''a'' 1, sample_envelope ''a'' 2])]\<rparr>"
  by (simp add: run_calls_def sample_calls_def memory_state_new_def create_run_def append_events_def
      complete_run_def validate_create_run_def sample_run_def expl_run_new_def sample_envelope_def
      u64_checked_add_def entry_extend_def Let_def)

theorem reachable_run_ok_witness:
  "unat (run_event_count ((sample_run ''a'' 1)\<lparr>run_event_count := 2, run_status := Completed,
           run_completed_at := Some 9\<rparr>)) = length (log_of (run_calls sample_calls) (RunId ''a''))"
  using reachable_run_ok [of sample_calls, THEN bspec,
      of "(RunId ''a'', (sample_run ''a'' 1)\<lparr>run_event_count := 2, run_status := Completed,
           run_completed_at := Some 9\<rparr>)"]
  by (simp add: sample_state)

theorem list_runs_exact_witness:
  "\<exists>runs. [sample_run ''b'' 2] = take 1 runs \<and> newest_first runs
     \<and> set runs = {run. run_of (run_calls sample_calls) (run_run_id run) = Some run
                       \<and> run_matches (run_query_new\<lparr>rq_limit := 1\<rparr>) run}"
proof -
  have "list_runs (run_query_new\<lparr>rq_limit := 1\<rparr>) (run_calls sample_calls) = Inr [sample_run ''b'' 2]"
    by (simp add: list_runs_eq matching_desc_def sample_state collect_matching_runs_def run_query_new_def
        max_run_query_limit_def is_none_or_def run_matches_def sample_run_def expl_run_new_def
        run_position_def less_eq_prod_def less_prod_def less_eq_run_id_def)
  from list_runs_exact [OF store_inv_run_calls this]
  show ?thesis by (simp add: run_query_new_def is_none_or_def)
qed

theorem list_runs_next_page_witness:
  "list_runs (run_query_with_before (cursor_of (sample_run ''b'' 2)) (run_query_new\<lparr>rq_limit := 1\<rparr>))
       (run_calls sample_calls)
   = Inr (take 1 (drop 1 (matching_desc (run_query_new\<lparr>rq_limit := 1\<rparr>) (run_calls sample_calls))))"
proof -
  have "list_runs (run_query_new\<lparr>rq_limit := 1\<rparr>) (run_calls sample_calls) = Inr [sample_run ''b'' 2]"
    by (simp add: list_runs_eq matching_desc_def sample_state collect_matching_runs_def run_query_new_def
        max_run_query_limit_def is_none_or_def run_matches_def sample_run_def expl_run_new_def
        run_position_def less_eq_prod_def less_prod_def less_eq_run_id_def)
  from list_runs_next_page [OF store_inv_run_calls _ this]
  show ?thesis by (simp add: run_query_new_def)
qed

theorem load_events_exact_witness:
  "load_events (RunId ''a'') (event_query_after 1 event_query_new) (run_calls sample_calls)
   = Inr [sample_envelope ''a'' 2]"
proof -
  have "log_of (run_calls sample_calls) (RunId ''a'') = [sample_envelope ''a'' 1, sample_envelope ''a'' 2]"
       "run_of (run_calls sample_calls) (RunId ''a'') \<noteq> None"
    by (simp_all add: sample_state log_of_def run_of_def)
  then show ?thesis
    by (simp add: load_events_exact [OF store_inv_run_calls] event_query_after_def event_query_new_def
        default_event_query_limit_def max_event_query_limit_def)
qed

subsection \<open>The contract as an interface\<close>

text \<open>
  What a writer may rely on, for any implementation of the \<open>ExplainabilityStore\<close> trait: a
  successful call leads to the history the contract prescribes, a failing one leaves the
  history alone. The recorder is verified against this interface.
\<close>

record ('s, 'ev) store_ops =
  so_create :: "expl_run \<Rightarrow> 's \<Rightarrow> (store_error + unit) \<times> 's"
  so_append :: "'ev envelope list \<Rightarrow> 's \<Rightarrow> (store_error + unit) \<times> 's"
  so_complete :: "run_completion \<Rightarrow> 's \<Rightarrow> (store_error + unit) \<times> 's"

definition memory_store_ops :: "('ev memory_state, 'ev) store_ops" where
  "memory_store_ops = \<lparr>so_create = create_run, so_append = append_events, so_complete = complete_run\<rparr>"

locale run_history_store =
  fixes ops :: "('s, 'ev) store_ops"
    and inv :: "'s \<Rightarrow> bool"
    and hist :: "'s \<Rightarrow> 'ev history"
  assumes create_law: "inv s \<Longrightarrow> so_create ops run s = (res, s') \<Longrightarrow>
      inv s' \<and> (case res of Inr _ \<Rightarrow> spec_create run (hist s) = Some (hist s') | Inl _ \<Rightarrow> hist s' = hist s)"
    and append_law: "inv s \<Longrightarrow> so_append ops es s = (res, s') \<Longrightarrow>
      inv s' \<and> (case res of Inr _ \<Rightarrow> spec_append es (hist s) = Some (hist s') | Inl _ \<Rightarrow> hist s' = hist s)"
    and complete_law: "inv s \<Longrightarrow> so_complete ops c s = (res, s') \<Longrightarrow>
      inv s' \<and> (case res of Inr _ \<Rightarrow> spec_complete c (hist s) = Some (hist s') | Inl _ \<Rightarrow> hist s' = hist s)"
    and log_law: "inv s \<Longrightarrow> hist s r = Some (run, l) \<Longrightarrow> run_entry_ok r run l"
begin

lemma create_new:
  assumes "inv s" "so_create ops run s = (Inr u, s')"
  shows "inv s'" "hist s (run_run_id run) = None" "hist s' = (hist s)(run_run_id run \<mapsto> (run, []))"
  using create_law [OF assms] by (auto simp: spec_create_def split: if_splits)

lemma append_one:
  assumes "inv s" "so_append ops [e] s = (Inr u, s')"
  obtains run l where "inv s'" "hist s (env_run e) = Some (run, l)" "unat (env_sequence e) = Suc (length l)"
    "\<not> is_terminal (run_status run)"
    "hist s' = (hist s)(env_run e \<mapsto> (run\<lparr>run_event_count := of_nat (Suc (length l))\<rparr>, l @ [e]))"
proof -
  from append_law [OF assms] have inv: "inv s'" and sp: "spec_append [e] (hist s) = Some (hist s')"
    by simp_all
  from sp obtain run l where h: "hist s (env_run e) = Some (run, l)"
    by (auto simp: spec_append_def split: option.splits)
  with sp have "\<not> is_terminal (run_status run)" "contiguous_from (length l) [e]"
      "hist s' = (hist s)(env_run e \<mapsto> (run\<lparr>run_event_count := of_nat (Suc (length l))\<rparr>, l @ [e]))"
    by (auto simp: spec_append_def split: if_splits)
  with inv h that show thesis by (simp add: contiguous_from_Cons)
qed

lemma complete_keeps_logs:
  assumes "inv s" "so_complete ops c s = (res, s')"
  shows "inv s'" "map_option snd (hist s' r) = map_option snd (hist s r)"
proof -
  from complete_law [OF assms] show "inv s'" by simp
  from complete_law [OF assms] show "map_option snd (hist s' r) = map_option snd (hist s r)"
    by (cases res) (auto simp: spec_complete_def dest!: sym [where t = "hist s'"] split: option.splits if_splits)
qed

lemma failed_calls_keep_history:
  assumes "inv s"
  shows "so_create ops run s = (Inl x, s') \<Longrightarrow> inv s' \<and> hist s' = hist s"
    and "so_append ops es s = (Inl x, s') \<Longrightarrow> inv s' \<and> hist s' = hist s"
  using create_law [OF assms, of run "Inl x"] append_law [OF assms, of es "Inl x"] by auto

end

interpretation memory: run_history_store memory_store_ops store_inv history
proof (unfold_locales, goal_cases)
  case (1 s run res s')
  then show ?case using create_run_implements [of s run]
    by (auto simp: implements_def memory_store_ops_def split: sum.splits)
next
  case (2 s es res s')
  then show ?case using append_events_implements [of s es]
    by (auto simp: implements_def memory_store_ops_def split: sum.splits)
next
  case (3 s c res s')
  then show ?case using complete_run_implements [of s c]
    by (auto simp: implements_def memory_store_ops_def split: sum.splits)
next
  case (4 s r run l)
  then show ?case by (auto simp: history_Some intro: store_inv_entry)
qed

end
