(* ===== verification/Expl_Hub.thy ===== *)
theory Expl_Hub
  imports Expl_Types
begin

text \<open>
  The live fan-out hub (\<open>explainability/live_hub.rs\<close>).

  A channel is its last committed sequence and the list of the envelopes handed to its
  broadcast sender. A receiver of the broadcast channel is the position in that list at which it
  was registered: it is delivered what is sent from there on (the ring buffer of the channel
  library may make it skip a prefix, which the library reports; the capacity is kept but the ring
  is not modelled). \<open>publish\<close> and \<open>subscribe\<close> only read the run map, so they run concurrently:
  their two memory accesses are separate steps of \<open>live_step\<close>.
\<close>

subsection \<open>Operations\<close>

definition default_channel_capacity :: usize where
  "default_channel_capacity = 256"

record live_hub_options =
  ho_channel_capacity :: usize \<comment> \<open>a \<open>NonZeroUsize\<close>\<close>

definition live_hub_options_new :: live_hub_options where
  "live_hub_options_new = \<lparr>ho_channel_capacity = default_channel_capacity\<rparr>"

definition with_channel_capacity :: "usize \<Rightarrow> live_hub_options \<Rightarrow> live_hub_options" where
  "with_channel_capacity n h = h\<lparr>ho_channel_capacity := n\<rparr>"

record 'ev live_run_channel =
  lc_sent :: "'ev envelope list"
  lc_last_sequence :: u64

record 'ev live_hub =
  lh_options :: live_hub_options
  lh_runs :: "run_id \<Rightarrow> 'ev live_run_channel option"

record live_subscription =
  ls_run_id :: run_id
  ls_snapshot_sequence :: u64
  ls_receiver :: nat \<comment> \<open>the position of its first envelope\<close>

definition live_hub_new :: "live_hub_options \<Rightarrow> 'ev live_hub" where
  "live_hub_new options = \<lparr>lh_options = options, lh_runs = Map.empty\<rparr>"

definition hub_register_run :: "run_id \<Rightarrow> 'ev live_hub \<Rightarrow> 'ev live_hub" where
  "hub_register_run r h =
     (case lh_runs h r of
        Some _ \<Rightarrow> h
      | None \<Rightarrow> h\<lparr>lh_runs := (lh_runs h)(r \<mapsto> \<lparr>lc_sent = [], lc_last_sequence = 0\<rparr>)\<rparr>)"

definition channel_store_sequence :: "u64 \<Rightarrow> 'ev live_run_channel \<Rightarrow> 'ev live_run_channel" where
  "channel_store_sequence n ch = ch\<lparr>lc_last_sequence := n\<rparr>"

definition channel_send :: "'ev envelope \<Rightarrow> 'ev live_run_channel \<Rightarrow> 'ev live_run_channel" where
  "channel_send e ch = ch\<lparr>lc_sent := lc_sent ch @ [e]\<rparr>"

definition hub_publish :: "'ev envelope \<Rightarrow> 'ev live_hub \<Rightarrow> 'ev live_hub" where
  "hub_publish e h =
     (case lh_runs h (env_run e) of
        None \<Rightarrow> h
      | Some ch \<Rightarrow>
          h\<lparr>lh_runs := (lh_runs h)(env_run e \<mapsto> channel_send e (channel_store_sequence (env_sequence e) ch))\<rparr>)"

definition hub_close_run :: "run_id \<Rightarrow> 'ev live_hub \<Rightarrow> 'ev live_hub" where
  "hub_close_run r h = h\<lparr>lh_runs := (lh_runs h)(r := None)\<rparr>"

definition channel_subscribe :: "'ev live_run_channel \<Rightarrow> nat" where
  "channel_subscribe ch = length (lc_sent ch)"

definition hub_subscribe :: "run_id \<Rightarrow> 'ev live_hub \<Rightarrow> live_subscription option" where
  "hub_subscribe r h =
     (case lh_runs h r of
        None \<Rightarrow> None
      | Some ch \<Rightarrow>
          let receiver = channel_subscribe ch
          in Some \<lparr>ls_run_id = r, ls_snapshot_sequence = lc_last_sequence ch, ls_receiver = receiver\<rparr>)"

text \<open>What a subscription is delivered, of everything sent on its channel.\<close>

definition delivered :: "nat \<Rightarrow> 'ev live_run_channel \<Rightarrow> 'ev envelope list" where
  "delivered receiver ch = drop receiver (lc_sent ch)"

subsection \<open>Concurrent publishing and subscribing on one channel\<close>

datatype subscriber =
    NotSubscribed
  | Registered nat            \<comment> \<open>receiver registered, snapshot not yet read\<close>
  | Subscribed nat u64        \<comment> \<open>receiver and snapshot\<close>

record 'ev live_state =
  lv_channel :: "'ev live_run_channel"
  lv_publishing :: "'ev envelope option" \<comment> \<open>sequence stored, envelope not yet sent\<close>
  lv_subscribers :: "nat \<Rightarrow> subscriber"

definition live_init :: "'ev live_state" where
  "live_init = \<lparr>lv_channel = \<lparr>lc_sent = [], lc_last_sequence = 0\<rparr>, lv_publishing = None,
                lv_subscribers = (\<lambda>_. NotSubscribed)\<rparr>"

text \<open>One writer publishes, in the order of the stored log: its next envelope carries the sequence after
  the last one sent. Any number of subscribers interleave with it.\<close>

inductive live_step :: "'ev live_state \<Rightarrow> 'ev live_state \<Rightarrow> bool" where
  publish_sequence:
    "lv_publishing s = None \<Longrightarrow> unat (env_sequence e) = Suc (length (lc_sent (lv_channel s))) \<Longrightarrow>
     live_step s (s\<lparr>lv_channel := channel_store_sequence (env_sequence e) (lv_channel s),
                    lv_publishing := Some e\<rparr>)"
| publish_send:
    "lv_publishing s = Some e \<Longrightarrow>
     live_step s (s\<lparr>lv_channel := channel_send e (lv_channel s), lv_publishing := None\<rparr>)"
| subscribe_receiver:
    "lv_subscribers s k = NotSubscribed \<Longrightarrow>
     live_step s (s\<lparr>lv_subscribers :=
       (lv_subscribers s)(k := Registered (channel_subscribe (lv_channel s)))\<rparr>)"
| subscribe_snapshot:
    "lv_subscribers s k = Registered p \<Longrightarrow>
     live_step s (s\<lparr>lv_subscribers :=
       (lv_subscribers s)(k := Subscribed p (lc_last_sequence (lv_channel s)))\<rparr>)"

definition live_reachable :: "'ev live_state \<Rightarrow> bool" where
  "live_reachable = live_step\<^sup>*\<^sup>* live_init"

definition live_inv :: "'ev live_state \<Rightarrow> bool" where
  "live_inv s \<longleftrightarrow>
     map (\<lambda>e. unat (env_sequence e)) (lc_sent (lv_channel s)) = [1..<Suc (length (lc_sent (lv_channel s)))]
     \<and> unat (lc_last_sequence (lv_channel s)) =
         length (lc_sent (lv_channel s)) + (case lv_publishing s of None \<Rightarrow> 0 | Some _ \<Rightarrow> 1)
     \<and> (\<forall>e. lv_publishing s = Some e \<longrightarrow> unat (env_sequence e) = Suc (length (lc_sent (lv_channel s))))
     \<and> (\<forall>k. case lv_subscribers s k of
              NotSubscribed \<Rightarrow> True
            | Registered p \<Rightarrow> p \<le> length (lc_sent (lv_channel s))
            | Subscribed p n \<Rightarrow> p \<le> unat n \<and> p \<le> length (lc_sent (lv_channel s)))"

lemma live_inv_init: "live_inv live_init"
  by (simp add: live_inv_def live_init_def)

lemma live_inv_step: "live_step s s' \<Longrightarrow> live_inv s \<Longrightarrow> live_inv s'"
proof (induction rule: live_step.induct)
  case (publish_sequence s e)
  then show ?case by (simp add: live_inv_def channel_store_sequence_def cong: subscriber.case_cong)
next
  case (publish_send s e)
  then show ?case
    by (auto simp: live_inv_def channel_send_def split: subscriber.splits) (meson le_Suc_eq)+
next
  case (subscribe_receiver s k)
  then show ?case by (simp add: live_inv_def channel_subscribe_def split: option.splits cong: subscriber.case_cong)
next
  case (subscribe_snapshot s k p)
  then have "p \<le> length (lc_sent (lv_channel s))" by (auto simp: live_inv_def dest: spec [of _ k])
  with subscribe_snapshot show ?case by (auto simp: live_inv_def split: option.splits cong: subscriber.case_cong)
qed

lemma live_inv_reachable: "live_reachable s \<Longrightarrow> live_inv s"
  unfolding live_reachable_def
  by (induction rule: rtranclp_induct) (auto intro: live_inv_init live_inv_step)

text \<open>C34: The subscribe-versus-replay race is closed: however publishing and subscribing interleave, an
  envelope that was sent on the channel with a sequence above the snapshot of a subscription is
  delivered to it, so the stored log up to the snapshot and the live envelopes leave no gap.\<close>

theorem subscription_leaves_no_gap:
  assumes "live_reachable s" "lv_subscribers s k = Subscribed p n"
    and "e \<in> set (lc_sent (lv_channel s))" "n < env_sequence e"
  shows "e \<in> set (delivered p (lv_channel s))"
proof -
  let ?l = "lc_sent (lv_channel s)"
  from live_inv_reachable [OF assms(1)]
  have seqs: "map (\<lambda>e. unat (env_sequence e)) ?l = [1..<Suc (length ?l)]" and p: "p \<le> unat n"
    using assms(2) by (auto simp: live_inv_def dest!: spec [of _ k] simp del: upt_Suc)
  from assms(3) obtain i where i: "i < length ?l" "e = ?l ! i" by (auto simp: in_set_conv_nth)
  then have "unat (env_sequence e) = Suc i"
    using arg_cong [OF seqs, of "\<lambda>l. l ! i"] by (simp add: nth_upt del: upt_Suc)
  with assms(4) p have "p \<le> i" by (simp add: word_less_nat_alt)
  with i show ?thesis by (auto simp: delivered_def in_set_conv_nth intro!: exI [of _ "i - p"])
qed

lemma live_step_sample:
  fixes e :: "'ev envelope"
  assumes "env_sequence e = 1"
  shows "live_reachable \<lparr>lv_channel = \<lparr>lc_sent = [e], lc_last_sequence = 1\<rparr>, lv_publishing = None,
     lv_subscribers = (\<lambda>_. NotSubscribed)(0 := Subscribed 0 0)\<rparr>"
proof -
  let ?e0 = "(\<lambda>_. NotSubscribed) :: nat \<Rightarrow> subscriber"
  let ?s1 = "\<lparr>lv_channel = \<lparr>lc_sent = [], lc_last_sequence = 0\<rparr>, lv_publishing = None,
     lv_subscribers = ?e0(0 := Registered 0)\<rparr> :: 'ev live_state"
  let ?s2 = "\<lparr>lv_channel = \<lparr>lc_sent = [], lc_last_sequence = 0\<rparr>, lv_publishing = None,
     lv_subscribers = ?e0(0 := Subscribed 0 0)\<rparr> :: 'ev live_state"
  let ?s3 = "\<lparr>lv_channel = \<lparr>lc_sent = [], lc_last_sequence = 1\<rparr>, lv_publishing = Some e,
     lv_subscribers = ?e0(0 := Subscribed 0 0)\<rparr>"
  let ?s4 = "\<lparr>lv_channel = \<lparr>lc_sent = [e], lc_last_sequence = 1\<rparr>, lv_publishing = None,
     lv_subscribers = ?e0(0 := Subscribed 0 0)\<rparr>"
  have 1: "live_step live_init ?s1"
    using live_step.subscribe_receiver [of live_init 0] by (simp add: live_init_def channel_subscribe_def)
  have 2: "live_step ?s1 ?s2" using live_step.subscribe_snapshot [of ?s1 0 0] by simp
  have 3: "live_step ?s2 ?s3"
    using live_step.publish_sequence [of ?s2 e] assms by (simp add: channel_store_sequence_def)
  have 4: "live_step ?s3 ?s4" using live_step.publish_send [of ?s3 e] by (simp add: channel_send_def)
  note step = rtranclp.rtrancl_into_rtrancl [of live_step]
  show ?thesis unfolding live_reachable_def
    by (rule step [OF step [OF step [OF r_into_rtranclp [of live_step, OF 1] 2] 3] 4])
qed

definition sample_live_envelope :: "bool envelope" where
  "sample_live_envelope =
     \<lparr>env_schema_version = 1, env_sequence = 1,
      env_record = \<lparr>rec_run_id = RunId ''r'', rec_timestamp = 0, rec_span_id = SpanId ''s'',
                    rec_parent_span_id = None, rec_event = True\<rparr>\<rparr>"

theorem subscription_leaves_no_gap_witness:
  "sample_live_envelope \<in> set (delivered 0 \<lparr>lc_sent = [sample_live_envelope], lc_last_sequence = 1\<rparr>)"
proof -
  have one: "env_sequence sample_live_envelope = 1" by (simp add: sample_live_envelope_def)
  from subscription_leaves_no_gap [OF live_step_sample [OF one], of 0 0 0 sample_live_envelope]
  show ?thesis by (simp add: one)
qed

end
