(* ===== verification/Expl_Sink.thy ===== *)
theory Expl_Sink
  imports Expl_Types
begin

text \<open>
  Event sinks and the sink chain (\<open>explainability/sink.rs\<close>). A sink is a pair of operations on a
  state \<open>'s\<close> that all sinks of a chain share; the chain is itself a sink.
\<close>

datatype sink_operation = Emit | FinishRunOp

datatype sink_error =
    RecordNotAccepted
  | Closed
  | Unavailable
  | WriterFailed
  | RunFinalizationFailed
  | Chain sink_operation "(usize \<times> sink_error) list"

fun sink_operation_display :: "sink_operation \<Rightarrow> string" where
  "sink_operation_display Emit = ''record delivery''"
| "sink_operation_display FinishRunOp = ''run finalization''"

record ('s, 'ev) sink =
  sk_emit :: "'ev expl_record \<Rightarrow> 's \<Rightarrow> (sink_error + unit) \<times> 's"
  sk_finish_run :: "run_id \<Rightarrow> 's \<Rightarrow> (sink_error + unit) \<times> 's"

definition noop_sink :: "('s, 'ev) sink" where
  "noop_sink = \<lparr>sk_emit = (\<lambda>_ s. (Inr (), s)), sk_finish_run = (\<lambda>_ s. (Inr (), s))\<rparr>"

definition aggregate :: "sink_operation \<Rightarrow> (usize \<times> sink_error) list \<Rightarrow> sink_error + unit" where
  "aggregate operation failures = (if failures = [] then Inr () else Inl (Chain operation failures))"

text \<open>The loop over the enumerated sinks, with the failures pushed so far.\<close>

fun chain_loop ::
  "(usize \<times> ('s \<Rightarrow> (sink_error + unit) \<times> 's)) list \<Rightarrow> (usize \<times> sink_error) list \<Rightarrow> 's
   \<Rightarrow> (usize \<times> sink_error) list \<times> 's" where
  "chain_loop [] failures s = (failures, s)"
| "chain_loop ((sink_index, call) # calls) failures s =
     (case call s of
        (Inl error, s') \<Rightarrow> chain_loop calls (failures @ [(sink_index, error)]) s'
      | (Inr _, s') \<Rightarrow> chain_loop calls failures s')"

definition chain_emit :: "('s, 'ev) sink list \<Rightarrow> 'ev expl_record \<Rightarrow> 's \<Rightarrow> (sink_error + unit) \<times> 's" where
  "chain_emit sinks r s =
     (case chain_loop (enumerate_from 0 (map (\<lambda>sink. sk_emit sink r) sinks)) [] s of
        (failures, s') \<Rightarrow> (aggregate Emit failures, s'))"

definition chain_finish_run :: "('s, 'ev) sink list \<Rightarrow> run_id \<Rightarrow> 's \<Rightarrow> (sink_error + unit) \<times> 's" where
  "chain_finish_run sinks r s =
     (case chain_loop (enumerate_from 0 (map (\<lambda>sink. sk_finish_run sink r) sinks)) [] s of
        (failures, s') \<Rightarrow> (aggregate FinishRunOp failures, s'))"

definition chain_sink :: "('s, 'ev) sink list \<Rightarrow> ('s, 'ev) sink" where
  "chain_sink sinks = \<lparr>sk_emit = chain_emit sinks, sk_finish_run = chain_finish_run sinks\<rparr>"

subsection \<open>Every sink is called, every failure is reported\<close>

text \<open>The states a list of calls goes through, and the calls that failed with their positions.\<close>

fun states_of :: "('s \<Rightarrow> 'r \<times> 's) list \<Rightarrow> 's \<Rightarrow> 's list" where
  "states_of [] s = [s]"
| "states_of (f # fs) s = s # states_of fs (snd (f s))"

definition failures_of :: "('s \<Rightarrow> (sink_error + unit) \<times> 's) list \<Rightarrow> 's list \<Rightarrow> (usize \<times> sink_error) list" where
  "failures_of fs ss =
     concat (map (\<lambda>i. case fst ((fs ! i) (ss ! i)) of Inl e \<Rightarrow> [(i, e)] | Inr _ \<Rightarrow> []) [0..<length fs])"

lemma length_states_of [simp]: "length (states_of fs s) = Suc (length fs)"
  by (induction fs s rule: states_of.induct) auto

lemma states_of_0 [simp]: "states_of fs s ! 0 = s"
  by (cases fs) auto

lemma states_of_Suc: "i < length fs \<Longrightarrow> states_of fs s ! Suc i = snd ((fs ! i) (states_of fs s ! i))"
proof (induction fs s arbitrary: i rule: states_of.induct)
  case (2 f fs s)
  then show ?case by (cases i) auto
qed simp

lemma chain_loop_eq:
  "chain_loop (enumerate_from n fs) acc s =
     (acc @ map (\<lambda>(i, e). (n + i, e)) (failures_of fs (states_of fs s)), last (states_of fs s))"
proof (induction fs arbitrary: n acc s)
  case Nil
  then show ?case by (simp add: failures_of_def)
next
  case (Cons f fs)
  obtain r s' where f: "f s = (r, s')" by fastforce
  have upt: "[0..<Suc (length fs)] = 0 # map Suc [0..<length fs]"
    by (simp add: upt_conv_Cons map_Suc_upt del: upt_Suc)
  have tail: "map (\<lambda>(i, e). (n + i, e)) (concat (map (\<lambda>i. case fst ((fs ! i) (states_of fs s' ! i)) of
        Inl e \<Rightarrow> [(Suc i, e)] | Inr _ \<Rightarrow> []) [0..<length fs])) =
      map (\<lambda>(i, e). (Suc n + i, e)) (failures_of fs (states_of fs s'))"
    unfolding failures_of_def map_concat map_map
    by (rule arg_cong [where f = concat], rule map_cong) (auto split: sum.splits)
  have "failures_of (f # fs) (states_of (f # fs) s) =
      (case r of Inl e \<Rightarrow> [(0, e)] | Inr _ \<Rightarrow> [])
      @ concat (map (\<lambda>i. case fst ((fs ! i) (states_of fs s' ! i)) of
          Inl e \<Rightarrow> [(Suc i, e)] | Inr _ \<Rightarrow> []) [0..<length fs])"
    by (simp add: failures_of_def upt f o_def del: upt_Suc split: sum.splits)
  moreover have "states_of fs s' \<noteq> []" by (metis length_states_of list.size(3) nat.distinct(1))
  ultimately show ?case
    using tail by (cases r) (auto simp: f Cons.IH)
qed

text \<open>Delivery to a chain: a record goes to every sink exactly once and in order, each one seeing the
  state its predecessor left, whatever failed before it; the chain succeeds exactly when no sink
  failed and otherwise reports every failing sink with its index and error, in order.\<close>

theorem chain_emit_delivers_to_all:
  "\<exists>states. length states = Suc (length sinks) \<and> states ! 0 = s
     \<and> (\<forall>i \<in> {..<length sinks}. states ! Suc i = snd (sk_emit (sinks ! i) r (states ! i)))
     \<and> chain_emit sinks r s =
         (aggregate Emit (concat (map (\<lambda>i. case fst (sk_emit (sinks ! i) r (states ! i)) of
             Inl e \<Rightarrow> [(i, e)] | Inr _ \<Rightarrow> []) [0..<length sinks])), states ! length sinks)"
proof (intro exI conjI ballI)
  let ?fs = "map (\<lambda>sink. sk_emit sink r) sinks"
  show "length (states_of ?fs s) = Suc (length sinks)" by simp
  show "states_of ?fs s ! 0 = s" by simp
  show "states_of ?fs s ! Suc i = snd (sk_emit (sinks ! i) r (states_of ?fs s ! i))"
    if "i \<in> {..<length sinks}" for i
    using that states_of_Suc [of i ?fs s] by simp
  have "last (states_of ?fs s) = states_of ?fs s ! length sinks"
    by (metis diff_Suc_1 last_conv_nth length_0_conv length_map length_states_of nat.distinct(1))
  moreover have "failures_of ?fs (states_of ?fs s) =
      concat (map (\<lambda>i. case fst (sk_emit (sinks ! i) r (states_of ?fs s ! i)) of
             Inl e \<Rightarrow> [(i, e)] | Inr _ \<Rightarrow> []) [0..<length sinks])"
    unfolding failures_of_def by (rule arg_cong [where f = concat], rule map_cong) auto
  ultimately show "chain_emit sinks r s =
         (aggregate Emit (concat (map (\<lambda>i. case fst (sk_emit (sinks ! i) r (states_of ?fs s ! i)) of
             Inl e \<Rightarrow> [(i, e)] | Inr _ \<Rightarrow> []) [0..<length sinks])), states_of ?fs s ! length sinks)"
    by (simp add: chain_emit_def chain_loop_eq)
qed

definition sample_sink :: "string \<Rightarrow> bool \<Rightarrow> (string list, nat) sink" where
  "sample_sink name ok =
     \<lparr>sk_emit = (\<lambda>_ seen. (if ok then Inr () else Inl Unavailable, seen @ [name])),
      sk_finish_run = (\<lambda>_ seen. (Inr (), seen))\<rparr>"

theorem chain_emit_delivers_to_all_witness:
  "\<forall>r. \<exists>states. length states = 3 \<and> states ! 0 = []
     \<and> states ! 1 = snd (sk_emit (sample_sink ''a'' False) r (states ! 0))
     \<and> states ! 2 = snd (sk_emit (sample_sink ''b'' True) r (states ! 1))
     \<and> chain_emit [sample_sink ''a'' False, sample_sink ''b'' True] r [] =
         (Inl (Chain Emit [(0, Unavailable)]), states ! 2)"
proof
  fix r
  let ?sinks = "[sample_sink ''a'' False, sample_sink ''b'' True]"
  obtain states where st: "length states = Suc (length ?sinks)" "states ! 0 = []"
     "\<forall>i \<in> {..<length ?sinks}. states ! Suc i = snd (sk_emit (?sinks ! i) r (states ! i))"
     "chain_emit ?sinks r [] =
         (aggregate Emit (concat (map (\<lambda>i. case fst (sk_emit (?sinks ! i) r (states ! i)) of
             Inl e \<Rightarrow> [(i, e)] | Inr _ \<Rightarrow> []) [0..<length ?sinks])), states ! length ?sinks)"
    using chain_emit_delivers_to_all [of ?sinks "[]" r] by blast
  from st(3) have "states ! Suc 0 = snd (sk_emit (sample_sink ''a'' False) r (states ! 0))"
      "states ! Suc 1 = snd (sk_emit (sample_sink ''b'' True) r (states ! 1))"
    by (auto dest: bspec [of _ _ 0] bspec [of _ _ 1])
  moreover have "fst (chain_emit ?sinks r []) = Inl (Chain Emit [(0, Unavailable)])"
    by (simp add: chain_emit_def sample_sink_def aggregate_def)
  ultimately show "\<exists>states. length states = 3 \<and> states ! 0 = []
     \<and> states ! 1 = snd (sk_emit (sample_sink ''a'' False) r (states ! 0))
     \<and> states ! 2 = snd (sk_emit (sample_sink ''b'' True) r (states ! 1))
     \<and> chain_emit ?sinks r [] = (Inl (Chain Emit [(0, Unavailable)]), states ! 2)"
    using st(1,2,4) by (intro exI [of _ states]) (simp add: prod_eq_iff numeral_2_eq_2)
qed

end
