(* ===== verification/Expl_Recorder.thy ===== *)
theory Expl_Recorder
  imports Expl_Store Expl_Hub Expl_Sink "HOL-Library.Sublist"
begin

text \<open>
  The store recorder (\<open>explainability/store_recorder.rs\<close>): a bounded command queue, one writer
  task that owns sequence allocation, per-run gates, and the client operations \<open>emit\<close>,
  \<open>finish_run\<close>, \<open>create_run\<close>, \<open>complete_run\<close> and \<open>shutdown\<close>.

  A client operation is a program whose position is a \<open>client\<close>; \<open>client_step\<close> executes it from
  one suspension point to the next and is \<open>None\<close> where it waits for a permit, for room in the
  queue, for a reply or for a gate to change. The writer executes one command per step. Clients
  and writer interleave arbitrarily, and a client may be dropped at any suspension point.

  From the asynchronous runtime the model takes: a semaphore of one permit is held by at most one
  client; the command channel is first-in first-out and bounded, and its content is lost when its
  receiver is dropped; a one-shot reply reaches its receiver, or the receiver learns that the
  sender was dropped. The store is any one meeting the interface \<open>run_history_store\<close>.
\<close>

subsection \<open>Errors and states\<close>

definition default_queue_capacity :: usize where
  "default_queue_capacity = 256"

record recorder_options =
  ro_queue_capacity :: usize \<comment> \<open>a \<open>NonZeroUsize\<close>\<close>

definition recorder_options_new :: recorder_options where
  "recorder_options_new = \<lparr>ro_queue_capacity = default_queue_capacity\<rparr>"

definition with_queue_capacity :: "usize \<Rightarrow> recorder_options \<Rightarrow> recorder_options" where
  "with_queue_capacity n h = h\<lparr>ro_queue_capacity := n\<rparr>"

datatype store_operation = OpCreateRun | OpAppendEvents | OpCompleteRun

fun store_operation_display :: "store_operation \<Rightarrow> string" where
  "store_operation_display OpCreateRun = ''create run''"
| "store_operation_display OpAppendEvents = ''append events''"
| "store_operation_display OpCompleteRun = ''complete run''"

datatype recorder_error =
    RunAlreadyRegistered
  | RunNotRegistered
  | RunNotFinalized
  | EnvelopeInvalid contract_error
  | StoreFailed store_operation store_error
  | RecorderSequenceOverflow
  | RecordAfterFinish
  | ShutdownCommand
  | WriterEnded
  | WriterJoin
  | RuntimeUnavailable

datatype writer_status = WriterRunning | WriterClosing | WriterClosed | WriterDead

datatype gate_state = GateActive | GateFinishing | GateFinished | GateFailedWriter | GateFailedClosed

text \<open>A reply channel is a token; \<open>CmdFinishRun\<close> names the gate it completes by its run.\<close>

datatype 'ev writer_command =
    CmdCreateRun expl_run nat
  | CmdRecord "'ev expl_record"
  | CmdFinishRun run_id nat
  | CmdCompleteRun run_completion nat
  | CmdShutdown nat

datatype reply = RecorderReply "recorder_error + unit" | SinkReply "sink_error + unit"

datatype 'ev client =
    Idle
  | EmitBegin "'ev expl_record"
  | EmitRunAdmitted "'ev expl_record"        \<comment> \<open>holds the run's permit\<close>
  | EmitSending "'ev expl_record"            \<comment> \<open>holds both permits, checks passed\<close>
  | EmitDone "'ev expl_record" "sink_error + unit"
  | FinishBegin run_id
  | FinishRunAdmitted run_id                 \<comment> \<open>holds the run's permit\<close>
  | FinishActive run_id                      \<comment> \<open>and saw the gate active\<close>
  | FinishReserving run_id                   \<comment> \<open>holds both permits, writer was running\<close>
  | FinishAwaiting run_id nat                \<comment> \<open>holds the run's permit\<close>
  | FinishWatching run_id
  | FinishDone run_id "sink_error + unit"
  | CreateBegin expl_run
  | CreateSending expl_run                   \<comment> \<open>holds the writer's permit\<close>
  | CreateAwaiting nat
  | CreateDone "recorder_error + unit"
  | CompleteBegin run_completion
  | CompleteAdmitting run_completion
  | CompleteSending run_completion           \<comment> \<open>holds the writer's permit\<close>
  | CompleteAwaiting nat
  | CompleteDone "recorder_error + unit"
  | ShutdownBegin
  | ShutdownReserving                        \<comment> \<open>holds the writer's permit\<close>
  | ShutdownAwaiting nat
  | ShutdownJoining "(recorder_error + unit) option" bool
  | ShutdownDone "recorder_error + unit"

record ('s, 'ev) recorder =
  rs_store :: 's
  rs_hub :: "'ev live_hub option"
  rs_capacity :: usize
  rs_queue :: "'ev writer_command list"
  rs_status :: writer_status
  rs_gates :: "run_id \<Rightarrow> gate_state option"
  rs_sequences :: "run_id \<Rightarrow> u64 option"
  rs_finished :: "run_id set"
  rs_exit :: "(recorder_error + unit) option"    \<comment> \<open>what \<open>run_writer\<close> returned; its receiver is then dropped\<close>
  rs_joined :: "(recorder_error + unit) option"  \<comment> \<open>the result of the task, its status guard dropped\<close>
  rs_admission :: "nat option"
  rs_run_admission :: "run_id \<Rightarrow> nat option"
  rs_clients :: "nat \<Rightarrow> 'ev client"
  rs_replies :: "nat \<Rightarrow> reply option"
  rs_next_token :: nat
  rs_accepted :: "run_id \<Rightarrow> 'ev expl_record list" \<comment> \<open>history: the records whose \<open>emit\<close> was sent\<close>

abbreviation receiving :: "('s, 'ev) recorder \<Rightarrow> bool" where
  "receiving s \<equiv> rs_exit s = None"

definition recorder_start :: "'s \<Rightarrow> 'ev live_hub option \<Rightarrow> recorder_options \<Rightarrow> ('s, 'ev) recorder" where
  "recorder_start store hub options =
     \<lparr>rs_store = store, rs_hub = hub, rs_capacity = ro_queue_capacity options, rs_queue = [],
      rs_status = WriterRunning, rs_gates = Map.empty, rs_sequences = Map.empty, rs_finished = {},
      rs_exit = None, rs_joined = None, rs_admission = None, rs_run_admission = (\<lambda>_. None),
      rs_clients = (\<lambda>_. Idle), rs_replies = (\<lambda>_. None), rs_next_token = 0, rs_accepted = (\<lambda>_. [])\<rparr>"

subsection \<open>Gates and replies\<close>

fun finish_state_result :: "gate_state \<Rightarrow> sink_error + unit" where
  "finish_state_result GateFinished = Inr ()"
| "finish_state_result GateFailedWriter = Inl WriterFailed"
| "finish_state_result GateFailedClosed = Inl Closed"
| "finish_state_result _ = Inl RunFinalizationFailed"

definition gate_complete :: "run_id \<Rightarrow> gate_state \<Rightarrow> ('s, 'ev) recorder \<Rightarrow> ('s, 'ev) recorder" where
  "gate_complete r g s = s\<lparr>rs_gates := (rs_gates s)(r \<mapsto> g)\<rparr>"

fun failed_gate :: "sink_error \<Rightarrow> gate_state" where
  "failed_gate Closed = GateFailedClosed"
| "failed_gate _ = GateFailedWriter"

definition gate_finish :: "run_id \<Rightarrow> sink_error \<Rightarrow> ('s, 'ev) recorder \<Rightarrow> ('s, 'ev) recorder" where
  "gate_finish r e s = gate_complete r (failed_gate e) s"

definition writer_error :: "('s, 'ev) recorder \<Rightarrow> sink_error" where
  "writer_error s = (if rs_status s = WriterDead then WriterFailed else Closed)"

definition respond :: "nat \<Rightarrow> reply \<Rightarrow> ('s, 'ev) recorder \<Rightarrow> ('s, 'ev) recorder" where
  "respond t x s = s\<lparr>rs_replies := (rs_replies s)(t \<mapsto> x)\<rparr>"

definition goto :: "nat \<Rightarrow> 'ev client \<Rightarrow> ('s, 'ev) recorder \<Rightarrow> ('s, 'ev) recorder" where
  "goto c pc s = s\<lparr>rs_clients := (rs_clients s)(c := pc)\<rparr>"

definition acquire :: "nat \<Rightarrow> ('s, 'ev) recorder \<Rightarrow> ('s, 'ev) recorder option" where
  "acquire c s = (if rs_admission s = None then Some (s\<lparr>rs_admission := Some c\<rparr>) else None)"

definition release :: "('s, 'ev) recorder \<Rightarrow> ('s, 'ev) recorder" where
  "release s = s\<lparr>rs_admission := None\<rparr>"

definition acquire_run :: "nat \<Rightarrow> run_id \<Rightarrow> ('s, 'ev) recorder \<Rightarrow> ('s, 'ev) recorder option" where
  "acquire_run c r s =
     (if rs_run_admission s r = None
      then Some (s\<lparr>rs_run_admission := (rs_run_admission s)(r := Some c)\<rparr>) else None)"

definition release_run :: "run_id \<Rightarrow> ('s, 'ev) recorder \<Rightarrow> ('s, 'ev) recorder" where
  "release_run r s = s\<lparr>rs_run_admission := (rs_run_admission s)(r := None)\<rparr>"

text \<open>Sending on the bounded channel: \<open>None\<close> while it is full, an error once the receiver is gone.\<close>

definition send_command ::
  "'ev writer_command \<Rightarrow> ('s, 'ev) recorder \<Rightarrow> (unit + ('s, 'ev) recorder) option" where
  "send_command cmd s =
     (if \<not> receiving s then Some (Inl ())
      else if length (rs_queue s) < rs_capacity s then Some (Inr (s\<lparr>rs_queue := rs_queue s @ [cmd]\<rparr>))
      else None)"

definition new_token :: "('s, 'ev) recorder \<Rightarrow> nat \<times> ('s, 'ev) recorder" where
  "new_token s = (rs_next_token s, s\<lparr>rs_next_token := Suc (rs_next_token s)\<rparr>)"

text \<open>A reply, \<open>Inl\<close> when its sender was dropped, \<open>None\<close> while it is still to come.\<close>

definition await_reply :: "nat \<Rightarrow> ('s, 'ev) recorder \<Rightarrow> (unit + reply) option" where
  "await_reply t s =
     (case rs_replies s t of
        Some x \<Rightarrow> Some (Inr x)
      | None \<Rightarrow> if receiving s then None else Some (Inl ()))"

subsection \<open>The sink operations\<close>

fun emit_step :: "nat \<Rightarrow> 'ev client \<Rightarrow> ('s, 'ev) recorder \<Rightarrow> ('s, 'ev) recorder option" where
  "emit_step c (EmitBegin r) s =
     (case rs_gates s (rec_run_id r) of
        None \<Rightarrow> Some (goto c (EmitDone r (Inl RecordNotAccepted)) s)
      | Some _ \<Rightarrow> map_option (goto c (EmitRunAdmitted r)) (acquire_run c (rec_run_id r) s))"
| "emit_step c (EmitRunAdmitted r) s =
     (case acquire c s of
        None \<Rightarrow> None
      | Some s' \<Rightarrow>
          if rs_status s' \<noteq> WriterRunning
          then Some (goto c (EmitDone r (Inl (writer_error s'))) (release_run (rec_run_id r) (release s')))
          else if rs_gates s' (rec_run_id r) \<noteq> Some GateActive
          then Some (goto c (EmitDone r (Inl RecordNotAccepted)) (release_run (rec_run_id r) (release s')))
          else Some (goto c (EmitSending r) s'))"
| "emit_step c (EmitSending r) s =
     (case send_command (CmdRecord r) s of
        None \<Rightarrow> None
      | Some (Inl _) \<Rightarrow>
          Some (goto c (EmitDone r (Inl (writer_error s))) (release (release_run (rec_run_id r) s)))
      | Some (Inr s') \<Rightarrow>
          Some (goto c (EmitDone r (Inr ())) (release (release_run (rec_run_id r)
            (s'\<lparr>rs_accepted := (rs_accepted s')(rec_run_id r := rs_accepted s' (rec_run_id r) @ [r])\<rparr>)))))"
| "emit_step c _ s = None"

fun finish_step :: "nat \<Rightarrow> 'ev client \<Rightarrow> ('s, 'ev) recorder \<Rightarrow> ('s, 'ev) recorder option" where
  "finish_step c (FinishBegin r) s =
     (case rs_gates s r of
        None \<Rightarrow> Some (goto c (FinishDone r (Inl RunFinalizationFailed)) s)
      | Some _ \<Rightarrow> map_option (goto c (FinishRunAdmitted r)) (acquire_run c r s))"
| "finish_step c (FinishRunAdmitted r) s =
     (case rs_gates s r of
        Some GateActive \<Rightarrow> Some (goto c (FinishActive r) s)
      | Some GateFinishing \<Rightarrow> Some (goto c (FinishWatching r) (release_run r s))
      | Some GateFinished \<Rightarrow> Some (goto c (FinishDone r (Inr ())) (release_run r s))
      | _ \<Rightarrow> Some (goto c (FinishDone r (Inl RunFinalizationFailed)) (release_run r s)))"
| "finish_step c (FinishActive r) s =
     (case acquire c s of
        None \<Rightarrow> None
      | Some s' \<Rightarrow>
          if rs_status s' \<noteq> WriterRunning
          then Some (goto c (FinishDone r (Inl (writer_error s')))
                 (release_run r (release (gate_finish r (writer_error s') s'))))
          else Some (goto c (FinishReserving r) s'))"
| "finish_step c (FinishReserving r) s =
     (case new_token s of
        (t, s1) \<Rightarrow>
          (case send_command (CmdFinishRun r t) (gate_complete r GateFinishing s1) of
             None \<Rightarrow> None
           | Some (Inl _) \<Rightarrow>
               Some (goto c (FinishDone r (Inl (writer_error s)))
                 (release_run r (release (gate_finish r (writer_error s) s))))
           | Some (Inr s') \<Rightarrow> Some (goto c (FinishAwaiting r t) (release s'))))"
| "finish_step c (FinishAwaiting r t) s =
     (case await_reply t s of
        None \<Rightarrow> None
      | Some (Inr (SinkReply x)) \<Rightarrow> Some (goto c (FinishDone r x) (release_run r s))
      | Some (Inr (RecorderReply _)) \<Rightarrow> None
      | Some (Inl _) \<Rightarrow>
          map_option (\<lambda>g. goto c (FinishDone r (finish_state_result g)) (release_run r s)) (rs_gates s r))"
| "finish_step c (FinishWatching r) s =
     (case rs_gates s r of
        None \<Rightarrow> None
      | Some g \<Rightarrow>
          if g = GateFinishing then None else Some (goto c (FinishDone r (finish_state_result g)) s))"
| "finish_step c _ s = None"

subsection \<open>The recorder operations\<close>

fun create_step :: "nat \<Rightarrow> 'ev client \<Rightarrow> ('s, 'ev) recorder \<Rightarrow> ('s, 'ev) recorder option" where
  "create_step c (CreateBegin run) s =
     (case acquire c s of
        None \<Rightarrow> None
      | Some s' \<Rightarrow>
          if rs_status s' = WriterRunning then Some (goto c (CreateSending run) s')
          else Some (goto c (CreateDone (Inl ShutdownCommand)) (release s')))"
| "create_step c (CreateSending run) s =
     (case new_token s of
        (t, s1) \<Rightarrow>
          (case send_command (CmdCreateRun run t) s1 of
             None \<Rightarrow> None
           | Some (Inl _) \<Rightarrow> Some (goto c (CreateDone (Inl ShutdownCommand)) (release s))
           | Some (Inr s') \<Rightarrow> Some (goto c (CreateAwaiting t) (release s'))))"
| "create_step c (CreateAwaiting t) s =
     (case await_reply t s of
        Some (Inr (RecorderReply x)) \<Rightarrow> Some (goto c (CreateDone x) s)
      | Some (Inl _) \<Rightarrow> Some (goto c (CreateDone (Inl WriterEnded)) s)
      | _ \<Rightarrow> None)"
| "create_step c _ s = None"

fun complete_step :: "nat \<Rightarrow> 'ev client \<Rightarrow> ('s, 'ev) recorder \<Rightarrow> ('s, 'ev) recorder option" where
  "complete_step c (CompleteBegin x) s =
     (case rs_gates s (rc_run_id x) of
        None \<Rightarrow> Some (goto c (CompleteDone (Inl RunNotRegistered)) s)
      | Some g \<Rightarrow>
          if g \<noteq> GateFinished then Some (goto c (CompleteDone (Inl RunNotFinalized)) s)
          else Some (goto c (CompleteAdmitting x) s))"
| "complete_step c (CompleteAdmitting x) s =
     (case acquire c s of
        None \<Rightarrow> None
      | Some s' \<Rightarrow>
          if rs_status s' = WriterRunning then Some (goto c (CompleteSending x) s')
          else Some (goto c (CompleteDone (Inl ShutdownCommand)) (release s')))"
| "complete_step c (CompleteSending x) s =
     (case new_token s of
        (t, s1) \<Rightarrow>
          (case send_command (CmdCompleteRun x t) s1 of
             None \<Rightarrow> None
           | Some (Inl _) \<Rightarrow> Some (goto c (CompleteDone (Inl ShutdownCommand)) (release s))
           | Some (Inr s') \<Rightarrow> Some (goto c (CompleteAwaiting t) (release s'))))"
| "complete_step c (CompleteAwaiting t) s =
     (case await_reply t s of
        Some (Inr (RecorderReply x)) \<Rightarrow> Some (goto c (CompleteDone x) s)
      | Some (Inl _) \<Rightarrow> Some (goto c (CompleteDone (Inl WriterEnded)) s)
      | _ \<Rightarrow> None)"
| "complete_step c _ s = None"

text \<open>\<open>shutdown\<close>: send the last command, wait for its reply, then for the task itself.\<close>

fun shutdown_result :: "recorder_error + unit \<Rightarrow> (recorder_error + unit) option \<Rightarrow> bool \<Rightarrow> recorder_error + unit" where
  "shutdown_result (Inl e) ack send_failed = Inl e"
| "shutdown_result (Inr _) ack True = Inl ShutdownCommand"
| "shutdown_result (Inr _) (Some x) False = x"
| "shutdown_result (Inr _) None False = Inl WriterEnded"

fun shutdown_step :: "nat \<Rightarrow> 'ev client \<Rightarrow> ('s, 'ev) recorder \<Rightarrow> ('s, 'ev) recorder option" where
  "shutdown_step c ShutdownBegin s =
     (case acquire c s of
        None \<Rightarrow> None
      | Some s' \<Rightarrow>
          if rs_status s' = WriterRunning then Some (goto c ShutdownReserving s')
          else Some (goto c (ShutdownJoining None False) (release s')))"
| "shutdown_step c ShutdownReserving s =
     (case new_token s of
        (t, s1) \<Rightarrow>
          (case send_command (CmdShutdown t) s1 of
             None \<Rightarrow> None
           | Some (Inl _) \<Rightarrow> Some (goto c (ShutdownJoining None True) (release s))
           | Some (Inr s') \<Rightarrow>
               if rs_status s = WriterRunning
               then Some (goto c (ShutdownAwaiting t) (release (s'\<lparr>rs_status := WriterClosing\<rparr>)))
               else Some (goto c (ShutdownJoining None False) (release s))))"
| "shutdown_step c (ShutdownAwaiting t) s =
     (case await_reply t s of
        Some (Inr (RecorderReply x)) \<Rightarrow> Some (goto c (ShutdownJoining (Some x) False) s)
      | Some (Inl _) \<Rightarrow> Some (goto c (ShutdownJoining None False) s)
      | _ \<Rightarrow> None)"
| "shutdown_step c (ShutdownJoining ack send_failed) s =
     map_option (\<lambda>res. goto c (ShutdownDone (shutdown_result res ack send_failed)) s) (rs_joined s)"
| "shutdown_step c _ s = None"

text \<open>Dropping an operation at a suspension point gives back the permits it holds.\<close>

definition drop_client :: "nat \<Rightarrow> ('s, 'ev) recorder \<Rightarrow> ('s, 'ev) recorder" where
  "drop_client c s =
     goto c Idle
       (case rs_clients s c of
          EmitRunAdmitted r \<Rightarrow> release_run (rec_run_id r) s
        | EmitSending r \<Rightarrow> release (release_run (rec_run_id r) s)
        | FinishRunAdmitted r \<Rightarrow> release_run r s
        | FinishActive r \<Rightarrow> release_run r s
        | FinishReserving r \<Rightarrow> release (release_run r s)
        | FinishAwaiting r _ \<Rightarrow> release_run r s
        | CreateSending _ \<Rightarrow> release s
        | CompleteSending _ \<Rightarrow> release s
        | ShutdownReserving \<Rightarrow> release s
        | _ \<Rightarrow> s)"

fun operation_begins :: "'ev client \<Rightarrow> bool" where
  "operation_begins (EmitBegin _) = True"
| "operation_begins (FinishBegin _) = True"
| "operation_begins (CreateBegin _) = True"
| "operation_begins (CompleteBegin _) = True"
| "operation_begins ShutdownBegin = True"
| "operation_begins _ = False"

subsection \<open>The writer\<close>

definition on_hub :: "('ev live_hub \<Rightarrow> 'ev live_hub) \<Rightarrow> ('s, 'ev) recorder \<Rightarrow> ('s, 'ev) recorder" where
  "on_hub f s = s\<lparr>rs_hub := map_option f (rs_hub s)\<rparr>"

definition close_live_runs :: "('s, 'ev) recorder \<Rightarrow> ('s, 'ev) recorder" where
  "close_live_runs s =
     on_hub (\<lambda>h. h\<lparr>lh_runs := (\<lambda>r. if rs_gates s r \<noteq> None then None else lh_runs h r)\<rparr>) s"

definition create_run_for_writer ::
  "('s, 'ev) store_ops \<Rightarrow> expl_run \<Rightarrow> ('s, 'ev) recorder \<Rightarrow> (recorder_error + unit) \<times> ('s, 'ev) recorder" where
  "create_run_for_writer ops run s =
     (if rs_gates s (run_run_id run) \<noteq> None then (Inl RunAlreadyRegistered, s)
      else
        case so_create ops run (rs_store s) of
          (Inl e, store') \<Rightarrow> (Inl (StoreFailed OpCreateRun e), s\<lparr>rs_store := store'\<rparr>)
        | (Inr _, store') \<Rightarrow>
            (Inr (), gate_complete (run_run_id run) GateActive
               (on_hub (hub_register_run (run_run_id run)) (s\<lparr>rs_store := store'\<rparr>))))"

definition persist_record ::
  "('s, 'ev) store_ops \<Rightarrow> 'ev expl_record \<Rightarrow> ('s, 'ev) recorder \<Rightarrow> (recorder_error + unit) \<times> ('s, 'ev) recorder" where
  "persist_record ops r s =
     (let run = rec_run_id r in
      if rs_gates s run = None then (Inl RunNotRegistered, s)
      else if run \<in> rs_finished s then (Inl RecordAfterFinish, s)
      else
        let current = (case rs_sequences s run of None \<Rightarrow> 0 | Some n \<Rightarrow> n) in
        case u64_checked_add current 1 of
          None \<Rightarrow> (Inl RecorderSequenceOverflow, s)
        | Some sequence \<Rightarrow>
            (case envelope_new sequence r of
               Inl e \<Rightarrow> (Inl (EnvelopeInvalid e), s)
             | Inr envelope \<Rightarrow>
                 (case so_append ops [envelope] (rs_store s) of
                    (Inl e, store') \<Rightarrow> (Inl (StoreFailed OpAppendEvents e), s\<lparr>rs_store := store'\<rparr>)
                  | (Inr _, store') \<Rightarrow>
                      (Inr (), on_hub (hub_publish envelope)
                         (s\<lparr>rs_store := store', rs_sequences := (rs_sequences s)(run \<mapsto> sequence)\<rparr>)))))"

definition finish_run_for_writer :: "run_id \<Rightarrow> ('s, 'ev) recorder \<Rightarrow> (sink_error + unit) \<times> ('s, 'ev) recorder" where
  "finish_run_for_writer r s =
     (if rs_gates s r \<noteq> Some GateFinishing then (Inl RunFinalizationFailed, s)
      else (Inr (), on_hub (hub_close_run r)
              (gate_complete r GateFinished (s\<lparr>rs_finished := insert r (rs_finished s)\<rparr>))))"

definition complete_run_for_writer ::
  "('s, 'ev) store_ops \<Rightarrow> run_completion \<Rightarrow> ('s, 'ev) recorder \<Rightarrow> (recorder_error + unit) \<times> ('s, 'ev) recorder" where
  "complete_run_for_writer ops c s =
     (if rc_run_id c \<notin> rs_finished s then (Inl RunNotFinalized, s)
      else
        case so_complete ops c (rs_store s) of
          (Inl e, store') \<Rightarrow> (Inl (StoreFailed OpCompleteRun e), s\<lparr>rs_store := store'\<rparr>)
        | (Inr _, store') \<Rightarrow> (Inr (), s\<lparr>rs_store := store'\<rparr>))"

text \<open>\<open>run_writer\<close> returns: its receiver is dropped with what is left in the queue.\<close>

definition writer_return :: "recorder_error + unit \<Rightarrow> ('s, 'ev) recorder \<Rightarrow> ('s, 'ev) recorder" where
  "writer_return res s = s\<lparr>rs_exit := Some res, rs_queue := []\<rparr>"

definition mark_writer_failed :: "('s, 'ev) recorder \<Rightarrow> ('s, 'ev) recorder" where
  "mark_writer_failed s = s\<lparr>rs_status := WriterDead\<rparr>"

fun run_command ::
  "('s, 'ev) store_ops \<Rightarrow> 'ev writer_command \<Rightarrow> ('s, 'ev) recorder \<Rightarrow> ('s, 'ev) recorder" where
  "run_command ops (CmdCreateRun run t) s =
     (case create_run_for_writer ops run s of (x, s') \<Rightarrow> respond t (RecorderReply x) s')"
| "run_command ops (CmdRecord r) s =
     (case persist_record ops r s of
        (Inl e, s') \<Rightarrow> writer_return (Inl e) (mark_writer_failed s')
      | (Inr _, s') \<Rightarrow> s')"
| "run_command ops (CmdFinishRun r t) s =
     (case finish_run_for_writer r s of (x, s') \<Rightarrow> respond t (SinkReply x) s')"
| "run_command ops (CmdCompleteRun c t) s =
     (case complete_run_for_writer ops c s of (x, s') \<Rightarrow> respond t (RecorderReply x) s')"
| "run_command ops (CmdShutdown t) s =
     writer_return (Inr ()) (respond t (RecorderReply (Inr ())) ((close_live_runs s)\<lparr>rs_status := WriterClosed\<rparr>))"

fun writer_step :: "('s, 'ev) store_ops \<Rightarrow> ('s, 'ev) recorder \<Rightarrow> ('s, 'ev) recorder option" where
  "writer_step ops s =
     (if \<not> receiving s then None
      else case rs_queue s of
        [] \<Rightarrow> None
      | cmd # rest \<Rightarrow> Some (run_command ops cmd (s\<lparr>rs_queue := rest\<rparr>)))"

text \<open>The receiver ends once every sender is gone and the queue is empty; the model lets this happen
  whenever the queue is empty.\<close>

definition writer_disconnected :: "('s, 'ev) recorder \<Rightarrow> ('s, 'ev) recorder option" where
  "writer_disconnected s =
     (if receiving s \<and> rs_queue s = [] then Some (writer_return (Inl WriterEnded) (mark_writer_failed s))
      else None)"

text \<open>Dropping the status guard, and with it the end of the task.\<close>

definition guard_drop :: "('s, 'ev) recorder \<Rightarrow> ('s, 'ev) recorder" where
  "guard_drop s =
     (if rs_status s = WriterClosed then s
      else close_live_runs
        (s\<lparr>rs_status := WriterDead,
           rs_gates := (\<lambda>r. if rs_gates s r = Some GateFinishing then Some (failed_gate WriterFailed)
                            else rs_gates s r)\<rparr>))"

definition writer_end :: "('s, 'ev) recorder \<Rightarrow> ('s, 'ev) recorder option" where
  "writer_end s =
     (case rs_exit s of
        Some res \<Rightarrow> if rs_joined s = None then Some ((guard_drop s)\<lparr>rs_joined := Some res\<rparr>) else None
      | None \<Rightarrow> None)"

inductive recorder_step :: "('s, 'ev) store_ops \<Rightarrow> ('s, 'ev) recorder \<Rightarrow> ('s, 'ev) recorder \<Rightarrow> bool"
  for ops where
  begin_operation:
    "rs_clients s c = Idle \<Longrightarrow> operation_begins pc \<Longrightarrow> recorder_step ops s (goto c pc s)"
| emit: "emit_step c (rs_clients s c) s = Some s' \<Longrightarrow> recorder_step ops s s'"
| finish: "finish_step c (rs_clients s c) s = Some s' \<Longrightarrow> recorder_step ops s s'"
| create: "create_step c (rs_clients s c) s = Some s' \<Longrightarrow> recorder_step ops s s'"
| complete: "complete_step c (rs_clients s c) s = Some s' \<Longrightarrow> recorder_step ops s s'"
| shutdown: "shutdown_step c (rs_clients s c) s = Some s' \<Longrightarrow> recorder_step ops s s'"
| drop_operation: "recorder_step ops s (drop_client c s)"
| writer: "writer_step ops s = Some s' \<Longrightarrow> recorder_step ops s s'"
| disconnected: "writer_disconnected s = Some s' \<Longrightarrow> recorder_step ops s s'"
| ended: "writer_end s = Some s' \<Longrightarrow> recorder_step ops s s'"

end
