(* ===== verification/Expl_Recorder_Laws.thy ===== *)
theory Expl_Recorder_Laws
  imports Expl_Recorder
begin

text \<open>
  Correctness of the recorder, proved once for any store meeting \<open>run_history_store\<close> and used
  for the in-memory one: an invariant relating, for every registered run, the records accepted
  by \<open>emit\<close>, the stored log, the command queue, the gate, the sequence counter and the live
  channel; each client operation and each writer command keeps it.
\<close>

subsection \<open>Queues\<close>

fun queued :: "run_id \<Rightarrow> 'ev writer_command list \<Rightarrow> 'ev expl_record list" where
  "queued r [] = []"
| "queued r (CmdRecord x # q) = (if rec_run_id x = r then x # queued r q else queued r q)"
| "queued r (_ # q) = queued r q"

definition finish_queued :: "run_id \<Rightarrow> 'ev writer_command list \<Rightarrow> bool" where
  "finish_queued r q \<longleftrightarrow> (\<exists>t. CmdFinishRun r t \<in> set q)"

text \<open>Nothing of a run follows its finish command; nothing at all follows a shutdown command.\<close>

fun finish_last :: "run_id \<Rightarrow> 'ev writer_command list \<Rightarrow> bool" where
  "finish_last r [] = True"
| "finish_last r (CmdFinishRun x t # q) =
     ((x = r \<longrightarrow> queued r q = [] \<and> \<not> finish_queued r q) \<and> finish_last r q)"
| "finish_last r (_ # q) = finish_last r q"

fun shutdown_last :: "'ev writer_command list \<Rightarrow> bool" where
  "shutdown_last [] = True"
| "shutdown_last (CmdShutdown t # q) = (q = [])"
| "shutdown_last (_ # q) = shutdown_last q"

fun command_token :: "'ev writer_command \<Rightarrow> nat option" where
  "command_token (CmdCreateRun _ t) = Some t"
| "command_token (CmdRecord _) = None"
| "command_token (CmdFinishRun _ t) = Some t"
| "command_token (CmdCompleteRun _ t) = Some t"
| "command_token (CmdShutdown t) = Some t"

fun is_shutdown :: "'ev writer_command \<Rightarrow> bool" where
  "is_shutdown (CmdShutdown _) = True"
| "is_shutdown _ = False"

lemma queued_append [simp]: "queued r (p @ q) = queued r p @ queued r q"
  by (induction r p rule: queued.induct) auto

lemma finish_queued_Nil [simp]: "\<not> finish_queued r []"
  by (simp add: finish_queued_def)

lemma finish_queued_Cons:
  "finish_queued r (cmd # q) \<longleftrightarrow> (\<exists>t. cmd = CmdFinishRun r t) \<or> finish_queued r q"
  by (auto simp: finish_queued_def)

lemma finish_queued_append [simp]: "finish_queued r (p @ q) \<longleftrightarrow> finish_queued r p \<or> finish_queued r q"
  by (auto simp: finish_queued_def)

lemma finish_last_snoc:
  "finish_last r (q @ [cmd]) \<longleftrightarrow>
   finish_last r q \<and> (finish_queued r q \<longrightarrow> queued r [cmd] = [] \<and> \<not> finish_queued r [cmd])"
  by (induction r q rule: finish_last.induct) (cases cmd; auto simp: finish_queued_Cons)+

lemma finish_last_tl: "finish_last r (cmd # q) \<Longrightarrow> finish_last r q"
  by (cases cmd) auto

lemma shutdown_last_snoc: "\<forall>x \<in> set q. \<not> is_shutdown x \<Longrightarrow> shutdown_last (q @ [cmd])"
  by (induction q rule: shutdown_last.induct) (cases cmd; auto)+

lemma shutdown_last_Cons: "shutdown_last (cmd # q) \<longleftrightarrow> (is_shutdown cmd \<longrightarrow> q = []) \<and> (\<not> is_shutdown cmd \<longrightarrow> shutdown_last q)"
  by (cases cmd) auto

subsection \<open>The invariant\<close>

definition seq_nat :: "u64 option \<Rightarrow> nat" where
  "seq_nat n = (case n of None \<Rightarrow> 0 | Some k \<Rightarrow> unat k)"

definition run_ok ::
  "run_id \<Rightarrow> 'ev envelope list option \<Rightarrow> gate_state option \<Rightarrow> nat \<Rightarrow> bool \<Rightarrow> 'ev live_run_channel option
   \<Rightarrow> (recorder_error + unit) option \<Rightarrow> 'ev expl_record list \<Rightarrow> 'ev writer_command list \<Rightarrow> bool" where
  "run_ok r log gate n finished channel exit accepted q \<longleftrightarrow>
     (case gate of
        None \<Rightarrow> accepted = [] \<and> queued r q = [] \<and> \<not> finish_queued r q \<and> \<not> finished \<and> n = 0 \<and> channel = None
      | Some g \<Rightarrow>
          (\<exists>l. log = Some l \<and> n = length l \<and> (\<forall>ch. channel = Some ch \<longrightarrow> lc_sent ch = l)
             \<and> (exit = None \<longrightarrow> accepted = map env_record l @ queued r q)
             \<and> prefix (map env_record l) accepted
             \<and> (exit = Some (Inr ()) \<or> g = GateFinished \<longrightarrow> accepted = map env_record l)
             \<and> (finished \<longleftrightarrow> g = GateFinished)
             \<and> (finish_queued r q \<longrightarrow> g = GateFinishing)
             \<and> (g = GateFinished \<longrightarrow> queued r q = [])
             \<and> finish_last r q))"

fun holds_admission :: "'ev client \<Rightarrow> bool" where
  "holds_admission (EmitSending _) = True"
| "holds_admission (FinishReserving _) = True"
| "holds_admission (CreateSending _) = True"
| "holds_admission (CompleteSending _) = True"
| "holds_admission ShutdownReserving = True"
| "holds_admission _ = False"

fun holds_run :: "'ev client \<Rightarrow> run_id option" where
  "holds_run (EmitRunAdmitted x) = Some (rec_run_id x)"
| "holds_run (EmitSending x) = Some (rec_run_id x)"
| "holds_run (FinishRunAdmitted r) = Some r"
| "holds_run (FinishActive r) = Some r"
| "holds_run (FinishReserving r) = Some r"
| "holds_run (FinishAwaiting r _) = Some r"
| "holds_run _ = None"

fun saw_active :: "'ev client \<Rightarrow> run_id option" where
  "saw_active (EmitSending x) = Some (rec_run_id x)"
| "saw_active (FinishActive r) = Some r"
| "saw_active (FinishReserving r) = Some r"
| "saw_active _ = None"

fun claims_finished :: "'ev client \<Rightarrow> run_id option" where
  "claims_finished (FinishDone r (Inr _)) = Some r"
| "claims_finished _ = None"

definition client_ok :: "nat \<Rightarrow> 'ev client \<Rightarrow> ('s, 'ev) recorder \<Rightarrow> bool" where
  "client_ok c pc s \<longleftrightarrow>
     (holds_admission pc \<longrightarrow> rs_admission s = Some c \<and> (receiving s \<longrightarrow> rs_status s = WriterRunning))
     \<and> (\<forall>r. holds_run pc = Some r \<longrightarrow> rs_run_admission s r = Some c \<and> rs_gates s r \<noteq> None)
     \<and> (\<forall>r. saw_active pc = Some r \<longrightarrow> rs_gates s r = Some GateActive)
     \<and> (\<forall>r. claims_finished pc = Some r \<longrightarrow> rs_gates s r = Some GateFinished)
     \<and> (\<forall>r t. pc = FinishAwaiting r t \<longrightarrow>
           t < rs_next_token s
           \<and> (\<forall>cmd \<in> set (rs_queue s). command_token cmd = Some t \<longrightarrow> cmd = CmdFinishRun r t)
           \<and> (rs_replies s t = Some (SinkReply (Inr ())) \<longrightarrow> rs_gates s r = Some GateFinished))
     \<and> (pc = ShutdownDone (Inr ()) \<longrightarrow> rs_exit s = Some (Inr ()))"

definition glob_ok :: "('s, 'ev) recorder \<Rightarrow> bool" where
  "glob_ok s \<longleftrightarrow>
     (rs_status s = WriterRunning \<longrightarrow> (\<forall>cmd \<in> set (rs_queue s). \<not> is_shutdown cmd))
     \<and> shutdown_last (rs_queue s)
     \<and> (rs_exit s \<noteq> None \<longleftrightarrow> rs_status s \<in> {WriterClosed, WriterDead})
     \<and> (rs_exit s \<noteq> None \<longrightarrow> rs_queue s = [])
     \<and> (\<forall>res. rs_joined s = Some res \<longrightarrow> rs_exit s = Some res)
     \<and> (\<forall>cmd \<in> set (rs_queue s). \<forall>t. command_token cmd = Some t \<longrightarrow> t < rs_next_token s)
     \<and> (\<forall>t. rs_replies s t \<noteq> None \<longrightarrow> t < rs_next_token s)"

context run_history_store
begin

definition log_at :: "('s, 'ev) recorder \<Rightarrow> run_id \<Rightarrow> 'ev envelope list option" where
  "log_at s r = map_option snd (hist (rs_store s) r)"

definition channel_at :: "('s, 'ev) recorder \<Rightarrow> run_id \<Rightarrow> 'ev live_run_channel option" where
  "channel_at s r = Option.bind (rs_hub s) (\<lambda>h. lh_runs h r)"

definition run_inv :: "('s, 'ev) recorder \<Rightarrow> run_id \<Rightarrow> bool" where
  "run_inv s r \<longleftrightarrow>
     run_ok r (log_at s r) (rs_gates s r) (seq_nat (rs_sequences s r)) (r \<in> rs_finished s) (channel_at s r)
       (rs_exit s) (rs_accepted s r) (rs_queue s)"

definition recorder_inv :: "('s, 'ev) recorder \<Rightarrow> bool" where
  "recorder_inv s \<longleftrightarrow>
     inv (rs_store s) \<and> glob_ok s \<and> (\<forall>r. run_inv s r) \<and> (\<forall>c. client_ok c (rs_clients s c) s)"

end

lemmas client_prims =
  goto_def acquire_def release_def acquire_run_def release_run_def gate_complete_def gate_finish_def
  new_token_def send_command_def await_reply_def

context run_history_store
begin

lemma run_inv_frame:
  "run_inv s r \<Longrightarrow> rs_store s' = rs_store s \<Longrightarrow> rs_gates s' = rs_gates s \<Longrightarrow> rs_sequences s' = rs_sequences s
   \<Longrightarrow> rs_finished s' = rs_finished s \<Longrightarrow> rs_hub s' = rs_hub s \<Longrightarrow> rs_exit s' = rs_exit s
   \<Longrightarrow> rs_accepted s' = rs_accepted s \<Longrightarrow> rs_queue s' = rs_queue s \<Longrightarrow> run_inv s' r"
  by (simp add: run_inv_def log_at_def channel_at_def)

end

text \<open>What a step of client \<open>c\<close> or of the writer may do to what the other clients rely on.\<close>

definition evolves :: "nat \<Rightarrow> ('s, 'ev) recorder \<Rightarrow> ('s, 'ev) recorder \<Rightarrow> bool" where
  "evolves c s s' \<longleftrightarrow>
     (rs_admission s' = rs_admission s \<or> rs_admission s = None \<or> rs_admission s = Some c)
     \<and> (\<forall>r. rs_run_admission s' r = rs_run_admission s r \<or> rs_run_admission s r = None
            \<or> rs_run_admission s r = Some c)
     \<and> (receiving s' \<longrightarrow> receiving s \<and> (rs_status s' = rs_status s \<or> rs_admission s = Some c))
     \<and> (\<forall>r. rs_gates s r \<noteq> None \<longrightarrow> rs_gates s' r \<noteq> None)
     \<and> (\<forall>r. rs_gates s r = Some GateActive \<longrightarrow> rs_gates s' r = Some GateActive \<or> rs_run_admission s r = Some c)
     \<and> (\<forall>r. rs_gates s r = Some GateFinished \<longrightarrow> rs_gates s' r = Some GateFinished)
     \<and> rs_next_token s \<le> rs_next_token s'
     \<and> (\<forall>cmd \<in> set (rs_queue s'). cmd \<in> set (rs_queue s)
            \<or> (\<forall>t. command_token cmd = Some t \<longrightarrow> rs_next_token s \<le> t))
     \<and> (\<forall>t. rs_replies s' t = Some (SinkReply (Inr ())) \<longrightarrow>
            rs_replies s t = Some (SinkReply (Inr ()))
            \<or> (\<exists>r. CmdFinishRun r t \<in> set (rs_queue s) \<and> rs_gates s' r = Some GateFinished))
     \<and> (rs_exit s = Some (Inr ()) \<longrightarrow> rs_exit s' = Some (Inr ()))"

lemma client_ok_evolves:
  assumes ok: "client_ok d pc s" and ev: "evolves c s s'" and "d \<noteq> c"
  shows "client_ok d pc s'"
proof -
  have adm: "rs_admission s' = Some d" if "rs_admission s = Some d"
    using that ev \<open>d \<noteq> c\<close> by (auto simp: evolves_def)
  have radm: "rs_run_admission s' r = Some d" if "rs_run_admission s r = Some d" for r
    using that ev \<open>d \<noteq> c\<close> unfolding evolves_def by (metis option.distinct(1) option.inject)
  have st: "receiving s' \<Longrightarrow> rs_admission s = Some d \<Longrightarrow> receiving s \<and> rs_status s' = rs_status s"
    using ev \<open>d \<noteq> c\<close> by (auto simp: evolves_def)
  have gates: "\<And>r. rs_gates s r \<noteq> None \<Longrightarrow> rs_gates s' r \<noteq> None"
      "\<And>r. rs_gates s r = Some GateFinished \<Longrightarrow> rs_gates s' r = Some GateFinished"
      "\<And>r. rs_gates s r = Some GateActive \<Longrightarrow> rs_run_admission s r = Some d \<Longrightarrow> rs_gates s' r = Some GateActive"
    using ev \<open>d \<noteq> c\<close> by (auto simp: evolves_def)
  have sa: "holds_run pc = Some r" if "saw_active pc = Some r" for r
    using that by (cases pc) auto
  have tok: "t < rs_next_token s'
           \<and> (\<forall>cmd \<in> set (rs_queue s'). command_token cmd = Some t \<longrightarrow> cmd = CmdFinishRun r t)
           \<and> (rs_replies s' t = Some (SinkReply (Inr ())) \<longrightarrow> rs_gates s' r = Some GateFinished)"
    if "pc = FinishAwaiting r t" for r t
  proof (intro conjI ballI impI)
    have old: "t < rs_next_token s"
        "\<And>cmd. cmd \<in> set (rs_queue s) \<Longrightarrow> command_token cmd = Some t \<Longrightarrow> cmd = CmdFinishRun r t"
        "rs_replies s t = Some (SinkReply (Inr ())) \<Longrightarrow> rs_gates s r = Some GateFinished"
      using ok that by (auto simp: client_ok_def)
    show "t < rs_next_token s'" using ev old(1) by (auto simp: evolves_def)
    show "cmd = CmdFinishRun r t" if "cmd \<in> set (rs_queue s')" "command_token cmd = Some t" for cmd
      using ev old(1,2) that unfolding evolves_def by (meson leD)
    assume "rs_replies s' t = Some (SinkReply (Inr ()))"
    with ev consider "rs_replies s t = Some (SinkReply (Inr ()))"
      | x where "CmdFinishRun x t \<in> set (rs_queue s)" "rs_gates s' x = Some GateFinished"
      unfolding evolves_def by meson
    then show "rs_gates s' r = Some GateFinished"
    proof cases
      case 1
      then show ?thesis using old(3) gates(2) by blast
    next
      case 2
      then have "CmdFinishRun x t = CmdFinishRun r t" using old(2) [of "CmdFinishRun x t"] by simp
      with 2(2) show ?thesis by simp
    qed
  qed
  have ex: "rs_exit s = Some (Inr ()) \<longrightarrow> rs_exit s' = Some (Inr ())"
    using ev by (auto simp: evolves_def)
  have "holds_admission pc \<longrightarrow> rs_admission s' = Some d \<and> (receiving s' \<longrightarrow> rs_status s' = WriterRunning)"
    using ok adm st by (simp add: client_ok_def)
  moreover have "\<forall>r. holds_run pc = Some r \<longrightarrow> rs_run_admission s' r = Some d \<and> rs_gates s' r \<noteq> None"
    using ok radm gates(1) by (simp add: client_ok_def)
  moreover have "\<forall>r. saw_active pc = Some r \<longrightarrow> rs_gates s' r = Some GateActive"
    using ok sa gates(3) by (simp add: client_ok_def)
  moreover have "\<forall>r. claims_finished pc = Some r \<longrightarrow> rs_gates s' r = Some GateFinished"
    using ok gates(2) by (simp add: client_ok_def)
  moreover have "pc = ShutdownDone (Inr ()) \<longrightarrow> rs_exit s' = Some (Inr ())"
    using ok ex by (simp add: client_ok_def)
  ultimately show ?thesis
    using tok unfolding client_ok_def by blast
qed

context run_history_store
begin

lemma recorder_inv_step:
  assumes "recorder_inv s" "evolves c s s'" "\<And>d. d \<noteq> c \<Longrightarrow> rs_clients s' d = rs_clients s d"
    and "client_ok c (rs_clients s' c) s'" "inv (rs_store s')" "glob_ok s'" "\<And>r. run_inv s' r"
  shows "recorder_inv s'"
  using assms client_ok_evolves [of _ _ s c s'] unfolding recorder_inv_def by metis

text \<open>A step that only moves its own client and permits.\<close>

lemma recorder_inv_move:
  assumes "recorder_inv s" "evolves c s s'" "\<And>d. d \<noteq> c \<Longrightarrow> rs_clients s' d = rs_clients s d"
    and "client_ok c (rs_clients s' c) s'"
    and "rs_store s' = rs_store s" "rs_gates s' = rs_gates s" "rs_sequences s' = rs_sequences s"
      "rs_finished s' = rs_finished s" "rs_hub s' = rs_hub s" "rs_exit s' = rs_exit s"
      "rs_accepted s' = rs_accepted s" "rs_queue s' = rs_queue s" "rs_status s' = rs_status s"
      "rs_joined s' = rs_joined s" "rs_next_token s' = rs_next_token s" "rs_replies s' = rs_replies s"
  shows "recorder_inv s'"
  by (rule recorder_inv_step [OF assms(1-4)])
     (use assms(1,5-) in \<open>auto simp: recorder_inv_def glob_ok_def intro: run_inv_frame\<close>)

lemma begin_inv:
  assumes "recorder_inv s" "rs_clients s c = Idle" "operation_begins pc"
  shows "recorder_inv (goto c pc s)"
proof -
  have "client_ok c pc (goto c pc s)" using assms(3) by (cases pc) (auto simp: client_ok_def)
  then show ?thesis
    by (intro recorder_inv_move [OF assms(1), of c]) (auto simp: goto_def evolves_def)
qed

lemma drop_inv: assumes "recorder_inv s" shows "recorder_inv (drop_client c s)"
proof -
  have "client_ok c (rs_clients s c) s" using assms by (simp add: recorder_inv_def)
  then show ?thesis
    by (intro recorder_inv_move [OF assms, of c])
       (auto simp: drop_client_def goto_def evolves_def client_ok_def release_def release_run_def
          split: client.splits)
qed

lemma send_run_inv:
  assumes "run_inv s r" "glob_ok s" "receiving s"
    and "queued r [cmd] = []" "\<not> finish_queued r [cmd]"
    and "rs_store s' = rs_store s" "rs_gates s' r = rs_gates s r" "rs_sequences s' = rs_sequences s"
      "rs_finished s' = rs_finished s" "rs_hub s' = rs_hub s" "rs_exit s' = rs_exit s"
      "rs_accepted s' r = rs_accepted s r" "rs_queue s' = rs_queue s @ [cmd]"
  shows "run_inv s' r"
  using assms by (auto simp: run_inv_def run_ok_def log_at_def channel_at_def finish_last_snoc split: option.splits)

lemma emit_inv:
  assumes inv: "recorder_inv s" and st: "emit_step c (rs_clients s c) s = Some s'"
  shows "recorder_inv s'"
proof (cases "rs_clients s c")
  case (EmitBegin x)
  with st show ?thesis
    by (intro recorder_inv_move [OF inv, of c])
       (auto simp: client_prims evolves_def client_ok_def split: option.splits if_splits)
next
  case (EmitRunAdmitted x)
  moreover have "client_ok c (rs_clients s c) s" using inv by (simp add: recorder_inv_def)
  ultimately show ?thesis using st
    by (intro recorder_inv_move [OF inv, of c])
       (auto simp: client_prims evolves_def client_ok_def split: option.splits if_splits)
next
  case (EmitSending x)
  have ok: "client_ok c (rs_clients s c) s" using inv by (simp add: recorder_inv_def)
  show ?thesis
  proof (cases "receiving s")
    case False
    with EmitSending ok st show ?thesis
      by (intro recorder_inv_move [OF inv, of c])
         (auto simp: client_prims evolves_def client_ok_def split: option.splits if_splits)
  next
    case True
    let ?r = "rec_run_id x"
    from True EmitSending st have room: "length (rs_queue s) < rs_capacity s"
      and s': "s' = goto c (EmitDone x (Inr ())) (release (release_run ?r
            (s\<lparr>rs_queue := rs_queue s @ [CmdRecord x],
               rs_accepted := (rs_accepted s)(?r := rs_accepted s ?r @ [x])\<rparr>)))"
      by (auto simp: send_command_def split: if_splits)
    have "run_inv s' r" for r
    proof (cases "r = ?r")
      case False
      have "run_inv s r" "glob_ok s" using inv by (auto simp: recorder_inv_def)
      with False True show ?thesis
        by (auto simp: s' client_prims finish_queued_def intro: send_run_inv [of s r "CmdRecord x"])
    next
      case same: True
      have "run_inv s ?r" using inv by (simp add: recorder_inv_def)
      with ok EmitSending True have "run_inv s' ?r"
        by (auto simp: s' client_prims run_inv_def run_ok_def log_at_def channel_at_def finish_last_snoc
            client_ok_def finish_queued_Cons)
      with same show ?thesis by simp
    qed
    then show ?thesis
      using inv ok EmitSending True
      by (intro recorder_inv_step [OF inv, of c])
         (auto simp: s' client_prims evolves_def client_ok_def recorder_inv_def glob_ok_def
            intro!: shutdown_last_snoc)
  qed
qed (use st in \<open>simp_all\<close>)

end

context run_history_store
begin

lemma client_ok_of: "recorder_inv s \<Longrightarrow> client_ok c (rs_clients s c) s"
  by (simp add: recorder_inv_def)

text \<open>A gate is failed only from the active state, with nothing of its run left to finish.\<close>

lemma fail_gate_run_inv:
  assumes "run_inv s r" "rs_gates s x = Some GateActive"
    and "rs_gates s' = (rs_gates s)(x \<mapsto> failed_gate e)"
    and "rs_store s' = rs_store s" "rs_sequences s' = rs_sequences s"
      "rs_finished s' = rs_finished s" "rs_hub s' = rs_hub s" "rs_exit s' = rs_exit s"
      "rs_accepted s' = rs_accepted s" "rs_queue s' = rs_queue s"
  shows "run_inv s' r"
proof -
  have "failed_gate e \<noteq> GateFinished" by (cases e) auto
  with assms show ?thesis
    by (cases "r = x") (auto simp: run_inv_def run_ok_def log_at_def channel_at_def)
qed

lemma fail_gate_inv:
  assumes inv: "recorder_inv s" and ok: "saw_active (rs_clients s c) = Some r"
    and s': "s' = goto c (FinishDone r (Inl x)) (release_run r (release (gate_finish r e s)))"
    and adm: "rs_admission s = None \<or> rs_admission s = Some c"
  shows "recorder_inv s'"
proof -
  have "holds_run (rs_clients s c) = Some r" using ok by (cases "rs_clients s c") auto
  with client_ok_of [OF inv, of c] ok
  have g: "rs_gates s r = Some GateActive" "rs_run_admission s r = Some c" by (auto simp: client_ok_def)
  have "run_inv s' k" for k
    using inv g by (intro fail_gate_run_inv [of s k r s' e]) (auto simp: s' client_prims recorder_inv_def)
  with g adm inv show ?thesis
    by (intro recorder_inv_step [OF inv, of c])
       (auto simp: s' client_prims evolves_def client_ok_def recorder_inv_def glob_ok_def)
qed

lemma finish_inv:
  assumes inv: "recorder_inv s" and st: "finish_step c (rs_clients s c) s = Some s'"
  shows "recorder_inv s'"
proof (cases "rs_clients s c")
  case (FinishBegin r)
  with st show ?thesis
    by (intro recorder_inv_move [OF inv, of c])
       (auto simp: client_prims evolves_def client_ok_def split: option.splits if_splits)
next
  case (FinishRunAdmitted r)
  with client_ok_of [OF inv, of c] st show ?thesis
    by (intro recorder_inv_move [OF inv, of c])
       (auto simp: client_prims evolves_def client_ok_def split: option.splits if_splits gate_state.splits)
next
  case (FinishActive r)
  show ?thesis
  proof (cases "rs_status s = WriterRunning")
    case True
    with FinishActive client_ok_of [OF inv, of c] st show ?thesis
      by (intro recorder_inv_move [OF inv, of c])
         (auto simp: client_prims evolves_def client_ok_def split: option.splits if_splits)
  next
    case False
    with FinishActive st have "rs_admission s = None"
      "s' = goto c (FinishDone r (Inl (writer_error s))) (release_run r (release (gate_finish r (writer_error s) s)))"
      by (auto simp: client_prims writer_error_def split: option.splits if_splits)
    with FinishActive show ?thesis by (intro fail_gate_inv [OF inv, of c r s']) auto
  qed
next
  case (FinishReserving r)
  note ok = client_ok_of [OF inv, of c]
  show ?thesis
  proof (cases "receiving s")
    case False
    with FinishReserving st have
      "s' = goto c (FinishDone r (Inl (writer_error s))) (release_run r (release (gate_finish r (writer_error s) s)))"
      by (auto simp: client_prims)
    with FinishReserving ok show ?thesis by (intro fail_gate_inv [OF inv, of c r s']) (auto simp: client_ok_def)
  next
    case True
    let ?t = "rs_next_token s"
    from True FinishReserving st
    have s': "s' = goto c (FinishAwaiting r ?t) (release ((gate_complete r GateFinishing
          (s\<lparr>rs_next_token := Suc ?t\<rparr>))\<lparr>rs_queue := rs_queue s @ [CmdFinishRun r ?t]\<rparr>))"
      by (auto simp: client_prims split: if_splits)
    have "run_inv s' k" for k
    proof (cases "k = r")
      case False
      have "run_inv s k" "glob_ok s" using inv by (auto simp: recorder_inv_def)
      with False True show ?thesis
        by (auto simp: s' client_prims finish_queued_def intro: send_run_inv [of s k "CmdFinishRun r ?t"])
    next
      case same: True
      have "run_inv s r" using inv by (simp add: recorder_inv_def)
      with ok FinishReserving True have "run_inv s' r"
        by (auto simp: s' client_prims run_inv_def run_ok_def log_at_def channel_at_def finish_last_snoc
            client_ok_def finish_queued_Cons)
      with same show ?thesis by simp
    qed
    then show ?thesis
      using inv ok FinishReserving True
      by (intro recorder_inv_step [OF inv, of c])
         (auto simp: s' client_prims evolves_def client_ok_def recorder_inv_def glob_ok_def
            intro!: shutdown_last_snoc)
  qed
next
  case (FinishAwaiting r t)
  note ok = client_ok_of [OF inv, of c]
  from FinishAwaiting st obtain x where s': "s' = goto c (FinishDone r x) (release_run r s)"
    and x: "rs_replies s t = Some (SinkReply x) \<or> (\<exists>g. rs_gates s r = Some g \<and> x = finish_state_result g)"
    by (auto simp: await_reply_def split: option.splits sum.splits reply.splits if_splits)
  have "rs_gates s r = Some GateFinished" if "x = Inr ()"
    using x
  proof
    assume "\<exists>g. rs_gates s r = Some g \<and> x = finish_state_result g"
    with that show ?thesis by (metis finish_state_result.elims sum.distinct(1))
  qed (use that FinishAwaiting ok in \<open>auto simp: client_ok_def\<close>)
  then show ?thesis using ok FinishAwaiting
    by (intro recorder_inv_move [OF inv, of c]; cases x)
       (auto simp: s' client_prims evolves_def client_ok_def)
next
  case (FinishWatching r)
  with st obtain g where g: "rs_gates s r = Some g"
    and s': "s' = goto c (FinishDone r (finish_state_result g)) s"
    by (auto split: option.splits if_splits)
  from g show ?thesis
    by (intro recorder_inv_move [OF inv, of c]; cases g)
       (auto simp: s' client_prims evolves_def client_ok_def)
qed (use st in \<open>simp_all\<close>)

text \<open>Sending a command that concerns no run.\<close>

lemma send_other_inv:
  assumes inv: "recorder_inv s" and hold: "holds_admission (rs_clients s c)" "receiving s"
    and s': "s' = goto c pc (release (s\<lparr>rs_next_token := Suc (rs_next_token s),
       rs_queue := rs_queue s @ [cmd], rs_status := status\<rparr>))"
    and cmd: "\<And>r. queued r [cmd] = []" "\<And>r. \<not> finish_queued r [cmd]" "command_token cmd = Some (rs_next_token s)"
    and st: "status = rs_status s \<and> \<not> is_shutdown cmd \<or> status = WriterClosing"
    and pc: "client_ok c pc (s\<lparr>rs_status := status\<rparr>)" "\<not> holds_admission pc" "holds_run pc = None" "claims_finished pc = None"
  shows "recorder_inv s'"
proof -
  from client_ok_of [OF inv, of c] hold
  have adm: "rs_admission s = Some c" "rs_status s = WriterRunning" by (auto simp: client_ok_def)
  have glob: "glob_ok s" using inv by (simp add: recorder_inv_def)
  have noshut: "\<forall>x \<in> set (rs_queue s). \<not> is_shutdown x" using glob adm by (simp add: glob_ok_def)
  have s'_simps: "rs_queue s' = rs_queue s @ [cmd]" "rs_status s' = status" "rs_next_token s' = Suc (rs_next_token s)"
    "rs_exit s' = rs_exit s" "rs_joined s' = rs_joined s" "rs_replies s' = rs_replies s" "rs_gates s' = rs_gates s"
    "rs_store s' = rs_store s" "rs_admission s' = None" "rs_run_admission s' = rs_run_admission s"
    by (simp_all add: s' client_prims)
  show ?thesis
  proof (rule recorder_inv_step [OF inv, of c])
    show "run_inv s' r" for r
    proof (rule send_run_inv [OF _ glob hold(2) cmd(1,2)])
      show "run_inv s r" using inv by (simp add: recorder_inv_def)
    qed (simp_all add: s' client_prims)
    show "evolves c s s'"
      using hold(2) adm cmd(3) by (auto simp: evolves_def s'_simps)
    show "glob_ok s'"
      using glob st hold(2) cmd(3) shutdown_last_snoc [OF noshut] noshut adm(2)
      by (auto simp: glob_ok_def s'_simps less_Suc_eq)
    show "client_ok c (rs_clients s' c) s'"
      using pc by (cases pc) (auto simp: client_ok_def s' client_prims)
    show "inv (rs_store s')" using inv by (simp add: s'_simps recorder_inv_def)
  qed (simp add: s' client_prims)
qed

lemma create_inv:
  assumes inv: "recorder_inv s" and st: "create_step c (rs_clients s c) s = Some s'"
  shows "recorder_inv s'"
proof (cases "rs_clients s c")
  case (CreateBegin run)
  with st show ?thesis
    by (intro recorder_inv_move [OF inv, of c])
       (auto simp: client_prims evolves_def client_ok_def split: option.splits if_splits)
next
  case (CreateSending run)
  show ?thesis
  proof (cases "receiving s")
    case True
    with CreateSending st have "s' = goto c (CreateAwaiting (rs_next_token s)) (release (s\<lparr>rs_next_token :=
        Suc (rs_next_token s), rs_queue := rs_queue s @ [CmdCreateRun run (rs_next_token s)],
        rs_status := rs_status s\<rparr>))"
      by (auto simp: client_prims split: if_splits)
    from send_other_inv [OF inv _ True this] CreateSending show ?thesis
      by (simp add: finish_queued_Cons client_ok_def)
  next
    case False
    with CreateSending client_ok_of [OF inv, of c] st show ?thesis
      by (intro recorder_inv_move [OF inv, of c])
         (auto simp: client_prims evolves_def client_ok_def split: option.splits if_splits)
  qed
next
  case (CreateAwaiting t)
  with st show ?thesis
    by (intro recorder_inv_move [OF inv, of c])
       (auto simp: client_prims evolves_def client_ok_def split: option.splits if_splits reply.splits)
qed (use st in \<open>simp_all\<close>)

lemma complete_inv:
  assumes inv: "recorder_inv s" and st: "complete_step c (rs_clients s c) s = Some s'"
  shows "recorder_inv s'"
proof (cases "rs_clients s c")
  case (CompleteBegin x)
  with st show ?thesis
    by (intro recorder_inv_move [OF inv, of c])
       (auto simp: client_prims evolves_def client_ok_def split: option.splits if_splits)
next
  case (CompleteAdmitting x)
  with st show ?thesis
    by (intro recorder_inv_move [OF inv, of c])
       (auto simp: client_prims evolves_def client_ok_def split: option.splits if_splits)
next
  case (CompleteSending x)
  show ?thesis
  proof (cases "receiving s")
    case True
    with CompleteSending st have "s' = goto c (CompleteAwaiting (rs_next_token s)) (release (s\<lparr>rs_next_token :=
        Suc (rs_next_token s), rs_queue := rs_queue s @ [CmdCompleteRun x (rs_next_token s)],
        rs_status := rs_status s\<rparr>))"
      by (auto simp: client_prims split: if_splits)
    from send_other_inv [OF inv _ True this] CompleteSending show ?thesis
      by (simp add: finish_queued_Cons client_ok_def)
  next
    case False
    with CompleteSending client_ok_of [OF inv, of c] st show ?thesis
      by (intro recorder_inv_move [OF inv, of c])
         (auto simp: client_prims evolves_def client_ok_def split: option.splits if_splits)
  qed
next
  case (CompleteAwaiting t)
  with st show ?thesis
    by (intro recorder_inv_move [OF inv, of c])
       (auto simp: client_prims evolves_def client_ok_def split: option.splits if_splits reply.splits)
qed (use st in \<open>simp_all\<close>)

lemma shutdown_result_Inr: "shutdown_result res ack failed = Inr () \<Longrightarrow> res = Inr ()"
  by (cases "(res, ack, failed)" rule: shutdown_result.cases) auto

lemma shutdown_inv:
  assumes inv: "recorder_inv s" and st: "shutdown_step c (rs_clients s c) s = Some s'"
  shows "recorder_inv s'"
proof (cases "rs_clients s c")
  case ShutdownBegin
  with st show ?thesis
    by (intro recorder_inv_move [OF inv, of c])
       (auto simp: client_prims evolves_def client_ok_def split: option.splits if_splits)
next
  case ShutdownReserving
  note ok = client_ok_of [OF inv, of c]
  show ?thesis
  proof (cases "receiving s")
    case True
    with ShutdownReserving ok have "rs_status s = WriterRunning" by (auto simp: client_ok_def)
    with True ShutdownReserving st
    have "s' = goto c (ShutdownAwaiting (rs_next_token s)) (release (s\<lparr>rs_next_token :=
        Suc (rs_next_token s), rs_queue := rs_queue s @ [CmdShutdown (rs_next_token s)],
        rs_status := WriterClosing\<rparr>))"
      by (auto simp: client_prims split: if_splits)
    from send_other_inv [OF inv _ True this] ShutdownReserving show ?thesis
      by (simp add: finish_queued_Cons client_ok_def)
  next
    case False
    with ShutdownReserving ok st show ?thesis
      by (intro recorder_inv_move [OF inv, of c])
         (auto simp: client_prims evolves_def client_ok_def split: option.splits if_splits)
  qed
next
  case (ShutdownAwaiting t)
  with st show ?thesis
    by (intro recorder_inv_move [OF inv, of c])
       (auto simp: client_prims evolves_def client_ok_def split: option.splits if_splits reply.splits)
next
  case (ShutdownJoining ack failed)
  with st obtain res where res: "rs_joined s = Some res"
    and s': "s' = goto c (ShutdownDone (shutdown_result res ack failed)) s" by auto
  from res inv have "rs_exit s = Some res" by (simp add: recorder_inv_def glob_ok_def)
  then have "client_ok c (rs_clients s' c) s'"
    by (auto simp: s' client_prims client_ok_def dest: shutdown_result_Inr)
  then show ?thesis
    by (intro recorder_inv_move [OF inv, of c]) (auto simp: s' client_prims evolves_def)
qed (use st in \<open>simp_all\<close>)

end

context run_history_store
begin

subsection \<open>The writer keeps the invariant\<close>

lemma recorder_inv_writer:
  assumes "recorder_inv s" "\<And>c. evolves c s s'" "rs_clients s' = rs_clients s"
    and "inv (rs_store s')" "glob_ok s'" "\<And>r. run_inv s' r"
  shows "recorder_inv s'"
proof -
  have "client_ok d (rs_clients s d) s'" for d
    using client_ok_evolves [of d _ s "Suc d" s'] assms(1,2) by (simp add: recorder_inv_def)
  with assms(3-) show ?thesis by (simp add: recorder_inv_def)
qed

text \<open>A command that touches no log and no gate is taken from the queue.\<close>

lemma channel_at_on_hub:
  assumes "\<And>h. lh_runs (f h) r = lh_runs h r" "rs_hub s' = rs_hub s"
  shows "channel_at (on_hub f s') r = channel_at s r"
  using assms by (cases "rs_hub s") (auto simp: channel_at_def on_hub_def)

lemma finish_last_none: "\<not> finish_queued r q \<Longrightarrow> finish_last r q"
  by (induction r q rule: finish_last.induct) (auto simp: finish_queued_Cons)

lemma rs_hub_gate_complete [simp]: "rs_hub (gate_complete x g s) = rs_hub s"
  by (simp add: gate_complete_def)

lemma hub_other_run:
  "r \<noteq> x \<Longrightarrow> lh_runs (hub_register_run x h) r = lh_runs h r"
  "r \<noteq> x \<Longrightarrow> lh_runs (hub_close_run x h) r = lh_runs h r"
  "r \<noteq> env_run e \<Longrightarrow> lh_runs (hub_publish e h) r = lh_runs h r"
  by (auto simp: hub_register_run_def hub_close_run_def hub_publish_def split: option.splits)

lemma channel_at_frame [simp]:
  "channel_at (respond t y s) = channel_at s" "channel_at (gate_complete x g s) = channel_at s"
  by (auto simp: channel_at_def respond_def gate_complete_def fun_eq_iff)

lemma pop_run_inv:
  assumes "run_inv s r" "rs_queue s = cmd # rest" "queued r [cmd] = []"
    and "log_at s' r = log_at s r" "rs_gates s' r = rs_gates s r" "rs_sequences s' r = rs_sequences s r"
      "r \<in> rs_finished s' \<longleftrightarrow> r \<in> rs_finished s" "channel_at s' r = channel_at s r" "rs_exit s' = rs_exit s"
      "rs_accepted s' r = rs_accepted s r" "rs_queue s' = rest"
  shows "run_inv s' r"
proof -
  have "queued r (cmd # rest) = queued r rest" using assms(3) queued_append [of r "[cmd]" rest] by simp
  with assms show ?thesis
    by (auto simp: run_inv_def run_ok_def finish_queued_Cons dest: finish_last_tl split: option.splits)
qed

lemma stop_run_inv:
  assumes "run_inv s r" "receiving s"
    and "log_at s' r = log_at s r" "rs_gates s' r = rs_gates s r" "rs_sequences s' r = rs_sequences s r"
      "r \<in> rs_finished s' \<longleftrightarrow> r \<in> rs_finished s" "channel_at s' r = channel_at s r"
      "rs_exit s' = Some (Inl e)" "rs_accepted s' r = rs_accepted s r" "rs_queue s' = []"
  shows "run_inv s' r"
  using assms by (auto simp: run_inv_def run_ok_def split: option.splits)

lemma run_create_inv:
  assumes inv: "recorder_inv s" "receiving s" "rs_queue s = CmdCreateRun run t # rest"
    and s': "s' = run_command ops (CmdCreateRun run t) (s\<lparr>rs_queue := rest\<rparr>)"
  shows "recorder_inv s'"
proof -
  let ?r = "run_run_id run"
  have store: "inv (rs_store s)" and glob: "glob_ok s" and runs: "\<And>r. run_inv s r"
    using inv(1) by (auto simp: recorder_inv_def)
  consider (same) x where "s' = respond t (RecorderReply x) (s\<lparr>rs_queue := rest\<rparr>)"
    | (failed) x e store' where "so_create ops run (rs_store s) = (Inl e, store')"
        "s' = respond t (RecorderReply x) (s\<lparr>rs_queue := rest, rs_store := store'\<rparr>)"
    | (made) u store' where "rs_gates s ?r = None" "so_create ops run (rs_store s) = (Inr u, store')"
        "s' = respond t (RecorderReply (Inr ())) (gate_complete ?r GateActive
               (on_hub (hub_register_run ?r) (s\<lparr>rs_queue := rest, rs_store := store'\<rparr>)))"
  proof (cases "rs_gates s ?r")
    case None
    obtain y store' where y: "so_create ops run (rs_store s) = (y, store')" by fastforce
    show thesis
    proof (cases y)
      case (Inl e)
      with y None show ?thesis by (intro failed [of e store']) (auto simp: s' create_run_for_writer_def)
    next
      case (Inr u)
      with y None show ?thesis by (intro made [of u store']) (auto simp: s' create_run_for_writer_def)
    qed
  next
    case (Some g)
    then show ?thesis by (intro same [of "Inl RunAlreadyRegistered"]) (simp add: s' create_run_for_writer_def)
  qed
  then have "inv (rs_store s') \<and> glob_ok s' \<and> (\<forall>r. run_inv s' r) \<and> (\<forall>c. evolves c s s')"
  proof cases
    case same
    have "run_inv s' r" for r
      using runs [of r] inv(3) by (rule pop_run_inv) (simp_all add: same respond_def log_at_def channel_at_def)
    with store glob inv(2,3) show ?thesis
      by (auto simp: same respond_def glob_ok_def evolves_def)
  next
    case failed
    from failed_calls_keep_history(1) [OF store failed(1)] have h: "inv store'" "hist store' = hist (rs_store s)" by auto
    have "run_inv s' r" for r
      using runs [of r] inv(3) by (rule pop_run_inv) (simp_all add: failed respond_def log_at_def channel_at_def h)
    with h(1) glob inv(2,3) show ?thesis
      by (auto simp: failed respond_def glob_ok_def evolves_def)
  next
    case made
    from create_new [OF store, of run u store'] made(2)
    have h: "inv store'" "hist store' = (hist (rs_store s))(?r \<mapsto> (run, []))" by auto
    have "run_inv s' r" for r
    proof (cases "r = ?r")
      case False
      show ?thesis
        using runs [of r] inv(3) by (rule pop_run_inv)
          (use False in \<open>simp_all add: made(3) channel_at_on_hub [where s = s] hub_other_run\<close>,
           use False in \<open>auto simp: client_prims respond_def on_hub_def log_at_def h\<close>)
    next
      case True
      with runs [of ?r] made(1) inv(3) show ?thesis
        by (cases "rs_hub s") (auto simp: run_inv_def run_ok_def made(3) client_prims respond_def on_hub_def
            hub_register_run_def log_at_def channel_at_def h finish_queued_Cons finish_last_none seq_nat_def)
    qed
    with h(1) glob inv(2,3) made(1) show ?thesis
      by (auto simp: made(3) client_prims respond_def on_hub_def glob_ok_def evolves_def)
  qed
  moreover have "rs_clients s' = rs_clients s"
    by (auto simp: s' create_run_for_writer_def respond_def client_prims on_hub_def split: prod.splits sum.splits)
  ultimately show ?thesis using recorder_inv_writer [OF inv(1)] by blast
qed

text \<open>A record is persisted under the next sequence of its run, then published.\<close>

lemma persist_record_cases:
  assumes "persist_record ops x s = (res, s')" "inv (rs_store s)"
    "rs_gates s (rec_run_id x) \<noteq> None" "rec_run_id x \<notin> rs_finished s"
  obtains (failed) e store' where "res = Inl e" "s' = s\<lparr>rs_store := store'\<rparr>" "inv store'"
      "hist store' = hist (rs_store s)"
    | (stored) n e run l store' where "res = Inr ()" "env_record e = x" "env_sequence e = n"
      "unat n = Suc (seq_nat (rs_sequences s (rec_run_id x)))" "unat n = Suc (length l)" "inv store'"
      "hist (rs_store s) (rec_run_id x) = Some (run, l)"
      "hist store' = (hist (rs_store s))(rec_run_id x \<mapsto>
          (run\<lparr>run_event_count := of_nat (Suc (length l))\<rparr>, l @ [e]))"
      "s' = on_hub (hub_publish e) (s\<lparr>rs_store := store', rs_sequences := (rs_sequences s)(rec_run_id x \<mapsto> n)\<rparr>)"
proof -
  let ?r = "rec_run_id x" and ?cur = "case rs_sequences s (rec_run_id x) of None \<Rightarrow> 0 | Some n \<Rightarrow> n"
  show thesis
  proof (cases "u64_checked_add ?cur 1")
    case None
    with assms show ?thesis by (intro failed [of _ "rs_store s"]) (auto simp: persist_record_def Let_def)
  next
    case (Some n)
    have n: "unat n = Suc (unat ?cur)" using u64_checked_add_one_Some [OF Some] by blast
    then have "n \<noteq> 0" by auto
    define e where "e = \<lparr>env_schema_version = schema_version, env_sequence = n, env_record = x\<rparr>"
    obtain ares store' where app: "so_append ops [e] (rs_store s) = (ares, store')" by fastforce
    have new: "envelope_new n x = Inr e" using \<open>n \<noteq> 0\<close> by (simp add: envelope_new_def e_def)
    have run_e: "env_run e = ?r" "env_sequence e = n" by (simp_all add: e_def)
    show ?thesis
    proof (cases ares)
      case (Inl er)
      with app failed_calls_keep_history(2) [OF assms(2)] have "inv store'" "hist store' = hist (rs_store s)" by auto
      with assms Some new app Inl show ?thesis
        by (intro failed [of _ store']) (auto simp: persist_record_def Let_def)
    next
      case (Inr u)
      from app Inr have "so_append ops [e] (rs_store s) = (Inr u, store')" by simp
      from append_one [OF assms(2) this] obtain run l where st: "inv store'"
        "hist (rs_store s) ?r = Some (run, l)" "unat n = Suc (length l)"
        "hist store' = (hist (rs_store s))(?r \<mapsto> (run\<lparr>run_event_count := of_nat (Suc (length l))\<rparr>, l @ [e]))"
        unfolding run_e by metis
      have "unat n = Suc (seq_nat (rs_sequences s ?r))"
        using n by (simp add: seq_nat_def split: option.splits)
      moreover have "env_record e = x" by (simp add: e_def)
      moreover have "res = Inr ()"
        "s' = on_hub (hub_publish e) (s\<lparr>rs_store := store', rs_sequences := (rs_sequences s)(?r \<mapsto> n)\<rparr>)"
        using assms Some new app Inr by (auto simp: persist_record_def Let_def)
      ultimately show ?thesis using st run_e(2) by (intro stored)
    qed
  qed
qed

lemma run_record_inv:
  assumes inv: "recorder_inv s" "receiving s" "rs_queue s = CmdRecord x # rest"
    and s': "s' = run_command ops (CmdRecord x) (s\<lparr>rs_queue := rest\<rparr>)"
  shows "recorder_inv s'"
proof -
  let ?r = "rec_run_id x" and ?s = "s\<lparr>rs_queue := rest\<rparr>"
  have store: "inv (rs_store s)" and glob: "glob_ok s" and runs: "\<And>r. run_inv s r"
    using inv(1) by (auto simp: recorder_inv_def)
  from runs [of ?r] inv(3) have reg: "rs_gates ?s ?r \<noteq> None" "?r \<notin> rs_finished ?s"
    by (auto simp: run_inv_def run_ok_def split: option.splits)
  have store_s: "inv (rs_store ?s)" using store by simp
  obtain res s1 where p: "persist_record ops x ?s = (res, s1)" by fastforce
  from p store_s reg have "inv (rs_store s') \<and> glob_ok s' \<and> (\<forall>r. run_inv s' r) \<and> (\<forall>c. evolves c s s')
      \<and> rs_clients s' = rs_clients s"
  proof (cases rule: persist_record_cases)
    case (failed e store')
    then have s'_eq: "s' = writer_return (Inl e) (mark_writer_failed (?s\<lparr>rs_store := store'\<rparr>))"
      using p by (simp add: s')
    have "run_inv s' r" for r
      using runs [of r] inv(2) by (rule stop_run_inv [where e = e])
        (simp_all add: s'_eq writer_return_def mark_writer_failed_def log_at_def channel_at_def failed)
    with failed glob inv(2,3) show ?thesis
      by (auto simp: s'_eq writer_return_def mark_writer_failed_def glob_ok_def evolves_def)
  next
    case (stored n e run l store')
    then have s'_eq: "s' = on_hub (hub_publish e) (?s\<lparr>rs_store := store', rs_sequences := (rs_sequences s)(?r \<mapsto> n)\<rparr>)"
      using p by (simp add: s')
    have "run_inv s' r" for r
    proof (cases "r = ?r")
      case False
      show ?thesis
        using runs [of r] inv(3) by (rule pop_run_inv)
          (use False stored in \<open>simp_all add: s'_eq channel_at_on_hub [where s = s] hub_other_run\<close>,
           use False stored in \<open>auto simp: on_hub_def log_at_def\<close>)
    next
      case True
      with runs [of ?r] reg inv(2,3) stored show ?thesis
        by (cases "rs_hub s") (auto simp: run_inv_def run_ok_def s'_eq on_hub_def hub_publish_def log_at_def
            hub_publish_def channel_at_def channel_send_def channel_store_sequence_def finish_queued_Cons seq_nat_def
            split: option.splits)
    qed
    with stored glob inv(2,3) show ?thesis
      by (auto simp: s'_eq on_hub_def glob_ok_def evolves_def)
  qed
  then show ?thesis using recorder_inv_writer [OF inv(1)] by blast
qed

lemma run_finish_inv:
  assumes inv: "recorder_inv s" "receiving s" "rs_queue s = CmdFinishRun x t # rest"
    and s': "s' = run_command ops (CmdFinishRun x t) (s\<lparr>rs_queue := rest\<rparr>)"
  shows "recorder_inv s'"
proof -
  have store: "inv (rs_store s)" and glob: "glob_ok s" and runs: "\<And>r. run_inv s r"
    using inv(1) by (auto simp: recorder_inv_def)
  from runs [of x] inv(3) have g: "rs_gates s x = Some GateFinishing"
    by (auto simp: run_inv_def run_ok_def finish_queued_Cons split: option.splits)
  then have s'_eq: "s' = respond t (SinkReply (Inr ())) (on_hub (hub_close_run x) (gate_complete x GateFinished
      (s\<lparr>rs_queue := rest, rs_finished := insert x (rs_finished s)\<rparr>)))"
    by (simp add: s' finish_run_for_writer_def)
  have "run_inv s' r" for r
  proof (cases "r = x")
    case False
    show ?thesis
      using runs [of r] inv(3) by (rule pop_run_inv)
        (use False in \<open>simp_all add: s'_eq channel_at_on_hub [where s = s] hub_other_run\<close>,
         use False in \<open>auto simp: respond_def on_hub_def client_prims log_at_def\<close>)
  next
    case True
    with runs [of x] g inv(2,3) show ?thesis
      by (cases "rs_hub s") (auto simp: run_inv_def run_ok_def s'_eq respond_def on_hub_def hub_close_run_def
          client_prims log_at_def channel_at_def)
  qed
  moreover have "inv (rs_store s')" "glob_ok s'" "rs_clients s' = rs_clients s" "\<And>c. evolves c s s'"
    using store glob inv(2,3) g
    by (auto simp: s'_eq respond_def on_hub_def client_prims glob_ok_def evolves_def)
  ultimately show ?thesis using recorder_inv_writer [OF inv(1)] by blast
qed

lemma run_complete_inv:
  assumes inv: "recorder_inv s" "receiving s" "rs_queue s = CmdCompleteRun x t # rest"
    and s': "s' = run_command ops (CmdCompleteRun x t) (s\<lparr>rs_queue := rest\<rparr>)"
  shows "recorder_inv s'"
proof -
  have store: "inv (rs_store s)" and glob: "glob_ok s" and runs: "\<And>r. run_inv s r"
    using inv(1) by (auto simp: recorder_inv_def)
  obtain res store' where s'_eq: "s' = respond t (RecorderReply res) (s\<lparr>rs_queue := rest, rs_store := store'\<rparr>)"
    and st': "inv store'" "\<And>r. map_option snd (hist store' r) = map_option snd (hist (rs_store s) r)"
  proof (cases "rc_run_id x \<in> rs_finished s")
    case True
    obtain y store' where "so_complete ops x (rs_store s) = (y, store')" by fastforce
    with complete_keeps_logs [OF store this] True that show ?thesis
      by (cases y) (auto simp: s' complete_run_for_writer_def)
  next
    case False
    with store that [of _ "rs_store s"] show ?thesis by (auto simp: s' complete_run_for_writer_def)
  qed
  have "run_inv s' r" for r
    using runs [of r] inv(3) by (rule pop_run_inv) (simp_all add: s'_eq respond_def log_at_def channel_at_def st')
  moreover have "inv (rs_store s')" "glob_ok s'" "rs_clients s' = rs_clients s" "\<And>c. evolves c s s'"
    using st' glob inv(2,3) by (auto simp: s'_eq respond_def glob_ok_def evolves_def)
  ultimately show ?thesis using recorder_inv_writer [OF inv(1)] by blast
qed

lemma channel_at_close:
  "channel_at (close_live_runs s) r = (if rs_gates s r \<noteq> None then None else channel_at s r)"
  by (cases "rs_hub s") (auto simp: channel_at_def close_live_runs_def on_hub_def)

lemma close_live_runs_simps:
  "rs_store (close_live_runs s) = rs_store s" "rs_queue (close_live_runs s) = rs_queue s"
  "rs_status (close_live_runs s) = rs_status s" "rs_gates (close_live_runs s) = rs_gates s"
  "rs_sequences (close_live_runs s) = rs_sequences s" "rs_finished (close_live_runs s) = rs_finished s"
  "rs_exit (close_live_runs s) = rs_exit s" "rs_joined (close_live_runs s) = rs_joined s"
  "rs_clients (close_live_runs s) = rs_clients s" "rs_replies (close_live_runs s) = rs_replies s"
  "rs_next_token (close_live_runs s) = rs_next_token s" "rs_accepted (close_live_runs s) = rs_accepted s"
  "rs_admission (close_live_runs s) = rs_admission s" "rs_run_admission (close_live_runs s) = rs_run_admission s"
  by (simp_all add: close_live_runs_def on_hub_def)

lemma run_shutdown_inv:
  assumes inv: "recorder_inv s" "receiving s" "rs_queue s = CmdShutdown t # rest"
    and s': "s' = run_command ops (CmdShutdown t) (s\<lparr>rs_queue := rest\<rparr>)"
  shows "recorder_inv s'"
proof -
  have store: "inv (rs_store s)" and glob: "glob_ok s" and runs: "\<And>r. run_inv s r"
    using inv(1) by (auto simp: recorder_inv_def)
  from glob inv(3) have rest: "rest = []" by (simp add: glob_ok_def)
  have "run_inv s' r" for r
    using runs [of r] inv(2,3) rest
    by (cases "rs_hub s") (auto simp: run_inv_def run_ok_def s' writer_return_def respond_def log_at_def close_live_runs_def on_hub_def
        channel_at_def finish_queued_Cons split: option.splits)
  moreover have "inv (rs_store s')" "glob_ok s'" "rs_clients s' = rs_clients s" "\<And>c. evolves c s s'"
    using store glob inv(2,3)
    by (auto simp: s' respond_def writer_return_def close_live_runs_simps glob_ok_def evolves_def)
  ultimately show ?thesis using recorder_inv_writer [OF inv(1)] by blast
qed

lemma writer_inv:
  assumes inv: "recorder_inv s" and st: "writer_step ops s = Some s'"
  shows "recorder_inv s'"
proof -
  from st obtain cmd rest where "receiving s" "rs_queue s = cmd # rest"
    "s' = run_command ops cmd (s\<lparr>rs_queue := rest\<rparr>)"
    by (auto split: if_splits list.splits)
  with inv show ?thesis
    by (cases cmd) (blast intro: run_create_inv run_record_inv run_finish_inv run_complete_inv run_shutdown_inv)+
qed

lemma disconnected_inv:
  assumes inv: "recorder_inv s" and st: "writer_disconnected s = Some s'"
  shows "recorder_inv s'"
proof -
  from st have rec: "receiving s" "rs_queue s = []" and s': "s' = writer_return (Inl WriterEnded) (mark_writer_failed s)"
    by (auto simp: writer_disconnected_def split: if_splits)
  have glob: "glob_ok s" and runs: "\<And>r. run_inv s r" using inv by (auto simp: recorder_inv_def)
  have "run_inv s' r" for r
    using runs [of r] rec(1) by (rule stop_run_inv [where e = WriterEnded])
      (simp_all add: s' writer_return_def mark_writer_failed_def log_at_def channel_at_def)
  moreover have "inv (rs_store s')" "glob_ok s'" "rs_clients s' = rs_clients s" "\<And>c. evolves c s s'"
    using inv glob rec by (auto simp: s' writer_return_def mark_writer_failed_def glob_ok_def evolves_def recorder_inv_def)
  ultimately show ?thesis using recorder_inv_writer [OF inv] by blast
qed

lemma ended_inv:
  assumes inv: "recorder_inv s" and st: "writer_end s = Some s'"
  shows "recorder_inv s'"
proof -
  from st obtain res where ex: "rs_exit s = Some res" and s': "s' = (guard_drop s)\<lparr>rs_joined := Some res\<rparr>"
    by (auto simp: writer_end_def split: option.splits if_splits)
  have glob: "glob_ok s" and runs: "\<And>r. run_inv s r" using inv by (auto simp: recorder_inv_def)
  have q: "rs_queue s = []" using glob ex by (simp add: glob_ok_def)
  have "run_inv s' r" for r
    using runs [of r] ex q
    by (cases "rs_hub s") (auto simp: run_inv_def run_ok_def s' guard_drop_def log_at_def close_live_runs_def on_hub_def
        channel_at_def split: option.splits)
  moreover have "inv (rs_store s')" "glob_ok s'" "rs_clients s' = rs_clients s" "\<And>c. evolves c s s'"
    using inv glob ex q by (auto simp: s' guard_drop_def close_live_runs_simps glob_ok_def evolves_def recorder_inv_def)
  ultimately show ?thesis using recorder_inv_writer [OF inv] by blast
qed

lemma recorder_step_inv: "recorder_step ops s s' \<Longrightarrow> recorder_inv s \<Longrightarrow> recorder_inv s'"
  by (induction rule: recorder_step.induct)
     (blast intro: begin_inv emit_inv finish_inv create_inv complete_inv shutdown_inv drop_inv writer_inv
        disconnected_inv ended_inv)+

lemma recorder_start_inv:
  assumes "inv store" "hub = None \<or> hub = Some (live_hub_new options)"
  shows "recorder_inv (recorder_start store hub ropts)"
  using assms by (auto simp: recorder_inv_def recorder_start_def glob_ok_def run_inv_def run_ok_def client_ok_def
      channel_at_def live_hub_new_def seq_nat_def)

lemma recorder_reachable_inv:
  assumes "inv store" "hub = None \<or> hub = Some (live_hub_new options)"
    and "(recorder_step ops)\<^sup>*\<^sup>* (recorder_start store hub ropts) s"
  shows "recorder_inv s"
  using assms(3) recorder_start_inv [OF assms(1,2)]
  by (induction rule: rtranclp_induct) (auto intro: recorder_step_inv)

text \<open>What the invariant says of the logs.\<close>

lemma recorder_logs:
  assumes "recorder_inv s" "rs_gates s r = Some g"
  obtains l run where "hist (rs_store s) r = Some (run, l)" "run_entry_ok r run l"
    "receiving s \<Longrightarrow> rs_accepted s r = map env_record l @ queued r (rs_queue s)"
    "prefix (map env_record l) (rs_accepted s r)"
    "rs_exit s = Some (Inr ()) \<or> g = GateFinished \<Longrightarrow> rs_accepted s r = map env_record l"
proof -
  from assms have "inv (rs_store s)" and "run_inv s r" by (auto simp: recorder_inv_def)
  from \<open>run_inv s r\<close> assms(2) obtain l where l: "log_at s r = Some l"
    "receiving s \<Longrightarrow> rs_accepted s r = map env_record l @ queued r (rs_queue s)"
    "prefix (map env_record l) (rs_accepted s r)"
    "rs_exit s = Some (Inr ()) \<or> g = GateFinished \<Longrightarrow> rs_accepted s r = map env_record l"
    by (auto simp: run_inv_def run_ok_def)
  from l(1) obtain run where h: "hist (rs_store s) r = Some (run, l)" by (auto simp: log_at_def)
  show thesis by (rule that [OF h log_law [OF \<open>inv (rs_store s)\<close> h] l(2) l(3) l(4)])
qed

lemma channel_log:
  assumes "recorder_inv s" "rs_hub s = Some h" "lh_runs h r = Some ch"
  shows "\<exists>run. hist (rs_store s) r = Some (run, lc_sent ch)"
proof -
  from assms(2,3) have ch: "channel_at s r = Some ch" by (simp add: channel_at_def)
  from assms(1) have "run_inv s r" by (simp add: recorder_inv_def)
  with ch have "log_at s r = Some (lc_sent ch)" by (auto simp: run_inv_def run_ok_def split: option.splits)
  then show ?thesis by (auto simp: log_at_def)
qed

text \<open>Nothing is accepted for a run once it has been finished.\<close>

lemma client_frames:
  "emit_step c pc s = Some s' \<Longrightarrow> rs_finished s' = rs_finished s
     \<and> (\<forall>r. rs_accepted s' r = rs_accepted s r \<or> saw_active pc = Some r)"
  "finish_step c pc s = Some s' \<Longrightarrow> rs_accepted s' = rs_accepted s \<and> rs_finished s' = rs_finished s"
  "create_step c pc s = Some s' \<Longrightarrow> rs_accepted s' = rs_accepted s \<and> rs_finished s' = rs_finished s"
  "complete_step c pc s = Some s' \<Longrightarrow> rs_accepted s' = rs_accepted s \<and> rs_finished s' = rs_finished s"
  "shutdown_step c pc s = Some s' \<Longrightarrow> rs_accepted s' = rs_accepted s \<and> rs_finished s' = rs_finished s"
  "rs_accepted (drop_client c s) = rs_accepted s \<and> rs_finished (drop_client c s) = rs_finished s"
proof -
  note splits = option.splits if_splits sum.splits reply.splits gate_state.splits
  show "emit_step c pc s = Some s' \<Longrightarrow> rs_finished s' = rs_finished s
     \<and> (\<forall>r. rs_accepted s' r = rs_accepted s r \<or> saw_active pc = Some r)"
    by (cases pc) (auto simp: client_prims split: splits)
  show "finish_step c pc s = Some s' \<Longrightarrow> rs_accepted s' = rs_accepted s \<and> rs_finished s' = rs_finished s"
    by (cases pc) (auto simp: client_prims split: splits)
  show "create_step c pc s = Some s' \<Longrightarrow> rs_accepted s' = rs_accepted s \<and> rs_finished s' = rs_finished s"
    by (cases pc) (auto simp: client_prims split: splits)
  show "complete_step c pc s = Some s' \<Longrightarrow> rs_accepted s' = rs_accepted s \<and> rs_finished s' = rs_finished s"
    by (cases pc) (auto simp: client_prims split: splits)
  show "shutdown_step c pc s = Some s' \<Longrightarrow> rs_accepted s' = rs_accepted s \<and> rs_finished s' = rs_finished s"
    by (cases pc) (auto simp: client_prims split: splits)
  show "rs_accepted (drop_client c s) = rs_accepted s \<and> rs_finished (drop_client c s) = rs_finished s"
    by (auto simp: drop_client_def client_prims split: client.splits)
qed

lemma run_command_frame:
  "rs_accepted (run_command ops cmd s) = rs_accepted s \<and> rs_finished s \<subseteq> rs_finished (run_command ops cmd s)"
  by (cases cmd) (auto simp: create_run_for_writer_def persist_record_def finish_run_for_writer_def
      complete_run_for_writer_def client_prims respond_def on_hub_def writer_return_def mark_writer_failed_def
      close_live_runs_def Let_def split: prod.splits sum.splits option.splits)

lemma finished_step:
  assumes st: "recorder_step ops s s'" and inv: "recorder_inv s" and r: "r \<in> rs_finished s"
  shows "r \<in> rs_finished s' \<and> rs_accepted s' r = rs_accepted s r"
  using st
proof cases
  case (emit c)
  have "run_inv s r" using inv by (simp add: recorder_inv_def)
  with r have "rs_gates s r = Some GateFinished" by (auto simp: run_inv_def run_ok_def split: option.splits)
  with client_ok_of [OF inv, of c] have "saw_active (rs_clients s c) \<noteq> Some r" by (auto simp: client_ok_def)
  with client_frames(1) [OF emit] r show ?thesis by metis
next
  case writer
  then obtain cmd rest where "s' = run_command ops cmd (s\<lparr>rs_queue := rest\<rparr>)"
    by (auto split: if_splits list.splits)
  with r run_command_frame [of cmd "s\<lparr>rs_queue := rest\<rparr>"] show ?thesis by auto
qed (use r in \<open>auto dest: client_frames(2-5) simp: client_frames(6) goto_def writer_disconnected_def writer_end_def
      guard_drop_def close_live_runs_simps writer_return_def mark_writer_failed_def
      split: if_splits option.splits\<close>)

lemma finished_steps:
  assumes "(recorder_step ops)\<^sup>*\<^sup>* s s'" "recorder_inv s" "r \<in> rs_finished s"
  shows "recorder_inv s' \<and> r \<in> rs_finished s' \<and> rs_accepted s' r = rs_accepted s r"
  using assms(1)
proof (induction rule: rtranclp_induct)
  case (step t t')
  then show ?case using finished_step [of t t' r] recorder_step_inv [of t t'] by simp
qed (use assms(2,3) in simp)

lemma finished_gate: "recorder_inv s \<Longrightarrow> r \<in> rs_finished s \<longleftrightarrow> rs_gates s r = Some GateFinished"
proof -
  assume "recorder_inv s"
  then have "run_inv s r" by (simp add: recorder_inv_def)
  then show ?thesis by (auto simp: run_inv_def run_ok_def split: option.splits)
qed

end

subsection \<open>The recorder on the in-memory store\<close>

definition recorder_reachable ::
  "'ev memory_state \<Rightarrow> live_hub_options option \<Rightarrow> recorder_options \<Rightarrow> ('ev memory_state, 'ev) recorder \<Rightarrow> bool" where
  "recorder_reachable store hub options s \<longleftrightarrow>
     (recorder_step memory_store_ops)\<^sup>*\<^sup>* (recorder_start store (map_option live_hub_new hub) options) s"

lemma memory_recorder_inv:
  assumes "store_inv store" "recorder_reachable store hub options s"
  shows "memory.recorder_inv s"
  using assms memory.recorder_reachable_inv [of store "map_option live_hub_new hub"]
  by (cases hub) (auto simp: recorder_reachable_def)

text \<open>C1: Accepted means stored in order: while the writer runs, the records whose \<open>emit\<close> was accepted for a
  run are exactly those in its stored log followed by those still queued, in the order of
  acceptance; the log carries the sequences 1, 2, 3, \<open>\<dots>\<close>; and even after a failure the log is a
  prefix of what was accepted.\<close>

theorem recorder_stores_in_order:
  assumes "store_inv store" "recorder_reachable store hub options s" "rs_gates s r = Some g"
  shows "(receiving s \<longrightarrow>
            rs_accepted s r = map env_record (log_of (rs_store s) r) @ queued r (rs_queue s))
       \<and> prefix (map env_record (log_of (rs_store s) r)) (rs_accepted s r)
       \<and> contiguous_from 0 (log_of (rs_store s) r)"
  using memory.recorder_logs [OF memory_recorder_inv [OF assms(1,2)] assms(3)]
  by (metis history_Some run_entry_ok_def)

text \<open>C2: The barrier: once \<open>finish_run\<close> has returned success for a run, every record that was ever accepted
  for it is in its stored log, and from then on no record is accepted for it.\<close>

theorem finish_run_is_a_barrier:
  assumes "store_inv store" "recorder_reachable store hub options s"
    and "rs_clients s c = FinishDone r (Inr ())" "(recorder_step memory_store_ops)\<^sup>*\<^sup>* s s'"
  shows "rs_accepted s' r = rs_accepted s r
       \<and> map env_record (log_of (rs_store s') r) = rs_accepted s r"
proof -
  have inv: "memory.recorder_inv s" by (rule memory_recorder_inv [OF assms(1,2)])
  have gate: "rs_gates s r = Some GateFinished"
    using memory.client_ok_of [OF inv, of c] assms(3) by (simp add: client_ok_def)
  have s': "memory.recorder_inv s'" "rs_gates s' r = Some GateFinished" "rs_accepted s' r = rs_accepted s r"
    using memory.finished_steps [OF assms(4) inv] memory.finished_gate inv gate by auto
  show ?thesis
    using memory.recorder_logs [OF s'(1,2)] s'(3) by (metis history_Some)
qed

text \<open>C5: Shutdown drains: once \<open>shutdown\<close> has returned success, every accepted record of every registered run
  is in the stored log of its run.\<close>

theorem shutdown_drains:
  assumes "store_inv store" "recorder_reachable store hub options s"
    and "rs_clients s c = ShutdownDone (Inr ())" "rs_gates s r = Some g"
  shows "map env_record (log_of (rs_store s) r) = rs_accepted s r"
proof -
  have inv: "memory.recorder_inv s" by (rule memory_recorder_inv [OF assms(1,2)])
  have "rs_exit s = Some (Inr ())"
    using memory.client_ok_of [OF inv, of c] assms(3) by (simp add: client_ok_def)
  then show ?thesis
    using memory.recorder_logs [OF inv assms(4)] by (metis history_Some)
qed

text \<open>C31: Live delivery never runs ahead of the store: on every open live channel, what has been published is
  exactly the stored log of the run.\<close>

theorem published_is_stored:
  assumes "store_inv store" "recorder_reachable store hub options s"
    and "rs_hub s = Some h" "lh_runs h r = Some ch"
  shows "lc_sent ch = log_of (rs_store s) r"
  using memory.channel_log [OF memory_recorder_inv [OF assms(1,2)] assms(3,4)] by (auto simp: history_Some)

subsection \<open>A run of the recorder\<close>

datatype 'ev action = Begin nat "'ev client" | Advance nat | Write | EndWriter

fun act :: "('s, 'ev) store_ops \<Rightarrow> 'ev action \<Rightarrow> ('s, 'ev) recorder \<Rightarrow> ('s, 'ev) recorder option" where
  "act ops (Begin c pc) s =
     (case rs_clients s c of Idle \<Rightarrow> if operation_begins pc then Some (goto c pc s) else None | _ \<Rightarrow> None)"
| "act ops (Advance c) s =
     (case emit_step c (rs_clients s c) s of Some s' \<Rightarrow> Some s' | None \<Rightarrow>
     (case finish_step c (rs_clients s c) s of Some s' \<Rightarrow> Some s' | None \<Rightarrow>
     (case create_step c (rs_clients s c) s of Some s' \<Rightarrow> Some s' | None \<Rightarrow>
     (case complete_step c (rs_clients s c) s of Some s' \<Rightarrow> Some s' | None \<Rightarrow>
        shutdown_step c (rs_clients s c) s))))"
| "act ops Write s = writer_step ops s"
| "act ops EndWriter s = writer_end s"

fun acts :: "('s, 'ev) store_ops \<Rightarrow> 'ev action list \<Rightarrow> ('s, 'ev) recorder \<Rightarrow> ('s, 'ev) recorder option" where
  "acts ops [] s = Some s"
| "acts ops (a # as) s = Option.bind (act ops a s) (acts ops as)"

lemma act_step: "act ops a s = Some s' \<Longrightarrow> recorder_step ops s s'"
  by (cases a) (auto split: option.splits client.splits if_splits simp del: writer_step.simps
      intro: recorder_step.intros)

lemma acts_steps: "acts ops as s = Some s' \<Longrightarrow> (recorder_step ops)\<^sup>*\<^sup>* s s'"
  by (induction as arbitrary: s) (auto split: bind_splits dest!: act_step intro: converse_rtranclp_into_rtranclp)

definition sample_record :: "nat \<Rightarrow> nat expl_record" where
  "sample_record n =
     \<lparr>rec_run_id = RunId ''a'', rec_timestamp = 5, rec_span_id = SpanId ''s'', rec_parent_span_id = None,
      rec_event = n\<rparr>"

definition sample_emits :: "nat action list" where
  "sample_emits =
     [Begin 0 (CreateBegin (sample_run ''a'' 1)), Advance 0, Advance 0, Write, Advance 0,
      Begin 1 (EmitBegin (sample_record 7)), Advance 1, Advance 1, Advance 1,
      Begin 2 (EmitBegin (sample_record 8)), Advance 2, Advance 2, Advance 2, Write]"

definition sample_finish :: "nat action list" where
  "sample_finish =
     [Begin 3 (FinishBegin (RunId ''a'')), Advance 3, Advance 3, Advance 3, Advance 3, Write, Write, Advance 3]"

definition sample_shutdown :: "nat action list" where
  "sample_shutdown =
     [Begin 4 ShutdownBegin, Advance 4, Advance 4, Write, Advance 4, EndWriter, Advance 4]"

definition sample_start :: "(nat memory_state, nat) recorder" where
  "sample_start = recorder_start memory_state_new (Some (live_hub_new live_hub_options_new)) recorder_options_new"

definition after_emits :: "(nat memory_state, nat) recorder" where
  "after_emits = the (acts memory_store_ops sample_emits sample_start)"

definition after_finish :: "(nat memory_state, nat) recorder" where
  "after_finish = the (acts memory_store_ops sample_finish after_emits)"

definition after_shutdown :: "(nat memory_state, nat) recorder" where
  "after_shutdown = the (acts memory_store_ops sample_shutdown after_finish)"

lemmas recorder_eval =
  client_prims recorder_start_def live_hub_new_def recorder_options_new_def default_queue_capacity_def
  memory_store_ops_def create_run_for_writer_def persist_record_def finish_run_for_writer_def
  respond_def on_hub_def writer_return_def guard_drop_def writer_end_def close_live_runs_def
  hub_register_run_def hub_publish_def hub_close_run_def channel_send_def channel_store_sequence_def
  create_run_def append_events_def entry_extend_def validate_create_run_def sample_run_def expl_run_new_def
  sample_record_def u64_checked_add_def envelope_new_def schema_version_def memory_state_new_def Let_def

lemma sample_runs:
  "acts memory_store_ops sample_emits sample_start = Some after_emits"
  "acts memory_store_ops sample_finish after_emits = Some after_finish"
  "acts memory_store_ops sample_shutdown after_finish = Some after_shutdown"
  by (simp_all add: after_shutdown_def after_finish_def after_emits_def sample_shutdown_def sample_finish_def
      sample_emits_def sample_start_def recorder_eval)

lemma sample_observed:
  "rs_gates after_emits (RunId ''a'') = Some GateActive"
  "receiving after_emits" "queued (RunId ''a'') (rs_queue after_emits) = [sample_record 8]"
  "\<exists>h ch. rs_hub after_emits = Some h \<and> lh_runs h (RunId ''a'') = Some ch \<and> length (lc_sent ch) = 1"
  "rs_clients after_finish 3 = FinishDone (RunId ''a'') (Inr ())"
  "rs_accepted after_finish (RunId ''a'') = [sample_record 7, sample_record 8]"
  "rs_clients after_shutdown 4 = ShutdownDone (Inr ())"
  "rs_gates after_shutdown (RunId ''a'') = Some GateFinished"
  by (simp_all add: after_shutdown_def after_finish_def after_emits_def sample_shutdown_def sample_finish_def
      sample_emits_def sample_start_def recorder_eval)

lemma sample_reachable:
  "recorder_reachable memory_state_new (Some live_hub_options_new) recorder_options_new after_emits"
  "recorder_reachable memory_state_new (Some live_hub_options_new) recorder_options_new after_finish"
  "recorder_reachable memory_state_new (Some live_hub_options_new) recorder_options_new after_shutdown"
proof -
  note steps = sample_runs [THEN acts_steps]
  show "recorder_reachable memory_state_new (Some live_hub_options_new) recorder_options_new after_emits"
    using steps(1) by (simp add: recorder_reachable_def sample_start_def)
  show "recorder_reachable memory_state_new (Some live_hub_options_new) recorder_options_new after_finish"
    using rtranclp_trans [OF steps(1) steps(2)] by (simp add: recorder_reachable_def sample_start_def)
  show "recorder_reachable memory_state_new (Some live_hub_options_new) recorder_options_new after_shutdown"
    using rtranclp_trans [OF rtranclp_trans [OF steps(1) steps(2)] steps(3)]
    by (simp add: recorder_reachable_def sample_start_def)
qed

theorem recorder_stores_in_order_witness:
  "rs_accepted after_emits (RunId ''a'') =
     map env_record (log_of (rs_store after_emits) (RunId ''a'')) @ [sample_record 8]"
  using recorder_stores_in_order [OF store_inv_new sample_reachable(1) sample_observed(1)]
  by (simp add: sample_observed)

theorem finish_run_is_a_barrier_witness:
  "map env_record (log_of (rs_store after_shutdown) (RunId ''a'')) = [sample_record 7, sample_record 8]"
  using finish_run_is_a_barrier [OF store_inv_new sample_reachable(2) sample_observed(5)
      acts_steps [OF sample_runs(3)]]
  by (simp add: sample_observed)

theorem shutdown_drains_witness:
  "map env_record (log_of (rs_store after_shutdown) (RunId ''a'')) = rs_accepted after_shutdown (RunId ''a'')"
  by (rule shutdown_drains [OF store_inv_new sample_reachable(3) sample_observed(7,8)])

theorem published_is_stored_witness:
  "\<exists>h ch. rs_hub after_emits = Some h \<and> lh_runs h (RunId ''a'') = Some ch
     \<and> length (lc_sent ch) = 1 \<and> lc_sent ch = log_of (rs_store after_emits) (RunId ''a'')"
  using sample_observed(4) published_is_stored [OF store_inv_new sample_reachable(1)] by blast

end
