(* ===== verification/Expl_Sse.thy ===== *)
theory Expl_Sse
  imports Expl_Store Expl_Hub
begin

text \<open>
  The event stream of a run (\<open>graphloom-studio\<close>, \<open>explainability/sse.rs\<close>): the cursor of a request, replay of
  stored envelopes page by page, live delivery, and recovery when live delivery lags.

  The stream is a state machine; one turn of the loop of \<open>next_envelope\<close> is a function of what its only
  await returns: a page of the store or a live envelope. Subscribing reads the hub twice, for the receiver
  and for the snapshot, so it is a phase of its own. HTTP, keep-alive and the JSON text are third-party code.
\<close>

subsection \<open>Requests\<close>

datatype sse_request_error = InvalidCursor

definition ascii_digit :: "char \<Rightarrow> bool" where
  "ascii_digit c \<longleftrightarrow> 48 \<le> (of_char c :: nat) \<and> (of_char c :: nat) \<le> 57"

definition parse_last_event_id :: "string \<Rightarrow> sse_request_error + u64" where
  "parse_last_event_id v =
     (if v = [] \<or> \<not> list_all ascii_digit v then Inl InvalidCursor
      else if dec_val v < 2 ^ 64 then Inr (of_nat (dec_val v)) else Inl InvalidCursor)"

text \<open>A header value is \<open>None\<close> when it is not text.\<close>

definition resolve_cursor :: "string option option \<Rightarrow> u64 option \<Rightarrow> sse_request_error + u64" where
  "resolve_cursor last_event_id query_cursor =
     (case last_event_id of
        Some v \<Rightarrow> and_then (ok_or InvalidCursor v) parse_last_event_id
      | None \<Rightarrow> Inr (case query_cursor of None \<Rightarrow> 0 | Some n \<Rightarrow> n))"

datatype sse_response = FixedError nat string | EventStream run_id u64

definition invalid_request_body :: string where
  "invalid_request_body = ''invalid explainability event request''"

text \<open>\<open>path\<close> and \<open>query\<close> are \<open>None\<close> when the framework rejects them.\<close>

definition events_handler ::
  "(run_id \<Rightarrow> store_error + expl_run option) \<Rightarrow> string option \<Rightarrow> u64 option option \<Rightarrow> string option option \<Rightarrow> sse_response" where
  "events_handler lookup path query last_event_id =
     (case path of
        None \<Rightarrow> FixedError 400 invalid_request_body
      | Some raw \<Rightarrow>
     (case run_id_from_str raw of
        Inl _ \<Rightarrow> FixedError 400 invalid_request_body
      | Inr r \<Rightarrow>
     (case (if last_event_id \<noteq> None then Some None else query) of
        None \<Rightarrow> FixedError 400 invalid_request_body
      | Some query_cursor \<Rightarrow>
     (case resolve_cursor last_event_id query_cursor of
        Inl _ \<Rightarrow> FixedError 400 invalid_request_body
      | Inr last_seen \<Rightarrow>
     (case lookup r of
        Inl _ \<Rightarrow> FixedError 500 ''explainability service unavailable''
      | Inr None \<Rightarrow> FixedError 404 ''explainability run not found''
      | Inr (Some run) \<Rightarrow>
          if run_event_count run < last_seen
          then FixedError 409 ''explainability event cursor is ahead of persisted history''
          else EventStream r last_seen)))))"

subsection \<open>The stream\<close>

definition replay_page_size :: u32 where
  "replay_page_size = 64"

datatype sse_error = StoreError | SequenceInvariant | Serialization

datatype stream_phase =
    CatchUp u64 live_subscription
  | Live live_subscription
  | FinalCatchUp
  | DoneAfterPending
  | Done
  | Subscribing             \<comment> \<open>about to call \<open>subscribe\<close>\<close>
  | SubscribingAt nat       \<comment> \<open>receiver registered, snapshot not yet read\<close>

record 'ev envelope_stream =
  es_run_id :: run_id
  es_last_seen :: u64
  es_phase :: stream_phase
  es_pending :: "'ev envelope list"

definition envelope_stream_new :: "run_id \<Rightarrow> u64 \<Rightarrow> 'ev envelope_stream" where
  "envelope_stream_new r n = \<lparr>es_run_id = r, es_last_seen = n, es_phase = Subscribing, es_pending = []\<rparr>"

text \<open>The phase after \<open>subscribe\<close>, in \<open>new\<close> and in \<open>recover_live_gap\<close>.\<close>

fun subscribed_phase :: "live_subscription option \<Rightarrow> stream_phase" where
  "subscribed_phase (Some subscription) = CatchUp (ls_snapshot_sequence subscription) subscription"
| "subscribed_phase None = FinalCatchUp"

fun push_page ::
  "run_id \<Rightarrow> u64 option \<Rightarrow> 'ev envelope list \<Rightarrow> 'ev envelope list \<Rightarrow> (sse_error + bool) \<times> 'ev envelope list" where
  "push_page r expected [] pending = (Inr True, pending)"
| "push_page r None (e # es) pending = (Inl SequenceInvariant, pending)"
| "push_page r (Some n) (e # es) pending =
     (if env_run e \<noteq> r \<or> env_sequence e \<noteq> n then (Inl SequenceInvariant, pending)
      else push_page r (u64_checked_add n 1) es (pending @ [e]))"

text \<open>\<open>load\<close> is the store at the time of the call.\<close>

definition load_store_page ::
  "(run_id \<Rightarrow> event_query \<Rightarrow> store_error + 'ev envelope list) \<Rightarrow> 'ev envelope_stream \<Rightarrow> (sse_error + bool) \<times> 'ev envelope_stream" where
  "load_store_page load s =
     (case event_query_with_limit replay_page_size (event_query_after (es_last_seen s) event_query_new) of
        Inl _ \<Rightarrow> (Inl StoreError, s)
      | Inr query \<Rightarrow>
     (case load (es_run_id s) query of
        Inl _ \<Rightarrow> (Inl StoreError, s)
      | Inr page \<Rightarrow>
          if unat replay_page_size < length page then (Inl SequenceInvariant, s)
          else if page = [] then (Inr False, s)
          else
            (case u64_checked_add (es_last_seen s) 1 of
               None \<Rightarrow> (Inl SequenceInvariant, s)
             | Some n \<Rightarrow>
                 (case push_page (es_run_id s) (Some n) page (es_pending s) of
                    (res, pending) \<Rightarrow> (res, s\<lparr>es_pending := pending\<rparr>)))))"

datatype 'ev received = RecvEnvelope "'ev envelope" | RecvLagged | RecvClosed

datatype 'ev turn = Yield "sse_error + 'ev envelope" | Ended | Again

definition stream_fail :: "sse_error \<Rightarrow> 'ev envelope_stream \<Rightarrow> 'ev turn \<times> 'ev envelope_stream" where
  "stream_fail e s = (Yield (Inl e), s\<lparr>es_pending := [], es_phase := Done\<rparr>)"

text \<open>One turn of the loop; \<open>received\<close> is what \<open>recv\<close> returns, with the subscription it leaves.\<close>

definition live_turn ::
  "'ev received \<Rightarrow> live_subscription \<Rightarrow> 'ev envelope_stream \<Rightarrow> 'ev turn \<times> 'ev envelope_stream" where
  "live_turn received subscription s =
     (case received of
        RecvEnvelope e \<Rightarrow>
          if env_run e \<noteq> es_run_id s then stream_fail SequenceInvariant s
          else if env_sequence e \<le> es_last_seen s then (Again, s\<lparr>es_phase := Live subscription\<rparr>)
          else
            (case u64_checked_add (es_last_seen s) 1 of
               None \<Rightarrow> stream_fail SequenceInvariant s
             | Some expected \<Rightarrow>
                 if env_sequence e = expected
                 then (Yield (Inr e), s\<lparr>es_last_seen := env_sequence e, es_phase := Live subscription\<rparr>)
                 else (Again, s\<lparr>es_phase := Subscribing\<rparr>))
      | RecvLagged \<Rightarrow> (Again, s\<lparr>es_phase := Subscribing\<rparr>)
      | RecvClosed \<Rightarrow> (Again, s\<lparr>es_phase := FinalCatchUp\<rparr>))"

definition next_turn ::
  "(run_id \<Rightarrow> event_query \<Rightarrow> store_error + 'ev envelope list) \<Rightarrow> 'ev received \<times> live_subscription
   \<Rightarrow> 'ev envelope_stream \<Rightarrow> 'ev turn \<times> 'ev envelope_stream" where
  "next_turn load received s =
     (case es_pending s of
        e # es \<Rightarrow> (Yield (Inr e), s\<lparr>es_pending := es, es_last_seen := env_sequence e\<rparr>)
      | [] \<Rightarrow>
     (case es_phase s of
        CatchUp target subscription \<Rightarrow>
          if target \<le> es_last_seen s then (Again, s\<lparr>es_phase := Live subscription\<rparr>)
          else
            (case load_store_page load s of
               (Inr False, s) \<Rightarrow> stream_fail SequenceInvariant s
             | (Inr True, s) \<Rightarrow> (Again, s)
             | (Inl e, s) \<Rightarrow> stream_fail e s)
      | Live subscription \<Rightarrow> live_turn (fst received) (snd received) s
      | FinalCatchUp \<Rightarrow>
            (case load_store_page load s of
               (Inr False, s) \<Rightarrow> (Ended, s\<lparr>es_phase := Done\<rparr>)
             | (Inr True, s) \<Rightarrow>
                 (Again, if length (es_pending s) < unat replay_page_size then s\<lparr>es_phase := DoneAfterPending\<rparr> else s)
             | (Inl e, s) \<Rightarrow> stream_fail e s)
      | DoneAfterPending \<Rightarrow> (Ended, s\<lparr>es_phase := Done\<rparr>)
      | Done \<Rightarrow> (Ended, s)
      | _ \<Rightarrow> (Again, s)))"

subsection \<open>The run it follows\<close>

text \<open>A run as store and hub show it: the stored log, what was sent on its live channel, the sequence that
  channel announces to a subscriber, and whether the hub still has it. Storing precedes publishing;
  publishing stores the sequence, then sends; nothing is stored once the channel is closed.\<close>

record 'ev live_run =
  lr_log :: "'ev envelope list"
  lr_sent :: "'ev envelope list"
  lr_sequence :: u64
  lr_open :: bool

inductive run_step :: "run_id \<Rightarrow> 'ev live_run \<Rightarrow> 'ev live_run \<Rightarrow> bool" for r where
  stores: "lr_open w \<Longrightarrow> env_run e = r \<Longrightarrow> unat (env_sequence e) = Suc (length (lr_log w)) \<Longrightarrow>
     run_step r w (w\<lparr>lr_log := lr_log w @ [e]\<rparr>)"
| announces: "lr_open w \<Longrightarrow> length (lr_sent w) < length (lr_log w) \<Longrightarrow>
     run_step r w (w\<lparr>lr_sequence := env_sequence (lr_log w ! length (lr_sent w))\<rparr>)"
| sends: "lr_open w \<Longrightarrow> length (lr_sent w) < length (lr_log w) \<Longrightarrow>
     lr_sequence w = env_sequence (lr_log w ! length (lr_sent w)) \<Longrightarrow>
     run_step r w (w\<lparr>lr_sent := lr_sent w @ [lr_log w ! length (lr_sent w)]\<rparr>)"
| closes: "lr_open w \<Longrightarrow> run_step r w (w\<lparr>lr_open := False\<rparr>)"

text \<open>What the store may answer, and what a receiver may get: the next envelope, or a report that it lags and was
  moved on, or that the channel is closed and drained.\<close>

definition loads :: "run_id \<Rightarrow> 'ev live_run \<Rightarrow> (run_id \<Rightarrow> event_query \<Rightarrow> store_error + 'ev envelope list) \<Rightarrow> bool" where
  "loads r w load \<longleftrightarrow>
     (\<forall>q. (\<exists>e. load r q = Inl e) \<or> load r q =
        Inr (take (unat (eq_limit q)) (drop (case eq_after_sequence q of None \<Rightarrow> 0 | Some a \<Rightarrow> unat a) (lr_log w))))"

inductive receives :: "'ev live_run \<Rightarrow> live_subscription \<Rightarrow> 'ev received \<times> live_subscription \<Rightarrow> bool" for w sub where
  envelope: "ls_receiver sub < length (lr_sent w) \<Longrightarrow>
     receives w sub (RecvEnvelope (lr_sent w ! ls_receiver sub), sub\<lparr>ls_receiver := Suc (ls_receiver sub)\<rparr>)"
| lagged: "ls_receiver sub < p \<Longrightarrow> p \<le> length (lr_sent w) \<Longrightarrow> receives w sub (RecvLagged, sub\<lparr>ls_receiver := p\<rparr>)"
| closed: "length (lr_sent w) \<le> ls_receiver sub \<Longrightarrow> \<not> lr_open w \<Longrightarrow> receives w sub (RecvClosed, sub)"

record 'ev streaming =
  sm_run :: "'ev live_run"
  sm_stream :: "'ev envelope_stream"
  sm_out :: "(sse_error + 'ev envelope) list"
  sm_ended :: bool

definition apply_turn :: "'ev turn \<times> 'ev envelope_stream \<Rightarrow> 'ev streaming \<Rightarrow> 'ev streaming" where
  "apply_turn t s =
     (case t of (turn, st) \<Rightarrow>
        (case turn of
           Yield x \<Rightarrow> s\<lparr>sm_stream := st, sm_out := sm_out s @ [x]\<rparr>
         | Ended \<Rightarrow> s\<lparr>sm_stream := st, sm_ended := True\<rparr>
         | Again \<Rightarrow> s\<lparr>sm_stream := st\<rparr>))"

inductive stream_step :: "run_id \<Rightarrow> 'ev streaming \<Rightarrow> 'ev streaming \<Rightarrow> bool" for r where
  run: "run_step r (sm_run s) w \<Longrightarrow> stream_step r s (s\<lparr>sm_run := w\<rparr>)"
| registers: "\<not> sm_ended s \<Longrightarrow> es_pending (sm_stream s) = [] \<Longrightarrow> es_phase (sm_stream s) = Subscribing \<Longrightarrow> lr_open (sm_run s) \<Longrightarrow>
     stream_step r s (s\<lparr>sm_stream := (sm_stream s)\<lparr>es_phase := SubscribingAt (length (lr_sent (sm_run s)))\<rparr>\<rparr>)"
| no_channel: "\<not> sm_ended s \<Longrightarrow> es_pending (sm_stream s) = [] \<Longrightarrow> es_phase (sm_stream s) = Subscribing \<Longrightarrow> \<not> lr_open (sm_run s) \<Longrightarrow>
     stream_step r s (s\<lparr>sm_stream := (sm_stream s)\<lparr>es_phase := subscribed_phase None\<rparr>\<rparr>)"
| snapshot: "\<not> sm_ended s \<Longrightarrow> es_pending (sm_stream s) = [] \<Longrightarrow> es_phase (sm_stream s) = SubscribingAt p \<Longrightarrow>
     stream_step r s (s\<lparr>sm_stream := (sm_stream s)\<lparr>es_phase := subscribed_phase (Some
       \<lparr>ls_run_id = r, ls_snapshot_sequence = lr_sequence (sm_run s), ls_receiver = p\<rparr>)\<rparr>\<rparr>)"
| turns: "\<not> sm_ended s \<Longrightarrow> loads r (sm_run s) load \<Longrightarrow>
     (\<forall>sub. es_pending (sm_stream s) = [] \<and> es_phase (sm_stream s) = Live sub \<longrightarrow> receives (sm_run s) sub received) \<Longrightarrow>
     (es_pending (sm_stream s) = [] \<longrightarrow> es_phase (sm_stream s) \<noteq> Subscribing \<and> (\<forall>p. es_phase (sm_stream s) \<noteq> SubscribingAt p)) \<Longrightarrow>
     stream_step r s (apply_turn (next_turn load received (sm_stream s)) s)"

definition streaming_start :: "'ev live_run \<Rightarrow> run_id \<Rightarrow> u64 \<Rightarrow> 'ev streaming" where
  "streaming_start w r n = \<lparr>sm_run = w, sm_stream = envelope_stream_new r n, sm_out = [], sm_ended = False\<rparr>"

definition live_run_ok :: "run_id \<Rightarrow> 'ev live_run \<Rightarrow> bool" where
  "live_run_ok r w \<longleftrightarrow>
     contiguous_from 0 (lr_log w) \<and> (\<forall>e \<in> set (lr_log w). env_run e = r) \<and> length (lr_log w) < 2 ^ 64
     \<and> lr_sent w = take (length (lr_sent w)) (lr_log w)
     \<and> length (lr_sent w) \<le> unat (lr_sequence w) \<and> unat (lr_sequence w) \<le> length (lr_log w)"

end
