(* ===== verification/Expl_Sse_Laws.thy ===== *)
theory Expl_Sse_Laws
  imports Expl_Sse
begin

text \<open>
  What the event stream guarantees: it delivers the stored log after the cursor, in order and each envelope
  once, never meets a broken sequence, and ends only when all is delivered.
\<close>

lemma u64_bound: "unat (n :: u64) < 2 ^ 64"
  using unsigned_less [of n] by simp

lemma live_run_ok_step: "run_step r w w' \<Longrightarrow> live_run_ok r w \<Longrightarrow> live_run_ok r w'"
proof (induction rule: run_step.induct)
  case (stores w e)
  have "Suc (length (lr_log w)) < 2 ^ 64" using stores(3) u64_bound [of "env_sequence e"] by simp
  with stores show ?case
    by (auto simp: live_run_ok_def contiguous_from_append contiguous_from_Cons take_append)
next
  case (announces w)
  then have "unat (env_sequence (lr_log w ! length (lr_sent w))) = Suc (length (lr_sent w))"
    using contiguous_nth [of 0 "lr_log w"] by (simp add: live_run_ok_def)
  with announces show ?case by (auto simp: live_run_ok_def)
next
  case (sends w)
  then have "unat (env_sequence (lr_log w ! length (lr_sent w))) = Suc (length (lr_sent w))"
    using contiguous_nth [of 0 "lr_log w"] by (simp add: live_run_ok_def)
  with sends show ?case by (auto simp: live_run_ok_def take_Suc_conv_app_nth)
qed (simp add: live_run_ok_def)

lemma push_page_contiguous:
  "contiguous_from k page \<Longrightarrow> \<forall>e \<in> set page. env_run e = r \<Longrightarrow> (page \<noteq> [] \<Longrightarrow> \<exists>n. expected = Some n \<and> unat n = Suc k) \<Longrightarrow>
   push_page r expected page pending = (Inr True, pending @ page)"
proof (induction page arbitrary: k expected pending)
  case (Cons e page)
  obtain n where n: "expected = Some n" "unat n = Suc k" using Cons.prems(3) by auto
  have e: "env_sequence e = n" using Cons.prems(1) n(2) by (simp add: contiguous_from_Cons word_unat_eq_iff)
  have rest: "contiguous_from (Suc k) page" using Cons.prems(1) by (simp add: contiguous_from_Cons)
  have "\<exists>m. u64_checked_add n 1 = Some m \<and> unat m = Suc (Suc k)" if "page \<noteq> []"
  proof -
    have "unat (env_sequence (hd page)) = Suc (Suc k)" using rest that by (cases page) (auto simp: contiguous_from_Cons)
    then have "Suc (Suc k) < 2 ^ 64" using u64_bound [of "env_sequence (hd page)"] by simp
    then have "u64_checked_add n 1 \<noteq> None" by (simp add: u64_checked_add_one_None n(2))
    then show ?thesis using u64_checked_add_one_Some n(2) by fastforce
  qed
  then show ?case using Cons.IH [OF rest, of "u64_checked_add n 1"] Cons.prems(2) by (simp add: n e)
qed simp

lemma contiguous_from_page:
  assumes "contiguous_from 0 l" "n \<le> length l"
  shows "contiguous_from n (take k (drop n l))"
proof -
  have "contiguous_from n (drop n l)"
    using contiguous_from_append [of 0 "take n l" "drop n l"] assms by (cases "length l = n") auto
  then show ?thesis
    using contiguous_from_append [of n "take k (drop n l)" "drop k (drop n l)"]
    unfolding append_take_drop_id by blast
qed

lemma page_query: "event_query_with_limit replay_page_size (event_query_after n event_query_new) =
   Inr (\<lparr>eq_after_sequence = Some n, eq_limit = replay_page_size\<rparr>)"
  by (simp add: event_query_with_limit_def event_query_after_def event_query_new_def validate_limit_def
      replay_page_size_def max_event_query_limit_def)

definition page_after :: "u64 \<Rightarrow> event_query" where
  "page_after n = \<lparr>eq_after_sequence = Some n, eq_limit = replay_page_size\<rparr>"

lemma load_store_page_failed:
  "load (es_run_id s) (page_after (es_last_seen s)) = Inl e \<Longrightarrow> load_store_page load s = (Inl StoreError, s)"
  by (simp add: load_store_page_def page_query page_after_def)

lemma load_store_page_empty:
  "load (es_run_id s) (page_after (es_last_seen s)) = Inr [] \<Longrightarrow> load_store_page load s = (Inr False, s)"
  by (simp add: load_store_page_def page_query page_after_def)

lemma load_store_page_page:
  assumes load: "load (es_run_id s) (page_after (es_last_seen s)) = Inr page" "page \<noteq> []" "length page \<le> 64"
    and page: "contiguous_from (unat (es_last_seen s)) page" "\<forall>e \<in> set page. env_run e = es_run_id s"
    and s: "es_pending s = []"
  shows "load_store_page load s = (Inr True, s\<lparr>es_pending := page\<rparr>)"
proof -
  obtain e es where e: "page = e # es" using load(2) by (cases page) auto
  then have "unat (env_sequence e) = Suc (unat (es_last_seen s))" using page(1) by (simp add: contiguous_from_Cons)
  then have "Suc (unat (es_last_seen s)) < 2 ^ 64" using u64_bound [of "env_sequence e"] by simp
  then have "u64_checked_add (es_last_seen s) 1 \<noteq> None" by (simp add: u64_checked_add_one_None)
  then obtain m where m: "u64_checked_add (es_last_seen s) 1 = Some m" "unat m = Suc (unat (es_last_seen s))"
    using u64_checked_add_one_Some by fastforce
  have "push_page (es_run_id s) (Some m) page [] = (Inr True, page)"
    using push_page_contiguous [OF page, of "Some m" "[]"] m by simp
  then show ?thesis
    using load m(1) s by (simp add: load_store_page_def page_query flip: page_after_def) (simp add: replay_page_size_def)
qed

lemma load_store_page_cases:
  assumes ok: "live_run_ok r w" and loads: "loads r w load" and s: "es_run_id s = r" "es_pending s = []"
    and last: "unat (es_last_seen s) \<le> length (lr_log w)"
  obtains "load_store_page load s = (Inl StoreError, s)"
  | "load_store_page load s = (Inr False, s)" "unat (es_last_seen s) = length (lr_log w)"
  | page where "load_store_page load s = (Inr True, s\<lparr>es_pending := page\<rparr>)" "page \<noteq> []"
      "page = take 64 (drop (unat (es_last_seen s)) (lr_log w))"
proof -
  let ?n = "unat (es_last_seen s)"
  define page where "page = take 64 (drop ?n (lr_log w))"
  have "(\<exists>e. load r (page_after (es_last_seen s)) = Inl e) \<or> load r (page_after (es_last_seen s)) = Inr page"
    using spec [OF loads [unfolded loads_def], of "page_after (es_last_seen s)"]
    by (simp add: page_after_def replay_page_size_def page_def)
  then consider (failed) e where "load r (page_after (es_last_seen s)) = Inl e"
    | (empty) "load r (page_after (es_last_seen s)) = Inr []" "page = []"
    | (page) "load r (page_after (es_last_seen s)) = Inr page" "page \<noteq> []"
    by (cases "page = []") auto
  then show thesis
  proof cases
    case failed
    then show thesis using that(1) load_store_page_failed [of load s] s by simp
  next
    case empty
    then show thesis using that(2) load_store_page_empty [of load s] last s by (simp add: page_def)
  next
    case page
    have "contiguous_from ?n page" using ok last by (simp add: live_run_ok_def contiguous_from_page page_def)
    moreover have "\<forall>e \<in> set page. env_run e = r"
      using ok by (auto simp: live_run_ok_def page_def dest!: in_set_takeD in_set_dropD)
    ultimately show thesis using load_store_page_page [of load s page] page s that(3) by (simp add: page_def)
  qed
qed

text \<open>The invariant: what was sent is the log from the cursor \<open>c\<close> to the last sequence seen, what is pending
  follows it, and the phase says what is still to come.\<close>

fun phase_ok :: "stream_phase \<Rightarrow> 'ev live_run \<Rightarrow> nat \<Rightarrow> bool \<Rightarrow> bool" where
  "phase_ok (CatchUp target sub) w n failed \<longleftrightarrow> \<not> failed \<and> unat target \<le> length (lr_log w)"
| "phase_ok FinalCatchUp w n failed \<longleftrightarrow> \<not> failed \<and> \<not> lr_open w"
| "phase_ok DoneAfterPending w n failed \<longleftrightarrow> \<not> failed \<and> \<not> lr_open w \<and> n = length (lr_log w)"
| "phase_ok Done w n failed \<longleftrightarrow> failed \<or> \<not> lr_open w \<and> n = length (lr_log w)"
| "phase_ok _ w n failed \<longleftrightarrow> \<not> failed"

definition stream_ok :: "run_id \<Rightarrow> nat \<Rightarrow> 'ev streaming \<Rightarrow> bool \<Rightarrow> bool" where
  "stream_ok r c s failed \<longleftrightarrow>
     (let w = sm_run s; st = sm_stream s; n = unat (es_last_seen st); k = length (es_pending st) in
      live_run_ok r w \<and> es_run_id st = r \<and> c \<le> n \<and> n + k \<le> length (lr_log w)
      \<and> sm_out s = map Inr (drop c (take n (lr_log w))) @ (if failed then [Inl StoreError] else [])
      \<and> es_pending st = take k (drop n (lr_log w))
      \<and> (failed \<longrightarrow> es_pending st = [])
      \<and> (sm_ended s \<longrightarrow> es_phase st = Done \<and> es_pending st = [])
      \<and> phase_ok (es_phase st) w (n + k) failed)"

lemma apply_turn_simps [simp]:
  "apply_turn (Yield x, st) s = s\<lparr>sm_stream := st, sm_out := sm_out s @ [x]\<rparr>"
  "apply_turn (Ended, st) s = s\<lparr>sm_stream := st, sm_ended := True\<rparr>"
  "apply_turn (Again, st) s = s\<lparr>sm_stream := st\<rparr>"
  by (simp_all add: apply_turn_def)

lemma phase_ok_run_step: "run_step r w w' \<Longrightarrow> phase_ok ph w n failed \<Longrightarrow> phase_ok ph w' n failed"
  by (cases ph; cases rule: run_step.cases) auto

lemma run_step_log: "run_step r w w' \<Longrightarrow> \<exists>es. lr_log w' = lr_log w @ es"
  by (cases rule: run_step.cases) auto

lemma stream_ok_run: "run_step r (sm_run s) w \<Longrightarrow> stream_ok r c s failed \<Longrightarrow> stream_ok r c (s\<lparr>sm_run := w\<rparr>) failed"
  using live_run_ok_step [of r "sm_run s" w] run_step_log [of r "sm_run s" w]
    phase_ok_run_step [of r "sm_run s" w "es_phase (sm_stream s)"]
  by (auto simp: stream_ok_def Let_def)

lemma log_entry:
  "live_run_ok r w \<Longrightarrow> n < length (lr_log w) \<Longrightarrow>
   unat (env_sequence (lr_log w ! n)) = Suc n \<and> env_run (lr_log w ! n) = r"
  using contiguous_nth [of 0 "lr_log w"] by (simp add: live_run_ok_def)

lemma pending_head:
  assumes "stream_ok r c s failed" "es_pending (sm_stream s) = e # es"
  shows "unat (es_last_seen (sm_stream s)) < length (lr_log (sm_run s))"
    and "e = lr_log (sm_run s) ! unat (es_last_seen (sm_stream s))"
    and "es = take (length es) (drop (Suc (unat (es_last_seen (sm_stream s)))) (lr_log (sm_run s)))"
    and "unat (env_sequence e) = Suc (unat (es_last_seen (sm_stream s)))"
proof -
  let ?l = "lr_log (sm_run s)" and ?n = "unat (es_last_seen (sm_stream s))"
  show n: "?n < length ?l" using assms by (auto simp: stream_ok_def Let_def)
  have l: "e # es = take (Suc (length es)) (drop ?n ?l)" using assms by (auto simp: stream_ok_def Let_def)
  then show e: "e = ?l ! ?n" and es: "es = take (length es) (drop (Suc ?n) ?l)"
    using Cons_nth_drop_Suc [OF n] by (metis list.inject take_Suc_Cons)+
  show "unat (env_sequence e) = Suc ?n"
    using assms(1) n e log_entry [of r "sm_run s"] by (simp add: stream_ok_def Let_def)
qed

lemma stream_ok_pending:
  assumes "stream_ok r c s failed" "es_pending (sm_stream s) = e # es"
  shows "stream_ok r c (apply_turn (Yield (Inr e), (sm_stream s)\<lparr>es_pending := es, es_last_seen := env_sequence e\<rparr>) s) failed"
  using assms pending_head [OF assms] by (auto simp: stream_ok_def Let_def take_Suc_conv_app_nth)

lemma stream_ok_fail:
  "stream_ok r c s False \<Longrightarrow> \<not> sm_ended s \<Longrightarrow> es_pending (sm_stream s) = [] \<Longrightarrow>
   stream_ok r c (apply_turn (stream_fail StoreError (sm_stream s)) s) True"
  by (simp add: stream_fail_def stream_ok_def Let_def)

lemma stream_ok_page:
  "stream_ok r c s False \<Longrightarrow> \<not> sm_ended s \<Longrightarrow> page = take 64 (drop (unat (es_last_seen (sm_stream s))) (lr_log (sm_run s))) \<Longrightarrow>
   phase_ok ph (sm_run s) (unat (es_last_seen (sm_stream s)) + length page) False \<Longrightarrow>
   stream_ok r c (apply_turn (Again, (sm_stream s)\<lparr>es_pending := page, es_phase := ph\<rparr>) s) False"
  by (auto simp: stream_ok_def Let_def min_def)

lemma stream_ok_page_stay:
  "stream_ok r c s False \<Longrightarrow> \<not> sm_ended s \<Longrightarrow> page = take 64 (drop (unat (es_last_seen (sm_stream s))) (lr_log (sm_run s))) \<Longrightarrow>
   phase_ok (es_phase (sm_stream s)) (sm_run s) (unat (es_last_seen (sm_stream s)) + length page) False \<Longrightarrow>
   stream_ok r c (apply_turn (Again, (sm_stream s)\<lparr>es_pending := page\<rparr>) s) False"
  by (auto simp: stream_ok_def Let_def min_def)

lemma stream_ok_phase:
  "stream_ok r c s failed \<Longrightarrow> \<not> sm_ended s \<Longrightarrow> es_pending (sm_stream s) = [] \<Longrightarrow>
   phase_ok ph (sm_run s) (unat (es_last_seen (sm_stream s))) failed \<Longrightarrow>
   stream_ok r c (apply_turn (Again, (sm_stream s)\<lparr>es_phase := ph\<rparr>) s) failed"
  by (simp add: stream_ok_def Let_def)

lemma stream_ok_end:
  "stream_ok r c s failed \<Longrightarrow> es_pending (sm_stream s) = [] \<Longrightarrow>
   phase_ok Done (sm_run s) (unat (es_last_seen (sm_stream s))) failed \<Longrightarrow>
   stream_ok r c (apply_turn (Ended, (sm_stream s)\<lparr>es_phase := Done\<rparr>) s) failed"
  by (simp add: stream_ok_def Let_def)

lemma stream_ok_live_turn:
  assumes ok: "stream_ok r c s False" "\<not> sm_ended s" "es_pending (sm_stream s) = []"
    and received: "receives (sm_run s) sub received"
  shows "stream_ok r c (apply_turn (live_turn (fst received) (snd received) (sm_stream s)) s) False"
  using received
proof (cases rule: receives.cases)
  case envelope
  let ?w = "sm_run s" and ?st = "sm_stream s"
  let ?e = "lr_sent ?w ! ls_receiver sub" and ?n = "unat (es_last_seen (sm_stream s))"
  have w: "live_run_ok r ?w" "es_run_id ?st = r" using ok(1) by (auto simp: stream_ok_def Let_def)
  have bound: "ls_receiver sub < length (lr_log ?w)" and nth: "?e = lr_log ?w ! ls_receiver sub"
    using w(1) envelope(2) by (auto simp: live_run_ok_def) (metis nth_take)+
  from log_entry [OF w(1) bound] have e: "unat (env_sequence ?e) = Suc (ls_receiver sub)" "env_run ?e = r"
    by (simp_all add: nth)
  show ?thesis
  proof (cases "env_sequence ?e \<le> es_last_seen ?st")
    case True
    then show ?thesis using ok stream_ok_phase [OF ok] envelope(1) e w by (simp add: live_turn_def)
  next
    case False
    then have n: "?n \<le> ls_receiver sub" using e(1) by (simp add: word_le_nat_alt)
    then have "Suc ?n < 2 ^ 64" using e(1) u64_bound [of "env_sequence ?e"] by simp
    then have "u64_checked_add (es_last_seen ?st) 1 \<noteq> None" by (simp add: u64_checked_add_one_None)
    then obtain m where m: "u64_checked_add (es_last_seen ?st) 1 = Some m" "unat m = Suc ?n"
      using u64_checked_add_one_Some by fastforce
    show ?thesis
    proof (cases "env_sequence ?e = m")
      case True
      then have p: "ls_receiver sub = ?n" using e(1) m(2) by simp
      then show ?thesis using ok True False m e w bound envelope(1) nth [unfolded p]
        by (simp add: live_turn_def stream_ok_def Let_def take_Suc_conv_app_nth)
    next
      case neq: False
      then show ?thesis using stream_ok_phase [OF ok] envelope(1) e w False m by (simp add: live_turn_def)
    qed
  qed
qed (use stream_ok_phase [OF ok] in \<open>simp_all add: live_turn_def\<close>)

lemma stream_ok_turn:
  assumes ok: "stream_ok r c s failed" "\<not> sm_ended s" and loads: "loads r (sm_run s) load"
    and received: "\<forall>sub. es_pending (sm_stream s) = [] \<and> es_phase (sm_stream s) = Live sub \<longrightarrow> receives (sm_run s) sub received"
  shows "\<exists>failed. stream_ok r c (apply_turn (next_turn load received (sm_stream s)) s) failed"
proof (cases "es_pending (sm_stream s)")
  case (Cons e es)
  then show ?thesis using stream_ok_pending [OF ok(1)] by (auto simp: next_turn_def)
next
  case Nil
  let ?w = "sm_run s" and ?st = "sm_stream s" and ?n = "unat (es_last_seen (sm_stream s))"
  have w: "live_run_ok r ?w" "es_run_id ?st = r" "?n \<le> length (lr_log ?w)" "phase_ok (es_phase ?st) ?w ?n failed"
    using ok Nil by (auto simp: stream_ok_def Let_def)
  note load = load_store_page_cases [OF w(1) loads w(2) Nil w(3)]
  show ?thesis
  proof (cases "es_phase ?st")
    case (CatchUp target sub)
    then have unfailed: "\<not> failed" "unat target \<le> length (lr_log ?w)" using w(4) by auto
    show ?thesis
    proof (cases "target \<le> es_last_seen ?st")
      case True
      then show ?thesis using stream_ok_phase [OF ok Nil, of "Live sub"] unfailed Nil CatchUp by (auto simp: next_turn_def)
    next
      case False
      show ?thesis
      proof (cases rule: load)
        case 1
        then show ?thesis using stream_ok_fail [of r c s] ok unfailed Nil CatchUp False by (auto simp: next_turn_def)
      next
        case 2
        then show ?thesis using False unfailed(2) by (simp add: word_le_nat_alt)
      next
        case (3 page)
        then show ?thesis using stream_ok_page_stay [of r c s page] ok unfailed Nil CatchUp False
          by (auto simp: next_turn_def)
      qed
    qed
  next
    case (Live sub)
    then show ?thesis using stream_ok_live_turn [of r c s sub received] ok w(4) received Nil by (auto simp: next_turn_def)
  next
    case FinalCatchUp
    then have unfailed: "\<not> failed" "\<not> lr_open ?w" using w(4) by auto
    show ?thesis
    proof (cases rule: load)
      case 1
      then show ?thesis using stream_ok_fail [of r c s] ok unfailed Nil FinalCatchUp by (auto simp: next_turn_def)
    next
      case 2
      then show ?thesis using stream_ok_end [OF ok(1) Nil] unfailed FinalCatchUp Nil by (auto simp: next_turn_def)
    next
      case (3 page)
      then have "length page < 64 \<Longrightarrow> ?n + length page = length (lr_log ?w)" using w(3) by (simp add: min_def split: if_splits)
      then show ?thesis using 3 FinalCatchUp Nil unfailed ok
          stream_ok_page_stay [of r c s page] stream_ok_page [of r c s page DoneAfterPending]
        by (auto simp: next_turn_def replay_page_size_def)
    qed
  next
    case DoneAfterPending
    then have "stream_ok r c (apply_turn (Ended, ?st\<lparr>es_phase := Done\<rparr>) s) failed"
      using stream_ok_end [OF ok(1) Nil] w(4) by simp
    then show ?thesis using DoneAfterPending Nil by (auto simp: next_turn_def)
  next
    case Done
    then have "stream_ok r c (s\<lparr>sm_stream := ?st, sm_ended := True\<rparr>) failed"
      using ok(1) Nil by (simp add: stream_ok_def Let_def)
    then show ?thesis using Done Nil by (auto simp: next_turn_def)
  qed (use ok(1) Nil in \<open>auto simp: next_turn_def\<close>)
qed

lemma stream_ok_step: "stream_step r s s' \<Longrightarrow> stream_ok r c s failed \<Longrightarrow> \<exists>failed. stream_ok r c s' failed"
proof (induction rule: stream_step.cases)
  case (run s w)
  then show ?case using stream_ok_run by blast
next
  case (registers s)
  then show ?case
    using stream_ok_phase [of r c s failed "SubscribingAt (length (lr_sent (sm_run s)))"] by (auto simp: stream_ok_def Let_def)
next
  case (no_channel s)
  then show ?case using stream_ok_phase [of r c s failed FinalCatchUp] by (auto simp: stream_ok_def Let_def)
next
  case (snapshot s p)
  then show ?case by (auto simp: stream_ok_def Let_def live_run_ok_def)
next
  case (turns s load received)
  then show ?case using stream_ok_turn by blast
qed

lemma stream_ok_start: "live_run_ok r w \<Longrightarrow> unat n \<le> length (lr_log w) \<Longrightarrow> stream_ok r (unat n) (streaming_start w r n) False"
  by (simp add: stream_ok_def streaming_start_def envelope_stream_new_def)

lemma stream_ok_reachable:
  assumes "live_run_ok r w" "unat n \<le> length (lr_log w)" "(stream_step r)\<^sup>*\<^sup>* (streaming_start w r n) s"
  obtains failed where "stream_ok r (unat n) s failed"
  using assms(3)
proof (induction arbitrary: thesis rule: rtranclp_induct)
  case base
  then show ?case using stream_ok_start [OF assms(1, 2)] by blast
next
  case (step s s')
  then show ?case using stream_ok_step by metis
qed

text \<open>C6: The event stream of a run that starts after sequence \<open>n\<close> delivers exactly the stored log after \<open>n\<close>,
  in order and each envelope once, whether it was replayed from the store or received live, while the writer,
  the channel and the store interleave with it in any way and live delivery lags or not. The only error it
  reports is a failing store, as its last item; a broken sequence is never reported. It ends without an error only when the
  channel is closed and the whole log is delivered.\<close>

theorem sse_stream_exact:
  assumes "live_run_ok r w" "unat n \<le> length (lr_log w)" "(stream_step r)\<^sup>*\<^sup>* (streaming_start w r n) s"
  shows "\<exists>k failed. k \<le> length (lr_log (sm_run s))
    \<and> sm_out s = map Inr (drop (unat n) (take k (lr_log (sm_run s)))) @ (if failed then [Inl StoreError] else [])
    \<and> (sm_ended s \<and> \<not> failed \<longrightarrow> \<not> lr_open (sm_run s) \<and> k = length (lr_log (sm_run s)))"
proof -
  obtain failed where "stream_ok r (unat n) s failed" using stream_ok_reachable [OF assms] .
  then show ?thesis
    by (intro exI [of _ "unat (es_last_seen (sm_stream s))"] exI [of _ failed]) (auto simp: stream_ok_def Let_def)
qed

subsection \<open>Ending\<close>

text \<open>Once the channel is closed every step decreases this measure.\<close>

fun phase_rank :: "stream_phase \<Rightarrow> nat" where
  "phase_rank (SubscribingAt p) = 5"
| "phase_rank (CatchUp target sub) = 4"
| "phase_rank (Live sub) = 3"
| "phase_rank Subscribing = 2"
| "phase_rank FinalCatchUp = 1"
| "phase_rank DoneAfterPending = 1"
| "phase_rank Done = 0"

fun unreceived :: "stream_phase \<Rightarrow> nat \<Rightarrow> nat" where
  "unreceived (Live sub) sent = sent - ls_receiver sub"
| "unreceived ph sent = 0"

definition stream_measure :: "'ev streaming \<Rightarrow> nat" where
  "stream_measure s =
     (let w = sm_run s; st = sm_stream s; sent = length (lr_sent w) in
      phase_rank (es_phase st) * Suc sent + unreceived (es_phase st) sent
      + 2 * (length (lr_log w) - unat (es_last_seen st)) + (if es_pending st = [] then 1 else 0)
      + (if sm_ended s then 0 else 1))"

lemma measure_pending:
  assumes "stream_ok r c s failed" "es_pending (sm_stream s) = e # es"
  shows "stream_measure (apply_turn (Yield (Inr e), (sm_stream s)\<lparr>es_pending := es, es_last_seen := env_sequence e\<rparr>) s) < stream_measure s"
  using assms(2) pending_head(1, 4) [OF assms] by (simp add: stream_measure_def Let_def) arith

lemma measure_page:
  "es_pending (sm_stream s) = [] \<Longrightarrow> page \<noteq> [] \<Longrightarrow> phase_rank ph \<le> phase_rank (es_phase (sm_stream s)) \<Longrightarrow>
   unreceived ph (length (lr_sent (sm_run s))) = 0 \<Longrightarrow>
   stream_measure (apply_turn (Again, (sm_stream s)\<lparr>es_pending := page, es_phase := ph\<rparr>) s) < stream_measure s"
  using mult_le_mono1 [of "phase_rank ph" "phase_rank (es_phase (sm_stream s))" "Suc (length (lr_sent (sm_run s)))"]
  by (simp only: stream_measure_def Let_def apply_turn_simps) simp

lemma measure_page_stay:
  "es_pending (sm_stream s) = [] \<Longrightarrow> page \<noteq> [] \<Longrightarrow>
   stream_measure (apply_turn (Again, (sm_stream s)\<lparr>es_pending := page\<rparr>) s) < stream_measure s"
  by (simp add: stream_measure_def Let_def)

definition phase_weight :: "stream_phase \<Rightarrow> nat \<Rightarrow> nat" where
  "phase_weight ph sent = phase_rank ph * Suc sent + unreceived ph sent"

lemma phase_weight_rank: "phase_rank ph < phase_rank ph' \<Longrightarrow> phase_weight ph n < phase_weight ph' n"
proof -
  assume "phase_rank ph < phase_rank ph'"
  then have "Suc (phase_rank ph) * Suc n \<le> phase_rank ph' * Suc n" by (intro mult_le_mono1) simp
  moreover have "unreceived ph n \<le> n" by (cases ph) auto
  ultimately show ?thesis by (simp add: phase_weight_def)
qed

lemma measure_phase:
  "es_pending (sm_stream s) = [] \<Longrightarrow>
   phase_weight ph (length (lr_sent (sm_run s))) < phase_weight (es_phase (sm_stream s)) (length (lr_sent (sm_run s))) \<Longrightarrow>
   stream_measure (apply_turn (Again, (sm_stream s)\<lparr>es_phase := ph\<rparr>) s) < stream_measure s"
  by (simp add: stream_measure_def phase_weight_def Let_def)

lemma measure_fail:
  "es_pending (sm_stream s) = [] \<Longrightarrow> 0 < phase_rank (es_phase (sm_stream s)) \<Longrightarrow>
   stream_measure (apply_turn (stream_fail e (sm_stream s)) s) < stream_measure s"
  by (simp add: stream_measure_def stream_fail_def Let_def)

lemma measure_end:
  "\<not> sm_ended s \<Longrightarrow> stream_measure (apply_turn (Ended, (sm_stream s)\<lparr>es_phase := Done\<rparr>) s) < stream_measure s"
  by (simp add: stream_measure_def Let_def)

lemma live_turn_cases:
  obtains "live_turn (RecvEnvelope e) sub st = stream_fail SequenceInvariant st"
  | "live_turn (RecvEnvelope e) sub st = (Again, st\<lparr>es_phase := Live sub\<rparr>)"
  | "live_turn (RecvEnvelope e) sub st = (Again, st\<lparr>es_phase := Subscribing\<rparr>)"
  | "live_turn (RecvEnvelope e) sub st = (Yield (Inr e), st\<lparr>es_last_seen := env_sequence e, es_phase := Live sub\<rparr>)"
    "unat (env_sequence e) = Suc (unat (es_last_seen st))"
  using u64_checked_add_one_Some [of "es_last_seen st"]
  by (fastforce simp: live_turn_def split: if_splits option.splits)

lemma measure_live:
  assumes ok: "stream_ok r c s False" "es_pending (sm_stream s) = []" "es_phase (sm_stream s) = Live sub"
    and received: "receives (sm_run s) sub received"
  shows "stream_measure (apply_turn (live_turn (fst received) (snd received) (sm_stream s)) s) < stream_measure s"
  using received
proof (cases rule: receives.cases)
  case envelope
  let ?sent = "length (lr_sent (sm_run s))" and ?sub = "sub\<lparr>ls_receiver := Suc (ls_receiver sub)\<rparr>"
  have live: "phase_weight (Live ?sub) ?sent < phase_weight (Live sub) ?sent"
    using envelope(2) by (simp add: phase_weight_def)
  have gap: "phase_weight Subscribing ?sent < phase_weight (Live sub) ?sent"
    by (rule phase_weight_rank) simp
  show ?thesis
  proof (cases rule: live_turn_cases [of "lr_sent (sm_run s) ! ls_receiver sub" ?sub "sm_stream s"])
    case 4
    then show ?thesis using live ok envelope(1) by (simp add: stream_measure_def phase_weight_def Let_def)
  qed (use live gap measure_phase [OF ok(2)] measure_fail [OF ok(2)] ok(3) envelope(1) in simp_all)
qed (use measure_phase [OF ok(2), of Subscribing] measure_phase [OF ok(2), of FinalCatchUp] ok(3) in
    \<open>auto simp: live_turn_def phase_weight_rank\<close>)

lemma measure_turn:
  assumes ok: "stream_ok r c s failed" "\<not> sm_ended s" and loads: "loads r (sm_run s) load"
    and received: "\<forall>sub. es_pending (sm_stream s) = [] \<and> es_phase (sm_stream s) = Live sub \<longrightarrow> receives (sm_run s) sub received"
    and subscribed: "es_pending (sm_stream s) = [] \<longrightarrow> es_phase (sm_stream s) \<noteq> Subscribing \<and> (\<forall>p. es_phase (sm_stream s) \<noteq> SubscribingAt p)"
  shows "stream_measure (apply_turn (next_turn load received (sm_stream s)) s) < stream_measure s"
proof (cases "es_pending (sm_stream s)")
  case (Cons e es)
  then show ?thesis using measure_pending [OF ok(1)] by (simp add: next_turn_def)
next
  case Nil
  let ?w = "sm_run s" and ?st = "sm_stream s" and ?n = "unat (es_last_seen (sm_stream s))"
  have w: "live_run_ok r ?w" "es_run_id ?st = r" "?n \<le> length (lr_log ?w)" "phase_ok (es_phase ?st) ?w ?n failed"
    using ok Nil by (auto simp: stream_ok_def Let_def)
  note load = load_store_page_cases [OF w(1) loads w(2) Nil w(3)]
  note moves = measure_phase [OF Nil] measure_fail [OF Nil] measure_end [OF ok(2)] measure_page_stay [OF Nil]
  show ?thesis
  proof (cases "es_phase ?st")
    case (CatchUp target sub)
    show ?thesis
    proof (cases "target \<le> es_last_seen ?st")
      case True
      then show ?thesis using moves(1) [of "Live sub"] CatchUp Nil by (simp add: next_turn_def phase_weight_rank)
    next
      case False
      show ?thesis by (cases rule: load) (use False CatchUp Nil moves in \<open>simp_all add: next_turn_def\<close>)
    qed
  next
    case (Live sub)
    then show ?thesis using measure_live [of r c s sub received] ok w(4) received Nil by (simp add: next_turn_def)
  next
    case FinalCatchUp
    show ?thesis
    proof (cases rule: load)
      case (3 page)
      then show ?thesis using FinalCatchUp Nil moves(4) measure_page [OF Nil, of page DoneAfterPending] by (simp add: next_turn_def)
    qed (use FinalCatchUp Nil moves in \<open>simp_all add: next_turn_def\<close>)
  next
    case DoneAfterPending
    then show ?thesis using moves(3) Nil by (simp add: next_turn_def)
  next
    case Done
    then show ?thesis using ok(2) Nil by (simp add: next_turn_def stream_measure_def Let_def)
  qed (use subscribed Nil in auto)
qed

lemma measure_step:
  "stream_step r s s' \<Longrightarrow> stream_ok r c s failed \<Longrightarrow> \<not> lr_open (sm_run s) \<Longrightarrow> stream_measure s' < stream_measure s \<and> sm_run s' = sm_run s"
proof (induction rule: stream_step.cases)
  case (run s w)
  then show ?case by (auto elim: run_step.cases)
next
  case (no_channel s)
  then show ?case using measure_phase [of s FinalCatchUp] by (simp add: phase_weight_rank)
next
  case (snapshot s p)
  then show ?case using measure_phase [of s] by (simp add: phase_weight_rank)
next
  case (turns s load received)
  moreover have "sm_run (apply_turn t s) = sm_run s" for t by (cases t; cases "fst t") (auto simp: apply_turn_def)
  ultimately show ?case using measure_turn by blast
qed simp

lemma stream_enabled:
  assumes "\<not> sm_ended s" "\<not> lr_open (sm_run s)"
  shows "\<exists>s'. stream_step r s s'"
proof -
  let ?w = "sm_run s" and ?st = "sm_stream s"
  define load :: "run_id \<Rightarrow> event_query \<Rightarrow> store_error + 'a envelope list" where "load = (\<lambda>_ q.
    Inr (take (unat (eq_limit q)) (drop (case eq_after_sequence q of None \<Rightarrow> 0 | Some a \<Rightarrow> unat a) (lr_log ?w))))"
  have load: "loads r ?w load" by (simp add: loads_def load_def)
  have "\<exists>received. receives ?w sub received" for sub
    using receives.envelope [of sub ?w] receives.closed [of ?w sub] assms(2) by (meson not_le)
  then have "\<exists>received. \<forall>sub. es_pending ?st = [] \<and> es_phase ?st = Live sub \<longrightarrow> receives ?w sub received"
    by (cases "es_phase ?st") auto
  then obtain received where received: "\<forall>sub. es_pending ?st = [] \<and> es_phase ?st = Live sub \<longrightarrow> receives ?w sub received" ..
  consider "es_pending ?st = []" "es_phase ?st = Subscribing" | p where "es_pending ?st = []" "es_phase ?st = SubscribingAt p"
    | "es_pending ?st = [] \<longrightarrow> es_phase ?st \<noteq> Subscribing \<and> (\<forall>p. es_phase ?st \<noteq> SubscribingAt p)" by blast
  then show ?thesis
    by cases (use stream_step.no_channel stream_step.snapshot stream_step.turns [OF assms(1) load received] assms in blast)+
qed

lemma stream_steps_bounded:
  assumes "(stream_step r ^^ m) s s'" "stream_ok r c s failed" "\<not> lr_open (sm_run s)"
  shows "stream_measure s' + m \<le> stream_measure s \<and> \<not> lr_open (sm_run s')"
proof -
  have "\<exists>failed'. stream_measure s' + m \<le> stream_measure s \<and> \<not> lr_open (sm_run s') \<and> stream_ok r c s' failed'"
    using assms(1)
  proof (induction m arbitrary: s')
    case 0
    then show ?case using assms(2, 3) by auto
  next
    case (Suc m)
    then obtain t where t: "(stream_step r ^^ m) s t" "stream_step r t s'" by auto
    from Suc.IH [OF t(1)] obtain f where IH: "stream_measure t + m \<le> stream_measure s" "\<not> lr_open (sm_run t)" "stream_ok r c t f"
      by blast
    then show ?case using measure_step [OF t(2) IH(3, 2)] stream_ok_step [OF t(2) IH(3)] by auto
  qed
  then show ?thesis by blast
qed

lemma stream_measure_bound: "stream_measure s \<le> 5 * Suc (length (lr_sent (sm_run s))) + 2 * length (lr_log (sm_run s)) + 2"
  by (cases "es_phase (sm_stream s)"; simp add: stream_measure_def Let_def; arith)

text \<open>C7: Once the channel of the run is closed, the event stream ends: however its steps, the store and the
  receiver are scheduled, it takes at most a number of steps linear in what was sent and stored, and as
  long as it has not ended it can take another step.\<close>

theorem sse_stream_ends:
  assumes "live_run_ok r w" "unat n \<le> length (lr_log w)" "(stream_step r)\<^sup>*\<^sup>* (streaming_start w r n) s"
    and "\<not> lr_open (sm_run s)" "(stream_step r ^^ m) s s'"
  shows "m \<le> 5 * Suc (length (lr_sent (sm_run s))) + 2 * length (lr_log (sm_run s)) + 2
    \<and> (sm_ended s' \<or> (\<exists>s''. stream_step r s' s''))"
proof -
  obtain failed where ok: "stream_ok r (unat n) s failed" using stream_ok_reachable [OF assms(1-3)] .
  note bounded = stream_steps_bounded [OF assms(5) ok assms(4)]
  then show ?thesis using stream_measure_bound [of s] stream_enabled [of s' r] by force
qed

subsection \<open>Requests and the store\<close>

text \<open>The cursor of a stream that is opened lies within the stored log, and the in-memory store answers as the
  stream's steps assume.\<close>

lemma events_handler_opens:
  assumes "events_handler (\<lambda>r. get_run r st) path query header = EventStream r n" "store_inv st"
  shows "run_of st r \<noteq> None \<and> unat n \<le> length (log_of st r)"
proof -
  obtain run where run: "run_of st r = Some run" "n \<le> run_event_count run"
    using assms(1) by (auto simp: events_handler_def get_run_def run_of_def split: option.splits sum.splits if_splits)
  then show ?thesis using store_inv_entry [OF assms(2) run(1)] by (simp add: run_entry_ok_def word_le_nat_alt)
qed

lemma memory_loads:
  "store_inv st \<Longrightarrow> lr_log w = log_of st r \<Longrightarrow> loads r w (\<lambda>r q. load_events r q st)"
  by (simp add: loads_def load_events_exact)

subsection \<open>A stream\<close>

text \<open>A closed run of two envelopes, streamed after the first.\<close>

definition closed_sample :: "nat live_run" where
  "closed_sample = \<lparr>lr_log = [sample_envelope ''a'' 1, sample_envelope ''a'' 2],
     lr_sent = [sample_envelope ''a'' 1, sample_envelope ''a'' 2], lr_sequence = 2, lr_open = False\<rparr>"

definition sample_load :: "run_id \<Rightarrow> event_query \<Rightarrow> store_error + nat envelope list" where
  "sample_load r q = Inr (take (unat (eq_limit q))
     (drop (case eq_after_sequence q of None \<Rightarrow> 0 | Some a \<Rightarrow> unat a) (lr_log closed_sample)))"

definition sample_turn :: "nat streaming \<Rightarrow> nat streaming" where
  "sample_turn s = apply_turn (next_turn sample_load
     (RecvClosed, \<lparr>ls_run_id = RunId ''a'', ls_snapshot_sequence = 0, ls_receiver = 0\<rparr>) (sm_stream s)) s"

definition streamed_sample :: "nat \<Rightarrow> nat streaming" where
  "streamed_sample k = (sample_turn ^^ k)
     \<lparr>sm_run = closed_sample,
      sm_stream = \<lparr>es_run_id = RunId ''a'', es_last_seen = 1, es_phase = FinalCatchUp, es_pending = []\<rparr>, sm_out = [], sm_ended = False\<rparr>"

lemma closed_sample_ok: "live_run_ok (RunId ''a'') closed_sample"
  by (simp add: live_run_ok_def closed_sample_def contiguous_from_Cons sample_envelope_def)

lemma sample_page:
  "load_store_page sample_load \<lparr>es_run_id = RunId ''a'', es_last_seen = 1, es_phase = FinalCatchUp, es_pending = []\<rparr> =
   (Inr True, \<lparr>es_run_id = RunId ''a'', es_last_seen = 1, es_phase = FinalCatchUp, es_pending = [sample_envelope ''a'' 2]\<rparr>)"
  by (subst load_store_page_page [where page = "[sample_envelope ''a'' 2]"])
     (simp_all add: sample_load_def page_after_def closed_sample_def replay_page_size_def sample_envelope_def contiguous_from_Cons)

lemma page_size: "unat replay_page_size = 64"
  by (simp add: replay_page_size_def)

lemma streamed_samples:
  "streamed_sample 0 = \<lparr>sm_run = closed_sample,
     sm_stream = \<lparr>es_run_id = RunId ''a'', es_last_seen = 1, es_phase = FinalCatchUp, es_pending = []\<rparr>, sm_out = [], sm_ended = False\<rparr>"
  "streamed_sample 1 = \<lparr>sm_run = closed_sample,
     sm_stream = \<lparr>es_run_id = RunId ''a'', es_last_seen = 1, es_phase = DoneAfterPending, es_pending = [sample_envelope ''a'' 2]\<rparr>,
     sm_out = [], sm_ended = False\<rparr>"
  "streamed_sample 2 = \<lparr>sm_run = closed_sample,
     sm_stream = \<lparr>es_run_id = RunId ''a'', es_last_seen = 2, es_phase = DoneAfterPending, es_pending = []\<rparr>,
     sm_out = [Inr (sample_envelope ''a'' 2)], sm_ended = False\<rparr>"
  "streamed_sample 3 = \<lparr>sm_run = closed_sample,
     sm_stream = \<lparr>es_run_id = RunId ''a'', es_last_seen = 2, es_phase = Done, es_pending = []\<rparr>,
     sm_out = [Inr (sample_envelope ''a'' 2)], sm_ended = True\<rparr>"
  by (simp_all add: streamed_sample_def sample_turn_def next_turn_def sample_page page_size numeral_2_eq_2 numeral_3_eq_3)
     (simp_all add: sample_envelope_def)

lemma sample_step:
  "\<not> sm_ended (streamed_sample k) \<Longrightarrow> sm_run (streamed_sample k) = closed_sample \<Longrightarrow>
   es_phase (sm_stream (streamed_sample k)) \<in> {FinalCatchUp, DoneAfterPending} \<Longrightarrow>
   stream_step (RunId ''a'') (streamed_sample k) (streamed_sample (Suc k))"
  using stream_step.turns [of "streamed_sample k" "RunId ''a''" sample_load]
  by (auto simp: streamed_sample_def sample_turn_def loads_def sample_load_def)

lemma sample_streams: "(stream_step (RunId ''a''))\<^sup>*\<^sup>* (streaming_start closed_sample (RunId ''a'') 1) (streamed_sample 3)"
proof -
  have "stream_step (RunId ''a'') (streaming_start closed_sample (RunId ''a'') 1) (streamed_sample 0)"
    using stream_step.no_channel [of "streaming_start closed_sample (RunId ''a'') 1" "RunId ''a''"]
    by (simp add: streaming_start_def envelope_stream_new_def streamed_samples closed_sample_def)
  moreover have "stream_step (RunId ''a'') (streamed_sample 0) (streamed_sample 1)"
    "stream_step (RunId ''a'') (streamed_sample 1) (streamed_sample 2)" "stream_step (RunId ''a'') (streamed_sample 2) (streamed_sample 3)"
    using sample_step [of 0] sample_step [of 1] sample_step [of 2] streamed_samples
    by (simp_all add: numeral_2_eq_2 numeral_3_eq_3)
  ultimately show ?thesis by (meson rtranclp.rtrancl_refl rtranclp.rtrancl_into_rtrancl)
qed

theorem sse_stream_exact_witness:
  "sm_ended (streamed_sample 3) \<and> sm_out (streamed_sample 3) = map Inr (drop 1 (lr_log closed_sample))"
  using sse_stream_exact [OF closed_sample_ok _ sample_streams]
  by (auto simp: streamed_samples closed_sample_def split: if_splits)

theorem sse_stream_ends_witness:
  "(0::nat) \<le> 5 * Suc (length (lr_sent closed_sample)) + 2 * length (lr_log closed_sample) + 2
   \<and> (sm_ended (streamed_sample 3) \<or> (\<exists>s. stream_step (RunId ''a'') (streamed_sample 3) s))"
  using sse_stream_ends [OF closed_sample_ok _ sample_streams, of 0 "streamed_sample 3"]
  by (simp add: streamed_samples closed_sample_def)

end
