(* ===== verification/Expl_Follow.thy ===== *)
theory Expl_Follow
  imports Expl_Recorder_Laws Expl_Sse_Laws
begin

text \<open>
  The recorder drives the event stream: what a recorder step does to one run, seen from its log and its live
  channel, is a sequence of the steps the stream was verified against.
\<close>

record 'ev run_view =
  rv_registered :: bool
  rv_hub :: bool
  rv_log :: "'ev envelope list option"
  rv_channel :: "'ev live_run_channel option"
  rv_stopped :: bool

inductive view_step :: "run_id \<Rightarrow> 'ev run_view \<Rightarrow> 'ev run_view \<Rightarrow> bool" for r where
  same: "view_step r v v"
| stops: "view_step r v (v\<lparr>rv_stopped := True\<rparr>)"
| creates: "\<not> rv_registered v \<Longrightarrow>
     view_step r v (v\<lparr>rv_registered := True, rv_log := Some [],
       rv_channel := if rv_hub v then Some \<lparr>lc_sent = [], lc_last_sequence = 0\<rparr> else None\<rparr>)"
| records: "rv_registered v \<Longrightarrow> \<not> rv_stopped v \<Longrightarrow> rv_log v = Some l \<Longrightarrow> env_run e = r \<Longrightarrow> unat (env_sequence e) = Suc (length l) \<Longrightarrow>
     view_step r v (v\<lparr>rv_log := Some (l @ [e]),
       rv_channel := map_option (channel_send e \<circ> channel_store_sequence (env_sequence e)) (rv_channel v)\<rparr>)"
| closes: "rv_registered v \<Longrightarrow> view_step r v (v\<lparr>rv_channel := None, rv_stopped := True\<rparr>)"

definition view_ok :: "'ev run_view \<Rightarrow> bool" where
  "view_ok v \<longleftrightarrow> rv_registered v \<and> rv_hub v \<longrightarrow>
     (\<exists>l. rv_log v = Some l \<and>
        (case rv_channel v of
           None \<Rightarrow> rv_stopped v
         | Some ch \<Rightarrow> lc_sent ch = l \<and> unat (lc_last_sequence ch) = length l))"





subsection \<open>What the recorder does to one run\<close>

context run_history_store
begin

definition view_of :: "('s, 'ev) recorder \<Rightarrow> run_id \<Rightarrow> 'ev run_view" where
  "view_of s r = \<lparr>rv_registered = rs_gates s r \<noteq> None, rv_hub = rs_hub s \<noteq> None, rv_log = log_at s r,
     rv_channel = channel_at s r, rv_stopped = r \<in> rs_finished s \<or> \<not> receiving s\<rparr>"

lemma view_same:
  "rs_store s' = rs_store s \<Longrightarrow> rs_hub s' = rs_hub s \<Longrightarrow> rs_exit s' = rs_exit s \<Longrightarrow> rs_finished s' = rs_finished s \<Longrightarrow>
   (rs_gates s' r = None \<longleftrightarrow> rs_gates s r = None) \<Longrightarrow> view_step r (view_of s r) (view_of s' r)"
  by (simp add: view_of_def log_at_def channel_at_def view_step.same)

lemma client_view:
  "emit_step c pc s = Some s' \<Longrightarrow> view_step r (view_of s r) (view_of s' r)"
  "finish_step c pc s = Some s' \<Longrightarrow> pc = rs_clients s c \<Longrightarrow> recorder_inv s \<Longrightarrow> view_step r (view_of s r) (view_of s' r)"
  "create_step c pc s = Some s' \<Longrightarrow> view_step r (view_of s r) (view_of s' r)"
  "complete_step c pc s = Some s' \<Longrightarrow> view_step r (view_of s r) (view_of s' r)"
  "shutdown_step c pc s = Some s' \<Longrightarrow> view_step r (view_of s r) (view_of s' r)"
  "view_step r (view_of s r) (view_of (drop_client c s) r)"
proof -
  note splits = option.splits if_splits sum.splits reply.splits gate_state.splits
  show "emit_step c pc s = Some s' \<Longrightarrow> view_step r (view_of s r) (view_of s' r)"
    by (rule view_same; cases pc) (auto simp: client_prims split: splits)
  show "finish_step c pc s = Some s' \<Longrightarrow> pc = rs_clients s c \<Longrightarrow> recorder_inv s \<Longrightarrow> view_step r (view_of s r) (view_of s' r)"
  proof -
    assume st: "finish_step c pc s = Some s'" and inv: "pc = rs_clients s c" "recorder_inv s"
    have "rs_store s' = rs_store s \<and> rs_hub s' = rs_hub s \<and> rs_exit s' = rs_exit s \<and> rs_finished s' = rs_finished s"
      using st by (cases pc) (auto simp: client_prims split: splits)
    moreover have "rs_gates s' r = rs_gates s r \<or> holds_run pc = Some r \<and> rs_gates s' r \<noteq> None"
      using st by (cases pc) (auto simp: client_prims split: splits)
    ultimately show ?thesis using client_ok_of [OF inv(2), of c] inv(1) by (intro view_same) (auto simp: client_ok_def)
  qed
  show "create_step c pc s = Some s' \<Longrightarrow> view_step r (view_of s r) (view_of s' r)"
    by (rule view_same; cases pc) (auto simp: client_prims split: splits)
  show "complete_step c pc s = Some s' \<Longrightarrow> view_step r (view_of s r) (view_of s' r)"
    by (rule view_same; cases pc) (auto simp: client_prims split: splits)
  show "shutdown_step c pc s = Some s' \<Longrightarrow> view_step r (view_of s r) (view_of s' r)"
    by (rule view_same; cases pc) (auto simp: client_prims split: splits)
  show "view_step r (view_of s r) (view_of (drop_client c s) r)"
    by (rule view_same) (auto simp: drop_client_def client_prims split: client.splits)
qed

lemma view_of_pop: "view_of (s\<lparr>rs_queue := q\<rparr>) r = view_of s r"
  by (simp add: view_of_def log_at_def channel_at_def)

definition viewable :: "('s, 'ev) recorder \<Rightarrow> bool" where
  "viewable s \<longleftrightarrow> inv (rs_store s) \<and> (\<forall>r. rs_gates s r = None \<longrightarrow> channel_at s r = None)"

lemma viewable_inv: "recorder_inv s \<Longrightarrow> viewable (s\<lparr>rs_queue := q\<rparr>)"
proof -
  assume "recorder_inv s"
  then have store: "inv (rs_store s)" and run: "run_inv s r" for r by (auto simp: recorder_inv_def)
  have "rs_gates s r = None \<Longrightarrow> channel_at s r = None" for r using run [of r] by (simp add: run_inv_def run_ok_def)
  then show ?thesis using store by (simp add: viewable_def channel_at_def)
qed

lemma create_view:
  assumes "viewable s" "receiving s"
  shows "view_step r (view_of s r) (view_of (run_command ops (CmdCreateRun run t) s) r)"
proof (cases "rs_gates s (run_run_id run)")
  case (Some g)
  then show ?thesis by (intro view_same) (simp_all add: create_run_for_writer_def respond_def)
next
  case None
  let ?r = "run_run_id run"
  have store: "inv (rs_store s)" using assms(1) by (simp add: viewable_def)
  obtain res store' where created: "so_create ops run (rs_store s) = (res, store')" by fastforce
  show ?thesis
  proof (cases res)
    case (Inl e)
    then have "hist store' = hist (rs_store s)" using failed_calls_keep_history(1) [OF store] created by simp
    then have "view_of (run_command ops (CmdCreateRun run t) s) r = view_of s r"
      using Inl None created by (simp add: create_run_for_writer_def respond_def view_of_def log_at_def channel_at_def)
    then show ?thesis by (simp add: view_step.same)
  next
    case (Inr u)
    then have hist: "hist store' = (hist (rs_store s))(?r \<mapsto> (run, []))" using create_new [OF store] created by simp
    show ?thesis
    proof (cases "r = ?r")
      case False
      then have "view_of (run_command ops (CmdCreateRun run t) s) r = view_of s r"
        using Inr None created hist
        by (cases "rs_hub s") (simp_all add: create_run_for_writer_def respond_def view_of_def log_at_def channel_at_def
            gate_complete_def on_hub_def hub_other_run)
      then show ?thesis by (simp add: view_step.same)
    next
      case True
      have "channel_at s r = None" using assms(1) True None by (simp add: viewable_def)
      then have "view_of (run_command ops (CmdCreateRun run t) s) r = (view_of s r)\<lparr>rv_registered := True, rv_log := Some [],
         rv_channel := if rv_hub (view_of s r) then Some \<lparr>lc_sent = [], lc_last_sequence = 0\<rparr> else None\<rparr>"
        using Inr None created hist True
        by (cases "rs_hub s") (simp_all add: create_run_for_writer_def respond_def view_of_def log_at_def channel_at_def
            gate_complete_def on_hub_def hub_register_run_def)
      then show ?thesis using view_step.creates [of "view_of s r" r] None True by (simp add: view_of_def)
    qed
  qed
qed

lemma record_view:
  assumes inv: "viewable s" "receiving s" "rs_gates s (rec_run_id x) \<noteq> None" "rec_run_id x \<notin> rs_finished s"
  shows "view_step r (view_of s r) (view_of (run_command ops (CmdRecord x) s) r)"
proof -
  have store: "inv (rs_store s)" using inv(1) by (simp add: viewable_def)
  obtain res s1 where p: "persist_record ops x s = (res, s1)" by fastforce
  from p store inv(3, 4) show ?thesis
  proof (cases rule: persist_record_cases)
    case (failed e store')
    then have "view_of (run_command ops (CmdRecord x) s) r = (view_of s r)\<lparr>rv_stopped := True\<rparr>"
      using p by (simp add: view_of_def writer_return_def mark_writer_failed_def log_at_def channel_at_def)
    then show ?thesis by (simp add: view_step.stops)
  next
    case (stored n e run l store')
    show ?thesis
    proof (cases "r = rec_run_id x")
      case False
      then have "view_of (run_command ops (CmdRecord x) s) r = view_of s r"
        using stored p by (cases "rs_hub s") (auto simp: view_of_def log_at_def channel_at_def on_hub_def hub_other_run)
      then show ?thesis by (simp add: view_step.same)
    next
      case True
      then have view: "view_of (run_command ops (CmdRecord x) s) r = (view_of s r)\<lparr>rv_log := Some (l @ [e]),
         rv_channel := map_option (channel_send e \<circ> channel_store_sequence (env_sequence e)) (rv_channel (view_of s r))\<rparr>"
        using stored p
        by (cases "rs_hub s") (auto simp: view_of_def log_at_def channel_at_def on_hub_def hub_publish_def split: option.splits)
      have "rv_registered (view_of s r)" "\<not> rv_stopped (view_of s r)" "rv_log (view_of s r) = Some l" "env_run e = r"
        using stored inv True by (simp_all add: view_of_def log_at_def)
      from view_step.records [OF this stored(5) [folded stored(3)]] show ?thesis by (simp only: view)
    qed
  qed
qed

lemma finish_view:
  assumes "receiving s"
  shows "view_step r (view_of s r) (view_of (run_command ops (CmdFinishRun x t) s) r)"
proof (cases "rs_gates s x = Some GateFinishing \<and> r = x")
  case True
  then have "view_of (run_command ops (CmdFinishRun x t) s) r = (view_of s r)\<lparr>rv_channel := None, rv_stopped := True\<rparr>"
    using assms by (cases "rs_hub s") (auto simp: finish_run_for_writer_def respond_def gate_complete_def view_of_def log_at_def channel_at_def
      on_hub_def hub_close_run_def)
  then show ?thesis using view_step.closes [of "view_of s r" r] True by (simp add: view_of_def)
next
  case False
  then have "view_of (run_command ops (CmdFinishRun x t) s) r = view_of s r"
    by (cases "rs_hub s") (auto simp: finish_run_for_writer_def respond_def gate_complete_def view_of_def log_at_def channel_at_def
      on_hub_def hub_other_run)
  then show ?thesis by (simp add: view_step.same)
qed

lemma complete_view:
  assumes "viewable s"
  shows "view_step r (view_of s r) (view_of (run_command ops (CmdCompleteRun x t) s) r)"
proof -
  have store: "inv (rs_store s)" using assms by (simp add: viewable_def)
  have "view_of (run_command ops (CmdCompleteRun x t) s) r = view_of s r"
    using complete_keeps_logs(2) [OF store] 
    by (auto simp: complete_run_for_writer_def respond_def view_of_def log_at_def channel_at_def split: prod.splits sum.splits)
  then show ?thesis by (simp add: view_step.same)
qed

text \<open>The writer stops, and with it may close every live run.\<close>

lemma stop_view:
  assumes "viewable s" "rs_store s' = rs_store s" "rs_gates s' r = None \<longleftrightarrow> rs_gates s r = None" "rs_exit s' \<noteq> None"
    and "rs_hub s' = rs_hub s \<or> rs_hub s' = rs_hub (close_live_runs s)"
  shows "view_step r (view_of s r) (view_of s' r)"
proof -
  have unregistered: "rs_gates s r = None \<Longrightarrow> channel_at s r = None"
    using assms(1) by (simp add: viewable_def)
  have hub: "(rs_hub (close_live_runs s) = None) = (rs_hub s = None)" by (simp add: close_live_runs_def on_hub_def)
  have "channel_at s' r = channel_at s r \<or> channel_at s' r = channel_at (close_live_runs s) r"
    using assms(5) by (auto simp: channel_at_def)
  then have "view_of s' r = (view_of s r)\<lparr>rv_stopped := True\<rparr>
    \<or> rs_gates s r \<noteq> None \<and> view_of s' r = (view_of s r)\<lparr>rv_channel := None, rv_stopped := True\<rparr>"
    using assms(2-5) unregistered hub by (auto simp: view_of_def log_at_def channel_at_close)
  then show ?thesis using view_step.stops [of r "view_of s r"] view_step.closes [of "view_of s r" r]
    by (auto simp: view_of_def)
qed

lemma writer_view:
  assumes inv: "recorder_inv s" and st: "writer_step ops s = Some s'"
  shows "view_step r (view_of s r) (view_of s' r)"
proof -
  from st obtain cmd rest where cmd: "receiving s" "rs_queue s = cmd # rest" "s' = run_command ops cmd (s\<lparr>rs_queue := rest\<rparr>)"
    by (auto split: if_splits list.splits)
  let ?s = "s\<lparr>rs_queue := rest\<rparr>"
  have viewable: "viewable ?s" and receiving: "receiving ?s" using viewable_inv [OF inv] cmd(1) by simp_all
  have "view_step r (view_of ?s r) (view_of s' r)"
  proof (cases cmd)
    case (CmdRecord x)
    have "run_inv s (rec_run_id x)" using inv by (simp add: recorder_inv_def)
    then have "rs_gates ?s (rec_run_id x) \<noteq> None" "rec_run_id x \<notin> rs_finished ?s"
      using cmd(2) CmdRecord by (auto simp: run_inv_def run_ok_def split: option.splits)
    then show ?thesis using record_view [OF viewable receiving] cmd(3) CmdRecord by blast
  next
    case (CmdShutdown t)
    then show ?thesis unfolding cmd(3)
      by (intro stop_view [OF viewable]) (simp_all add: writer_return_def respond_def close_live_runs_simps)
  qed (use cmd(3) create_view [OF viewable receiving] finish_view [OF receiving] complete_view [OF viewable] in blast)+
  then show ?thesis by (simp only: view_of_pop)
qed

lemma recorder_view:
  assumes "recorder_step ops s s'" "recorder_inv s"
  shows "view_step r (view_of s r) (view_of s' r)"
  using assms(1)
proof cases
  case (begin_operation c pc)
  then show ?thesis by (intro view_same) (simp_all add: goto_def)
next
  case disconnected
  then show ?thesis using viewable_inv [OF assms(2), of "rs_queue s"]
    by (intro stop_view) (auto simp: writer_disconnected_def writer_return_def mark_writer_failed_def split: if_splits)
next
  case ended
  then obtain res where s': "rs_exit s = Some res" "s' = (guard_drop s)\<lparr>rs_joined := Some res\<rparr>"
    by (auto simp: writer_end_def split: option.splits if_splits)
  have "rs_hub (guard_drop s) = rs_hub s \<or> rs_hub (guard_drop s) = rs_hub (close_live_runs s)"
    by (auto simp: guard_drop_def close_live_runs_def on_hub_def fun_eq_iff map_option_case split: option.splits)
  then show ?thesis using viewable_inv [OF assms(2), of "rs_queue s"] s'
    by (intro stop_view) (auto simp: guard_drop_def close_live_runs_simps)
next
  case (emit c)
  then show ?thesis by (rule client_view(1))
next
  case (finish c)
  then show ?thesis using assms(2) by (rule client_view(2) [OF _ refl])
next
  case (create c)
  then show ?thesis by (rule client_view(3))
next
  case (complete c)
  then show ?thesis by (rule client_view(4))
next
  case (shutdown c)
  then show ?thesis by (rule client_view(5))
next
  case (drop_operation c)
  show ?thesis unfolding drop_operation by (rule client_view(6))
next
  case writer
  then show ?thesis by (rule writer_view [OF assms(2)])
qed

lemma recorder_views:
  "(recorder_step ops)\<^sup>*\<^sup>* s s' \<Longrightarrow> recorder_inv s \<Longrightarrow> recorder_inv s' \<and> (view_step r)\<^sup>*\<^sup>* (view_of s r) (view_of s' r)"
proof (induction rule: rtranclp_induct)
  case (step t u)
  then show ?case using recorder_view [of t u r] recorder_step_inv [of t u] by (meson rtranclp.rtrancl_into_rtrancl)
qed simp

lemma view_ok_start: "hub = None \<or> hub = Some (live_hub_new options) \<Longrightarrow> view_ok (view_of (recorder_start store hub ropts) r)"
  by (simp add: view_ok_def view_of_def recorder_start_def)

end





end
