(* ===== verification/Graph_Build.thy ===== *)
theory Graph_Build
  imports Prelude "HOL-Library.Product_Lexorder"
begin

text \<open>
  Building the knowledge graph (\<open>operations/graph/types.rs\<close>, \<open>merge.rs\<close>, \<open>finalize.rs\<close>): grouping
  extracted entities and relationships, dropping dangling relationships, degrees, and the final
  rows.

  A \<open>HashMap\<close> from keys to positions is a partial function; a \<open>BTreeSet\<close> that is only inserted
  into and asked for membership is a set; \<open>degree_map\<close> is an ordered map. Weights are of a
  type \<open>'w\<close> with addition, standing for \<open>f64\<close>: the theorems fix the order of the additions and
  use none of their laws. The random identifiers of \<open>Uuid::new_v4\<close> are a parameter \<open>uuid\<close>, the
  identifier generated for the \<open>n\<close>-th row.
\<close>

subsection \<open>Rows\<close>

record raw_entity_row =
  rawe_title :: string
  rawe_entity_type :: string
  rawe_description :: string
  rawe_source_id :: string

record 'w raw_relationship_row =
  rawr_source :: string
  rawr_target :: string
  rawr_description :: string
  rawr_source_id :: string
  rawr_weight :: 'w

record entity_row =
  er_title :: string
  er_entity_type :: string
  er_description :: "string list"
  er_text_unit_ids :: "string list"
  er_frequency :: i64

record 'w relationship_row =
  rr_source :: string
  rr_target :: string
  rr_description :: "string list"
  rr_text_unit_ids :: "string list"
  rr_weight :: 'w

record summarized_entity_row =
  se_title :: string
  se_entity_type :: string
  se_description :: string
  se_text_unit_ids :: "string list"
  se_frequency :: i64

record 'w summarized_relationship_row =
  sr_source :: string
  sr_target :: string
  sr_description :: string
  sr_text_unit_ids :: "string list"
  sr_weight :: 'w

record final_entity_row =
  fe_id :: string
  fe_human_readable_id :: i64
  fe_title :: string
  fe_entity_type :: string
  fe_description :: string
  fe_text_unit_ids :: "string list"
  fe_frequency :: i64
  fe_degree :: i64

record 'w final_relationship_row =
  fr_id :: string
  fr_human_readable_id :: i64
  fr_source :: string
  fr_target :: string
  fr_description :: string
  fr_weight :: 'w
  fr_combined_degree :: i64
  fr_text_unit_ids :: "string list"

record 'w finalized_graph =
  fg_entities :: "final_entity_row list"
  fg_relationships :: "'w final_relationship_row list"

datatype index_error = InvalidData string string

definition usize_to_i64 :: "usize \<Rightarrow> string \<Rightarrow> string \<Rightarrow> index_error + i64" where
  "usize_to_i64 n workflow field =
     (if int n \<le> i64_max then Inr (int n)
      else Inl (InvalidData workflow (field @ '' exceeds the supported signed 64-bit range'')))"

subsection \<open>First-seen order\<close>

definition first_seen :: "'a list \<Rightarrow> 'a list" where
  "first_seen xs = foldl (\<lambda>acc x. if x \<in> set acc then acc else acc @ [x]) [] xs"

lemma first_seen_Nil [simp]: "first_seen [] = []"
  by (simp add: first_seen_def)

lemma first_seen_snoc:
  "first_seen (xs @ [x]) = (if x \<in> set (first_seen xs) then first_seen xs else first_seen xs @ [x])"
  by (simp add: first_seen_def)

lemma set_first_seen [simp]: "set (first_seen xs) = set xs"
  by (induction xs rule: rev_induct) (auto simp: first_seen_snoc)

lemma distinct_first_seen [simp]: "distinct (first_seen xs)"
  by (induction xs rule: rev_induct) (auto simp: first_seen_snoc)

lemma first_seen_distinct: "distinct xs \<Longrightarrow> first_seen xs = xs"
  by (induction xs rule: rev_induct) (auto simp: first_seen_snoc)

subsection \<open>Grouping rows\<close>

text \<open>The loop of \<open>merge_entities\<close> and \<open>merge_relationships\<close>: \<open>indexes\<close> maps a key to the position of its
  entry in \<open>grouped\<close>.\<close>

definition group_step ::
  "('r \<Rightarrow> 'k) \<Rightarrow> ('r \<Rightarrow> 'e) \<Rightarrow> ('e \<Rightarrow> 'r \<Rightarrow> 'e) \<Rightarrow> ('k \<Rightarrow> usize option) \<times> 'e list \<Rightarrow> 'r
   \<Rightarrow> ('k \<Rightarrow> usize option) \<times> 'e list" where
  "group_step key new push st row =
     (case st of (indexes, grouped) \<Rightarrow>
        (case indexes (key row) of
           Some index \<Rightarrow>
             if index < length grouped then (indexes, grouped[index := push (grouped ! index) row])
             else (indexes, grouped)
         | None \<Rightarrow> (indexes(key row \<mapsto> length grouped), grouped @ [new row])))"

definition group_loop :: "('r \<Rightarrow> 'k) \<Rightarrow> ('r \<Rightarrow> 'e) \<Rightarrow> ('e \<Rightarrow> 'r \<Rightarrow> 'e) \<Rightarrow> 'r list \<Rightarrow> 'e list" where
  "group_loop key new push rows = snd (foldl (group_step key new push) (Map.empty, []) rows)"

text \<open>What a group becomes: its first row makes the entry, the others are added in order.\<close>

fun entry_of :: "('r \<Rightarrow> 'e) \<Rightarrow> ('e \<Rightarrow> 'r \<Rightarrow> 'e) \<Rightarrow> 'r list \<Rightarrow> 'e" where
  "entry_of new push (r # rs) = foldl push (new r) rs"
| "entry_of new push [] = undefined"

lemma entry_of_snoc: "rs \<noteq> [] \<Longrightarrow> entry_of new push (rs @ [r]) = push (entry_of new push rs) r"
  by (cases rs) auto

lemma map_of_snoc: "map_of zs k = None \<Longrightarrow> map_of (zs @ [(k, n)]) = (map_of zs)(k \<mapsto> n)"
  by (induction zs) (auto split: if_splits)

lemma group_fold:
  fixes rows :: "'r list" and key :: "'r \<Rightarrow> 'k"
  defines "ks \<equiv> first_seen (map key rows)"
  shows "foldl (group_step key new push) (Map.empty, []) rows =
     (map_of (zip ks [0..<length ks]), map (\<lambda>k. entry_of new push (filter (\<lambda>r. key r = k) rows)) ks)"
  unfolding ks_def
proof (induction rows rule: rev_induct)
  case Nil
  then show ?case by simp
next
  case (snoc row rows)
  let ?ks = "first_seen (map key rows)" and ?k = "key row"
  let ?F = "\<lambda>rows k. entry_of new push (filter (\<lambda>r. key r = k) rows)"
  show ?case
  proof (cases "?k \<in> set (map key rows)")
    case True
    then obtain i where i: "i < length ?ks" "?ks ! i = ?k" by (metis in_set_conv_nth set_first_seen)
    then have "map_of (zip ?ks [0..<length ?ks]) ?k = Some i"
      using map_of_zip_nth [of ?ks "[0..<length ?ks]" i] by simp
    moreover have "(map (?F rows) ?ks)[i := push (map (?F rows) ?ks ! i) row] = map (?F (rows @ [row])) ?ks"
    proof (rule nth_equalityI)
      fix j assume "j < length ((map (?F rows) ?ks)[i := push (map (?F rows) ?ks ! i) row])"
      then have j: "j < length ?ks" by simp
      have "filter (\<lambda>r. key r = ?k) rows \<noteq> []" using True by (auto simp: filter_empty_conv)
      moreover have "j = i" if "?ks ! j = ?k"
        using that i j distinct_first_seen nth_eq_iff_index_eq by metis
      ultimately show "(map (?F rows) ?ks)[i := push (map (?F rows) ?ks ! i) row] ! j
          = map (?F (rows @ [row])) ?ks ! j"
        using i j by (cases "j = i") (auto simp: entry_of_snoc)
    qed simp
    ultimately show ?thesis
      using snoc.IH True i(1) by (simp add: group_step_def first_seen_snoc)
  next
    case False
    then have none: "map_of (zip ?ks [0..<length ?ks]) ?k = None"
      by (auto simp: map_of_eq_None_iff dest: set_zip_leftD)
    have other: "filter (\<lambda>r. key r = k) (rows @ [row]) = filter (\<lambda>r. key r = k) rows" if "k \<in> set ?ks" for k
      using that False by auto
    have new: "filter (\<lambda>r. key r = ?k) rows = []" using False by (simp add: filter_empty_conv) (metis imageI)
    have "map (?F (rows @ [row])) ?ks = map (?F rows) ?ks"
      using other by (intro map_cong) auto
    moreover have "map_of (zip (?ks @ [?k]) [0..<Suc (length ?ks)]) =
        (map_of (zip ?ks [0..<length ?ks]))(?k \<mapsto> length ?ks)"
      using map_of_snoc [OF none] by simp
    moreover have "foldl (group_step key new push) (Map.empty, []) (rows @ [row]) =
        ((map_of (zip ?ks [0..<length ?ks]))(?k \<mapsto> length ?ks), map (?F rows) ?ks @ [new row])"
      unfolding foldl_append snoc.IH using none
      by (simp add: group_step_def del: map_of_eq_None_iff map_of_zip_is_None)
    moreover have "first_seen (map key (rows @ [row])) = ?ks @ [?k]"
      using False by (simp add: first_seen_snoc)
    moreover have "?F (rows @ [row]) ?k = new row" using new by simp
    ultimately show ?thesis by (simp add: fun_upd_def)
  qed
qed

text \<open>A grouping: a row and its entry have the same key.\<close>

locale grouping =
  fixes row_key :: "'r \<Rightarrow> 'k"
    and entry_key :: "'e \<Rightarrow> 'k"
    and new :: "'r \<Rightarrow> 'e"
    and push :: "'e \<Rightarrow> 'r \<Rightarrow> 'e"
  assumes key_new: "entry_key (new r) = row_key r"
    and key_push: "entry_key e = row_key r \<Longrightarrow> entry_key (push e r) = row_key r"
begin

lemma key_entry_of:
  "rs \<noteq> [] \<Longrightarrow> \<forall>r \<in> set rs. row_key r = k \<Longrightarrow> entry_key (entry_of new push rs) = k"
proof (induction rs rule: rev_induct)
  case (snoc r rs)
  then show ?case
    by (cases "rs = []") (auto simp: entry_of_snoc key_new key_push)
qed simp

lemma groups:
  "group_loop row_key new push rows =
     map (\<lambda>k. entry_of new push (filter (\<lambda>r. row_key r = k) rows)) (first_seen (map row_key rows))"
  by (simp add: group_loop_def group_fold)

lemma group_keys: "map entry_key (group_loop row_key new push rows) = first_seen (map row_key rows)"
proof -
  have "entry_key (entry_of new push (filter (\<lambda>r. row_key r = k) rows)) = k"
    if "k \<in> set (first_seen (map row_key rows))" for k
    using that by (intro key_entry_of) (auto simp: filter_empty_conv)
  then show ?thesis by (auto simp: groups o_def intro!: map_idI)
qed

lemma distinct_keys: "distinct (map entry_key (group_loop row_key new push rows))"
  by (simp add: group_keys)

lemma regroup_keys:
  "set (map entry_key (group_loop row_key new push rows)) = row_key ` set rows"
  by (simp add: group_keys)

end

subsection \<open>Merging entities and relationships\<close>

definition raw_entity_key :: "raw_entity_row \<Rightarrow> string \<times> string" where
  "raw_entity_key row = (rawe_title row, rawe_entity_type row)"

definition entity_of_raw :: "raw_entity_row \<Rightarrow> entity_row" where
  "entity_of_raw row =
     \<lparr>er_title = rawe_title row, er_entity_type = rawe_entity_type row,
      er_description = [rawe_description row], er_text_unit_ids = [rawe_source_id row], er_frequency = 1\<rparr>"

definition entity_push :: "entity_row \<Rightarrow> raw_entity_row \<Rightarrow> entity_row" where
  "entity_push e row =
     e\<lparr>er_description := er_description e @ [rawe_description row],
       er_text_unit_ids := er_text_unit_ids e @ [rawe_source_id row],
       er_frequency := i64_sat_add (er_frequency e) 1\<rparr>"

definition merge_entities :: "raw_entity_row list \<Rightarrow> entity_row list" where
  "merge_entities rows = group_loop raw_entity_key entity_of_raw entity_push rows"

definition raw_relationship_key :: "'w raw_relationship_row \<Rightarrow> string \<times> string" where
  "raw_relationship_key row = (rawr_source row, rawr_target row)"

definition relationship_of_raw :: "'w raw_relationship_row \<Rightarrow> 'w relationship_row" where
  "relationship_of_raw row =
     \<lparr>rr_source = rawr_source row, rr_target = rawr_target row, rr_description = [rawr_description row],
      rr_text_unit_ids = [rawr_source_id row], rr_weight = rawr_weight row\<rparr>"

definition relationship_push ::
  "('w::plus) relationship_row \<Rightarrow> 'w raw_relationship_row \<Rightarrow> 'w relationship_row" where
  "relationship_push e row =
     e\<lparr>rr_description := rr_description e @ [rawr_description row],
       rr_text_unit_ids := rr_text_unit_ids e @ [rawr_source_id row],
       rr_weight := rr_weight e + rawr_weight row\<rparr>"

definition merge_relationships :: "('w::plus) raw_relationship_row list \<Rightarrow> 'w relationship_row list" where
  "merge_relationships rows = group_loop raw_relationship_key relationship_of_raw relationship_push rows"

definition filter_orphan_relationships ::
  "'w relationship_row list \<Rightarrow> entity_row list \<Rightarrow> 'w relationship_row list" where
  "filter_orphan_relationships relationships entities =
     (let titles = set (map er_title entities)
      in filter (\<lambda>r. rr_source r \<in> titles \<and> rr_target r \<in> titles) relationships)"

definition entity_key :: "entity_row \<Rightarrow> string \<times> string" where
  "entity_key e = (er_title e, er_entity_type e)"

definition relationship_key :: "'w relationship_row \<Rightarrow> string \<times> string" where
  "relationship_key e = (rr_source e, rr_target e)"

interpretation entities: grouping raw_entity_key entity_key entity_of_raw entity_push
  by unfold_locales (auto simp: raw_entity_key_def entity_key_def entity_of_raw_def entity_push_def)

interpretation relationships: grouping raw_relationship_key relationship_key relationship_of_raw relationship_push
  by unfold_locales
     (auto simp: raw_relationship_key_def relationship_key_def relationship_of_raw_def relationship_push_def)

lemma entity_entry:
  "rs \<noteq> [] \<Longrightarrow> entry_of entity_of_raw entity_push rs =
     \<lparr>er_title = rawe_title (hd rs), er_entity_type = rawe_entity_type (hd rs),
      er_description = map rawe_description rs, er_text_unit_ids = map rawe_source_id rs,
      er_frequency = min i64_max (int (length rs))\<rparr>"
proof (induction rs rule: rev_induct)
  case (snoc r rs)
  show ?case
  proof (cases "rs = []")
    case True
    then show ?thesis by (simp add: entity_of_raw_def i64_max_def)
  next
    case False
    with snoc.IH show ?thesis
      by (auto simp: entry_of_snoc entity_push_def i64_sat_add_def i64_max_def i64_min_def hd_append)
  qed
qed simp

lemma relationship_entry:
  "rs \<noteq> [] \<Longrightarrow> entry_of relationship_of_raw relationship_push rs =
     \<lparr>rr_source = rawr_source (hd rs), rr_target = rawr_target (hd rs),
      rr_description = map rawr_description rs, rr_text_unit_ids = map rawr_source_id rs,
      rr_weight = foldl (+) (rawr_weight (hd rs)) (map rawr_weight (tl rs))\<rparr>"
proof (induction rs rule: rev_induct)
  case (snoc r rs)
  show ?case
  proof (cases "rs = []")
    case True
    then show ?thesis by (simp add: relationship_of_raw_def)
  next
    case False
    with snoc.IH show ?thesis
      by (auto simp: entry_of_snoc relationship_push_def hd_append)
  qed
qed simp

text \<open>C11: Merging extracted entities: one entity per distinct title and type, in the order first seen; it
  carries the descriptions and text units of all its rows in order, and its frequency is their
  number, saturating.\<close>

theorem merge_entities_groups:
  "merge_entities rows =
     map (\<lambda>(title, kind).
        let group = filter (\<lambda>r. rawe_title r = title \<and> rawe_entity_type r = kind) rows
        in \<lparr>er_title = title, er_entity_type = kind, er_description = map rawe_description group,
            er_text_unit_ids = map rawe_source_id group,
            er_frequency = min i64_max (int (length group))\<rparr>)
       (first_seen (map (\<lambda>r. (rawe_title r, rawe_entity_type r)) rows))"
  unfolding merge_entities_def entities.groups
proof (rule map_cong)
  fix k assume "k \<in> set (first_seen (map (\<lambda>r. (rawe_title r, rawe_entity_type r)) rows))"
  then obtain r where r: "r \<in> set rows" "k = (rawe_title r, rawe_entity_type r)" by auto
  let ?g = "filter (\<lambda>r. raw_entity_key r = k) rows"
  have g: "?g = filter (\<lambda>x. rawe_title x = fst k \<and> rawe_entity_type x = snd k) rows"
    by (auto simp: raw_entity_key_def prod_eq_iff intro!: filter_cong)
  have ne: "?g \<noteq> []" using r by (auto simp: raw_entity_key_def filter_empty_conv)
  then have "hd ?g \<in> set ?g" by (rule hd_in_set)
  then have "rawe_title (hd ?g) = fst k" "rawe_entity_type (hd ?g) = snd k"
    by (auto simp: raw_entity_key_def prod_eq_iff)
  with ne show "entry_of entity_of_raw entity_push ?g = (case k of (title, kind) \<Rightarrow>
        let group = filter (\<lambda>r. rawe_title r = title \<and> rawe_entity_type r = kind) rows
        in \<lparr>er_title = title, er_entity_type = kind, er_description = map rawe_description group,
            er_text_unit_ids = map rawe_source_id group,
            er_frequency = min i64_max (int (length group))\<rparr>)"
    unfolding g by (simp add: entity_entry case_prod_beta Let_def)
qed (simp add: raw_entity_key_def [abs_def])

text \<open>Merging extracted relationships: one relationship per distinct ordered pair of endpoints, in the
  order first seen, whose weight is the sum of the weights of its rows, added in order.\<close>

theorem merge_relationships_groups:
  "merge_relationships rows =
     map (\<lambda>(s, t).
        let group = filter (\<lambda>r. rawr_source r = s \<and> rawr_target r = t) rows
        in \<lparr>rr_source = s, rr_target = t, rr_description = map rawr_description group,
            rr_text_unit_ids = map rawr_source_id group,
            rr_weight = foldl (+) (rawr_weight (hd group)) (map rawr_weight (tl group))\<rparr>)
       (first_seen (map (\<lambda>r. (rawr_source r, rawr_target r)) rows))"
  unfolding merge_relationships_def relationships.groups
proof (rule map_cong)
  fix k assume "k \<in> set (first_seen (map (\<lambda>r. (rawr_source r, rawr_target r)) rows))"
  then obtain r where r: "r \<in> set rows" "k = (rawr_source r, rawr_target r)" by auto
  let ?g = "filter (\<lambda>r. raw_relationship_key r = k) rows"
  have g: "?g = filter (\<lambda>x. rawr_source x = fst k \<and> rawr_target x = snd k) rows"
    by (auto simp: raw_relationship_key_def prod_eq_iff intro!: filter_cong)
  have ne: "?g \<noteq> []" using r by (auto simp: raw_relationship_key_def filter_empty_conv)
  then have "hd ?g \<in> set ?g" by (rule hd_in_set)
  then have "rawr_source (hd ?g) = fst k" "rawr_target (hd ?g) = snd k"
    by (auto simp: raw_relationship_key_def prod_eq_iff)
  with ne show "entry_of relationship_of_raw relationship_push ?g = (case k of (s, t) \<Rightarrow>
        let group = filter (\<lambda>r. rawr_source r = s \<and> rawr_target r = t) rows
        in \<lparr>rr_source = s, rr_target = t, rr_description = map rawr_description group,
            rr_text_unit_ids = map rawr_source_id group,
            rr_weight = foldl (+) (rawr_weight (hd group)) (map rawr_weight (tl group))\<rparr>)"
    unfolding g by (simp add: relationship_entry case_prod_beta Let_def)
qed (simp add: raw_relationship_key_def [abs_def])

text \<open>C29: No dangling relationships: after merging and filtering, the endpoints of every relationship are titles
  of merged entities, no ordered pair occurs twice, and what was dropped had an unknown endpoint.\<close>

theorem merged_graph_closed:
  "(let es = merge_entities raw_es; rs = merge_relationships raw_rs;
        kept = filter_orphan_relationships rs es; titles = rawe_title ` set raw_es
    in {t. \<exists>r. r \<in> set kept \<and> (t = rr_source r \<or> t = rr_target r)} \<subseteq> titles
       \<and> distinct (map (\<lambda>r. (rr_source r, rr_target r)) kept)
       \<and> set rs - set kept = {r. r \<in> set rs \<and> \<not> {rr_source r, rr_target r} \<subseteq> titles})"
proof -
  have "set (map entity_key (merge_entities raw_es)) = raw_entity_key ` set raw_es"
    unfolding merge_entities_def by (rule entities.regroup_keys)
  then have "fst ` set (map entity_key (merge_entities raw_es)) = fst ` raw_entity_key ` set raw_es"
    by simp
  then have titles: "set (map er_title (merge_entities raw_es)) = rawe_title ` set raw_es"
    by (simp add: entity_key_def raw_entity_key_def image_image)
  have "distinct (map relationship_key (merge_relationships raw_rs))"
    unfolding merge_relationships_def by (rule relationships.distinct_keys)
  then have "distinct (map (\<lambda>r. (rr_source r, rr_target r))
      (filter_orphan_relationships (merge_relationships raw_rs) (merge_entities raw_es)))"
    by (simp add: relationship_key_def [abs_def] filter_orphan_relationships_def Let_def distinct_map_filter)
  then show ?thesis
    by (auto simp: Let_def filter_orphan_relationships_def titles simp del: set_map)
qed

subsection \<open>Degrees\<close>

definition sorted_pair :: "string \<Rightarrow> string \<Rightarrow> string \<times> string" where
  "sorted_pair left right = (if left \<le> right then (left, right) else (right, left))"

definition degree_step ::
  "(string \<times> string) set \<times> (string, i64) omap \<Rightarrow> 'w summarized_relationship_row
   \<Rightarrow> (string \<times> string) set \<times> (string, i64) omap" where
  "degree_step st row =
     (case st of (seen, degree) \<Rightarrow>
      case sorted_pair (sr_source row) (sr_target row) of (left, right) \<Rightarrow>
        if (left, right) \<in> seen then (seen, degree)
        else (insert (left, right) seen,
              om_update 0 (\<lambda>n. n + 1) right (om_update 0 (\<lambda>n. n + 1) left degree)))"

definition degree_map :: "'w summarized_relationship_row list \<Rightarrow> (string, i64) omap" where
  "degree_map rows = snd (foldl degree_step ({}, []) rows)"

definition degree_of :: "(string, i64) omap \<Rightarrow> string \<Rightarrow> i64" where
  "degree_of degree t = (case map_of degree t of None \<Rightarrow> 0 | Some n \<Rightarrow> n)"

definition undirected_pairs :: "'w summarized_relationship_row list \<Rightarrow> (string \<times> string) list" where
  "undirected_pairs rows = first_seen (map (\<lambda>r. sorted_pair (sr_source r) (sr_target r)) rows)"

lemma degree_of_update:
  "om_ok d \<Longrightarrow> degree_of (om_update 0 f k d) t = (if t = k then f (degree_of d k) else degree_of d t)"
  by (simp add: degree_of_def map_of_om_update)

lemma sum_om_insert:
  fixes d :: "('k::linorder, int) omap"
  assumes "om_ok d"
  shows "sum_list (map snd (om_insert k v d)) =
    sum_list (map snd d) + v - (case map_of d k of None \<Rightarrow> 0 | Some n \<Rightarrow> n)"
  using assms
proof (induction d)
  case (Cons e d)
  have "map_of d k = None" if "k \<le> fst e"
  proof (rule ccontr)
    assume "map_of d k \<noteq> None"
    then have "k \<in> set (om_keys d)" by (auto simp: set_om_keys)
    with Cons.prems that show False by (auto simp: om_ok_Cons)
  qed
  with Cons show ?case by (cases e) (auto simp: om_ok_Cons)
qed simp

lemma sum_om_update:
  fixes d :: "('k::linorder, int) omap"
  shows "om_ok d \<Longrightarrow> sum_list (map snd (om_update 0 (\<lambda>n. n + 1) k d)) = sum_list (map snd d) + 1"
  by (simp add: om_update_def sum_om_insert split: option.split)

lemma degree_fold:
  "fst (foldl degree_step ({}, []) rows) = set (undirected_pairs rows)
   \<and> om_ok (degree_map rows)
   \<and> (\<forall>t. degree_of (degree_map rows) t =
         int (length (filter (\<lambda>p. fst p = t) (undirected_pairs rows))
            + length (filter (\<lambda>p. snd p = t) (undirected_pairs rows))))
   \<and> sum_list (map snd (degree_map rows)) = 2 * int (length (undirected_pairs rows))"
proof (induction rows rule: rev_induct)
  case Nil
  then show ?case by (simp add: degree_map_def undirected_pairs_def degree_of_def)
next
  case (snoc row rows)
  obtain seen d where f: "foldl degree_step ({}, []) rows = (seen, d)" by fastforce
  obtain a b where p: "sorted_pair (sr_source row) (sr_target row) = (a, b)" by fastforce
  have d: "degree_map rows = d" and seen: "seen = set (undirected_pairs rows)"
    using f snoc.IH by (simp_all add: degree_map_def)
  have ok: "om_ok d" using snoc.IH d by simp
  show ?case
  proof (cases "(a, b) \<in> seen")
    case True
    then have "undirected_pairs (rows @ [row]) = undirected_pairs rows"
      using p seen by (simp add: undirected_pairs_def first_seen_snoc)
    moreover have "foldl degree_step ({}, []) (rows @ [row]) = foldl degree_step ({}, []) rows"
      using True f p by (simp add: degree_step_def [of "(seen, d)"])
    ultimately show ?thesis using snoc.IH unfolding degree_map_def by simp
  next
    case False
    then have u: "undirected_pairs (rows @ [row]) = undirected_pairs rows @ [(a, b)]"
      using p seen by (simp add: undirected_pairs_def first_seen_snoc)
    have dm: "degree_map (rows @ [row]) = om_update 0 (\<lambda>n. n + 1) b (om_update 0 (\<lambda>n. n + 1) a d)"
      using False f p by (simp add: degree_map_def degree_step_def [of "(seen, d)"])
    have "fst (foldl degree_step ({}, []) (rows @ [row])) = insert (a, b) seen"
      using False f p by (simp add: degree_step_def [of "(seen, d)"])
    then show ?thesis
      using snoc.IH ok unfolding u dm d
      by (auto simp: seen degree_of_update sum_om_update)
  qed
qed

text \<open>Degrees: the degree of a title counts the distinct undirected pairs it is an endpoint of, reversed
  duplicates once and a loop twice, so all degrees add up to twice the number of pairs.\<close>

theorem degree_map_counts_pairs:
  "(\<forall>t. degree_of (degree_map rows) t =
         int (length (filter (\<lambda>p. fst p = t) (undirected_pairs rows))
            + length (filter (\<lambda>p. snd p = t) (undirected_pairs rows))))
   \<and> sum_list (map snd (degree_map rows)) = 2 * int (length (undirected_pairs rows))"
  using degree_fold [of rows] by blast

subsection \<open>Final rows\<close>

fun finalize_entities_loop ::
  "(usize \<Rightarrow> string) \<Rightarrow> (string, i64) omap \<Rightarrow> string set \<Rightarrow> final_entity_row list
   \<Rightarrow> summarized_entity_row list \<Rightarrow> index_error + final_entity_row list" where
  "finalize_entities_loop uuid degree seen final_rows [] = Inr final_rows"
| "finalize_entities_loop uuid degree seen final_rows (row # rows) =
     (if se_title row \<in> seen then finalize_entities_loop uuid degree seen final_rows rows
      else
        and_then (usize_to_i64 (length final_rows) ''finalize_graph'' ''human_readable_id'') (\<lambda>human_id.
          finalize_entities_loop uuid degree (insert (se_title row) seen)
            (final_rows @
              [\<lparr>fe_id = uuid (length final_rows), fe_human_readable_id = human_id,
                fe_title = se_title row, fe_entity_type = se_entity_type row,
                fe_description = se_description row, fe_text_unit_ids = se_text_unit_ids row,
                fe_frequency = se_frequency row, fe_degree = degree_of degree (se_title row)\<rparr>])
            rows))"

definition finalize_entities ::
  "(usize \<Rightarrow> string) \<Rightarrow> summarized_entity_row list \<Rightarrow> (string, i64) omap \<Rightarrow> index_error + final_entity_row list" where
  "finalize_entities uuid rows degree = finalize_entities_loop uuid degree {} [] rows"

fun finalize_relationships_loop ::
  "(usize \<Rightarrow> string) \<Rightarrow> (string, i64) omap \<Rightarrow> (string \<times> string) set \<Rightarrow> 'w final_relationship_row list
   \<Rightarrow> 'w summarized_relationship_row list \<Rightarrow> index_error + 'w final_relationship_row list" where
  "finalize_relationships_loop uuid degree seen final_rows [] = Inr final_rows"
| "finalize_relationships_loop uuid degree seen final_rows (row # rows) =
     (if (sr_source row, sr_target row) \<in> seen
      then finalize_relationships_loop uuid degree seen final_rows rows
      else
        and_then (usize_to_i64 (length final_rows) ''finalize_graph'' ''human_readable_id'') (\<lambda>human_id.
          finalize_relationships_loop uuid degree (insert (sr_source row, sr_target row) seen)
            (final_rows @
              [\<lparr>fr_id = uuid (length final_rows), fr_human_readable_id = human_id,
                fr_source = sr_source row, fr_target = sr_target row,
                fr_description = sr_description row, fr_weight = sr_weight row,
                fr_combined_degree =
                  i64_sat_add (degree_of degree (sr_source row)) (degree_of degree (sr_target row)),
                fr_text_unit_ids = sr_text_unit_ids row\<rparr>])
            rows))"

definition finalize_relationships ::
  "(usize \<Rightarrow> string) \<Rightarrow> 'w summarized_relationship_row list \<Rightarrow> (string, i64) omap
   \<Rightarrow> index_error + 'w final_relationship_row list" where
  "finalize_relationships uuid rows degree = finalize_relationships_loop uuid degree {} [] rows"

definition finalize_graph ::
  "(usize \<Rightarrow> string) \<Rightarrow> summarized_entity_row list \<Rightarrow> 'w summarized_relationship_row list
   \<Rightarrow> index_error + 'w finalized_graph" where
  "finalize_graph uuid entities relationships =
     (let degree = degree_map relationships in
      and_then (finalize_entities uuid entities degree) (\<lambda>es.
      and_then (finalize_relationships (\<lambda>n. uuid (length es + n)) relationships degree) (\<lambda>rs.
        Inr \<lparr>fg_entities = es, fg_relationships = rs\<rparr>)))"

text \<open>The rows kept by the loops: the first of every key.\<close>

fun first_rows :: "('r \<Rightarrow> 'k) \<Rightarrow> 'k set \<Rightarrow> 'r list \<Rightarrow> 'r list" where
  "first_rows key seen [] = []"
| "first_rows key seen (r # rs) =
     (if key r \<in> seen then first_rows key seen rs else r # first_rows key (insert (key r) seen) rs)"

lemma first_rows_snoc:
  "first_rows key seen (rs @ [r]) =
   first_rows key seen rs @ (if key r \<in> seen \<union> key ` set rs then [] else [r])"
  by (induction rs arbitrary: seen) auto

lemma first_rows_keys: "map key (first_rows key {} rs) = first_seen (map key rs)"
  by (induction rs rule: rev_induct) (auto simp: first_rows_snoc first_seen_snoc)

lemma first_rows_subset: "set (first_rows key seen rs) \<subseteq> set rs"
  by (induction rs arbitrary: seen) (auto split: if_splits)

lemma first_rows_find:
  "r \<in> set (first_rows key seen rs) \<Longrightarrow> find (\<lambda>x. key x = key r) rs = Some r \<and> key r \<notin> seen"
proof (induction rs arbitrary: seen)
  case (Cons x rs)
  then show ?case by (cases "key x \<in> seen") (fastforce split: if_splits)+
qed simp

lemma length_first_rows: "length (first_rows key seen rs) \<le> length rs"
  by (induction rs arbitrary: seen) (auto simp: le_SucI)

definition final_entity :: "(usize \<Rightarrow> string) \<Rightarrow> (string, i64) omap \<Rightarrow> usize \<times> summarized_entity_row \<Rightarrow> final_entity_row" where
  "final_entity uuid degree p =
     (case p of (n, row) \<Rightarrow>
        \<lparr>fe_id = uuid n, fe_human_readable_id = int n, fe_title = se_title row,
         fe_entity_type = se_entity_type row, fe_description = se_description row,
         fe_text_unit_ids = se_text_unit_ids row, fe_frequency = se_frequency row,
         fe_degree = degree_of degree (se_title row)\<rparr>)"

definition final_relationship ::
  "(usize \<Rightarrow> string) \<Rightarrow> (string, i64) omap \<Rightarrow> usize \<times> 'w summarized_relationship_row \<Rightarrow> 'w final_relationship_row" where
  "final_relationship uuid degree p =
     (case p of (n, row) \<Rightarrow>
        \<lparr>fr_id = uuid n, fr_human_readable_id = int n, fr_source = sr_source row, fr_target = sr_target row,
         fr_description = sr_description row, fr_weight = sr_weight row,
         fr_combined_degree =
           i64_sat_add (degree_of degree (sr_source row)) (degree_of degree (sr_target row)),
         fr_text_unit_ids = sr_text_unit_ids row\<rparr>)"

lemma finalize_entities_loop_eq:
  "int (length acc + length rows) \<le> i64_max \<Longrightarrow>
   finalize_entities_loop uuid degree seen acc rows =
   Inr (acc @ map (final_entity uuid degree) (enumerate_from (length acc) (first_rows se_title seen rows)))"
  by (induction rows arbitrary: seen acc) (auto simp: usize_to_i64_def final_entity_def)

lemma finalize_relationships_loop_eq:
  "int (length acc + length rows) \<le> i64_max \<Longrightarrow>
   finalize_relationships_loop uuid degree seen acc rows =
   Inr (acc @ map (final_relationship uuid degree)
     (enumerate_from (length acc) (first_rows (\<lambda>r. (sr_source r, sr_target r)) seen rows)))"
  by (induction rows arbitrary: seen acc) (auto simp: usize_to_i64_def final_relationship_def)

lemma map_enumerate_from:
  "(\<And>n x. f (n, x) = g n) \<Longrightarrow> map f (enumerate_from k xs) = map g [k..<k + length xs]"
  "(\<And>n x. f' (n, x) = h x) \<Longrightarrow> map f' (enumerate_from k xs) = map h xs"
proof -
  assume "\<And>n x. f (n, x) = g n"
  then have "f = g \<circ> fst" by (auto simp: fun_eq_iff)
  then show "map f (enumerate_from k xs) = map g [k..<k + length xs]"
    by (simp add: map_fst_enumerate_from flip: map_map)
next
  assume "\<And>n x. f' (n, x) = h x"
  then have "f' = h \<circ> snd" by (auto simp: fun_eq_iff)
  then show "map f' (enumerate_from k xs) = map h xs"
    by (simp add: map_snd_enumerate_from flip: map_map)
qed

text \<open>The final graph: finalising succeeds for any number of rows that fits \<open>i64\<close>; it keeps the first row of
  every title and of every ordered pair, numbers the rows of each table 0, 1, 2, \<open>\<dots>\<close>, gives every
  row the degree computed from all relationships, and its identifiers are distinct when the
  generated ones are.\<close>

theorem finalize_graph_rows:
  fixes rs :: "'w summarized_relationship_row list"
  assumes "int (length es) \<le> i64_max" "int (length rs) \<le> i64_max" "inj uuid"
  shows "\<exists>g. finalize_graph uuid es rs = Inr g
     \<and> map fe_title (fg_entities g) = first_seen (map se_title es)
     \<and> map (\<lambda>r. (fr_source r, fr_target r)) (fg_relationships g) =
         first_seen (map (\<lambda>r. (sr_source r, sr_target r)) rs)
     \<and> map fe_human_readable_id (fg_entities g) = map int [0..<length (fg_entities g)]
     \<and> map fr_human_readable_id (fg_relationships g) = map int [0..<length (fg_relationships g)]
     \<and> map fe_degree (fg_entities g) = map (degree_of (degree_map rs) \<circ> fe_title) (fg_entities g)
     \<and> map fr_combined_degree (fg_relationships g) =
         map (\<lambda>r. i64_sat_add (degree_of (degree_map rs) (fr_source r)) (degree_of (degree_map rs) (fr_target r)))
           (fg_relationships g)
     \<and> distinct (map fe_id (fg_entities g) @ map fr_id (fg_relationships g))"
proof -
  let ?d = "degree_map rs" and ?k = "\<lambda>r :: 'w summarized_relationship_row. (sr_source r, sr_target r)"
  let ?es = "map (final_entity uuid ?d) (enumerate_from 0 (first_rows se_title {} es))"
  let ?rs = "map (final_relationship (\<lambda>n. uuid (length ?es + n)) ?d) (enumerate_from 0 (first_rows ?k {} rs))"
  have run: "finalize_graph uuid es rs = Inr \<lparr>fg_entities = ?es, fg_relationships = ?rs\<rparr>"
    using assms finalize_entities_loop_eq [of "[]" es] finalize_relationships_loop_eq [of "[]" rs]
    by (simp add: finalize_graph_def finalize_entities_def finalize_relationships_def Let_def)
  have ids: "map fe_id ?es = map uuid [0..<length ?es]"
    "map fr_id ?rs = map uuid [length ?es..<length ?es + length ?rs]"
  proof -
    have "map fe_id ?es = map uuid [0..<0 + length (first_rows se_title {} es)]"
      unfolding map_map by (rule map_enumerate_from(1)) (simp add: final_entity_def)
    then show "map fe_id ?es = map uuid [0..<length ?es]" by (simp add: enumerate_from_conv)
    have "map fr_id ?rs = map (\<lambda>n. uuid (length ?es + n)) [0..<0 + length (first_rows ?k {} rs)]"
      unfolding map_map by (rule map_enumerate_from(1)) (simp add: final_relationship_def)
    also have "\<dots> = map uuid [length ?es..<length ?es + length ?rs]"
      by (rule nth_equalityI) (simp_all add: enumerate_from_conv)
    finally show "map fr_id ?rs = map uuid [length ?es..<length ?es + length ?rs]" .
  qed
  have "map fe_id ?es @ map fr_id ?rs = map uuid [0..<length ?es + length ?rs]"
  proof -
    have "[0..<n + m] = [0..<n] @ [n..<n + m]" for n m :: nat
      using upt_add_eq_append [of 0 n m] by simp
    then show ?thesis unfolding ids by (simp only: map_append)
  qed
  then have distinct: "distinct (map fe_id ?es @ map fr_id ?rs)"
    using inj_on_subset [OF assms(3) subset_UNIV] by (simp only: distinct_map distinct_upt simp_thms)
  have keys: "map fe_title ?es = first_seen (map se_title es)"
    "map (\<lambda>r. (fr_source r, fr_target r)) ?rs = first_seen (map ?k rs)"
    unfolding map_map first_rows_keys [symmetric]
    by (rule map_enumerate_from(2); simp add: final_entity_def final_relationship_def)+
  have numbers: "map fe_human_readable_id ?es = map int [0..<length ?es]"
    "map fr_human_readable_id ?rs = map int [0..<length ?rs]"
    unfolding map_map
    by (rule trans [OF map_enumerate_from(1) [where g = int]];
        simp add: final_entity_def final_relationship_def enumerate_from_conv)+
  have degrees: "map fe_degree ?es = map (degree_of ?d \<circ> fe_title) ?es"
    "map fr_combined_degree ?rs =
         map (\<lambda>r. i64_sat_add (degree_of ?d (fr_source r)) (degree_of ?d (fr_target r))) ?rs"
    by (auto simp: final_entity_def final_relationship_def)
  show ?thesis
    by (rule exI [of _ "\<lparr>fg_entities = ?es, fg_relationships = ?rs\<rparr>"], unfold finalized_graph.simps)
       (intro conjI run keys numbers degrees distinct)
qed

definition sample_entities :: "summarized_entity_row list" where
  "sample_entities =
     [\<lparr>se_title = ''A'', se_entity_type = ''x'', se_description = ''d'', se_text_unit_ids = [], se_frequency = 1\<rparr>,
      \<lparr>se_title = ''A'', se_entity_type = ''y'', se_description = ''e'', se_text_unit_ids = [], se_frequency = 2\<rparr>]"

definition sample_relationships :: "int summarized_relationship_row list" where
  "sample_relationships =
     [\<lparr>sr_source = ''A'', sr_target = ''A'', sr_description = ''l'', sr_text_unit_ids = [], sr_weight = 1\<rparr>]"

theorem finalize_graph_rows_witness:
  "\<exists>g. finalize_graph nat_to_dec sample_entities sample_relationships = Inr g
     \<and> map fe_title (fg_entities g) = [''A''] \<and> map fe_degree (fg_entities g) = [2]"
proof -
  have inj: "inj nat_to_dec" by (auto simp: inj_on_def)
  have "int (length sample_entities) \<le> i64_max" "int (length sample_relationships) \<le> i64_max"
    by (simp_all add: sample_entities_def sample_relationships_def i64_max_def)
  from finalize_graph_rows [OF this inj] obtain g where g:
    "finalize_graph nat_to_dec sample_entities sample_relationships = Inr g"
    "map fe_title (fg_entities g) = first_seen (map se_title sample_entities)"
    "map fe_degree (fg_entities g) = map (degree_of (degree_map sample_relationships) \<circ> fe_title) (fg_entities g)"
    by (elim exE conjE) (rule that)
  have titles: "map fe_title (fg_entities g) = [''A'']"
    using g(2) by (simp add: sample_entities_def first_seen_def)
  have two: "degree_of (degree_map sample_relationships) ''A'' = 2"
    by (simp add: sample_relationships_def degree_map_def degree_step_def sorted_pair_def om_update_def degree_of_def)
  have "map fe_degree (fg_entities g) = map (degree_of (degree_map sample_relationships)) (map fe_title (fg_entities g))"
    by (subst g(3)) (rule map_map [symmetric])
  then have degrees: "map fe_degree (fg_entities g) = [2]"
    by (subst (asm) titles) (simp add: two)
  show ?thesis by (intro exI [of _ g] conjI g(1) titles degrees)
qed

end
