(* ===== verification/Communities.thy ===== *)
theory Communities
  imports Graph_Build "HOL-Library.Multiset"
begin

text \<open>
  Community clustering (\<open>operations/communities.rs\<close>): the undirected, deduplicated edge list, its
  largest connected component, and the clusters.

  Two libraries are parameters: \<open>norm\<close> is the name normalisation (HTML entities decoded,
  trimmed, upper case), and \<open>leiden\<close> is the hierarchical Leiden algorithm on a labelled edge
  list, which yields the labels of the nodes with their level, cluster and parent. Weights are of
  a type \<open>'w\<close> that is only copied.
\<close>

subsection \<open>Edges\<close>

record 'w cluster_relationship =
  cr_source :: string
  cr_target :: string
  cr_weight :: 'w

record community_cluster =
  cc_level :: i64
  cc_community :: i64
  cc_parent :: i64
  cc_titles :: "string list"

record 'w cluster_edge =
  ce_source :: string
  ce_target :: string
  ce_weight :: 'w

definition ce_pair :: "'w cluster_edge \<Rightarrow> string \<times> string" where
  "ce_pair e = (ce_source e, ce_target e)"

definition cluster_edge_of :: "'w cluster_relationship \<Rightarrow> 'w cluster_edge" where
  "cluster_edge_of r =
     (case sorted_pair (cr_source r) (cr_target r) of (source, target) \<Rightarrow>
        \<lparr>ce_source = source, ce_target = target, ce_weight = cr_weight r\<rparr>)"

text \<open>The deduplicating loop: a later edge of a pair clears the earlier one.\<close>

definition dedup_step ::
  "(string \<times> string \<Rightarrow> usize option) \<times> 'w cluster_edge option list \<Rightarrow> 'w cluster_relationship
   \<Rightarrow> (string \<times> string \<Rightarrow> usize option) \<times> 'w cluster_edge option list" where
  "dedup_step st r =
     (case st of (pair_indexes, deduped) \<Rightarrow>
        let e = cluster_edge_of r; next_index = length deduped;
            deduped' = (case pair_indexes (ce_pair e) of
                Some previous_index \<Rightarrow> if previous_index < length deduped then deduped[previous_index := None] else deduped
              | None \<Rightarrow> deduped)
        in (pair_indexes(ce_pair e \<mapsto> next_index), deduped' @ [Some e]))"

definition flatten_options :: "'a option list \<Rightarrow> 'a list" where
  "flatten_options xs = map the (filter (\<lambda>x. x \<noteq> None) xs)"

definition dedup_edges :: "'w cluster_relationship list \<Rightarrow> 'w cluster_edge list" where
  "dedup_edges rs = flatten_options (snd (foldl dedup_step (Map.empty, []) rs))"

definition sort_edges :: "'w cluster_edge list \<Rightarrow> 'w cluster_edge list" where
  "sort_edges = sort_key ce_pair"

subsection \<open>The largest connected component\<close>

fun bset_insert :: "'a::linorder \<Rightarrow> 'a list \<Rightarrow> 'a list" where
  "bset_insert x [] = [x]"
| "bset_insert x (y # ys) = (if x < y then x # y # ys else if x = y then y # ys else y # bset_insert x ys)"

definition add_adjacent :: "string \<Rightarrow> string \<Rightarrow> (string, string list) omap \<Rightarrow> (string, string list) omap" where
  "add_adjacent a b adj = om_update [] (bset_insert b) a adj"

definition adjacency :: "'w cluster_edge list \<Rightarrow> (string, string list) omap" where
  "adjacency edges =
     foldl (\<lambda>adj e. add_adjacent (ce_target e) (ce_source e) (add_adjacent (ce_source e) (ce_target e) adj)) [] edges"

definition neighbors :: "(string, string list) omap \<Rightarrow> string \<Rightarrow> string list" where
  "neighbors adj v = (case map_of adj v of None \<Rightarrow> [] | Some ns \<Rightarrow> ns)"

fun visit_neighbors :: "string list \<Rightarrow> string set \<Rightarrow> string list \<Rightarrow> string set \<times> string list" where
  "visit_neighbors [] visited queue = (visited, queue)"
| "visit_neighbors (n # ns) visited queue =
     (if n \<in> visited then visit_neighbors ns visited queue
      else visit_neighbors ns (insert n visited) (queue @ [n]))"

lemma visit_neighbors_eq:
  "\<exists>new. visit_neighbors ns visited queue = (visited \<union> set ns, queue @ new)
     \<and> set new = set ns - visited \<and> distinct new"
proof (induction ns arbitrary: visited queue)
  case (Cons n ns)
  show ?case
  proof (cases "n \<in> visited")
    case True
    then show ?thesis using Cons.IH [of visited queue] by auto
  next
    case False
    obtain new where "visit_neighbors ns (insert n visited) (queue @ [n]) =
        (insert n visited \<union> set ns, (queue @ [n]) @ new)" "set new = set ns - insert n visited" "distinct new"
      using Cons.IH [of "insert n visited" "queue @ [n]"] by blast
    with False show ?thesis by (auto intro!: exI [of _ "n # new"])
  qed
qed simp

lemma set_neighbors_bound: "set (neighbors adj v) \<subseteq> (\<Union>p \<in> set adj. set (snd p))"
  by (cases "map_of adj v") (force simp: neighbors_def dest: map_of_SomeD)+

text \<open>The breadth-first search of one component.\<close>

function bfs ::
  "(string, string list) omap \<Rightarrow> string set \<Rightarrow> string set \<Rightarrow> string list \<Rightarrow> string set \<times> string set" where
  "bfs adj visited component [] = (visited, component)"
| "bfs adj visited component (current # queue) =
     (case visit_neighbors (neighbors adj current) visited queue of
        (visited', queue') \<Rightarrow> bfs adj visited' (insert current component) queue')"
  by pat_completeness auto

termination
proof (relation "measure (\<lambda>(adj, visited, component, queue).
      2 * card ((\<Union>p \<in> set adj. set (snd p)) - visited) + length queue)", goal_cases)
  case (2 adj visited component current queue visited' queue')
  let ?all = "\<Union>p \<in> set adj. set (snd p)"
  obtain new where new: "visited' = visited \<union> set (neighbors adj current)" "queue' = queue @ new"
    "set new = set (neighbors adj current) - visited" "distinct new"
    using visit_neighbors_eq [of "neighbors adj current" visited queue] 2 by auto
  have fin: "finite (?all - visited)" by simp
  have split: "?all - visited = (?all - visited') \<union> set new"
    using new(1,3) set_neighbors_bound [of adj current] by auto
  have "(?all - visited') \<inter> set new = {}" using new(1,3) by auto
  then have "card (?all - visited) = card (?all - visited') + length new"
    using fin split distinct_card [OF new(4)] card_Un_disjoint [of "?all - visited'" "set new"] by simp
  then show ?case using new(2) by simp
qed simp

definition lcc_step ::
  "(string, string list) omap \<Rightarrow> string set \<times> string set \<Rightarrow> string \<Rightarrow> string set \<times> string set" where
  "lcc_step adj st node =
     (case st of (visited, largest) \<Rightarrow>
        if node \<in> visited then (visited, largest)
        else case bfs adj (insert node visited) {} [node] of
          (visited', component) \<Rightarrow>
            (visited', if card largest < card component then component else largest))"

definition largest_connected_component :: "'w cluster_edge list \<Rightarrow> string set" where
  "largest_connected_component edges =
     (let adj = adjacency edges in snd (foldl (lcc_step adj) ({}, {}) (om_keys adj)))"

definition stable_lcc :: "(string \<Rightarrow> string) \<Rightarrow> 'w cluster_edge list \<Rightarrow> 'w cluster_edge list" where
  "stable_lcc norm edges =
     (if edges = [] then []
      else
        let normalized = map (\<lambda>e. \<lparr>ce_source = norm (ce_source e), ce_target = norm (ce_target e),
                                   ce_weight = ce_weight e\<rparr>) edges;
            nodes = largest_connected_component normalized;
            kept = filter (\<lambda>e. ce_source e \<in> nodes \<and> ce_target e \<in> nodes) normalized;
            by_pair = foldl (\<lambda>m e. let p = sorted_pair (ce_source e) (ce_target e)
                in if map_of m p = None then om_insert p (ce_weight e) m else m) [] kept
        in map (\<lambda>((s, t), w). \<lparr>ce_source = s, ce_target = t, ce_weight = w\<rparr>) by_pair)"

definition prepare_cluster_edges ::
  "(string \<Rightarrow> string) \<Rightarrow> 'w cluster_relationship list \<Rightarrow> bool \<Rightarrow> (string \<times> string \<times> 'w) list" where
  "prepare_cluster_edges norm rs use_lcc =
     (let edges = dedup_edges rs;
          edges' = (if use_lcc then stable_lcc norm edges else sort_edges edges)
      in map (\<lambda>e. (ce_source e, ce_target e, ce_weight e)) edges')"

subsection \<open>Clusters\<close>

record hierarchical_cluster =
  hc_node :: string \<comment> \<open>the label of the node\<close>
  hc_level :: nat
  hc_cluster :: usize
  hc_parent_cluster :: "usize option"

definition cluster_index_to_i64 :: "usize \<Rightarrow> string \<Rightarrow> index_error + i64" where
  "cluster_index_to_i64 n column =
     (if int n \<le> i64_max then Inr (int n)
      else Inl (InvalidData ''create_communities''
       (column @ '' cluster index is too large for i64: out of range integral type conversion attempted'')))"

definition cluster_key :: "hierarchical_cluster \<Rightarrow> index_error + (i64 \<times> i64 \<times> i64)" where
  "cluster_key c =
     and_then (cluster_index_to_i64 (hc_cluster c) ''community'') (\<lambda>community.
     and_then (case hc_parent_cluster c of None \<Rightarrow> Inr (-1) | Some p \<Rightarrow> cluster_index_to_i64 p ''parent'') (\<lambda>parent.
       Inr (int (hc_level c), community, parent)))"

fun collect_clusters ::
  "(i64 \<times> i64 \<times> i64, string list) omap \<Rightarrow> hierarchical_cluster list
   \<Rightarrow> index_error + (i64 \<times> i64 \<times> i64, string list) omap" where
  "collect_clusters node_map [] = Inr node_map"
| "collect_clusters node_map (c # cs) =
     and_then (cluster_key c) (\<lambda>key.
       collect_clusters (om_update [] (\<lambda>titles. titles @ [hc_node c]) key node_map) cs)"

definition cluster_graph ::
  "(string \<Rightarrow> string)
   \<Rightarrow> ((string \<times> string \<times> 'w) list \<Rightarrow> u32 \<Rightarrow> u64 \<Rightarrow> string + hierarchical_cluster list)
   \<Rightarrow> 'w cluster_relationship list \<Rightarrow> u32 \<Rightarrow> bool \<Rightarrow> u64 \<Rightarrow> index_error + community_cluster list" where
  "cluster_graph norm leiden rs max_cluster_size use_lcc seed =
     and_then (map_err (InvalidData ''create_communities'')
         (leiden (prepare_cluster_edges norm rs use_lcc) max_cluster_size seed)) (\<lambda>internal.
     and_then (collect_clusters [] internal) (\<lambda>node_map.
       Inr (map (\<lambda>((level, community, parent), titles).
         \<lparr>cc_level = level, cc_community = community, cc_parent = parent, cc_titles = sort titles\<rparr>) node_map)))"

subsection \<open>Deduplication keeps the last edge of every pair\<close>

lemma ce_pair_of: "ce_pair (cluster_edge_of r) = sorted_pair (cr_source r) (cr_target r)"
  by (cases "sorted_pair (cr_source r) (cr_target r)") (simp add: cluster_edge_of_def ce_pair_def)

definition last_edges :: "'w cluster_relationship list \<Rightarrow> string \<times> string \<Rightarrow> 'w cluster_edge option" where
  "last_edges rs = map_of (rev (map (\<lambda>r. (ce_pair (cluster_edge_of r), cluster_edge_of r)) rs))"

lemma last_edges_snoc:
  "last_edges (rs @ [r]) = (last_edges rs)(ce_pair (cluster_edge_of r) \<mapsto> cluster_edge_of r)"
  by (simp add: last_edges_def)

lemma last_edges_pair: "last_edges rs p = Some e \<Longrightarrow> ce_pair e = p"
  by (induction rs rule: rev_induct) (auto simp: last_edges_snoc last_edges_def [of "[]"] split: if_splits)

definition dedup_ok :: "'w cluster_relationship list \<Rightarrow> (string \<times> string \<Rightarrow> usize option) \<Rightarrow> 'w cluster_edge option list \<Rightarrow> bool" where
  "dedup_ok rs idx ds \<longleftrightarrow>
     (\<forall>p i. idx p = Some i \<longleftrightarrow> i < length ds \<and> (\<exists>e. ds ! i = Some e \<and> ce_pair e = p))
     \<and> (\<forall>p e. last_edges rs p = Some e \<longleftrightarrow> Some e \<in> set ds \<and> ce_pair e = p)"

lemma dedup_fold: "case foldl dedup_step (Map.empty, []) rs of (idx, ds) \<Rightarrow> dedup_ok rs idx ds"
proof (induction rs rule: rev_induct)
  case Nil
  then show ?case by (simp add: dedup_ok_def last_edges_def)
next
  case (snoc r rs)
  obtain idx ds where st: "foldl dedup_step (Map.empty, []) rs = (idx, ds)" by fastforce
  let ?e = "cluster_edge_of r" and ?p = "ce_pair (cluster_edge_of r)"
  from snoc.IH st have ok: "dedup_ok rs idx ds" by simp
  then have idx: "\<And>p i. idx p = Some i \<longleftrightarrow> i < length ds \<and> (\<exists>e. ds ! i = Some e \<and> ce_pair e = p)"
    and last: "\<And>p e. last_edges rs p = Some e \<longleftrightarrow> Some e \<in> set ds \<and> ce_pair e = p"
    unfolding dedup_ok_def by blast+
  define ds' where "ds' = (case idx ?p of Some i \<Rightarrow> ds[i := None] | None \<Rightarrow> ds)"
  have len: "length ds' = length ds" by (simp add: ds'_def split: option.split)
  have step: "foldl dedup_step (Map.empty, []) (rs @ [r]) = (idx(?p \<mapsto> length ds), ds' @ [Some ?e])"
  proof -
    have "i < length ds" if "idx ?p = Some i" for i using that idx by blast
    then show ?thesis by (cases "idx ?p") (simp_all add: st dedup_step_def Let_def ds'_def)
  qed
  have nth: "ds' ! i = (if idx ?p = Some i then None else ds ! i)" if "i < length ds" for i
    using that by (auto simp: ds'_def split: option.split)
  have entry: "ds' ! i = Some e \<longleftrightarrow> ds ! i = Some e \<and> ce_pair e \<noteq> ?p" if "i < length ds" for i e
  proof (cases "idx ?p = Some i")
    case True
    have "ce_pair x = ?p" if "ds ! i = Some x" for x
    proof -
      from True idx obtain y where "ds ! i = Some y" "ce_pair y = ?p" by blast
      with that show ?thesis by simp
    qed
    moreover have "ds' ! i = None" using True nth [OF that] by simp
    ultimately show ?thesis by auto
  next
    case False
    have "ce_pair x \<noteq> ?p" if "ds ! i = Some x" for x
      using False idx \<open>i < length ds\<close> that by blast
    moreover have "ds' ! i = ds ! i" using False nth [OF that] by simp
    ultimately show ?thesis by auto
  qed
  have "dedup_ok (rs @ [r]) (idx(?p \<mapsto> length ds)) (ds' @ [Some ?e])"
    unfolding dedup_ok_def
  proof (intro conjI allI)
    fix p i
    show "(idx(?p \<mapsto> length ds)) p = Some i \<longleftrightarrow>
        i < length (ds' @ [Some ?e]) \<and> (\<exists>e. (ds' @ [Some ?e]) ! i = Some e \<and> ce_pair e = p)"
    proof (cases "i < length ds")
      case True
      then show ?thesis using idx [of p i] entry [OF True] len by (auto simp: nth_append)
    next
      case False
      moreover have "idx p \<noteq> Some i" if "\<not> i < length ds" for p using that idx [of p i] by simp
      ultimately show ?thesis using len by (auto simp: nth_append less_Suc_eq)
    qed
  next
    fix p e
    have "Some e \<in> set ds' \<longleftrightarrow> Some e \<in> set ds \<and> ce_pair e \<noteq> ?p"
      using entry len by (metis in_set_conv_nth)
    then show "last_edges (rs @ [r]) p = Some e \<longleftrightarrow> Some e \<in> set (ds' @ [Some ?e]) \<and> ce_pair e = p"
      using last [of p e] by (auto simp: last_edges_snoc)
  qed
  then show ?case using step by simp
qed

lemma set_flatten_options: "set (flatten_options xs) = {x. Some x \<in> set xs}"
  by (force simp: flatten_options_def)

lemma distinct_flatten_options:
  "(\<And>i j x y. i < j \<Longrightarrow> j < length xs \<Longrightarrow> xs ! i = Some x \<Longrightarrow> xs ! j = Some y \<Longrightarrow> f x \<noteq> f y)
   \<Longrightarrow> distinct (map f (flatten_options xs))"
proof (induction xs)
  case Nil
  then show ?case by (simp add: flatten_options_def)
next
  case (Cons x xs)
  have "distinct (map f (flatten_options xs))"
  proof (rule Cons.IH)
    fix i j a b assume "i < j" "j < length xs" "xs ! i = Some a" "xs ! j = Some b"
    then show "f a \<noteq> f b" using Cons.prems [of "Suc i" "Suc j" a b] by simp
  qed
  moreover have "f a \<notin> f ` {y. Some y \<in> set xs}" if "x = Some a" for a
    using that Cons.prems [of 0 _ a] by (fastforce simp: in_set_conv_nth)
  ultimately show ?case
    using set_flatten_options [of xs] by (cases x) (auto simp: flatten_options_def)
qed

lemma dedup_edges_spec:
  "distinct (map ce_pair (dedup_edges rs))"
  "e \<in> set (dedup_edges rs) \<longleftrightarrow> last_edges rs (ce_pair e) = Some e"
proof -
  obtain idx ds where st: "foldl dedup_step (Map.empty, []) rs = (idx, ds)" by fastforce
  with dedup_fold [of rs] have ok: "dedup_ok rs idx ds" by simp
  then have "idx (ce_pair x) = Some i" if "i < length ds" "ds ! i = Some x" for i x
    using that unfolding dedup_ok_def by blast
  then have "ce_pair x \<noteq> ce_pair y" if "i < j" "j < length ds" "ds ! i = Some x" "ds ! j = Some y" for i j x y
    using that by (metis less_trans nat_neq_iff option.inject)
  then show "distinct (map ce_pair (dedup_edges rs))"
    unfolding dedup_edges_def st snd_conv by (rule distinct_flatten_options)
  show "e \<in> set (dedup_edges rs) \<longleftrightarrow> last_edges rs (ce_pair e) = Some e"
    using ok unfolding dedup_edges_def st snd_conv set_flatten_options mem_Collect_eq dedup_ok_def by blast
qed

text \<open>The edge list without component selection: sorted strictly by endpoints, so every undirected pair
  occurs once, with its endpoints in order, and its weight is that of the last relationship
  given for the pair.\<close>

theorem prepared_edges_last_wins:
  "sorted_wrt (<) (map (\<lambda>(s, t, w). (s, t)) (prepare_cluster_edges norm rs False))
   \<and> set (prepare_cluster_edges norm rs False) =
       {(s, t, w). \<exists>before r after. rs = before @ r # after \<and> sorted_pair (cr_source r) (cr_target r) = (s, t)
          \<and> w = cr_weight r \<and> (s, t) \<notin> (\<lambda>x. sorted_pair (cr_source x) (cr_target x)) ` set after}"
proof
  let ?es = "sort_edges (dedup_edges rs)"
  have pairs: "map (\<lambda>(s, t, w). (s, t)) (prepare_cluster_edges norm rs False) = map ce_pair ?es"
    by (simp add: prepare_cluster_edges_def ce_pair_def)
  have "distinct (map ce_pair ?es)"
    using dedup_edges_spec(1) [of rs] by (simp add: sort_edges_def distinct_map)
  then show "sorted_wrt (<) (map (\<lambda>(s, t, w). (s, t)) (prepare_cluster_edges norm rs False))"
    unfolding pairs by (simp add: strict_sorted_iff sort_edges_def)
  have last: "last_edges rs p = Some e \<longleftrightarrow> (\<exists>before r after. rs = before @ r # after \<and> e = cluster_edge_of r
      \<and> ce_pair e = p \<and> p \<notin> (\<lambda>x. sorted_pair (cr_source x) (cr_target x)) ` set after)" for p e
  proof (induction rs rule: rev_induct)
    case Nil
    then show ?case by (simp add: last_edges_def)
  next
    case (snoc x xs)
    have split: "(\<exists>before r after. xs @ [x] = before @ r # after \<and> Q r after) \<longleftrightarrow>
        Q x [] \<or> (\<exists>before r after. xs = before @ r # after \<and> Q r (after @ [x]))" for Q
    proof
      assume "\<exists>before r after. xs @ [x] = before @ r # after \<and> Q r after"
      then obtain before r after where "xs @ [x] = before @ r # after" "Q r after" by blast
      then show "Q x [] \<or> (\<exists>before r after. xs = before @ r # after \<and> Q r (after @ [x]))"
        by (cases after rule: rev_cases) auto
    qed fastforce
    show ?case
      unfolding split by (auto simp: last_edges_snoc snoc.IH ce_pair_of split: if_splits)
  qed
  have edge: "ce_pair (cluster_edge_of r) = (s, t) \<longleftrightarrow>
      ce_source (cluster_edge_of r) = s \<and> ce_target (cluster_edge_of r) = t" for r s t
    by (auto simp: ce_pair_def)
  have w: "ce_weight (cluster_edge_of r) = cr_weight r" for r
    by (simp add: cluster_edge_of_def split: prod.split)
  show "set (prepare_cluster_edges norm rs False) =
       {(s, t, w). \<exists>before r after. rs = before @ r # after \<and> sorted_pair (cr_source r) (cr_target r) = (s, t)
          \<and> w = cr_weight r \<and> (s, t) \<notin> (\<lambda>x. sorted_pair (cr_source x) (cr_target x)) ` set after}"
    (is "?L = ?R")
  proof (rule set_eqI, clarify)
    fix s t w'
    have "(s, t, w') \<in> ?L \<longleftrightarrow> (\<exists>e. last_edges rs (s, t) = Some e \<and> w' = ce_weight e)"
      using dedup_edges_spec(2) [of _ rs] last_edges_pair [of rs "(s, t)"]
      by (auto simp: prepare_cluster_edges_def sort_edges_def ce_pair_def image_iff)
    also have "\<dots> \<longleftrightarrow> (s, t, w') \<in> ?R"
    proof
      assume "\<exists>e. last_edges rs (s, t) = Some e \<and> w' = ce_weight e"
      then obtain before r after where r: "rs = before @ r # after" "ce_pair (cluster_edge_of r) = (s, t)"
        "(s, t) \<notin> (\<lambda>x. sorted_pair (cr_source x) (cr_target x)) ` set after" "w' = ce_weight (cluster_edge_of r)"
        unfolding last by blast
      then have "sorted_pair (cr_source r) (cr_target r) = (s, t)" "w' = cr_weight r"
        by (simp_all add: w ce_pair_of)
      with r(1,3) show "(s, t, w') \<in> ?R" unfolding mem_Collect_eq prod.case by blast
    next
      assume "(s, t, w') \<in> ?R"
      then obtain before r after where r: "rs = before @ r # after" "sorted_pair (cr_source r) (cr_target r) = (s, t)"
        "(s, t) \<notin> (\<lambda>x. sorted_pair (cr_source x) (cr_target x)) ` set after" "w' = cr_weight r"
        unfolding mem_Collect_eq prod.case by blast
      then have "ce_pair (cluster_edge_of r) = (s, t)" "w' = ce_weight (cluster_edge_of r)"
        by (simp_all add: w ce_pair_of)
      with r(1,3) show "\<exists>e. last_edges rs (s, t) = Some e \<and> w' = ce_weight e" unfolding last by blast
    qed
    finally show "(s, t, w') \<in> ?L \<longleftrightarrow> (s, t, w') \<in> ?R" .
  qed
qed

subsection \<open>The search finds connected components\<close>

definition edge_rel :: "'w cluster_edge list \<Rightarrow> string rel" where
  "edge_rel edges = {(a, b). \<exists>e \<in> set edges. {ce_source e, ce_target e} = {a, b}}"

definition endpoints :: "'w cluster_edge list \<Rightarrow> string set" where
  "endpoints edges = ce_source ` set edges \<union> ce_target ` set edges"

definition connected :: "'w cluster_edge list \<Rightarrow> string \<Rightarrow> string set" where
  "connected edges n = (edge_rel edges)\<^sup>* `` {n}"

lemma set_bset_insert [simp]: "set (bset_insert x ys) = insert x (set ys)"
  by (induction ys) auto

lemma om_ok_add_adjacent: "om_ok adj \<Longrightarrow> om_ok (add_adjacent a b adj)"
  by (simp add: add_adjacent_def)

lemma neighbors_add_adjacent:
  "om_ok adj \<Longrightarrow> set (neighbors (add_adjacent a b adj) v) =
     (if v = a then insert b (set (neighbors adj v)) else set (neighbors adj v))"
  by (auto simp: neighbors_def add_adjacent_def map_of_om_update split: option.splits)

lemma adjacency_spec:
  "om_ok (adjacency edges) \<and> set (om_keys (adjacency edges)) = endpoints edges
   \<and> (\<forall>a. set (neighbors (adjacency edges) a) = edge_rel edges `` {a})"
proof (induction edges rule: rev_induct)
  case Nil
  then show ?case by (simp add: adjacency_def endpoints_def edge_rel_def neighbors_def om_keys_def)
next
  case (snoc e es)
  let ?adj = "adjacency es"
  let ?adj1 = "add_adjacent (ce_source e) (ce_target e) ?adj"
  have adj: "adjacency (es @ [e]) = add_adjacent (ce_target e) (ce_source e) ?adj1"
    by (simp add: adjacency_def)
  have ok: "om_ok ?adj" "om_ok ?adj1" using snoc.IH by (simp_all add: om_ok_add_adjacent)
  have rel: "edge_rel (es @ [e]) `` {a} =
      edge_rel es `` {a} \<union> (if ce_source e = a then {ce_target e} else {}) \<union> (if ce_target e = a then {ce_source e} else {})" for a
    by (auto simp: edge_rel_def doubleton_eq_iff)
  show ?case
    using snoc.IH ok unfolding adj rel
    by (auto simp: om_ok_add_adjacent neighbors_add_adjacent endpoints_def)
      (auto simp: add_adjacent_def)
qed

lemma edge_rel_sym: "sym (edge_rel edges)"
  by (auto simp: edge_rel_def sym_def insert_commute)

lemma bfs_spec:
  "\<forall>a. set (neighbors adj a) = R `` {a} \<Longrightarrow> visited = D \<union> component \<union> set queue \<Longrightarrow> R `` component \<subseteq> visited \<Longrightarrow>
    (case bfs adj visited component queue of (v, c) \<Rightarrow>
       v = D \<union> c \<and> component \<union> set queue \<subseteq> c \<and> R `` c \<subseteq> v \<and> c \<subseteq> R\<^sup>* `` (component \<union> set queue))"
proof (induction adj visited component queue rule: bfs.induct)
  case (1 adj visited component)
  then show ?case by auto
next
  case (2 adj visited component current queue)
  let ?nbrs = "set (neighbors adj current)"
  obtain new where vis: "visit_neighbors (neighbors adj current) visited queue = (visited \<union> ?nbrs, queue @ new)"
    and new: "set new = ?nbrs - visited"
    using visit_neighbors_eq [of "neighbors adj current" visited queue] by blast
  have nbrs: "?nbrs = R `` {current}" using 2(2) by simp
  obtain v c where run: "bfs adj (visited \<union> ?nbrs) (insert current component) (queue @ new) = (v, c)" by fastforce
  have p1: "visited \<union> ?nbrs = D \<union> insert current component \<union> set (queue @ new)"
    using "2.prems"(2) new by auto
  have p2: "R `` insert current component \<subseteq> visited \<union> ?nbrs" using "2.prems"(3) nbrs by auto
  from "2.IH" [OF vis [symmetric] "2.prems"(1) p1 p2]
  have post: "v = D \<union> c" "insert current component \<union> set (queue @ new) \<subseteq> c" "R `` c \<subseteq> v"
    "c \<subseteq> R\<^sup>* `` (insert current component \<union> set (queue @ new))"
    unfolding run prod.case by blast+
  have "set new \<subseteq> R\<^sup>* `` {current}" using new nbrs by auto
  then have "R\<^sup>* `` (insert current component \<union> set (queue @ new)) \<subseteq> R\<^sup>* `` (component \<union> set (current # queue))"
    by (auto intro: rtrancl_trans)
  then show ?case using post by (auto simp: vis run)
qed

lemma connected_refl: "n \<in> connected edges n"
  by (simp add: connected_def)

lemma connected_eq: "m \<in> connected edges n \<Longrightarrow> connected edges m = connected edges n"
proof -
  assume "m \<in> connected edges n"
  then have "(n, m) \<in> (edge_rel edges)\<^sup>*" by (simp add: connected_def)
  moreover from this have "(m, n) \<in> (edge_rel edges)\<^sup>*"
    using edge_rel_sym sym_rtrancl symD by metis
  ultimately show ?thesis by (auto simp: connected_def intro: rtrancl_trans)
qed

lemma connected_subset: "connected edges n \<subseteq> insert n (endpoints edges)"
proof
  fix x assume "x \<in> connected edges n"
  then have "(n, x) \<in> (edge_rel edges)\<^sup>*" by (simp add: connected_def)
  then show "x \<in> insert n (endpoints edges)"
    by (cases rule: rtranclE) (auto simp: edge_rel_def endpoints_def doubleton_eq_iff)
qed

lemma finite_connected: "finite (connected edges n)"
  by (rule finite_subset [OF connected_subset]) (simp add: endpoints_def)

lemma card_connected_pos: "0 < card (connected edges n)"
  using connected_refl finite_connected card_gt_0_iff by blast

lemma bfs_component:
  assumes "visited = (\<Union>m \<in> M. connected edges m)" "n \<notin> visited"
  shows "bfs (adjacency edges) (insert n visited) {} [n] = (visited \<union> connected edges n, connected edges n)"
proof -
  let ?R = "edge_rel edges"
  have nb: "\<forall>a. set (neighbors (adjacency edges) a) = ?R `` {a}" using adjacency_spec by blast
  obtain v c where run: "bfs (adjacency edges) (insert n visited) {} [n] = (v, c)" by fastforce
  with bfs_spec [OF nb, of "insert n visited" visited "{}" "[n]"]
  have post: "v = visited \<union> c" "n \<in> c" "?R `` c \<subseteq> v" "c \<subseteq> connected edges n"
    by (auto simp: connected_def)
  have apart: "connected edges n \<inter> visited = {}"
  proof (rule ccontr)
    assume "connected edges n \<inter> visited \<noteq> {}"
    then obtain x m where x: "x \<in> connected edges n" "m \<in> M" "x \<in> connected edges m" using assms(1) by blast
    from connected_eq [OF x(1)] connected_eq [OF x(3)] have "n \<in> connected edges m"
      using connected_refl [of n edges] by simp
    with x(2) assms show False by blast
  qed
  have "x \<in> c" if "(n, x) \<in> ?R\<^sup>*" for x
    using that
  proof (induction rule: rtrancl_induct)
    case (step y z)
    then have "z \<in> v" using post(3) by blast
    moreover have "z \<in> connected edges n" using step by (auto simp: connected_def)
    ultimately show ?case using post(1) apart by blast
  qed (rule post(2))
  then have "c = connected edges n" using post(4) by (auto simp: connected_def)
  with run post(1) show ?thesis by simp
qed

definition leading :: "'w cluster_edge list \<Rightarrow> string list \<Rightarrow> string set \<Rightarrow> bool" where
  "leading edges ns c \<longleftrightarrow>
     (if ns = [] then c = {}
      else \<exists>n \<in> set ns. c = connected edges n
        \<and> (\<forall>m \<in> set ns. card (connected edges m) < card c \<or> card (connected edges m) = card c \<and> n \<le> m))"

lemma lcc_fold:
  "sorted_wrt (<) ns \<Longrightarrow>
   (case foldl (lcc_step (adjacency edges)) ({}, {}) ns of (visited, largest) \<Rightarrow>
      visited = (\<Union>m \<in> set ns. connected edges m) \<and> leading edges ns largest)"
proof (induction ns rule: rev_induct)
  case Nil
  then show ?case by (simp add: leading_def)
next
  case (snoc x ns)
  obtain visited largest where st: "foldl (lcc_step (adjacency edges)) ({}, {}) ns = (visited, largest)" by fastforce
  from snoc.prems have lt: "\<forall>m \<in> set ns. m < x" and "sorted_wrt (<) ns" by (simp_all add: sorted_wrt_append)
  with snoc.IH st have vis: "visited = (\<Union>m \<in> set ns. connected edges m)" and lead: "leading edges ns largest"
    by simp_all
  show ?case
  proof (cases "x \<in> visited")
    case True
    then obtain m where m: "m \<in> set ns" "connected edges x = connected edges m"
      using vis connected_eq by blast
    from m(1) lead obtain n where n: "n \<in> set ns" "largest = connected edges n"
      "\<forall>m \<in> set ns. card (connected edges m) < card largest \<or> card (connected edges m) = card largest \<and> n \<le> m"
      by (auto simp: leading_def split: if_splits)
    have "card (connected edges x) < card largest \<or> card (connected edges x) = card largest \<and> n \<le> x"
      using n(1,3) m lt by (metis less_imp_le)
    with n have "leading edges (ns @ [x]) largest" by (auto simp: leading_def)
    moreover have "lcc_step (adjacency edges) (visited, largest) x = (visited, largest)"
      using True by (simp add: lcc_step_def)
    ultimately show ?thesis using st vis m by auto
  next
    case False
    let ?c = "connected edges x"
    have run: "lcc_step (adjacency edges) (visited, largest) x =
        (visited \<union> ?c, if card largest < card ?c then ?c else largest)"
      using False bfs_component [OF vis False] by (simp add: lcc_step_def)
    have "leading edges (ns @ [x]) (if card largest < card ?c then ?c else largest)"
    proof (cases "card largest < card ?c")
      case True
      then have "\<forall>m \<in> set ns. card (connected edges m) < card ?c"
        using lead by (cases "ns = []") (fastforce simp: leading_def)+
      with True show ?thesis by (auto simp: leading_def)
    next
      case False
      then have "ns \<noteq> []" using lead card_connected_pos [of edges x] by (auto simp: leading_def)
      with lead obtain n where n: "n \<in> set ns" "largest = connected edges n"
        "\<forall>m \<in> set ns. card (connected edges m) < card largest \<or> card (connected edges m) = card largest \<and> n \<le> m"
        by (auto simp: leading_def)
      have "card ?c < card largest \<or> card ?c = card largest \<and> n \<le> x"
        using False lt n(1) by (auto simp: nat_neq_iff not_less le_less)
      with n False show ?thesis by (auto simp: leading_def)
    qed
    then show ?thesis using st run vis by (simp add: Un_commute)
  qed
qed

lemma largest_connected_component_leading:
  "leading edges (om_keys (adjacency edges)) (largest_connected_component edges)"
  using lcc_fold [of "om_keys (adjacency edges)" edges] adjacency_spec [of edges]
  by (auto simp: largest_connected_component_def Let_def om_ok_def split: prod.splits)

lemma om_keys_adjacency: "set (om_keys (adjacency edges)) = endpoints edges"
  using adjacency_spec by blast

text \<open>The largest component: for a non-empty edge list the search returns a connected component, at least
  as large as every other, and of the largest ones the one holding the smallest name; so it
  depends only on which pairs of names are joined, not on the order of the edges or of their
  endpoints.\<close>

theorem largest_component_spec:
  assumes "edges \<noteq> []"
  shows "\<exists>n \<in> endpoints edges. largest_connected_component edges = (edge_rel edges)\<^sup>* `` {n}
     \<and> (\<forall>m \<in> endpoints edges.
           card ((edge_rel edges)\<^sup>* `` {m}) < card ((edge_rel edges)\<^sup>* `` {n})
           \<or> card ((edge_rel edges)\<^sup>* `` {m}) = card ((edge_rel edges)\<^sup>* `` {n}) \<and> n \<le> m)"
proof -
  have "om_keys (adjacency edges) \<noteq> []"
    using assms om_keys_adjacency [of edges] by (auto simp: endpoints_def)
  with largest_connected_component_leading [of edges] show ?thesis
    unfolding leading_def om_keys_adjacency connected_def by auto
qed

text \<open>Stability: two edge lists that join the same pairs of names, in whatever order, direction and
  multiplicity, have the same largest component.\<close>

theorem largest_component_stable:
  assumes "(\<lambda>e. {ce_source e, ce_target e}) ` set edges = (\<lambda>e. {ce_source e, ce_target e}) ` set edges'"
  shows "largest_connected_component edges = largest_connected_component edges'"
proof -
  have member: "(\<exists>e \<in> set xs. {ce_source e, ce_target e} = {a, b}) \<longleftrightarrow>
      {a, b} \<in> (\<lambda>e. {ce_source e, ce_target e}) ` set xs" for a b and xs :: "'x cluster_edge list"
    by (auto simp: image_iff)
  have rel: "edge_rel edges = edge_rel edges'"
    by (simp add: edge_rel_def member assms)
  have ends: "endpoints xs = \<Union> ((\<lambda>e. {ce_source e, ce_target e}) ` set xs)" for xs :: "'x cluster_edge list"
    by (auto simp: endpoints_def)
  have ends_eq: "endpoints edges = endpoints edges'"
    by (simp add: ends assms del: UN_insert UN_simps)
  have keys: "om_keys (adjacency edges) = om_keys (adjacency edges')"
  proof (rule sorted_distinct_set_unique)
    show "set (om_keys (adjacency edges)) = set (om_keys (adjacency edges'))"
      by (simp add: om_keys_adjacency ends_eq)
  qed (use adjacency_spec [of edges] adjacency_spec [of edges'] in \<open>simp_all add: om_ok_sorted om_ok_distinct\<close>)
  have conn: "connected edges = connected edges'"
    by (auto simp: connected_def rel fun_eq_iff)
  have "c = d" if "leading edges ns c" "leading edges ns d" for c d ns
  proof (cases "ns = []")
    case False
    with that obtain n k where n: "n \<in> set ns" "c = connected edges n"
      "\<forall>m \<in> set ns. card (connected edges m) < card c \<or> card (connected edges m) = card c \<and> n \<le> m"
      and k: "k \<in> set ns" "d = connected edges k"
      "\<forall>m \<in> set ns. card (connected edges m) < card d \<or> card (connected edges m) = card d \<and> k \<le> m"
      by (auto simp: leading_def)
    then have "card d < card c \<or> card d = card c \<and> n \<le> k" "card c < card d \<or> card c = card d \<and> k \<le> n"
      by blast+
    then have "n = k" by auto
    with n k show ?thesis by simp
  qed (use that in \<open>simp add: leading_def\<close>)
  moreover have "leading edges ns c = leading edges' ns c" for ns c
    by (simp add: leading_def conn)
  ultimately show ?thesis
    using largest_connected_component_leading [of edges] largest_connected_component_leading [of edges'] keys
    by metis
qed

subsection \<open>The edges of the largest component\<close>

definition normalized_edges :: "(string \<Rightarrow> string) \<Rightarrow> 'w cluster_edge list \<Rightarrow> 'w cluster_edge list" where
  "normalized_edges norm edges =
     map (\<lambda>e. \<lparr>ce_source = norm (ce_source e), ce_target = norm (ce_target e), ce_weight = ce_weight e\<rparr>) edges"

lemma first_by_pair:
  "om_ok m \<Longrightarrow>
   om_ok (foldl (\<lambda>m e. let p = sorted_pair (ce_source e) (ce_target e)
       in if map_of m p = None then om_insert p (ce_weight e) m else m) m es)
   \<and> set (om_keys (foldl (\<lambda>m e. let p = sorted_pair (ce_source e) (ce_target e)
       in if map_of m p = None then om_insert p (ce_weight e) m else m) m es)) =
     set (om_keys m) \<union> (\<lambda>e. sorted_pair (ce_source e) (ce_target e)) ` set es"
proof (induction es arbitrary: m)
  case (Cons e es)
  let ?p = "sorted_pair (ce_source e) (ce_target e)"
  show ?case
  proof (cases "map_of m ?p")
    case None
    then show ?thesis using Cons.IH [of "om_insert ?p (ce_weight e) m"] Cons.prems by (simp add: Let_def)
  next
    case (Some w)
    then have "?p \<in> set (om_keys m)" by (auto simp: set_om_keys)
    with Some show ?thesis using Cons.IH [of m] Cons.prems by (auto simp: Let_def)
  qed
qed simp

lemma edge_in_component:
  "e \<in> set edges \<Longrightarrow> ce_source e \<in> connected edges n \<longleftrightarrow> ce_target e \<in> connected edges n"
proof -
  assume "e \<in> set edges"
  then have "(ce_source e, ce_target e) \<in> edge_rel edges" "(ce_target e, ce_source e) \<in> edge_rel edges"
    by (auto simp: edge_rel_def)
  then show ?thesis by (auto simp: connected_def intro: rtrancl_into_rtrancl)
qed

text \<open>Component selection: with \<open>use_lcc\<close> the edge list is sorted strictly by endpoints, and the names it
  joins are exactly the largest connected component of the normalised graph.\<close>

theorem prepared_edges_cover_component:
  "sorted_wrt (<) (map (\<lambda>(s, t, w). (s, t)) (prepare_cluster_edges norm rs True))
   \<and> \<Union> ((\<lambda>(s, t, w). {s, t}) ` set (prepare_cluster_edges norm rs True)) =
       largest_connected_component (normalized_edges norm (dedup_edges rs))"
proof (cases "dedup_edges rs = []")
  case True
  then show ?thesis
    by (simp add: prepare_cluster_edges_def stable_lcc_def normalized_edges_def largest_connected_component_def
        adjacency_def om_keys_def)
next
  case False
  let ?N = "normalized_edges norm (dedup_edges rs)"
  let ?L = "largest_connected_component ?N"
  let ?kept = "filter (\<lambda>e. ce_source e \<in> ?L \<and> ce_target e \<in> ?L) ?N"
  define m where "m = foldl (\<lambda>m e. let p = sorted_pair (ce_source e) (ce_target e)
       in if map_of m p = None then om_insert p (ce_weight e) m else m) [] ?kept"
  have ok: "om_ok m" and keys: "set (om_keys m) = (\<lambda>e. sorted_pair (ce_source e) (ce_target e)) ` set ?kept"
    using first_by_pair [of "[]" ?kept] by (simp_all add: m_def om_keys_def)
  have out: "prepare_cluster_edges norm rs True = map (\<lambda>((s, t), w). (s, t, w)) m"
    using False by (simp add: prepare_cluster_edges_def stable_lcc_def normalized_edges_def m_def Let_def
        case_prod_beta)
  have pairs: "map (\<lambda>(s, t, w). (s, t)) (prepare_cluster_edges norm rs True) = om_keys m"
    by (simp add: out om_keys_def case_prod_beta)
  have "\<Union> ((\<lambda>(s, t, w). {s, t}) ` set (prepare_cluster_edges norm rs True)) = \<Union> ((\<lambda>(s, t). {s, t}) ` set (om_keys m))"
    by (auto simp: out om_keys_def case_prod_beta)
  also have "\<dots> = \<Union> ((\<lambda>e. {ce_source e, ce_target e}) ` set ?kept)"
    unfolding keys by (auto simp: sorted_pair_def split: if_splits)
  also have "\<dots> = ?L"
  proof -
    have ne: "?N \<noteq> []" using False by (simp add: normalized_edges_def)
    obtain n where n: "n \<in> endpoints ?N" "?L = connected ?N n"
      using largest_component_spec [OF ne] by (auto simp: connected_def)
    show ?thesis
    proof
      show "?L \<subseteq> \<Union> ((\<lambda>e. {ce_source e, ce_target e}) ` set ?kept)"
      proof
        fix x assume x: "x \<in> ?L"
        then have "x \<in> endpoints ?N" using n connected_subset [of ?N n] by auto
        then obtain e where e: "e \<in> set ?N" "x = ce_source e \<or> x = ce_target e" by (auto simp: endpoints_def)
        with x n(2) edge_in_component [OF e(1), of n] have "e \<in> set ?kept" by auto
        with e(2) show "x \<in> \<Union> ((\<lambda>e. {ce_source e, ce_target e}) ` set ?kept)" by blast
      qed
    qed auto
  qed
  finally show ?thesis using ok by (simp add: pairs om_ok_def)
qed

subsection \<open>Clusters\<close>

definition titles_of :: "('k, string list) omap \<Rightarrow> 'k \<Rightarrow> string list" where
  "titles_of m k = (case map_of m k of None \<Rightarrow> [] | Some ts \<Rightarrow> ts)"

lemma collect_clusters_spec:
  "collect_clusters m0 cs = Inr m \<Longrightarrow> om_ok m0 \<Longrightarrow> [] \<notin> ran (map_of m0) \<Longrightarrow>
   om_ok m \<and> [] \<notin> ran (map_of m)
   \<and> (\<forall>k. titles_of m k = titles_of m0 k @ map hc_node (filter (\<lambda>c. cluster_key c = Inr k) cs))
   \<and> (\<forall>c \<in> set cs. is_ok (cluster_key c))"
proof (induction cs arbitrary: m0)
  case Nil
  then show ?case by simp
next
  case (Cons c cs)
  from Cons.prems(1) obtain key where key: "cluster_key c = Inr key"
    and rest: "collect_clusters (om_update [] (\<lambda>titles. titles @ [hc_node c]) key m0) cs = Inr m"
    by (auto simp: and_then_Inr_iff)
  let ?m1 = "om_update [] (\<lambda>titles. titles @ [hc_node c]) key m0"
  have ok1: "om_ok ?m1" using Cons.prems(2) by simp
  have at: "map_of ?m1 = (map_of m0)(key \<mapsto> titles_of m0 key @ [hc_node c])"
    using map_of_om_update [OF Cons.prems(2)] by (simp add: titles_of_def)
  have "[] \<notin> ran (map_of ?m1)"
    using Cons.prems(3) by (auto simp: at ran_def split: if_splits)
  from Cons.IH [OF rest ok1 this] have ih: "om_ok m" "[] \<notin> ran (map_of m)"
    "\<And>k. titles_of m k = titles_of ?m1 k @ map hc_node (filter (\<lambda>c. cluster_key c = Inr k) cs)"
    "\<forall>c \<in> set cs. is_ok (cluster_key c)"
    by blast+
  have "titles_of ?m1 k = titles_of m0 k @ (if k = key then [hc_node c] else [])" for k
    by (simp add: titles_of_def [of ?m1] at) (simp add: titles_of_def)
  moreover have "is_ok (cluster_key c)" by (simp only: key is_ok.simps)
  ultimately show ?case using ih key by simp
qed

definition cc_key :: "community_cluster \<Rightarrow> i64 \<times> i64 \<times> i64" where
  "cc_key c = (cc_level c, cc_community c, cc_parent c)"

text \<open>Clusters: when clustering succeeds the library's hierarchy covers the prepared edges' result
  completely: the clusters come in strictly increasing order of level, community and parent, every
  cluster holds, sorted and non-empty, exactly the nodes the library put under that key, and
  no node is lost because its index does not fit.\<close>

theorem cluster_graph_partitions_nodes:
  assumes "cluster_graph norm leiden rs max_size use_lcc seed = Inr clusters"
  shows "\<exists>nodes. leiden (prepare_cluster_edges norm rs use_lcc) max_size seed = Inr nodes
     \<and> sorted_wrt (<) (map cc_key clusters)
     \<and> (\<forall>c \<in> set clusters. cc_titles c \<noteq> [] \<and> sorted (cc_titles c)
          \<and> mset (cc_titles c) = mset (map hc_node (filter (\<lambda>n. cluster_key n = Inr (cc_key c)) nodes)))
     \<and> (\<forall>n \<in> set nodes. \<exists>c \<in> set clusters. cluster_key n = Inr (cc_key c) \<and> hc_node n \<in> set (cc_titles c))"
proof -
  from assms obtain nodes m where run: "leiden (prepare_cluster_edges norm rs use_lcc) max_size seed = Inr nodes"
    and coll: "collect_clusters [] nodes = Inr m"
    and out: "clusters = map (\<lambda>e. \<lparr>cc_level = fst (fst e), cc_community = fst (snd (fst e)),
        cc_parent = snd (snd (fst e)), cc_titles = sort (snd e)\<rparr>) m"
    by (auto simp: cluster_graph_def and_then_Inr_iff case_prod_beta)
  have spec: "om_ok m" "[] \<notin> ran (map_of m)"
    "\<And>k. titles_of m k = map hc_node (filter (\<lambda>c. cluster_key c = Inr k) nodes)"
    "\<forall>c \<in> set nodes. is_ok (cluster_key c)"
  proof -
    have start: "om_ok ([] :: (i64 \<times> i64 \<times> i64, string list) omap)"
      "[] \<notin> ran (map_of ([] :: (i64 \<times> i64 \<times> i64, string list) omap))"
      "\<And>k. titles_of ([] :: (i64 \<times> i64 \<times> i64, string list) omap) k = []"
      by (simp_all add: titles_of_def)
    from collect_clusters_spec [OF coll start(1,2)] show "om_ok m" "[] \<notin> ran (map_of m)"
      "\<forall>c \<in> set nodes. is_ok (cluster_key c)"
      by blast+
    from collect_clusters_spec [OF coll start(1,2)]
    have "titles_of m k = titles_of [] k @ map hc_node (filter (\<lambda>c. cluster_key c = Inr k) nodes)" for k
      by blast
    then show "\<And>k. titles_of m k = map hc_node (filter (\<lambda>c. cluster_key c = Inr k) nodes)"
      by (simp add: start(3))
  qed
  have keys: "map cc_key clusters = om_keys m"
    by (simp add: out cc_key_def om_keys_def)
  have entry: "titles_of m k = ts \<and> ts \<noteq> []" if "(k, ts) \<in> set m" for k ts
  proof -
    have "map_of m k = Some ts"
      using om_ok_distinct [OF spec(1)] that by (simp add: om_keys_def)
    moreover from this have "ts \<in> ran (map_of m)" by (rule ranI)
    ultimately show ?thesis using spec(2) by (auto simp: titles_of_def)
  qed
  have each: "cc_titles c \<noteq> [] \<and> sorted (cc_titles c)
      \<and> mset (cc_titles c) = mset (map hc_node (filter (\<lambda>n. cluster_key n = Inr (cc_key c)) nodes))"
    if "c \<in> set clusters" for c
  proof -
    from that obtain k ts where e: "(k, ts) \<in> set m" "cc_key c = k" "cc_titles c = sort ts"
      by (auto simp: out cc_key_def)
    from entry [OF e(1)] have "ts \<noteq> []" "ts = map hc_node (filter (\<lambda>n. cluster_key n = Inr k) nodes)"
      using spec(3) by simp_all
    moreover have "set (sort ts) = set ts" by simp
    ultimately show ?thesis using e(2,3) by (metis empty_set mset_sort set_empty sorted_sort)
  qed
  have covered: "\<exists>c \<in> set clusters. cluster_key n = Inr (cc_key c) \<and> hc_node n \<in> set (cc_titles c)"
    if n: "n \<in> set nodes" for n
  proof -
    obtain k where k: "cluster_key n = Inr k" using spec(4) n by (auto simp: is_ok_iff)
    then have mem: "hc_node n \<in> set (titles_of m k)" using n by (simp add: spec(3))
    then obtain ts where ts: "(k, ts) \<in> set m" "hc_node n \<in> set ts"
      by (cases "map_of m k") (auto simp: titles_of_def dest: map_of_SomeD)
    let ?c = "\<lparr>cc_level = fst k, cc_community = fst (snd k), cc_parent = snd (snd k), cc_titles = sort ts\<rparr>"
    have "?c \<in> set clusters" using ts(1) by (force simp: out)
    moreover have "cluster_key n = Inr (cc_key ?c) \<and> hc_node n \<in> set (cc_titles ?c)"
      using k ts(2) by (simp add: cc_key_def)
    ultimately show ?thesis by blast
  qed
  have "sorted_wrt (<) (map cc_key clusters)" using spec(1) by (simp add: keys om_ok_def)
  with run each covered show ?thesis by blast
qed

definition sample_leiden ::
  "(string \<times> string \<times> nat) list \<Rightarrow> u32 \<Rightarrow> u64 \<Rightarrow> string + hierarchical_cluster list" where
  "sample_leiden edges max_size seed =
     Inr [\<lparr>hc_node = ''B'', hc_level = 0, hc_cluster = 0, hc_parent_cluster = None\<rparr>,
          \<lparr>hc_node = ''C'', hc_level = 0, hc_cluster = 1, hc_parent_cluster = None\<rparr>,
          \<lparr>hc_node = ''A'', hc_level = 0, hc_cluster = 0, hc_parent_cluster = None\<rparr>]"

definition sample_links :: "nat cluster_relationship list" where
  "sample_links =
     [\<lparr>cr_source = ''B'', cr_target = ''A'', cr_weight = 1\<rparr>,
      \<lparr>cr_source = ''B'', cr_target = ''C'', cr_weight = 2\<rparr>]"

lemma sample_clusters:
  "cluster_graph id sample_leiden sample_links 10 False 0 =
     Inr [\<lparr>cc_level = 0, cc_community = 0, cc_parent = -1, cc_titles = [''A'', ''B'']\<rparr>,
          \<lparr>cc_level = 0, cc_community = 1, cc_parent = -1, cc_titles = [''C'']\<rparr>]"
  by (simp add: cluster_graph_def sample_leiden_def cluster_key_def cluster_index_to_i64_def i64_max_def om_update_def)

theorem cluster_graph_partitions_nodes_witness:
  "\<exists>nodes. sample_leiden (prepare_cluster_edges id sample_links False) 10 0 = Inr nodes
     \<and> (\<forall>n \<in> set nodes. hc_node n \<in> {''A'', ''B'', ''C''})"
proof -
  obtain nodes where nodes: "sample_leiden (prepare_cluster_edges id sample_links False) 10 0 = Inr nodes"
    "\<forall>n \<in> set nodes. \<exists>c \<in> set [\<lparr>cc_level = 0, cc_community = 0, cc_parent = -1, cc_titles = [''A'', ''B'']\<rparr>,
          \<lparr>cc_level = 0, cc_community = 1, cc_parent = -1, cc_titles = [''C'']\<rparr>].
       cluster_key n = Inr (cc_key c) \<and> hc_node n \<in> set (cc_titles c)"
    using cluster_graph_partitions_nodes [OF sample_clusters] by (elim exE conjE) (rule that)
  then have "\<forall>n \<in> set nodes. hc_node n \<in> {''A'', ''B'', ''C''}" by fastforce
  with nodes(1) show ?thesis by blast
qed

definition sample_edge :: "string \<Rightarrow> string \<Rightarrow> nat cluster_edge" where
  "sample_edge s t = \<lparr>ce_source = s, ce_target = t, ce_weight = 1\<rparr>"

theorem largest_component_spec_witness:
  "\<exists>n \<in> {''A'', ''B''}. largest_connected_component [sample_edge ''A'' ''B''] = (edge_rel [sample_edge ''A'' ''B''])\<^sup>* `` {n}"
  using largest_component_spec [of "[sample_edge ''A'' ''B'']"]
  by (auto simp: endpoints_def sample_edge_def)

theorem largest_component_stable_witness:
  "largest_connected_component [sample_edge ''A'' ''B'', sample_edge ''C'' ''B''] =
   largest_connected_component [sample_edge ''B'' ''C'', sample_edge ''B'' ''A'']"
  by (rule largest_component_stable) (auto simp: sample_edge_def)

end
