(* ===== verification/Update.thy ===== *)
theory Update
  imports Communities
begin

text \<open>
  Incremental updates (\<open>operations/update.rs\<close>): a delta index is merged into a previous one.

  A data frame is the list of its rows, read as the \<open>read_\<close> functions read them; the columns an
  operation does not touch are the rest of a row. Stacking one frame on another is list append. The
  schema errors of the data frame library are not modelled.
\<close>

subsection \<open>Human readable identifiers\<close>

definition update_error :: "string \<Rightarrow> index_error" where
  "update_error message = InvalidData ''incremental_update'' message"

definition max_human_readable_id :: "i64 list \<Rightarrow> i64" where
  "max_human_readable_id ids = (case ids of [] \<Rightarrow> -1 | v # vs \<Rightarrow> foldl max v vs)"

definition offset_id :: "i64 \<Rightarrow> usize \<Rightarrow> index_error + i64" where
  "offset_id initial_id index =
     and_then (usize_to_i64 index ''incremental_update'' ''row index'') (\<lambda>offset.
       ok_or (update_error ''human_readable_id overflow'') (i64_checked_add initial_id offset))"

definition sequential_ids :: "i64 \<Rightarrow> usize \<Rightarrow> index_error + i64 list" where
  "sequential_ids initial_id n = try_map (offset_id initial_id) [0..<n]"

definition first_free_id :: "string \<Rightarrow> i64 list \<Rightarrow> index_error + i64" where
  "first_free_id message ids =
     ok_or (update_error message) (i64_checked_add (max_human_readable_id ids) 1)"

text \<open>A row of documents is its identifier column and the rest.\<close>

definition concatenate_with_rebased_ids ::
  "(i64 \<times> 'r) list \<Rightarrow> (i64 \<times> 'r) list \<Rightarrow> index_error + (i64 \<times> 'r) list" where
  "concatenate_with_rebased_ids previous delta =
     and_then (first_free_id ''human_readable_id overflow'' (map fst previous)) (\<lambda>initial_id.
     and_then (sequential_ids initial_id (length delta)) (\<lambda>ids.
       Inr (previous @ zip ids (map snd delta))))"

subsection \<open>Entities\<close>

record entity_table_row =
  et_id :: string
  et_human_readable_id :: i64
  et_title :: string
  et_entity_type :: string
  et_descriptions :: "string list"
  et_text_unit_ids :: "string list"
  et_degree :: i64

record merged_entity_row =
  me_id :: string
  me_human_readable_id :: i64
  me_title :: string
  me_entity_type :: string
  me_descriptions :: "string list"
  me_text_unit_ids :: "string list"
  me_frequency :: i64
  me_degree :: i64

definition group_rows :: "('a \<Rightarrow> 'k::linorder) \<Rightarrow> 'a list \<Rightarrow> ('k, 'a list) omap" where
  "group_rows key rows = foldl (\<lambda>m row. om_update [] (\<lambda>l. l @ [row]) (key row) m) [] rows"

definition previous_ids_by_title :: "entity_table_row list \<Rightarrow> (string, string list) omap" where
  "previous_ids_by_title rows =
     foldl (\<lambda>m row. om_update [] (\<lambda>l. l @ [et_id row]) (et_title row) m) [] rows"

definition map_entity_ids ::
  "(string, string list) omap \<Rightarrow> entity_table_row list \<Rightarrow> (string, string) omap" where
  "map_entity_ids previous_ids delta_rows =
     foldl (\<lambda>m row. case map_of previous_ids (et_title row) of
         None \<Rightarrow> m
       | Some ids \<Rightarrow> foldl (\<lambda>m id. om_insert (et_id row) id m) m ids) [] delta_rows"

definition renumber_entities :: "i64 \<Rightarrow> entity_table_row list \<Rightarrow> index_error + entity_table_row list" where
  "renumber_entities initial_id rows =
     try_map (\<lambda>(index, row). and_then (offset_id initial_id index) (\<lambda>i. Inr (row\<lparr>et_human_readable_id := i\<rparr>)))
       (enumerate_from 0 rows)"

definition resolve_entity :: "string \<times> entity_table_row list \<Rightarrow> index_error + merged_entity_row" where
  "resolve_entity entry =
     (case entry of (title, rows) \<Rightarrow>
       (case rows of
          [] \<Rightarrow> Inl (update_error ''empty entity group'')
        | first # _ \<Rightarrow>
            let descriptions = concat (map et_descriptions rows);
                text_unit_ids = concat (map et_text_unit_ids rows)
            in and_then (usize_to_i64 (length text_unit_ids) ''incremental_update'' ''frequency'') (\<lambda>frequency.
              Inr \<lparr>me_id = et_id first, me_human_readable_id = et_human_readable_id first, me_title = title,
                   me_entity_type = et_entity_type first, me_descriptions = descriptions,
                   me_text_unit_ids = text_unit_ids, me_frequency = frequency,
                   me_degree = et_degree first\<rparr>)))"

definition update_entities ::
  "entity_table_row list \<Rightarrow> entity_table_row list
   \<Rightarrow> index_error + merged_entity_row list \<times> (string, string) omap" where
  "update_entities previous_rows delta_rows =
     (let id_mapping = map_entity_ids (previous_ids_by_title previous_rows) delta_rows in
      and_then (first_free_id ''entity human_readable_id overflow'' (map et_human_readable_id previous_rows))
        (\<lambda>initial_id.
      and_then (renumber_entities initial_id delta_rows) (\<lambda>delta_rows.
      and_then (try_map resolve_entity (group_rows et_title (previous_rows @ delta_rows))) (\<lambda>resolved.
        Inr (resolved, id_mapping)))))"

subsection \<open>Relationships\<close>

record 'w relationship_table_row =
  rt_id :: string
  rt_human_readable_id :: i64
  rt_source :: string
  rt_target :: string
  rt_descriptions :: "string list"
  rt_text_unit_ids :: "string list"
  rt_weight :: 'w

record 'w merged_relationship_row =
  mr_id :: string
  mr_human_readable_id :: i64
  mr_source :: string
  mr_target :: string
  mr_descriptions :: "string list"
  mr_text_unit_ids :: "string list"
  mr_weight :: 'w
  mr_combined_degree :: i64

definition renumber_relationships ::
  "i64 \<Rightarrow> 'w relationship_table_row list \<Rightarrow> index_error + 'w relationship_table_row list" where
  "renumber_relationships initial_id rows =
     try_map (\<lambda>(index, row). and_then (offset_id initial_id index) (\<lambda>i. Inr (row\<lparr>rt_human_readable_id := i\<rparr>)))
       (enumerate_from 0 rows)"

text \<open>The mean weight: \<open>of_u32\<close> stands for \<open>f64::from\<close>.\<close>

definition resolve_relationship ::
  "(nat \<Rightarrow> 'w) \<Rightarrow> (string \<times> string) \<times> 'w relationship_table_row list
   \<Rightarrow> index_error + 'w::{zero,plus,inverse} merged_relationship_row" where
  "resolve_relationship of_u32 entry =
     (case entry of ((source, target), rows) \<Rightarrow>
       (case rows of
          [] \<Rightarrow> Inl (update_error ''empty relationship group'')
        | first # _ \<Rightarrow>
            let descriptions = concat (map rt_descriptions rows);
                text_unit_ids = concat (map rt_text_unit_ids rows);
                weight = foldl (+) 0 (map rt_weight rows)
            in if length rows < 2 ^ 32
               then Inr \<lparr>mr_id = rt_id first, mr_human_readable_id = rt_human_readable_id first,
                         mr_source = source, mr_target = target, mr_descriptions = descriptions,
                         mr_text_unit_ids = text_unit_ids, mr_weight = weight / of_u32 (length rows),
                         mr_combined_degree = 0\<rparr>
               else Inl (update_error ''relationship group exceeds the supported row count'')))"

definition count_by :: "('a \<Rightarrow> string) \<Rightarrow> 'a list \<Rightarrow> (string, i64) omap" where
  "count_by key rows = foldl (\<lambda>m row. om_update 0 (\<lambda>n. i64_sat_add n 1) (key row) m) [] rows"

definition count_at :: "(string, i64) omap \<Rightarrow> string \<Rightarrow> i64" where
  "count_at m k = (case map_of m k of None \<Rightarrow> 0 | Some n \<Rightarrow> n)"

definition update_relationships ::
  "(nat \<Rightarrow> 'w) \<Rightarrow> 'w relationship_table_row list \<Rightarrow> 'w relationship_table_row list \<Rightarrow> string set
   \<Rightarrow> index_error + 'w::{zero,plus,inverse} merged_relationship_row list" where
  "update_relationships of_u32 previous_rows delta_rows entity_titles =
     and_then (first_free_id ''relationship human_readable_id overflow'' (map rt_human_readable_id previous_rows))
       (\<lambda>initial_id.
     and_then (renumber_relationships initial_id delta_rows) (\<lambda>delta_rows.
     and_then (try_map (resolve_relationship of_u32)
         (group_rows (\<lambda>r. (rt_source r, rt_target r)) (previous_rows @ delta_rows))) (\<lambda>merged.
       let source_degrees = count_by mr_source merged;
           target_degrees = count_by mr_target merged;
           merged = map (\<lambda>r. r\<lparr>mr_combined_degree :=
             i64_sat_add (count_at source_degrees (mr_source r)) (count_at target_degrees (mr_target r))\<rparr>) merged
       in Inr (filter (\<lambda>r. mr_source r \<in> entity_titles \<and> mr_target r \<in> entity_titles) merged))))"

subsection \<open>Summaries\<close>

definition entity_summary_inputs :: "merged_entity_row list \<Rightarrow> entity_row list" where
  "entity_summary_inputs rows =
     map (\<lambda>row. \<lparr>er_title = me_title row, er_entity_type = me_entity_type row,
       er_description = me_descriptions row, er_text_unit_ids = me_text_unit_ids row,
       er_frequency = me_frequency row\<rparr>) rows"

definition relationship_summary_inputs :: "'w merged_relationship_row list \<Rightarrow> 'w relationship_row list" where
  "relationship_summary_inputs rows =
     map (\<lambda>row. \<lparr>rr_source = mr_source row, rr_target = mr_target row,
       rr_description = mr_descriptions row, rr_text_unit_ids = mr_text_unit_ids row,
       rr_weight = mr_weight row\<rparr>) rows"

definition or_empty :: "string option \<Rightarrow> string" where
  "or_empty v = (case v of None \<Rightarrow> [] | Some d \<Rightarrow> d)"

definition summarized_entities ::
  "merged_entity_row list \<Rightarrow> summarized_entity_row list \<Rightarrow> final_entity_row list" where
  "summarized_entities merged summaries =
     (let descriptions = collect_map (map (\<lambda>row. (se_title row, se_description row)) summaries) in
      map (\<lambda>row. \<lparr>fe_id = me_id row, fe_human_readable_id = me_human_readable_id row, fe_title = me_title row,
        fe_entity_type = me_entity_type row, fe_description = or_empty (descriptions (me_title row)),
        fe_text_unit_ids = me_text_unit_ids row, fe_frequency = me_frequency row,
        fe_degree = me_degree row\<rparr>) merged)"

definition summarized_relationships ::
  "'w merged_relationship_row list \<Rightarrow> 'w summarized_relationship_row list \<Rightarrow> 'w final_relationship_row list" where
  "summarized_relationships merged summaries =
     (let descriptions = collect_map (map (\<lambda>row. ((sr_source row, sr_target row), sr_description row)) summaries) in
      map (\<lambda>row. \<lparr>fr_id = mr_id row, fr_human_readable_id = mr_human_readable_id row, fr_source = mr_source row,
        fr_target = mr_target row, fr_description = or_empty (descriptions (mr_source row, mr_target row)),
        fr_weight = mr_weight row, fr_combined_degree = mr_combined_degree row,
        fr_text_unit_ids = mr_text_unit_ids row\<rparr>) merged)"

subsection \<open>Text units, communities and reports\<close>

record 'r unit_table_row =
  ut_human_readable_id :: i64
  ut_entity_ids :: "string list option" \<comment> \<open>a null list stays null\<close>
  ut_rest :: 'r

definition update_text_units ::
  "'r unit_table_row list \<Rightarrow> 'r unit_table_row list \<Rightarrow> (string, string) omap
   \<Rightarrow> index_error + 'r unit_table_row list" where
  "update_text_units previous delta entity_mapping =
     and_then (first_free_id ''text unit human_readable_id overflow'' (map ut_human_readable_id previous))
       (\<lambda>initial_id.
     and_then (sequential_ids initial_id (length delta)) (\<lambda>ids.
       let remap = (\<lambda>entity_id. case map_of entity_mapping entity_id of None \<Rightarrow> entity_id | Some i \<Rightarrow> i)
       in Inr (previous @ map (\<lambda>(i, row). row\<lparr>ut_human_readable_id := i,
            ut_entity_ids := map_option (map remap) (ut_entity_ids row)\<rparr>) (zip ids delta))))"

record 'r community_table_row =
  ct_community :: "i64 option"
  ct_parent :: "i64 option"
  ct_human_readable_id :: i64
  ct_title :: string
  ct_rest :: 'r

definition map_community_ids :: "i64 \<Rightarrow> i64 list \<Rightarrow> index_error + (i64, i64) omap" where
  "map_community_ids old_max values =
     foldl (\<lambda>acc v. and_then acc (\<lambda>mapping.
         and_then (ok_or (update_error ''community ID overflow'')
           (Option.bind (i64_checked_add v old_max) (\<lambda>w. i64_checked_add w 1)))
         (\<lambda>mapped. Inr (om_insert v mapped mapping))))
       (Inr [(-1, -1)]) values"

definition remap_integer :: "(i64, i64) omap \<Rightarrow> i64 option \<Rightarrow> i64 option" where
  "remap_integer mapping v =
     map_option (\<lambda>i. case map_of mapping i of None \<Rightarrow> i | Some j \<Rightarrow> j) v"

definition or_zero :: "i64 option \<Rightarrow> i64" where
  "or_zero v = (case v of None \<Rightarrow> 0 | Some i \<Rightarrow> i)"

definition remap_community :: "(i64, i64) omap \<Rightarrow> 'r community_table_row \<Rightarrow> 'r community_table_row" where
  "remap_community mapping row =
     row\<lparr>ct_community := remap_integer mapping (ct_community row), ct_parent := remap_integer mapping (ct_parent row)\<rparr>"

definition flatten_values :: "i64 option list \<Rightarrow> i64 list" where
  "flatten_values vs = map the (filter (\<lambda>v. v \<noteq> None) vs)"

definition update_communities ::
  "'r community_table_row list \<Rightarrow> 'r community_table_row list
   \<Rightarrow> index_error + 'r community_table_row list \<times> (i64, i64) omap" where
  "update_communities previous delta =
     (let old_max = (case map (\<lambda>r. or_zero (ct_community r)) previous of [] \<Rightarrow> 0 | v # vs \<Rightarrow> foldl max v vs) in
      and_then (map_community_ids old_max (flatten_values (map ct_community delta))) (\<lambda>mapping.
        let merged = previous @ map (remap_community mapping) delta;
            labelled = map (\<lambda>r. r\<lparr>ct_title := ''Community '' @ int_to_dec (or_zero (ct_community r)),
              ct_human_readable_id := or_zero (ct_community r)\<rparr>) merged
        in Inr (labelled, mapping)))"

definition update_community_reports ::
  "'r community_table_row list \<Rightarrow> 'r community_table_row list \<Rightarrow> (i64, i64) omap
   \<Rightarrow> 'r community_table_row list" where
  "update_community_reports previous delta mapping =
     map (\<lambda>r. r\<lparr>ct_human_readable_id := or_zero (ct_community r)\<rparr>)
       (previous @ map (remap_community mapping) delta)"

subsection \<open>Rebased identifiers\<close>

lemma max_human_readable_id_eq: "max_human_readable_id ids = (if ids = [] then -1 else Max (set ids))"
  by (cases ids) (simp_all add: max_human_readable_id_def foldl_max)

lemma max_human_readable_id_ge: "i \<in> set ids \<Longrightarrow> i \<le> max_human_readable_id ids"
  by (auto simp: max_human_readable_id_eq)

lemma offset_id_Inr: "offset_id i n = Inr j \<longleftrightarrow> j = i + int n \<and> int n \<le> i64_max \<and> i64_ok (i + int n)"
  by (auto simp: offset_id_def usize_to_i64_def and_then_Inr_iff i64_checked_add_Some_iff)

lemma sequential_ids_Inr: "sequential_ids i n = Inr ids \<Longrightarrow> ids = map (\<lambda>k. i + int k) [0..<n]"
  unfolding sequential_ids_def by (erule try_map_const_Inr) (simp add: offset_id_Inr)

lemma sequential_ids_ok:
  assumes "i64_ok i"
  shows "is_ok (sequential_ids i n) \<longleftrightarrow> n = 0 \<or> int n - 1 \<le> i64_max \<and> i + int n - 1 \<le> i64_max"
proof -
  have one: "is_ok (offset_id i k) \<longleftrightarrow> int k \<le> i64_max \<and> i + int k \<le> i64_max" for k
  proof -
    have "is_ok (offset_id i k) \<longleftrightarrow> int k \<le> i64_max \<and> i64_ok (i + int k)"
      unfolding is_ok_iff offset_id_Inr by auto
    then show ?thesis using assms by (auto simp: i64_ok_def)
  qed
  show ?thesis
  proof (cases n)
    case (Suc m)
    have "(\<forall>k \<in> set [0..<n]. int k \<le> i64_max \<and> i + int k \<le> i64_max) \<longleftrightarrow> int m \<le> i64_max \<and> i + int m \<le> i64_max"
    proof
      assume "\<forall>k \<in> set [0..<n]. int k \<le> i64_max \<and> i + int k \<le> i64_max"
      moreover have "m \<in> set [0..<n]" using Suc by simp
      ultimately show "int m \<le> i64_max \<and> i + int m \<le> i64_max" by blast
    next
      assume *: "int m \<le> i64_max \<and> i + int m \<le> i64_max"
      show "\<forall>k \<in> set [0..<n]. int k \<le> i64_max \<and> i + int k \<le> i64_max"
      proof
        fix k assume "k \<in> set [0..<n]"
        then have "int k \<le> int m" using Suc by auto
        with * show "int k \<le> i64_max \<and> i + int k \<le> i64_max" by linarith
      qed
    qed
    with Suc show ?thesis unfolding sequential_ids_def is_ok_try_map one by simp
  qed (simp add: sequential_ids_def)
qed

text \<open>Appending a delta table: the rows keep their order and their other columns, previous identifiers
  are kept and the delta is renumbered consecutively after the largest one; it is an error exactly
  when an identifier would leave the signed 64-bit range.\<close>

theorem concatenate_rebases_or_overflows:
  assumes "\<forall>i \<in> fst ` set previous. i64_ok i"
  shows "let m = max_human_readable_id (map fst previous); n = int (length delta) in
     (if m < i64_max \<and> (n = 0 \<or> n - 1 \<le> i64_max \<and> m + n \<le> i64_max)
      then concatenate_with_rebased_ids previous delta =
             Inr (previous @ map (\<lambda>(k, row). (m + 1 + int k, snd row)) (enumerate_from 0 delta))
      else \<exists>e. concatenate_with_rebased_ids previous delta = Inl e)"
proof -
  let ?m = "max_human_readable_id (map fst previous)"
  have m: "i64_ok ?m"
  proof (cases "previous = []")
    case False
    then have "?m \<in> fst ` set previous" by (simp add: max_human_readable_id_eq)
    with assms show ?thesis by blast
  qed (simp add: max_human_readable_id_def i64_ok_def i64_min_def i64_max_def)
  have first: "first_free_id msg (map fst previous) = (if ?m < i64_max then Inr (?m + 1) else Inl (update_error msg))" for msg
    using m by (auto simp: first_free_id_def i64_checked_add_def i64_ok_def)
  show ?thesis
  proof (cases "?m < i64_max")
    case True
    then have ok: "i64_ok (?m + 1)" using m by (simp add: i64_ok_def)
    show ?thesis
    proof (cases "sequential_ids (?m + 1) (length delta)")
      case (Inl e)
      then have "\<not> is_ok (sequential_ids (?m + 1) (length delta))" by simp
      with True Inl first show ?thesis
        unfolding sequential_ids_ok [OF ok] by (auto simp: concatenate_with_rebased_ids_def Let_def)
    next
      case (Inr ids)
      then have "is_ok (sequential_ids (?m + 1) (length delta))" by simp
      then have cond: "length delta = 0 \<or> int (length delta) - 1 \<le> i64_max \<and> ?m + int (length delta) \<le> i64_max"
        unfolding sequential_ids_ok [OF ok] by auto
      have "zip ids (map snd delta) = map (\<lambda>(k, row). (?m + 1 + int k, snd row)) (enumerate_from 0 delta)"
        unfolding sequential_ids_Inr [OF Inr] enumerate_from_conv
        by (simp add: zip_map_map case_prod_beta)
      with True Inr first cond show ?thesis
        by (simp add: concatenate_with_rebased_ids_def Let_def)
    qed
  qed (simp add: first concatenate_with_rebased_ids_def)
qed

theorem concatenate_rebases_or_overflows_witness:
  "concatenate_with_rebased_ids [(3, ''a''), (8, ''b'')] [(0, ''c''), (1, ''d'')]
     = Inr [(3, ''a''), (8, ''b''), (9, ''c''), (10, ''d'')]"
  using concatenate_rebases_or_overflows [of "[(3, ''a''), (8, ''b'')]" "[(0, ''c''), (1, ''d'')]"]
  by (simp add: i64_ok_def i64_min_def i64_max_def max_human_readable_id_def)

subsection \<open>Groups\<close>

lemma group_rows_spec:
  "om_ok (group_rows key rows) \<and> set (om_keys (group_rows key rows)) = key ` set rows
   \<and> (\<forall>k. map_of (group_rows key rows) k =
       (case filter (\<lambda>r. key r = k) rows of [] \<Rightarrow> None | g # gs \<Rightarrow> Some (g # gs)))"
proof (induction rows rule: rev_induct)
  case Nil
  then show ?case by (simp add: group_rows_def om_keys_def)
next
  case (snoc r rows)
  let ?m = "group_rows key rows"
  have step: "group_rows key (rows @ [r]) = om_update [] (\<lambda>l. l @ [r]) (key r) ?m"
    by (simp add: group_rows_def)
  from snoc have ok: "om_ok ?m" and keys: "set (om_keys ?m) = key ` set rows"
    and at: "\<And>k. map_of ?m k = (case filter (\<lambda>r. key r = k) rows of [] \<Rightarrow> None | g # gs \<Rightarrow> Some (g # gs))"
    by simp_all
  have "map_of (group_rows key (rows @ [r])) k =
      (case filter (\<lambda>r. key r = k) (rows @ [r]) of [] \<Rightarrow> None | g # gs \<Rightarrow> Some (g # gs))" for k
    unfolding step map_of_om_update [OF ok]
    by (auto simp: at split: list.split)
  then show ?case using ok keys by (simp add: step)
qed

lemma group_rows_entry:
  "(k, g) \<in> set (group_rows key rows) \<Longrightarrow> g = filter (\<lambda>r. key r = k) rows \<and> g \<noteq> []"
proof -
  assume "(k, g) \<in> set (group_rows key rows)"
  moreover have "distinct (map fst (group_rows key rows))"
    using group_rows_spec [of key rows] om_ok_distinct unfolding om_keys_def by blast
  ultimately have "map_of (group_rows key rows) k = Some g" by simp
  then show ?thesis using group_rows_spec [of key rows] by (auto split: list.splits)
qed

subsection \<open>Entities\<close>

lemma renumber_entities_Inr:
  "renumber_entities i rows = Inr rows' \<Longrightarrow>
   rows' = map (\<lambda>(k, r). r\<lparr>et_human_readable_id := i + int k\<rparr>) (enumerate_from 0 rows)"
  unfolding renumber_entities_def
  by (erule try_map_const_Inr) (auto simp: and_then_Inr_iff offset_id_Inr)

lemma first_free_id_Inr: "first_free_id msg ids = Inr i \<longleftrightarrow> i = max_human_readable_id ids + 1 \<and> i64_ok i"
  by (auto simp: first_free_id_def i64_checked_add_Some_iff)

definition rebased_entities :: "entity_table_row list \<Rightarrow> entity_table_row list \<Rightarrow> entity_table_row list" where
  "rebased_entities previous delta =
     previous @ map (\<lambda>(k, r). r\<lparr>et_human_readable_id :=
       max_human_readable_id (map et_human_readable_id previous) + 1 + int k\<rparr>) (enumerate_from 0 delta)"

lemma titles_rebased: "map et_title (rebased_entities previous delta) = map et_title (previous @ delta)"
proof -
  have "map et_title (rebased_entities previous delta) =
      map et_title previous @ map (et_title \<circ> snd) (enumerate_from 0 delta)"
    by (simp add: rebased_entities_def case_prod_beta)
  also have "map (et_title \<circ> snd) (enumerate_from 0 delta) = map et_title delta"
    using map_snd_enumerate_from [of 0 delta] by (metis map_map)
  finally show ?thesis by simp
qed

lemma update_entities_Inr:
  assumes "update_entities previous delta = Inr (merged, mapping)"
  shows "mapping = map_entity_ids (previous_ids_by_title previous) delta"
    and "try_map resolve_entity (group_rows et_title (rebased_entities previous delta)) = Inr merged"
  using assms
  by (auto simp: update_entities_def and_then_Inr_iff Let_def first_free_id_Inr rebased_entities_def
      dest!: renumber_entities_Inr)

lemma resolve_entity_Inr:
  "resolve_entity (t, rows) = Inr e \<Longrightarrow>
   rows \<noteq> [] \<and> me_title e = t \<and> me_id e = et_id (hd rows) \<and> me_human_readable_id e = et_human_readable_id (hd rows)
   \<and> me_entity_type e = et_entity_type (hd rows) \<and> me_degree e = et_degree (hd rows)
   \<and> me_descriptions e = concat (map et_descriptions rows)
   \<and> me_text_unit_ids e = concat (map et_text_unit_ids rows)
   \<and> me_frequency e = int (length (me_text_unit_ids e))"
  by (auto simp: resolve_entity_def and_then_Inr_iff Let_def usize_to_i64_def split: list.splits if_splits)

text \<open>Merging entities: the merged table has exactly one row per title of either table, in title order;
  it takes its identity (id, number, type, degree) from the first row of the title, previous rows before
  renumbered delta rows, and joins the descriptions and text units of all of them in that order,
  its frequency being the number of joined text units.\<close>

theorem update_entities_by_title:
  assumes "update_entities previous delta = Inr (merged, mapping)"
  shows "map me_title merged = sorted_list_of_set (et_title ` set (previous @ delta))
     \<and> (\<forall>e \<in> set merged. let g = filter (\<lambda>r. et_title r = me_title e) (rebased_entities previous delta) in
          g \<noteq> [] \<and> me_id e = et_id (hd g) \<and> me_human_readable_id e = et_human_readable_id (hd g)
          \<and> me_entity_type e = et_entity_type (hd g) \<and> me_degree e = et_degree (hd g)
          \<and> me_descriptions e = concat (map et_descriptions g)
          \<and> me_text_unit_ids e = concat (map et_text_unit_ids g)
          \<and> me_frequency e = int (length (me_text_unit_ids e)))"
proof -
  define rows where "rows = rebased_entities previous delta"
  let ?G = "group_rows et_title rows"
  have all: "list_all2 (\<lambda>g e. resolve_entity g = Inr e) ?G merged"
    using update_entities_Inr(2) [OF assms] by (simp add: rows_def try_map_Inr_iff)
  then have "list_all2 (\<lambda>g e. me_title e = fst g) ?G merged"
    by (rule list_all2_mono) (metis resolve_entity_Inr prod.collapse)
  then have titles: "map me_title merged = om_keys ?G"
    by (auto simp: om_keys_def list_all2_conv_all_nth intro: nth_equalityI)
  have "map et_title rows = map et_title (previous @ delta)"
    by (simp add: rows_def titles_rebased)
  then have "et_title ` set rows = et_title ` set (previous @ delta)"
    by (metis set_map)
  then have keys: "om_keys ?G = sorted_list_of_set (et_title ` set (previous @ delta))"
    using group_rows_spec [of et_title rows] om_keys_eq_sorted by metis
  have each: "\<exists>g. (me_title e, g) \<in> set ?G \<and> resolve_entity (me_title e, g) = Inr e" if "e \<in> set merged" for e
  proof -
    from try_map_mem [OF update_entities_Inr(2) [OF assms] that] obtain p
      where "p \<in> set ?G" "resolve_entity p = Inr e"
      by (auto simp: rows_def)
    then show ?thesis using resolve_entity_Inr [of "fst p" "snd p" e]
      by (intro exI [of _ "snd p"]) simp
  qed
  show ?thesis
  proof (intro conjI ballI)
    show "map me_title merged = sorted_list_of_set (et_title ` set (previous @ delta))"
      by (simp only: titles keys)
    fix e assume "e \<in> set merged"
    then obtain g where g: "(me_title e, g) \<in> set ?G" "resolve_entity (me_title e, g) = Inr e"
      using each by blast
    then have "g = filter (\<lambda>r. et_title r = me_title e) rows" using group_rows_entry by blast
    with resolve_entity_Inr [OF g(2)]
    show "let g = filter (\<lambda>r. et_title r = me_title e) (rebased_entities previous delta) in
          g \<noteq> [] \<and> me_id e = et_id (hd g) \<and> me_human_readable_id e = et_human_readable_id (hd g)
          \<and> me_entity_type e = et_entity_type (hd g) \<and> me_degree e = et_degree (hd g)
          \<and> me_descriptions e = concat (map et_descriptions g)
          \<and> me_text_unit_ids e = concat (map et_text_unit_ids g)
          \<and> me_frequency e = int (length (me_text_unit_ids e))"
      by (simp add: Let_def rows_def)
  qed
qed

subsection \<open>References from text units\<close>

lemma map_of_om_fold:
  "om_ok m \<Longrightarrow> om_ok (foldl (\<lambda>m i. om_insert k i m) m ids)
   \<and> map_of (foldl (\<lambda>m i. om_insert k i m) m ids) = (if ids = [] then map_of m else (map_of m)(k \<mapsto> last ids))"
  by (induction ids arbitrary: m) auto

lemma previous_ids_by_title_at:
  "map_of (previous_ids_by_title rows) t =
     (case filter (\<lambda>r. et_title r = t) rows of [] \<Rightarrow> None | g # gs \<Rightarrow> Some (map et_id (g # gs)))
   \<and> om_ok (previous_ids_by_title rows)"
proof (induction rows rule: rev_induct)
  case (snoc r rows)
  let ?m = "previous_ids_by_title rows"
  have step: "previous_ids_by_title (rows @ [r]) = om_update [] (\<lambda>l. l @ [et_id r]) (et_title r) ?m"
    by (simp add: previous_ids_by_title_def)
  have ok: "om_ok ?m" using snoc.IH by blast
  show ?case
    unfolding step map_of_om_update [OF ok] using snoc.IH by (auto split: list.split)
qed (simp add: previous_ids_by_title_def)

lemma map_entity_ids_at:
  assumes "distinct (map et_id delta)"
  shows "om_ok (map_entity_ids ids delta) \<and>
     (\<forall>r \<in> set delta. map_of (map_entity_ids ids delta) (et_id r) =
        (case map_of ids (et_title r) of Some (i # is) \<Rightarrow> Some (last (i # is)) | _ \<Rightarrow> None))
     \<and> dom (map_of (map_entity_ids ids delta)) \<subseteq> et_id ` set delta"
  using assms
proof (induction delta rule: rev_induct)
  case Nil
  then show ?case by (simp add: map_entity_ids_def)
next
  case (snoc r delta)
  let ?m = "map_entity_ids ids delta" and ?m' = "map_entity_ids ids (delta @ [r])"
  from snoc have ok: "om_ok ?m" and dom: "dom (map_of ?m) \<subseteq> et_id ` set delta"
    and at: "\<forall>r \<in> set delta. map_of ?m (et_id r) =
        (case map_of ids (et_title r) of Some (i # is) \<Rightarrow> Some (last (i # is)) | _ \<Rightarrow> None)"
    and new: "et_id r \<notin> et_id ` set delta" by auto
  then have none: "map_of ?m (et_id r) = None" by (auto simp: domIff)
  have step: "?m' = (case map_of ids (et_title r) of
         None \<Rightarrow> ?m | Some is \<Rightarrow> foldl (\<lambda>m i. om_insert (et_id r) i m) ?m is)"
    unfolding map_entity_ids_def by simp
  have eq: "om_ok ?m' \<and> map_of ?m' = (case map_of ids (et_title r) of Some (i # is) \<Rightarrow>
      (map_of ?m)(et_id r \<mapsto> last (i # is)) | _ \<Rightarrow> map_of ?m)"
    using map_of_om_fold [OF ok] by (simp add: step ok split: option.split list.split)
  have "et_id x \<noteq> et_id r" if "x \<in> set delta" for x using that new by (metis imageI)
  then show ?case
    using eq at dom none by (auto split: option.splits list.splits)
qed

definition referenced_entities :: "'r unit_table_row \<Rightarrow> string set" where
  "referenced_entities u = (case ut_entity_ids u of None \<Rightarrow> {} | Some ids \<Rightarrow> set ids)"

lemma merged_entity_at:
  assumes "update_entities previous delta = Inr (merged, mapping)"
    and "filter (\<lambda>r. et_title r = t) (rebased_entities previous delta) = x # xs"
  shows "et_id x \<in> me_id ` set merged"
proof -
  have "x \<in> set (rebased_entities previous delta)" "et_title x = t"
    using list.set_intros(1) [of x xs] unfolding assms(2) [symmetric] by simp_all
  then have "t \<in> et_title ` set (rebased_entities previous delta)" by blast
  then have "t \<in> set (map me_title merged)"
    using update_entities_by_title [OF assms(1)] titles_rebased [of previous delta]
    by (metis List.finite_set finite_imageI set_map set_sorted_list_of_set)
  then obtain e where e: "e \<in> set merged" "me_title e = t" by auto
  have "let g = filter (\<lambda>r. et_title r = me_title e) (rebased_entities previous delta) in me_id e = et_id (hd g)"
    using update_entities_by_title [OF assms(1)] e(1) unfolding Let_def by blast
  then have "me_id e = et_id x" using e(2) assms(2) by (simp add: Let_def)
  with e(1) show ?thesis by force
qed

lemma merged_has_previous:
  assumes "update_entities previous delta = Inr (merged, mapping)"
    and "distinct (map et_title previous)" "p \<in> set previous"
  shows "et_id p \<in> me_id ` set merged"
  using merged_entity_at [OF assms(1), of "et_title p" p] filter_distinct_key [OF assms(2,3)]
  by (simp add: rebased_entities_def)

lemma merged_has_new:
  assumes "update_entities previous delta = Inr (merged, mapping)"
    and "distinct (map et_title delta)" "r \<in> set delta" "et_title r \<notin> et_title ` set previous"
  shows "et_id r \<in> me_id ` set merged"
proof -
  define new where "new = map (\<lambda>(k, r). r\<lparr>et_human_readable_id :=
       max_human_readable_id (map et_human_readable_id previous) + 1 + int k\<rparr>) (enumerate_from 0 delta)"
  have all: "rebased_entities previous delta = previous @ new" by (simp add: rebased_entities_def new_def)
  have "map et_title new = map et_title delta"
    using titles_rebased [of previous delta] by (simp add: all)
  then have dist: "distinct (map et_title new)" using assms(2) by simp
  have "r \<in> set (map snd (enumerate_from 0 delta))" using assms(3) by (simp add: map_snd_enumerate_from)
  then obtain k where "(k, r) \<in> set (enumerate_from 0 delta)" by auto
  then obtain x where x: "x \<in> set new" "et_id x = et_id r" "et_title x = et_title r"
    unfolding new_def by force
  have "filter (\<lambda>y. et_title y = et_title r) previous = []"
    using assms(4) by (auto simp: filter_empty_conv image_iff)
  then have "filter (\<lambda>y. et_title y = et_title r) (rebased_entities previous delta) = [x]"
    using filter_distinct_key [OF dist x(1)] x(3) by (simp add: all)
  from merged_entity_at [OF assms(1) this] x(2) show ?thesis by simp
qed

text \<open>C28: No dangling references after an update: when titles are distinct within each table, delta ids are
  distinct and the text units of each table refer to entities of their own table, every text unit
  of the merged table refers only to entities of the merged entity table.\<close>

theorem updated_references_resolve:
  assumes "update_entities previous delta = Inr (merged, mapping)"
    and "update_text_units previous_units delta_units mapping = Inr units"
    and "distinct (map et_title previous)" "distinct (map et_title delta)" "distinct (map et_id delta)"
    and "\<forall>u \<in> set previous_units. referenced_entities u \<subseteq> et_id ` set previous"
    and "\<forall>u \<in> set delta_units. referenced_entities u \<subseteq> et_id ` set delta"
  shows "\<forall>u \<in> set units. referenced_entities u \<subseteq> me_id ` set merged"
proof
  let ?remap = "\<lambda>i. case map_of mapping i of None \<Rightarrow> i | Some j \<Rightarrow> j"
  have remapped: "?remap (et_id r) \<in> me_id ` set merged" if r: "r \<in> set delta" for r
  proof -
    have at: "map_of mapping (et_id r) =
        (case map_of (previous_ids_by_title previous) (et_title r) of Some (i # is) \<Rightarrow> Some (last (i # is)) | _ \<Rightarrow> None)"
      using map_entity_ids_at [OF assms(5)] r update_entities_Inr(1) [OF assms(1)] by blast
    show ?thesis
    proof (cases "et_title r \<in> et_title ` set previous")
      case True
      then obtain p where p: "p \<in> set previous" "et_title p = et_title r" by auto
      have "filter (\<lambda>x. et_title x = et_title r) previous = [p]"
        using filter_distinct_key [OF assms(3) p(1)] p(2) by simp
      then have "map_of mapping (et_id r) = Some (et_id p)"
        using previous_ids_by_title_at [of previous "et_title r"] by (simp add: at)
      then show ?thesis using merged_has_previous [OF assms(1,3) p(1)] by simp
    next
      case False
      then have "filter (\<lambda>x. et_title x = et_title r) previous = []"
        by (auto simp: filter_empty_conv image_iff)
      then have "map_of mapping (et_id r) = None"
        using previous_ids_by_title_at [of previous "et_title r"] by (simp add: at)
      then show ?thesis using merged_has_new [OF assms(1,4) r False] by simp
    qed
  qed
  fix u assume "u \<in> set units"
  moreover obtain ids where "units = previous_units @ map (\<lambda>(i, row). row\<lparr>ut_human_readable_id := i,
            ut_entity_ids := map_option (map ?remap) (ut_entity_ids row)\<rparr>) (zip ids delta_units)"
    using assms(2) by (auto simp: update_text_units_def and_then_Inr_iff Let_def)
  ultimately consider "u \<in> set previous_units"
    | v where "v \<in> set delta_units" "ut_entity_ids u = map_option (map ?remap) (ut_entity_ids v)"
    by (auto dest: set_zip_rightD)
  then show "referenced_entities u \<subseteq> me_id ` set merged"
  proof cases
    case 1
    then show ?thesis using assms(6) merged_has_previous [OF assms(1,3)] by fastforce
  next
    case 2
    then have "referenced_entities u = ?remap ` referenced_entities v"
      by (auto simp: referenced_entities_def split: option.split)
    moreover have "referenced_entities v \<subseteq> et_id ` set delta" using assms(7) 2(1) by blast
    ultimately show ?thesis using remapped by (auto simp del: not_None_eq)
  qed
qed

subsection \<open>Communities\<close>

lemma map_community_ids_Inr:
  "map_community_ids m vals = Inr mapping \<Longrightarrow>
   om_ok mapping \<and> (\<forall>v. map_of mapping v = (if v \<in> set vals then Some (v + m + 1)
      else if v = -1 then Some (-1) else None))"
proof (induction vals arbitrary: mapping rule: rev_induct)
  case Nil
  then show ?case by (auto simp: map_community_ids_def om_ok_Cons om_keys_def)
next
  case (snoc v vs)
  from snoc.prems obtain before mapped where before: "map_community_ids m vs = Inr before"
    and mapped: "Option.bind (i64_checked_add v m) (\<lambda>w. i64_checked_add w 1) = Some mapped"
    and out: "mapping = om_insert v mapped before"
    by (auto simp: map_community_ids_def and_then_Inr_iff)
  have "mapped = v + m + 1" using mapped by (auto simp: bind_eq_Some_conv i64_checked_add_Some_iff)
  with snoc.IH [OF before] out show ?case by auto
qed

definition newest_community :: "'r community_table_row list \<Rightarrow> i64" where
  "newest_community rows = (if rows = [] then 0 else Max ((or_zero \<circ> ct_community) ` set rows))"

text \<open>Renumbering communities: a successful update shifts every delta community past all previous ones by
  one common offset, keeps the root marker, moves the parent links with the communities they
  name, and leaves the previous rows' columns; so no delta community collides with a previous
  one and the delta hierarchy is kept.\<close>

theorem update_communities_shifts:
  assumes "update_communities previous delta = Inr (merged, mapping)"
    and "\<forall>r \<in> set delta. \<exists>c. ct_community r = Some c \<and> 0 \<le> c"
    and "\<forall>r \<in> set delta. \<exists>p. ct_parent r = Some p \<and> (p = -1 \<or> Some p \<in> ct_community ` set delta)"
  shows "let shift = newest_community previous + 1;
             moved = (\<lambda>r. (map_option (\<lambda>c. c + shift) (ct_community r),
                           map_option (\<lambda>p. if p = -1 then -1 else p + shift) (ct_parent r)))
         in map (\<lambda>r. (ct_community r, ct_parent r)) merged =
              map (\<lambda>r. (ct_community r, ct_parent r)) previous @ map moved delta
          \<and> (\<forall>r \<in> set previous. \<forall>d \<in> set delta.
               or_zero (ct_community r) < or_zero (map_option (\<lambda>c. c + shift) (ct_community d)))
          \<and> (\<forall>r \<in> set merged. ct_human_readable_id r = or_zero (ct_community r)
               \<and> ct_title r = ''Community '' @ int_to_dec (or_zero (ct_community r)))"
proof -
  let ?shift = "newest_community previous + 1"
  let ?m = "case map (\<lambda>r. or_zero (ct_community r)) previous of [] \<Rightarrow> 0 | v # vs \<Rightarrow> foldl max v vs"
  have m: "?m = newest_community previous"
    by (cases previous) (simp_all add: newest_community_def foldl_max image_image)
  let ?label = "\<lambda>r. r\<lparr>ct_title := ''Community '' @ int_to_dec (or_zero (ct_community r)),
              ct_human_readable_id := or_zero (ct_community r)\<rparr>"
  let ?communities = "flatten_values (map ct_community delta)"
  from assms(1) have mapping: "map_community_ids (newest_community previous) ?communities = Inr mapping"
    and out: "merged = map ?label (previous @ map (remap_community mapping) delta)"
    unfolding update_communities_def Let_def m by (auto simp: and_then_Inr_iff)
  have vals: "c \<in> set ?communities \<longleftrightarrow> Some c \<in> ct_community ` set delta" for c
    unfolding flatten_values_def by (auto intro!: rev_image_eqI) (metis option.sel)
  have at: "map_of mapping v = (if v \<in> set ?communities then Some (v + ?shift) else if v = -1 then Some (-1) else None)" for v
    using map_community_ids_Inr [OF mapping] by (simp add: algebra_simps)
  have "-1 \<notin> set ?communities" using assms(2) by (force simp: vals)
  then have root: "map_of mapping (-1) = Some (-1)" by (simp add: at)
  have moved: "remap_integer mapping (ct_community d) = map_option (\<lambda>c. c + ?shift) (ct_community d)
      \<and> remap_integer mapping (ct_parent d) = map_option (\<lambda>p. if p = -1 then -1 else p + ?shift) (ct_parent d)"
    if d: "d \<in> set delta" for d
  proof -
    obtain c p where cp: "ct_community d = Some c" "ct_parent d = Some p"
      "p = -1 \<or> Some p \<in> ct_community ` set delta"
      using assms(2,3) d by blast
    have "Some c \<in> ct_community ` set delta" using d cp(1) by force
    then have "c \<in> set ?communities" by (simp only: vals)
    moreover have "p = -1 \<or> p \<in> set ?communities" using cp(3) by (simp only: vals)
    ultimately show ?thesis using root \<open>-1 \<notin> set ?communities\<close> by (auto simp: remap_integer_def cp at)
  qed
  have above: "or_zero (ct_community r) < or_zero (map_option (\<lambda>c. c + ?shift) (ct_community d))"
    if r: "r \<in> set previous" and d: "d \<in> set delta" for r d
  proof -
    have "or_zero (ct_community r) \<le> newest_community previous"
      using r by (auto simp: newest_community_def intro: Max_ge)
    moreover obtain c where "ct_community d = Some c" "0 \<le> c" using assms(2) d by blast
    ultimately show ?thesis by (simp add: or_zero_def)
  qed
  show ?thesis
    unfolding Let_def out using moved above by (auto simp: remap_community_def)
qed

theorem update_communities_shifts_witness:
  "\<exists>merged mapping. update_communities
       [\<lparr>ct_community = Some 4, ct_parent = Some (-1), ct_human_readable_id = 0, ct_title = [], ct_rest = ()\<rparr>]
       [\<lparr>ct_community = Some 0, ct_parent = Some (-1), ct_human_readable_id = 0, ct_title = [], ct_rest = ()\<rparr>,
        \<lparr>ct_community = Some 1, ct_parent = Some 0, ct_human_readable_id = 0, ct_title = [], ct_rest = ()\<rparr>]
       = Inr (merged, mapping)
     \<and> map (\<lambda>r. (ct_community r, ct_parent r)) merged = [(Some 4, Some (-1)), (Some 5, Some (-1)), (Some 6, Some 5)]"
proof -
  let ?p = "[\<lparr>ct_community = Some 4, ct_parent = Some (-1), ct_human_readable_id = 0, ct_title = [], ct_rest = ()\<rparr>]"
  let ?d = "[\<lparr>ct_community = Some 0, ct_parent = Some (-1), ct_human_readable_id = 0, ct_title = [], ct_rest = ()\<rparr>,
        \<lparr>ct_community = Some 1, ct_parent = Some 0, ct_human_readable_id = 0, ct_title = [], ct_rest = ()\<rparr>]"
  have "is_ok (update_communities ?p ?d)"
    by (simp add: update_communities_def or_zero_def flatten_values_def map_community_ids_def i64_checked_add_def
        i64_ok_def i64_min_def i64_max_def)
  then obtain merged mapping where run: "update_communities ?p ?d = Inr (merged, mapping)"
    unfolding is_ok_iff by force
  have "map (\<lambda>r. (ct_community r, ct_parent r)) merged = [(Some 4, Some (-1)), (Some 5, Some (-1)), (Some 6, Some 5)]"
    using update_communities_shifts [OF run] by (simp add: newest_community_def or_zero_def Let_def)
  with run show ?thesis by (intro exI conjI)
qed

definition sample_entity :: "string \<Rightarrow> string \<Rightarrow> entity_table_row" where
  "sample_entity i t = \<lparr>et_id = i, et_human_readable_id = 0, et_title = t, et_entity_type = ''x'',
     et_descriptions = [''d''], et_text_unit_ids = [''u''], et_degree = 1\<rparr>"

lemma sample_update:
  "\<exists>merged mapping. update_entities [sample_entity ''old'' ''A''] [sample_entity ''new'' ''A'', sample_entity ''b'' ''B'']
      = Inr (merged, mapping)"
proof -
  have "is_ok (update_entities [sample_entity ''old'' ''A''] [sample_entity ''new'' ''A'', sample_entity ''b'' ''B''])"
    by (simp add: update_entities_def sample_entity_def first_free_id_def max_human_readable_id_def i64_checked_add_def
        i64_ok_def i64_min_def i64_max_def renumber_entities_def offset_id_def usize_to_i64_def group_rows_def
        om_update_def resolve_entity_def Let_def)
  then show ?thesis unfolding is_ok_iff by force
qed

theorem update_entities_by_title_witness:
  "\<exists>merged mapping. update_entities [sample_entity ''old'' ''A''] [sample_entity ''new'' ''A'', sample_entity ''b'' ''B'']
      = Inr (merged, mapping) \<and> map me_title merged = [''A'', ''B'']"
proof -
  obtain merged mapping where run:
    "update_entities [sample_entity ''old'' ''A''] [sample_entity ''new'' ''A'', sample_entity ''b'' ''B'']
      = Inr (merged, mapping)"
    using sample_update by blast
  have "{''A'', ''B''} = set [''A'', ''B'']" by simp
  then have "map me_title merged = [''A'', ''B'']"
    using update_entities_by_title [OF run] by (simp add: sample_entity_def)
  with run show ?thesis by (intro exI conjI)
qed

definition sample_unit :: "string list \<Rightarrow> unit unit_table_row" where
  "sample_unit ids = \<lparr>ut_human_readable_id = 0, ut_entity_ids = Some ids, ut_rest = ()\<rparr>"

theorem updated_references_resolve_witness:
  "\<exists>merged mapping units. update_entities [sample_entity ''old'' ''A''] [sample_entity ''new'' ''A'', sample_entity ''b'' ''B'']
      = Inr (merged, mapping)
     \<and> update_text_units [sample_unit [''old'']] [sample_unit [''new'', ''b'']] mapping = Inr units
     \<and> (\<forall>u \<in> set units. referenced_entities u \<subseteq> me_id ` set merged)"
proof -
  obtain merged mapping where run:
    "update_entities [sample_entity ''old'' ''A''] [sample_entity ''new'' ''A'', sample_entity ''b'' ''B'']
      = Inr (merged, mapping)"
    using sample_update by blast
  have "is_ok (update_text_units [sample_unit [''old'']] [sample_unit [''new'', ''b'']] mapping)"
    by (simp add: update_text_units_def sample_unit_def first_free_id_def max_human_readable_id_def i64_checked_add_def
        i64_ok_def i64_min_def i64_max_def sequential_ids_def offset_id_def usize_to_i64_def Let_def)
  then obtain units where units:
    "update_text_units [sample_unit [''old'']] [sample_unit [''new'', ''b'']] mapping = Inr units"
    unfolding is_ok_iff by force
  have "\<forall>u \<in> set units. referenced_entities u \<subseteq> me_id ` set merged"
    by (rule updated_references_resolve [OF run units])
      (simp_all add: sample_entity_def sample_unit_def referenced_entities_def)
  with run units show ?thesis by (intro exI conjI)
qed

end
