(* ===== verification/Query_Types.thy ===== *)
theory Query_Types
  imports Expl_Types Json
begin

text \<open>
  The vocabulary of the query side: errors (\<open>query/error.rs\<close>), usage counters
  (\<open>query/result.rs\<close>) and the communities and reports of \<open>query/data_model.rs\<close>. An error of another
  layer, kept by the code as a boxed source, is its message.
\<close>

record table_error_details =
  td_table :: string
  td_column :: string
  td_expected :: string
  td_actual :: string
  td_row :: string
  td_message :: string

datatype query_error =
    InvalidQueryConfig search_method string string
  | MissingQueryTable search_method string string
  | InvalidQueryTable search_method string table_error_details
  | MissingVectorIndex search_method string string string
  | InvalidVectorIndex search_method string string string
  | QueryPrompt search_method string string string
  | QueryEmbedding search_method string string string
  | QueryCompletion search_method string string string
  | QueryParse search_method string string
  | QueryContext search_method string string
  | QueryRuntime search_method string string
  | QueryMethod "search_method option" string string

text \<open>An error of the vector store (crate \<open>graphloom-vectors\<close>): whether the index is missing.\<close>

datatype vector_error = MissingIndex string | OtherVectorError string

subsection \<open>Usage\<close>

record usage =
  us_llm_calls :: usize
  us_prompt_tokens :: usize
  us_output_tokens :: usize

definition usage_default :: usage where
  "usage_default = \<lparr>us_llm_calls = 0, us_prompt_tokens = 0, us_output_tokens = 0\<rparr>"

definition usage_add :: "usage \<Rightarrow> usage \<Rightarrow> usage" where
  "usage_add a b =
     \<lparr>us_llm_calls = usize_sat_add (us_llm_calls a) (us_llm_calls b),
      us_prompt_tokens = usize_sat_add (us_prompt_tokens a) (us_prompt_tokens b),
      us_output_tokens = usize_sat_add (us_output_tokens a) (us_output_tokens b)\<rparr>"

record query_usage =
  qu_llm_calls :: usize
  qu_prompt_tokens :: usize
  qu_output_tokens :: usize
  qu_categories :: "(string, usage) omap"

definition from_categories :: "(string, usage) omap \<Rightarrow> query_usage" where
  "from_categories categories =
     \<lparr>qu_llm_calls = foldl (\<lambda>total v. usize_sat_add total (us_llm_calls v)) 0 (map snd categories),
      qu_prompt_tokens = foldl (\<lambda>total v. usize_sat_add total (us_prompt_tokens v)) 0 (map snd categories),
      qu_output_tokens = foldl (\<lambda>total v. usize_sat_add total (us_output_tokens v)) 0 (map snd categories),
      qu_categories = categories\<rparr>"

lemma sat_add_fold:
  "a \<le> usize_max \<Longrightarrow> foldl (\<lambda>total v. usize_sat_add total (f v)) a vs = min (a + sum_list (map f vs)) usize_max"
  by (induction vs arbitrary: a) (auto simp: usize_sat_add_def min_def)

text \<open>\<open>count_completion_input\<close> of \<open>query/result.rs\<close>, on the contents of the messages.\<close>

fun count_messages :: "(string \<Rightarrow> query_error + usize) \<Rightarrow> usize \<Rightarrow> string list \<Rightarrow> query_error + usize" where
  "count_messages cnt acc [] = Inr acc"
| "count_messages cnt acc (m # ms) =
     and_then (cnt m) (\<lambda>tokens. count_messages cnt (usize_sat_add acc tokens) ms)"

subsection \<open>Communities and their reports\<close>

record community =
  cm_id :: string
  cm_short_id :: string
  cm_title :: string
  cm_level :: i64
  cm_parent :: i64
  cm_children :: "i64 list"

record 'f community_report =
  rp_id :: string
  rp_short_id :: string
  rp_community_id :: string
  rp_title :: string
  rp_summary :: string
  rp_full_content :: string
  rp_rank :: "'f option"
  rp_full_content_embedding :: "'f list option"

end
