(* ===== verification/Query_Parse.thy ===== *)
theory Query_Parse
  imports Query_Types
begin

text \<open>
  Reading model output: the balanced-object scan and point parsing of \<open>query/global/parse.rs\<close>, and the
  JSON repairs and vote of \<open>query/global/dynamic.rs\<close>.

  Text is UTF-8 bytes; \<open>char::is_whitespace\<close> is therefore a finite list of byte sequences. The JSON
  library and floating-point arithmetic are the fields of the record \<open>serde\<close>.
\<close>

subsection \<open>White space and integers, as the standard library reads them\<close>

text \<open>The UTF-8 encodings of the characters with the Unicode property \<open>White_Space\<close>.\<close>

definition white_space :: "string list" where
  "white_space =
     map (\<lambda>c. [char_of (c::nat)]) [9, 10, 11, 12, 13, 32]
     @ map (map char_of) [[0xC2, 0x85], [0xC2, 0xA0::nat], [0xE1, 0x9A, 0x80]]
     @ map (\<lambda>c. map char_of [0xE2, 0x80, c::nat])
         [0x80, 0x81, 0x82, 0x83, 0x84, 0x85, 0x86, 0x87, 0x88, 0x89, 0x8A, 0xA8, 0xA9, 0xAF]
     @ map (map char_of) [[0xE2, 0x81, 0x9F], [0xE3, 0x80, 0x80::nat]]"

definition unit_at :: "string list \<Rightarrow> string \<Rightarrow> string option" where
  "unit_at us s = find (\<lambda>u. u \<noteq> [] \<and> take (length u) s = u) us"

lemma unit_at_Some: "unit_at us s = Some u \<Longrightarrow> u \<noteq> [] \<and> s = u @ drop (length u) s"
  unfolding unit_at_def find_Some_iff by (metis append_take_drop_id)

text \<open>The longest prefix made of the given units, and the rest.\<close>

function span_units :: "string list \<Rightarrow> string \<Rightarrow> string \<times> string" where
  "span_units us s =
     (case unit_at us s of
        None \<Rightarrow> ([], s)
      | Some u \<Rightarrow> (case span_units us (drop (length u) s) of (ws, rest) \<Rightarrow> (u @ ws, rest)))"
  by pat_completeness auto

termination
proof (relation "measure (\<lambda>(us, s). length s)", goal_cases)
  case (2 us s u)
  then have u: "u \<noteq> []" "s = u @ drop (length u) s" using unit_at_Some by blast+
  have "length s = length u + length (drop (length u) s)"
    by (subst u(2)) (simp only: length_append)
  with u(1) show ?case by (cases u) auto
qed simp

declare span_units.simps [simp del]

lemma span_units_append: "span_units us s = (ws, rest) \<Longrightarrow> s = ws @ rest"
proof (induction us s arbitrary: ws rest rule: span_units.induct)
  case (1 us s)
  show ?case
  proof (cases "unit_at us s")
    case None
    with "1.prems" show ?thesis by (subst (asm) span_units.simps) simp
  next
    case (Some u)
    obtain ws' rest' where sp: "span_units us (drop (length u) s) = (ws', rest')" by fastforce
    have "span_units us s = (u @ ws', rest')"
      by (subst span_units.simps) (simp add: Some sp)
    moreover have "s = u @ ws' @ rest'"
      using "1.IH" [OF Some sp] unit_at_Some [OF Some] by simp
    ultimately show ?thesis using "1.prems" by simp
  qed
qed

definition span_white :: "string \<Rightarrow> string \<times> string" where
  "span_white = span_units white_space"

definition trim :: "string \<Rightarrow> string" where
  "trim s = rev (snd (span_units (map rev white_space) (rev (snd (span_white s)))))"

definition is_digit :: "char \<Rightarrow> bool" where
  "is_digit c \<longleftrightarrow> 48 \<le> (of_char c :: nat) \<and> (of_char c :: nat) \<le> 57"

text \<open>\<open>str::parse::<i64>\<close>: an optional sign, at least one digit, and a value in range.\<close>

definition parse_digits :: "string \<Rightarrow> nat option" where
  "parse_digits ds = (if ds \<noteq> [] \<and> list_all is_digit ds then Some (dec_val ds) else None)"

definition parse_i64 :: "string \<Rightarrow> i64 option" where
  "parse_i64 s =
     (let v = (case s of
          [] \<Rightarrow> None
        | c # ds \<Rightarrow>
            if c = CHR ''-'' then map_option (\<lambda>n. - int n) (parse_digits ds)
            else if c = CHR ''+'' then map_option int (parse_digits ds)
            else map_option int (parse_digits s))
      in Option.bind v (\<lambda>i. if i64_ok i then Some i else None))"

subsection \<open>Scanning for balanced objects\<close>

text \<open>The length of the balanced object at the front: depth, inside a string literal, after a backslash.\<close>

fun scan_object :: "usize \<Rightarrow> bool \<Rightarrow> bool \<Rightarrow> string \<Rightarrow> usize option" where
  "scan_object depth in_string escaped [] = None"
| "scan_object depth in_string escaped (c # cs) =
     (if in_string then
        (if escaped then map_option Suc (scan_object depth True False cs)
         else if c = CHR 0x5C then map_option Suc (scan_object depth True True cs)
         else if c = CHR 0x22 then map_option Suc (scan_object depth False False cs)
         else map_option Suc (scan_object depth True False cs))
      else if c = CHR 0x22 then map_option Suc (scan_object depth True escaped cs)
      else if c = CHR ''{'' then map_option Suc (scan_object (depth + 1) False escaped cs)
      else if c = CHR ''}'' then
        (if depth = 0 then None
         else if depth - 1 = 0 then Some 1
         else map_option Suc (scan_object (depth - 1) False escaped cs))
      else map_option Suc (scan_object depth False escaped cs))"

fun json_object_candidates :: "string \<Rightarrow> string list" where
  "json_object_candidates [] = []"
| "json_object_candidates (c # cs) =
     (if c = CHR ''{'' then
        (case scan_object 0 False False (c # cs) of
           None \<Rightarrow> json_object_candidates cs
         | Some n \<Rightarrow> take n (c # cs) # json_object_candidates cs)
      else json_object_candidates cs)"

record 'f serde =
  sd_from_str :: "string \<Rightarrow> 'f json option" \<comment> \<open>\<open>serde_json::from_str(..).ok()\<close>\<close>
  sd_display :: "'f json \<Rightarrow> string"
  sd_trunc :: "'f \<Rightarrow> int option" \<comment> \<open>the integer part of a finite float\<close>
  sd_has_fract :: "'f \<Rightarrow> bool"
  sd_of_int :: "int \<Rightarrow> 'f"
  sd_le :: "'f \<Rightarrow> 'f \<Rightarrow> bool" \<comment> \<open>\<open>f64::total_cmp\<close>\<close>
  sd_eq :: "'f \<Rightarrow> 'f \<Rightarrow> bool"
  sd_show_float :: "'f \<Rightarrow> string"

definition first_json_object :: "'f serde \<Rightarrow> string \<Rightarrow> string option" where
  "first_json_object sd input = find (\<lambda>ob. sd_from_str sd ob \<noteq> None) (json_object_candidates input)"

definition first_balanced_json_object :: "string \<Rightarrow> string option" where
  "first_balanced_json_object input =
     (case json_object_candidates input of [] \<Rightarrow> None | ob # _ \<Rightarrow> Some ob)"

subsection \<open>Map points\<close>

record map_point =
  mp_answer :: string
  mp_score :: i64

definition fallback :: "map_point list" where
  "fallback = [\<lparr>mp_answer = [], mp_score = 0\<rparr>]"

definition float_to_i64 :: "'f serde \<Rightarrow> 'f \<Rightarrow> i64 option" where
  "float_to_i64 sd f =
     (case sd_trunc sd f of
        None \<Rightarrow> None
      | Some t \<Rightarrow> if i64_min \<le> t \<and> t < - i64_min then Some t else None)"

text \<open>A number that is not an \<open>i64\<close> is a float or an integer above the range, whose float value is
  out of range too.\<close>

fun python_int :: "'f serde \<Rightarrow> 'f json \<Rightarrow> i64 option" where
  "python_int sd (JBool b) = Some (if b then 1 else 0)"
| "python_int sd (JNumber (NInt i)) = (if i64_ok i then Some i else None)"
| "python_int sd (JNumber (NFloat f)) = float_to_i64 sd f"
| "python_int sd (JString s) = parse_i64 (trim s)"
| "python_int sd _ = None"

definition map_point_of :: "'f serde \<Rightarrow> 'f json \<Rightarrow> map_point option" where
  "map_point_of sd point =
     Option.bind (Option.bind (json_get point ''description'') json_as_str) (\<lambda>answer.
     Option.bind (Option.bind (json_get point ''score'') (python_int sd)) (\<lambda>score.
       Some \<lparr>mp_answer = answer, mp_score = score\<rparr>))"

definition parse_map_points :: "'f serde \<Rightarrow> string \<Rightarrow> map_point list" where
  "parse_map_points sd input =
     (case first_json_object sd input of
        None \<Rightarrow> fallback
      | Some ob \<Rightarrow>
         (case sd_from_str sd ob of
            None \<Rightarrow> fallback
          | Some v \<Rightarrow>
             (case Option.bind (json_get v ''points'') json_as_array of
                None \<Rightarrow> fallback
              | Some points \<Rightarrow> if points = [] then fallback else List.map_filter (map_point_of sd) points)))"

subsection \<open>The leftmost balanced object that parses\<close>

text \<open>The reference reading of braces and string literals: nesting depth, inside a literal, after a
  backslash.\<close>

definition lex_step :: "int \<times> bool \<times> bool \<Rightarrow> char \<Rightarrow> int \<times> bool \<times> bool" where
  "lex_step st c =
     (case st of (d, q, e) \<Rightarrow>
        if q then
          (if e then (d, True, False)
           else if c = CHR 0x5C then (d, True, True)
           else (d, c \<noteq> CHR 0x22, False))
        else if c = CHR 0x22 then (d, True, False)
        else if c = CHR ''{'' then (d + 1, False, False)
        else if c = CHR ''}'' then (d - 1, False, False)
        else (d, False, False))"

definition level :: "int \<times> bool \<times> bool \<Rightarrow> string \<Rightarrow> int \<times> bool \<times> bool" where
  "level = foldl lex_step"

abbreviation closed_level :: "int \<times> bool \<times> bool" where
  "closed_level \<equiv> (0, False, False)"

text \<open>An object text opens with a brace and is closed by its last character, not before.\<close>

definition object_text :: "string \<Rightarrow> bool" where
  "object_text ob \<longleftrightarrow> ob \<noteq> [] \<and> hd ob = CHR ''{'' \<and> level closed_level ob = closed_level
     \<and> (\<forall>n \<in> {0<..<length ob}. level closed_level (take n ob) \<noteq> closed_level)"

definition closes :: "int \<times> bool \<times> bool \<Rightarrow> string \<Rightarrow> nat \<Rightarrow> bool" where
  "closes st s n \<longleftrightarrow> n \<le> length s \<and> level st (take n s) = closed_level
     \<and> (\<forall>m < n. level st (take m s) \<noteq> closed_level)"

lemma closes_Nil: "st \<noteq> closed_level \<Longrightarrow> \<not> closes st [] n"
  by (simp add: closes_def level_def)

lemma closes_closed: "closes closed_level s n \<longleftrightarrow> n = 0"
  by (auto simp: closes_def level_def)

lemma closes_Cons:
  assumes "st \<noteq> closed_level"
  shows "closes st (c # cs) n \<longleftrightarrow> (\<exists>k. n = Suc k \<and> closes (lex_step st c) cs k)"
proof (cases n)
  case 0
  then show ?thesis using assms by (simp add: closes_def level_def)
next
  case (Suc k)
  have "(\<forall>m < Suc k. level st (take m (c # cs)) \<noteq> closed_level) \<longleftrightarrow>
      (\<forall>m < k. level (lex_step st c) (take m cs) \<noteq> closed_level)"
    using assms by (auto simp: level_def less_Suc_eq_0_disj)
  with Suc show ?thesis by (auto simp: closes_def level_def)
qed

lemma closes_functional: "closes st s n \<Longrightarrow> closes st s m \<Longrightarrow> n = m"
  by (metis closes_def nat_neq_iff)

lemma map_option_Suc: "map_option Suc r = Some n \<longleftrightarrow> (\<exists>k. n = Suc k \<and> r = Some k)"
  by (cases r) auto

lemma scan_object_Some:
  "0 < d \<Longrightarrow> (\<not> q \<Longrightarrow> \<not> e) \<Longrightarrow> scan_object d q e s = Some n \<longleftrightarrow> closes (int d, q, e) s n"
proof (induction s arbitrary: d q e n)
  case Nil
  then show ?case by (simp add: closes_Nil)
next
  case (Cons c cs)
  let ?st = "(int d, q, e)"
  have ne: "?st \<noteq> closed_level" using Cons.prems by simp
  show ?case
  proof (cases "q \<or> c \<noteq> CHR ''}''")
    case True
    define d' q' e' where "d' = (if \<not> q \<and> c = CHR ''{'' then d + 1 else d)"
      and "q' = (if q then e \<or> c \<noteq> CHR 0x22 else c = CHR 0x22)" and "e' = (q \<and> \<not> e \<and> c = CHR 0x5C)"
    have step: "lex_step ?st c = (int d', q', e')"
      using True Cons.prems by (auto simp: lex_step_def d'_def q'_def e'_def)
    have scan: "scan_object d q e (c # cs) = map_option Suc (scan_object d' q' e' cs)"
      using True Cons.prems by (auto simp: d'_def q'_def e'_def)
    have "0 < d'" "\<not> q' \<Longrightarrow> \<not> e'" using Cons.prems by (auto simp: d'_def q'_def e'_def)
    with Cons.IH show ?thesis unfolding closes_Cons [OF ne] scan map_option_Suc step by blast
  next
    case False
    then have step: "lex_step ?st c = (int d - 1, False, False)" and "\<not> e"
      using Cons.prems by (auto simp: lex_step_def)
    show ?thesis
    proof (cases "d = 1")
      case True
      then show ?thesis unfolding closes_Cons [OF ne] step using False
        by (auto simp: closes_closed)
    next
      case d: False
      then have "0 < d - 1" "int (d - 1) = int d - 1" using Cons.prems by auto
      moreover have "scan_object d q e (c # cs) = map_option Suc (scan_object (d - 1) False False cs)"
        using False d \<open>\<not> e\<close> Cons.prems by simp
      ultimately show ?thesis unfolding closes_Cons [OF ne] step map_option_Suc
        using Cons.IH [of "d - 1" False False] by (simp only: map_option_Suc)
    qed
  qed
qed

lemma scan_start: "scan_object 0 False False (CHR ''{'' # cs) = Some n \<longleftrightarrow> (\<exists>k. n = Suc k \<and> closes (1, False, False) cs k)"
proof -
  have "scan_object 0 False False (CHR ''{'' # cs) = map_option Suc (scan_object 1 False False cs)" by simp
  moreover have "scan_object 1 False False cs = Some k \<longleftrightarrow> closes (1, False, False) cs k" for k
    using scan_object_Some [of 1 False False cs k] by simp
  ultimately show ?thesis by (simp only: map_option_Suc)
qed

lemma object_text_Cons: "object_text (CHR ''{'' # cs) \<longleftrightarrow> closes (1, False, False) cs (length cs)"
proof -
  have "(\<forall>n \<in> {0<..<Suc (length cs)}. level closed_level (take n (CHR ''{'' # cs)) \<noteq> closed_level) \<longleftrightarrow>
      (\<forall>m < length cs. level (1, False, False) (take m cs) \<noteq> closed_level)"
  proof (intro iffI ballI allI impI)
    fix m assume all: "\<forall>n \<in> {0<..<Suc (length cs)}. level closed_level (take n (CHR ''{'' # cs)) \<noteq> closed_level"
      and "m < length cs"
    then have "Suc m \<in> {0<..<Suc (length cs)}" by simp
    with all have "level closed_level (take (Suc m) (CHR ''{'' # cs)) \<noteq> closed_level" by blast
    then show "level (1, False, False) (take m cs) \<noteq> closed_level" by (simp add: level_def lex_step_def)
  next
    fix n assume all: "\<forall>m < length cs. level (1, False, False) (take m cs) \<noteq> closed_level"
      and "n \<in> {0<..<Suc (length cs)}"
    then obtain m where "n = Suc m" "m < length cs" by (cases n) auto
    with all show "level closed_level (take n (CHR ''{'' # cs)) \<noteq> closed_level" by (simp add: level_def lex_step_def)
  qed
  then show ?thesis by (auto simp: object_text_def closes_def level_def lex_step_def)
qed

lemma closes_take: "closes st (take n s) (length (take n s)) \<and> n \<le> length s \<longleftrightarrow> closes st s n"
  by (auto simp: closes_def min_def)

lemma scan_prefix: "scan_object 0 False False (CHR ''{'' # cs) = Some n \<longleftrightarrow>
   0 < n \<and> n \<le> Suc (length cs) \<and> object_text (take n (CHR ''{'' # cs))"
proof (cases n)
  case 0
  then show ?thesis unfolding scan_start by simp
next
  case (Suc k)
  have "object_text (take n (CHR ''{'' # cs)) \<longleftrightarrow> closes (1, False, False) (take k cs) (length (take k cs))"
    using object_text_Cons [of "take k cs"] Suc by simp
  then show ?thesis unfolding scan_start using closes_take [of "(1, False, False)" k cs] Suc by blast
qed

definition leftmost_object :: "(string \<Rightarrow> bool) \<Rightarrow> string \<Rightarrow> string \<Rightarrow> bool" where
  "leftmost_object good input ob \<longleftrightarrow>
     (\<exists>pre post. input = pre @ ob @ post \<and> object_text ob \<and> good ob
        \<and> (\<forall>pre' ob' post'. input = pre' @ ob' @ post' \<and> object_text ob' \<and> good ob' \<longrightarrow> length pre \<le> length pre'))"

lemma object_text_prefix_unique:
  assumes "object_text a" "object_text b" "a @ x = b @ y"
  shows "a = b"
proof -
  obtain as bs where ab: "a = CHR ''{'' # as" "b = CHR ''{'' # bs"
    using assms(1,2) by (auto simp: object_text_def neq_Nil_conv)
  then have c: "closes (1, False, False) as (length as)" "closes (1, False, False) bs (length bs)"
    using assms by (simp_all add: object_text_Cons)
  have eq: "as @ x = bs @ y" using assms(3) ab by simp
  have "closes (1, False, False) (as @ x) (length as)" "closes (1, False, False) (bs @ y) (length bs)"
    using c closes_take [of _ "length as" "as @ x"] closes_take [of _ "length bs" "bs @ y"] by simp_all
  then have "length as = length bs" using closes_functional by (simp add: eq)
  with eq ab show ?thesis by simp
qed

lemma leftmost_here:
  assumes "object_text x" "good x"
  shows "leftmost_object good (x @ y) ob \<longleftrightarrow> ob = x"
proof
  assume "leftmost_object good (x @ y) ob"
  then obtain pre post where d: "x @ y = pre @ ob @ post" "object_text ob"
    "\<forall>pre' ob' post'. x @ y = pre' @ ob' @ post' \<and> object_text ob' \<and> good ob' \<longrightarrow> length pre \<le> length pre'"
    unfolding leftmost_object_def by blast
  have "length pre \<le> length ([] :: string)" using d(3) assms by blast
  then have "x @ y = ob @ post" using d(1) by simp
  then show "ob = x" using object_text_prefix_unique [OF assms(1) d(2)] by metis
next
  assume "ob = x"
  with assms show "leftmost_object good (x @ y) ob"
    unfolding leftmost_object_def by (intro exI [of _ "[]"] exI [of _ y]) simp
qed

lemma leftmost_later:
  assumes none: "\<And>x y. c # cs = x @ y \<Longrightarrow> object_text x \<Longrightarrow> \<not> good x"
  shows "leftmost_object good (c # cs) ob \<longleftrightarrow> leftmost_object good cs ob"
proof -
  have split: "c # cs = pre @ x @ post \<longleftrightarrow> (\<exists>pre'. pre = c # pre' \<and> cs = pre' @ x @ post)"
    if "object_text x" "good x" for pre x post
    using none [of x post] that by (cases pre) auto
  show ?thesis
  proof
    assume "leftmost_object good (c # cs) ob"
    then obtain pre post where d: "c # cs = pre @ ob @ post" "object_text ob" "good ob"
      and least: "\<And>pre' ob' post'. c # cs = pre' @ ob' @ post' \<Longrightarrow> object_text ob' \<Longrightarrow> good ob' \<Longrightarrow> length pre \<le> length pre'"
      unfolding leftmost_object_def by blast
    obtain p where p: "pre = c # p" "cs = p @ ob @ post" using d split [OF d(2,3)] by blast
    have "length p \<le> length pre'" if "cs = pre' @ ob' @ post'" "object_text ob'" "good ob'" for pre' ob' post'
      using least [of "c # pre'" ob' post'] that p(1) by simp
    with p(2) d(2,3) show "leftmost_object good cs ob" unfolding leftmost_object_def by blast
  next
    assume "leftmost_object good cs ob"
    then obtain pre post where d: "cs = pre @ ob @ post" "object_text ob" "good ob"
      and least: "\<And>pre' ob' post'. cs = pre' @ ob' @ post' \<Longrightarrow> object_text ob' \<Longrightarrow> good ob' \<Longrightarrow> length pre \<le> length pre'"
      unfolding leftmost_object_def by blast
    have "length (c # pre) \<le> length pre'" if t: "c # cs = pre' @ ob' @ post'" "object_text ob'" "good ob'" for pre' ob' post'
    proof -
      obtain p where p: "pre' = c # p" "cs = p @ ob' @ post'" using t(1) split [OF t(2,3)] by blast
      with least [OF p(2) t(2,3)] show ?thesis by simp
    qed
    moreover have "c # cs = (c # pre) @ ob @ post" using d(1) by simp
    ultimately show "leftmost_object good (c # cs) ob" using d(2,3) unfolding leftmost_object_def by blast
  qed
qed

lemma find_candidates: "find good (json_object_candidates input) = Some ob \<longleftrightarrow> leftmost_object good input ob"
proof (induction input)
  case Nil
  then show ?case by (auto simp: leftmost_object_def object_text_def)
next
  case (Cons c cs)
  have head: "scan_object 0 False False (c # cs) = Some (length x)"
    if "c # cs = x @ y" "object_text x" for x y
  proof -
    have "c = CHR ''{''" "x \<noteq> []" using that by (auto simp: object_text_def Cons_eq_append_conv)
    moreover have "take (length x) (c # cs) = x" by (simp add: that(1))
    moreover have "length x \<le> Suc (length cs)"
      using arg_cong [OF that(1), of length] by simp
    ultimately show ?thesis using scan_prefix [of cs "length x"] that(2) by simp
  qed
  show ?case
  proof (cases "\<exists>x y. c # cs = x @ y \<and> object_text x \<and> good x")
    case True
    then obtain x y where x: "c # cs = x @ y" "object_text x" "good x" by blast
    then have "c = CHR ''{''" by (auto simp: object_text_def Cons_eq_append_conv)
    moreover have take_x: "take (length x) (c # cs) = x" by (simp add: x(1))
    ultimately have "json_object_candidates (c # cs) = x # json_object_candidates cs"
      using head [OF x(1,2)] take_x by (simp del: scan_object.simps)
    then have found: "find good (json_object_candidates (c # cs)) = Some x" using x(3) by simp
    show ?thesis using leftmost_here [of x good y ob, folded x(1)] x(2,3) unfolding found by auto
  next
    case False
    have "find good (json_object_candidates (c # cs)) = find good (json_object_candidates cs)"
    proof (cases "c = CHR ''{''")
      case True
      show ?thesis
      proof (cases "scan_object 0 False False (c # cs)")
        case (Some n)
        then have "object_text (take n (c # cs))" using scan_prefix [of cs n] True by simp
        then have "\<not> good (take n (c # cs))" using False append_take_drop_id by metis
        with Some True show ?thesis by (simp del: scan_object.simps)
      qed (simp add: True del: scan_object.simps)
    qed simp
    then show ?thesis using Cons.IH leftmost_later [of c cs good ob] False by auto
  qed
qed

text \<open>C32: Extraction from model output: the object handed to the JSON parser is the leftmost stretch of the
  response that opens with a brace, is closed by its last character with braces inside string
  literals ignored, and parses; nothing is extracted exactly when there is no such stretch.\<close>

theorem first_json_object_leftmost:
  "(first_json_object sd input = Some ob \<longleftrightarrow>
      leftmost_object (\<lambda>ob. sd_from_str sd ob \<noteq> None) input ob)
   \<and> (first_balanced_json_object input = Some ob \<longleftrightarrow> leftmost_object (\<lambda>ob. True) input ob)"
proof
  show "first_json_object sd input = Some ob \<longleftrightarrow> leftmost_object (\<lambda>ob. sd_from_str sd ob \<noteq> None) input ob"
    unfolding first_json_object_def by (rule find_candidates)
  have "first_balanced_json_object input = find (\<lambda>ob. True) (json_object_candidates input)"
    by (simp add: first_balanced_json_object_def split: list.split)
  then show "first_balanced_json_object input = Some ob \<longleftrightarrow> leftmost_object (\<lambda>ob. True) input ob"
    by (simp only: find_candidates)
qed

subsection \<open>Integers in text\<close>

lemma unit_at_None: "s = [] \<or> hd s \<notin> hd ` set us \<Longrightarrow> unit_at us s = None"
  unfolding unit_at_def find_None_iff by (metis image_eqI hd_take length_greater_0_conv list.size(3) take_Nil)

lemma span_units_None: "s = [] \<or> hd s \<notin> hd ` set us \<Longrightarrow> span_units us s = ([], s)"
  by (subst span_units.simps) (simp add: unit_at_None)

definition decimal_char :: "char \<Rightarrow> bool" where
  "decimal_char c \<longleftrightarrow> c = CHR ''-'' \<or> is_digit c"

lemma decimal_not_space:
  assumes "decimal_char c"
  shows "c \<notin> hd ` set white_space" "c \<notin> hd ` set (map rev white_space)"
proof -
  have code: "(of_char c :: nat) = 45 \<or> 48 \<le> (of_char c :: nat) \<and> (of_char c :: nat) \<le> 57"
    using assms by (auto simp: decimal_char_def is_digit_def)
  have gen: "c \<notin> S" if "of_char ` S \<inter> ({45} \<union> {48..57 :: nat}) = {}" for S
    using that code by (auto simp: disjoint_iff)
  show "c \<notin> hd ` set white_space" by (rule gen) (simp add: white_space_def)
  show "c \<notin> hd ` set (map rev white_space)" by (rule gen) (simp add: white_space_def)
qed

lemma decimal_chars: "c \<in> set (int_to_dec i) \<Longrightarrow> decimal_char c"
  using set_nat_to_dec by (fastforce simp: int_to_dec_def decimal_char_def is_digit_def of_char_digit_char split: if_splits)

lemma nat_to_dec_digits: "list_all is_digit (nat_to_dec n) \<and> nat_to_dec n \<noteq> []"
proof
  show "list_all is_digit (nat_to_dec n)"
    unfolding list_all_iff is_digit_def using set_nat_to_dec of_char_digit_char by fastforce
  show "nat_to_dec n \<noteq> []" by (subst nat_to_dec.simps) simp
qed

lemma parse_digits_nat: "parse_digits (nat_to_dec n) = Some n"
  using nat_to_dec_digits [of n] by (simp add: parse_digits_def)

lemma parse_i64_int_to_dec: "i64_ok i \<Longrightarrow> parse_i64 (int_to_dec i) = Some i"
proof (cases "i < 0")
  case False
  assume ok: "i64_ok i"
  obtain c ds where cd: "nat_to_dec (nat i) = c # ds" using nat_to_dec_digits by (metis neq_Nil_conv)
  then have "is_digit c" using nat_to_dec_digits [of "nat i"] by simp
  then have "c \<noteq> CHR ''-''" "c \<noteq> CHR ''+''" by (auto simp: is_digit_def)
  then show ?thesis using ok False parse_digits_nat [of "nat i"] by (simp add: parse_i64_def int_to_dec_def cd)
qed (simp add: parse_i64_def int_to_dec_def parse_digits_nat)

lemma trim_int_to_dec: "trim (int_to_dec i) = int_to_dec i"
proof -
  have "int_to_dec i \<noteq> []" using nat_to_dec_digits by (simp add: int_to_dec_def)
  then have "decimal_char (hd (int_to_dec i))" "decimal_char (hd (rev (int_to_dec i)))"
    using decimal_chars [of _ i] by (simp_all only: hd_rev) (metis hd_in_set last_in_set)+
  then show ?thesis
    using span_units_None decimal_not_space by (simp add: trim_def span_white_def)
qed

text \<open>Scores survive printing: for every 64-bit score the reader returns the same integer whether the
  model wrote it as a JSON number or as the decimal text of that number.\<close>

theorem python_int_decimal_roundtrip:
  assumes "i64_ok i"
  shows "python_int sd (JString (int_to_dec i)) = Some i \<and> python_int sd (JNumber (NInt i)) = Some i"
  using assms by (simp add: trim_int_to_dec parse_i64_int_to_dec)

subsection \<open>Ratings\<close>

definition invalid_rating :: "'f serde \<Rightarrow> 'f json \<Rightarrow> query_error" where
  "invalid_rating sd rating =
     QueryParse SearchGlobal ''parse dynamic community rating''
       (''rating value '' @ sd_display sd rating @ '' cannot be converted to an integer'')"

text \<open>Repairing an object: quoting bare keys and dropping trailing commas, outside string literals.\<close>

fun take_literal :: "bool \<Rightarrow> string \<Rightarrow> string \<times> string" where
  "take_literal escaped [] = ([], [])"
| "take_literal escaped (c # cs) =
     (if escaped then (case take_literal False cs of (l, r) \<Rightarrow> (c # l, r))
      else if c = CHR 0x5C then (case take_literal True cs of (l, r) \<Rightarrow> (c # l, r))
      else if c = CHR 0x22 then ([c], cs)
      else (case take_literal False cs of (l, r) \<Rightarrow> (c # l, r)))"

definition key_char :: "char \<Rightarrow> bool" where
  "key_char c \<longleftrightarrow> (let b = (of_char c :: nat) in 48 \<le> b \<and> b \<le> 57 \<or> 65 \<le> b \<and> b \<le> 90 \<or> 97 \<le> b \<and> b \<le> 122)
     \<or> c \<in> {CHR ''_'', CHR ''-''}"

lemma take_literal_length: "take_literal e cs = (l, r) \<Longrightarrow> length r \<le> length cs"
  by (induction e cs arbitrary: l r rule: take_literal.induct) (fastforce split: if_splits prod.splits)+

lemma span_white_length: "span_white s = (ws, rest) \<Longrightarrow> length rest \<le> length s"
  by (auto simp: span_white_def dest!: span_units_append)

function repair_json_object :: "string \<Rightarrow> string" where
  "repair_json_object [] = []"
| "repair_json_object (c # cs) =
     (if c = CHR 0x22 then
        (case take_literal False cs of (literal, rest) \<Rightarrow> c # literal @ repair_json_object rest)
      else if c = CHR ''{'' \<or> c = CHR '','' then
        (case span_white cs of (white, rest) \<Rightarrow>
           if c = CHR '','' \<and> (case rest of [] \<Rightarrow> False | n # _ \<Rightarrow> n = CHR ''}'' \<or> n = CHR '']'')
           then white @ repair_json_object rest
           else
             (case span_white (dropWhile key_char rest) of (key_white, after_key) \<Rightarrow>
                if takeWhile key_char rest \<noteq> [] \<and> (case after_key of [] \<Rightarrow> False | n # _ \<Rightarrow> n = CHR '':'')
                then c # white @ [CHR 0x22] @ takeWhile key_char rest @ [CHR 0x22] @ key_white @ [CHR '':'']
                       @ repair_json_object (tl after_key)
                else c # white @ takeWhile key_char rest @ key_white @ repair_json_object after_key))
      else c # repair_json_object cs)"
  by pat_completeness auto

termination
proof (relation "measure length", goal_cases)
  case (2 c cs literal rest)
  then show ?case using take_literal_length [of False cs literal rest] by simp
next
  case (3 c cs white rest)
  then show ?case using span_white_length [of cs white rest] by simp
next
  case (4 c cs white rest key_white after_key)
  then have "length after_key \<le> length rest" "length rest \<le> length cs"
    using span_white_length [of "dropWhile key_char rest" key_white after_key] span_white_length [of cs white rest]
      length_dropWhile_le [of key_char rest] by simp_all
  then show ?case by simp
next
  case (5 c cs white rest key_white after_key)
  then have "length after_key \<le> length rest" "length rest \<le> length cs"
    using span_white_length [of "dropWhile key_char rest" key_white after_key] span_white_length [of cs white rest]
      length_dropWhile_le [of key_char rest] by simp_all
  then show ?case by simp
qed simp_all

definition parse_rating :: "'f serde \<Rightarrow> string \<Rightarrow> query_error + 'f json" where
  "parse_rating sd input =
     (let v = (case first_json_object sd input of
           Some ob \<Rightarrow> sd_from_str sd ob
         | None \<Rightarrow> Option.bind (first_balanced_json_object input) (\<lambda>ob. sd_from_str sd (repair_json_object ob)))
      in case v of
           None \<Rightarrow> Inr (JNumber (NInt 1))
         | Some v \<Rightarrow>
            (case json_get v ''rating'' of
               None \<Rightarrow> Inr (JNumber (NInt 1))
             | Some rating \<Rightarrow>
                 (case rating of
                    JBool _ \<Rightarrow> Inr rating
                  | JNumber _ \<Rightarrow> Inr rating
                  | JString _ \<Rightarrow> Inr rating
                  | _ \<Rightarrow> Inl (invalid_rating sd rating))))"

subsection \<open>The majority vote\<close>

fun json_is_string :: "'f json \<Rightarrow> bool" where
  "json_is_string (JString s) = True"
| "json_is_string _ = False"

fun json_as_f64 :: "'f serde \<Rightarrow> 'f json \<Rightarrow> 'f option" where
  "json_as_f64 sd (JNumber (NInt i)) = Some (sd_of_int sd i)"
| "json_as_f64 sd (JNumber (NFloat f)) = Some f"
| "json_as_f64 sd _ = None"

fun python_rating_string :: "'f serde \<Rightarrow> 'f json \<Rightarrow> query_error + string" where
  "python_rating_string sd (JString s) = Inr s"
| "python_rating_string sd (JBool b) = Inr (if b then ''True'' else ''False'')"
| "python_rating_string sd (JNumber (NInt i)) = Inr (int_to_dec i)"
| "python_rating_string sd (JNumber (NFloat f)) = Inr (sd_show_float sd f)"
| "python_rating_string sd rating = Inl (invalid_rating sd rating)"

definition select_step :: "('a \<times> nat) option \<Rightarrow> 'a \<times> nat \<Rightarrow> ('a \<times> nat) option" where
  "select_step selected entry =
     (case selected of
        None \<Rightarrow> Some entry
      | Some (_, selected_count) \<Rightarrow> if selected_count < snd entry then Some entry else selected)"

definition select_counted :: "('a \<times> nat) list \<Rightarrow> 'a option" where
  "select_counted entries = map_option fst (foldl select_step None entries)"

definition count_entry :: "'k::linorder \<Rightarrow> ('k, nat) omap \<Rightarrow> ('k, nat) omap" where
  "count_entry k counts = om_update 0 (\<lambda>n. n + 1) k counts"

fun insert_float :: "'f serde \<Rightarrow> 'f \<Rightarrow> 'f list \<Rightarrow> 'f list" where
  "insert_float sd x [] = [x]"
| "insert_float sd x (y # ys) = (if sd_le sd x y then x # y # ys else y # insert_float sd x ys)"

text \<open>The last run of equal values is at the head.\<close>

fun count_runs :: "'f serde \<Rightarrow> ('f \<times> nat) list \<Rightarrow> 'f list \<Rightarrow> ('f \<times> nat) list" where
  "count_runs sd counted [] = rev counted"
| "count_runs sd counted (v # vs) =
     (case counted of
        (last_value, n) # before \<Rightarrow>
          if sd_eq sd last_value v then count_runs sd ((last_value, n + 1) # before) vs
          else count_runs sd ((v, 1) # counted) vs
      | [] \<Rightarrow> count_runs sd [(v, 1)] vs)"

definition majority_vote :: "'f serde \<Rightarrow> 'f json list \<Rightarrow> query_error + i64 option" where
  "majority_vote sd ratings =
     (if ratings = [] then Inr None
      else if list_ex json_is_string ratings then
        and_then (try_map (python_rating_string sd) ratings) (\<lambda>texts.
          let counts = foldl (\<lambda>m t. count_entry t m) [] texts in
          and_then (ok_or (invalid_rating sd (hd ratings))
              (Option.bind (select_counted counts) (\<lambda>t. parse_i64 (trim t)))) (\<lambda>selected.
            Inr (Some selected)))
      else if list_ex (\<lambda>r. case json_as_f64 sd r of None \<Rightarrow> False | Some f \<Rightarrow> sd_has_fract sd f) ratings then
        and_then (try_map (\<lambda>r. ok_or (invalid_rating sd r) (json_as_f64 sd r)) ratings) (\<lambda>floats.
          let counted = count_runs sd [] (foldr (insert_float sd) floats []) in
          case select_counted counted of
            None \<Rightarrow> Inr None
          | Some f \<Rightarrow>
              and_then (ok_or (invalid_rating sd (JNumber (NFloat f))) (float_to_i64 sd f)) (\<lambda>i. Inr (Some i)))
      else
        and_then (try_map (\<lambda>r. ok_or (invalid_rating sd r) (python_int sd r)) ratings) (\<lambda>ints.
          Inr (select_counted (foldl (\<lambda>m i. count_entry i m) [] ints))))"

lemma om_ok_count_entry: "om_ok m \<Longrightarrow> om_ok (count_entry k m)"
  by (simp add: count_entry_def)

lemma map_of_count_entry:
  "om_ok m \<Longrightarrow> map_of (count_entry k m) = (map_of m)(k \<mapsto> (case map_of m k of None \<Rightarrow> 0 | Some n \<Rightarrow> n) + 1)"
  by (simp add: count_entry_def map_of_om_update)

lemma count_fold:
  "om_ok (foldl (\<lambda>m i. count_entry i m) [] xs)
   \<and> map_of (foldl (\<lambda>m i. count_entry i m) [] xs) k = (if k \<in> set xs then Some (count_list xs k) else None)"
proof (induction xs rule: rev_induct)
  case (snoc x xs)
  then have ok: "om_ok (foldl (\<lambda>m i. count_entry i m) [] xs)" by blast
  have "map_of (count_entry x (foldl (\<lambda>m i. count_entry i m) [] xs)) k =
      (if k \<in> set (xs @ [x]) then Some (count_list (xs @ [x]) k) else None)"
    unfolding map_of_count_entry [OF ok] using snoc by (auto simp: count_list_0_iff)
  with ok show ?case by (simp add: om_ok_count_entry)
qed simp

lemma select_fold:
  "sorted_wrt (\<lambda>a b. fst a < fst b) es \<Longrightarrow>
   (case foldl select_step None es of
      None \<Rightarrow> es = []
    | Some (v, n) \<Rightarrow> (v, n) \<in> set es \<and> (\<forall>(w, m) \<in> set es. m < n \<or> m = n \<and> v \<le> w))"
  for es :: "('a::linorder \<times> nat) list"
proof (induction es rule: rev_induct)
  case (snoc e es)
  then have lt: "\<forall>x \<in> set es. fst x < fst e" and ih: "case foldl select_step None es of
      None \<Rightarrow> es = [] | Some (v, n) \<Rightarrow> (v, n) \<in> set es \<and> (\<forall>(w, m) \<in> set es. m < n \<or> m = n \<and> v \<le> w)"
    by (simp_all add: sorted_wrt_append)
  show ?case
  proof (cases "foldl select_step None es")
    case None
    with ih show ?thesis by (simp add: select_step_def split: prod.split)
  next
    case (Some p)
    obtain v n where p: "p = (v, n)" by fastforce
    with ih Some have "(v, n) \<in> set es" "\<forall>(w, m) \<in> set es. m < n \<or> m = n \<and> v \<le> w" by simp_all
    moreover from this have "v < fst e" using lt by fastforce
    moreover have "foldl select_step None (es @ [e]) = (if n < snd e then Some e else Some (v, n))"
      by (simp add: select_step_def Some p)
    ultimately show ?thesis by (cases "n < snd e") (force split: prod.splits)+
  qed
qed simp

lemma select_counts:
  assumes "xs \<noteq> []"
  shows "\<exists>v \<in> set xs. select_counted (foldl (\<lambda>m i. count_entry i m) [] xs) = Some v
     \<and> (\<forall>w \<in> set xs. count_list xs w < count_list xs v \<or> count_list xs w = count_list xs v \<and> v \<le> w)"
proof -
  let ?m = "foldl (\<lambda>m i. count_entry i m) [] xs"
  have ok: "om_ok ?m" and at: "\<And>k. map_of ?m k = (if k \<in> set xs then Some (count_list xs k) else None)"
    using count_fold by blast+
  have sorted: "sorted_wrt (\<lambda>a b. fst a < fst b) ?m"
    using ok by (simp add: om_ok_def om_keys_def sorted_wrt_map)
  have entry: "(k, n) \<in> set ?m \<longleftrightarrow> k \<in> set xs \<and> n = count_list xs k" for k n
  proof -
    have "(k, n) \<in> set ?m \<longleftrightarrow> map_of ?m k = Some n"
      using om_ok_distinct [OF ok] by (simp add: om_keys_def)
    then show ?thesis by (auto simp: at)
  qed
  have "?m \<noteq> []" using assms entry [of "hd xs" "count_list xs (hd xs)"] by auto
  then obtain v n where sel: "foldl select_step None ?m = Some (v, n)" "(v, n) \<in> set ?m"
    "\<forall>(w, m) \<in> set ?m. m < n \<or> m = n \<and> v \<le> w"
    using select_fold [OF sorted] by (auto split: option.splits)
  then have "v \<in> set xs" "n = count_list xs v" using entry by blast+
  moreover have "\<forall>w \<in> set xs. count_list xs w < n \<or> count_list xs w = n \<and> v \<le> w"
    using sel(3) entry by blast
  ultimately show ?thesis using sel(1) by (auto simp: select_counted_def)
qed

text \<open>The vote: when every repeated rating is a whole number or a boolean, the selected rating is one
  that occurs most often, and of those the smallest; it does not depend on the order of the
  answers.\<close>

theorem majority_vote_selects_mode:
  assumes "ratings \<noteq> []"
    and "\<forall>r \<in> set ratings. case r of JBool b \<Rightarrow> True | JNumber (NInt i) \<Rightarrow> i64_ok i \<and> \<not> sd_has_fract sd (sd_of_int sd i) | _ \<Rightarrow> False"
  shows "\<exists>v. majority_vote sd ratings = Inr (Some v)
     \<and> (let votes = map (the \<circ> python_int sd) ratings in v \<in> set votes
         \<and> (\<forall>w \<in> set votes. count_list votes w < count_list votes v \<or> count_list votes w = count_list votes v \<and> v \<le> w))"
proof -
  let ?votes = "map (the \<circ> python_int sd) ratings"
  have each: "\<not> json_is_string r \<and> python_int sd r = Some ((the \<circ> python_int sd) r)
     \<and> (case json_as_f64 sd r of None \<Rightarrow> True | Some f \<Rightarrow> \<not> sd_has_fract sd f)" if "r \<in> set ratings" for r
    using bspec [OF assms(2) that] by (cases r) (auto split: json_number.splits)
  have "try_map (\<lambda>r. ok_or (invalid_rating sd r) (python_int sd r)) ratings = Inr ?votes"
    by (rule try_map_total) (metis each ok_or.simps(2))
  moreover have "\<not> list_ex json_is_string ratings"
    "\<not> list_ex (\<lambda>r. case json_as_f64 sd r of None \<Rightarrow> False | Some f \<Rightarrow> sd_has_fract sd f) ratings"
    using each by (auto simp: list_ex_iff split: option.splits) fastforce+
  ultimately have "majority_vote sd ratings = Inr (select_counted (foldl (\<lambda>m i. count_entry i m) [] ?votes))"
    using assms(1) by (simp add: majority_vote_def)
  moreover obtain v where "v \<in> set ?votes" "select_counted (foldl (\<lambda>m i. count_entry i m) [] ?votes) = Some v"
    "\<forall>w \<in> set ?votes. count_list ?votes w < count_list ?votes v \<or> count_list ?votes w = count_list ?votes v \<and> v \<le> w"
    using select_counts [of ?votes] assms(1) by auto
  ultimately show ?thesis unfolding Let_def by (intro exI [of _ v]) simp
qed

definition sample_serde :: "int serde" where
  "sample_serde = \<lparr>sd_from_str = (\<lambda>s. if s = ''{}'' then Some (JObject []) else None), sd_display = (\<lambda>_. []),
     sd_trunc = Some, sd_has_fract = (\<lambda>_. False), sd_of_int = id, sd_le = (\<le>), sd_eq = (=),
     sd_show_float = int_to_dec\<rparr>"

theorem python_int_decimal_roundtrip_witness:
  "python_int sample_serde (JString ''-42'') = Some (- 42)"
proof -
  have "int_to_dec (- 42) = ''-42''"
    by code_simp
  then show ?thesis
    using python_int_decimal_roundtrip [of "- 42" sample_serde] by (simp add: i64_ok_def i64_min_def i64_max_def)
qed

theorem majority_vote_selects_mode_witness:
  "majority_vote sample_serde [JNumber (NInt 3), JBool True, JNumber (NInt 1), JNumber (NInt 3), JNumber (NInt 0)]
     = Inr (Some 1)"
proof -
  let ?rs = "[JNumber (NInt 3), JBool True, JNumber (NInt 1), JNumber (NInt 3), JNumber (NInt 0)] :: int json list"
  have votes: "map (the \<circ> python_int sample_serde) ?rs = [3, 1, 1, 3, 0]"
    by (simp add: i64_ok_def i64_min_def i64_max_def)
  have ne: "?rs \<noteq> []" by simp
  have whole: "\<forall>r \<in> set ?rs. case r of JBool b \<Rightarrow> True
      | JNumber (NInt i) \<Rightarrow> i64_ok i \<and> \<not> sd_has_fract sample_serde (sd_of_int sample_serde i) | _ \<Rightarrow> False"
    by (simp add: i64_ok_def i64_min_def i64_max_def sample_serde_def)
  obtain v where v: "majority_vote sample_serde ?rs = Inr (Some v)" "v \<in> set [3, 1, 1, 3, 0]"
    "\<forall>w \<in> set [3, 1, 1, 3, 0 :: i64]. count_list [3, 1, 1, 3, 0] w < count_list [3, 1, 1, 3, 0] v
       \<or> count_list [3, 1, 1, 3, 0] w = count_list [3, 1, 1, 3, 0] v \<and> v \<le> w"
    using majority_vote_selects_mode [OF ne whole, unfolded votes Let_def] by blast
  from v(3) have "count_list ([3, 1, 1, 3, 0] :: i64 list) 1 < count_list [3, 1, 1, 3, 0] v
       \<or> count_list ([3, 1, 1, 3, 0] :: i64 list) 1 = count_list [3, 1, 1, 3, 0] v \<and> v \<le> 1"
    by (rule bspec) simp
  moreover have "v = 3 \<or> v = 1 \<or> v = 0" using v(2) by auto
  ultimately have "v = 1" by auto
  with v(1) show ?thesis by simp
qed

end
