(* ===== verification/Drift.thy ===== *)
theory Drift
  imports Query_Parse
begin

text \<open>
  The data of DRIFT search: response parsing (\<open>drift/parse.rs\<close>), the action graph (\<open>drift/action.rs\<close>,
  \<open>drift/state.rs\<close>) and the folds of the primer (\<open>drift/primer.rs\<close>).

  Parameters: regular expressions and floating point (record \<open>floats\<close>). The scan of
  \<open>drift/parse.rs\<close> for balanced objects is the one of theory \<open>Query_Parse\<close>.
\<close>

subsection \<open>Actions\<close>

record 'f drift_response =
  dr_answer :: "string option"
  dr_score :: 'f
  dr_follow_up_queries :: "string list"

record 'c drift_metadata =
  dm_usage :: usage
  dm_context :: "'c option"

record ('f, 'c) drift_action =
  da_id :: usize
  da_query :: string
  da_answer :: "string option"
  da_score :: 'f
  da_metadata :: "'c drift_metadata"

record 'f floats =
  fl_neg_infinity :: 'f
  fl_is_finite :: "'f \<Rightarrow> bool"
  fl_parse :: "string \<Rightarrow> 'f option" \<comment> \<open>\<open>str::parse::<f64>\<close>\<close>
  fl_one :: 'f

definition response_fallback :: "'f floats \<Rightarrow> 'f drift_response" where
  "response_fallback fl = \<lparr>dr_answer = None, dr_score = fl_neg_infinity fl, dr_follow_up_queries = []\<rparr>"

definition action_incomplete :: "'f floats \<Rightarrow> usize \<Rightarrow> string \<Rightarrow> ('f, 'c) drift_action" where
  "action_incomplete fl i query =
     \<lparr>da_id = i, da_query = query, da_answer = None, da_score = fl_neg_infinity fl,
      da_metadata = \<lparr>dm_usage = usage_default, dm_context = None\<rparr>\<rparr>"

subsection \<open>Parsing responses\<close>

text \<open>Single-quoted strings become double-quoted; \<open>d\<close>, \<open>s\<close> and \<open>e\<close> are \<open>in_double\<close>, \<open>in_single\<close> and
  \<open>escaped\<close>.\<close>

fun repair_quotes :: "bool \<Rightarrow> bool \<Rightarrow> bool \<Rightarrow> string \<Rightarrow> string" where
  "repair_quotes d s e [] = (if e then [CHR 0x5C] else [])"
| "repair_quotes d s e (c # cs) =
     (if e then
        (if s \<and> c = CHR 0x27 then c # repair_quotes d s False cs
         else CHR 0x5C # c # repair_quotes d s False cs)
      else if c = CHR 0x5C \<and> (d \<or> s) then repair_quotes d s True cs
      else if d then c # repair_quotes (c \<noteq> CHR 0x22) s False cs
      else if s then
        (if c = CHR 0x27 then CHR 0x22 # repair_quotes d False False cs
         else if c = CHR 0x22 then CHR 0x5C # CHR 0x22 # repair_quotes d s False cs
         else c # repair_quotes d s False cs)
      else if c = CHR 0x22 then c # repair_quotes True s False cs
      else if c = CHR 0x27 then CHR 0x22 # repair_quotes d True False cs
      else c # repair_quotes d s False cs)"

definition repair_single_quoted_strings :: "string \<Rightarrow> string" where
  "repair_single_quoted_strings = repair_quotes False False False"

record regexes =
  rx_bare_key :: "string \<Rightarrow> string" \<comment> \<open>\<open>bare_key.replace_all\<close>\<close>
  rx_trailing_comma :: "string \<Rightarrow> string"

definition repair_json :: "regexes \<Rightarrow> string \<Rightarrow> string option" where
  "repair_json rx input = Some (repair_single_quoted_strings (rx_trailing_comma rx (rx_bare_key rx input)))"

fun find_map :: "('a \<Rightarrow> 'b option) \<Rightarrow> 'a list \<Rightarrow> 'b option" where
  "find_map f [] = None"
| "find_map f (x # xs) = (case f x of None \<Rightarrow> find_map f xs | Some y \<Rightarrow> Some y)"

definition parse_candidate :: "'f serde \<Rightarrow> regexes \<Rightarrow> string \<Rightarrow> 'f json option" where
  "parse_candidate sd rx candidate =
     (case sd_from_str sd candidate of
        Some v \<Rightarrow> Some v
      | None \<Rightarrow> Option.bind (repair_json rx candidate) (sd_from_str sd))"

definition parse_json_value :: "'f serde \<Rightarrow> regexes \<Rightarrow> string \<Rightarrow> 'f json option" where
  "parse_json_value sd rx input = find_map (parse_candidate sd rx) (json_object_candidates input)"

definition drift_parse_error :: "string \<Rightarrow> string \<Rightarrow> query_error" where
  "drift_parse_error operation message = QueryParse SearchDrift operation message"

definition action_answer :: "'f json option \<Rightarrow> query_error + string option" where
  "action_answer field =
     (case field of
        Some (JString s) \<Rightarrow> Inr (Some s)
      | Some JNull \<Rightarrow> Inr None
      | None \<Rightarrow> Inr None
      | Some _ \<Rightarrow> Inl (drift_parse_error ''parse DRIFT action response'' ''response must be a string or null''))"

text \<open>\<open>dbg\<close> is the debug rendering of a string in a message.\<close>

definition action_score :: "'f serde \<Rightarrow> 'f floats \<Rightarrow> (string \<Rightarrow> string) \<Rightarrow> 'f json option \<Rightarrow> query_error + 'f" where
  "action_score sd fl dbg field =
     (let err = drift_parse_error ''parse DRIFT action score'' in
      case field of
        None \<Rightarrow> Inr (fl_neg_infinity fl)
      | Some JNull \<Rightarrow> Inr (fl_neg_infinity fl)
      | Some (JNumber n) \<Rightarrow>
          ok_or (err ''score must be a finite number'')
            (case json_as_f64 sd (JNumber n) of
               None \<Rightarrow> None | Some f \<Rightarrow> if fl_is_finite fl f then Some f else None)
      | Some (JString s) \<Rightarrow> ok_or (err (''score '' @ dbg s @ '' is not numeric'')) (fl_parse fl s)
      | Some _ \<Rightarrow> Inl (err ''score must be numeric or a numeric string''))"

definition action_follow_ups :: "'f json option \<Rightarrow> query_error + string list" where
  "action_follow_ups field =
     (let err = drift_parse_error ''parse DRIFT action follow-up queries'' in
      case field of
        None \<Rightarrow> Inr []
      | Some JNull \<Rightarrow> Inr []
      | Some (JArray vs) \<Rightarrow>
          try_map (\<lambda>v. ok_or (err ''follow_up_queries must contain only strings'') (json_as_str v)) vs
      | Some _ \<Rightarrow> Inl (err ''follow_up_queries must be an array''))"

definition parse_action ::
  "'f serde \<Rightarrow> regexes \<Rightarrow> 'f floats \<Rightarrow> (string \<Rightarrow> string) \<Rightarrow> string \<Rightarrow> query_error + 'f drift_response" where
  "parse_action sd rx fl dbg input =
     (case parse_json_value sd rx input of
        None \<Rightarrow> Inr (response_fallback fl)
      | Some v \<Rightarrow>
          and_then (ok_or (drift_parse_error ''parse DRIFT action response'' ''DRIFT action response must be a JSON object'')
              (json_as_object v)) (\<lambda>ob.
          and_then (action_answer (map_of ob ''response'')) (\<lambda>answer.
          and_then (action_score sd fl dbg (map_of ob ''score'')) (\<lambda>score.
          and_then (action_follow_ups (map_of ob ''follow_up_queries'')) (\<lambda>follow_ups.
            Inr \<lparr>dr_answer = answer, dr_score = score, dr_follow_up_queries = follow_ups\<rparr>)))))"

record primer_response =
  pr_intermediate_answer :: string
  pr_score :: i64
  pr_follow_up_queries :: "string list"

definition json_as_i64 :: "'f json option \<Rightarrow> i64 option" where
  "json_as_i64 v = (case v of Some (JNumber (NInt i)) \<Rightarrow> if i64_ok i then Some i else None | _ \<Rightarrow> None)"

definition json_as_strings :: "'f json option \<Rightarrow> string list option" where
  "json_as_strings v =
     (case v of
        Some (JArray vs) \<Rightarrow> if list_all (\<lambda>v. json_as_str v \<noteq> None) vs then Some (map (the \<circ> json_as_str) vs) else None
      | _ \<Rightarrow> None)"

text \<open>The derived deserializer needs all three fields at their types; \<open>message\<close> is its error text.\<close>

definition parse_primer ::
  "'f serde \<Rightarrow> regexes \<Rightarrow> ('f json \<Rightarrow> string) \<Rightarrow> string \<Rightarrow> query_error + primer_response" where
  "parse_primer sd rx message input =
     and_then (ok_or (drift_parse_error ''parse DRIFT primer response'' ''response does not contain a valid JSON object'')
         (parse_json_value sd rx input)) (\<lambda>v.
       ok_or (drift_parse_error ''parse DRIFT primer response'' (message v))
         (Option.bind (Option.bind (json_get v ''intermediate_answer'') json_as_str) (\<lambda>answer.
          Option.bind (json_as_i64 (json_get v ''score'')) (\<lambda>score.
          Option.bind (json_as_strings (json_get v ''follow_up_queries'')) (\<lambda>follow_ups.
            Some \<lparr>pr_intermediate_answer = answer, pr_score = score, pr_follow_up_queries = follow_ups\<rparr>)))))"

subsection \<open>The action graph\<close>

record 'f drift_edge =
  de_source :: usize
  de_target :: usize
  de_weight :: 'f

record ('f, 'c) drift_state =
  ds_nodes :: "('f, 'c) drift_action list"
  ds_ids_by_query :: "(string, usize) omap"
  ds_edges :: "'f drift_edge list"

definition state_default :: "('f, 'c) drift_state" where
  "state_default = \<lparr>ds_nodes = [], ds_ids_by_query = [], ds_edges = []\<rparr>"

definition add_or_get :: "'f floats \<Rightarrow> string \<Rightarrow> ('f, 'c) drift_state \<Rightarrow> usize \<times> ('f, 'c) drift_state" where
  "add_or_get fl query st =
     (case map_of (ds_ids_by_query st) query of
        Some i \<Rightarrow> (i, st)
      | None \<Rightarrow>
          let i = length (ds_nodes st) in
          (i, st\<lparr>ds_ids_by_query := om_insert query i (ds_ids_by_query st),
                 ds_nodes := ds_nodes st @ [action_incomplete fl i query]\<rparr>))"

definition add_followup :: "'f floats \<Rightarrow> usize \<Rightarrow> ('f, 'c) drift_state \<Rightarrow> string \<Rightarrow> ('f, 'c) drift_state" where
  "add_followup fl source st followup =
     (case add_or_get fl followup st of
        (target, st) \<Rightarrow>
          st\<lparr>ds_edges := ds_edges st @ [\<lparr>de_source = source, de_target = target, de_weight = fl_one fl\<rparr>]\<rparr>)"

definition set_node :: "usize \<Rightarrow> (('f, 'c) drift_action \<Rightarrow> ('f, 'c) drift_action) \<Rightarrow> ('f, 'c) drift_state
   \<Rightarrow> ('f, 'c) drift_state" where
  "set_node i f st = st\<lparr>ds_nodes := (ds_nodes st)[i := f (ds_nodes st ! i)]\<rparr>"

definition add_root ::
  "'f floats \<Rightarrow> string \<Rightarrow> string \<Rightarrow> 'f \<Rightarrow> string list \<Rightarrow> ('f, 'c) drift_state \<Rightarrow> ('f, 'c) drift_state" where
  "add_root fl query answer score followups st =
     (case add_or_get fl query st of
        (root, st) \<Rightarrow>
          let st = (if root < length (ds_nodes st)
                    then set_node root (\<lambda>a. a\<lparr>da_answer := Some answer, da_score := score\<rparr>) st else st)
          in foldl (add_followup fl root) st followups)"

definition incomplete_ids :: "('f, 'c) drift_state \<Rightarrow> usize list" where
  "incomplete_ids st = map da_id (filter (\<lambda>a. da_answer a = None) (ds_nodes st))"

definition query_of :: "('f, 'c) drift_state \<Rightarrow> usize \<Rightarrow> string option" where
  "query_of st i = (if i < length (ds_nodes st) then Some (da_query (ds_nodes st ! i)) else None)"

definition state_apply ::
  "'f floats \<Rightarrow> usize \<Rightarrow> 'f drift_response \<Rightarrow> 'c drift_metadata \<Rightarrow> ('f, 'c) drift_state
   \<Rightarrow> query_error + ('f, 'c) drift_state" where
  "state_apply fl i response metadata st =
     (if i < length (ds_nodes st) then
        Inr (foldl (add_followup fl i)
          (set_node i (\<lambda>a. a\<lparr>da_answer := dr_answer response, da_score := dr_score response,
                            da_metadata := metadata\<rparr>) st)
          (dr_follow_up_queries response))
      else Inl (QueryContext SearchDrift ''update DRIFT action state''
             (''action id '' @ nat_to_dec i @ '' is absent'')))"

definition reduce_answers :: "('f, 'c) drift_state \<Rightarrow> string list" where
  "reduce_answers st = filter (\<lambda>a. a \<noteq> []) (List.map_filter da_answer (ds_nodes st))"

definition edges_in_graph_order :: "('f, 'c) drift_state \<Rightarrow> 'f drift_edge list" where
  "edges_in_graph_order st = sort_key de_source (ds_edges st)"

subsection \<open>Primer folds\<close>

text \<open>Splitting the reports into folds; \<open>offset\<close> is the start of fold \<open>index\<close>.\<close>

fun split_from :: "'a list \<Rightarrow> usize \<Rightarrow> usize \<Rightarrow> usize \<Rightarrow> usize list \<Rightarrow> 'a list list" where
  "split_from items base remainder offset [] = []"
| "split_from items base remainder offset (index # is) =
     (let len = base + (if index < remainder then 1 else 0); stop = usize_sat_add offset len;
          fold_items = (if offset \<le> stop \<and> stop \<le> length items then take (stop - offset) (drop offset items) else [])
      in fold_items # split_from items base remainder stop is)"

definition array_split :: "'a list \<Rightarrow> usize \<Rightarrow> 'a list list" where
  "array_split items folds =
     (let folds = max folds 1
      in split_from items (length items div folds) (length items mod folds) 0 [0..<folds])"

lemma split_from_concat:
  assumes "length items \<le> usize_max" "m \<le> n"
    and "offset = m * b + min m r" "offset + (n - m) * b + (min n r - min m r) \<le> length items"
  shows "concat (split_from items b r offset [m..<n]) = take ((n - m) * b + (min n r - min m r)) (drop offset items)"
  using assms(2-)
proof (induction "n - m" arbitrary: m offset)
  case 0
  then show ?case by simp
next
  case (Suc k)
  then have m: "m < n" by simp
  define len where "len = b + (if m < r then 1 else 0)"
  have nm: "n - m = Suc (n - Suc m)" using m by simp
  have total: "(n - m) * b + (min n r - min m r) = len + ((n - Suc m) * b + (min n r - min (Suc m) r))"
    using m by (cases "m < r") (auto simp: len_def nm min_def)
  then have le: "offset + len + (n - Suc m) * b + (min n r - min (Suc m) r) \<le> length items"
    using Suc.prems(3) by simp
  then have stop: "usize_sat_add offset len = offset + len" using assms(1) by (simp add: usize_sat_add_def)
  have off: "offset + len = Suc m * b + min (Suc m) r"
    using Suc.prems(2) by (simp add: len_def min_def)
  have ih: "concat (split_from items b r (offset + len) [Suc m..<n]) =
      take ((n - Suc m) * b + (min n r - min (Suc m) r)) (drop (offset + len) items)"
    using Suc.hyps(2) m by (intro Suc.hyps(1) off le) simp_all
  have "concat (split_from items b r offset [m..<n]) =
      take len (drop offset items) @ take ((n - Suc m) * b + (min n r - min (Suc m) r)) (drop len (drop offset items))"
    using m le ih by (simp add: upt_conv_Cons Let_def stop len_def [symmetric] add.commute del: upt_Suc)
  then show ?case unfolding total by (simp only: take_add)
qed

lemma split_from_lengths:
  "\<forall>f \<in> set (split_from items b r offset is). length f \<le> b + 1"
  by (induction "is" arbitrary: offset) (auto simp: Let_def usize_sat_add_def)

text \<open>The folds of the primer, aggregated.\<close>

record 'f primer_aggregate =
  pa_answer :: string
  pa_score :: 'f
  pa_followups :: "string list"
  pa_usage :: usage

subsection \<open>The state is a well-formed graph\<close>

definition drift_wf :: "('f, 'c) drift_state \<Rightarrow> bool" where
  "drift_wf st \<longleftrightarrow>
     (\<forall>i < length (ds_nodes st). da_id (ds_nodes st ! i) = i)
     \<and> om_ok (ds_ids_by_query st)
     \<and> (\<forall>q i. map_of (ds_ids_by_query st) q = Some i \<longleftrightarrow> query_of st i = Some q)
     \<and> (\<forall>e \<in> set (ds_edges st). de_source e < length (ds_nodes st) \<and> de_target e < length (ds_nodes st))"

text \<open>What a later state keeps of an earlier one: the nodes' queries, and the edges as a prefix.\<close>

definition extends :: "('f, 'c) drift_state \<Rightarrow> ('f, 'c) drift_state \<Rightarrow> bool" where
  "extends st st' \<longleftrightarrow>
     (\<exists>qs. map da_query (ds_nodes st') = map da_query (ds_nodes st) @ qs)
     \<and> (\<exists>es. ds_edges st' = ds_edges st @ es)"

lemma extends_refl: "extends st st"
  by (simp add: extends_def)

lemma extends_trans: "extends a b \<Longrightarrow> extends b c \<Longrightarrow> extends a c"
  by (auto simp: extends_def)

lemma extends_length: "extends st st' \<Longrightarrow> length (ds_nodes st) \<le> length (ds_nodes st')"
  unfolding extends_def by (metis le_add1 length_append length_map)

lemma extends_query: "extends st st' \<Longrightarrow> query_of st i = Some q \<Longrightarrow> query_of st' i = Some q"
proof -
  assume ext: "extends st st'" and q: "query_of st i = Some q"
  then obtain qs where "map da_query (ds_nodes st') = map da_query (ds_nodes st) @ qs"
    by (auto simp: extends_def)
  moreover from q have i: "i < length (ds_nodes st)" "da_query (ds_nodes st ! i) = q"
    by (auto simp: query_of_def split: if_splits)
  ultimately have "map da_query (ds_nodes st') ! i = q" by (simp add: nth_append)
  with i(1) extends_length [OF ext] show ?thesis by (simp add: query_of_def)
qed

lemma add_or_get_wf:
  assumes "drift_wf st" "add_or_get fl q st = (i, st')"
  shows "drift_wf st'" "extends st st'" "query_of st' i = Some q" "i < length (ds_nodes st')"
    "ds_edges st' = ds_edges st"
proof -
  from assms(1) have ids: "\<forall>i < length (ds_nodes st). da_id (ds_nodes st ! i) = i" and ok: "om_ok (ds_ids_by_query st)"
    and inv: "\<And>q i. map_of (ds_ids_by_query st) q = Some i \<longleftrightarrow> query_of st i = Some q"
    and edges: "\<forall>e \<in> set (ds_edges st). de_source e < length (ds_nodes st) \<and> de_target e < length (ds_nodes st)"
    unfolding drift_wf_def by blast+
  have "drift_wf st' \<and> extends st st' \<and> query_of st' i = Some q \<and> i < length (ds_nodes st') \<and> ds_edges st' = ds_edges st"
  proof (cases "map_of (ds_ids_by_query st) q")
    case (Some j)
    with assms have "st' = st" "i = j" by (simp_all add: add_or_get_def)
    with Some inv assms(1) show ?thesis
      by (auto simp: extends_refl query_of_def split: if_splits)
  next
    case None
    with assms(2) have st': "st' = st\<lparr>ds_ids_by_query := om_insert q i (ds_ids_by_query st),
          ds_nodes := ds_nodes st @ [action_incomplete fl i q]\<rparr>" and i: "i = length (ds_nodes st)"
      by (auto simp: add_or_get_def Let_def)
    have query: "query_of st' j = (if j = i then Some q else query_of st j)" for j
      by (auto simp: st' i query_of_def nth_append action_incomplete_def)
    have "query_of st j \<noteq> Some q" for j using inv [of q] None by (metis option.distinct(1))
    moreover have "query_of st i = None" by (simp add: query_of_def i)
    ultimately have "(map_of (om_insert q i (ds_ids_by_query st))) q' = Some j \<longleftrightarrow> query_of st' j = Some q'" for q' j
      using ok inv [of q' j] by (auto simp: query)
    moreover have "\<forall>j < length (ds_nodes st'). da_id (ds_nodes st' ! j) = j"
      using ids by (auto simp: st' i nth_append action_incomplete_def less_Suc_eq)
    ultimately have "drift_wf st'"
      using ok edges unfolding drift_wf_def by (fastforce simp: st')
    moreover have "extends st st'" by (simp add: extends_def st')
    ultimately show ?thesis using query [of i] by (simp add: st' i)
  qed
  then show "drift_wf st'" "extends st st'" "query_of st' i = Some q" "i < length (ds_nodes st')"
    "ds_edges st' = ds_edges st" by blast+
qed

lemma add_followup_wf:
  assumes "drift_wf st" "source < length (ds_nodes st)"
  shows "drift_wf (add_followup fl source st q) \<and> extends st (add_followup fl source st q)"
proof -
  obtain i st' where get: "add_or_get fl q st = (i, st')" by fastforce
  note wf = add_or_get_wf [OF assms(1) get]
  have "source < length (ds_nodes st')" using assms(2) extends_length [OF wf(2)] by simp
  then show ?thesis using wf by (auto simp: add_followup_def get drift_wf_def extends_def query_of_def)
qed

lemma add_followups_wf:
  "drift_wf st \<Longrightarrow> source < length (ds_nodes st) \<Longrightarrow>
   drift_wf (foldl (add_followup fl source) st qs) \<and> extends st (foldl (add_followup fl source) st qs)"
proof (induction qs arbitrary: st)
  case (Cons q qs)
  let ?st = "add_followup fl source st q"
  have wf: "drift_wf ?st" "extends st ?st" using add_followup_wf [OF Cons.prems] by simp_all
  then have "source < length (ds_nodes ?st)" using Cons.prems(2) extends_length by fastforce
  with Cons.IH [OF wf(1)] wf(2) show ?case by (auto intro: extends_trans)
qed (simp add: extends_refl)

lemma set_node_wf:
  assumes "drift_wf st" "\<And>a. da_id (f a) = da_id a" "\<And>a. da_query (f a) = da_query a"
  shows "drift_wf (set_node i f st)" "extends st (set_node i f st)" "length (ds_nodes (set_node i f st)) = length (ds_nodes st)"
proof -
  have query: "query_of (set_node i f st) j = query_of st j" for j
    using assms(3) by (cases "i = j") (auto simp: query_of_def set_node_def)
  have ids: "da_id ((ds_nodes st)[i := f (ds_nodes st ! i)] ! j) = da_id (ds_nodes st ! j)"
    if "j < length (ds_nodes st)" for j
    using assms(2) that by (cases "i = j") auto
  show "drift_wf (set_node i f st)"
    using assms(1) unfolding drift_wf_def query by (simp add: set_node_def ids)
  have "map da_query ((ds_nodes st)[i := f (ds_nodes st ! i)]) = map da_query (ds_nodes st)"
    using assms(3) by (simp add: map_update list_update_same_conv) (metis list_update_id map_update list_update_beyond not_less)
  then show "extends st (set_node i f st)" by (simp add: extends_def set_node_def)
qed (simp add: set_node_def)

lemma add_root_wf: "drift_wf st \<Longrightarrow> drift_wf (add_root fl q answer score fs st) \<and> extends st (add_root fl q answer score fs st)"
proof -
  assume st: "drift_wf st"
  obtain i st' where get: "add_or_get fl q st = (i, st')" by fastforce
  note wf = add_or_get_wf [OF st get]
  let ?st = "set_node i (\<lambda>a. a\<lparr>da_answer := Some answer, da_score := score\<rparr>) st'"
  have node: "drift_wf ?st" "extends st' ?st" "length (ds_nodes ?st) = length (ds_nodes st')"
    by (rule set_node_wf [OF wf(1)]; simp)+
  have "drift_wf (foldl (add_followup fl i) ?st fs) \<and> extends ?st (foldl (add_followup fl i) ?st fs)"
    using wf(4) node by (intro add_followups_wf) simp_all
  with wf(2,4) node(2) show ?thesis
    by (auto simp: add_root_def get intro: extends_trans)
qed

lemma state_apply_wf:
  assumes "drift_wf st"
  shows "i < length (ds_nodes st) \<Longrightarrow> \<exists>st'. state_apply fl i response metadata st = Inr st' \<and> drift_wf st' \<and> extends st st'"
    and "state_apply fl i response metadata st = Inr st' \<Longrightarrow> i < length (ds_nodes st)"
proof -
  let ?st = "set_node i (\<lambda>a. a\<lparr>da_answer := dr_answer response, da_score := dr_score response,
                            da_metadata := metadata\<rparr>) st"
  have node: "drift_wf ?st" "extends st ?st" "length (ds_nodes ?st) = length (ds_nodes st)"
    by (rule set_node_wf [OF assms]; simp)+
  assume i: "i < length (ds_nodes st)"
  with node have "drift_wf (foldl (add_followup fl i) ?st (dr_follow_up_queries response))
      \<and> extends ?st (foldl (add_followup fl i) ?st (dr_follow_up_queries response))"
    by (intro add_followups_wf) simp_all
  with i node(2) show "\<exists>st'. state_apply fl i response metadata st = Inr st' \<and> drift_wf st' \<and> extends st st'"
    by (auto simp: state_apply_def intro: extends_trans)
qed (auto simp: state_apply_def split: if_splits)

lemma drift_wf_default: "drift_wf state_default"
  by (simp add: drift_wf_def state_default_def query_of_def)

text \<open>A node's identifier is its position, no query has two nodes, the index finds exactly the nodes, and every edge
  joins existing nodes.\<close>

lemma drift_wf_graph:
  assumes wf: "drift_wf st"
  shows "map da_id (ds_nodes st) = [0..<length (ds_nodes st)]"
    and "distinct (map da_query (ds_nodes st))"
    and "map_of (ds_ids_by_query st) q = Some i \<longleftrightarrow> query_of st i = Some q"
    and "e \<in> set (ds_edges st) \<Longrightarrow> query_of st (de_source e) \<noteq> None \<and> query_of st (de_target e) \<noteq> None"
proof -
  have inv: "map_of (ds_ids_by_query st) q = Some i \<longleftrightarrow> query_of st i = Some q" for q i
    using wf by (simp add: drift_wf_def)
  then show "map_of (ds_ids_by_query st) q = Some i \<longleftrightarrow> query_of st i = Some q" .
  show "map da_id (ds_nodes st) = [0..<length (ds_nodes st)]"
    using wf by (auto simp: drift_wf_def intro: nth_equalityI)
  show "distinct (map da_query (ds_nodes st))"
  proof -
    have "i = j" if "i < length (ds_nodes st)" "j < length (ds_nodes st)"
      "da_query (ds_nodes st ! i) = da_query (ds_nodes st ! j)" for i j
    proof -
      have "query_of st i = Some (da_query (ds_nodes st ! i))" "query_of st j = Some (da_query (ds_nodes st ! i))"
        using that by (simp_all add: query_of_def)
      then show ?thesis using inv by (metis option.inject)
    qed
    then show ?thesis by (auto simp: distinct_conv_nth)
  qed
  show "e \<in> set (ds_edges st) \<Longrightarrow> query_of st (de_source e) \<noteq> None \<and> query_of st (de_target e) \<noteq> None"
    using wf by (simp add: drift_wf_def query_of_def)
qed

definition sample_floats :: "int floats" where
  "sample_floats = \<lparr>fl_neg_infinity = -1, fl_is_finite = (\<lambda>_. True), fl_parse = (\<lambda>_. None), fl_one = 1\<rparr>"

end
