(* ===== verification/Context_Table.thy ===== *)
theory Context_Table
  imports Query_Types
begin

text \<open>
  Context tables (\<open>query/context/csv.rs\<close>), the records of a query's context (\<open>query/result.rs\<close>) and the
  entities of \<open>query/data_model.rs\<close>.

  Parameters: \<open>csv\<close> writes a sequence of records with the \<open>|\<close>-delimited writer of the CSV library (its
  bytes as a string), and the record \<open>frames\<close> builds frames of the data frame library from named
  string columns.
\<close>

record query_entity =
  en_id :: string
  en_short_id :: "string option"
  en_title :: string
  en_entity_type :: "string option"
  en_description :: "string option"
  en_community_ids :: "string list"
  en_text_unit_ids :: "string list"
  en_rank :: "i64 option"

datatype context_text =
    TextEmpty | Text string | TextBatches "string list" | TextNamed "(string, string) omap"
  | TextComposite "(string, context_text) omap"

datatype 'd context_records =
    RecordsEmpty | RecordTables "(string, 'd) omap" | RecordBatches "'d list"
  | RecordsNamed "(string, 'd context_records) omap"

record 'd query_context =
  qc_text :: context_text
  qc_records :: "'d context_records"

record context_table =
  ct_columns :: "string list"
  ct_rows :: "string list list"

type_synonym csv_writer = "string list list \<Rightarrow> string + string"

record 'd frames =
  fr_empty :: 'd
  fr_new :: "usize \<Rightarrow> (string \<times> string list) list \<Rightarrow> string + 'd"

definition context_table_new :: "string list \<Rightarrow> string list list \<Rightarrow> context_table" where
  "context_table_new columns rows = \<lparr>ct_columns = columns, ct_rows = rows\<rparr>"

definition context_table_push :: "string list \<Rightarrow> context_table \<Rightarrow> context_table" where
  "context_table_push row t = t\<lparr>ct_rows := ct_rows t @ [row]\<rparr>"

definition context_table_is_empty :: "context_table \<Rightarrow> bool" where
  "context_table_is_empty t \<longleftrightarrow> ct_rows t = []"

definition context_table_len :: "context_table \<Rightarrow> usize" where
  "context_table_len t = length (ct_rows t)"

definition row_width_error :: "search_method \<Rightarrow> string \<Rightarrow> string list \<Rightarrow> context_table \<Rightarrow> query_error" where
  "row_width_error method operation row t =
     QueryContext method operation
       (''context row has '' @ nat_to_dec (length row) @ '' fields but '' @ nat_to_dec (length (ct_columns t))
         @ '' columns were declared'')"

definition validate_row :: "search_method \<Rightarrow> string \<Rightarrow> context_table \<Rightarrow> string list \<Rightarrow> query_error + unit" where
  "validate_row method operation t row =
     (if length row = length (ct_columns t) then Inr () else Inl (row_width_error method operation row t))"

definition validate_rows :: "search_method \<Rightarrow> string \<Rightarrow> context_table \<Rightarrow> query_error + unit" where
  "validate_rows method operation t =
     and_then (try_map (validate_row method operation t) (ct_rows t)) (\<lambda>_. Inr ())"

definition delimited_record :: "string list \<Rightarrow> string" where
  "delimited_record cells = join_with ''|'' cells @ [CHR 0x0A]"

definition render_csv :: "csv_writer \<Rightarrow> search_method \<Rightarrow> string \<Rightarrow> context_table \<Rightarrow> query_error + string" where
  "render_csv csv method operation t =
     and_then (validate_rows method operation t) (\<lambda>_.
       map_err (QueryContext method operation) (csv (ct_columns t # ct_rows t)))"

definition section_title :: "string \<Rightarrow> string" where
  "section_title context_name = ''-----'' @ context_name @ ''-----'' @ [CHR 0x0A]"

definition render_csv_section ::
  "csv_writer \<Rightarrow> string \<Rightarrow> search_method \<Rightarrow> string \<Rightarrow> context_table \<Rightarrow> query_error + string" where
  "render_csv_section csv context_name method operation t =
     and_then (render_csv csv method operation t) (\<lambda>body. Inr (section_title context_name @ body))"

definition render_delimited :: "search_method \<Rightarrow> string \<Rightarrow> context_table \<Rightarrow> query_error + string" where
  "render_delimited method operation t =
     and_then (validate_rows method operation t) (\<lambda>_.
       Inr (foldl (\<lambda>rendered row. rendered @ delimited_record row) (delimited_record (ct_columns t)) (ct_rows t)))"

definition render_delimited_section :: "string \<Rightarrow> search_method \<Rightarrow> string \<Rightarrow> context_table \<Rightarrow> query_error + string" where
  "render_delimited_section context_name method operation t =
     and_then (render_delimited method operation t) (\<lambda>body. Inr (section_title context_name @ body))"

definition render_delimited_header :: "string \<Rightarrow> search_method \<Rightarrow> string \<Rightarrow> context_table \<Rightarrow> query_error + string" where
  "render_delimited_header context_name method operation t =
     and_then (validate_rows method operation t) (\<lambda>_.
       Inr (section_title context_name @ delimited_record (ct_columns t)))"

definition render_delimited_row :: "search_method \<Rightarrow> string \<Rightarrow> context_table \<Rightarrow> string list \<Rightarrow> query_error + string" where
  "render_delimited_row method operation t row =
     and_then (validate_row method operation t row) (\<lambda>_. Inr (delimited_record row))"

definition table_column ::
  "search_method \<Rightarrow> string \<Rightarrow> context_table \<Rightarrow> usize \<times> string \<Rightarrow> query_error + string \<times> string list" where
  "table_column method operation t ic =
     (case ic of (index, name) \<Rightarrow>
        and_then (try_map (\<lambda>row. if index < length row then Inr (row ! index)
                                 else Inl (row_width_error method operation row t)) (ct_rows t)) (\<lambda>values.
          Inr (name, values)))"

definition to_dataframe :: "'d frames \<Rightarrow> search_method \<Rightarrow> string \<Rightarrow> context_table \<Rightarrow> query_error + 'd" where
  "to_dataframe fr method operation t =
     and_then (validate_rows method operation t) (\<lambda>_.
       if ct_rows t = [] then Inr (fr_empty fr)
       else and_then (try_map (table_column method operation t) (enumerate_from 0 (ct_columns t))) (\<lambda>columns.
         map_err (QueryContext method operation) (fr_new fr (length (ct_rows t)) columns)))"

subsection \<open>Rows and columns\<close>

lemma validate_rows_Inr: "validate_rows m op t = Inr u \<longleftrightarrow> (\<forall>row \<in> set (ct_rows t). length row = length (ct_columns t))"
proof -
  have "is_ok (try_map (validate_row m op t) (ct_rows t)) \<longleftrightarrow> (\<forall>row \<in> set (ct_rows t). length row = length (ct_columns t))"
    by (simp add: is_ok_try_map validate_row_def)
  then show ?thesis by (auto simp: validate_rows_def and_then_Inr_iff is_ok_iff)
qed

lemma delimited_fold: "foldl (\<lambda>r row. r @ f row) a rows = a @ concat (map f rows)"
  by (induction rows arbitrary: a) simp_all

text \<open>The incremental rendering, header then rows one by one, is the section rendered at once.\<close>

lemma render_delimited_incremental:
  assumes "\<forall>row \<in> set rows. length row = length columns"
  shows "render_delimited_section name m op (context_table_new columns rows) =
    and_then (render_delimited_header name m op (context_table_new columns [])) (\<lambda>header.
    and_then (try_map (render_delimited_row m op (context_table_new columns [])) rows) (\<lambda>parts.
      Inr (header @ concat parts)))"
proof -
  let ?t = "context_table_new columns rows" and ?h = "context_table_new columns []"
  have "try_map (render_delimited_row m op ?h) rows = Inr (map delimited_record rows)"
    by (rule try_map_total) (use assms in \<open>simp add: render_delimited_row_def validate_row_def context_table_new_def\<close>)
  moreover have "validate_rows m op ?t = Inr ()" "validate_rows m op ?h = Inr ()"
    using assms by (simp_all add: validate_rows_Inr context_table_new_def)
  ultimately show ?thesis
    by (simp add: render_delimited_section_def render_delimited_def render_delimited_header_def delimited_fold)
      (simp add: context_table_new_def)
qed

text \<open>The columns given to the data frame library are those of the table, each as long as the table.\<close>

lemma table_columns:
  assumes "\<forall>row \<in> set (ct_rows t). length row = length (ct_columns t)"
  shows "try_map (table_column m op t) (enumerate_from 0 (ct_columns t)) =
     Inr (map (\<lambda>(i, name). (name, map (\<lambda>row. row ! i) (ct_rows t))) (enumerate_from 0 (ct_columns t)))"
proof (rule try_map_total)
  fix ic assume ic: "ic \<in> set (enumerate_from 0 (ct_columns t))"
  obtain i name where [simp]: "ic = (i, name)" by fastforce
  have "i < length (ct_columns t)" using ic by (auto simp: enumerate_from_conv dest: set_zip_leftD)
  then have "try_map (\<lambda>row. if i < length row then Inr (row ! i) else Inl (row_width_error m op row t)) (ct_rows t) =
      Inr (map (\<lambda>row. row ! i) (ct_rows t))"
    by (intro try_map_total) (use assms in simp)
  then show "table_column m op t ic = Inr (case ic of (i, name) \<Rightarrow> (name, map (\<lambda>row. row ! i) (ct_rows t)))"
    by (simp add: table_column_def)
qed

text \<open>Tables and frames: a table whose rows all have its width becomes the frame of its columns, each with one
  value per row, and renders as a section equal to its header followed by its rows rendered one
  by one; a table with another row is refused by every rendering.\<close>

theorem context_table_renderings:
  "(if list_all (\<lambda>row. length row = length columns) rows then
      to_dataframe fr m op (context_table_new columns rows) =
        (if rows = [] then Inr (fr_empty fr)
         else map_err (QueryContext m op) (fr_new fr (length rows)
                (map (\<lambda>(i, name). (name, map (\<lambda>row. row ! i) rows)) (enumerate_from 0 columns))))
      \<and> render_delimited_section name m op (context_table_new columns rows) =
          and_then (render_delimited_header name m op (context_table_new columns [])) (\<lambda>header.
          and_then (try_map (render_delimited_row m op (context_table_new columns [])) rows) (\<lambda>parts.
            Inr (header @ concat parts)))
    else (\<exists>e. to_dataframe fr m op (context_table_new columns rows) = Inl e)
      \<and> (\<exists>e. render_csv csv m op (context_table_new columns rows) = Inl e)
      \<and> (\<exists>e. render_delimited_section name m op (context_table_new columns rows) = Inl e))"
proof (cases "list_all (\<lambda>row. length row = length columns) rows")
  case True
  let ?t = "context_table_new columns rows"
  have wide: "\<forall>row \<in> set (ct_rows ?t). length row = length (ct_columns ?t)"
    using True by (simp add: context_table_new_def list_all_iff)
  then have "validate_rows m op ?t = Inr ()" by (simp add: validate_rows_Inr)
  then show ?thesis
    using True table_columns [OF wide, of m op] render_delimited_incremental [OF True [unfolded list_all_iff], of name m op]
    by (simp add: to_dataframe_def) (simp add: context_table_new_def)
next
  case False
  let ?t = "context_table_new columns rows"
  obtain e where e: "validate_rows m op ?t = Inl e"
  proof (cases "validate_rows m op ?t")
    case (Inr u)
    then show ?thesis using False by (simp add: validate_rows_Inr context_table_new_def list_all_iff)
  qed
  show ?thesis unfolding if_not_P [OF False]
    by (simp add: to_dataframe_def render_csv_def render_delimited_section_def render_delimited_def e)
qed

lemma is_ok_to_dataframe:
  assumes "\<forall>row \<in> set rows. length row = length columns" "\<And>n cols. is_ok (fr_new fr n cols)"
  shows "is_ok (to_dataframe fr m op (context_table_new columns rows))"
proof -
  have wide: "\<forall>row \<in> set (ct_rows (context_table_new columns rows)). length row = length (ct_columns (context_table_new columns rows))"
    using assms(1) by (simp add: context_table_new_def)
  then have "validate_rows m op (context_table_new columns rows) = Inr ()" by (simp only: validate_rows_Inr)
  then show ?thesis by (simp add: to_dataframe_def table_columns [OF wide] is_ok_map_err assms(2))
qed

end
