(* ===== verification/Query_Index.thy ===== *)
theory Query_Index
  imports Context_Table
begin

text \<open>
  The lookup index over the query data (\<open>query/data_index.rs\<close>) and the records it points into
  (\<open>query/data_model.rs\<close>). Positions index the data lists; a hash map is a partial map, a set of
  positions a set.
\<close>

record 'f query_relationship =
  rl_id :: string
  rl_short_id :: "string option"
  rl_source :: string
  rl_target :: string
  rl_description :: "string option"
  rl_weight :: "'f option"
  rl_rank :: "i64 option"
  rl_text_unit_ids :: "string list"

record text_unit =
  tu_id :: string
  tu_short_id :: string
  tu_text :: string
  tu_entity_ids :: "string list"
  tu_relationship_ids :: "string list"
  tu_covariate_ids :: "string list"
  tu_n_tokens :: "i64 option"
  tu_document_id :: "string option"

record query_covariate =
  qv_id :: string
  qv_short_id :: "string option"
  qv_subject_id :: string
  qv_covariate_type :: string
  qv_object_id :: "string option"
  qv_status :: "string option"
  qv_start_date :: "string option"
  qv_end_date :: "string option"
  qv_description :: "string option"

record query_index =
  qi_entity_by_id :: "string \<rightharpoonup> usize"
  qi_entity_by_title :: "string \<rightharpoonup> usize list"
  qi_report_by_community_id :: "string \<rightharpoonup> usize"
  qi_text_unit_by_id :: "string \<rightharpoonup> usize"
  qi_relationships_by_entity :: "string \<rightharpoonup> usize list"
  qi_covariates_by_subject :: "string \<rightharpoonup> usize list"
  qi_covariate_groups :: "(string \<times> usize set) list"

text \<open>\<open>map.insert(key, index)\<close> for each element: the last one wins.\<close>

definition index_last :: "('a \<Rightarrow> string) \<Rightarrow> 'a list \<Rightarrow> string \<rightharpoonup> usize" where
  "index_last key xs = collect_map (map (\<lambda>(i, x). (key x, i)) (enumerate_from 0 xs))"

text \<open>\<open>map.entry(key).or_default().push(index)\<close> for each key of each element.\<close>

definition push_position :: "usize \<Rightarrow> (string \<rightharpoonup> usize list) \<Rightarrow> string \<Rightarrow> string \<rightharpoonup> usize list" where
  "push_position i m k = m(k \<mapsto> (case m k of None \<Rightarrow> [] | Some l \<Rightarrow> l) @ [i])"

definition index_positions :: "('a \<Rightarrow> string list) \<Rightarrow> 'a list \<Rightarrow> string \<rightharpoonup> usize list" where
  "index_positions keys xs = foldl (\<lambda>m (i, x). foldl (push_position i) m (keys x)) Map.empty (enumerate_from 0 xs)"

definition relationship_keys :: "'f query_relationship \<Rightarrow> string list" where
  "relationship_keys r = (if rl_target r \<noteq> rl_source r then [rl_source r, rl_target r] else [rl_source r])"

fun insert_group :: "usize \<Rightarrow> string \<Rightarrow> (string \<times> usize set) list \<Rightarrow> (string \<times> usize set) list" where
  "insert_group i name [] = [(name, {i})]"
| "insert_group i name ((n, positions) # groups) =
     (if n = name then (n, insert i positions) # groups else (n, positions) # insert_group i name groups)"

definition covariate_groups :: "query_covariate list \<Rightarrow> (string \<times> usize set) list" where
  "covariate_groups covariates =
     foldl (\<lambda>groups (i, c). insert_group i (qv_covariate_type c) groups) [] (enumerate_from 0 covariates)"

definition query_index_new ::
  "query_entity list \<Rightarrow> 'f community_report list \<Rightarrow> text_unit list \<Rightarrow> 'f query_relationship list
   \<Rightarrow> query_covariate list \<Rightarrow> query_index" where
  "query_index_new entities reports text_units relationships covariates =
     \<lparr>qi_entity_by_id = index_last en_id entities,
      qi_entity_by_title = index_positions (\<lambda>e. [en_title e]) entities,
      qi_report_by_community_id = index_last rp_community_id reports,
      qi_text_unit_by_id = index_last tu_id text_units,
      qi_relationships_by_entity = index_positions relationship_keys relationships,
      qi_covariates_by_subject = index_positions (\<lambda>c. [qv_subject_id c]) covariates,
      qi_covariate_groups = covariate_groups covariates\<rparr>"

definition query_index_single_group ::
  "query_entity list \<Rightarrow> 'f community_report list \<Rightarrow> text_unit list \<Rightarrow> 'f query_relationship list
   \<Rightarrow> query_covariate list \<Rightarrow> string \<Rightarrow> query_index" where
  "query_index_single_group entities reports text_units relationships covariates group_name =
     (query_index_new entities reports text_units relationships covariates)
       \<lparr>qi_covariate_groups := [(group_name, {0..<length covariates})]\<rparr>"

subsection \<open>The index is exact\<close>

lemma enumerate_from_snoc: "enumerate_from 0 (xs @ [x]) = enumerate_from 0 xs @ [(length xs, x)]"
  by (simp add: enumerate_from_conv)

definition positions_of :: "('a \<Rightarrow> bool) \<Rightarrow> 'a list \<Rightarrow> usize list" where
  "positions_of P xs = filter (\<lambda>i. P (xs ! i)) [0..<length xs]"

lemma positions_of_snoc: "positions_of P (xs @ [x]) = positions_of P xs @ (if P x then [length xs] else [])"
proof -
  have "filter (\<lambda>i. P ((xs @ [x]) ! i)) [0..<length xs] = filter (\<lambda>i. P (xs ! i)) [0..<length xs]"
    by (intro filter_cong) (auto simp: nth_append)
  then show ?thesis by (simp add: positions_of_def)
qed

lemma positions_of_Nil [simp]: "positions_of P [] = []"
  by (simp add: positions_of_def)

lemma set_positions_of: "set (positions_of P xs) = {i. i < length xs \<and> P (xs ! i)}"
  by (auto simp: positions_of_def)

definition nonempty :: "'a list \<Rightarrow> 'a list option" where
  "nonempty xs = (if xs = [] then None else Some xs)"

lemma push_positions_at:
  "distinct ks \<Longrightarrow> foldl (push_position i) m ks k =
     (if k \<in> set ks then Some ((case m k of None \<Rightarrow> [] | Some l \<Rightarrow> l) @ [i]) else m k)"
  by (induction ks arbitrary: m) (auto simp: push_position_def)

lemma index_positions_at:
  assumes "\<And>x. distinct (keys x)"
  shows "index_positions keys xs k = nonempty (positions_of (\<lambda>x. k \<in> set (keys x)) xs)"
proof (induction xs rule: rev_induct)
  case (snoc x xs)
  have "index_positions keys (xs @ [x]) k = foldl (push_position (length xs)) (index_positions keys xs) (keys x) k"
    by (simp add: index_positions_def enumerate_from_snoc)
  with snoc show ?case
    by (simp add: push_positions_at [OF assms] positions_of_snoc nonempty_def split: if_splits)
qed (simp add: index_positions_def nonempty_def)

lemma index_last_at:
  "index_last key xs k = map_option last (nonempty (positions_of (\<lambda>x. key x = k) xs))"
proof (induction xs rule: rev_induct)
  case (snoc x xs)
  have "index_last key (xs @ [x]) = (index_last key xs)(key x \<mapsto> length xs)"
    by (simp add: index_last_def enumerate_from_snoc collect_map_snoc)
  with snoc show ?case by (simp add: positions_of_snoc nonempty_def)
qed (simp add: index_last_def collect_map_def nonempty_def)

lemma insert_group_names: "map fst (insert_group i name groups) =
    map fst groups @ (if name \<in> fst ` set groups then [] else [name])"
  by (induction i name groups rule: insert_group.induct) auto

lemma insert_group_positions:
  "map_of (insert_group i name groups) n =
     (if n = name then Some (insert i (case map_of groups n of None \<Rightarrow> {} | Some ps \<Rightarrow> ps)) else map_of groups n)"
  by (induction i name groups rule: insert_group.induct) auto

lemma covariate_groups_spec:
  "distinct (map fst (covariate_groups cs)) \<and> fst ` set (covariate_groups cs) = qv_covariate_type ` set cs
   \<and> (\<forall>n \<in> qv_covariate_type ` set cs.
        map_of (covariate_groups cs) n = Some (set (positions_of (\<lambda>c. qv_covariate_type c = n) cs)))"
proof (induction cs rule: rev_induct)
  case (snoc c cs)
  let ?t = "qv_covariate_type c" and ?g = "covariate_groups cs"
  have step: "covariate_groups (cs @ [c]) = insert_group (length cs) ?t ?g"
    by (simp add: covariate_groups_def enumerate_from_snoc)
  have names: "fst ` set (insert_group (length cs) ?t ?g) = insert ?t (fst ` set ?g)"
    using arg_cong [OF insert_group_names [of "length cs" ?t ?g], of set] by (auto split: if_splits)
  have absent: "map_of ?g ?t = None \<and> positions_of (\<lambda>x. qv_covariate_type x = ?t) cs = []" if "?t \<notin> qv_covariate_type ` set cs"
  proof
    show "map_of ?g ?t = None" using that snoc by (simp add: map_of_eq_None_iff)
    show "positions_of (\<lambda>x. qv_covariate_type x = ?t) cs = []"
      using that by (auto simp: positions_of_def filter_empty_conv) (metis imageI nth_mem)
  qed
  have "map_of (insert_group (length cs) ?t ?g) n = Some (set (positions_of (\<lambda>x. qv_covariate_type x = n) (cs @ [c])))"
    if "n \<in> qv_covariate_type ` set (cs @ [c])" for n
  proof (cases "n = ?t")
    case True
    have "map_of ?g ?t = Some (set (positions_of (\<lambda>x. qv_covariate_type x = ?t) cs))"
      if "?t \<in> qv_covariate_type ` set cs" using snoc that by blast
    then show ?thesis using True absent
      by (cases "?t \<in> qv_covariate_type ` set cs") (simp_all add: insert_group_positions positions_of_snoc)
  next
    case False
    then show ?thesis using snoc that by (auto simp: insert_group_positions positions_of_snoc)
  qed
  then show ?case using snoc unfolding step names by (simp add: insert_group_names)
qed (simp add: covariate_groups_def)

text \<open>The query index: an identifier leads to its last record, a title to all entities with it, an entity
  title to all relationships at either end and all covariates about it, in order and each once,
  and the covariate groups, one per type, hold exactly the positions of their type.\<close>

theorem query_index_exact:
  "let idx = query_index_new entities reports text_units relationships covariates in
    qi_entity_by_title idx k = nonempty (positions_of (\<lambda>e. en_title e = k) entities)
    \<and> qi_relationships_by_entity idx k = nonempty (positions_of (\<lambda>r. rl_source r = k \<or> rl_target r = k) relationships)
    \<and> qi_covariates_by_subject idx k = nonempty (positions_of (\<lambda>c. qv_subject_id c = k) covariates)
    \<and> qi_entity_by_id idx k = map_option last (nonempty (positions_of (\<lambda>e. en_id e = k) entities))
    \<and> qi_report_by_community_id idx k = map_option last (nonempty (positions_of (\<lambda>r. rp_community_id r = k) reports))
    \<and> qi_text_unit_by_id idx k = map_option last (nonempty (positions_of (\<lambda>u. tu_id u = k) text_units))
    \<and> distinct (map fst (qi_covariate_groups idx))
    \<and> set (qi_covariate_groups idx) =
        (\<lambda>t. (t, {i. i < length covariates \<and> qv_covariate_type (covariates ! i) = t})) ` qv_covariate_type ` set covariates"
proof -
  have single: "index_positions (\<lambda>x. [key x]) xs k = nonempty (positions_of (\<lambda>x. key x = k) xs)" for key and xs :: "'x list"
  proof -
    have "index_positions (\<lambda>x. [key x]) xs k = nonempty (positions_of (\<lambda>x. k \<in> set [key x]) xs)"
      by (rule index_positions_at) simp
    then show ?thesis by (simp add: eq_commute)
  qed
  have ends: "index_positions relationship_keys relationships k =
      nonempty (positions_of (\<lambda>r. rl_source r = k \<or> rl_target r = k) relationships)"
  proof -
    have "index_positions relationship_keys relationships k = nonempty (positions_of (\<lambda>r. k \<in> set (relationship_keys r)) relationships)"
      by (rule index_positions_at) (simp add: relationship_keys_def)
    moreover have "positions_of (\<lambda>r. k \<in> set (relationship_keys r)) relationships =
        positions_of (\<lambda>r. rl_source r = k \<or> rl_target r = k) relationships"
      unfolding positions_of_def by (intro filter_cong) (auto simp: relationship_keys_def)
    ultimately show ?thesis by simp
  qed
  note groups = covariate_groups_spec [of covariates]
  have "set (covariate_groups covariates) =
      (\<lambda>t. (t, {i. i < length covariates \<and> qv_covariate_type (covariates ! i) = t})) ` qv_covariate_type ` set covariates"
  proof (intro set_eqI iffI; clarify)
    fix t ps assume "(t, ps) \<in> set (covariate_groups covariates)"
    then have "map_of (covariate_groups covariates) t = Some ps" "t \<in> qv_covariate_type ` set covariates"
      using groups by (force simp: rev_image_eqI)+
    then show "(t, ps) \<in> (\<lambda>t. (t, {i. i < length covariates \<and> qv_covariate_type (covariates ! i) = t}))
        ` qv_covariate_type ` set covariates"
      using groups by (auto simp: set_positions_of)
  next
    fix c assume "c \<in> set covariates"
    then have "map_of (covariate_groups covariates) (qv_covariate_type c) =
        Some {i. i < length covariates \<and> qv_covariate_type (covariates ! i) = qv_covariate_type c}"
      using groups by (auto simp: set_positions_of)
    then show "(qv_covariate_type c, {i. i < length covariates \<and> qv_covariate_type (covariates ! i) = qv_covariate_type c})
        \<in> set (covariate_groups covariates)"
      by (rule map_of_SomeD)
  qed
  with groups show ?thesis by (simp add: query_index_new_def index_last_at single ends)
qed

end
