(* ===== verification/Conversation.thy ===== *)
theory Conversation
  imports Context_Table
begin

text \<open>
  Conversation history (\<open>query/context/conversation.rs\<close>): its limits, the questions used for entity
  mapping, and the user turns that fit the context.
\<close>

definition max_conversation_turns :: usize where
  "max_conversation_turns = 1024"

definition max_conversation_content_bytes :: usize where
  "max_conversation_content_bytes = 65536"

datatype conversation_role = System | User | Assistant

fun role_as_str :: "conversation_role \<Rightarrow> string" where
  "role_as_str System = ''system''"
| "role_as_str User = ''user''"
| "role_as_str Assistant = ''assistant''"

record conversation_turn =
  tn_role :: conversation_role
  tn_content :: string

type_synonym conversation_history = "conversation_turn list"

record conversation_context =
  cc_text :: string
  cc_table :: context_table

definition conversation_validate :: "conversation_history \<Rightarrow> string + unit" where
  "conversation_validate turns =
     (if max_conversation_turns < length turns then
        Inl (''conversation_history has '' @ nat_to_dec (length turns) @ '' turns; maximum is ''
               @ nat_to_dec max_conversation_turns)
      else
        case find (\<lambda>(_, turn). max_conversation_content_bytes < length (tn_content turn)) (enumerate_from 0 turns) of
          Some (index, turn) \<Rightarrow>
            Inl (''conversation_history turn '' @ nat_to_dec index @ '' has '' @ nat_to_dec (length (tn_content turn))
                   @ '' content bytes; maximum is '' @ nat_to_dec max_conversation_content_bytes)
        | None \<Rightarrow> Inr ())"

text \<open>\<open>take\<close> with no limit for zero; a list has at most \<open>usize::MAX\<close> elements.\<close>

definition take_turns :: "usize \<Rightarrow> 'a list \<Rightarrow> 'a list" where
  "take_turns max_turns xs = (if max_turns = 0 then xs else take max_turns xs)"

definition user_turns :: "conversation_history \<Rightarrow> conversation_history" where
  "user_turns turns = filter (\<lambda>t. tn_role t = User) turns"

definition recent_user_questions :: "usize \<Rightarrow> conversation_history \<Rightarrow> string list" where
  "recent_user_questions max_turns turns =
     take_turns max_turns (map tn_content (filter (\<lambda>t. tn_role t = User) (rev turns)))"

definition mapping_query :: "string \<Rightarrow> usize \<Rightarrow> conversation_history \<Rightarrow> string" where
  "mapping_query query max_turns turns =
     query @ [CHR 0x0A] @ join_with [CHR 0x0A] (recent_user_questions max_turns turns)"

definition conversation_count :: "(string \<Rightarrow> string + usize) \<Rightarrow> string \<Rightarrow> string \<Rightarrow> query_error + usize" where
  "conversation_count count_text s operation = map_err (QueryContext SearchLocal operation) (count_text s)"

definition turn_row :: "conversation_turn \<Rightarrow> string list" where
  "turn_row turn = [role_as_str User, tn_content turn]"

fun fit_turns ::
  "csv_writer \<Rightarrow> (string \<Rightarrow> string + usize) \<Rightarrow> usize \<Rightarrow> context_table \<Rightarrow> conversation_turn list
   \<Rightarrow> query_error + context_table" where
  "fit_turns csv count_text max_tokens table [] = Inr table"
| "fit_turns csv count_text max_tokens table (turn # turns) =
     (let trial = context_table_push (turn_row turn) table in
      and_then (render_csv_section csv ''Conversation History'' SearchLocal ''render conversation history candidate'' trial)
        (\<lambda>trial_text.
      and_then (conversation_count count_text trial_text ''count conversation history candidate'') (\<lambda>tokens.
        if max_tokens < tokens then Inr table else fit_turns csv count_text max_tokens trial turns)))"

definition turns_table :: "string list list \<Rightarrow> context_table" where
  "turns_table rows = context_table_new [''turn'', ''content''] rows"

definition build_user_context ::
  "csv_writer \<Rightarrow> (string \<Rightarrow> string + usize) \<Rightarrow> usize \<Rightarrow> usize \<Rightarrow> conversation_history
   \<Rightarrow> query_error + conversation_context" where
  "build_user_context csv count_text max_turns max_tokens turns =
     (if \<not> list_ex (\<lambda>t. tn_role t = User) turns then Inr \<lparr>cc_text = [], cc_table = turns_table []\<rparr>
      else
        and_then (fit_turns csv count_text max_tokens (turns_table []) (take_turns max_turns (user_turns turns))) (\<lambda>table.
        and_then (if context_table_is_empty table then Inr (section_title ''Conversation History'' @ [CHR 0x0A])
                  else render_csv_section csv ''Conversation History'' SearchLocal ''render conversation history'' table)
          (\<lambda>rendered. Inr \<lparr>cc_text = rendered, cc_table = table\<rparr>)))"

subsection \<open>The turns that fit\<close>

definition turns_fit :: "csv_writer \<Rightarrow> (string \<Rightarrow> string + usize) \<Rightarrow> usize \<Rightarrow> conversation_turn list \<Rightarrow> bool" where
  "turns_fit csv count_text max_tokens turns \<longleftrightarrow>
     (\<exists>rendered n. csv ([''turn'', ''content''] # map turn_row turns) = Inr rendered
        \<and> count_text (section_title ''Conversation History'' @ rendered) = Inr n \<and> n \<le> max_tokens)"

lemma push_turns_table: "context_table_push row (turns_table rows) = turns_table (rows @ [row])"
  by (simp add: context_table_push_def turns_table_def context_table_new_def)

lemma validate_turns: "validate_rows m op (turns_table (map turn_row turns)) = Inr ()"
  by (simp add: validate_rows_Inr turns_table_def context_table_new_def turn_row_def)

lemma render_turns:
  "render_csv_section csv name m op (turns_table (map turn_row turns)) =
     map_err (QueryContext m op) (case csv ([''turn'', ''content''] # map turn_row turns) of
       Inl e \<Rightarrow> Inl e | Inr body \<Rightarrow> Inr (section_title name @ body))"
  unfolding render_csv_section_def render_csv_def validate_turns
  by (simp add: turns_table_def context_table_new_def split: sum.split)

lemma fit_turns_prefix:
  "fit_turns csv count_text max_tokens (turns_table (map turn_row before)) turns = Inr table \<Longrightarrow>
   \<exists>k \<le> length turns. table = turns_table (map turn_row (before @ take k turns))
     \<and> (\<forall>j. 0 < j \<and> j \<le> k \<longrightarrow> turns_fit csv count_text max_tokens (before @ take j turns))
     \<and> (k < length turns \<longrightarrow> \<not> turns_fit csv count_text max_tokens (before @ take (Suc k) turns))"
proof (induction turns arbitrary: before)
  case Nil
  then show ?case by simp
next
  case (Cons turn turns)
  let ?next = "before @ [turn]"
  have trial: "context_table_push (turn_row turn) (turns_table (map turn_row before)) = turns_table (map turn_row ?next)"
    by (simp add: push_turns_table)
  obtain body n where body: "csv ([''turn'', ''content''] # map turn_row ?next) = Inr body"
    "count_text (section_title ''Conversation History'' @ body) = Inr n"
    and rest: "(if max_tokens < n then Inr (turns_table (map turn_row before))
       else fit_turns csv count_text max_tokens (turns_table (map turn_row ?next)) turns) = Inr table"
    using Cons.prems unfolding fit_turns.simps Let_def trial render_turns
    by (auto simp: and_then_Inr_iff conversation_count_def split: sum.splits)
  show ?case
  proof (cases "max_tokens < n")
    case True
    then have "\<not> turns_fit csv count_text max_tokens ?next" using body by (auto simp: turns_fit_def)
    then show ?thesis using rest True by (intro exI [of _ 0]) simp
  next
    case False
    then have fits: "turns_fit csv count_text max_tokens ?next" using body by (auto simp: turns_fit_def)
    from False rest have "fit_turns csv count_text max_tokens (turns_table (map turn_row ?next)) turns = Inr table" by simp
    from Cons.IH [OF this] obtain k where k: "k \<le> length turns" "table = turns_table (map turn_row (?next @ take k turns))"
      "\<forall>j. 0 < j \<and> j \<le> k \<longrightarrow> turns_fit csv count_text max_tokens (?next @ take j turns)"
      "k < length turns \<longrightarrow> \<not> turns_fit csv count_text max_tokens (?next @ take (Suc k) turns)" by blast
    have "turns_fit csv count_text max_tokens (before @ take j (turn # turns))" if j: "0 < j" "j \<le> Suc k" for j
    proof -
      obtain i where i: "j = Suc i" using j(1) by (cases j) auto
      show ?thesis using k(3) fits j(2) by (cases i) (auto simp: i)
    qed
    then show ?thesis using k(1,2,4) by (intro exI [of _ "Suc k"]) simp
  qed
qed

text \<open>Conversation history: the context keeps the user turns, at most the configured number and oldest first,
  as far as the rendered section stays within the token budget: every kept prefix fits, and the
  next one would not. Without a user turn the context is empty.\<close>

theorem conversation_keeps_fitting_turns:
  assumes "build_user_context csv count_text max_turns max_tokens turns = Inr built"
  shows "if user_turns turns = [] then cc_text built = [] \<and> context_table_is_empty (cc_table built)
     else \<exists>k. let kept = take k (take_turns max_turns (user_turns turns)) in
       cc_table built = turns_table (map turn_row kept)
       \<and> (\<forall>j. 0 < j \<and> j \<le> length kept \<longrightarrow> turns_fit csv count_text max_tokens (take j kept))
       \<and> (k < length (take_turns max_turns (user_turns turns)) \<longrightarrow>
            \<not> turns_fit csv count_text max_tokens (take (Suc k) (take_turns max_turns (user_turns turns))))"
proof (cases "user_turns turns = []")
  case True
  then have "\<not> list_ex (\<lambda>t. tn_role t = User) turns" by (auto simp: user_turns_def filter_empty_conv list_ex_iff)
  then show ?thesis using True assms
    by (auto simp: build_user_context_def context_table_is_empty_def turns_table_def context_table_new_def)
next
  case False
  let ?turns = "take_turns max_turns (user_turns turns)"
  have "list_ex (\<lambda>t. tn_role t = User) turns" using False by (auto simp: user_turns_def filter_empty_conv list_ex_iff)
  then have "fit_turns csv count_text max_tokens (turns_table (map turn_row [])) ?turns = Inr (cc_table built)"
    using assms by (auto simp: build_user_context_def and_then_Inr_iff)
  from fit_turns_prefix [OF this] obtain k where k: "k \<le> length ?turns"
    "cc_table built = turns_table (map turn_row (take k ?turns))"
    "\<forall>j. 0 < j \<and> j \<le> k \<longrightarrow> turns_fit csv count_text max_tokens (take j ?turns)"
    "k < length ?turns \<longrightarrow> \<not> turns_fit csv count_text max_tokens (take (Suc k) ?turns)" by auto
  then show ?thesis using False by (auto simp: Let_def min_def intro!: exI [of _ k])
qed

text \<open>Two user turns, the second of which does not fit.\<close>

theorem conversation_keeps_fitting_turns_witness:
  "\<exists>built. build_user_context (\<lambda>rows. Inr (concat (concat rows))) (\<lambda>s. Inr (length s)) 0 45
       [\<lparr>tn_role = User, tn_content = ''a''\<rparr>, \<lparr>tn_role = Assistant, tn_content = ''b''\<rparr>,
        \<lparr>tn_role = User, tn_content = ''a long question that does not fit''\<rparr>] = Inr built
     \<and> (\<exists>k. cc_table built = turns_table (map turn_row (take k
          [\<lparr>tn_role = User, tn_content = ''a''\<rparr>, \<lparr>tn_role = User, tn_content = ''a long question that does not fit''\<rparr>])))"
proof -
  let ?turns = "[\<lparr>tn_role = User, tn_content = ''a''\<rparr>, \<lparr>tn_role = Assistant, tn_content = ''b''\<rparr>,
        \<lparr>tn_role = User, tn_content = ''a long question that does not fit''\<rparr>]"
  have "is_ok (build_user_context (\<lambda>rows. Inr (concat (concat rows))) (\<lambda>s. Inr (length s)) 0 45 ?turns)"
    by code_simp
  then obtain built where
    built: "build_user_context (\<lambda>rows. Inr (concat (concat rows))) (\<lambda>s. Inr (length s)) 0 45 ?turns = Inr built"
    unfolding is_ok_iff by blast
  have users: "user_turns ?turns = [?turns ! 0, ?turns ! 2]" by (simp add: user_turns_def)
  from conversation_keeps_fitting_turns [OF built, unfolded users] built show ?thesis
    by (auto simp: Let_def take_turns_def)
qed

end
