(* ===== verification/Stable_Sort.thy ===== *)
theory Stable_Sort
  imports Prelude "HOL-Library.Multiset"
begin

text \<open>
  Orderings and the stable sort of the Rust standard library (\<open>slice::sort_by\<close>), as the query
  contexts use them.
\<close>

datatype ordering = Less | Equal | Greater

definition then_with :: "ordering \<Rightarrow> ordering \<Rightarrow> ordering" where
  "then_with a b = (if a = Equal then b else a)"

definition compare :: "'a::linorder \<Rightarrow> 'a \<Rightarrow> ordering" where
  "compare a b = (if a < b then Less else if a = b then Equal else Greater)"

lemma compare_simps [simp]:
  "compare a b = Less \<longleftrightarrow> a < b" "compare a b = Equal \<longleftrightarrow> a = b" "compare a b = Greater \<longleftrightarrow> b < a"
  by (auto simp: compare_def)

fun insert_by :: "('a \<Rightarrow> 'a \<Rightarrow> ordering) \<Rightarrow> 'a \<Rightarrow> 'a list \<Rightarrow> 'a list" where
  "insert_by cmp x [] = [x]"
| "insert_by cmp x (y # ys) = (if cmp x y = Greater then y # insert_by cmp x ys else x # y # ys)"

definition sort_by :: "('a \<Rightarrow> 'a \<Rightarrow> ordering) \<Rightarrow> 'a list \<Rightarrow> 'a list" where
  "sort_by cmp xs = foldr (insert_by cmp) xs []"

lemma mset_insert_by: "mset (insert_by cmp x ys) = add_mset x (mset ys)"
  by (induction ys) auto

lemma mset_sort_by: "mset (sort_by cmp xs) = mset xs"
  unfolding sort_by_def by (induction xs) (simp_all add: mset_insert_by)

lemma set_sort_by [simp]: "set (sort_by cmp xs) = set xs"
  using mset_sort_by [of cmp xs] by (metis set_mset_mset)

lemma length_sort_by [simp]: "length (sort_by cmp xs) = length xs"
  using mset_sort_by [of cmp xs] by (metis size_mset)

lemma sort_by_eq_Nil: "sort_by cmp xs = [] \<longleftrightarrow> xs = []"
  by (metis length_0_conv length_sort_by)

lemma map_mset_sort_by: "mset (map f (sort_by cmp xs)) = mset (map f xs)"
  by (simp add: mset_map mset_sort_by)

lemma distinct_map_sort_by: "distinct (map f (sort_by cmp xs)) \<longleftrightarrow> distinct (map f xs)"
  by (metis map_mset_sort_by mset_eq_imp_distinct_iff)

text \<open>A comparison by a key: the result is ordered by the key, and elements of equal key keep their order.\<close>

lemma insert_by_key_sorted:
  fixes key :: "'a \<Rightarrow> 'k::linorder"
  assumes cmp: "\<And>x y. cmp x y = Greater \<longleftrightarrow> key y < key x"
  shows "sorted (map key ys) \<Longrightarrow> sorted (map key (insert_by cmp x ys))"
proof (induction ys)
  case (Cons y ys)
  have "set (insert_by cmp x ys) = insert x (set ys)"
    using mset_insert_by [of cmp x ys] by (metis set_mset_add_mset_insert set_mset_mset)
  with Cons show ?case by (auto simp: cmp)
qed simp

lemma sorted_sort_by:
  fixes key :: "'a \<Rightarrow> 'k::linorder"
  assumes "\<And>x y. cmp x y = Greater \<longleftrightarrow> key y < key x"
  shows "sorted (map key (sort_by cmp xs))"
  unfolding sort_by_def by (induction xs) (simp_all add: insert_by_key_sorted [OF assms])

lemma sort_by_key:
  fixes key :: "'a \<Rightarrow> 'k::linorder"
  assumes cmp: "\<And>x y. cmp x y = Greater \<longleftrightarrow> key y < key x"
  shows "sort_by cmp xs = sort_key key xs"
proof (rule properties_for_sort_key [symmetric])
  have insert: "filter (\<lambda>x. k = key x) (insert_by cmp y ys) = filter (\<lambda>x. k = key x) (y # ys)" for k y ys
    by (induction ys) (auto simp: cmp)
  show "filter (\<lambda>x. k = key x) (sort_by cmp xs) = filter (\<lambda>x. k = key x) xs" for k
    unfolding sort_by_def by (induction xs) (auto simp: insert)
qed (simp_all add: mset_sort_by sorted_sort_by [OF cmp])

text \<open>Only the comparisons of an earlier with a later element matter; sorting commutes with a map.\<close>

lemma insert_by_cong: "(\<And>y. y \<in> set ys \<Longrightarrow> (cmp x y = Greater) = (cmp' x y = Greater)) \<Longrightarrow> insert_by cmp x ys = insert_by cmp' x ys"
  by (induction ys) auto

lemma sort_by_cong:
  "sorted_wrt (\<lambda>x y. (cmp x y = Greater) = (cmp' x y = Greater)) xs \<Longrightarrow> sort_by cmp xs = sort_by cmp' xs"
proof (induction xs)
  case (Cons x xs)
  have "insert_by cmp x (sort_by cmp' xs) = insert_by cmp' x (sort_by cmp' xs)"
    using Cons.prems by (intro insert_by_cong) simp
  then show ?case using Cons by (simp add: sort_by_def)
qed (simp add: sort_by_def)

lemma map_insert_by: "map f (insert_by (\<lambda>x y. cmp (f x) (f y)) x ys) = insert_by cmp (f x) (map f ys)"
  by (induction ys) auto

lemma map_sort_by: "map f (sort_by (\<lambda>x y. cmp (f x) (f y)) xs) = sort_by cmp (map f xs)"
  by (induction xs) (simp_all add: sort_by_def map_insert_by)

end
