(* ===== verification/Local_Context.thy ===== *)
theory Local_Context
  imports Query_Parse Expl_Events Query_Index Conversation Stable_Sort
begin

text \<open>
  The mixed context of Local Search (\<open>query/local/context.rs\<close>): entity mapping, community reports, the
  progressive expansion of the local graph, the sources, and the evidence captured for
  explainability.

  Parameters (record \<open>local_env\<close>): floating point numbers, the tokenizer, the CSV writer, the data
  frame library, the embedding model, the vector store, UUID parsing and lower-casing. The optional
  explainability session is the flag \<open>capture\<close>: what the code does with a session beside capturing
  is to emit events and to note failures to do so, and tracing spans only record. The lists of
  candidates and the sections given to the events are modelled.
\<close>

record ('f, 'd, 'v) local_env =
  lo_method :: search_method
  lo_history_max_turns :: usize
  lo_top_k_entities :: usize
  lo_top_k_relationships :: usize
  lo_max_context_tokens :: usize
  lo_community_prop :: 'f
  lo_text_unit_prop :: 'f
  lo_rest_prop :: "'f \<Rightarrow> 'f \<Rightarrow> 'f" \<comment> \<open>\<open>(1.0 - a - b).max(0.0)\<close>\<close>
  lo_proportion :: "usize \<Rightarrow> 'f \<Rightarrow> usize" \<comment> \<open>\<open>(total as f64 * value) as usize\<close>\<close>
  lo_zero :: 'f
  lo_nonneg :: "'f \<Rightarrow> bool" \<comment> \<open>\<open>>= 0.0\<close>\<close>
  lo_total_cmp :: "'f \<Rightarrow> 'f \<Rightarrow> ordering"
  lo_is_zero :: "'f \<Rightarrow> bool" \<comment> \<open>\<open>== 0.0\<close>\<close>
  lo_finite :: "'f \<Rightarrow> bool"
  lo_whole :: "'f \<Rightarrow> bool" \<comment> \<open>\<open>fract() == 0.0\<close>\<close>
  lo_show_one :: "'f \<Rightarrow> string" \<comment> \<open>\<open>{:.1}\<close>\<close>
  lo_show :: "'f \<Rightarrow> string"
  lo_count :: "string \<Rightarrow> string + usize"
  lo_csv :: csv_writer
  lo_frames :: "'d frames"
  lo_height :: "'d \<Rightarrow> usize"
  lo_with_column :: "string \<Rightarrow> bool list \<Rightarrow> 'd \<Rightarrow> string + 'd"
  lo_embed :: "string \<Rightarrow> string + u64 \<times> 'v list"
  lo_vector_finite :: "'v \<Rightarrow> bool"
  lo_embedding_model_id :: string
  lo_search :: "'v \<Rightarrow> usize \<Rightarrow> vector_error + (string \<times> 'f) list" \<comment> \<open>document and score, as \<open>f64\<close>\<close>
  lo_index_name :: string
  lo_parse_uuid :: "string \<Rightarrow> string option" \<comment> \<open>in simple form\<close>
  lo_lower :: "string \<Rightarrow> string"

record 'f local_data =
  ld_entities :: "query_entity list"
  ld_reports :: "'f community_report list"
  ld_text_units :: "text_unit list"
  ld_relationships :: "'f query_relationship list"
  ld_covariates :: "query_covariate list"
  ld_index :: query_index

record 'f section_explainability =
  se_kind :: section_kind
  se_name :: "string option"
  se_token_budget :: usize
  se_tokens_used :: usize
  se_candidate_count :: usize
  se_selected_count :: usize
  se_selected_record_ids :: "string list"
  se_truncated :: bool
  se_candidates :: "'f candidate list"

record 'f local_section =
  sc_text :: string
  sc_table :: context_table
  sc_tokens_used :: usize
  sc_explainability :: "'f section_explainability option"

type_synonym context_tables = "(string, context_table) omap"

record 'f local_sections =
  ls_text :: string
  ls_tables :: context_tables
  ls_tokens_used :: usize
  ls_explainability :: "'f section_explainability list"

record 'f context_assembly =
  as_parts :: "string list"
  as_tables :: context_tables
  as_tokens_used :: usize
  as_explainability :: "'f section_explainability list"

record 'f expansion_attempt =
  xa_text :: "string list"
  xa_tables :: context_tables
  xa_tokens_used :: usize
  xa_explainability :: "'f section_explainability list"

record fitted_table =
  ft_table :: context_table
  ft_tokens_used :: usize
  ft_candidate_count :: usize
  ft_selected_count :: usize

record section_spec =
  sp_kind :: section_kind
  sp_name :: "string option"
  sp_token_budget :: usize
  sp_selected_reason :: selection_reason

record 'f ranked_relationship =
  rk_relationship :: "'f query_relationship"
  rk_links :: "usize option"

definition nth_opt :: "'a list \<Rightarrow> usize \<Rightarrow> 'a option" where
  "nth_opt xs i = (if i < length xs then Some (xs ! i) else None)"

definition local_count :: "('f, 'd, 'v) local_env \<Rightarrow> string \<Rightarrow> string \<Rightarrow> query_error + usize" where
  "local_count env s operation = map_err (QueryContext (lo_method env) operation) (lo_count env s)"

subsection \<open>Candidates\<close>

definition entity_candidate :: "query_entity \<Rightarrow> 'f candidate" where
  "entity_candidate e =
     (candidate_new (en_id e) Entity)\<lparr>ca_short_id := en_short_id e, ca_title := Some (en_title e)\<rparr>"

definition community_report_candidate :: "'f community_report \<Rightarrow> 'f candidate" where
  "community_report_candidate r =
     (candidate_new (rp_id r) CommunityReport)\<lparr>ca_short_id := Some (rp_short_id r), ca_title := Some (rp_title r)\<rparr>"

definition relationship_candidate :: "'f query_relationship \<Rightarrow> 'f candidate" where
  "relationship_candidate r = (candidate_new (rl_id r) Relationship)\<lparr>ca_short_id := rl_short_id r\<rparr>"

definition covariate_candidate :: "query_covariate \<Rightarrow> 'f candidate" where
  "covariate_candidate c = (candidate_new (qv_id c) Covariate)\<lparr>ca_short_id := qv_short_id c\<rparr>"

definition text_unit_candidate :: "text_unit \<Rightarrow> 'f candidate" where
  "text_unit_candidate u = (candidate_new (tu_id u) TextUnit)\<lparr>ca_short_id := Some (tu_short_id u)\<rparr>"

definition candidate_rank :: "usize \<Rightarrow> u32 option" where
  "candidate_rank index =
     (let rank = usize_sat_add index 1 in if rank < 2 ^ 32 then Some (of_nat rank) else None)"

definition candidate_score :: "('f, 'd, 'v) local_env \<Rightarrow> 'f \<Rightarrow> 'f option" where
  "candidate_score env score = (if lo_finite env score then Some score else None)"

definition raw_ann_candidate :: "('f, 'd, 'v) local_env \<Rightarrow> string \<Rightarrow> 'f \<Rightarrow> usize \<Rightarrow> 'f candidate option" where
  "raw_ann_candidate env i score index =
     Option.bind (candidate_rank index) (\<lambda>rank.
     Option.bind (candidate_score env score) (\<lambda>score.
       Some ((candidate_new i Entity)\<lparr>ca_score := Some score, ca_rank := Some rank, ca_reason := Some AnnResult\<rparr>)))"

definition entity_candidate_with_rank ::
  "('f, 'd, 'v) local_env \<Rightarrow> query_entity \<Rightarrow> usize \<Rightarrow> 'f option \<Rightarrow> selection_reason option \<Rightarrow> bool
   \<Rightarrow> 'f candidate option" where
  "entity_candidate_with_rank env e index score reason selected =
     Option.bind (candidate_rank index) (\<lambda>rank.
     Option.bind (case score of None \<Rightarrow> Some None | Some s \<Rightarrow> map_option Some (candidate_score env s)) (\<lambda>score.
       Some ((entity_candidate e)\<lparr>ca_score := score, ca_rank := Some rank, ca_selected := selected,
                                  ca_reason := reason\<rparr>)))"

subsection \<open>Captured sections\<close>

definition empty_section_explainability :: "section_kind \<Rightarrow> string option \<Rightarrow> usize \<Rightarrow> 'f section_explainability" where
  "empty_section_explainability kind name budget =
     \<lparr>se_kind = kind, se_name = name, se_token_budget = budget, se_tokens_used = 0, se_candidate_count = 0,
      se_selected_count = 0, se_selected_record_ids = [], se_truncated = False, se_candidates = []\<rparr>"

definition record_candidates ::
  "selection_reason \<Rightarrow> usize \<Rightarrow> ('r \<Rightarrow> 'f candidate) \<Rightarrow> 'r list \<Rightarrow> 'f candidate list" where
  "record_candidates reason selected_count candidate_from_record records =
     map (\<lambda>(index, r).
       if index < selected_count then (candidate_from_record r)\<lparr>ca_selected := True, ca_reason := Some reason\<rparr>
       else (candidate_from_record r)\<lparr>ca_selected := False, ca_reason := Some TokenBudgetReason\<rparr>)
     (enumerate_from 0 records)"

definition build_record_section_explainability ::
  "section_spec \<Rightarrow> fitted_table \<Rightarrow> 'r list \<Rightarrow> 'f candidate list \<Rightarrow> ('r \<Rightarrow> 'f candidate)
   \<Rightarrow> 'f section_explainability" where
  "build_record_section_explainability spec fitted records non_token_candidates candidate_from_record =
     (let candidates = record_candidates (sp_selected_reason spec) (ft_selected_count fitted) candidate_from_record records
      in \<lparr>se_kind = sp_kind spec, se_name = sp_name spec, se_token_budget = sp_token_budget spec,
          se_tokens_used = ft_tokens_used fitted, se_candidate_count = ft_candidate_count fitted,
          se_selected_count = ft_selected_count fitted,
          se_selected_record_ids = map ca_id (filter ca_selected candidates),
          se_truncated = ft_selected_count fitted < ft_candidate_count fitted,
          se_candidates = candidates @ non_token_candidates\<rparr>)"

definition not_token_limited :: "'f candidate \<Rightarrow> bool" where
  "not_token_limited c \<longleftrightarrow> ca_reason c = Some RankThreshold \<or> ca_reason c = Some MissingRecord"

text \<open>Each attempted candidate is matched with an accepted one of its identifier, each of which is used once;
  \<open>available\<close> holds the accepted identifiers not yet used.\<close>

fun rollback_candidates ::
  "string list \<Rightarrow> usize \<Rightarrow> 'f candidate list \<Rightarrow> 'f candidate list \<Rightarrow> 'f candidate list \<times> usize" where
  "rollback_candidates available rolled kept [] = (kept, rolled)"
| "rollback_candidates available rolled kept (c # cs) =
     (if ca_id c \<in> set available then rollback_candidates (remove1 (ca_id c) available) rolled kept cs
      else if not_token_limited c then rollback_candidates available rolled (kept @ [c]) cs
      else rollback_candidates available (usize_sat_add rolled 1)
             (kept @ [c\<lparr>ca_selected := False, ca_reason := Some TokenBudgetReason\<rparr>]) cs)"

definition rollback_one_section ::
  "'f section_explainability \<Rightarrow> 'f section_explainability option \<Rightarrow> 'f section_explainability" where
  "rollback_one_section attempted accepted =
     (let s = (case accepted of
           Some a \<Rightarrow> a
         | None \<Rightarrow> empty_section_explainability (se_kind attempted) (se_name attempted) (se_token_budget attempted))
      in case rollback_candidates (map ca_id (se_candidates s)) 0 (se_candidates s) (se_candidates attempted) of
           (candidates, rolled) \<Rightarrow>
             let ids = map ca_id (filter ca_selected candidates) in
             s\<lparr>se_candidates := candidates,
               se_candidate_count := length (filter (\<lambda>c. \<not> not_token_limited c) candidates),
               se_selected_record_ids := ids, se_selected_count := length ids,
               se_truncated := se_truncated s \<or> 0 < rolled\<rparr>)"

definition same_section :: "'f section_explainability \<Rightarrow> 'f section_explainability \<Rightarrow> bool" where
  "same_section a b \<longleftrightarrow> se_kind a = se_kind b \<and> se_name a = se_name b"

definition rollback_section_explainability ::
  "'f section_explainability list \<Rightarrow> 'f section_explainability list \<Rightarrow> 'f section_explainability list" where
  "rollback_section_explainability attempted accepted =
     (let rolled_back = map (\<lambda>a. rollback_one_section a (find (\<lambda>s. same_section s a) accepted)) attempted in
      foldl (\<lambda>out a. if list_ex (\<lambda>s. same_section s a) out then out else out @ [a]) rolled_back accepted)"

subsection \<open>Rows that fit\<close>

fun fit_loop ::
  "('f, 'd, 'v) local_env \<Rightarrow> string \<Rightarrow> usize \<Rightarrow> context_table \<Rightarrow> usize \<Rightarrow> string list list
   \<Rightarrow> query_error + context_table \<times> usize" where
  "fit_loop env operation max_tokens table tokens [] = Inr (table, tokens)"
| "fit_loop env operation max_tokens table tokens (row # rows) =
     and_then (render_delimited_row (lo_method env) operation table row) (\<lambda>row_text.
     and_then (local_count env row_text operation) (\<lambda>row_tokens.
       if max_tokens < usize_sat_add tokens row_tokens then Inr (table, tokens)
       else fit_loop env operation max_tokens (context_table_push row table) (usize_sat_add tokens row_tokens) rows))"

definition fit_delimited_rows ::
  "('f, 'd, 'v) local_env \<Rightarrow> context_table \<Rightarrow> string list list \<Rightarrow> string \<Rightarrow> usize \<Rightarrow> string
   \<Rightarrow> query_error + fitted_table" where
  "fit_delimited_rows env table candidates context_name max_tokens operation =
     and_then (render_delimited_header context_name (lo_method env) operation table) (\<lambda>header.
     and_then (local_count env header operation) (\<lambda>tokens.
     and_then (fit_loop env operation max_tokens table tokens candidates) (\<lambda>(table, tokens).
       Inr \<lparr>ft_table = table, ft_tokens_used = tokens, ft_candidate_count = length candidates,
            ft_selected_count = context_table_len table\<rparr>)))"

text \<open>The code has it a second time for reports.\<close>

definition fit_report_rows ::
  "('f, 'd, 'v) local_env \<Rightarrow> context_table \<Rightarrow> string list list \<Rightarrow> string \<Rightarrow> usize \<Rightarrow> string
   \<Rightarrow> query_error + fitted_table" where
  "fit_report_rows = fit_delimited_rows"

text \<open>Counting for the evidence never fails the query.\<close>

definition count_for_explainability :: "('f, 'd, 'v) local_env \<Rightarrow> string \<Rightarrow> usize \<Rightarrow> usize" where
  "count_for_explainability env s reliable = (case lo_count env s of Inl _ \<Rightarrow> reliable | Inr n \<Rightarrow> n)"

definition count_empty_community_for_explainability :: "('f, 'd, 'v) local_env \<Rightarrow> usize option" where
  "count_empty_community_for_explainability env = (case lo_count env ''[]'' of Inl _ \<Rightarrow> None | Inr n \<Rightarrow> Some n)"

subsection \<open>Relationships\<close>

definition rank_relationships :: "'f ranked_relationship \<Rightarrow> 'f ranked_relationship \<Rightarrow> ordering" where
  "rank_relationships left right =
     compare (case rl_rank (rk_relationship right) of None \<Rightarrow> 0 | Some n \<Rightarrow> n)
             (case rl_rank (rk_relationship left) of None \<Rightarrow> 0 | Some n \<Rightarrow> n)"

definition outside_of :: "string set \<Rightarrow> 'f query_relationship \<Rightarrow> string" where
  "outside_of names r = (if rl_source r \<in> names then rl_target r else rl_source r)"

definition inside_of :: "string set \<Rightarrow> 'f query_relationship \<Rightarrow> string" where
  "inside_of names r = (if rl_source r \<in> names then rl_source r else rl_target r)"

definition neighbors_by_outside :: "string set \<Rightarrow> 'f ranked_relationship list \<Rightarrow> string \<rightharpoonup> string set" where
  "neighbors_by_outside names ranked =
     foldl (\<lambda>m k. let r = rk_relationship k in
         m(outside_of names r \<mapsto>
             insert (inside_of names r) (case m (outside_of names r) of None \<Rightarrow> {} | Some s \<Rightarrow> s)))
       Map.empty ranked"

definition links_desc :: "'f ranked_relationship \<Rightarrow> 'f ranked_relationship \<Rightarrow> ordering" where
  "links_desc left right =
     then_with (compare (case rk_links right of None \<Rightarrow> 0 | Some n \<Rightarrow> n) (case rk_links left of None \<Rightarrow> 0 | Some n \<Rightarrow> n))
       (rank_relationships left right)"

definition learn_links :: "(string \<rightharpoonup> usize) \<Rightarrow> 'f ranked_relationship list \<Rightarrow> string \<rightharpoonup> usize" where
  "learn_links learned ranked =
     foldl (\<lambda>m k. case rk_links k of None \<Rightarrow> m | Some n \<Rightarrow> m(rl_id (rk_relationship k) \<mapsto> n)) learned ranked"

text \<open>Selected, rank-filtered (kept only for the evidence), and the learned link counts.\<close>

definition filter_relationships_capture ::
  "query_entity list \<Rightarrow> 'f query_relationship list \<Rightarrow> usize set \<Rightarrow> usize \<Rightarrow> (string \<rightharpoonup> usize) \<Rightarrow> bool
   \<Rightarrow> ('f ranked_relationship list \<times> 'f ranked_relationship list) \<times> (string \<rightharpoonup> usize)" where
  "filter_relationships_capture selected_entities relationships positions top_k learned capture =
     (let names = set (map en_title selected_entities);
          candidates = List.map_filter (nth_opt relationships) (sorted_list_of_set positions);
          in_network = sort_by rank_relationships
            (map (\<lambda>r. \<lparr>rk_relationship = r, rk_links = learned (rl_id r)\<rparr>)
              (filter (\<lambda>r. rl_source r \<in> names \<and> rl_target r \<in> names) candidates));
          out_network = sort_by rank_relationships
            (map (\<lambda>r. \<lparr>rk_relationship = r, rk_links = None\<rparr>)
              (filter (\<lambda>r. rl_source r \<in> names \<and> rl_target r \<notin> names) candidates
               @ filter (\<lambda>r. rl_target r \<in> names \<and> rl_source r \<notin> names) candidates))
      in if 1 < length out_network then
           (let neighbors = neighbors_by_outside names out_network;
                linked = map (\<lambda>k. k\<lparr>rk_links := map_option card (neighbors (outside_of names (rk_relationship k)))\<rparr>)
                           out_network;
                learned = learn_links learned linked;
                ordered = sort_by links_desc linked;
                budget = usize_sat_mul top_k (length selected_entities)
            in ((in_network @ take budget ordered, if capture then drop budget ordered else []), learned))
         else ((in_network @ out_network, []), learned))"

definition python_f64 :: "('f, 'd, 'v) local_env \<Rightarrow> 'f \<Rightarrow> string" where
  "python_f64 env v = (if lo_finite env v \<and> lo_whole env v then lo_show_one env v else lo_show env v)"

definition python_optional_f64_truthy :: "('f, 'd, 'v) local_env \<Rightarrow> 'f option \<Rightarrow> string" where
  "python_optional_f64_truthy env v =
     (case v of Some number \<Rightarrow> if \<not> lo_is_zero env number then python_f64 env number else [] | None \<Rightarrow> [])"

definition python_optional_i64 :: "i64 option \<Rightarrow> string" where
  "python_optional_i64 v = (case v of None \<Rightarrow> ''None'' | Some n \<Rightarrow> int_to_dec n)"

definition or_empty_string :: "string option \<Rightarrow> string" where
  "or_empty_string v = (case v of None \<Rightarrow> [] | Some s \<Rightarrow> s)"

definition relationship_columns :: "string list" where
  "relationship_columns = [''id'', ''source'', ''target'', ''description'', ''weight'']"

definition local_relationship_row :: "('f, 'd, 'v) local_env \<Rightarrow> bool \<Rightarrow> 'f ranked_relationship \<Rightarrow> string list" where
  "local_relationship_row env include_links ranked =
     (let r = rk_relationship ranked in
      [or_empty_string (rl_short_id r), rl_source r, rl_target r, or_empty_string (rl_description r),
       python_optional_f64_truthy env (rl_weight r)]
      @ (if include_links then [case rk_links ranked of None \<Rightarrow> [] | Some n \<Rightarrow> nat_to_dec n] else []))"

definition rank_filtered_candidates :: "'f ranked_relationship list \<Rightarrow> 'f candidate list" where
  "rank_filtered_candidates rank_filtered =
     map (\<lambda>k. (relationship_candidate (rk_relationship k))\<lparr>ca_selected := False, ca_reason := Some RankThreshold\<rparr>)
       rank_filtered"

definition rank_filtered_relationship_section :: "'f ranked_relationship list \<Rightarrow> usize \<Rightarrow> 'f local_section" where
  "rank_filtered_relationship_section rank_filtered max_tokens =
     \<lparr>sc_text = [], sc_table = context_table_new relationship_columns [], sc_tokens_used = 0,
      sc_explainability = Some ((empty_section_explainability Relationships None max_tokens)
        \<lparr>se_candidates := rank_filtered_candidates rank_filtered\<rparr>)\<rparr>"

definition build_relationship_context ::
  "('f, 'd, 'v) local_env \<Rightarrow> 'f local_data \<Rightarrow> bool \<Rightarrow> query_entity list \<Rightarrow> usize set \<Rightarrow> usize \<Rightarrow> (string \<rightharpoonup> usize)
   \<Rightarrow> query_error + 'f local_section option \<times> (string \<rightharpoonup> usize)" where
  "build_relationship_context env data capture selected_entities positions max_tokens learned =
     (case filter_relationships_capture selected_entities (ld_relationships data) positions
             (lo_top_k_relationships env) learned capture of
        ((selected, rank_filtered), learned) \<Rightarrow>
          if selected = [] \<and> rank_filtered = [] then Inr (None, learned)
          else if selected = [] then
            Inr (if capture then Some (rank_filtered_relationship_section rank_filtered max_tokens) else None, learned)
          else
            (let include_links = (rk_links (hd selected) \<noteq> None);
                 columns = relationship_columns @ (if include_links then [''links''] else [])
             in and_then (fit_delimited_rows env (context_table_new columns [])
                  (map (local_relationship_row env include_links) selected) ''Relationships'' max_tokens
                  ''build Local Relationships context'') (\<lambda>fitted.
                and_then (render_delimited_section ''Relationships'' (lo_method env)
                  ''render Local Relationships context'' (ft_table fitted)) (\<lambda>rendered.
                  Inr (Some \<lparr>sc_text = rendered, sc_table = ft_table fitted, sc_tokens_used = ft_tokens_used fitted,
                    sc_explainability = (if capture then Some (build_record_section_explainability
                      \<lparr>sp_kind = Relationships, sp_name = None, sp_token_budget = max_tokens,
                       sp_selected_reason = GraphExpansion\<rparr>
                      fitted (map rk_relationship selected) (rank_filtered_candidates rank_filtered)
                      relationship_candidate) else None)\<rparr>, learned)))))"

subsection \<open>Covariates\<close>

definition covariate_columns :: "string list" where
  "covariate_columns = [''id'', ''entity'', ''object_id'', ''status'', ''start_date'', ''end_date'', ''description'']"

definition covariate_row :: "query_covariate \<Rightarrow> string list" where
  "covariate_row c =
     [or_empty_string (qv_short_id c), qv_subject_id c, or_empty_string (qv_object_id c), or_empty_string (qv_status c),
      or_empty_string (qv_start_date c), or_empty_string (qv_end_date c), or_empty_string (qv_description c)]"

definition build_covariate_context ::
  "('f, 'd, 'v) local_env \<Rightarrow> 'f local_data \<Rightarrow> bool \<Rightarrow> string \<Rightarrow> usize set \<Rightarrow> usize list \<Rightarrow> usize
   \<Rightarrow> query_error + 'f local_section option" where
  "build_covariate_context env data capture name group_positions positions max_tokens =
     (let selected = List.map_filter (nth_opt (ld_covariates data)) (filter (\<lambda>i. i \<in> group_positions) positions) in
      if group_positions = {} then Inr None
      else
        and_then (fit_delimited_rows env (context_table_new covariate_columns []) (map covariate_row selected) name
          max_tokens ''build Local covariate context'') (\<lambda>fitted.
        and_then (render_delimited_section name (lo_method env) ''render Local covariate context'' (ft_table fitted))
          (\<lambda>rendered.
          Inr (Some \<lparr>sc_text = rendered, sc_table = ft_table fitted, sc_tokens_used = ft_tokens_used fitted,
            sc_explainability = (if capture then Some (build_record_section_explainability
              \<lparr>sp_kind = Covariates, sp_name = Some name, sp_token_budget = max_tokens,
               sp_selected_reason = GraphExpansion\<rparr>
              fitted selected [] covariate_candidate) else None)\<rparr>))))"

subsection \<open>The local graph\<close>

text \<open>The part of an attempt for the relationships, then for one covariate group after another.\<close>

definition add_relationship_section ::
  "('f, 'd, 'v) local_env \<Rightarrow> bool \<Rightarrow> usize \<Rightarrow> 'f local_section option \<Rightarrow> 'f expansion_attempt
   \<Rightarrow> query_error + 'f expansion_attempt" where
  "add_relationship_section env capture max_tokens relationship attempt =
     (case relationship of
        None \<Rightarrow>
          Inr (attempt\<lparr>xa_explainability := xa_explainability attempt @
                 (if capture then [empty_section_explainability Relationships None max_tokens] else []),
               xa_tables := om_insert ''relationships'' (context_table_new relationship_columns []) (xa_tables attempt)\<rparr>)
      | Some s \<Rightarrow>
          and_then (if sc_text s = [] then Inr 0
                    else local_count env (sc_text s) ''count Local Relationships context'') (\<lambda>section_tokens.
            Inr (attempt\<lparr>xa_tokens_used := usize_sat_add (xa_tokens_used attempt) section_tokens,
                 xa_explainability := xa_explainability attempt @
                   (case sc_explainability s of None \<Rightarrow> [] | Some c \<Rightarrow> [c\<lparr>se_tokens_used := section_tokens\<rparr>]),
                 xa_text := xa_text attempt @ (if sc_text s = [] then [] else [sc_text s]),
                 xa_tables := om_insert ''relationships'' (sc_table s) (xa_tables attempt)\<rparr>)))"

definition add_covariate_section ::
  "('f, 'd, 'v) local_env \<Rightarrow> bool \<Rightarrow> usize \<Rightarrow> string \<Rightarrow> 'f local_section option \<Rightarrow> 'f expansion_attempt
   \<Rightarrow> query_error + 'f expansion_attempt" where
  "add_covariate_section env capture max_tokens name covariate attempt =
     (case covariate of
        None \<Rightarrow>
          Inr (attempt\<lparr>xa_explainability := xa_explainability attempt @
                 (if capture then [empty_section_explainability Covariates (Some name) max_tokens] else []),
               xa_tables := om_insert (lo_lower env name) (context_table_new covariate_columns []) (xa_tables attempt)\<rparr>)
      | Some s \<Rightarrow>
          and_then (local_count env (sc_text s) ''count Local covariate context'') (\<lambda>section_tokens.
            Inr (attempt\<lparr>xa_tokens_used := usize_sat_add (xa_tokens_used attempt) section_tokens,
                 xa_explainability := xa_explainability attempt @
                   (case sc_explainability s of None \<Rightarrow> [] | Some c \<Rightarrow> [c\<lparr>se_tokens_used := section_tokens\<rparr>]),
                 xa_text := xa_text attempt @ [sc_text s],
                 xa_tables := om_insert (lo_lower env name) (sc_table s) (xa_tables attempt)\<rparr>)))"

fun add_covariate_sections ::
  "('f, 'd, 'v) local_env \<Rightarrow> 'f local_data \<Rightarrow> bool \<Rightarrow> usize list \<Rightarrow> usize \<Rightarrow> (string \<times> usize set) list
   \<Rightarrow> 'f expansion_attempt \<Rightarrow> query_error + 'f expansion_attempt" where
  "add_covariate_sections env data capture positions max_tokens [] attempt = Inr attempt"
| "add_covariate_sections env data capture positions max_tokens ((name, group_positions) # groups) attempt =
     and_then (build_covariate_context env data capture name group_positions positions max_tokens) (\<lambda>covariate.
     and_then (add_covariate_section env capture max_tokens name covariate attempt) (\<lambda>attempt.
       add_covariate_sections env data capture positions max_tokens groups attempt))"

definition build_local_expansion_attempt ::
  "('f, 'd, 'v) local_env \<Rightarrow> 'f local_data \<Rightarrow> bool \<Rightarrow> query_entity list \<Rightarrow> usize set \<Rightarrow> usize list \<Rightarrow> usize \<Rightarrow> usize
   \<Rightarrow> (string \<rightharpoonup> usize) \<Rightarrow> query_error + 'f expansion_attempt \<times> (string \<rightharpoonup> usize)" where
  "build_local_expansion_attempt env data capture current relationship_positions covariate_positions
       max_tokens entity_tokens learned =
     and_then (build_relationship_context env data capture current relationship_positions max_tokens learned)
       (\<lambda>(relationship, learned).
     and_then (add_relationship_section env capture max_tokens relationship
        \<lparr>xa_text = [], xa_tables = [], xa_tokens_used = entity_tokens, xa_explainability = []\<rparr>) (\<lambda>attempt.
     and_then (add_covariate_sections env data capture covariate_positions max_tokens
        (qi_covariate_groups (ld_index data)) attempt) (\<lambda>attempt.
       Inr (attempt, learned))))"

text \<open>The loop over the entities: \<open>current\<close> holds those before the next one.\<close>

fun expand_loop ::
  "('f, 'd, 'v) local_env \<Rightarrow> 'f local_data \<Rightarrow> bool \<Rightarrow> usize \<Rightarrow> usize \<Rightarrow> query_entity list \<Rightarrow> query_entity list
   \<Rightarrow> usize set \<Rightarrow> usize list \<Rightarrow> (string \<rightharpoonup> usize) \<Rightarrow> 'f expansion_attempt
   \<Rightarrow> query_error + 'f expansion_attempt \<times> usize set \<times> usize list" where
  "expand_loop env data capture max_tokens entity_tokens current [] rel_positions cov_positions learned accepted =
     Inr (accepted, rel_positions, cov_positions)"
| "expand_loop env data capture max_tokens entity_tokens current (e # es) rel_positions cov_positions learned accepted =
     (let rel_positions = rel_positions \<union>
            set (case qi_relationships_by_entity (ld_index data) (en_title e) of None \<Rightarrow> [] | Some l \<Rightarrow> l);
          cov_positions = cov_positions @
            (case qi_covariates_by_subject (ld_index data) (en_title e) of None \<Rightarrow> [] | Some l \<Rightarrow> l)
      in and_then (build_local_expansion_attempt env data capture (current @ [e]) rel_positions cov_positions
           max_tokens entity_tokens learned) (\<lambda>(attempt, learned).
           if max_tokens < xa_tokens_used attempt then
             Inr (if capture then accepted\<lparr>xa_explainability :=
                    rollback_section_explainability (xa_explainability attempt) (xa_explainability accepted)\<rparr>
                  else accepted, rel_positions, cov_positions)
           else expand_loop env data capture max_tokens entity_tokens (current @ [e]) es rel_positions cov_positions
                  learned attempt))"

text \<open>With the numbers of candidates and of selected rows, which are only recorded.\<close>

definition expand_local_graph ::
  "('f, 'd, 'v) local_env \<Rightarrow> 'f local_data \<Rightarrow> bool \<Rightarrow> query_entity list \<Rightarrow> usize \<Rightarrow> usize
   \<Rightarrow> query_error + 'f expansion_attempt \<times> usize \<times> usize" where
  "expand_local_graph env data capture selected_entities max_tokens entity_tokens =
     and_then (expand_loop env data capture max_tokens entity_tokens [] selected_entities {} [] Map.empty
        \<lparr>xa_text = [], xa_tables = [], xa_tokens_used = entity_tokens, xa_explainability = []\<rparr>)
       (\<lambda>(accepted, rel_positions, cov_positions).
         Inr (accepted, usize_sat_add (card rel_positions) (length cov_positions),
              sum_list (map (context_table_len \<circ> snd) (xa_tables accepted))))"

definition local_entity_row :: "query_entity \<Rightarrow> string list" where
  "local_entity_row e =
     [or_empty_string (en_short_id e), en_title e, or_empty_string (en_description e), python_optional_i64 (en_rank e)]"

definition build_entity_section ::
  "('f, 'd, 'v) local_env \<Rightarrow> bool \<Rightarrow> query_entity list \<Rightarrow> usize \<Rightarrow> query_error + 'f local_section" where
  "build_entity_section env capture selected_entities max_tokens =
     and_then (fit_delimited_rows env
       (context_table_new [''id'', ''entity'', ''description'', ''number of relationships''] [])
       (map local_entity_row selected_entities) ''Entities'' max_tokens ''build Local Entities context'') (\<lambda>fitted.
     and_then (render_delimited_section ''Entities'' (lo_method env) ''render Local Entities context'' (ft_table fitted))
       (\<lambda>rendered.
     and_then (local_count env rendered ''count Local Entities context'') (\<lambda>tokens.
       Inr \<lparr>sc_text = rendered, sc_table = ft_table fitted, sc_tokens_used = tokens,
            sc_explainability = (if capture then Some
              \<lparr>se_kind = Entities, se_name = None, se_token_budget = max_tokens, se_tokens_used = tokens,
               se_candidate_count = ft_candidate_count fitted, se_selected_count = ft_selected_count fitted,
               se_selected_record_ids = map en_id (take (ft_selected_count fitted) selected_entities),
               se_truncated = ft_selected_count fitted < ft_candidate_count fitted, se_candidates = []\<rparr>
              else None)\<rparr>)))"

definition build_local_context ::
  "('f, 'd, 'v) local_env \<Rightarrow> 'f local_data \<Rightarrow> bool \<Rightarrow> query_entity list \<Rightarrow> usize \<Rightarrow> query_error + 'f local_sections" where
  "build_local_context env data capture selected_entities max_tokens =
     (if selected_entities = [] then
        Inr \<lparr>ls_text = [], ls_tables = [], ls_tokens_used = 0, ls_explainability = []\<rparr>
      else
        and_then (build_entity_section env capture selected_entities max_tokens) (\<lambda>entity.
        and_then (expand_local_graph env data capture selected_entities max_tokens (sc_tokens_used entity))
          (\<lambda>(expansion, _, _).
          Inr \<lparr>ls_text = join_with [CHR 0x0A, CHR 0x0A]
                  (filter (\<lambda>s. trim s \<noteq> []) (sc_text entity # xa_text expansion)),
               ls_tables = om_insert ''entities'' (sc_table entity) (xa_tables expansion),
               ls_tokens_used = xa_tokens_used expansion,
               ls_explainability = (case sc_explainability entity of None \<Rightarrow> [] | Some c \<Rightarrow> [c])
                 @ xa_explainability expansion\<rparr>)))"

subsection \<open>Community reports\<close>

fun count_match :: "string \<Rightarrow> (string \<times> usize) list \<Rightarrow> (string \<times> usize) list" where
  "count_match i [] = [(i, 1)]"
| "count_match i ((c, n) # ms) = (if c = i then (c, usize_sat_add n 1) # ms else (c, n) # count_match i ms)"

definition community_matches :: "query_entity list \<Rightarrow> (string \<times> usize) list" where
  "community_matches selected_entities =
     foldl (\<lambda>ms e. foldl (\<lambda>ms i. count_match i ms) ms (en_community_ids e)) [] selected_entities"

text \<open>The reports with their match counts, and the candidates left out for other reasons than tokens.\<close>

definition select_community_report ::
  "('f, 'd, 'v) local_env \<Rightarrow> 'f local_data \<Rightarrow> ('f community_report \<times> usize) list \<times> 'f candidate list
   \<Rightarrow> string \<times> usize \<Rightarrow> ('f community_report \<times> usize) list \<times> 'f candidate list" where
  "select_community_report env data st m =
     (case st of (selected, left_out) \<Rightarrow> case m of (community_id, matches) \<Rightarrow>
        (case Option.bind (qi_report_by_community_id (ld_index data) community_id) (nth_opt (ld_reports data)) of
           None \<Rightarrow> (selected, left_out @ [(candidate_new community_id CommunityReport)\<lparr>ca_reason := Some MissingRecord\<rparr>])
         | Some r \<Rightarrow>
             if (case rp_rank r of None \<Rightarrow> False | Some rank \<Rightarrow> lo_nonneg env rank)
             then (selected @ [(r, matches)], left_out)
             else (selected, left_out @ [(community_report_candidate r)\<lparr>ca_reason := Some RankThreshold\<rparr>])))"

definition select_community_reports ::
  "('f, 'd, 'v) local_env \<Rightarrow> 'f local_data \<Rightarrow> bool \<Rightarrow> (string \<times> usize) list
   \<Rightarrow> ('f community_report \<times> usize) list \<times> 'f candidate list option" where
  "select_community_reports env data capture matches =
     (case foldl (select_community_report env data) ([], []) matches of
        (selected, left_out) \<Rightarrow> (selected, if capture then Some left_out else None))"

definition matches_then_rank ::
  "('f, 'd, 'v) local_env \<Rightarrow> 'f community_report \<times> usize \<Rightarrow> 'f community_report \<times> usize \<Rightarrow> ordering" where
  "matches_then_rank env left right =
     then_with (compare (snd right) (snd left))
       (lo_total_cmp env (case rp_rank (fst right) of None \<Rightarrow> lo_zero env | Some n \<Rightarrow> n)
                         (case rp_rank (fst left) of None \<Rightarrow> lo_zero env | Some n \<Rightarrow> n))"

definition community_columns :: "string list" where
  "community_columns = [''id'', ''title'', ''content'']"

definition empty_community_section ::
  "usize \<Rightarrow> 'f candidate list option \<Rightarrow> usize option \<Rightarrow> 'f local_section" where
  "empty_community_section max_tokens candidates tokens_used =
     \<lparr>sc_text = ''[]'', sc_table = context_table_new community_columns [],
      sc_tokens_used = (case tokens_used of None \<Rightarrow> 0 | Some n \<Rightarrow> n),
      sc_explainability = (case (candidates, tokens_used) of
          (Some cs, Some n) \<Rightarrow> Some ((empty_section_explainability CommunityReports None max_tokens)
             \<lparr>se_tokens_used := n, se_candidates := cs\<rparr>)
        | _ \<Rightarrow> None)\<rparr>"

definition captured :: "bool \<Rightarrow> 'a option \<Rightarrow> 'a option" where
  "captured capture v = (if capture then v else None)"

definition build_community_context ::
  "('f, 'd, 'v) local_env \<Rightarrow> 'f local_data \<Rightarrow> bool \<Rightarrow> query_entity list \<Rightarrow> usize
   \<Rightarrow> query_error + 'f local_section option" where
  "build_community_context env data capture selected_entities max_tokens =
     (let empty_tokens = captured capture (count_empty_community_for_explainability env);
          matches = community_matches selected_entities in
      if selected_entities = [] \<or> ld_reports data = [] then Inr None
      else if matches = [] then
        Inr (Some (empty_community_section max_tokens (captured capture (Some [])) empty_tokens))
      else case select_community_reports env data capture matches of (selected, left_out) \<Rightarrow>
        if selected = [] then Inr (Some (empty_community_section max_tokens left_out empty_tokens))
        else
          (let selected = sort_by (matches_then_rank env) selected;
               spec = \<lparr>sp_kind = CommunityReports, sp_name = None, sp_token_budget = max_tokens,
                       sp_selected_reason = CommunityMembership\<rparr>;
               left_out = (case left_out of None \<Rightarrow> [] | Some cs \<Rightarrow> cs) in
           and_then (fit_report_rows env (context_table_new community_columns [])
             (map (\<lambda>(r, _). [rp_short_id r, rp_title r, rp_full_content r]) selected) ''Reports'' max_tokens
             ''build Local Reports context'') (\<lambda>fitted.
           if context_table_is_empty (ft_table fitted) then
             (let fitted = (case empty_tokens of None \<Rightarrow> fitted | Some n \<Rightarrow> fitted\<lparr>ft_tokens_used := n\<rparr>) in
              Inr (Some \<lparr>sc_text = ''[]'', sc_table = ft_table fitted, sc_tokens_used = ft_tokens_used fitted,
                sc_explainability = map_option (\<lambda>_. build_record_section_explainability spec fitted (map fst selected)
                  left_out community_report_candidate) empty_tokens\<rparr>))
           else
             and_then (render_csv_section (lo_csv env) ''Reports'' (lo_method env) ''render Local Reports context''
               (ft_table fitted)) (\<lambda>rendered.
             let fitted = (if capture then fitted\<lparr>ft_tokens_used :=
                     count_for_explainability env rendered (ft_tokens_used fitted)\<rparr> else fitted) in
             Inr (Some \<lparr>sc_text = rendered, sc_table = ft_table fitted, sc_tokens_used = ft_tokens_used fitted,
               sc_explainability = captured capture (Some (build_record_section_explainability spec fitted
                 (map fst selected) left_out community_report_candidate))\<rparr>)))))"

subsection \<open>Sources\<close>

definition count_relationships :: "'f query_relationship list \<Rightarrow> text_unit \<Rightarrow> usize" where
  "count_relationships entity_relationships unit =
     (if tu_relationship_ids unit = [] then
        length (filter (\<lambda>r. tu_id unit \<in> set (rl_text_unit_ids r)) entity_relationships)
      else length (filter (\<lambda>i. i \<in> set (map rl_id entity_relationships)) (tu_relationship_ids unit)))"

record source_selection =
  so_seen :: "string set"
  so_ranked :: "(text_unit \<times> usize \<times> usize) list"
  so_missing :: "string list" \<comment> \<open>the text units that do not exist\<close>

definition source_step ::
  "'f local_data \<Rightarrow> usize \<Rightarrow> 'f query_relationship list \<Rightarrow> source_selection \<Rightarrow> string \<Rightarrow> source_selection" where
  "source_step data order entity_relationships st text_unit_id =
     (if text_unit_id \<in> so_seen st then st
      else
        let st = st\<lparr>so_seen := insert text_unit_id (so_seen st)\<rparr> in
        case Option.bind (qi_text_unit_by_id (ld_index data) text_unit_id) (nth_opt (ld_text_units data)) of
          None \<Rightarrow> st\<lparr>so_missing := so_missing st @ [text_unit_id]\<rparr>
        | Some unit \<Rightarrow>
            st\<lparr>so_ranked := so_ranked st @ [(unit, order, count_relationships entity_relationships unit)]\<rparr>)"

definition source_entity_step ::
  "'f local_data \<Rightarrow> source_selection \<Rightarrow> usize \<times> query_entity \<Rightarrow> source_selection" where
  "source_entity_step data st oe =
     (case oe of (order, e) \<Rightarrow>
        let entity_relationships = List.map_filter (nth_opt (ld_relationships data))
              (case qi_relationships_by_entity (ld_index data) (en_title e) of None \<Rightarrow> [] | Some l \<Rightarrow> l)
        in foldl (source_step data order entity_relationships) st (en_text_unit_ids e))"

definition order_then_count :: "text_unit \<times> usize \<times> usize \<Rightarrow> text_unit \<times> usize \<times> usize \<Rightarrow> ordering" where
  "order_then_count left right =
     then_with (compare (fst (snd left)) (fst (snd right))) (compare (snd (snd right)) (snd (snd left)))"

text \<open>The candidates for missing text units are built only for the evidence.\<close>

definition select_source_text_units ::
  "'f local_data \<Rightarrow> query_entity list \<Rightarrow> (text_unit \<times> usize \<times> usize) list \<times> string list" where
  "select_source_text_units data selected_entities =
     (let st = foldl (source_entity_step data) \<lparr>so_seen = {}, so_ranked = [], so_missing = []\<rparr>
                 (enumerate_from 0 selected_entities)
      in (sort_by order_then_count (so_ranked st), so_missing st))"

definition missing_source_candidates :: "string list \<Rightarrow> 'f candidate list" where
  "missing_source_candidates missing =
     map (\<lambda>i. (candidate_new i TextUnit)\<lparr>ca_selected := False, ca_reason := Some MissingRecord\<rparr>) missing"

definition missing_source_section :: "'f candidate list \<Rightarrow> usize \<Rightarrow> 'f local_section" where
  "missing_source_section candidates max_tokens =
     \<lparr>sc_text = [], sc_table = context_table_new [''id'', ''text''] [], sc_tokens_used = 0,
      sc_explainability = Some ((empty_section_explainability Sources None max_tokens)\<lparr>se_candidates := candidates\<rparr>)\<rparr>"

definition build_source_context ::
  "('f, 'd, 'v) local_env \<Rightarrow> 'f local_data \<Rightarrow> bool \<Rightarrow> query_entity list \<Rightarrow> usize
   \<Rightarrow> query_error + 'f local_section option" where
  "build_source_context env data capture selected_entities max_tokens =
     (if selected_entities = [] then Inr None
      else case select_source_text_units data selected_entities of (ranked, missing) \<Rightarrow>
        if ranked = [] then
          Inr (if capture \<and> missing \<noteq> [] then Some (missing_source_section (missing_source_candidates missing) max_tokens)
               else None)
        else
          and_then (fit_delimited_rows env (context_table_new [''id'', ''text''] [])
            (map (\<lambda>(u, _, _). [tu_short_id u, tu_text u]) ranked) ''Sources'' max_tokens
            ''build Local Sources context'') (\<lambda>fitted.
          and_then (render_delimited_section ''Sources'' (lo_method env) ''render Local Sources context'' (ft_table fitted))
            (\<lambda>rendered.
            let fitted = (if capture then fitted\<lparr>ft_tokens_used :=
                    count_for_explainability env rendered (ft_tokens_used fitted)\<rparr> else fitted) in
            Inr (Some \<lparr>sc_text = rendered, sc_table = ft_table fitted, sc_tokens_used = ft_tokens_used fitted,
              sc_explainability = captured capture (Some (build_record_section_explainability
                \<lparr>sp_kind = Sources, sp_name = None, sp_token_budget = max_tokens,
                 sp_selected_reason = SourceReference\<rparr>
                fitted (map fst ranked) (missing_source_candidates missing) text_unit_candidate))\<rparr>))))"

subsection \<open>Entity mapping\<close>

definition included_entities ::
  "query_entity list \<Rightarrow> query_index \<Rightarrow> string list \<Rightarrow> query_entity list" where
  "included_entities all_entities index include_names =
     List.map_filter (nth_opt all_entities)
       (concat (map (\<lambda>name. case qi_entity_by_title index name of None \<Rightarrow> [] | Some l \<Rightarrow> l) include_names))"

definition add_entity_filters ::
  "query_entity list \<Rightarrow> query_index \<Rightarrow> query_entity list \<Rightarrow> string list \<Rightarrow> string list \<Rightarrow> query_entity list" where
  "add_entity_filters all_entities index matched include_names exclude_names =
     foldl (\<lambda>res name. res @ List.map_filter (nth_opt all_entities)
         (case qi_entity_by_title index name of None \<Rightarrow> [] | Some l \<Rightarrow> l)) [] include_names
     @ filter (\<lambda>e. en_title e \<notin> set exclude_names) matched"

definition rank_desc :: "query_entity \<Rightarrow> query_entity \<Rightarrow> ordering" where
  "rank_desc left right =
     compare (case en_rank right of None \<Rightarrow> 0 | Some n \<Rightarrow> n) (case en_rank left of None \<Rightarrow> 0 | Some n \<Rightarrow> n)"

definition map_entities_by_rank ::
  "('f, 'd, 'v) local_env \<Rightarrow> 'f local_data \<Rightarrow> string list \<Rightarrow> string list \<Rightarrow> query_entity list" where
  "map_entities_by_rank env data include_names exclude_names =
     add_entity_filters (ld_entities data) (ld_index data)
       (take (lo_top_k_entities env) (sort_by rank_desc (ld_entities data))) include_names exclude_names"

definition embedding_error :: "('f, 'd, 'v) local_env \<Rightarrow> string \<Rightarrow> string \<Rightarrow> query_error" where
  "embedding_error env operation source =
     QueryEmbedding (lo_method env) operation (lo_embedding_model_id env) source"

definition resolve_embedding_prompt_tokens ::
  "('f, 'd, 'v) local_env \<Rightarrow> u64 \<Rightarrow> string \<Rightarrow> string \<Rightarrow> query_error + usize" where
  "resolve_embedding_prompt_tokens env provider_prompt_tokens input operation =
     (if 0 < unat provider_prompt_tokens then Inr (unat provider_prompt_tokens)
      else map_err (embedding_error env operation) (lo_count env input))"

definition embed_mapping_query :: "('f, 'd, 'v) local_env \<Rightarrow> string \<Rightarrow> query_error + 'v \<times> usize" where
  "embed_mapping_query env query =
     and_then (map_err (embedding_error env ''embed Local Search entity mapping query'') (lo_embed env query))
       (\<lambda>(usage, embeddings).
     and_then (resolve_embedding_prompt_tokens env usage query
       ''count Local Search entity mapping embedding input tokens'') (\<lambda>prompt_tokens.
       case embeddings of
         [] \<Rightarrow> Inl (embedding_error env ''read Local Search query embedding'' ''provider returned no query embedding'')
       | vector # _ \<Rightarrow>
           if lo_vector_finite env vector then Inr (vector, prompt_tokens)
           else Inl (embedding_error env ''validate Local Search query embedding''
                  ''provider returned a non-finite query embedding'')))"

definition search_error :: "('f, 'd, 'v) local_env \<Rightarrow> vector_error \<Rightarrow> query_error" where
  "search_error env e =
     (case e of
        MissingIndex source \<Rightarrow> MissingVectorIndex (lo_method env) ''search entity_description'' (lo_index_name env) source
      | OtherVectorError source \<Rightarrow>
          InvalidVectorIndex (lo_method env) ''search entity_description'' (lo_index_name env) source)"

definition retrieve_mapping_candidates ::
  "('f, 'd, 'v) local_env \<Rightarrow> 'v \<Rightarrow> query_error + (string \<times> 'f) list" where
  "retrieve_mapping_candidates env vector =
     (if usize_max < lo_top_k_entities env * 2 then
        Inl (InvalidQueryConfig (lo_method env) ''compute Local Search ANN oversampling'' ''top_k_entities * 2 exceeds usize'')
      else map_err (search_error env) (lo_search env vector (lo_top_k_entities env * 2)))"

definition resolve_ann_entity :: "('f, 'd, 'v) local_env \<Rightarrow> 'f local_data \<Rightarrow> string \<Rightarrow> query_entity option" where
  "resolve_ann_entity env data i =
     Option.bind
       (case qi_entity_by_id (ld_index data) i of
          Some position \<Rightarrow> Some position
        | None \<Rightarrow> Option.bind (lo_parse_uuid env i) (qi_entity_by_id (ld_index data)))
       (nth_opt (ld_entities data))"

text \<open>The candidate of one result, for the filter event.\<close>

definition ann_filter_candidate ::
  "('f, 'd, 'v) local_env \<Rightarrow> 'f local_data \<Rightarrow> string list \<Rightarrow> usize \<times> string \<times> 'f \<Rightarrow> 'f candidate option" where
  "ann_filter_candidate env data exclude_names result =
     (case result of (index, i, score) \<Rightarrow>
        (case resolve_ann_entity env data i of
           Some e \<Rightarrow>
             (let excluded = en_title e \<in> set exclude_names in
              entity_candidate_with_rank env e index (Some score)
                (Some (if excluded then ExplicitlyExcluded else AnnResult)) (\<not> excluded))
         | None \<Rightarrow>
             map_option (\<lambda>c. c\<lparr>ca_selected := False, ca_reason := Some StaleReference\<rparr>)
               (raw_ann_candidate env i score index)))"

definition resolve_ann_entities ::
  "('f, 'd, 'v) local_env \<Rightarrow> 'f local_data \<Rightarrow> bool \<Rightarrow> (string \<times> 'f) list \<Rightarrow> string list
   \<Rightarrow> query_entity list \<times> 'f candidate list option" where
  "resolve_ann_entities env data capture results exclude_names =
     (List.map_filter (\<lambda>(i, _). resolve_ann_entity env data i) results,
      captured capture (Some (List.map_filter (ann_filter_candidate env data exclude_names) (enumerate_from 0 results))))"

definition map_entities_by_embedding ::
  "('f, 'd, 'v) local_env \<Rightarrow> 'f local_data \<Rightarrow> string \<Rightarrow> string list \<Rightarrow> string list
   \<Rightarrow> query_error + query_entity list \<times> usage" where
  "map_entities_by_embedding env data query include_names exclude_names =
     and_then (embed_mapping_query env query) (\<lambda>(vector, prompt_tokens).
     and_then (retrieve_mapping_candidates env vector) (\<lambda>results.
       Inr (add_entity_filters (ld_entities data) (ld_index data)
              (fst (resolve_ann_entities env data False results exclude_names)) include_names exclude_names,
            \<lparr>us_llm_calls = 1, us_prompt_tokens = prompt_tokens, us_output_tokens = 0\<rparr>)))"

definition map_entities ::
  "('f, 'd, 'v) local_env \<Rightarrow> 'f local_data \<Rightarrow> string \<Rightarrow> string list \<Rightarrow> string list
   \<Rightarrow> query_error + query_entity list \<times> usage" where
  "map_entities env data query include_names exclude_names =
     (if query = [] then Inr (map_entities_by_rank env data include_names exclude_names, usage_default)
      else map_entities_by_embedding env data query include_names exclude_names)"

text \<open>What the filter events are given: the candidates considered, then those selected.\<close>

definition entity_filter_candidates ::
  "'f local_data \<Rightarrow> query_entity list \<Rightarrow> string list \<Rightarrow> 'f candidate list \<Rightarrow> selection_reason option
   \<Rightarrow> 'f candidate list \<times> 'f candidate list" where
  "entity_filter_candidates data selected_entities include_names filter_candidates selected_reason =
     (let included = included_entities (ld_entities data) (ld_index data) include_names
      in (map (\<lambda>e. (entity_candidate e)\<lparr>ca_selected := True, ca_reason := Some ExplicitlyIncluded\<rparr>) included
            @ filter_candidates,
          map (\<lambda>(index, e). (entity_candidate e)\<lparr>ca_selected := True,
              ca_reason := (if index < length included then Some ExplicitlyIncluded else selected_reason)\<rparr>)
            (enumerate_from 0 selected_entities)))"

subsection \<open>The whole context\<close>

definition build_conversation_history ::
  "('f, 'd, 'v) local_env \<Rightarrow> bool \<Rightarrow> conversation_history \<Rightarrow> usize \<Rightarrow> query_error + 'f local_section option" where
  "build_conversation_history env capture history remaining =
     and_then (build_user_context (lo_csv env) (lo_count env) (lo_history_max_turns env) remaining history) (\<lambda>built.
       if trim (cc_text built) = [] then Inr None
       else
         and_then (local_count env (cc_text built) ''count conversation history context'') (\<lambda>tokens_used.
           let candidate_count = length (take_turns (lo_history_max_turns env) (user_turns history));
               selected_count = context_table_len (cc_table built)
           in Inr (Some \<lparr>sc_text = cc_text built, sc_table = cc_table built, sc_tokens_used = tokens_used,
                sc_explainability = captured capture (Some
                  \<lparr>se_kind = ConversationHistory, se_name = None, se_token_budget = lo_max_context_tokens env,
                   se_tokens_used = tokens_used, se_candidate_count = candidate_count,
                   se_selected_count = selected_count, se_selected_record_ids = [],
                   se_truncated = selected_count < candidate_count, se_candidates = []\<rparr>)\<rparr>)))"

text \<open>Adding an optional section under a table name; \<open>keep_empty\<close> adds its text even when it is empty.\<close>

definition add_section :: "bool \<Rightarrow> string \<Rightarrow> 'f local_section option \<Rightarrow> 'f context_assembly \<Rightarrow> 'f context_assembly" where
  "add_section keep_empty name v a =
     (case v of
        None \<Rightarrow> a
      | Some s \<Rightarrow>
          (let a = a\<lparr>as_tokens_used := usize_sat_add (as_tokens_used a) (sc_tokens_used s),
                     as_explainability := as_explainability a @
                       (case sc_explainability s of None \<Rightarrow> [] | Some c \<Rightarrow> [c])\<rparr>
           in if keep_empty \<or> sc_text s \<noteq> [] then
                a\<lparr>as_parts := as_parts a @ [sc_text s], as_tables := om_insert name (sc_table s) (as_tables a)\<rparr>
              else a))"

definition build_context_sections ::
  "('f, 'd, 'v) local_env \<Rightarrow> 'f local_data \<Rightarrow> bool \<Rightarrow> query_entity list \<Rightarrow> conversation_history option
   \<Rightarrow> query_error + 'f context_assembly" where
  "build_context_sections env data capture selected_entities history =
     (let budget = lo_max_context_tokens env;
          start = \<lparr>as_parts = [], as_tables = [], as_tokens_used = 0, as_explainability = []\<rparr> in
      and_then (case history of None \<Rightarrow> Inr None | Some h \<Rightarrow> build_conversation_history env capture h budget) (\<lambda>talk.
      let a = add_section True ''conversation history'' talk start;
          remaining = (case talk of None \<Rightarrow> budget | Some s \<Rightarrow> budget - sc_tokens_used s);
          community_tokens = lo_proportion env remaining (lo_community_prop env);
          local_tokens = lo_proportion env remaining (lo_rest_prop env (lo_community_prop env) (lo_text_unit_prop env));
          source_tokens = lo_proportion env remaining (lo_text_unit_prop env) in
      and_then (build_community_context env data capture selected_entities community_tokens) (\<lambda>community.
      let a = add_section True ''reports'' community a in
      and_then (build_local_context env data capture selected_entities local_tokens) (\<lambda>sections.
      let a = a\<lparr>as_tokens_used := usize_sat_add (as_tokens_used a) (ls_tokens_used sections),
                as_explainability := as_explainability a @ ls_explainability sections\<rparr>;
          a = (if trim (ls_text sections) = [] then a
               else a\<lparr>as_parts := as_parts a @ [ls_text sections],
                      as_tables := foldl (\<lambda>m (k, t). om_insert k t m) (as_tables a) (ls_tables sections)\<rparr>) in
      and_then (build_source_context env data capture selected_entities source_tokens) (\<lambda>source.
        Inr (add_section False ''sources'' source a))))))"

definition local_table_requires_in_context :: "string \<Rightarrow> bool" where
  "local_table_requires_in_context name \<longleftrightarrow> name \<notin> {''conversation history'', ''reports'', ''sources''}"

definition local_context_records ::
  "('f, 'd, 'v) local_env \<Rightarrow> context_tables \<Rightarrow> query_error + (string, 'd) omap" where
  "local_context_records env tables =
     try_map (\<lambda>(name, table).
       and_then (to_dataframe (lo_frames env) (lo_method env) ''build Local context records'' table) (\<lambda>frame.
       and_then (if local_table_requires_in_context name then
           map_err (QueryContext (lo_method env) ''mark standard Local context records'')
             (lo_with_column env ''in_context'' (replicate (lo_height env frame) True) frame)
         else Inr frame) (\<lambda>frame. Inr (name, frame)))) tables"

record ('f, 'd) local_context_build =
  lb_context :: "'d query_context"
  lb_usage :: usage
  lb_context_tokens :: usize
  lb_explainability :: "'f section_explainability list" \<comment> \<open>given to the events\<close>

definition build_with_entity_filters ::
  "('f, 'd, 'v) local_env \<Rightarrow> 'f local_data \<Rightarrow> bool \<Rightarrow> string \<Rightarrow> conversation_history option \<Rightarrow> string list
   \<Rightarrow> string list \<Rightarrow> query_error + ('f, 'd) local_context_build" where
  "build_with_entity_filters env data capture query history include_names exclude_names =
     (let mapping = (case history of None \<Rightarrow> query | Some h \<Rightarrow> mapping_query query (lo_history_max_turns env) h) in
      and_then (map_entities env data mapping include_names exclude_names) (\<lambda>(selected_entities, usage).
      and_then (build_context_sections env data capture selected_entities history) (\<lambda>assembly.
      and_then (local_context_records env (as_tables assembly)) (\<lambda>records.
        Inr \<lparr>lb_context = \<lparr>qc_text = Text (join_with [CHR 0x0A, CHR 0x0A] (as_parts assembly)),
                          qc_records = RecordTables records\<rparr>,
             lb_usage = usage, lb_context_tokens = as_tokens_used assembly,
             lb_explainability = as_explainability assembly\<rparr>))))"

subsection \<open>What the events are given\<close>

definition section_candidates :: "section_kind \<Rightarrow> 'f section_explainability list \<Rightarrow> 'f candidate list" where
  "section_candidates kind sections = concat (map se_candidates (filter (\<lambda>s. se_kind s = kind) sections))"

text \<open>On a 64-bit platform the conversion of a count to \<open>u64\<close> never fails.\<close>

definition section_built :: "'f section_explainability \<Rightarrow> context_section" where
  "section_built s =
     (context_section_new (se_kind s) (of_nat (se_token_budget s)))
       \<lparr>cs_name := se_name s, cs_tokens_used := of_nat (se_tokens_used s),
        cs_candidate_count := of_nat (se_candidate_count s), cs_selected_count := of_nat (se_selected_count s),
        cs_truncated := se_truncated s, cs_selected_record_ids := se_selected_record_ids s\<rparr>"

end
