(* ===== verification/Python_Random.thy ===== *)
theory Python_Random
  imports Prelude "HOL-Library.Multiset"
begin

unbundle bit_operations_syntax

text \<open>
  The CPython-compatible Mersenne Twister of \<open>query/global/random.rs\<close>: seeding, output, bounded draws
  and the shuffle. The state array is a list of 624 words; \<open>rand_below\<close> draws until a candidate is
  small enough, so it is a partial function, as the code's loop has no bound.
\<close>

definition state_size :: nat where
  "state_size = 624"

definition period :: nat where
  "period = 397"

record python_random =
  py_state :: "u32 list"
  py_index :: usize

definition set_state :: "python_random \<Rightarrow> usize \<Rightarrow> u32 \<Rightarrow> python_random" where
  "set_state r i v = r\<lparr>py_state := (py_state r)[i := v]\<rparr>"

definition mix :: "u32 \<Rightarrow> u32" where
  "mix w = w XOR drop_bit 30 w"

definition genrand_step :: "python_random \<Rightarrow> usize \<Rightarrow> python_random" where
  "genrand_step r i = set_state r i (1812433253 * mix (py_state r ! (i - 1)) + of_nat i)"

definition init_genrand :: "u32 \<Rightarrow> python_random \<Rightarrow> python_random" where
  "init_genrand seed r =
     (foldl genrand_step (set_state r 0 seed) [1..<state_size])\<lparr>py_index := state_size\<rparr>"

definition wrap_state :: "python_random \<times> usize \<Rightarrow> python_random \<times> usize" where
  "wrap_state ri =
     (case ri of (r, i) \<Rightarrow>
        if state_size \<le> i then (set_state r 0 (py_state r ! (state_size - 1)), 1) else (r, i))"

definition key_step :: "u32 list \<Rightarrow> (python_random \<times> usize) \<times> usize \<Rightarrow> (python_random \<times> usize) \<times> usize" where
  "key_step keys st =
     (case st of ((r, i), j) \<Rightarrow>
        let v = (py_state r ! i XOR mix (py_state r ! (i - 1)) * 1664525) + keys ! j + of_nat j
        in (wrap_state (set_state r i v, i + 1), if length keys \<le> j + 1 then 0 else j + 1))"

definition tail_step :: "python_random \<times> usize \<Rightarrow> python_random \<times> usize" where
  "tail_step ri =
     (case ri of (r, i) \<Rightarrow>
        let v = (py_state r ! i XOR mix (py_state r ! (i - 1)) * 1566083941) - of_nat i
        in wrap_state (set_state r i v, i + 1))"

definition init_by_array :: "u32 list \<Rightarrow> python_random \<Rightarrow> python_random" where
  "init_by_array keys r =
     (case (key_step keys ^^ max state_size (length keys)) ((init_genrand 19650218 r, 1), 0) of
        (ri, _) \<Rightarrow>
          (case (tail_step ^^ (state_size - 1)) ri of
             (r, _) \<Rightarrow> set_state r 0 0x80000000))"

definition random_new :: "u32 \<Rightarrow> python_random" where
  "random_new seed = init_by_array [seed] \<lparr>py_state = replicate state_size 0, py_index = state_size\<rparr>"

definition twist_step :: "python_random \<Rightarrow> usize \<Rightarrow> python_random" where
  "twist_step r i =
     (let value = (py_state r ! i AND 0x80000000) OR (py_state r ! ((i + 1) mod state_size) AND 0x7fffffff)
      in set_state r i (py_state r ! ((i + period) mod state_size) XOR drop_bit 1 value
           XOR (if value AND 1 = 0 then 0 else 0x9908b0df)))"

definition regenerate :: "python_random \<Rightarrow> python_random" where
  "regenerate r =
     (if state_size \<le> py_index r then (foldl twist_step r [0..<state_size])\<lparr>py_index := 0\<rparr> else r)"

definition temper :: "u32 \<Rightarrow> u32" where
  "temper value =
     (let value = value XOR drop_bit 11 value;
          value = value XOR (push_bit 7 value AND 0x9d2c5680);
          value = value XOR (push_bit 15 value AND 0xefc60000)
      in value XOR drop_bit 18 value)"

definition genrand_uint32 :: "python_random \<Rightarrow> u32 \<times> python_random" where
  "genrand_uint32 r =
     (let r = regenerate r
      in (temper (py_state r ! py_index r), r\<lparr>py_index := py_index r + 1\<rparr>))"

definition getrandbits :: "nat \<Rightarrow> python_random \<Rightarrow> u32 \<times> python_random" where
  "getrandbits bits r = (case genrand_uint32 r of (v, r) \<Rightarrow> (drop_bit (32 - bits) v, r))"

text \<open>\<open>usize::BITS - upper.leading_zeros()\<close>\<close>

fun bit_length :: "nat \<Rightarrow> nat" where
  "bit_length n = (if n = 0 then 0 else Suc (bit_length (n div 2)))"

declare bit_length.simps [simp del]

partial_function (option) draw_below :: "nat \<Rightarrow> usize \<Rightarrow> python_random \<Rightarrow> (usize \<times> python_random) option" where
  "draw_below bits upper r =
     (case getrandbits bits r of (v, r') \<Rightarrow>
        if unat v < upper then Some (unat v, r') else draw_below bits upper r')"

declare draw_below.simps [code]

definition rand_below :: "usize \<Rightarrow> python_random \<Rightarrow> (usize \<times> python_random) option" where
  "rand_below upper r = draw_below (bit_length upper) upper r"

definition swap :: "nat \<Rightarrow> nat \<Rightarrow> 'a list \<Rightarrow> 'a list" where
  "swap i j xs = xs[i := xs ! j, j := xs ! i]"

fun shuffle_from :: "usize list \<Rightarrow> 'a list \<Rightarrow> python_random \<Rightarrow> ('a list \<times> python_random) option" where
  "shuffle_from [] values r = Some (values, r)"
| "shuffle_from (upper # us) values r =
     Option.bind (rand_below (upper + 1) r) (\<lambda>(selected, r). shuffle_from us (swap upper selected values) r)"

definition shuffle :: "'a list \<Rightarrow> python_random \<Rightarrow> ('a list \<times> python_random) option" where
  "shuffle values r = shuffle_from (rev [1..<length values]) values r"

subsection \<open>The state stays in bounds\<close>

text \<open>No index leaves the array, so no access panics.\<close>

definition random_ok :: "python_random \<Rightarrow> bool" where
  "random_ok r \<longleftrightarrow> length (py_state r) = state_size \<and> py_index r \<le> state_size"

lemma length_set_state [simp]: "length (py_state (set_state r i v)) = length (py_state r)"
  by (simp add: set_state_def)

lemma index_set_state [simp]: "py_index (set_state r i v) = py_index r"
  by (simp add: set_state_def)

lemma fold_shape:
  assumes "\<And>r i. length (py_state (f r i)) = length (py_state r) \<and> py_index (f r i) = py_index r"
  shows "length (py_state (foldl f r is)) = length (py_state r) \<and> py_index (foldl f r is) = py_index r"
  by (induction "is" arbitrary: r) (simp_all add: assms)

definition seed_ok :: "python_random \<times> usize \<Rightarrow> bool" where
  "seed_ok ri \<longleftrightarrow> random_ok (fst ri) \<and> 1 \<le> snd ri \<and> snd ri < state_size"

lemma seed_ok_wrap: "random_ok r \<Longrightarrow> 1 \<le> i \<Longrightarrow> seed_ok (wrap_state (r, i))"
  by (simp add: seed_ok_def wrap_state_def random_ok_def state_size_def)

lemma random_ok_set [simp]: "random_ok (set_state r i v) \<longleftrightarrow> random_ok r"
  by (simp add: random_ok_def)

lemma seed_ok_tail: "seed_ok ri \<Longrightarrow> seed_ok (tail_step ri)"
proof -
  assume ok: "seed_ok ri"
  obtain r i where ri: "ri = (r, i)" by fastforce
  show ?thesis unfolding ri tail_step_def prod.case Let_def
    by (rule seed_ok_wrap) (use ok in \<open>simp_all add: ri seed_ok_def\<close>)
qed

lemma seed_ok_key:
  assumes "seed_ok (fst st)" "snd st < length keys"
  shows "seed_ok (fst (key_step keys st)) \<and> snd (key_step keys st) < length keys"
proof -
  obtain r i j where st: "st = ((r, i), j)" by (metis surj_pair)
  have "random_ok r" using assms by (simp add: st seed_ok_def)
  then show ?thesis using assms(2)
    unfolding st key_step_def prod.case Let_def fst_conv snd_conv by (intro conjI seed_ok_wrap) auto
qed

lemma seed_ok_keys:
  assumes "seed_ok (fst st)" "snd st < length keys"
  shows "seed_ok (fst ((key_step keys ^^ n) st)) \<and> snd ((key_step keys ^^ n) st) < length keys"
  by (induction n) (use assms seed_ok_key in auto)

lemma seed_ok_tails: "seed_ok ri \<Longrightarrow> seed_ok ((tail_step ^^ n) ri)"
  by (induction n) (simp_all add: seed_ok_tail)

lemma random_ok_genrand_init: "length (py_state r) = state_size \<Longrightarrow> random_ok (init_genrand seed r)"
  using fold_shape [of genrand_step "set_state r 0 seed"]
  by (simp add: init_genrand_def random_ok_def genrand_step_def)

lemma random_ok_init_by_array:
  assumes "length (py_state r) = state_size" "keys \<noteq> []"
  shows "random_ok (init_by_array keys r)"
proof -
  obtain ri j where keyed: "(key_step keys ^^ max state_size (length keys)) ((init_genrand 19650218 r, 1), 0) = (ri, j)"
    by fastforce
  obtain r' i where tail: "(tail_step ^^ (state_size - 1)) ri = (r', i)" by fastforce
  have "seed_ok (init_genrand 19650218 r, 1)"
    using random_ok_genrand_init [OF assms(1)] by (simp add: seed_ok_def state_size_def)
  then have "seed_ok ri"
    using seed_ok_keys [of "((init_genrand 19650218 r, 1), 0)" keys "max state_size (length keys)",
        unfolded keyed fst_conv snd_conv] assms(2) by blast
  then have "seed_ok (r', i)" using seed_ok_tails tail by metis
  then have "random_ok r'" by (simp add: seed_ok_def)
  then show ?thesis unfolding init_by_array_def keyed prod.case tail by simp
qed

lemma random_ok_new: "random_ok (random_new seed)"
  unfolding random_new_def by (rule random_ok_init_by_array) simp_all

lemma random_ok_regenerate: "random_ok r \<Longrightarrow> random_ok (regenerate r) \<and> py_index (regenerate r) < state_size"
  using fold_shape [of twist_step r] by (simp add: regenerate_def random_ok_def twist_step_def Let_def state_size_def)

lemma random_ok_genrand: "random_ok r \<Longrightarrow> genrand_uint32 r = (v, r') \<Longrightarrow> random_ok r'"
  using random_ok_regenerate [of r] by (auto simp: genrand_uint32_def Let_def random_ok_def)

lemma random_ok_getrandbits: "random_ok r \<Longrightarrow> getrandbits bits r = (v, r') \<Longrightarrow> random_ok r'"
  by (auto simp: getrandbits_def intro: random_ok_genrand split: prod.splits)

subsection \<open>Bounded draws\<close>

lemma draw_below_result:
  assumes "draw_below bits upper r = Some vr"
  shows "fst vr < upper \<and> (random_ok r \<longrightarrow> random_ok (snd vr))"
proof (rule draw_below.raw_induct
    [where P = "\<lambda>bits upper r vr. fst vr < upper \<and> (random_ok r \<longrightarrow> random_ok (snd vr))", OF _ assms])
  fix draw :: "nat \<Rightarrow> usize \<Rightarrow> python_random \<Rightarrow> (usize \<times> python_random) option"
  fix bits :: nat and upper :: usize and r :: python_random and vr :: "usize \<times> python_random"
  assume IH: "\<And>bits upper r vr. draw bits upper r = Some vr \<Longrightarrow>
      fst vr < upper \<and> (random_ok r \<longrightarrow> random_ok (snd vr))"
    and step: "(case getrandbits bits r of (v, r') \<Rightarrow>
        if unat v < upper then Some (unat v, r') else draw bits upper r') = Some vr"
  obtain w r1 where bits: "getrandbits bits r = (w, r1)" by fastforce
  have ok: "random_ok r \<longrightarrow> random_ok r1" using random_ok_getrandbits [OF _ bits] by blast
  show "fst vr < upper \<and> (random_ok r \<longrightarrow> random_ok (snd vr))"
  proof (cases "unat w < upper")
    case True
    then show ?thesis using step ok by (auto simp: bits)
  next
    case False
    then have "draw bits upper r1 = Some vr" using step by (simp add: bits)
    from IH [OF this] show ?thesis using ok by blast
  qed
qed

lemma rand_below_result:
  "rand_below upper r = Some (v, r') \<Longrightarrow> v < upper \<and> (random_ok r \<longrightarrow> random_ok r')"
  unfolding rand_below_def using draw_below_result by fastforce

text \<open>\<open>rand_below\<close> returns the first small enough value among the successive outputs, when there is one.\<close>

fun bit_draws :: "nat \<Rightarrow> nat \<Rightarrow> python_random \<Rightarrow> u32 list" where
  "bit_draws 0 bits r = []"
| "bit_draws (Suc n) bits r = (case getrandbits bits r of (v, r') \<Rightarrow> v # bit_draws n bits r')"

lemma draw_below_first:
  "\<exists>v \<in> set (bit_draws n bits r). unat v < upper \<Longrightarrow>
   \<exists>r'. draw_below bits upper r = Some (hd (filter (\<lambda>v. v < upper) (map unat (bit_draws n bits r))), r')"
proof (induction n arbitrary: r)
  case (Suc n)
  obtain w r1 where bits: "getrandbits bits r = (w, r1)" by fastforce
  show ?case
  proof (cases "unat w < upper")
    case True
    then show ?thesis by (subst draw_below.simps) (simp add: bits)
  next
    case False
    with Suc.prems have "\<exists>v \<in> set (bit_draws n bits r1). unat v < upper" by (simp add: bits)
    from Suc.IH [OF this] show ?thesis using False by (subst draw_below.simps) (simp add: bits)
  qed
qed simp

subsection \<open>The shuffle\<close>

lemma mset_swap_list: "i < length xs \<Longrightarrow> j < length xs \<Longrightarrow> mset (swap i j xs) = mset xs"
  by (simp add: swap_def mset_swap)

lemma length_swap_list [simp]: "length (swap i j xs) = length xs"
  by (simp add: swap_def)

lemma swap_other: "k \<noteq> i \<Longrightarrow> k \<noteq> j \<Longrightarrow> swap i j xs ! k = xs ! k"
  by (simp add: swap_def)

lemma shuffle_from_mset:
  "shuffle_from us xs r = Some (ys, r') \<Longrightarrow> \<forall>u \<in> set us. u < length xs \<Longrightarrow>
   mset ys = mset xs \<and> (random_ok r \<longrightarrow> random_ok r')"
proof (induction us xs r rule: shuffle_from.induct)
  case (2 upper us xs r)
  then obtain s r1 where draw: "rand_below (upper + 1) r = Some (s, r1)"
    and rest: "shuffle_from us (swap upper s xs) r1 = Some (ys, r')"
    by (auto simp: bind_eq_Some_conv)
  have s: "s < upper + 1" "random_ok r \<longrightarrow> random_ok r1" using rand_below_result [OF draw] by blast+
  have "mset ys = mset (swap upper s xs) \<and> (random_ok r1 \<longrightarrow> random_ok r')"
    using 2(1) [OF draw refl rest] 2(3) by simp
  moreover have "mset (swap upper s xs) = mset xs" using s(1) 2(3) by (intro mset_swap_list) auto
  ultimately show ?case using s(2) by simp
qed simp

lemma shuffle_from_bounds:
  "shuffle_from us xs r = Some (ys, r') \<Longrightarrow> \<forall>u \<in> set us. u < k \<Longrightarrow> k \<le> i \<Longrightarrow> ys ! i = xs ! i"
proof (induction us xs r rule: shuffle_from.induct)
  case (2 upper us xs r)
  then obtain s r1 where draw: "rand_below (upper + 1) r = Some (s, r1)"
    and rest: "shuffle_from us (swap upper s xs) r1 = Some (ys, r')"
    by (auto simp: bind_eq_Some_conv)
  have "s < upper + 1" using rand_below_result [OF draw] by blast
  then have "swap upper s xs ! i = xs ! i" using 2(3,4) by (intro swap_other) auto
  with 2(1) [OF draw refl rest] 2(3,4) show ?case by simp
qed simp

text \<open>The shuffle permutes its input: whenever it returns, the result has the elements of the input, each as
  often, and the generator's array and index are in bounds, as they are after seeding, so no access
  of the generator panics.\<close>

theorem shuffle_permutes:
  assumes "random_ok r" "shuffle xs r = Some (ys, r')"
  shows "mset ys = mset xs \<and> random_ok r' \<and> random_ok (random_new seed)"
  using shuffle_from_mset [OF assms(2) [unfolded shuffle_def]] random_ok_new [of seed] assms(1) by auto

definition zero_random :: python_random where
  "zero_random = \<lparr>py_state = replicate state_size 0, py_index = 0\<rparr>"

lemma zero_draw:
  "i < state_size \<Longrightarrow> 0 < upper \<Longrightarrow> rand_below upper \<lparr>py_state = replicate state_size 0, py_index = i\<rparr>
     = Some (0, \<lparr>py_state = replicate state_size 0, py_index = i + 1\<rparr>)"
  unfolding rand_below_def
  by (subst draw_below.simps) (simp add: getrandbits_def genrand_uint32_def regenerate_def temper_def Let_def)

lemma sample_shuffle:
  "shuffle [1, 2, 3 :: nat] zero_random = Some ([2, 3, 1], \<lparr>py_state = replicate state_size 0, py_index = 2\<rparr>)"
  unfolding shuffle_def zero_random_def
  by (simp add: zero_draw [unfolded state_size_def] state_size_def upt_rec swap_def)

theorem shuffle_permutes_witness: "mset [2, 3, 1 :: nat] = mset [1, 2, 3] \<and> random_ok (random_new 86)"
proof -
  have "random_ok zero_random" by (simp add: random_ok_def zero_random_def)
  from shuffle_permutes [OF this sample_shuffle, of 86] show ?thesis by simp
qed

end
