(* ===== verification/Dynamic_Selection.thy ===== *)
theory Dynamic_Selection
  imports Query_Parse Expl_Events
begin

text \<open>
  Dynamic community selection (\<open>query/global/dynamic.rs\<close>): communities are rated by repeated model
  calls, wave by wave down the hierarchy, and the reports of the relevant ones are kept.

  Parameters (record \<open>rate_env\<close>): the prompt template, the tokenizer, request validation and the model.
  The model's answer may depend on the prompt and on the number of the repetition. Votes of a wave
  are collected in queue order, as \<open>try_buffered_ordered\<close> returns them. \<open>sn_waves\<close> records the wave
  events the loop emits.
\<close>

subsection \<open>Rating one community\<close>

record dynamic_config =
  dc_threshold :: i64
  dc_keep_parent :: bool
  dc_num_repeats :: usize
  dc_use_summary :: bool
  dc_max_level :: i64

record 'f dynamic_rating =
  dy_community_id :: string
  dy_selected_rating :: i64
  dy_repeated_ratings :: "'f json list"
  dy_selected :: bool
  dy_level :: i64

record 'f community_vote =
  cv_community_id :: string
  cv_selected_rating :: i64
  cv_repeated_ratings :: "'f json list"
  cv_usage :: usage

datatype completion = CompletionFailed string | ContentMissing string | CompletionContent string

record rate_env =
  rv_render :: "string \<Rightarrow> string \<Rightarrow> query_error + string" \<comment> \<open>\<open>render_rate_prompt\<close>\<close>
  rv_count :: "string \<Rightarrow> string + usize"
  rv_request :: "string \<Rightarrow> string \<Rightarrow> string + unit" \<comment> \<open>building and validating the request\<close>
  rv_complete :: "string \<Rightarrow> string \<Rightarrow> usize \<Rightarrow> completion"
  rv_model_id :: string

definition count_or :: "rate_env \<Rightarrow> string \<Rightarrow> string \<Rightarrow> query_error + usize" where
  "count_or env operation s = map_err (QueryContext SearchGlobal operation) (rv_count env s)"

fun rate_repeats ::
  "'f serde \<Rightarrow> rate_env \<Rightarrow> string \<Rightarrow> string \<Rightarrow> usize list \<Rightarrow> usize \<Rightarrow> 'f json list
   \<Rightarrow> query_error + 'f json list \<times> usize" where
  "rate_repeats sd env rendered query [] output_tokens ratings = Inr (ratings, output_tokens)"
| "rate_repeats sd env rendered query (repeat_index # rest) output_tokens ratings =
     and_then (map_err (InvalidQueryConfig SearchGlobal ''build dynamic rating request'') (rv_request env rendered query)) (\<lambda>_.
     and_then (case rv_complete env rendered query repeat_index of
         CompletionFailed source \<Rightarrow>
           Inl (QueryCompletion SearchGlobal ''complete dynamic community rating'' (rv_model_id env) source)
       | ContentMissing source \<Rightarrow>
           Inl (QueryCompletion SearchGlobal ''read dynamic community rating'' (rv_model_id env) source)
       | CompletionContent raw \<Rightarrow> Inr raw) (\<lambda>raw.
     and_then (count_or env ''count dynamic rating output tokens'' raw) (\<lambda>repeat_output.
     and_then (parse_rating sd raw) (\<lambda>rating.
       rate_repeats sd env rendered query rest (usize_sat_add output_tokens repeat_output) (ratings @ [rating])))))"

definition rate_community ::
  "'f serde \<Rightarrow> rate_env \<Rightarrow> dynamic_config \<Rightarrow> string \<Rightarrow> string \<Rightarrow> 'f community_report
   \<Rightarrow> query_error + 'f community_vote" where
  "rate_community sd env cfg query community_id report =
     (let description = (if dc_use_summary cfg then rp_summary report else rp_full_content report) in
      and_then (rv_render env description query) (\<lambda>rendered.
      and_then (count_or env ''count dynamic rating prompt tokens'' rendered) (\<lambda>prompt_tokens.
      and_then (count_or env ''count dynamic rating user tokens'' query) (\<lambda>user_tokens.
      and_then (rate_repeats sd env rendered query [0..<dc_num_repeats cfg] 0 []) (\<lambda>(repeated, output_tokens).
      and_then (majority_vote sd repeated) (\<lambda>vote.
      and_then (ok_or (QueryContext SearchGlobal ''vote on dynamic community rating''
          ''dynamic rating produced no repeated ratings'') vote) (\<lambda>selected.
        Inr \<lparr>cv_community_id = community_id, cv_selected_rating = selected, cv_repeated_ratings = repeated,
             cv_usage = \<lparr>us_llm_calls = dc_num_repeats cfg,
                         us_prompt_tokens = usize_sat_mul (usize_sat_add prompt_tokens user_tokens) (dc_num_repeats cfg),
                         us_output_tokens = output_tokens\<rparr>\<rparr>)))))))"

text \<open>\<open>dbg\<close> is the debug rendering of a string. The ratings run concurrently, and the executor returns the error of
  whichever of them fails first (\<open>Query_Concurrency\<close>); here it is the first of the queue that fails, so an error of
  this definition stands for some error of the wave.\<close>

definition rate_queue ::
  "'f serde \<Rightarrow> rate_env \<Rightarrow> (string \<Rightarrow> string) \<Rightarrow> dynamic_config \<Rightarrow> string \<Rightarrow> (string \<rightharpoonup> 'f community_report)
   \<Rightarrow> string list \<Rightarrow> query_error + 'f community_vote list" where
  "rate_queue sd env dbg cfg query reports_by_id queue =
     try_map (\<lambda>community_id.
       and_then (ok_or (QueryContext SearchGlobal ''rate dynamic community''
           (''community '' @ dbg community_id @ '' has no report'')) (reports_by_id community_id)) (\<lambda>report.
         rate_community sd env cfg query community_id report)) queue"

subsection \<open>The traversal\<close>

record 'f selection =
  sn_queue :: "string list"
  sn_source :: wave_source
  sn_wave_index :: usize
  sn_queued :: "string set" \<comment> \<open>\<open>queued_or_visited\<close>\<close>
  sn_level :: i64
  sn_relevant :: "string set"
  sn_first_seen :: "string list"
  sn_ratings :: "'f dynamic_rating list"
  sn_usage :: usage
  sn_next :: "string list"
  sn_waves :: "(usize \<times> wave_source \<times> string list) list"

definition by_community :: "'f community_report list \<Rightarrow> string \<rightharpoonup> 'f community_report" where
  "by_community reports = collect_map (map (\<lambda>r. (rp_community_id r, r)) reports)"

definition by_short_id :: "community list \<Rightarrow> string \<rightharpoonup> community" where
  "by_short_id communities = collect_map (map (\<lambda>c. (cm_short_id c, c)) communities)"

definition level_map :: "(string \<rightharpoonup> 'f community_report) \<Rightarrow> community list \<Rightarrow> (i64, string list) omap" where
  "level_map reports_by_id communities =
     foldl (\<lambda>levels c.
       if reports_by_id (cm_short_id c) = None then levels
       else om_update [] (\<lambda>ids. if cm_short_id c \<in> set ids then ids else ids @ [cm_short_id c]) (cm_level c) levels)
     [] communities"

definition push_new :: "string set \<times> string list \<Rightarrow> string \<Rightarrow> string set \<times> string list" where
  "push_new st i =
     (case st of (queued, next_queue) \<Rightarrow>
        if i \<in> queued then (queued, next_queue) else (insert i queued, next_queue @ [i]))"

definition push_child ::
  "(string \<rightharpoonup> 'f community_report) \<Rightarrow> string set \<times> string list \<Rightarrow> i64 \<Rightarrow> string set \<times> string list" where
  "push_child reports_by_id st child =
     (let child_id = int_to_dec child in
      if reports_by_id child_id = None then st else push_new st child_id)"

definition vote_step ::
  "dynamic_config \<Rightarrow> (string \<rightharpoonup> 'f community_report) \<Rightarrow> (string \<rightharpoonup> community) \<Rightarrow> 'f selection
   \<Rightarrow> string \<times> 'f community_vote \<Rightarrow> 'f selection" where
  "vote_step cfg reports_by_id communities_by_id st cv =
     (case cv of (community_id, vote) \<Rightarrow>
        let st = st\<lparr>sn_usage := usage_add (sn_usage st) (cv_usage vote)\<rparr>;
            st = (if dc_threshold cfg \<le> cv_selected_rating vote then
                let st = (if community_id \<in> sn_relevant st then st
                          else st\<lparr>sn_relevant := insert community_id (sn_relevant st),
                                  sn_first_seen := sn_first_seen st @ [community_id]\<rparr>)
                in case communities_by_id community_id of
                     None \<Rightarrow> st
                   | Some c \<Rightarrow>
                       let st = (if dc_keep_parent cfg then st
                                 else st\<lparr>sn_relevant := sn_relevant st - {int_to_dec (cm_parent c)}\<rparr>)
                       in case foldl (push_child reports_by_id) (sn_queued st, sn_next st) (cm_children c) of
                            (queued, next_queue) \<Rightarrow> st\<lparr>sn_queued := queued, sn_next := next_queue\<rparr>
              else st)
        in st\<lparr>sn_ratings := sn_ratings st @
             [\<lparr>dy_community_id = cv_community_id vote, dy_selected_rating = cv_selected_rating vote,
               dy_repeated_ratings = cv_repeated_ratings vote, dy_selected = False,
               dy_level = (case communities_by_id community_id of None \<Rightarrow> sn_level st | Some c \<Rightarrow> cm_level c)\<rparr>]\<rparr>)"

text \<open>The end of a wave: the next level is taken when nothing is relevant yet and no child was queued.\<close>

definition finish_wave :: "dynamic_config \<Rightarrow> (i64, string list) omap \<Rightarrow> 'f selection \<Rightarrow> 'f selection" where
  "finish_wave cfg levels st =
     (let level = i64_sat_add (sn_level st) 1;
          st = st\<lparr>sn_level := level, sn_source := ChildExpansion\<rparr>;
          st = (if sn_next st = [] \<and> sn_relevant st = {} \<and> level \<le> dc_max_level cfg then
                  (case map_of levels level of
                     None \<Rightarrow> st
                   | Some ids \<Rightarrow>
                       (case foldl push_new (sn_queued st, sn_next st) ids of
                          (queued, next_queue) \<Rightarrow>
                            st\<lparr>sn_source := Fallback, sn_queued := queued, sn_next := next_queue\<rparr>))
                else st)
      in st\<lparr>sn_queue := sn_next st, sn_next := [], sn_wave_index := usize_sat_add (sn_wave_index st) 1\<rparr>)"

definition run_wave ::
  "dynamic_config \<Rightarrow> (string \<rightharpoonup> 'f community_report) \<Rightarrow> (string \<rightharpoonup> community) \<Rightarrow> (i64, string list) omap
   \<Rightarrow> 'f selection \<Rightarrow> 'f community_vote list \<Rightarrow> 'f selection" where
  "run_wave cfg reports_by_id communities_by_id levels st votes =
     finish_wave cfg levels
       (foldl (vote_step cfg reports_by_id communities_by_id)
         (st\<lparr>sn_waves := sn_waves st @ [(sn_wave_index st, sn_source st, sn_queue st)], sn_next := []\<rparr>)
         (zip (sn_queue st) votes))"

lemma push_new_spec:
  "push_new (q, n) i = (q', n') \<Longrightarrow> \<exists>new. q' = q \<union> set new \<and> n' = n @ new \<and> distinct new \<and> set new \<inter> q = {} \<and> set new \<subseteq> {i}"
  by (auto simp: push_new_def split: if_splits)

lemma push_fold_spec:
  assumes "\<And>q n i q' n'. f (q, n) i = (q', n') \<Longrightarrow>
     \<exists>new. q' = q \<union> set new \<and> n' = n @ new \<and> distinct new \<and> set new \<inter> q = {} \<and> set new \<subseteq> ok i"
  shows "foldl f (q, n) xs = (q', n') \<Longrightarrow>
     \<exists>new. q' = q \<union> set new \<and> n' = n @ new \<and> distinct new \<and> set new \<inter> q = {} \<and> set new \<subseteq> (\<Union>x \<in> set xs. ok x)"
proof (induction xs arbitrary: q n)
  case Nil
  then show ?case by simp
next
  case (Cons x xs)
  obtain q1 n1 where step: "f (q, n) x = (q1, n1)" by fastforce
  with Cons.prems have rest: "foldl f (q1, n1) xs = (q', n')" by simp
  obtain a where a: "q1 = q \<union> set a" "n1 = n @ a" "distinct a" "set a \<inter> q = {}" "set a \<subseteq> ok x"
    using assms [OF step] by blast
  obtain b where b: "q' = q1 \<union> set b" "n' = n1 @ b" "distinct b" "set b \<inter> q1 = {}" "set b \<subseteq> (\<Union>x \<in> set xs. ok x)"
    using Cons.IH [OF rest] by blast
  from a b show ?case by (intro exI [of _ "a @ b"]) auto
qed

lemma push_children_spec:
  assumes "foldl (push_child reports) (q, n) xs = (q', n')"
  shows "\<exists>new. q' = q \<union> set new \<and> n' = n @ new \<and> distinct new \<and> set new \<inter> q = {} \<and> set new \<subseteq> dom reports"
proof -
  have "\<exists>new. q' = q \<union> set new \<and> n' = n @ new \<and> distinct new \<and> set new \<inter> q = {} \<and> set new \<subseteq> (\<Union>x \<in> set xs. dom reports)"
    by (rule push_fold_spec [OF _ assms])
      (auto simp: push_child_def push_new_def Let_def split: if_splits)
  then obtain new where "q' = q \<union> set new" "n' = n @ new" "distinct new" "set new \<inter> q = {}"
    "set new \<subseteq> (\<Union>x \<in> set xs. dom reports)"
    by blast
  moreover from this(5) have "set new \<subseteq> dom reports" by blast
  ultimately show ?thesis by blast
qed

lemma push_level_spec:
  "foldl push_new (q, n) xs = (q', n') \<Longrightarrow>
   \<exists>new. q' = q \<union> set new \<and> n' = n @ new \<and> distinct new \<and> set new \<inter> q = {} \<and> set new \<subseteq> set xs"
  using push_fold_spec [of push_new "\<lambda>i. {i}", OF push_new_spec] by simp

lemma vote_step_queue:
  "\<exists>new. sn_queued (vote_step cfg rs cs st cv) = sn_queued st \<union> set new
     \<and> sn_next (vote_step cfg rs cs st cv) = sn_next st @ new
     \<and> distinct new \<and> set new \<inter> sn_queued st = {} \<and> set new \<subseteq> dom rs"
proof -
  obtain c vote where cv: "cv = (c, vote)" by fastforce
  show ?thesis
  proof (cases "dc_threshold cfg \<le> cv_selected_rating vote \<and> cs c \<noteq> None")
    case True
    then obtain m where m: "cs c = Some m" by blast
    obtain q n where push: "foldl (push_child rs) (sn_queued st, sn_next st) (cm_children m) = (q, n)" by fastforce
    have "sn_queued (vote_step cfg rs cs st cv) = q \<and> sn_next (vote_step cfg rs cs st cv) = n"
      using True push by (simp add: vote_step_def cv m Let_def)
    then show ?thesis using push_children_spec [OF push] by simp
  next
    case False
    then have "sn_queued (vote_step cfg rs cs st cv) = sn_queued st \<and> sn_next (vote_step cfg rs cs st cv) = sn_next st"
      by (auto simp: vote_step_def cv Let_def split: option.split)
    then show ?thesis by (intro exI [of _ "[]"]) simp
  qed
qed

lemma vote_step_frame [frame_simps]:
  "sn_queue (vote_step cfg rs cs st cv) = sn_queue st" "sn_source (vote_step cfg rs cs st cv) = sn_source st"
  "sn_level (vote_step cfg rs cs st cv) = sn_level st" "sn_waves (vote_step cfg rs cs st cv) = sn_waves st"
  by (cases cv; simp add: vote_step_def Let_def split: option.split prod.split)+

lemma vote_fold_queue:
  "\<exists>new. sn_queued (foldl (vote_step cfg rs cs) st cvs) = sn_queued st \<union> set new
     \<and> sn_next (foldl (vote_step cfg rs cs) st cvs) = sn_next st @ new
     \<and> distinct new \<and> set new \<inter> sn_queued st = {} \<and> set new \<subseteq> dom rs"
proof (induction cvs arbitrary: st)
  case Nil
  then show ?case by (intro exI [of _ "[]"]) simp
next
  case (Cons cv cvs)
  let ?st = "vote_step cfg rs cs st cv"
  obtain a where a: "sn_queued ?st = sn_queued st \<union> set a" "sn_next ?st = sn_next st @ a"
     "distinct a" "set a \<inter> sn_queued st = {}" "set a \<subseteq> dom rs"
    using vote_step_queue by blast
  obtain b where b: "sn_queued (foldl (vote_step cfg rs cs) ?st cvs) = sn_queued ?st \<union> set b"
     "sn_next (foldl (vote_step cfg rs cs) ?st cvs) = sn_next ?st @ b"
     "distinct b" "set b \<inter> sn_queued ?st = {}" "set b \<subseteq> dom rs"
    using Cons.IH by blast
  from a b show ?case by (intro exI [of _ "a @ b"]) auto
qed

lemma vote_fold_frame:
  "sn_queue (foldl (vote_step cfg rs cs) st cvs) = sn_queue st" "sn_source (foldl (vote_step cfg rs cs) st cvs) = sn_source st"
  "sn_level (foldl (vote_step cfg rs cs) st cvs) = sn_level st" "sn_waves (foldl (vote_step cfg rs cs) st cvs) = sn_waves st"
  by (induction cvs arbitrary: st) (simp_all add: frame_simps)

definition level_ids :: "(i64, string list) omap \<Rightarrow> string set" where
  "level_ids levels = (\<Union>e \<in> set levels. set (snd e))"

lemma finish_wave_spec:
  "\<exists>new. sn_queued (finish_wave cfg levels st) = sn_queued st \<union> set new
     \<and> sn_queue (finish_wave cfg levels st) = sn_next st @ new \<and> sn_next (finish_wave cfg levels st) = []
     \<and> distinct new \<and> set new \<inter> sn_queued st = {} \<and> set new \<subseteq> level_ids levels
     \<and> sn_waves (finish_wave cfg levels st) = sn_waves st \<and> sn_relevant (finish_wave cfg levels st) = sn_relevant st
     \<and> sn_first_seen (finish_wave cfg levels st) = sn_first_seen st \<and> sn_ratings (finish_wave cfg levels st) = sn_ratings st"
proof -
  let ?level = "i64_sat_add (sn_level st) 1"
  show ?thesis
  proof (cases "sn_next st = [] \<and> sn_relevant st = {} \<and> ?level \<le> dc_max_level cfg \<and> map_of levels ?level \<noteq> None")
    case True
    then obtain ids where ids: "map_of levels ?level = Some ids" by blast
    obtain q n where push: "foldl push_new (sn_queued st, sn_next st) ids = (q, n)" by fastforce
    have "set ids \<subseteq> level_ids levels" using map_of_SomeD [OF ids] by (force simp: level_ids_def)
    moreover obtain new where "q = sn_queued st \<union> set new" "n = sn_next st @ new" "distinct new"
      "set new \<inter> sn_queued st = {}" "set new \<subseteq> set ids"
      using push_level_spec [OF push] by blast
    ultimately show ?thesis using True push ids
      by (intro exI [of _ new]) (auto simp: finish_wave_def Let_def)
  next
    case False
    then show ?thesis
      by (intro exI [of _ "[]"]) (auto simp: finish_wave_def Let_def split: option.split)
  qed
qed

lemma run_wave_queue:
  "\<exists>new. sn_queued (run_wave cfg rs cs levels st votes) = sn_queued st \<union> set new
     \<and> sn_queue (run_wave cfg rs cs levels st votes) = new \<and> sn_next (run_wave cfg rs cs levels st votes) = []
     \<and> distinct new \<and> set new \<inter> sn_queued st = {} \<and> set new \<subseteq> dom rs \<union> level_ids levels"
proof -
  let ?st = "st\<lparr>sn_waves := sn_waves st @ [(sn_wave_index st, sn_source st, sn_queue st)], sn_next := []\<rparr>"
  let ?after = "foldl (vote_step cfg rs cs) ?st (zip (sn_queue st) votes)"
  obtain a where a: "sn_queued ?after = sn_queued ?st \<union> set a" "sn_next ?after = sn_next ?st @ a"
     "distinct a" "set a \<inter> sn_queued ?st = {}" "set a \<subseteq> dom rs"
    using vote_fold_queue by blast
  obtain b where b: "sn_queued (finish_wave cfg levels ?after) = sn_queued ?after \<union> set b"
     "sn_queue (finish_wave cfg levels ?after) = sn_next ?after @ b" "sn_next (finish_wave cfg levels ?after) = []"
     "distinct b" "set b \<inter> sn_queued ?after = {}" "set b \<subseteq> level_ids levels"
    using finish_wave_spec by blast
  from a b show ?thesis unfolding run_wave_def by (intro exI [of _ "a @ b"]) auto
qed

lemma diff_new_psubset: "x \<in> N \<Longrightarrow> N \<inter> Q = {} \<Longrightarrow> N \<subseteq> U \<Longrightarrow> U - (Q \<union> N) \<subset> U - Q"
  by auto

function select_loop ::
  "'f serde \<Rightarrow> rate_env \<Rightarrow> (string \<Rightarrow> string) \<Rightarrow> dynamic_config \<Rightarrow> string \<Rightarrow> 'f community_report list
   \<Rightarrow> community list \<Rightarrow> (i64, string list) omap \<Rightarrow> 'f selection \<Rightarrow> query_error + 'f selection" where
  "select_loop sd env dbg cfg query reports communities levels st =
     (if sn_queue st = [] then Inr st
      else and_then (rate_queue sd env dbg cfg query (by_community reports) (sn_queue st)) (\<lambda>votes.
        select_loop sd env dbg cfg query reports communities levels
          (run_wave cfg (by_community reports) (by_short_id communities) levels st votes)))"
  by pat_completeness auto

text \<open>Every wave but an empty one queues a community that was not queued before.\<close>

termination
proof (relation "measure (\<lambda>(sd, env, dbg, cfg, query, reports, communities, levels, st).
      card ((rp_community_id ` set reports \<union> level_ids levels) - sn_queued st) + (if sn_queue st = [] then 0 else 1))",
    goal_cases)
  case (2 sd env dbg cfg query reports communities levels st votes)
  let ?U = "rp_community_id ` set reports \<union> level_ids levels"
  let ?st = "run_wave cfg (by_community reports) (by_short_id communities) levels st votes"
  have fin: "finite ?U" by (simp add: level_ids_def)
  have dom: "dom (by_community reports) = rp_community_id ` set reports"
    by (simp add: by_community_def dom_collect_map image_image)
  obtain new where new: "sn_queued ?st = sn_queued st \<union> set new" "sn_queue ?st = new"
     "set new \<inter> sn_queued st = {}" "set new \<subseteq> ?U"
    using run_wave_queue [of cfg "by_community reports" "by_short_id communities" levels st votes] unfolding dom by blast
  have "card (?U - sn_queued ?st) + (if new = [] then 0 else 1) \<le> card (?U - sn_queued st)"
  proof (cases "new = []")
    case False
    then obtain x where "x \<in> set new" by (cases new) auto
    then have "?U - sn_queued ?st \<subset> ?U - sn_queued st" unfolding new(1) by (rule diff_new_psubset [OF _ new(3,4)])
    then have "card (?U - sn_queued ?st) < card (?U - sn_queued st)" using fin by (intro psubset_card_mono) auto
    then show ?thesis by simp
  qed (simp add: new(1))
  moreover have "sn_queue st \<noteq> []" by (rule 2(1))
  ultimately show ?case using new(2) by simp
qed simp

declare select_loop.simps [simp del]

record 'f dynamic_result =
  dr_reports :: "'f community_report list"
  dr_ratings :: "'f dynamic_rating list"
  dr_usage :: usage

definition initial_selection :: "string list \<Rightarrow> 'f selection" where
  "initial_selection starting =
     \<lparr>sn_queue = starting, sn_source = Initial, sn_wave_index = 0, sn_queued = set starting, sn_level = 0,
      sn_relevant = {}, sn_first_seen = [], sn_ratings = [], sn_usage = usage_default, sn_next = [],
      sn_waves = []\<rparr>"

definition selection_result :: "'f community_report list \<Rightarrow> 'f selection \<Rightarrow> 'f dynamic_result" where
  "selection_result reports st =
     \<lparr>dr_reports = List.map_filter (by_community reports) (filter (\<lambda>c. c \<in> sn_relevant st) (sn_first_seen st)),
      dr_ratings = map (\<lambda>r. r\<lparr>dy_selected := dy_community_id r \<in> sn_relevant st\<rparr>) (sn_ratings st),
      dr_usage = sn_usage st\<rparr>"

text \<open>The result, with the waves that were announced.\<close>

definition select_communities ::
  "'f serde \<Rightarrow> rate_env \<Rightarrow> (string \<Rightarrow> string) \<Rightarrow> dynamic_config \<Rightarrow> string \<Rightarrow> 'f community_report list
   \<Rightarrow> community list \<Rightarrow> query_error + 'f dynamic_result \<times> (usize \<times> wave_source \<times> string list) list" where
  "select_communities sd env dbg cfg query reports communities =
     (let levels = level_map (by_community reports) communities in
      case map_of levels 0 of
        None \<Rightarrow> Inl (QueryContext SearchGlobal ''initialize dynamic community selection''
                       ''no report-backed level 0 communities are available'')
      | Some starting \<Rightarrow>
          and_then (select_loop sd env dbg cfg query reports communities levels (initial_selection starting)) (\<lambda>st.
            Inr (selection_result reports st, sn_waves st)))"

text \<open>The events built from it: \<open>emit_wave_started\<close> and \<open>emit_selection_completed\<close>.\<close>

definition wave_event :: "u32 \<Rightarrow> wave_source \<Rightarrow> string list \<Rightarrow> contract_error + 'f expl_event" where
  "wave_event wave_index source queue =
     and_then (wave_started_try_new wave_index source queue) (\<lambda>e. Inr (DynamicCommunityTraversalWaveStarted e))"

definition rating_evidence_of ::
  "dynamic_config \<Rightarrow> (string \<rightharpoonup> 'f community_report) \<Rightarrow> 'f dynamic_rating \<Rightarrow> contract_error + rating_evidence" where
  "rating_evidence_of cfg reports_by_id rating =
     and_then (ok_or (InvalidDynamicSelection ''rated community has no stable CommunityReport identity'')
         (reports_by_id (dy_community_id rating))) (\<lambda>report.
       rating_evidence_try_new (dy_community_id rating) (rp_id report) (dy_level rating) (dy_selected_rating rating)
         (dc_threshold cfg \<le> dy_selected_rating rating) (dy_selected rating))"

definition selection_completed_event ::
  "dynamic_config \<Rightarrow> 'f community_report list \<Rightarrow> 'f dynamic_result \<Rightarrow> contract_error + 'f expl_event" where
  "selection_completed_event cfg reports res =
     and_then (try_map (rating_evidence_of cfg (by_community reports)) (dr_ratings res)) (\<lambda>evidence.
     and_then (selection_completed_try_new (map rp_community_id (dr_reports res)) (map rp_id (dr_reports res)) evidence)
       (\<lambda>e. Inr (DynamicCommunitySelectionCompleted e)))"

subsection \<open>What the traversal computes\<close>

definition relevant_step ::
  "dynamic_config \<Rightarrow> (string \<rightharpoonup> community) \<Rightarrow> string set \<Rightarrow> string \<times> i64 \<Rightarrow> string set" where
  "relevant_step cfg cs R cr =
     (case cr of (c, rating) \<Rightarrow>
        if dc_threshold cfg \<le> rating then
          (case cs c of
             None \<Rightarrow> insert c R
           | Some m \<Rightarrow> if dc_keep_parent cfg then insert c R else insert c R - {int_to_dec (cm_parent m)})
        else R)"

definition rated :: "'f dynamic_rating list \<Rightarrow> (string \<times> i64) list" where
  "rated = map (\<lambda>r. (dy_community_id r, dy_selected_rating r))"

lemma map_fst_rated: "map fst (rated rs) = map dy_community_id rs"
  by (simp add: rated_def)

text \<open>A relevant community in the list names \<open>c\<close> as its parent.\<close>

definition superseded :: "dynamic_config \<Rightarrow> (string \<rightharpoonup> community) \<Rightarrow> string \<Rightarrow> (string \<times> i64) list \<Rightarrow> bool" where
  "superseded cfg cs c xs \<longleftrightarrow>
     (\<exists>(d, rating) \<in> set xs. dc_threshold cfg \<le> rating \<and> (\<exists>m. cs d = Some m \<and> int_to_dec (cm_parent m) = c))"

lemma relevant_fold_later:
  "c \<notin> fst ` set xs \<Longrightarrow>
   c \<in> foldl (relevant_step cfg cs) R xs \<longleftrightarrow> c \<in> R \<and> (dc_keep_parent cfg \<or> \<not> superseded cfg cs c xs)"
proof (induction xs arbitrary: R)
  case (Cons x xs)
  obtain d r where x: "x = (d, r)" by fastforce
  with Cons.prems have ne: "c \<noteq> d" "c \<notin> fst ` set xs" by auto
  have "c \<in> relevant_step cfg cs R x \<longleftrightarrow> c \<in> R \<and> (dc_keep_parent cfg \<or> \<not> superseded cfg cs c [x])"
    using ne(1) by (auto simp: x relevant_step_def superseded_def split: option.splits)
  with Cons.IH [OF ne(2)] show ?case by (auto simp: superseded_def)
qed (simp add: superseded_def)

lemma relevant_fold_at:
  assumes "c \<notin> fst ` set xs" "c \<notin> fst ` set ys"
  shows "c \<in> foldl (relevant_step cfg cs) {} (xs @ (c, r) # ys) \<longleftrightarrow>
     dc_threshold cfg \<le> r \<and> (dc_keep_parent cfg \<or> \<not> superseded cfg cs c ((c, r) # ys))"
proof -
  have "c \<notin> foldl (relevant_step cfg cs) {} xs" using relevant_fold_later [OF assms(1), of cfg cs "{}"] by simp
  then have "c \<in> relevant_step cfg cs (foldl (relevant_step cfg cs) {} xs) (c, r) \<longleftrightarrow>
      dc_threshold cfg \<le> r \<and> (dc_keep_parent cfg \<or> \<not> superseded cfg cs c [(c, r)])"
    by (auto simp: relevant_step_def superseded_def split: option.splits)
  then show ?thesis using relevant_fold_later [OF assms(2)] by (auto simp: superseded_def)
qed

lemma relevant_fold_subset: "foldl (relevant_step cfg cs) {} xs \<subseteq> fst ` set (filter (\<lambda>x. dc_threshold cfg \<le> snd x) xs)"
proof (induction xs rule: rev_induct)
  case (snoc x xs)
  then show ?case by (cases x) (fastforce simp: relevant_step_def split: option.splits if_splits)
qed simp

definition wave_inv ::
  "dynamic_config \<Rightarrow> (string \<rightharpoonup> 'f community_report) \<Rightarrow> (string \<rightharpoonup> community) \<Rightarrow> 'f selection \<Rightarrow> string list \<Rightarrow> bool" where
  "wave_inv cfg rs cs st rest \<longleftrightarrow>
     distinct (map dy_community_id (sn_ratings st) @ rest @ sn_next st)
     \<and> sn_queued st = set (map dy_community_id (sn_ratings st) @ rest @ sn_next st)
     \<and> sn_queued st \<subseteq> dom rs
     \<and> sn_relevant st = foldl (relevant_step cfg cs) {} (rated (sn_ratings st))
     \<and> sn_first_seen st = map fst (filter (\<lambda>x. dc_threshold cfg \<le> snd x) (rated (sn_ratings st)))"

lemma vote_step_ratings:
  "map dy_community_id (sn_ratings (vote_step cfg rs cs st (c, vote))) =
     map dy_community_id (sn_ratings st) @ [cv_community_id vote]"
  "rated (sn_ratings (vote_step cfg rs cs st (c, vote))) =
     rated (sn_ratings st) @ [(cv_community_id vote, cv_selected_rating vote)]"
  by (simp_all add: vote_step_def Let_def rated_def split: option.split prod.split)

lemma vote_step_relevant:
  assumes "c \<notin> sn_relevant st"
  shows "sn_relevant (vote_step cfg rs cs st (c, vote)) = relevant_step cfg cs (sn_relevant st) (c, cv_selected_rating vote)"
    and "sn_first_seen (vote_step cfg rs cs st (c, vote)) =
       sn_first_seen st @ (if dc_threshold cfg \<le> cv_selected_rating vote then [c] else [])"
  using assms by (simp_all add: vote_step_def Let_def relevant_step_def split: option.split prod.split)

lemma vote_step_inv:
  assumes inv: "wave_inv cfg rs cs st (c # rest)" and vote: "cv_community_id vote = c"
  shows "wave_inv cfg rs cs (vote_step cfg rs cs st (c, vote)) rest"
proof -
  let ?st = "vote_step cfg rs cs st (c, vote)"
  obtain new where new: "sn_queued ?st = sn_queued st \<union> set new" "sn_next ?st = sn_next st @ new"
     "distinct new" "set new \<inter> sn_queued st = {}" "set new \<subseteq> dom rs"
    using vote_step_queue by blast
  from inv have c: "c \<notin> dy_community_id ` set (sn_ratings st)" by (simp add: wave_inv_def)
  have "sn_relevant st \<subseteq> fst ` set (rated (sn_ratings st))"
  proof -
    have "sn_relevant st = foldl (relevant_step cfg cs) {} (rated (sn_ratings st))"
      using inv by (simp add: wave_inv_def)
    also have "\<dots> \<subseteq> fst ` set (filter (\<lambda>x. dc_threshold cfg \<le> snd x) (rated (sn_ratings st)))"
      by (rule relevant_fold_subset)
    also have "\<dots> \<subseteq> fst ` set (rated (sn_ratings st))" by (intro image_mono) simp
    finally show ?thesis .
  qed
  then have "c \<notin> sn_relevant st" using c by (auto simp: rated_def)
  note rel = vote_step_relevant [OF this, of cfg rs cs vote]
  from inv have old: "distinct (map dy_community_id (sn_ratings st) @ (c # rest) @ sn_next st)"
    "sn_queued st = set (map dy_community_id (sn_ratings st) @ (c # rest) @ sn_next st)" "sn_queued st \<subseteq> dom rs"
    unfolding wave_inv_def by blast+
  have list: "(map dy_community_id (sn_ratings st) @ [c]) @ rest @ (sn_next st @ new) =
      (map dy_community_id (sn_ratings st) @ (c # rest) @ sn_next st) @ new" by simp
  show ?thesis
    unfolding wave_inv_def vote_step_ratings vote new(1,2) rel list
  proof (intro conjI)
    show "distinct ((map dy_community_id (sn_ratings st) @ (c # rest) @ sn_next st) @ new)"
      using old(1) new(3,4) unfolding old(2) by (simp only: distinct_append) blast
    show "sn_queued st \<union> set new = set ((map dy_community_id (sn_ratings st) @ (c # rest) @ sn_next st) @ new)"
      unfolding old(2) by (simp only: set_append)
    show "sn_queued st \<union> set new \<subseteq> dom rs" using old(3) new(5) by blast
    show "relevant_step cfg cs (sn_relevant st) (c, cv_selected_rating vote) =
        foldl (relevant_step cfg cs) {} (rated (sn_ratings st) @ [(c, cv_selected_rating vote)])"
      using inv by (simp add: wave_inv_def)
    show "sn_first_seen st @ (if dc_threshold cfg \<le> cv_selected_rating vote then [c] else []) =
        map fst (filter (\<lambda>x. dc_threshold cfg \<le> snd x) (rated (sn_ratings st) @ [(c, cv_selected_rating vote)]))"
      using inv by (simp add: wave_inv_def)
  qed
qed

lemma vote_fold_inv:
  "wave_inv cfg rs cs st (map fst cvs) \<Longrightarrow> \<forall>(c, v) \<in> set cvs. cv_community_id v = c \<Longrightarrow>
   wave_inv cfg rs cs (foldl (vote_step cfg rs cs) st cvs) []
   \<and> map dy_community_id (sn_ratings (foldl (vote_step cfg rs cs) st cvs)) =
       map dy_community_id (sn_ratings st) @ map fst cvs"
proof (induction cvs arbitrary: st)
  case (Cons cv cvs)
  obtain c v where cv: "cv = (c, v)" by fastforce
  with Cons.prems have "wave_inv cfg rs cs (vote_step cfg rs cs st (c, v)) (map fst cvs)"
    by (intro vote_step_inv) auto
  from Cons.IH [OF this] Cons.prems(2) show ?case by (simp add: cv vote_step_ratings)
qed simp

definition loop_inv ::
  "dynamic_config \<Rightarrow> (string \<rightharpoonup> 'f community_report) \<Rightarrow> (string \<rightharpoonup> community) \<Rightarrow> 'f selection \<Rightarrow> bool" where
  "loop_inv cfg rs cs st \<longleftrightarrow>
     wave_inv cfg rs cs st (sn_queue st) \<and> sn_next st = []
     \<and> concat (map (snd \<circ> snd) (sn_waves st)) = map dy_community_id (sn_ratings st)
     \<and> (\<forall>w \<in> set (sn_waves st). snd (snd w) \<noteq> [])"

lemma finish_wave_inv:
  assumes inv: "wave_inv cfg rs cs st []" and levels: "level_ids levels \<subseteq> dom rs"
  shows "wave_inv cfg rs cs (finish_wave cfg levels st) (sn_queue (finish_wave cfg levels st))"
proof -
  obtain b where b: "sn_queued (finish_wave cfg levels st) = sn_queued st \<union> set b"
     "sn_queue (finish_wave cfg levels st) = sn_next st @ b" "sn_next (finish_wave cfg levels st) = []"
     "distinct b" "set b \<inter> sn_queued st = {}" "set b \<subseteq> level_ids levels"
     "sn_relevant (finish_wave cfg levels st) = sn_relevant st"
     "sn_first_seen (finish_wave cfg levels st) = sn_first_seen st"
     "sn_ratings (finish_wave cfg levels st) = sn_ratings st"
    using finish_wave_spec by blast
  from inv have old: "distinct (map dy_community_id (sn_ratings st) @ sn_next st)"
    "sn_queued st = set (map dy_community_id (sn_ratings st) @ sn_next st)"
    unfolding wave_inv_def by simp_all
  from inv have queued: "sn_queued st \<subseteq> dom rs" unfolding wave_inv_def by blast
  have list: "map dy_community_id (sn_ratings st) @ (sn_next st @ b) @ [] =
      (map dy_community_id (sn_ratings st) @ sn_next st) @ b" by simp
  show ?thesis unfolding wave_inv_def b(1-3,7-9) list
  proof (intro conjI)
    show "distinct ((map dy_community_id (sn_ratings st) @ sn_next st) @ b)"
      using old(1) b(4,5) unfolding old(2) by (simp only: distinct_append) blast
    show "sn_queued st \<union> set b = set ((map dy_community_id (sn_ratings st) @ sn_next st) @ b)"
      unfolding old(2) by (simp only: set_append)
    show "sn_queued st \<union> set b \<subseteq> dom rs" using queued b(6) levels by blast
  qed (use inv in \<open>simp_all add: wave_inv_def\<close>)
qed

lemma loop_inv_final:
  assumes "loop_inv cfg rs cs st" "sn_queue st = []"
  shows "distinct (map dy_community_id (sn_ratings st))"
    "set (map dy_community_id (sn_ratings st)) \<subseteq> dom rs"
    "sn_relevant st = foldl (relevant_step cfg cs) {} (rated (sn_ratings st))"
    "sn_first_seen st = map fst (filter (\<lambda>x. dc_threshold cfg \<le> snd x) (rated (sn_ratings st)))"
    "concat (map (snd \<circ> snd) (sn_waves st)) = map dy_community_id (sn_ratings st)"
    "\<forall>w \<in> set (sn_waves st). snd (snd w) \<noteq> []"
proof -
  from assms have inv: "wave_inv cfg rs cs st []" "sn_next st = []" unfolding loop_inv_def by simp_all
  have "sn_queued st = set (map dy_community_id (sn_ratings st))"
    using inv unfolding wave_inv_def by simp
  moreover have "sn_queued st \<subseteq> dom rs" using inv(1) unfolding wave_inv_def by blast
  ultimately show "set (map dy_community_id (sn_ratings st)) \<subseteq> dom rs" by metis
qed (use assms in \<open>simp_all add: loop_inv_def wave_inv_def\<close>)

lemma run_wave_inv:
  assumes inv: "loop_inv cfg rs cs st" and "sn_queue st \<noteq> []" and levels: "level_ids levels \<subseteq> dom rs"
    and votes: "list_all2 (\<lambda>c v. cv_community_id v = c) (sn_queue st) votes"
  shows "loop_inv cfg rs cs (run_wave cfg rs cs levels st votes)"
proof -
  let ?st = "st\<lparr>sn_waves := sn_waves st @ [(sn_wave_index st, sn_source st, sn_queue st)], sn_next := []\<rparr>"
  let ?cvs = "zip (sn_queue st) votes"
  let ?after = "foldl (vote_step cfg rs cs) ?st ?cvs"
  have fst_cvs: "map fst ?cvs = sn_queue st" using votes by (simp add: list_all2_lengthD)
  have st: "wave_inv cfg rs cs st (sn_queue st)" "sn_next st = []" using inv unfolding loop_inv_def by blast+
  have "wave_inv cfg rs cs ?st (sn_queue st) = wave_inv cfg rs cs st (sn_queue st)"
    unfolding wave_inv_def st(2) by simp
  then have "wave_inv cfg rs cs ?st (map fst ?cvs)" using st(1) unfolding fst_cvs by simp
  moreover have "\<forall>(c, v) \<in> set ?cvs. cv_community_id v = c"
    using votes by (auto simp: list_all2_iff)
  ultimately have after: "wave_inv cfg rs cs ?after []"
    "map dy_community_id (sn_ratings ?after) = map dy_community_id (sn_ratings st) @ sn_queue st"
    using vote_fold_inv [of cfg rs cs ?st ?cvs] fst_cvs by simp_all
  obtain b where b: "sn_queued (finish_wave cfg levels ?after) = sn_queued ?after \<union> set b"
     "sn_queue (finish_wave cfg levels ?after) = sn_next ?after @ b" "sn_next (finish_wave cfg levels ?after) = []"
     "distinct b" "set b \<inter> sn_queued ?after = {}" "set b \<subseteq> level_ids levels"
     "sn_waves (finish_wave cfg levels ?after) = sn_waves ?after"
     "sn_relevant (finish_wave cfg levels ?after) = sn_relevant ?after"
     "sn_first_seen (finish_wave cfg levels ?after) = sn_first_seen ?after"
     "sn_ratings (finish_wave cfg levels ?after) = sn_ratings ?after"
    using finish_wave_spec by blast
  have waves: "sn_waves ?after = sn_waves st @ [(sn_wave_index st, sn_source st, sn_queue st)]"
    by (simp add: vote_fold_frame)
  have "wave_inv cfg rs cs (run_wave cfg rs cs levels st votes) (sn_queue (run_wave cfg rs cs levels st votes))"
    unfolding run_wave_def by (rule finish_wave_inv [OF after(1) levels])
  moreover have "concat (map (snd \<circ> snd) (sn_waves (run_wave cfg rs cs levels st votes))) =
      map dy_community_id (sn_ratings (run_wave cfg rs cs levels st votes))"
    using inv unfolding run_wave_def b(7,10) waves after(2) by (simp add: loop_inv_def)
  moreover have "\<forall>w \<in> set (sn_waves (run_wave cfg rs cs levels st votes)). snd (snd w) \<noteq> []"
    using inv assms(2) unfolding run_wave_def b(7) waves by (auto simp: loop_inv_def)
  ultimately show ?thesis unfolding loop_inv_def by (simp add: run_wave_def b(3))
qed

lemma rate_community_id: "rate_community sd env cfg query c report = Inr v \<Longrightarrow> cv_community_id v = c"
  by (auto simp: rate_community_def Let_def and_then_Inr_iff)

lemma rate_queue_ids:
  "rate_queue sd env dbg cfg query rs queue = Inr votes \<Longrightarrow> list_all2 (\<lambda>c v. cv_community_id v = c) queue votes"
  unfolding rate_queue_def try_map_Inr_iff
  by (erule list_all2_mono) (auto simp: and_then_Inr_iff dest: rate_community_id)

lemma select_loop_inv:
  "loop_inv cfg (by_community reports) (by_short_id communities) st \<Longrightarrow>
   level_ids levels \<subseteq> dom (by_community reports) \<Longrightarrow>
   select_loop sd env dbg cfg query reports communities levels st = Inr st' \<Longrightarrow>
   loop_inv cfg (by_community reports) (by_short_id communities) st' \<and> sn_queue st' = []"
proof (induction sd env dbg cfg query reports communities levels st rule: select_loop.induct)
  case (1 sd env dbg cfg query reports communities levels st)
  show ?case
  proof (cases "sn_queue st = []")
    case True
    then show ?thesis using "1.prems" by (subst (asm) select_loop.simps) simp
  next
    case False
    then obtain votes where votes: "rate_queue sd env dbg cfg query (by_community reports) (sn_queue st) = Inr votes"
      and rest: "select_loop sd env dbg cfg query reports communities levels
          (run_wave cfg (by_community reports) (by_short_id communities) levels st votes) = Inr st'"
      using "1.prems"(3) by (subst (asm) select_loop.simps) (auto simp: and_then_Inr_iff)
    show ?thesis
      by (rule "1.IH" [OF False votes run_wave_inv [OF "1.prems"(1) False "1.prems"(2) rate_queue_ids [OF votes]]
            "1.prems"(2) rest])
  qed
qed

lemma level_map_spec:
  "om_ok (level_map rs communities) \<and> level_ids (level_map rs communities) \<subseteq> dom rs
   \<and> (\<forall>l ids. map_of (level_map rs communities) l = Some ids \<longrightarrow> distinct ids \<and> set ids \<subseteq> dom rs)"
proof -
  have "om_ok (level_map rs communities)
     \<and> (\<forall>l ids. map_of (level_map rs communities) l = Some ids \<longrightarrow> distinct ids \<and> set ids \<subseteq> dom rs)"
  proof (induction communities rule: rev_induct)
    case (snoc c communities)
    let ?m = "level_map rs communities"
    have step: "level_map rs (communities @ [c]) =
        (if rs (cm_short_id c) = None then ?m
         else om_update [] (\<lambda>ids. if cm_short_id c \<in> set ids then ids else ids @ [cm_short_id c]) (cm_level c) ?m)"
      by (simp add: level_map_def)
    from snoc have ok: "om_ok ?m" by blast
    show ?case
      using snoc unfolding step
      by (auto simp: map_of_om_update [OF ok] split: option.splits if_splits)
  qed (simp add: level_map_def)
  moreover from this have "level_ids (level_map rs communities) \<subseteq> dom rs"
  proof -
    assume *: "om_ok (level_map rs communities)
      \<and> (\<forall>l ids. map_of (level_map rs communities) l = Some ids \<longrightarrow> distinct ids \<and> set ids \<subseteq> dom rs)"
    have "set ids \<subseteq> dom rs" if "(l, ids) \<in> set (level_map rs communities)" for l ids
      using * that om_ok_distinct [of "level_map rs communities"] unfolding om_keys_def by (metis map_of_is_SomeI)
    then show ?thesis by (force simp: level_ids_def)
  qed
  ultimately show ?thesis by blast
qed

lemma by_community_Some: "by_community reports c = Some r \<Longrightarrow> rp_community_id r = c \<and> r \<in> set reports"
  by (auto simp: by_community_def dest!: collect_map_Some)

lemma dom_by_community: "dom (by_community reports) = rp_community_id ` set reports"
  by (simp add: by_community_def dom_collect_map image_image)

lemma map_filter_total: "\<forall>x \<in> set xs. f x \<noteq> None \<Longrightarrow> List.map_filter f xs = map (the \<circ> f) xs"
  by (induction xs) (auto simp: map_filter_simps)

lemma filter_map_fst_rated:
  "map fst (filter (\<lambda>x. P (fst x)) (filter (\<lambda>x. t \<le> snd x) (rated rs))) =
   map dy_community_id (filter (\<lambda>r. t \<le> dy_selected_rating r \<and> P (dy_community_id r)) rs)"
  by (induction rs) (auto simp: rated_def)

text \<open>What a successful run gives: the final state of the loop.\<close>

lemma loop_inv_initial:
  "distinct starting \<Longrightarrow> set starting \<subseteq> dom rs \<Longrightarrow> loop_inv cfg rs cs (initial_selection starting)"
  by (simp add: loop_inv_def wave_inv_def initial_selection_def rated_def)

lemma select_communities_final:
  assumes "select_communities sd env dbg cfg query reports communities = Inr (res, waves)"
  shows "\<exists>st. res = selection_result reports st \<and> waves = sn_waves st
     \<and> loop_inv cfg (by_community reports) (by_short_id communities) st \<and> sn_queue st = []"
proof -
  let ?rs = "by_community reports" and ?cs = "by_short_id communities"
  let ?levels = "level_map ?rs communities"
  obtain starting st where start: "map_of ?levels 0 = Some starting"
    and loop: "select_loop sd env dbg cfg query reports communities ?levels (initial_selection starting) = Inr st"
    and out: "res = selection_result reports st" "waves = sn_waves st"
    using assms by (auto simp: select_communities_def Let_def and_then_Inr_iff split: option.splits)
  have "distinct starting" "set starting \<subseteq> dom ?rs" "level_ids ?levels \<subseteq> dom ?rs"
    using level_map_spec [of ?rs communities] start by blast+
  moreover from this have "loop_inv cfg ?rs ?cs (initial_selection starting)" by (simp add: loop_inv_initial)
  ultimately show ?thesis using select_loop_inv [OF _ _ loop] out by blast
qed

text \<open>The traversal itself never fails: it does when a rating does, or when there is no first level.\<close>

definition ratable :: "'f serde \<Rightarrow> rate_env \<Rightarrow> dynamic_config \<Rightarrow> string \<Rightarrow> 'f community_report list \<Rightarrow> bool" where
  "ratable sd env cfg query reports \<longleftrightarrow>
     (\<forall>r \<in> set reports. is_ok (rate_community sd env cfg query (rp_community_id r) r))"

lemma rate_queue_ok:
  assumes "ratable sd env cfg query reports" "set queue \<subseteq> dom (by_community reports)"
  shows "is_ok (rate_queue sd env dbg cfg query (by_community reports) queue)"
proof -
  have "is_ok (and_then (ok_or (QueryContext SearchGlobal ''rate dynamic community''
           (''community '' @ dbg c @ '' has no report'')) (by_community reports c))
         (rate_community sd env cfg query c))" if "c \<in> set queue" for c
  proof -
    obtain r where r: "by_community reports c = Some r" using assms(2) \<open>c \<in> set queue\<close> by blast
    then have "rp_community_id r = c" "r \<in> set reports" using by_community_Some by blast+
    then show ?thesis using assms(1) r by (auto simp: ratable_def)
  qed
  then show ?thesis by (simp add: rate_queue_def is_ok_try_map)
qed

lemma select_loop_ok:
  "loop_inv cfg (by_community reports) (by_short_id communities) st \<Longrightarrow>
   level_ids levels \<subseteq> dom (by_community reports) \<Longrightarrow> ratable sd env cfg query reports \<Longrightarrow>
   is_ok (select_loop sd env dbg cfg query reports communities levels st)"
proof (induction sd env dbg cfg query reports communities levels st rule: select_loop.induct)
  case (1 sd env dbg cfg query reports communities levels st)
  show ?case
  proof (cases "sn_queue st = []")
    case True
    then show ?thesis by (subst select_loop.simps) simp
  next
    case False
    have "set (sn_queue st) \<subseteq> dom (by_community reports)"
      using "1.prems"(1) unfolding loop_inv_def wave_inv_def by (metis Un_subset_iff set_append)
    then obtain votes where votes: "rate_queue sd env dbg cfg query (by_community reports) (sn_queue st) = Inr votes"
      using rate_queue_ok [OF "1.prems"(3)] unfolding is_ok_iff by blast
    note next_inv = run_wave_inv [OF "1.prems"(1) False "1.prems"(2) rate_queue_ids [OF votes]]
    show ?thesis
      using "1.IH" [OF False votes next_inv "1.prems"(2,3)] False votes by (subst select_loop.simps) simp
  qed
qed

lemma select_communities_ok:
  assumes "ratable sd env cfg query reports" "map_of (level_map (by_community reports) communities) 0 = Some starting"
  shows "is_ok (select_communities sd env dbg cfg query reports communities)"
proof -
  let ?rs = "by_community reports" and ?cs = "by_short_id communities"
  let ?levels = "level_map ?rs communities"
  have "is_ok (select_loop sd env dbg cfg query reports communities ?levels (initial_selection starting))"
    using level_map_spec [of ?rs communities] assms(2)
    by (intro select_loop_ok [OF loop_inv_initial _ assms(1)]) blast+
  then show ?thesis using assms(2) by (auto simp: select_communities_def Let_def is_ok_iff)
qed

lemma result_reports:
  assumes "loop_inv cfg (by_community reports) cs st" "sn_queue st = []"
  shows "dr_reports (selection_result reports st) =
     map (the \<circ> by_community reports) (map dy_community_id (filter dy_selected (dr_ratings (selection_result reports st))))"
    and "map dy_community_id (filter dy_selected (dr_ratings (selection_result reports st))) =
         filter (\<lambda>c. c \<in> sn_relevant st) (sn_first_seen st)"
    and "\<forall>r \<in> set (dr_ratings (selection_result reports st)). dy_selected r \<longrightarrow> dc_threshold cfg \<le> dy_selected_rating r"
proof -
  let ?R = "sn_relevant st"
  note inv = loop_inv_final [OF assms]
  have passed: "dc_threshold cfg \<le> dy_selected_rating r" if r: "r \<in> set (sn_ratings st)" "dy_community_id r \<in> ?R" for r
  proof -
    have "dy_community_id r \<in> fst ` set (filter (\<lambda>x. dc_threshold cfg \<le> snd x) (rated (sn_ratings st)))"
      using r(2) relevant_fold_subset [of cfg cs "rated (sn_ratings st)"] unfolding inv(3) by blast
    then obtain r' where r': "r' \<in> set (sn_ratings st)" "dy_community_id r' = dy_community_id r"
      "dc_threshold cfg \<le> dy_selected_rating r'"
      by (auto simp: rated_def)
    have "r' = r" using inv(1) r(1) r'(1,2) by (simp add: distinct_map inj_on_def)
    with r'(3) show ?thesis by simp
  qed
  have first: "filter (\<lambda>c. c \<in> ?R) (sn_first_seen st) =
      map dy_community_id (filter (\<lambda>r. dc_threshold cfg \<le> dy_selected_rating r \<and> dy_community_id r \<in> ?R) (sn_ratings st))"
    unfolding inv(4) filter_map o_def by (rule filter_map_fst_rated)
  also have "\<dots> = map dy_community_id (filter (\<lambda>r. dy_community_id r \<in> ?R) (sn_ratings st))"
    using passed by (intro arg_cong [where f = "map dy_community_id"] filter_cong) auto
  finally have kept: "filter (\<lambda>c. c \<in> ?R) (sn_first_seen st) =
      map dy_community_id (filter (\<lambda>r. dy_community_id r \<in> ?R) (sn_ratings st))" .
  show ids: "map dy_community_id (filter dy_selected (dr_ratings (selection_result reports st))) =
         filter (\<lambda>c. c \<in> ?R) (sn_first_seen st)"
    unfolding kept by (simp add: selection_result_def filter_map o_def)
  have "\<forall>c \<in> set (filter (\<lambda>c. c \<in> ?R) (sn_first_seen st)). by_community reports c \<noteq> None"
    unfolding kept using inv(2) by auto
  then show "dr_reports (selection_result reports st) =
     map (the \<circ> by_community reports) (map dy_community_id (filter dy_selected (dr_ratings (selection_result reports st))))"
    unfolding ids by (simp add: selection_result_def map_filter_total)
  show "\<forall>r \<in> set (dr_ratings (selection_result reports st)). dy_selected r \<longrightarrow> dc_threshold cfg \<le> dy_selected_rating r"
    using passed by (auto simp: selection_result_def)
qed

text \<open>A community that was rated relevant after (or with) the rating names \<open>c\<close> as its parent.\<close>

definition child_relevant :: "dynamic_config \<Rightarrow> community list \<Rightarrow> string \<Rightarrow> 'f dynamic_rating list \<Rightarrow> bool" where
  "child_relevant cfg communities c rs \<longleftrightarrow>
     (\<exists>d \<in> set rs. dc_threshold cfg \<le> dy_selected_rating d
        \<and> (\<exists>m. by_short_id communities (dy_community_id d) = Some m \<and> int_to_dec (cm_parent m) = c))"

text \<open>C38: Dynamic selection: when it succeeds, every community was rated at most once, in the order the waves
  announced it, and has a report; a community is selected exactly when its rating reaches the
  threshold and (unless parents are kept) no community rated relevant from then on is its child;
  and the reports returned are those of the selected communities, in rating order.\<close>

theorem dynamic_selection_result:
  assumes "select_communities sd env dbg cfg query reports communities = Inr (res, waves)"
  shows "distinct (map dy_community_id (dr_ratings res))
     \<and> concat (map (snd \<circ> snd) waves) = map dy_community_id (dr_ratings res)
     \<and> (\<forall>xs r ys. dr_ratings res = xs @ r # ys \<longrightarrow>
          (dy_selected r \<longleftrightarrow> dc_threshold cfg \<le> dy_selected_rating r
             \<and> (dc_keep_parent cfg \<or> \<not> child_relevant cfg communities (dy_community_id r) (r # ys))))
     \<and> map rp_community_id (dr_reports res) = map dy_community_id (filter dy_selected (dr_ratings res))
     \<and> set (dr_reports res) \<subseteq> set reports"
proof -
  let ?rs = "by_community reports" and ?cs = "by_short_id communities"
  obtain st where res: "res = selection_result reports st" "waves = sn_waves st"
    and loop: "loop_inv cfg ?rs ?cs st" "sn_queue st = []"
    using select_communities_final [OF assms] by blast
  note inv = loop_inv_final [OF loop]
  have ids: "map dy_community_id (dr_ratings res) = map dy_community_id (sn_ratings st)"
    by (simp add: res(1) selection_result_def o_def)
  have rated_res: "rated (dr_ratings res) = rated (sn_ratings st)"
    by (simp add: res(1) selection_result_def rated_def o_def)
  have selected: "dy_selected r \<longleftrightarrow> dc_threshold cfg \<le> dy_selected_rating r
       \<and> (dc_keep_parent cfg \<or> \<not> child_relevant cfg communities (dy_community_id r) (r # ys))"
    if split: "dr_ratings res = xs @ r # ys" for xs r ys
  proof -
    let ?c = "dy_community_id r"
    have "distinct (map dy_community_id (xs @ r # ys))" using inv(1) ids split by simp
    then have fresh: "?c \<notin> fst ` set (rated xs)" "?c \<notin> fst ` set (rated ys)"
      by (auto simp: rated_def image_image)
    have "r \<in> set (dr_ratings res)" by (simp add: split)
    then have "dy_selected r \<longleftrightarrow> ?c \<in> sn_relevant st"
      by (auto simp: res(1) selection_result_def)
    moreover have "rated (sn_ratings st) = rated xs @ (?c, dy_selected_rating r) # rated ys"
      unfolding rated_res [symmetric] split by (simp add: rated_def)
    moreover have "superseded cfg ?cs ?c ((?c, dy_selected_rating r) # rated ys) = child_relevant cfg communities ?c (r # ys)"
      by (auto simp: superseded_def child_relevant_def rated_def)
    ultimately show ?thesis using relevant_fold_at [OF fresh] inv(3) by simp
  qed
  have reports: "dr_reports res = map (the \<circ> ?rs) (map dy_community_id (filter dy_selected (dr_ratings res)))"
    using result_reports(1) [OF loop] by (simp only: res(1))
  have each: "rp_community_id (the (?rs c)) = c \<and> the (?rs c) \<in> set reports"
    if "c \<in> dy_community_id ` set (dr_ratings res)" for c
  proof -
    have "c \<in> dom ?rs" using that inv(2) ids by (metis set_map subsetD)
    then show ?thesis using by_community_Some by (metis domIff option.exhaust_sel)
  qed
  have "map rp_community_id (dr_reports res) = map dy_community_id (filter dy_selected (dr_ratings res))"
    unfolding reports using each by simp
  moreover have "set (dr_reports res) \<subseteq> set reports" unfolding reports using each by auto
  ultimately show ?thesis using inv(1,5) ids selected res(2) by simp
qed

text \<open>The events of a selection are always valid: if communities and reports have well-formed, distinct
  identifiers and there are at most as many reports as the event contract allows, every announced
  wave passes the wave event's checks, and the completion event can be built from the result.\<close>

theorem dynamic_selection_events_valid:
  assumes run: "select_communities sd env dbg cfg query reports communities = Inr (res, waves)"
    and ids: "\<forall>r \<in> set reports. dynamic_id_ok (rp_community_id r) \<and> dynamic_id_ok (rp_id r)"
    and distinct: "distinct (map rp_id reports)"
    and bound: "length reports \<le> max_dynamic_communities"
  shows "(\<forall>(i, source, queue) \<in> set waves. \<forall>n. is_ok (wave_event n source queue))
     \<and> is_ok (selection_completed_event cfg reports res)"
proof
  let ?rs = "by_community reports" and ?cs = "by_short_id communities"
  obtain st where res: "res = selection_result reports st" "waves = sn_waves st"
    and loop: "loop_inv cfg ?rs ?cs st" "sn_queue st = []"
    using select_communities_final [OF run] by blast
  note inv = loop_inv_final [OF loop]
  let ?ids = "map dy_community_id (sn_ratings st)"
  have sub: "set ?ids \<subseteq> rp_community_id ` set reports" using inv(2) by (simp only: dom_by_community)
  have "length ?ids = card (set ?ids)" using inv(1) by (simp only: distinct_card)
  also have "\<dots> \<le> card (rp_community_id ` set reports)" using sub by (intro card_mono) simp_all
  also have "\<dots> \<le> length reports" using card_image_le [of "set reports" rp_community_id] card_length [of reports] by simp
  finally have len: "length ?ids \<le> max_dynamic_communities" using bound by simp
  show "\<forall>(i, source, queue) \<in> set waves. \<forall>n. is_ok (wave_event n source queue)"
  proof clarify
    fix i source queue n assume w: "(i, source, queue) \<in> set waves"
    then obtain before after where "waves = before @ (i, source, queue) # after" by (meson split_list)
    then have split: "?ids = concat (map (snd \<circ> snd) before) @ queue @ concat (map (snd \<circ> snd) after)"
      using inv(5) res(2) by simp
    have "distinct queue" using inv(1) unfolding split by simp
    moreover have "length queue \<le> max_dynamic_communities" using arg_cong [OF split, of length] len by simp
    moreover have "set queue \<subseteq> set ?ids" unfolding split by auto
    then have "\<forall>c \<in> set queue. dynamic_id_ok c" using sub ids by blast
    moreover have "queue \<noteq> []" using inv(6) w res(2) by force
    ultimately show "is_ok (wave_event n source queue)"
      by (simp add: is_ok_iff wave_event_def wave_started_try_new_def Let_def and_then_Inr_iff wave_started_validate_Inr)
  qed
  let ?ratings = "dr_ratings res"
  let ?report = "\<lambda>r. the (?rs (dy_community_id r))"
  let ?evidence = "\<lambda>r. \<lparr>re_community_id = dy_community_id r, re_report_id = rp_id (?report r), re_level = dy_level r,
      re_selected_rating = dy_selected_rating r, re_threshold_passed = dc_threshold cfg \<le> dy_selected_rating r,
      re_selected = dy_selected r\<rparr>"
  have ids_res: "map dy_community_id ?ratings = ?ids"
    by (simp add: res(1) selection_result_def o_def)
  have report: "?rs (dy_community_id r) = Some (?report r) \<and> rp_community_id (?report r) = dy_community_id r
      \<and> ?report r \<in> set reports" if "r \<in> set ?ratings" for r
  proof -
    have "dy_community_id r \<in> set ?ids" using that ids_res by (metis imageI set_map)
    then obtain rep where "?rs (dy_community_id r) = Some rep" using inv(2) by blast
    then show ?thesis using by_community_Some by fastforce
  qed
  have passed: "\<forall>r \<in> set ?ratings. dy_selected r \<longrightarrow> dc_threshold cfg \<le> dy_selected_rating r"
    using result_reports(3) [OF loop] by (simp only: res(1))
  have "try_map (rating_evidence_of cfg ?rs) ?ratings = Inr (map ?evidence ?ratings)"
  proof (rule try_map_total)
    fix r assume r: "r \<in> set ?ratings"
    have "dynamic_id_ok (dy_community_id r)" "dynamic_id_ok (rp_id (?report r))"
      using report [OF r] ids by metis+
    moreover obtain rep where eq: "?rs (dy_community_id r) = Some rep" using report [OF r] by blast
    ultimately show "rating_evidence_of cfg ?rs r = Inr (?evidence r)"
      unfolding rating_evidence_of_def eq ok_or.simps and_then.simps option.sel
      using passed r
      by (simp add: rating_evidence_try_new_def Let_def and_then_Inr_iff rating_evidence_validate_Inr)
  qed
  moreover have "completed_evidence_ok (map rp_community_id (dr_reports res)) (map rp_id (dr_reports res)) (map ?evidence ?ratings)"
  proof -
    have reports: "dr_reports res = map ?report (filter dy_selected ?ratings)"
      using result_reports(1) [OF loop] unfolding res(1) [symmetric] by (simp add: o_def)
    have "map rp_community_id (dr_reports res) = map re_community_id (filter re_selected (map ?evidence ?ratings))"
      unfolding reports using report by (simp add: filter_map o_def)
    moreover have "map rp_id (dr_reports res) = map re_report_id (filter re_selected (map ?evidence ?ratings))"
      unfolding reports by (simp add: filter_map o_def)
    moreover have "distinct (map re_report_id (map ?evidence ?ratings))"
    proof -
      have "inj_on (\<lambda>r. rp_id (?report r)) (set ?ratings)"
      proof (rule inj_onI)
        fix x y assume xy: "x \<in> set ?ratings" "y \<in> set ?ratings" "rp_id (?report x) = rp_id (?report y)"
        then have "?report x = ?report y"
          using distinct report unfolding distinct_map by (meson inj_onD)
        then have "dy_community_id x = dy_community_id y" using report xy(1,2) by metis
        then show "x = y" using inv(1) ids_res xy(1,2) by (metis distinct_map inj_onD)
      qed
      moreover have "distinct ?ratings" using inv(1) ids_res by (metis distinct_map)
      ultimately show ?thesis by (simp add: distinct_map o_def)
    qed
    moreover have "distinct (map re_community_id (map ?evidence ?ratings))"
      using inv(1) ids_res by (simp add: o_def)
    moreover have "length (map ?evidence ?ratings) \<le> max_dynamic_communities"
      using len arg_cong [OF ids_res, of length] by simp
    ultimately show ?thesis using passed by (auto simp: completed_evidence_ok_def)
  qed
  ultimately show "is_ok (selection_completed_event cfg reports res)"
    unfolding is_ok_iff selection_completed_event_def
    by (simp add: and_then_Inr_iff selection_completed_try_new_iff)
qed

definition sample_report :: "string \<Rightarrow> string \<Rightarrow> int community_report" where
  "sample_report i c = \<lparr>rp_id = i, rp_short_id = c, rp_community_id = c, rp_title = [], rp_summary = [],
     rp_full_content = ''report'', rp_rank = None, rp_full_content_embedding = None\<rparr>"

definition sample_communities :: "community list" where
  "sample_communities =
     [\<lparr>cm_id = ''x'', cm_short_id = ''0'', cm_title = [], cm_level = 0, cm_parent = -1, cm_children = [1]\<rparr>,
      \<lparr>cm_id = ''y'', cm_short_id = ''1'', cm_title = [], cm_level = 1, cm_parent = 0, cm_children = []\<rparr>]"

definition sample_rate_env :: rate_env where
  "sample_rate_env = \<lparr>rv_render = (\<lambda>d q. Inr d), rv_count = (\<lambda>s. Inr (length s)), rv_request = (\<lambda>_ _. Inr ()),
     rv_complete = (\<lambda>_ _ _. CompletionContent ''{}''), rv_model_id = ''m''\<rparr>"

definition sample_config :: dynamic_config where
  "sample_config = \<lparr>dc_threshold = 1, dc_keep_parent = False, dc_num_repeats = 1, dc_use_summary = False, dc_max_level = 2\<rparr>"

definition sample_reports :: "int community_report list" where
  "sample_reports = [sample_report ''r0'' ''0'', sample_report ''r1'' ''1'']"

lemma sample_rating: "parse_rating sample_serde ''{}'' = Inr (JNumber (NInt 1))"
  by code_simp

lemma sample_vote: "majority_vote sample_serde [JNumber (NInt 1)] = Inr (Some 1)"
  by code_simp

lemma sample_rate: "rate_community sample_serde sample_rate_env sample_config q c r =
  Inr \<lparr>cv_community_id = c, cv_selected_rating = 1, cv_repeated_ratings = [JNumber (NInt 1)],
     cv_usage = \<lparr>us_llm_calls = 1, us_prompt_tokens = usize_sat_mul (usize_sat_add (length (rp_full_content r)) (length q)) 1,
        us_output_tokens = usize_sat_add 0 2\<rparr>\<rparr>"
  by (simp add: rate_community_def sample_rate_env_def sample_config_def count_or_def sample_rating sample_vote numeral_2_eq_2)

lemma sample_reports_by_id: "by_community sample_reports = [''0'' \<mapsto> sample_report ''r0'' ''0'', ''1'' \<mapsto> sample_report ''r1'' ''1'']"
  by (simp add: by_community_def sample_reports_def sample_report_def collect_map_def fun_eq_iff)

lemma sample_levels: "map_of (level_map (by_community sample_reports) sample_communities) 0 = Some [''0'']"
  by (simp add: level_map_def sample_reports_by_id sample_communities_def om_update_def)

lemma sample_selection:
  "is_ok (select_communities sample_serde sample_rate_env id sample_config ''q'' sample_reports sample_communities)"
  by (rule select_communities_ok [OF _ sample_levels]) (simp add: ratable_def sample_rate)

theorem dynamic_selection_result_witness:
  "\<exists>res waves. select_communities sample_serde sample_rate_env id sample_config ''q'' sample_reports sample_communities
       = Inr (res, waves)
     \<and> distinct (map dy_community_id (dr_ratings res))
     \<and> concat (map (snd \<circ> snd) waves) = map dy_community_id (dr_ratings res)
     \<and> map rp_community_id (dr_reports res) = map dy_community_id (filter dy_selected (dr_ratings res))
     \<and> set (dr_reports res) \<subseteq> set sample_reports"
proof -
  obtain res waves where
    run: "select_communities sample_serde sample_rate_env id sample_config ''q'' sample_reports sample_communities
       = Inr (res, waves)"
    using sample_selection unfolding is_ok_iff by (metis surj_pair)
  from dynamic_selection_result [OF run] run show ?thesis by blast
qed

lemma sample_dynamic_ids:
  "\<forall>r \<in> set sample_reports. dynamic_id_ok (rp_community_id r) \<and> dynamic_id_ok (rp_id r)"
  by code_simp

theorem dynamic_selection_events_valid_witness:
  "\<exists>res waves. select_communities sample_serde sample_rate_env id sample_config ''q'' sample_reports sample_communities
       = Inr (res, waves)
     \<and> (\<forall>(i, source, queue) \<in> set waves. \<forall>n. is_ok (wave_event n source queue :: contract_error + int expl_event))
     \<and> is_ok (selection_completed_event sample_config sample_reports res)"
proof -
  obtain res waves where
    run: "select_communities sample_serde sample_rate_env id sample_config ''q'' sample_reports sample_communities
       = Inr (res, waves)"
    using sample_selection unfolding is_ok_iff by (metis surj_pair)
  have "distinct (map rp_id sample_reports)" "length sample_reports \<le> max_dynamic_communities"
    by (simp_all add: sample_reports_def sample_report_def max_dynamic_communities_def)
  from dynamic_selection_events_valid [OF run sample_dynamic_ids this] run show ?thesis by blast
qed

end
