(* ===== verification/Global_Context.thy ===== *)
theory Global_Context
  imports Query_Parse Stable_Sort Context_Table Python_Random Dynamic_Selection
begin

text \<open>
  The community reports given to Global Search (\<open>query/global/context.rs\<close>): occurrence weights, the
  seeded shuffle, batching under the token budget, and the records of the result.

  Parameters (record \<open>gctx\<close>): floating point numbers and their printing, the tokenizer, the CSV
  writer and the data frame library. \<open>build_selected\<close> is \<open>None\<close> when the shuffle does not return.
\<close>

record ('f, 'd) gctx =
  gc_zero :: 'f
  gc_ratio :: "usize \<Rightarrow> usize \<Rightarrow> 'f" \<comment> \<open>\<open>raw as f64 / max as f64\<close>\<close>
  gc_cmp :: "'f \<Rightarrow> 'f \<Rightarrow> ordering option" \<comment> \<open>\<open>partial_cmp\<close>\<close>
  gc_finite :: "'f \<Rightarrow> bool"
  gc_abs :: "'f \<Rightarrow> 'f"
  gc_whole :: "'f \<Rightarrow> bool" \<comment> \<open>\<open>fract() == 0.0\<close>\<close>
  gc_small :: 'f \<comment> \<open>\<open>1.0e-4\<close>\<close>
  gc_large :: 'f \<comment> \<open>\<open>1.0e16\<close>\<close>
  gc_show :: "'f \<Rightarrow> string"
  gc_show_exp :: "'f \<Rightarrow> string" \<comment> \<open>\<open>{:e}\<close>\<close>
  gc_count :: "string \<Rightarrow> string + usize"
  gc_csv :: csv_writer
  gc_frames :: "'d frames"
  gc_frame :: "(string \<times> string \<times> 'f \<times> string \<times> 'f) list \<Rightarrow> string + 'd" \<comment> \<open>\<open>DataFrame::new\<close> on typed columns\<close>
  gc_max_context_tokens :: usize

record 'f weighted_report =
  wr_report :: "'f community_report"
  wr_weight :: 'f

record ('f, 'd) global_context_result =
  gr_batches :: "string list"
  gr_records :: "'d list"
  gr_batch_report_ids :: "string list list"
  gr_usage :: usage
  gr_dynamic_ratings :: "'f dynamic_rating list"

definition f_le :: "('f, 'd) gctx \<Rightarrow> 'f \<Rightarrow> 'f \<Rightarrow> bool" where
  "f_le g a b \<longleftrightarrow> gc_cmp g a b = Some Less \<or> gc_cmp g a b = Some Equal"

definition f_lt :: "('f, 'd) gctx \<Rightarrow> 'f \<Rightarrow> 'f \<Rightarrow> bool" where
  "f_lt g a b \<longleftrightarrow> gc_cmp g a b = Some Less"

subsection \<open>Weights\<close>

definition add_community_units ::
  "string list \<Rightarrow> (string \<rightharpoonup> string set) \<Rightarrow> string \<Rightarrow> string \<rightharpoonup> string set" where
  "add_community_units units m community_id =
     m(community_id \<mapsto> (case m community_id of None \<Rightarrow> {} | Some s \<Rightarrow> s) \<union> set units)"

definition community_text_units :: "query_entity list \<Rightarrow> string \<rightharpoonup> string set" where
  "community_text_units entities =
     foldl (\<lambda>m entity. foldl (add_community_units (en_text_unit_ids entity)) m (en_community_ids entity)) Map.empty entities"

definition community_weights :: "query_entity list \<Rightarrow> 'f community_report list \<Rightarrow> string \<rightharpoonup> usize" where
  "community_weights entities reports =
     (let text_units = community_text_units entities in
      collect_map (map (\<lambda>r. (rp_community_id r,
        case text_units (rp_community_id r) of None \<Rightarrow> 0 | Some s \<Rightarrow> card s)) reports))"

subsection \<open>Printing floats\<close>

text \<open>\<open>{:+03}\<close>: a sign and at least two digits.\<close>

definition signed_exponent :: "int \<Rightarrow> string" where
  "signed_exponent e =
     (let ds = nat_to_dec (nat \<bar>e\<bar>)
      in (if e < 0 then CHR ''-'' else CHR ''+'') # (if length ds < 2 then CHR ''0'' # ds else ds))"

fun split_once :: "char \<Rightarrow> string \<Rightarrow> (string \<times> string) option" where
  "split_once c [] = None"
| "split_once c (d # ds) =
     (if d = c then Some ([], ds) else map_option (\<lambda>(before, after). (d # before, after)) (split_once c ds))"

definition parse_i32 :: "string \<Rightarrow> int option" where
  "parse_i32 s = (case parse_i64 s of None \<Rightarrow> None
     | Some i \<Rightarrow> if - (2 ^ 31) \<le> i \<and> i < 2 ^ 31 then Some i else None)"

definition python_float :: "('f, 'd) gctx \<Rightarrow> 'f \<Rightarrow> string" where
  "python_float g value =
     (if \<not> gc_finite g value then gc_show g value
      else
        let absolute = gc_abs g value in
        if gc_cmp g absolute (gc_zero g) \<noteq> Some Equal
           \<and> \<not> (f_le g (gc_small g) absolute \<and> f_lt g absolute (gc_large g)) then
          (let scientific = gc_show_exp g value in
           case split_once (CHR ''e'') scientific of
             None \<Rightarrow> scientific
           | Some (mantissa, exponent) \<Rightarrow>
               (case parse_i32 exponent of
                  None \<Rightarrow> scientific
                | Some parsed_exponent \<Rightarrow> mantissa @ ''e'' @ signed_exponent parsed_exponent))
        else if gc_whole g value then gc_show g value @ ''.0'' else gc_show g value)"

subsection \<open>Batches\<close>

definition report_rank :: "('f, 'd) gctx \<Rightarrow> 'f weighted_report \<Rightarrow> 'f" where
  "report_rank g w = (case rp_rank (wr_report w) of None \<Rightarrow> gc_zero g | Some rank \<Rightarrow> rank)"

definition report_row :: "('f, 'd) gctx \<Rightarrow> 'f weighted_report \<Rightarrow> string list" where
  "report_row g w =
     [rp_short_id (wr_report w), rp_title (wr_report w), python_float g (wr_weight w),
      rp_full_content (wr_report w), python_float g (report_rank g w)]"

definition report_header :: "string list" where
  "report_header = [''id'', ''title'', ''occurrence weight'', ''content'', ''rank'']"

definition report_dataframe :: "('f, 'd) gctx \<Rightarrow> 'f weighted_report list \<Rightarrow> query_error + 'd" where
  "report_dataframe g reports =
     map_err (QueryContext SearchGlobal ''build Global community batch records'')
       (gc_frame g (map (\<lambda>w. (rp_short_id (wr_report w), rp_title (wr_report w), wr_weight w,
          rp_full_content (wr_report w), report_rank g w)) reports))"

fun option_cmp :: "('f \<Rightarrow> 'f \<Rightarrow> ordering option) \<Rightarrow> 'f option \<Rightarrow> 'f option \<Rightarrow> ordering option" where
  "option_cmp cmp None None = Some Equal"
| "option_cmp cmp None (Some b) = Some Less"
| "option_cmp cmp (Some a) None = Some Greater"
| "option_cmp cmp (Some a) (Some b) = cmp a b"

definition or_equal :: "ordering option \<Rightarrow> ordering" where
  "or_equal v = (case v of None \<Rightarrow> Equal | Some c \<Rightarrow> c)"

definition compare_reports :: "('f, 'd) gctx \<Rightarrow> 'f weighted_report \<Rightarrow> 'f weighted_report \<Rightarrow> ordering" where
  "compare_reports g left right =
     (case or_equal (gc_cmp g (wr_weight right) (wr_weight left)) of
        Equal \<Rightarrow> or_equal (option_cmp (gc_cmp g) (rp_rank (wr_report right)) (rp_rank (wr_report left)))
      | c \<Rightarrow> c)"

record ('f, 'd) batching =
  bt_current :: "'f weighted_report list"
  bt_current_tokens :: usize
  bt_batches :: "string list"
  bt_records :: "'d list"
  bt_batch_report_ids :: "string list list"

definition cut_batch :: "('f, 'd) gctx \<Rightarrow> bool \<Rightarrow> ('f, 'd) batching \<Rightarrow> query_error + ('f, 'd) batching" where
  "cut_batch g capture_report_ids b =
     (if bt_current b = [] then Inr b
      else
        let current = sort_by (compare_reports g) (bt_current b) in
        and_then (render_csv (gc_csv g) SearchGlobal ''render Global community batch''
                   (context_table_new report_header (map (report_row g) current))) (\<lambda>text.
        and_then (report_dataframe g current) (\<lambda>frame.
          Inr (b\<lparr>bt_current := [], bt_batches := bt_batches b @ [text], bt_records := bt_records b @ [frame],
                 bt_batch_report_ids := bt_batch_report_ids b @
                   (if capture_report_ids then [map (\<lambda>w. rp_id (wr_report w)) current] else [])\<rparr>))))"

definition count_tokens :: "('f, 'd) gctx \<Rightarrow> string \<Rightarrow> string \<Rightarrow> query_error + usize" where
  "count_tokens g operation s = map_err (QueryContext SearchGlobal operation) (gc_count g s)"

definition batch_step ::
  "('f, 'd) gctx \<Rightarrow> bool \<Rightarrow> usize \<Rightarrow> ('f, 'd) batching \<Rightarrow> 'f weighted_report \<Rightarrow> query_error + ('f, 'd) batching" where
  "batch_step g capture_report_ids initial_tokens b report =
     and_then (render_delimited_row SearchGlobal ''render Global community row''
                (context_table_new report_header []) (report_row g report)) (\<lambda>row_text.
     and_then (count_tokens g ''count Global community row tokens'' row_text) (\<lambda>row_tokens.
     and_then (if gc_max_context_tokens g < usize_sat_add (bt_current_tokens b) row_tokens then
                 and_then (cut_batch g capture_report_ids b) (\<lambda>b. Inr (b\<lparr>bt_current_tokens := initial_tokens\<rparr>))
               else Inr b) (\<lambda>b.
       Inr (b\<lparr>bt_current := bt_current b @ [report],
              bt_current_tokens := usize_sat_add (bt_current_tokens b) row_tokens\<rparr>))))"

fun batch_all ::
  "('f, 'd) gctx \<Rightarrow> bool \<Rightarrow> usize \<Rightarrow> 'f weighted_report list \<Rightarrow> ('f, 'd) batching \<Rightarrow> query_error + ('f, 'd) batching" where
  "batch_all g capture initial_tokens [] b = Inr b"
| "batch_all g capture initial_tokens (report # reports) b =
     and_then (batch_step g capture initial_tokens b report) (batch_all g capture initial_tokens reports)"

definition batch_reports ::
  "('f, 'd) gctx \<Rightarrow> 'f weighted_report list \<Rightarrow> usage \<Rightarrow> 'f dynamic_rating list \<Rightarrow> bool
   \<Rightarrow> query_error + ('f, 'd) global_context_result" where
  "batch_reports g reports usage dynamic_ratings capture =
     (if reports = [] then
        Inr \<lparr>gr_batches = [], gr_records = [], gr_batch_report_ids = [], gr_usage = usage,
             gr_dynamic_ratings = dynamic_ratings\<rparr>
      else
        and_then (render_delimited_header ''Reports'' SearchGlobal ''render Global community header''
                   (context_table_new report_header [])) (\<lambda>initial.
        and_then (count_tokens g ''count Global community header tokens'' initial) (\<lambda>initial_tokens.
        and_then (batch_all g capture initial_tokens reports
                   \<lparr>bt_current = [], bt_current_tokens = initial_tokens, bt_batches = [], bt_records = [],
                    bt_batch_report_ids = []\<rparr>) (\<lambda>b.
        and_then (cut_batch g capture b) (\<lambda>b.
          Inr \<lparr>gr_batches = bt_batches b, gr_records = bt_records b, gr_batch_report_ids = bt_batch_report_ids b,
               gr_usage = usage, gr_dynamic_ratings = dynamic_ratings\<rparr>)))))"

definition weighted_reports ::
  "('f, 'd) gctx \<Rightarrow> (string \<rightharpoonup> usize) \<Rightarrow> 'f community_report list \<Rightarrow> 'f weighted_report list" where
  "weighted_reports g weights reports =
     (let max_weight = foldl max 0 (List.map_filter (\<lambda>r. weights (rp_community_id r)) reports) in
      map (\<lambda>r.
        let raw = (case weights (rp_community_id r) of None \<Rightarrow> 0 | Some n \<Rightarrow> n)
        in \<lparr>wr_report = r, wr_weight = (if max_weight = 0 then gc_zero g else gc_ratio g raw max_weight)\<rparr>)
      (filter (\<lambda>r. case rp_rank r of None \<Rightarrow> False | Some rank \<Rightarrow> f_le g (gc_zero g) rank) reports))"

text \<open>\<open>build_selected_with_evidence\<close>; \<open>all_reports\<close> and \<open>entities\<close> are the builder's.\<close>

definition build_selected ::
  "('f, 'd) gctx \<Rightarrow> query_entity list \<Rightarrow> 'f community_report list \<Rightarrow> 'f community_report list \<Rightarrow> usage
   \<Rightarrow> 'f dynamic_rating list \<Rightarrow> bool \<Rightarrow> (query_error + ('f, 'd) global_context_result) option" where
  "build_selected g entities all_reports reports usage dynamic_ratings capture =
     map_option (\<lambda>(selected, _). batch_reports g selected usage dynamic_ratings capture)
       (shuffle (weighted_reports g (community_weights entities all_reports) reports) (random_new 86))"

definition build_fixed ::
  "('f, 'd) gctx \<Rightarrow> query_entity list \<Rightarrow> 'f community_report list \<Rightarrow> bool
   \<Rightarrow> (query_error + ('f, 'd) global_context_result) option" where
  "build_fixed g entities all_reports capture =
     build_selected g entities all_reports all_reports usage_default [] capture"

subsection \<open>The context of the answer\<close>

definition bool_to_string :: "bool \<Rightarrow> string" where
  "bool_to_string b = (if b then ''true'' else ''false'')"

text \<open>\<open>shown\<close> prints a JSON value, \<open>debug\<close> a list of them.\<close>

definition dynamic_context ::
  "('f, 'd) gctx \<Rightarrow> ('f json \<Rightarrow> string) \<Rightarrow> ('f json list \<Rightarrow> string) \<Rightarrow> 'f dynamic_rating list
   \<Rightarrow> query_error + context_text \<times> 'd context_records" where
  "dynamic_context g shown debug ratings =
     (if ratings = [] then Inr (TextEmpty, RecordsEmpty)
      else
        let rows = map (\<lambda>r. [dy_community_id r, int_to_dec (dy_selected_rating r),
               join_with '','' (map shown (dy_repeated_ratings r)), bool_to_string (dy_selected r),
               int_to_dec (dy_level r)]) ratings
        in and_then (to_dataframe (gc_frames g) SearchGlobal ''build Dynamic Community Selection records''
             (context_table_new [''community_id'', ''selected_rating'', ''repeated_ratings'', ''selected'', ''level''] rows))
           (\<lambda>records.
             Inr (TextNamed (foldl (\<lambda>m r. om_insert (dy_community_id r)
                 (''rating='' @ int_to_dec (dy_selected_rating r) @ ''; repeats='' @ debug (dy_repeated_ratings r)
                   @ ''; selected='' @ bool_to_string (dy_selected r) @ ''; level='' @ int_to_dec (dy_level r)) m) [] ratings),
               RecordBatches [records])))"

definition global_context ::
  "('f, 'd) gctx \<Rightarrow> ('f json \<Rightarrow> string) \<Rightarrow> ('f json list \<Rightarrow> string) \<Rightarrow> ('f, 'd) global_context_result
   \<Rightarrow> string \<Rightarrow> 'd \<Rightarrow> query_error + 'd query_context" where
  "global_context g shown debug res reduce map_outputs =
     and_then (to_dataframe (gc_frames g) SearchGlobal ''build Global reduce context records''
                (context_table_new [''report_data''] [[reduce]])) (\<lambda>reduce_records.
     and_then (dynamic_context g shown debug (gr_dynamic_ratings res)) (\<lambda>(dynamic_text, dynamic_records).
       Inr \<lparr>qc_text = TextComposite [(''dynamic'', dynamic_text), (''map'', TextBatches (gr_batches res)),
                                      (''reduce'', Text reduce)],
            qc_records = RecordsNamed [(''dynamic'', dynamic_records), (''map'', RecordBatches (gr_records res)),
                                       (''map_outputs'', RecordBatches [map_outputs]),
                                       (''reduce'', RecordBatches [reduce_records])]\<rparr>))"

subsection \<open>Every ranked report is in exactly one batch\<close>

definition row_tokens :: "('f, 'd) gctx \<Rightarrow> 'f weighted_report \<Rightarrow> usize" where
  "row_tokens g w = (case gc_count g (delimited_record (report_row g w)) of Inl e \<Rightarrow> 0 | Inr n \<Rightarrow> n)"

definition group_tokens :: "('f, 'd) gctx \<Rightarrow> usize \<Rightarrow> 'f weighted_report list \<Rightarrow> usize" where
  "group_tokens g initial part = foldl usize_sat_add initial (map (row_tokens g) part)"

definition group_fits :: "('f, 'd) gctx \<Rightarrow> usize \<Rightarrow> 'f weighted_report list \<Rightarrow> bool" where
  "group_fits g initial part \<longleftrightarrow>
     part \<noteq> [] \<and> (length part = 1 \<or> group_tokens g initial part \<le> gc_max_context_tokens g)"

definition batch_table :: "('f, 'd) gctx \<Rightarrow> 'f weighted_report list \<Rightarrow> context_table" where
  "batch_table g part = context_table_new report_header (map (report_row g) (sort_by (compare_reports g) part))"

definition batched ::
  "('f, 'd) gctx \<Rightarrow> bool \<Rightarrow> 'f weighted_report list list \<Rightarrow> string list \<Rightarrow> 'd list \<Rightarrow> string list list \<Rightarrow> bool" where
  "batched g capture groups texts frames ids \<longleftrightarrow>
     map (\<lambda>part. render_csv (gc_csv g) SearchGlobal ''render Global community batch'' (batch_table g part)) groups = map Inr texts
     \<and> map (\<lambda>part. report_dataframe g (sort_by (compare_reports g) part)) groups = map Inr frames
     \<and> ids = (if capture then map (map (rp_id \<circ> wr_report) \<circ> sort_by (compare_reports g)) groups else [])"

definition batching_inv ::
  "('f, 'd) gctx \<Rightarrow> bool \<Rightarrow> usize \<Rightarrow> 'f weighted_report list list \<Rightarrow> ('f, 'd) batching \<Rightarrow> bool" where
  "batching_inv g capture initial groups b \<longleftrightarrow>
     batched g capture groups (bt_batches b) (bt_records b) (bt_batch_report_ids b)
     \<and> list_all (group_fits g initial) groups
     \<and> bt_current_tokens b = group_tokens g initial (bt_current b)
     \<and> (bt_current b \<noteq> [] \<longrightarrow> group_fits g initial (bt_current b))"

lemma cut_batch_inv:
  assumes cut: "cut_batch g capture b = Inr b'" and inv: "batching_inv g capture initial groups b"
  shows "\<exists>groups'. concat groups' = concat groups @ bt_current b \<and> bt_current b' = []
     \<and> batched g capture groups' (bt_batches b') (bt_records b') (bt_batch_report_ids b')
     \<and> list_all (group_fits g initial) groups'"
proof (cases "bt_current b = []")
  case True
  then show ?thesis using cut inv by (intro exI [of _ groups]) (auto simp: cut_batch_def batching_inv_def)
next
  case False
  let ?sorted = "sort_by (compare_reports g) (bt_current b)"
  obtain csv frame where
    rendered: "render_csv (gc_csv g) SearchGlobal ''render Global community batch'' (batch_table g (bt_current b)) = Inr csv"
    and frame: "report_dataframe g ?sorted = Inr frame"
    and b': "b' = b\<lparr>bt_current := [], bt_batches := bt_batches b @ [csv], bt_records := bt_records b @ [frame],
                 bt_batch_report_ids := bt_batch_report_ids b @
                   (if capture then [map (\<lambda>w. rp_id (wr_report w)) ?sorted] else [])\<rparr>"
    using cut False by (auto simp: cut_batch_def Let_def and_then_Inr_iff batch_table_def)
  show ?thesis
    by (rule exI [of _ "groups @ [bt_current b]"])
      (use inv False rendered frame in \<open>auto simp: b' batched_def batching_inv_def o_def\<close>)
qed

lemma batch_step_inv:
  assumes step: "batch_step g capture initial b report = Inr b'" and inv: "batching_inv g capture initial groups b"
  shows "\<exists>groups'. concat groups' @ bt_current b' = concat groups @ bt_current b @ [report]
     \<and> batching_inv g capture initial groups' b'"
proof -
  have row: "render_delimited_row SearchGlobal op (context_table_new report_header []) (report_row g report) =
      Inr (delimited_record (report_row g report))" for op
    by (simp add: render_delimited_row_def validate_row_def report_row_def report_header_def context_table_new_def)
  have tokens: "row_tokens g report = n" if "gc_count g (delimited_record (report_row g report)) = Inr n" for n
    using that by (simp add: row_tokens_def)
  show ?thesis
  proof (cases "gc_max_context_tokens g < usize_sat_add (bt_current_tokens b) (row_tokens g report)")
    case True
    then obtain c where cut: "cut_batch g capture b = Inr c"
      and b': "b' = c\<lparr>bt_current := bt_current c @ [report], bt_current_tokens := usize_sat_add initial (row_tokens g report)\<rparr>"
      using step by (auto simp: batch_step_def row count_tokens_def and_then_Inr_iff dest!: tokens)
    obtain groups' where "concat groups' = concat groups @ bt_current b" "bt_current c = []"
      "batched g capture groups' (bt_batches c) (bt_records c) (bt_batch_report_ids c)"
      "list_all (group_fits g initial) groups'"
      using cut_batch_inv [OF cut inv] by blast
    then show ?thesis
      by (intro exI [of _ groups']) (simp add: b' batching_inv_def group_tokens_def group_fits_def)
  next
    case False
    then have b': "b' = b\<lparr>bt_current := bt_current b @ [report],
        bt_current_tokens := usize_sat_add (bt_current_tokens b) (row_tokens g report)\<rparr>"
      using step by (auto simp: batch_step_def row count_tokens_def and_then_Inr_iff dest!: tokens)
    have "bt_current_tokens b = group_tokens g initial (bt_current b)" using inv by (simp add: batching_inv_def)
    then have "usize_sat_add (bt_current_tokens b) (row_tokens g report) = group_tokens g initial (bt_current b @ [report])"
      by (simp add: group_tokens_def)
    then show ?thesis using False inv
      by (intro exI [of _ groups]) (simp add: b' batching_inv_def group_fits_def)
  qed
qed

lemma batch_all_inv:
  "batch_all g capture initial reports b = Inr b' \<Longrightarrow> batching_inv g capture initial groups b \<Longrightarrow>
   \<exists>groups'. concat groups' @ bt_current b' = concat groups @ bt_current b @ reports
     \<and> batching_inv g capture initial groups' b'"
proof (induction reports arbitrary: b groups)
  case Nil
  then show ?case by auto
next
  case (Cons report reports)
  obtain c where c: "batch_step g capture initial b report = Inr c" "batch_all g capture initial reports c = Inr b'"
    using Cons.prems(1) by (auto simp: and_then_Inr_iff)
  obtain gs where gs: "concat gs @ bt_current c = concat groups @ bt_current b @ [report]" "batching_inv g capture initial gs c"
    using batch_step_inv [OF c(1) Cons.prems(2)] by blast
  from Cons.IH [OF c(2) gs(2)] obtain groups' where
    "concat groups' @ bt_current b' = (concat gs @ bt_current c) @ reports" "batching_inv g capture initial groups' b'"
    by auto
  then show ?case unfolding gs(1) by (intro exI [of _ groups']) simp
qed

definition header_tokens :: "('f, 'd) gctx \<Rightarrow> usize" where
  "header_tokens g =
     (case gc_count g (section_title ''Reports'' @ delimited_record report_header) of Inl e \<Rightarrow> 0 | Inr n \<Rightarrow> n)"

lemma batch_reports_groups:
  assumes "batch_reports g reports usage ratings capture = Inr res"
  shows "\<exists>groups. concat groups = reports \<and> list_all (group_fits g (header_tokens g)) groups
     \<and> batched g capture groups (gr_batches res) (gr_records res) (gr_batch_report_ids res)"
proof (cases "reports = []")
  case True
  then show ?thesis using assms by (intro exI [of _ "[]"]) (auto simp: batch_reports_def batched_def)
next
  case False
  have header: "render_delimited_header ''Reports'' SearchGlobal op (context_table_new report_header []) =
      Inr (section_title ''Reports'' @ delimited_record report_header)" for op
    by (simp add: render_delimited_header_def validate_rows_def context_table_new_def)
  let ?b = "\<lparr>bt_current = [], bt_current_tokens = header_tokens g, bt_batches = [], bt_records = [],
                    bt_batch_report_ids = []\<rparr>"
  obtain b b' where run: "batch_all g capture (header_tokens g) reports ?b = Inr b" "cut_batch g capture b = Inr b'"
    and res: "gr_batches res = bt_batches b'" "gr_records res = bt_records b'" "gr_batch_report_ids res = bt_batch_report_ids b'"
    using assms False by (auto simp: batch_reports_def header count_tokens_def header_tokens_def and_then_Inr_iff)
  have "batching_inv g capture (header_tokens g) [] ?b"
    by (simp add: batching_inv_def batched_def group_tokens_def)
  from batch_all_inv [OF run(1) this] obtain groups where
    groups: "concat groups @ bt_current b = reports" "batching_inv g capture (header_tokens g) groups b" by auto
  from cut_batch_inv [OF run(2) groups(2)] groups(1) show ?thesis unfolding res by auto
qed

text \<open>C30: The reports of a Global Search: when the context is built, the reports with a rank of at least zero are
  split, each into exactly one batch; every batch is the table of its reports in order of weight and
  rank, with the records of the same reports in the same order and, on request, their identifiers; and a
  batch stays within the token budget unless it is a single report.\<close>

theorem global_context_partitions:
  assumes "build_selected g entities all_reports reports usage ratings capture = Some (Inr res)"
  shows "\<exists>groups.
     mset (map wr_report (concat groups)) =
       mset (filter (\<lambda>r. \<exists>rank. rp_rank r = Some rank \<and> f_le g (gc_zero g) rank) reports)
     \<and> (\<forall>part \<in> set groups. part \<noteq> []
          \<and> (length part = 1 \<or> group_tokens g (header_tokens g) part \<le> gc_max_context_tokens g))
     \<and> map (\<lambda>part. render_csv (gc_csv g) SearchGlobal ''render Global community batch'' (batch_table g part)) groups
         = map Inr (gr_batches res)
     \<and> map (\<lambda>part. report_dataframe g (sort_by (compare_reports g) part)) groups = map Inr (gr_records res)
     \<and> gr_batch_report_ids res =
         (if capture then map (map (rp_id \<circ> wr_report) \<circ> sort_by (compare_reports g)) groups else [])"
proof -
  obtain selected r where shuffled:
      "shuffle (weighted_reports g (community_weights entities all_reports) reports) (random_new 86) = Some (selected, r)"
    and batch: "batch_reports g selected usage ratings capture = Inr res"
    using assms by (auto simp: build_selected_def)
  obtain groups where groups: "concat groups = selected" "list_all (group_fits g (header_tokens g)) groups"
     "batched g capture groups (gr_batches res) (gr_records res) (gr_batch_report_ids res)"
    using batch_reports_groups [OF batch] by blast
  have "mset selected = mset (weighted_reports g (community_weights entities all_reports) reports)"
    using shuffle_from_mset [OF shuffled [unfolded shuffle_def]] by auto
  then have "mset (map wr_report selected) =
      mset (map wr_report (weighted_reports g (community_weights entities all_reports) reports))"
    by (simp add: mset_map)
  also have "map wr_report (weighted_reports g (community_weights entities all_reports) reports) =
      filter (\<lambda>r. \<exists>rank. rp_rank r = Some rank \<and> f_le g (gc_zero g) rank) reports"
    by (auto simp: weighted_reports_def Let_def o_def intro!: filter_cong split: option.split)
  finally have "mset (map wr_report (concat groups)) =
      mset (filter (\<lambda>r. \<exists>rank. rp_rank r = Some rank \<and> f_le g (gc_zero g) rank) reports)"
    unfolding groups(1) .
  then show ?thesis using groups(2,3)
    by (intro exI [of _ groups]) (auto simp: batched_def list_all_iff group_fits_def)
qed

text \<open>A sample with integers for floats, characters for tokens and no quoting.\<close>

definition sample_gctx :: "(int, unit) gctx" where
  "sample_gctx = \<lparr>gc_zero = 0, gc_ratio = (\<lambda>a b. int a),
     gc_cmp = (\<lambda>a b. Some (if a < b then Less else if a = b then Equal else Greater)),
     gc_finite = (\<lambda>_. True), gc_abs = abs, gc_whole = (\<lambda>_. True), gc_small = 0, gc_large = 100,
     gc_show = (\<lambda>_. ''1''), gc_show_exp = (\<lambda>_. ''1e0''), gc_count = (\<lambda>s. Inr 1),
     gc_csv = (\<lambda>rows. Inr (concat (map delimited_record rows))),
     gc_frames = \<lparr>fr_empty = (), fr_new = (\<lambda>_ _. Inr ())\<rparr>, gc_frame = (\<lambda>_. Inr ()), gc_max_context_tokens = 100\<rparr>"

definition sample_ranked :: "int community_report list" where
  "sample_ranked = [(sample_report ''a'' ''0'')\<lparr>rp_rank := Some 2\<rparr>, sample_report ''b'' ''1'',
     (sample_report ''c'' ''2'')\<lparr>rp_rank := Some (-1)\<rparr>]"

lemma sample_global_context:
  "\<exists>res. build_selected sample_gctx [] sample_ranked sample_ranked usage_default [] True = Some (Inr res)"
proof -
  have weighted: "weighted_reports sample_gctx w sample_ranked =
      [\<lparr>wr_report = sample_ranked ! 0, wr_weight = wr_weight (hd (weighted_reports sample_gctx w sample_ranked))\<rparr>]" for w
    by (simp add: weighted_reports_def Let_def sample_ranked_def sample_report_def f_le_def sample_gctx_def)
  have "is_ok (batch_reports sample_gctx [w] usage_default [] True)" for w
    by (simp add: batch_reports_def batch_step_def cut_batch_def render_delimited_header_def render_delimited_row_def
        validate_rows_def validate_row_def context_table_new_def report_header_def report_row_def count_tokens_def
        render_csv_def report_dataframe_def sort_by_def usize_sat_add_def sample_gctx_def)
  then show ?thesis
    unfolding build_selected_def is_ok_iff by (subst weighted) (auto simp: shuffle_def)
qed

theorem global_context_partitions_witness:
  "\<exists>res groups. build_selected sample_gctx [] sample_ranked sample_ranked usage_default [] True = Some (Inr res)
     \<and> mset (map wr_report (concat groups :: int weighted_report list)) = {#sample_ranked ! 0#}
     \<and> length (gr_records res) = length groups"
proof -
  obtain res where res: "build_selected sample_gctx [] sample_ranked sample_ranked usage_default [] True = Some (Inr res)"
    using sample_global_context by blast
  have ranked: "mset (filter (\<lambda>r. \<exists>rank. rp_rank r = Some rank \<and> f_le sample_gctx (gc_zero sample_gctx) rank) sample_ranked)
      = {#sample_ranked ! 0#}"
    by (simp add: sample_ranked_def sample_report_def f_le_def sample_gctx_def)
  obtain groups :: "int weighted_report list list" where "mset (map wr_report (concat groups)) = {#sample_ranked ! 0#}"
    "length (gr_records res) = length groups"
    using global_context_partitions [OF res, unfolded ranked] by (elim exE conjE) (metis length_map)
  with res show ?thesis by (intro exI conjI)
qed

end
