(* ===== verification/Streaming.thy ===== *)
theory Streaming
  imports Query_Types
begin

text \<open>
  The event stream of a completion (\<open>query/streaming.rs\<close>), shared by the query methods: a context
  event, the tokens, and one final event.

  The provider is the list of its items, an error or the content of the first choice (empty when
  there is none); \<open>count\<close> is the tokenizer. Callbacks and elapsed time are left out.
  \<open>stream_events\<close> is \<open>stream::unfold\<close>.
\<close>

record 'c query_result =
  qr_response :: string
  qr_context :: 'c
  qr_usage :: query_usage

datatype 'c query_event = ContextEvent 'c | TokenEvent string | CompletedEvent "'c query_result"

record 'c stream_config =
  sc_context :: 'c
  sc_categories :: "(string, usage) omap"
  sc_completion_category :: string
  sc_prompt_tokens :: usize
  sc_completion_model_id :: string
  sc_method :: search_method
  sc_consume_operation :: string
  sc_output_count_operation :: string
  sc_output_count_is_context_error :: bool

type_synonym provider = "(string + string) list"

record 'c active_stream =
  ac_configured :: "'c stream_config"
  ac_provider :: provider
  ac_response :: string
  ac_context_pending :: bool

definition completed_event ::
  "(string \<Rightarrow> string + usize) \<Rightarrow> 'c stream_config \<Rightarrow> string \<Rightarrow> query_error + 'c query_event" where
  "completed_event count_tokens cfg response =
     (case count_tokens response of
        Inl source \<Rightarrow>
          Inl (if sc_output_count_is_context_error cfg
               then QueryContext (sc_method cfg) (sc_output_count_operation cfg) source
               else QueryCompletion (sc_method cfg) (sc_output_count_operation cfg) (sc_completion_model_id cfg) source)
      | Inr output_tokens \<Rightarrow>
          let categories = om_insert (sc_completion_category cfg)
                \<lparr>us_llm_calls = 1, us_prompt_tokens = sc_prompt_tokens cfg, us_output_tokens = output_tokens\<rparr>
                (sc_categories cfg)
          in Inr (CompletedEvent \<lparr>qr_response = response, qr_context = sc_context cfg,
                                   qr_usage = from_categories categories\<rparr>))"

fun consume ::
  "(string \<Rightarrow> string + usize) \<Rightarrow> 'c stream_config \<Rightarrow> string \<Rightarrow> provider
   \<Rightarrow> (query_error + 'c query_event) \<times> 'c active_stream option" where
  "consume count_tokens cfg response [] = (completed_event count_tokens cfg response, None)"
| "consume count_tokens cfg response (Inl source # rest) =
     (Inl (QueryCompletion (sc_method cfg) (sc_consume_operation cfg) (sc_completion_model_id cfg) source), None)"
| "consume count_tokens cfg response (Inr content # rest) =
     (if content = [] then consume count_tokens cfg response rest
      else (Inr (TokenEvent content),
            Some \<lparr>ac_configured = cfg, ac_provider = rest, ac_response = response @ content,
                  ac_context_pending = False\<rparr>))"

definition next_event ::
  "(string \<Rightarrow> string + usize) \<Rightarrow> 'c active_stream option
   \<Rightarrow> ((query_error + 'c query_event) \<times> 'c active_stream option) option" where
  "next_event count_tokens st =
     (case st of
        None \<Rightarrow> None
      | Some s \<Rightarrow>
          if ac_context_pending s
          then Some (Inr (ContextEvent (sc_context (ac_configured s))), Some (s\<lparr>ac_context_pending := False\<rparr>))
          else Some (consume count_tokens (ac_configured s) (ac_response s) (ac_provider s)))"

lemma consume_shorter:
  "consume count_tokens cfg response ps = (e, Some s) \<Longrightarrow>
   length (ac_provider s) < length ps \<and> \<not> ac_context_pending s"
  by (induction count_tokens cfg response ps rule: consume.induct) (auto split: if_splits)

function stream_events ::
  "(string \<Rightarrow> string + usize) \<Rightarrow> 'c active_stream option \<Rightarrow> (query_error + 'c query_event) list" where
  "stream_events count_tokens st =
     (case next_event count_tokens st of
        None \<Rightarrow> []
      | Some (event, st') \<Rightarrow> event # stream_events count_tokens st')"
  by pat_completeness auto

termination
proof (relation "measure (\<lambda>(count_tokens, st). case st of None \<Rightarrow> 0
      | Some s \<Rightarrow> 2 * length (ac_provider s) + (if ac_context_pending s then 1 else 0) + 1)", goal_cases)
  case (2 count_tokens st p event st')
  then obtain s where s: "st = Some s" by (cases st) (auto simp: next_event_def)
  show ?case
  proof (cases st')
    case (Some s')
    with 2 s consume_shorter show ?thesis by (fastforce simp: next_event_def split: if_splits)
  qed (simp add: s)
qed simp

declare stream_events.simps [simp del]

definition completion_event_stream ::
  "(string \<Rightarrow> string + usize) \<Rightarrow> 'c stream_config \<Rightarrow> provider \<Rightarrow> (query_error + 'c query_event) list" where
  "completion_event_stream count_tokens cfg ps =
     stream_events count_tokens (Some \<lparr>ac_configured = cfg, ac_provider = ps, ac_response = [],
       ac_context_pending = True\<rparr>)"

subsection \<open>The protocol\<close>

fun is_content :: "string + string \<Rightarrow> bool" where
  "is_content (Inl e) = False"
| "is_content (Inr s) = True"

fun content_of :: "string + string \<Rightarrow> string" where
  "content_of (Inl e) = []"
| "content_of (Inr s) = s"

text \<open>The tokens before the first provider error.\<close>

definition provider_tokens :: "provider \<Rightarrow> string list" where
  "provider_tokens ps = filter (\<lambda>s. s \<noteq> []) (map content_of (takeWhile is_content ps))"

lemma provider_tokens_Cons:
  "provider_tokens [] = []" "provider_tokens (Inl e # ps) = []"
  "provider_tokens (Inr s # ps) = (if s = [] then provider_tokens ps else s # provider_tokens ps)"
  by (simp_all add: provider_tokens_def)

definition final_event ::
  "(string \<Rightarrow> string + usize) \<Rightarrow> 'c stream_config \<Rightarrow> string \<Rightarrow> provider \<Rightarrow> query_error + 'c query_event" where
  "final_event count_tokens cfg response ps =
     (case dropWhile is_content ps of
        Inl source # _ \<Rightarrow>
          Inl (QueryCompletion (sc_method cfg) (sc_consume_operation cfg) (sc_completion_model_id cfg) source)
      | _ \<Rightarrow> completed_event count_tokens cfg (response @ concat (provider_tokens ps)))"

lemma final_event_Cons:
  "final_event count_tokens cfg response [] = completed_event count_tokens cfg response"
  "final_event count_tokens cfg response (Inl e # ps) =
     Inl (QueryCompletion (sc_method cfg) (sc_consume_operation cfg) (sc_completion_model_id cfg) e)"
  "final_event count_tokens cfg response (Inr s # ps) = final_event count_tokens cfg (response @ s) ps"
  by (simp_all add: final_event_def provider_tokens_Cons cong: list.case_cong sum.case_cong)

lemma stream_events_None: "stream_events count_tokens None = []"
  by (subst stream_events.simps) (simp add: next_event_def)

lemma stream_events_running:
  "stream_events count_tokens (Some \<lparr>ac_configured = cfg, ac_provider = ps, ac_response = response,
       ac_context_pending = False\<rparr>) =
     map (\<lambda>t. Inr (TokenEvent t)) (provider_tokens ps) @ [final_event count_tokens cfg response ps]"
proof (induction ps arbitrary: response)
  case Nil
  show ?case
    by (subst stream_events.simps)
      (simp add: next_event_def stream_events_None final_event_Cons provider_tokens_Cons)
next
  case (Cons p ps)
  show ?case
  proof (cases p)
    case (Inl e)
    then show ?thesis
      by (subst stream_events.simps)
        (simp add: next_event_def stream_events_None final_event_Cons provider_tokens_Cons)
  next
    case (Inr s)
    show ?thesis
    proof (cases "s = []")
      case True
      have "stream_events count_tokens (Some \<lparr>ac_configured = cfg, ac_provider = p # ps, ac_response = response,
         ac_context_pending = False\<rparr>) =
        stream_events count_tokens (Some \<lparr>ac_configured = cfg, ac_provider = ps, ac_response = response,
         ac_context_pending = False\<rparr>)"
        by (subst (1 2) stream_events.simps) (simp add: next_event_def Inr True)
      then show ?thesis using Cons.IH Inr True by (simp add: final_event_Cons provider_tokens_Cons)
    next
      case False
      then show ?thesis using Cons.IH Inr
        by (subst stream_events.simps) (simp add: next_event_def final_event_Cons provider_tokens_Cons)
    qed
  qed
qed

text \<open>C35: The stream protocol: whatever the provider does, a consumer sees the context first, then the
  non-empty tokens up to the first provider error, in order, and then exactly one final event and
  nothing after it: that error, or the counting error, or a completion whose response is the
  concatenation of the tokens it has seen.\<close>

theorem completion_stream_protocol:
  "completion_event_stream count_tokens cfg ps =
     Inr (ContextEvent (sc_context cfg)) # map (\<lambda>t. Inr (TokenEvent t)) (provider_tokens ps)
       @ [case dropWhile is_content ps of
            Inl source # _ \<Rightarrow>
              Inl (QueryCompletion (sc_method cfg) (sc_consume_operation cfg) (sc_completion_model_id cfg) source)
          | _ \<Rightarrow> completed_event count_tokens cfg (concat (provider_tokens ps))]"
  using stream_events_running [of count_tokens cfg ps "[]"] unfolding completion_event_stream_def
  by (subst stream_events.simps) (simp add: next_event_def final_event_def cong: list.case_cong sum.case_cong)

end
