(* ===== verification/Query_Concurrency.thy ===== *)
theory Query_Concurrency
  imports Prelude
begin

text \<open>
  Bounded, fail-fast concurrency (\<open>query/concurrency.rs\<close>): \<open>try_buffered_ordered\<close> keeps at most
  \<open>concurrency\<close> futures in flight, takes the next one whenever one completes, returns the first error
  that arrives, and otherwise the values in input order.

  The futures are the list of the results they will have; which pending future completes next is
  the scheduler's choice, so the function is a step relation. Position \<open>i\<close> stands for the \<open>i\<close>-th future.
\<close>

record 't buffered =
  bu_rest :: "usize list" \<comment> \<open>not started: the iterator \<open>futures\<close>\<close>
  bu_pending :: "usize list" \<comment> \<open>in flight\<close>
  bu_completed :: "(usize \<times> 't) list"

datatype ('e, 't) buffer_state = Running "'t buffered" | Returned "'e + 't list"

definition buffered_start :: "usize \<Rightarrow> usize \<Rightarrow> 't buffered" where
  "buffered_start n concurrency =
     (let concurrency = max concurrency 1
      in \<lparr>bu_rest = drop concurrency [0..<n], bu_pending = take concurrency [0..<n], bu_completed = []\<rparr>)"

text \<open>The body of the loop, once the pending future \<open>i\<close> has completed.\<close>

definition complete_one :: "usize \<Rightarrow> 'e + 't \<Rightarrow> 't buffered \<Rightarrow> ('e, 't) buffer_state" where
  "complete_one i result st =
     (case result of
        Inl e \<Rightarrow> Returned (Inl e)
      | Inr v \<Rightarrow>
          (let st = st\<lparr>bu_pending := remove1 i (bu_pending st), bu_completed := bu_completed st @ [(i, v)]\<rparr>
           in case bu_rest st of
                [] \<Rightarrow> Running st
              | j # js \<Rightarrow> Running (st\<lparr>bu_rest := js, bu_pending := bu_pending st @ [j]\<rparr>)))"

definition buffered_values :: "'t buffered \<Rightarrow> 't list" where
  "buffered_values st = map snd (sort_key fst (bu_completed st))"

inductive buffered_step :: "('e + 't) list \<Rightarrow> ('e, 't) buffer_state \<Rightarrow> ('e, 't) buffer_state \<Rightarrow> bool"
  for results where
  completes: "i \<in> set (bu_pending st) \<Longrightarrow>
     buffered_step results (Running st) (complete_one i (results ! i) st)"
| exhausted: "bu_pending st = [] \<Longrightarrow>
     buffered_step results (Running st) (Returned (Inr (buffered_values st)))"

inductive_cases running_stepE: "buffered_step results (Running st) s"
inductive_cases returned_stepE: "buffered_step results (Returned r) s"

text \<open>The positions are split between the three parts; what is completed succeeded; nothing waits while
  there is room.\<close>

definition buffered_inv :: "('e + 't) list \<Rightarrow> usize \<Rightarrow> 't buffered \<Rightarrow> bool" where
  "buffered_inv results concurrency st \<longleftrightarrow>
     distinct (map fst (bu_completed st) @ bu_pending st @ bu_rest st)
     \<and> set (map fst (bu_completed st) @ bu_pending st @ bu_rest st) = {..<length results}
     \<and> (\<forall>(i, v) \<in> set (bu_completed st). results ! i = Inr v)
     \<and> length (bu_pending st) \<le> max concurrency 1
     \<and> (bu_pending st = [] \<longrightarrow> bu_rest st = [])"

lemma buffered_inv_start: "buffered_inv results concurrency (buffered_start (length results) concurrency)"
proof -
  let ?c = "max concurrency 1"
  have parts: "take ?c [0..<length results] @ drop ?c [0..<length results] = [0..<length results]"
    by (rule append_take_drop_id)
  then have "set (take ?c [0..<length results]) \<union> set (drop ?c [0..<length results]) = {..<length results}"
    by (metis set_append set_upt atLeast0LessThan)
  moreover have "distinct (take ?c [0..<length results] @ drop ?c [0..<length results])"
    unfolding parts by (rule distinct_upt)
  ultimately show ?thesis
    unfolding buffered_inv_def buffered_start_def Let_def by (simp add: atLeast0LessThan del: take_upt drop_upt distinct_append)
qed

lemma buffered_inv_step:
  assumes inv: "buffered_inv results concurrency st" and i: "i \<in> set (bu_pending st)"
    and step: "complete_one i (results ! i) st = Running st'"
  shows "buffered_inv results concurrency st'"
proof -
  obtain v where v: "results ! i = Inr v" using step by (cases "results ! i") (simp_all add: complete_one_def)
  let ?st = "st\<lparr>bu_pending := remove1 i (bu_pending st), bu_completed := bu_completed st @ [(i, v)]\<rparr>"
  have "distinct (bu_pending st)" using inv by (simp add: buffered_inv_def)
  then have rem: "set (remove1 i (bu_pending st)) = set (bu_pending st) - {i}" "distinct (remove1 i (bu_pending st))"
    "length (remove1 i (bu_pending st)) < length (bu_pending st)"
    using i length_pos_if_in_set [OF i] by (simp_all add: length_remove1)
  show ?thesis
  proof (cases "bu_rest st")
    case Nil
    with step v have "st' = ?st" by (simp add: complete_one_def Let_def)
    then show ?thesis using inv i rem v Nil by (auto simp: buffered_inv_def)
  next
    case (Cons j js)
    with step v have "st' = ?st\<lparr>bu_rest := js, bu_pending := remove1 i (bu_pending st) @ [j]\<rparr>"
      by (simp add: complete_one_def Let_def)
    then show ?thesis using inv i rem v Cons by (auto simp: buffered_inv_def)
  qed
qed

lemma sort_key_upt:
  assumes "distinct (map fst xs)" "set (map fst xs) = {..<n}"
  shows "map fst (sort_key fst xs) = [0..<n]"
proof -
  have "sorted (map fst (sort_key fst xs))" by simp
  moreover have "distinct (map fst (sort_key fst xs))" using assms(1) by (simp add: distinct_map)
  moreover have "set (map fst (sort_key fst xs)) = set [0..<n]" using assms(2) by (simp add: atLeast0LessThan)
  ultimately show ?thesis using sorted_distinct_set_unique by (metis sorted_upt distinct_upt)
qed

lemma buffered_values_all:
  assumes "buffered_inv results concurrency st" "bu_pending st = []"
  shows "map Inr (buffered_values st) = results"
proof -
  let ?xs = "sort_key fst (bu_completed st)"
  have "bu_rest st = []" using assms by (simp add: buffered_inv_def)
  then have keys: "map fst ?xs = [0..<length results]"
    using assms by (intro sort_key_upt) (simp_all add: buffered_inv_def)
  have "map Inr (buffered_values st) = map (\<lambda>(i, v). Inr v) ?xs"
    by (simp add: buffered_values_def case_prod_unfold)
  also have "\<dots> = map (\<lambda>x. results ! fst x) ?xs"
    using assms(1) by (auto simp: buffered_inv_def)
  also have "\<dots> = map ((!) results) (map fst ?xs)" by (simp add: o_def)
  also have "\<dots> = results" unfolding keys by (rule map_nth)
  finally show ?thesis .
qed

text \<open>Each completion leaves one position fewer.\<close>

fun buffered_work :: "('e, 't) buffer_state \<Rightarrow> nat" where
  "buffered_work (Running st) = Suc (length (bu_pending st) + length (bu_rest st))"
| "buffered_work (Returned r) = 0"

lemma buffered_step_work: "buffered_step results s s' \<Longrightarrow> buffered_work s' < buffered_work s"
proof (induction rule: buffered_step.induct)
  case (completes i st)
  then have "length (bu_pending st) \<noteq> 0" by auto
  with completes show ?case
    by (auto simp: complete_one_def Let_def length_remove1 split: sum.split list.split)
qed simp

lemma buffered_steps_bound: "(buffered_step results ^^ k) s s' \<Longrightarrow> k + buffered_work s' \<le> buffered_work s"
proof (induction k arbitrary: s')
  case (Suc k)
  then obtain u where u: "(buffered_step results ^^ k) s u" "buffered_step results u s'" by auto
  from Suc.IH [OF u(1)] buffered_step_work [OF u(2)] show ?case by simp
qed simp

definition buffered_ok :: "('e + 't) list \<Rightarrow> usize \<Rightarrow> ('e, 't) buffer_state \<Rightarrow> bool" where
  "buffered_ok results concurrency s =
     (case s of
        Running st \<Rightarrow> buffered_inv results concurrency st
      | Returned (Inl e) \<Rightarrow> Inl e \<in> set results
      | Returned (Inr vs) \<Rightarrow> map Inr vs = results)"

lemma buffered_ok_step:
  assumes "buffered_step results s s'" "buffered_ok results concurrency s"
  shows "buffered_ok results concurrency s'"
  using assms
proof (induction rule: buffered_step.induct)
  case (completes i st)
  then have inv: "buffered_inv results concurrency st" by (simp add: buffered_ok_def)
  then have i: "i < length results" using completes by (auto simp: buffered_inv_def)
  show ?case
  proof (cases "complete_one i (results ! i) st")
    case (Running st')
    then show ?thesis using buffered_inv_step [OF inv completes(1)] by (simp add: buffered_ok_def)
  next
    case (Returned r)
    then obtain e where "results ! i = Inl e" "r = Inl e"
      by (auto simp: complete_one_def Let_def split: sum.splits list.splits)
    then show ?thesis using i Returned by (auto simp: buffered_ok_def) (metis nth_mem)
  qed
next
  case (exhausted st)
  then show ?case by (simp add: buffered_ok_def buffered_values_all)
qed

lemma buffered_ok_reachable:
  "(buffered_step results)\<^sup>*\<^sup>* (Running (buffered_start (length results) concurrency)) s \<Longrightarrow> buffered_ok results concurrency s"
proof (induction rule: rtranclp_induct)
  case base
  then show ?case by (simp add: buffered_ok_def buffered_inv_start)
next
  case (step s s')
  then show ?case by (rule_tac buffered_ok_step)
qed

lemma running_progress: "\<exists>s'. buffered_step results (Running st) s'"
proof (cases "bu_pending st = []")
  case True
  then show ?thesis by (blast intro: exhausted)
next
  case False
  then have "hd (bu_pending st) \<in> set (bu_pending st)" by simp
  then show ?thesis by (blast intro: completes)
qed

subsection \<open>The function\<close>

text \<open>What \<open>try_buffered_ordered\<close> may return.\<close>

definition try_buffered_ordered :: "('e + 't) list \<Rightarrow> usize \<Rightarrow> 'e + 't list \<Rightarrow> bool" where
  "try_buffered_ordered results concurrency r \<longleftrightarrow>
     (buffered_step results)\<^sup>*\<^sup>* (Running (buffered_start (length results) concurrency)) (Returned r)"

lemma try_buffered_ordered_Inr: "try_buffered_ordered results concurrency (Inr vs) \<Longrightarrow> map Inr vs = results"
  using buffered_ok_reachable by (force simp: try_buffered_ordered_def buffered_ok_def)

lemma try_buffered_ordered_Inl: "try_buffered_ordered results concurrency (Inl e) \<Longrightarrow> Inl e \<in> set results"
  using buffered_ok_reachable by (force simp: try_buffered_ordered_def buffered_ok_def)

lemma buffered_step_ends:
  "\<exists>r. (buffered_step results)\<^sup>*\<^sup>* s (Returned r)"
proof (induction "buffered_work s" arbitrary: s rule: less_induct)
  case less
  show ?case
  proof (cases s)
    case (Running st)
    obtain s' where step: "buffered_step results s s'" using running_progress Running by blast
    from less [OF buffered_step_work [OF step]] step show ?thesis
      by (meson converse_rtranclp_into_rtranclp)
  qed blast
qed

lemma try_buffered_ordered_returns: "\<exists>r. try_buffered_ordered results concurrency r"
  unfolding try_buffered_ordered_def by (rule buffered_step_ends)

lemma try_buffered_ordered_all_ok:
  assumes "\<forall>r \<in> set results. is_ok r"
  shows "\<exists>vs. try_buffered_ordered results concurrency (Inr vs)"
proof -
  obtain r where r: "try_buffered_ordered results concurrency r" using try_buffered_ordered_returns by blast
  show ?thesis
  proof (cases r)
    case (Inl e)
    then show ?thesis using try_buffered_ordered_Inl r assms by force
  qed (use r in blast)
qed

lemma try_buffered_ordered_values: "try_buffered_ordered (map Inr vs) concurrency (Inr vs)"
proof -
  obtain ws where ws: "try_buffered_ordered (map Inr vs :: ('a + 'b) list) concurrency (Inr ws)"
    using try_buffered_ordered_all_ok [of "map Inr vs :: ('a + 'b) list" concurrency] by auto
  from try_buffered_ordered_Inr [OF this] have "ws = vs" by (simp add: inj_map_eq_map)
  with ws show ?thesis by simp
qed

text \<open>C33: Bounded concurrency: whatever order the futures complete in, at most \<open>concurrency\<close> (and at least one
  while work is left) are in flight; the function returns after at most one step per future and one
  more; it returns the values in input order exactly when every future succeeded, and otherwise
  the error of one that failed.\<close>

theorem try_buffered_ordered_correct:
  assumes run: "(buffered_step results ^^ k) (Running (buffered_start (length results) concurrency)) s"
  shows "k \<le> Suc (length results)
     \<and> (case s of
          Running st \<Rightarrow> length (bu_pending st) \<le> max concurrency 1 \<and> (bu_rest st \<noteq> [] \<longrightarrow> bu_pending st \<noteq> [])
            \<and> (\<exists>s'. buffered_step results s s')
        | Returned (Inr vs) \<Rightarrow> try_map id results = Inr vs
        | Returned (Inl e) \<Rightarrow> Inl e \<in> set results)"
proof
  have "k + buffered_work s \<le> buffered_work (Running (buffered_start (length results) concurrency) :: ('a, 'b) buffer_state)"
    by (rule buffered_steps_bound [OF run])
  also have "\<dots> \<le> Suc (length results)" by (simp add: buffered_start_def Let_def)
  finally show "k \<le> Suc (length results)" by simp
  have ok: "buffered_ok results concurrency s"
    by (rule buffered_ok_reachable) (use run in \<open>auto simp: rtranclp_power\<close>)
  show "case s of
          Running st \<Rightarrow> length (bu_pending st) \<le> max concurrency 1 \<and> (bu_rest st \<noteq> [] \<longrightarrow> bu_pending st \<noteq> [])
            \<and> (\<exists>s'. buffered_step results s s')
        | Returned (Inr vs) \<Rightarrow> try_map id results = Inr vs
        | Returned (Inl e) \<Rightarrow> Inl e \<in> set results"
  proof (cases s)
    case (Running st)
    then show ?thesis using ok running_progress by (auto simp: buffered_ok_def buffered_inv_def)
  next
    case (Returned r)
    show ?thesis
    proof (cases r)
      case (Inr vs)
      then have "results = map Inr vs" using ok Returned by (simp add: buffered_ok_def)
      moreover have "try_map id (map Inr vs :: ('a + 'b) list) = Inr vs" by (induction vs) simp_all
      ultimately show ?thesis using Inr Returned by simp
    qed (use ok Returned in \<open>simp add: buffered_ok_def\<close>)
  qed
qed

text \<open>Two futures in flight out of three; the second completes first.\<close>

lemma sample_buffered_step:
  "buffered_step [Inr 10, Inr 20, Inl ''down'' :: string + nat]
     (Running (buffered_start (length [Inr 10, Inr 20, Inl ''down'' :: string + nat]) 2))
     (Running \<lparr>bu_rest = [], bu_pending = [0, 2], bu_completed = [(1, 20)]\<rparr>)"
proof -
  let ?rs = "[Inr 10, Inr 20, Inl ''down''] :: (string + nat) list"
  have "complete_one 1 (?rs ! 1) (buffered_start (length ?rs) 2) =
      Running \<lparr>bu_rest = [], bu_pending = [0, 2], bu_completed = [(1, 20)]\<rparr>"
    by code_simp
  moreover have "1 \<in> set (bu_pending (buffered_start (length ?rs) 2))" by code_simp
  ultimately show ?thesis by (metis buffered_step.completes)
qed

theorem try_buffered_ordered_correct_witness:
  "\<exists>s'. buffered_step [Inr 10, Inr 20, Inl ''down'' :: string + nat]
     (Running \<lparr>bu_rest = [], bu_pending = [0, 2], bu_completed = [(1, 20)]\<rparr>) s'"
proof -
  have "(buffered_step [Inr 10, Inr 20, Inl ''down'' :: string + nat] ^^ 1)
      (Running (buffered_start (length [Inr 10, Inr 20, Inl ''down'' :: string + nat]) 2))
      (Running \<lparr>bu_rest = [], bu_pending = [0, 2], bu_completed = [(1, 20)]\<rparr>)"
    unfolding relpowp_1 by (rule sample_buffered_step)
  from try_buffered_ordered_correct [OF this] show ?thesis by simp
qed

end
