(* ===== verification/Global_Search.thy ===== *)
theory Global_Search
  imports Global_Context Streaming Query_Concurrency
begin

text \<open>
  Global Search (\<open>query/global/search.rs\<close>): the map calls over the report batches, the reduce context
  chosen from their points, and the event stream of the answer.

  Parameters (record \<open>search_env\<close>): the prompt templates, building and validating requests, the
  completion model, and what \<open>Global_Context\<close> takes. Map calls run under \<open>try_buffered_ordered\<close>, so
  the outcome of a search is a relation to what that function may return. Callbacks and elapsed times
  are left out. The events are built here; emitting them only reports to the explainability sinks.
\<close>

record ('f, 'd) search_env =
  ge_context :: "('f, 'd) gctx"
  ge_serde :: "'f serde"
  ge_rate :: rate_env
  ge_dynamic :: "dynamic_config option" \<comment> \<open>\<open>dynamic_community_selection\<close>\<close>
  ge_debug_id :: "string \<Rightarrow> string"
  ge_shown :: "'f json \<Rightarrow> string"
  ge_debug :: "'f json list \<Rightarrow> string"
  ge_map_prompt :: "string \<Rightarrow> usize \<Rightarrow> string + string"
  ge_reduce_prompt :: "string \<Rightarrow> string \<Rightarrow> usize \<Rightarrow> string + string"
  ge_map_request :: "string \<Rightarrow> string \<Rightarrow> string + unit"
  ge_reduce_request :: "string \<Rightarrow> string \<Rightarrow> string + unit"
  ge_complete :: "usize \<Rightarrow> string \<Rightarrow> string \<Rightarrow> completion" \<comment> \<open>of the map call for a batch\<close>
  ge_stream :: "string \<Rightarrow> string \<Rightarrow> string + provider"
  ge_model_id :: string
  ge_map_max_length :: usize
  ge_reduce_max_length :: usize
  ge_data_max_tokens :: usize
  ge_concurrent_requests :: usize
  ge_points_json :: "map_point list \<Rightarrow> string"

record 'f search_data =
  gd_entities :: "query_entity list"
  gd_reports :: "'f community_report list"
  gd_communities :: "community list"

definition no_data_answer :: string where
  "no_data_answer = ''I am sorry but I am unable to answer this question given the provided data.''"

definition search_count :: "('f, 'd) search_env \<Rightarrow> string \<Rightarrow> string \<Rightarrow> query_error + usize" where
  "search_count env s operation = map_err (QueryContext SearchGlobal operation) (gc_count (ge_context env) s)"

subsection \<open>Map calls\<close>

record map_search_result =
  mr_batch_index :: usize
  mr_raw_response :: string
  mr_points :: "map_point list"
  mr_context :: string
  mr_usage :: usage

definition completion_error :: "('f, 'd) search_env \<Rightarrow> string \<Rightarrow> string \<Rightarrow> query_error" where
  "completion_error env operation source = QueryCompletion SearchGlobal operation (ge_model_id env) source"

definition run_map_call ::
  "('f, 'd) search_env \<Rightarrow> string \<Rightarrow> usize \<times> string \<Rightarrow> query_error + map_search_result" where
  "run_map_call env query ib =
     (case ib of (batch_index, context) \<Rightarrow>
      and_then (map_err (QueryPrompt SearchGlobal ''render Global Search map prompt'' ''global_search_map_system_prompt.txt'')
        (ge_map_prompt env context (ge_map_max_length env))) (\<lambda>rendered.
      and_then (count_messages (\<lambda>s. search_count env s ''count Global map completion input tokens'') 0 [rendered, query])
        (\<lambda>prompt_tokens.
      and_then (map_err (InvalidQueryConfig SearchGlobal ''build Global Search map request'') (ge_map_request env rendered query))
        (\<lambda>_.
      and_then (case ge_complete env batch_index rendered query of
          CompletionFailed source \<Rightarrow> Inl (completion_error env ''complete Global Search map call'' source)
        | ContentMissing source \<Rightarrow> Inl (completion_error env ''read Global Search map response'' source)
        | CompletionContent raw \<Rightarrow> Inr raw) (\<lambda>raw_response.
      and_then (search_count env raw_response ''count Global map output tokens'') (\<lambda>output_tokens.
        Inr \<lparr>mr_batch_index = batch_index, mr_raw_response = raw_response,
             mr_points = parse_map_points (ge_serde env) raw_response, mr_context = context,
             mr_usage = \<lparr>us_llm_calls = 1, us_prompt_tokens = prompt_tokens, us_output_tokens = output_tokens\<rparr>\<rparr>))))))"

definition map_calls ::
  "('f, 'd) search_env \<Rightarrow> string \<Rightarrow> string list \<Rightarrow> (query_error + map_search_result) list" where
  "map_calls env query batches = map (run_map_call env query) (enumerate_from 0 batches)"

text \<open>What \<open>run_map_calls\<close> may return.\<close>

definition run_map_calls ::
  "('f, 'd) search_env \<Rightarrow> string \<Rightarrow> string list \<Rightarrow> query_error + map_search_result list \<Rightarrow> bool" where
  "run_map_calls env query batches =
     try_buffered_ordered (map_calls env query batches) (ge_concurrent_requests env)"

definition sum_map_usage :: "map_search_result list \<Rightarrow> usage" where
  "sum_map_usage outputs = foldl usage_add usage_default (map mr_usage outputs)"

definition map_outputs_frame :: "('f, 'd) search_env \<Rightarrow> map_search_result list \<Rightarrow> query_error + 'd" where
  "map_outputs_frame env outputs =
     to_dataframe (gc_frames (ge_context env)) SearchGlobal ''build Global map output records''
       (context_table_new
         [''batch_index'', ''raw_response'', ''context'', ''points'', ''llm_calls'', ''prompt_tokens'', ''output_tokens'']
         (map (\<lambda>o'. [nat_to_dec (mr_batch_index o'), mr_raw_response o', mr_context o', ge_points_json env (mr_points o'),
             nat_to_dec (us_llm_calls (mr_usage o')), nat_to_dec (us_prompt_tokens (mr_usage o')),
             nat_to_dec (us_output_tokens (mr_usage o'))]) outputs))"

subsection \<open>The reduce context\<close>

record reduce_decision =
  rn_batch_index :: usize
  rn_point_index :: usize
  rn_score :: i64
  rn_selected :: bool
  rn_reason :: decision_reason
  rn_answer :: "string option"

record reduce_context =
  rx_text :: string
  rx_has_positive_points :: bool
  rx_candidate_count :: usize
  rx_positive_count :: usize
  rx_selected_count :: usize
  rx_tokens_used :: usize
  rx_truncated :: bool
  rx_decisions :: "reduce_decision list"

definition initial_decisions :: "bool \<Rightarrow> map_search_result list \<Rightarrow> reduce_decision list" where
  "initial_decisions capture_content outputs =
     concat (map (\<lambda>output. map (\<lambda>(point_index, point).
         \<lparr>rn_batch_index = mr_batch_index output, rn_point_index = point_index, rn_score = map_point.mp_score point,
          rn_selected = False,
          rn_reason = (if 0 < map_point.mp_score point then TokenBudget else NonPositiveScore),
          rn_answer = (if capture_content then Some (map_point.mp_answer point) else None)\<rparr>)
       (enumerate_from 0 (mr_points output))) outputs)"

definition decision_key :: "reduce_decision \<Rightarrow> usize \<times> usize" where
  "decision_key d = (rn_batch_index d, rn_point_index d)"

definition decision_positions :: "reduce_decision list \<Rightarrow> (usize \<times> usize) \<rightharpoonup> usize" where
  "decision_positions decisions = collect_map (map (\<lambda>(i, d). (decision_key d, i)) (enumerate_from 0 decisions))"

type_synonym ranked_point = "(usize \<times> usize) \<times> map_point"

definition positive_points :: "map_search_result list \<Rightarrow> ranked_point list" where
  "positive_points outputs =
     concat (map (\<lambda>output. map (\<lambda>(point_index, point). ((mr_batch_index output, point_index), point))
       (filter (\<lambda>(_, point). 0 < map_point.mp_score point) (enumerate_from 0 (mr_points output)))) outputs)"

definition score_desc :: "ranked_point \<Rightarrow> ranked_point \<Rightarrow> ordering" where
  "score_desc left right =
     then_with (compare (map_point.mp_score (snd right)) (map_point.mp_score (snd left))) Equal"

definition point_text :: "ranked_point \<Rightarrow> string" where
  "point_text p =
     ''----Analyst '' @ nat_to_dec (fst (fst p) + 1) @ ''----'' @ [CHR 0x0A]
       @ ''Importance Score: '' @ int_to_dec (map_point.mp_score (snd p)) @ [CHR 0x0A] @ map_point.mp_answer (snd p)"

definition mark_selected ::
  "((usize \<times> usize) \<rightharpoonup> usize) \<Rightarrow> usize \<times> usize \<Rightarrow> reduce_decision list \<Rightarrow> reduce_decision list" where
  "mark_selected positions key decisions =
     (case positions key of
        None \<Rightarrow> decisions
      | Some i \<Rightarrow>
          if i < length decisions
          then decisions[i := (decisions ! i)\<lparr>rn_selected := True, rn_reason := decision_reason.Selected\<rparr>]
          else decisions)"

record selecting =
  sx_selected :: "string list"
  sx_tokens :: usize
  sx_truncated :: bool
  sx_decisions :: "reduce_decision list"

fun select_points ::
  "(string \<Rightarrow> query_error + usize) \<Rightarrow> usize \<Rightarrow> ((usize \<times> usize) \<rightharpoonup> usize) \<Rightarrow> selecting \<Rightarrow> ranked_point list
   \<Rightarrow> query_error + selecting" where
  "select_points cnt max_tokens positions st [] = Inr st"
| "select_points cnt max_tokens positions st (p # ps) =
     and_then (cnt (point_text p)) (\<lambda>point_tokens.
       if max_tokens < usize_sat_add (sx_tokens st) point_tokens then Inr (st\<lparr>sx_truncated := True\<rparr>)
       else select_points cnt max_tokens positions
         (st\<lparr>sx_tokens := usize_sat_add (sx_tokens st) point_tokens,
             sx_decisions := mark_selected positions (fst p) (sx_decisions st),
             sx_selected := sx_selected st @ [point_text p]\<rparr>) ps)"

definition build_reduce_context ::
  "(string \<Rightarrow> query_error + usize) \<Rightarrow> map_search_result list \<Rightarrow> usize \<Rightarrow> bool \<Rightarrow> bool \<Rightarrow> query_error + reduce_context" where
  "build_reduce_context cnt outputs max_tokens capture_decisions capture_content =
     (let decisions = (if capture_decisions then initial_decisions capture_content outputs else []);
          points = sort_by score_desc (positive_points outputs) in
      and_then (select_points cnt max_tokens (decision_positions decisions)
        \<lparr>sx_selected = [], sx_tokens = 0, sx_truncated = False, sx_decisions = decisions\<rparr> points) (\<lambda>st.
        Inr \<lparr>rx_text = join_with [CHR 0x0A, CHR 0x0A] (sx_selected st), rx_has_positive_points = points \<noteq> [],
             rx_candidate_count = length decisions, rx_positive_count = length points,
             rx_selected_count = length (sx_selected st), rx_tokens_used = sx_tokens st,
             rx_truncated = sx_truncated st, rx_decisions = sx_decisions st\<rparr>))"

subsection \<open>The events\<close>

text \<open>Conversions: a count to \<open>u64\<close> never fails on a 64-bit platform; an index that does not fit \<open>u32\<close> leaves
  the event out.\<close>

definition u32_index :: "usize \<Rightarrow> u32 option" where
  "u32_index i = (if i < 2 ^ 32 then Some (of_nat i) else None)"

fun all_some :: "'a option list \<Rightarrow> 'a list option" where
  "all_some [] = Some []"
| "all_some (None # xs) = None"
| "all_some (Some x # xs) = map_option ((#) x) (all_some xs)"

definition content_of_mode :: "bool \<Rightarrow> string \<Rightarrow> string option" where
  "content_of_mode with_content s = (if with_content then Some s else None)"

definition map_batch_event ::
  "bool \<Rightarrow> (string \<Rightarrow> query_error + usize) \<Rightarrow> usize \<Rightarrow> string \<Rightarrow> string list \<Rightarrow> usize \<Rightarrow> map_batch_built option" where
  "map_batch_event with_content cnt batch_index context report_ids token_budget =
     Option.bind (u32_index batch_index) (\<lambda>batch_index.
       case cnt context of
         Inl _ \<Rightarrow> None
       | Inr tokens \<Rightarrow>
           Some ((map_batch_built_new batch_index report_ids (of_nat tokens) (of_nat token_budget))
             \<lparr>mb_context := content_of_mode with_content context\<rparr>))"

definition map_points_event ::
  "bool \<Rightarrow> usize \<Rightarrow> map_point list \<Rightarrow> (contract_error + map_points_produced) option" where
  "map_points_event with_content batch_index points =
     Option.bind (u32_index batch_index) (\<lambda>batch_index.
     Option.bind (all_some (map (\<lambda>(point_index, point).
         map_option (\<lambda>point_index. \<lparr>mp_batch_index = batch_index, mp_point_index = point_index,
             mp_score = map_point.mp_score point,
             mp_answer = content_of_mode with_content (map_point.mp_answer point)\<rparr>) (u32_index point_index))
       (enumerate_from 0 points))) (\<lambda>evidence.
       Some (map_points_produced_try_new batch_index evidence)))"

definition reduce_event :: "bool \<Rightarrow> reduce_context \<Rightarrow> usize \<Rightarrow> reduce_context_built option" where
  "reduce_event with_content reduce token_budget =
     Option.bind (all_some (map (\<lambda>d.
         Option.bind (u32_index (rn_batch_index d)) (\<lambda>batch_index.
         Option.bind (u32_index (rn_point_index d)) (\<lambda>point_index.
           Some \<lparr>md_batch_index = batch_index, md_point_index = point_index, md_score = rn_score d,
                 md_selected = rn_selected d, md_reason = rn_reason d, md_answer = rn_answer d\<rparr>))) (rx_decisions reduce)))
       (\<lambda>points.
         Some \<lparr>rd_candidate_point_count = of_nat (rx_candidate_count reduce),
               rd_positive_point_count = of_nat (rx_positive_count reduce),
               rd_selected_point_count = of_nat (rx_selected_count reduce), rd_token_budget = of_nat token_budget,
               rd_tokens_used = of_nat (rx_tokens_used reduce), rd_truncated = rx_truncated reduce, rd_points = points,
               rd_context = content_of_mode with_content (rx_text reduce)\<rparr>)"

subsection \<open>The search\<close>

text \<open>The context, dynamic or fixed; \<open>None\<close> when the shuffle does not return.\<close>

definition build_global ::
  "('f, 'd) search_env \<Rightarrow> 'f search_data \<Rightarrow> bool \<Rightarrow> string \<Rightarrow> (query_error + ('f, 'd) global_context_result) option" where
  "build_global env data capture query =
     (case ge_dynamic env of
        Some cfg \<Rightarrow>
          (case select_communities (ge_serde env) (ge_rate env) (ge_debug_id env) cfg query (gd_reports data) (gd_communities data) of
             Inl e \<Rightarrow> Some (Inl e)
           | Inr (selection, _) \<Rightarrow>
               build_selected (ge_context env) (gd_entities data) (gd_reports data) (dr_reports selection)
                 (dr_usage selection) (dr_ratings selection) capture)
      | None \<Rightarrow> build_fixed (ge_context env) (gd_entities data) (gd_reports data) capture)"

definition no_data_stream :: "'c \<Rightarrow> usage \<Rightarrow> usage \<Rightarrow> (query_error + 'c query_event) list" where
  "no_data_stream context build_usage map_usage =
     [Inr (ContextEvent context), Inr (TokenEvent no_data_answer),
      Inr (CompletedEvent \<lparr>qr_response = no_data_answer, qr_context = context,
        qr_usage = from_categories (om_insert ''build_context'' build_usage
          (om_insert ''map'' map_usage (om_insert ''reduce'' usage_default [])))\<rparr>)]"

text \<open>What follows the map calls.\<close>

definition finish_stream ::
  "('f, 'd) search_env \<Rightarrow> ('f, 'd) global_context_result \<Rightarrow> bool \<Rightarrow> bool \<Rightarrow> string \<Rightarrow> string \<Rightarrow> map_search_result list
   \<Rightarrow> query_error + (query_error + 'd query_context query_event) list" where
  "finish_stream env built capture with_content query response_type outputs =
     and_then (build_reduce_context (\<lambda>s. search_count env s ''count Global reduce point tokens'') outputs
       (ge_data_max_tokens env) capture (capture \<and> with_content)) (\<lambda>reduce.
     and_then (map_outputs_frame env outputs) (\<lambda>frame.
     and_then (global_context (ge_context env) (ge_shown env) (ge_debug env) built (rx_text reduce) frame) (\<lambda>context.
       if \<not> rx_has_positive_points reduce then Inr (no_data_stream context (gr_usage built) (sum_map_usage outputs))
       else
         and_then (map_err (QueryPrompt SearchGlobal ''render Global Search reduce prompt'' ''global_search_reduce_system_prompt.txt'')
           (ge_reduce_prompt env (rx_text reduce) response_type (ge_reduce_max_length env))) (\<lambda>rendered.
         and_then (count_messages (\<lambda>s. search_count env s ''count Global reduce completion input tokens'') 0 [rendered, query])
           (\<lambda>prompt_tokens.
         and_then (map_err (InvalidQueryConfig SearchGlobal ''build Global Search reduce request'')
           (ge_reduce_request env rendered query)) (\<lambda>_.
         and_then (map_err (completion_error env ''start Global Search reduce stream'') (ge_stream env rendered query)) (\<lambda>provider.
           Inr (completion_event_stream (gc_count (ge_context env))
             \<lparr>sc_context = context,
              sc_categories = om_insert ''build_context'' (gr_usage built) (om_insert ''map'' (sum_map_usage outputs) []),
              sc_completion_category = ''reduce'', sc_prompt_tokens = prompt_tokens,
              sc_completion_model_id = ge_model_id env, sc_method = SearchGlobal,
              sc_consume_operation = ''consume Global Search reduce stream'',
              sc_output_count_operation = ''count Global reduce output tokens'',
              sc_output_count_is_context_error = True\<rparr> provider))))))))"

text \<open>\<open>prepare_global_stream\<close>: what it may return.\<close>

definition prepare_global_stream ::
  "('f, 'd) search_env \<Rightarrow> 'f search_data \<Rightarrow> bool \<Rightarrow> bool \<Rightarrow> string \<Rightarrow> string
   \<Rightarrow> query_error + (query_error + 'd query_context query_event) list \<Rightarrow> bool" where
  "prepare_global_stream env data capture with_content query response_type r \<longleftrightarrow>
     (case build_global env data capture query of
        None \<Rightarrow> False
      | Some (Inl e) \<Rightarrow> r = Inl e
      | Some (Inr built) \<Rightarrow>
          \<exists>outputs. run_map_calls env query (gr_batches built) outputs
            \<and> r = and_then outputs (finish_stream env built capture with_content query response_type))"

text \<open>Wrapping the stream: \<open>next_global_completion_event\<close>, with the calls to the instrumentation; \<open>reduce\<close> tells
  whether a reduce request was made.\<close>

datatype instrumentation_call =
    LlmCompleted usage string
  | SidecarFailure string
  | FinishSuccess
  | FinishError query_error
  | FinishStreamEnded

fun instrumented ::
  "bool \<Rightarrow> (query_error + 'c query_event) list \<Rightarrow> (query_error + 'c query_event) list \<times> instrumentation_call list" where
  "instrumented reduce [] = ([], [FinishStreamEnded])"
| "instrumented reduce (Inr (CompletedEvent result) # events) =
     ([Inr (CompletedEvent result)],
      (if reduce then
         (case map_of (qu_categories (qr_usage result)) ''reduce'' of
            Some usage \<Rightarrow> [LlmCompleted usage (qr_response result)]
          | None \<Rightarrow> [SidecarFailure ''missing_llm_usage''])
       else []) @ [FinishSuccess])"
| "instrumented reduce (Inl error # events) = ([Inl error], [FinishError error])"
| "instrumented reduce (event # events) =
     (case instrumented reduce events of (out, calls) \<Rightarrow> (event # out, calls))"

text \<open>\<open>global_search\<close>: the first completed event, or the first error.\<close>

fun await_completion :: "(query_error + 'c query_event) list \<Rightarrow> query_error + 'c query_result" where
  "await_completion [] = Inl (QueryCompletion SearchGlobal ''aggregate Global Search stream'' ''unknown''
     ''stream ended without a completed event'')"
| "await_completion (Inl e # events) = Inl e"
| "await_completion (Inr (CompletedEvent result) # events) = Inr result"
| "await_completion (Inr event # events) = await_completion events"

end
