(* ===== verification/Drift_Search.thy ===== *)
theory Drift_Search
  imports Drift Local_Context Global_Search
begin

text \<open>
  DRIFT search from end to end: the random choices, the hydration and ranking of the reports and the
  expanded query (\<open>drift/context.rs\<close>), the primer calls (\<open>drift/primer.rs\<close>), the depth loop, the context
  of the answer, and the reduce call with its event stream (\<open>drift/search.rs\<close>).

  Parameters (record \<open>drift_env\<close>): the models and the vector store, request building and validation,
  the bound prompts and the primer's prompt text, the tokenizer, JSON, the CSV writer, the data frame
  library and floating point arithmetic (record \<open>reals\<close>; \<open>f64::total_cmp\<close> orders by the integer \<open>re_key\<close>). Calls run under
  \<open>try_buffered_ordered\<close>, so the outcome of a search is a relation to what that function may return;
  what the model answers to a local call may depend on the round. Callbacks and elapsed times are left out.
\<close>

subsection \<open>Random choices\<close>

record 'r drift_random =
  rd_choose_report :: "usize \<Rightarrow> 'r \<Rightarrow> (query_error + usize) \<times> 'r"
  rd_shuffle_actions :: "usize list \<Rightarrow> 'r \<Rightarrow> (query_error + usize list) \<times> 'r"

record scripted_drift_random =
  sr_report_indices :: "usize list"
  sr_action_orders :: "usize list list"

definition scripted_random_error :: "string \<Rightarrow> query_error" where
  "scripted_random_error message = QueryContext SearchDrift ''consume scripted DRIFT random trajectory'' message"

definition scripted_choose_report :: "usize \<Rightarrow> scripted_drift_random \<Rightarrow> (query_error + usize) \<times> scripted_drift_random" where
  "scripted_choose_report len rng =
     (case sr_report_indices rng of
        [] \<Rightarrow> (Inl (scripted_random_error ''scripted DRIFT report trajectory exhausted''), rng)
      | index # rest \<Rightarrow>
          (if len \<le> index
           then Inl (scripted_random_error
                  (''scripted DRIFT report index '' @ nat_to_dec index @ '' is outside '' @ nat_to_dec len))
           else Inr index,
           rng\<lparr>sr_report_indices := rest\<rparr>))"

fun scripted_check :: "bool list \<Rightarrow> usize list \<Rightarrow> query_error + unit" where
  "scripted_check seen [] = Inr ()"
| "scripted_check seen (index # order) =
     (if length seen \<le> index then
        Inl (scripted_random_error (''scripted DRIFT action index '' @ nat_to_dec index @ '' is outside ''
          @ nat_to_dec (length seen)))
      else if seen ! index then
        Inl (scripted_random_error (''scripted DRIFT action index '' @ nat_to_dec index @ '' is duplicated''))
      else scripted_check (seen[index := True]) order)"

definition scripted_shuffle_actions ::
  "usize list \<Rightarrow> scripted_drift_random \<Rightarrow> (query_error + usize list) \<times> scripted_drift_random" where
  "scripted_shuffle_actions actions rng =
     (case sr_action_orders rng of
        [] \<Rightarrow> (Inl (scripted_random_error ''scripted DRIFT action trajectory exhausted''), rng)
      | order # rest \<Rightarrow>
          (if length order \<noteq> length actions then
             Inl (scripted_random_error (''scripted DRIFT action order has '' @ nat_to_dec (length order)
               @ '' entries for '' @ nat_to_dec (length actions) @ '' candidates''))
           else
             and_then (scripted_check (replicate (length actions) False) order) (\<lambda>_.
               Inr (map (\<lambda>source. actions ! source) order)),
           rng\<lparr>sr_action_orders := rest\<rparr>))"

definition scripted_random :: "scripted_drift_random drift_random" where
  "scripted_random = \<lparr>rd_choose_report = scripted_choose_report, rd_shuffle_actions = scripted_shuffle_actions\<rparr>"

subsection \<open>The environment\<close>

record 'f reals =
  re_f32_finite :: "'f \<Rightarrow> bool"
  re_of_f32 :: "'f \<Rightarrow> 'f"
  re_sum_start :: 'f
  re_add :: "'f \<Rightarrow> 'f \<Rightarrow> 'f"
  re_mul :: "'f \<Rightarrow> 'f \<Rightarrow> 'f"
  re_div :: "'f \<Rightarrow> 'f \<Rightarrow> 'f"
  re_square :: "'f \<Rightarrow> 'f" \<comment> \<open>\<open>powi(2)\<close>\<close>
  re_sqrt :: "'f \<Rightarrow> 'f"
  re_is_zero :: "'f \<Rightarrow> bool"
  re_key :: "'f \<Rightarrow> int"
  re_of_i64 :: "int \<Rightarrow> 'f"
  re_show :: "'f \<Rightarrow> string"

record ('f, 'd, 'v) drift_env =
  dx_local :: "('f, 'd, 'v) local_env"
  dx_local_data :: "'f local_data"
  dx_floats :: "'f floats"
  dx_reals :: "'f reals"
  dx_serde :: "'f serde"
  dx_regexes :: regexes
  dx_debug :: "string \<Rightarrow> string"
  dx_message :: "'f json \<Rightarrow> string"
  dx_to_json :: "'f json \<Rightarrow> string + string"
  dx_count :: "string \<Rightarrow> string + usize"
  dx_csv :: csv_writer
  dx_frames :: "'d frames"
  dx_get_by_id :: "string \<Rightarrow> vector_error + 'f list option"
  dx_index_name :: string
  dx_completion_model_id :: string
  dx_embedding_model_id :: string
  dx_concurrency :: usize
  dx_k_followups :: usize
  dx_primer_folds :: usize
  dx_n_depth :: usize
  dx_primer_prompt :: string
  dx_local_prompt :: "string \<Rightarrow> string \<Rightarrow> string \<Rightarrow> usize \<Rightarrow> string + string"
  dx_reduce_prompt :: "string \<Rightarrow> string \<Rightarrow> string + string"
  dx_hyde_request :: "string \<Rightarrow> string + unit"
  dx_primer_request :: "string \<Rightarrow> string + unit"
  dx_local_request :: "string \<Rightarrow> string \<Rightarrow> string + unit"
  dx_reduce_request :: "bool \<Rightarrow> string \<Rightarrow> string \<Rightarrow> string + unit"
  dx_complete_hyde :: "string \<Rightarrow> string + string option"
  dx_embed :: "string \<Rightarrow> string + u64 \<times> 'f list list"
  dx_complete_primer :: "usize \<Rightarrow> string \<Rightarrow> completion"
  dx_stream_local :: "nat \<Rightarrow> string \<Rightarrow> string \<Rightarrow> string + provider"
  dx_complete_reduce :: "string \<Rightarrow> string \<Rightarrow> completion"
  dx_stream_reduce :: "string \<Rightarrow> string \<Rightarrow> string + provider"

definition drift_count :: "('f, 'd, 'v) drift_env \<Rightarrow> string \<Rightarrow> string \<Rightarrow> query_error + usize" where
  "drift_count env s operation = map_err (QueryContext SearchDrift operation) (dx_count env s)"

definition drift_completion_error :: "('f, 'd, 'v) drift_env \<Rightarrow> string \<Rightarrow> string \<Rightarrow> query_error" where
  "drift_completion_error env operation source =
     QueryCompletion SearchDrift operation (dx_completion_model_id env) source"

text \<open>The message of \<open>LlmError::InvalidResponse\<close>.\<close>

definition invalid_response :: "string \<Rightarrow> string \<Rightarrow> string \<Rightarrow> string" where
  "invalid_response model operation message =
     ''invalid model response for '' @ model @ '' during '' @ operation @ '': '' @ message"

text \<open>The content of a completion, or the error of the call or of reading its response.\<close>

definition read_completion ::
  "('f, 'd, 'v) drift_env \<Rightarrow> string \<Rightarrow> string \<Rightarrow> completion \<Rightarrow> query_error + string" where
  "read_completion env call_operation read_operation c =
     (case c of
        CompletionFailed source \<Rightarrow> Inl (drift_completion_error env call_operation source)
      | ContentMissing source \<Rightarrow> Inl (drift_completion_error env read_operation source)
      | CompletionContent content \<Rightarrow> Inr content)"

subsection \<open>Vectors\<close>

definition norm :: "'f reals \<Rightarrow> 'f list \<Rightarrow> 'f" where
  "norm re vector = re_sqrt re (foldl (re_add re) (re_sum_start re) (map (\<lambda>x. re_square re (re_of_f32 re x)) vector))"

definition dot :: "'f reals \<Rightarrow> 'f list \<Rightarrow> 'f list \<Rightarrow> 'f" where
  "dot re left right =
     foldl (re_add re) (re_sum_start re) (map (\<lambda>(l, r). re_mul re (re_of_f32 re l) (re_of_f32 re r)) (zip left right))"

definition invalid_vector :: "string \<Rightarrow> string \<Rightarrow> query_error" where
  "invalid_vector index message =
     InvalidVectorIndex SearchDrift ''rank DRIFT community reports'' index
       (''invalid vector document in index '' @ index @ '': '' @ message)"

definition validate_query_vector :: "'f reals \<Rightarrow> 'f list \<Rightarrow> string \<Rightarrow> query_error + unit" where
  "validate_query_vector re vector index =
     (if vector = [] \<or> (\<exists>x \<in> set vector. \<not> re_f32_finite re x) \<or> re_is_zero re (norm re vector) then
        Inl (invalid_vector index (''expanded query vector has invalid dimension '' @ nat_to_dec (length vector)
          @ '' or zero/non-finite norm''))
      else Inr ())"

definition validate_document_vector :: "'f reals \<Rightarrow> 'f list \<Rightarrow> string \<Rightarrow> string \<Rightarrow> query_error + unit" where
  "validate_document_vector re vector report_id index =
     (if vector = [] \<or> (\<exists>x \<in> set vector. \<not> re_f32_finite re x) \<or> re_is_zero re (norm re vector) then
        Inl (invalid_vector index (''report '' @ report_id @ '' vector has invalid dimension '' @ nat_to_dec (length vector)
          @ '' or zero/non-finite norm''))
      else Inr ())"

text \<open>The loop of \<open>hydrate_reports\<close>: the reports with the vectors found, and the ids of those without.\<close>

fun hydrate_loop ::
  "('f, 'd, 'v) drift_env \<Rightarrow> 'f community_report list \<Rightarrow> query_error + 'f community_report list \<times> string list" where
  "hydrate_loop env [] = Inr ([], [])"
| "hydrate_loop env (report # reports) =
     (let operation = ''hydrate DRIFT community report embeddings'' in
      case dx_get_by_id env (rp_id report) of
        Inr (Some vector) \<Rightarrow>
          and_then (validate_document_vector (dx_reals env) vector (rp_id report) (dx_index_name env)) (\<lambda>_.
          and_then (hydrate_loop env reports) (\<lambda>(hydrated, missing).
            Inr (report\<lparr>rp_full_content_embedding := Some vector\<rparr> # hydrated, missing)))
      | Inr None \<Rightarrow>
          and_then (hydrate_loop env reports) (\<lambda>(hydrated, missing). Inr (report # hydrated, rp_id report # missing))
      | Inl (MissingIndex source) \<Rightarrow> Inl (MissingVectorIndex SearchDrift operation (dx_index_name env) source)
      | Inl (OtherVectorError source) \<Rightarrow> Inl (InvalidVectorIndex SearchDrift operation (dx_index_name env) source))"

definition hydrate_reports ::
  "('f, 'd, 'v) drift_env \<Rightarrow> 'f community_report list \<Rightarrow> query_error + 'f community_report list" where
  "hydrate_reports env reports =
     and_then (hydrate_loop env reports) (\<lambda>(hydrated, missing).
       if missing = [] then Inr hydrated
       else Inl (InvalidVectorIndex SearchDrift ''hydrate DRIFT community report embeddings'' (dx_index_name env)
              (''invalid vector document in index '' @ dx_index_name env @ '': missing '' @ nat_to_dec (length missing)
                @ '' of '' @ nat_to_dec (length reports) @ '' report vectors; report ids: ''
                @ join_with '', '' (take 10 missing))))"

subsection \<open>Ranking\<close>

record 'f ranked_report =
  rk_short_id :: string
  rk_community_id :: string
  rk_full_content :: string
  rk_similarity :: 'f

definition rank_report ::
  "'f reals \<Rightarrow> 'f list \<Rightarrow> string \<Rightarrow> usize \<times> 'f community_report \<Rightarrow> query_error + usize \<times> 'f ranked_report" where
  "rank_report re query index ir =
     (case ir of (order, report) \<Rightarrow>
        and_then (ok_or (invalid_vector index (''report '' @ rp_id report @ '' has no hydrated vector''))
          (rp_full_content_embedding report)) (\<lambda>vector.
        and_then (validate_document_vector re vector (rp_id report) index) (\<lambda>_.
          if length vector \<noteq> length query then
            Inl (invalid_vector index (''query dimension '' @ nat_to_dec (length query) @ '' does not match report ''
              @ rp_id report @ '' dimension '' @ nat_to_dec (length vector)))
          else
            Inr (order, \<lparr>rk_short_id = rp_short_id report, rk_community_id = rp_community_id report,
              rk_full_content = rp_full_content report,
              rk_similarity = re_div re (dot re query vector) (re_mul re (norm re query) (norm re vector))\<rparr>))))"

definition similarity_desc :: "'f reals \<Rightarrow> usize \<times> 'f ranked_report \<Rightarrow> usize \<times> 'f ranked_report \<Rightarrow> ordering" where
  "similarity_desc re left right =
     then_with (compare (re_key re (rk_similarity (snd right))) (re_key re (rk_similarity (snd left))))
       (compare (fst left) (fst right))"

definition rank_reports ::
  "'f reals \<Rightarrow> 'f list \<Rightarrow> 'f community_report list \<Rightarrow> usize \<Rightarrow> string \<Rightarrow> query_error + 'f ranked_report list" where
  "rank_reports re query reports top_k index =
     and_then (validate_query_vector re query index) (\<lambda>_.
     and_then (try_map (rank_report re query index) (enumerate_from 0 reports)) (\<lambda>ranked.
       Inr (map snd (take top_k (sort_by (similarity_desc re) ranked)))))"

definition hyde_prompt :: "string \<Rightarrow> string \<Rightarrow> string" where
  "hyde_prompt query template =
     ''Create a hypothetical answer to the following query: '' @ query @ replicate 3 (CHR 0x0A) @ replicate 18 (CHR '' '')
     @ ''Format it to follow the structure of the template below:'' @ replicate 3 (CHR 0x0A) @ replicate 18 (CHR '' '')
     @ template @ [CHR 0x0A, CHR 0x22, CHR 0x0A] @ replicate 18 (CHR '' '')
     @ ''Ensure that the hypothetical answer does not reference new named entities that are not present in the original query.''"

definition expand_query :: "('f, 'd, 'v) drift_env \<Rightarrow> string \<Rightarrow> 'f community_report \<Rightarrow> query_error + string \<times> usage" where
  "expand_query env query template =
     (let prompt = hyde_prompt query (rp_full_content template) in
      and_then (drift_count env prompt ''count DRIFT HyDE prompt'') (\<lambda>prompt_tokens.
      and_then (map_err (InvalidQueryConfig SearchDrift ''build DRIFT HyDE completion request'') (dx_hyde_request env prompt))
        (\<lambda>_.
      and_then (map_err (drift_completion_error env ''complete DRIFT HyDE expansion'') (dx_complete_hyde env prompt))
        (\<lambda>response.
      and_then (ok_or (drift_completion_error env ''read DRIFT HyDE expansion''
          (invalid_response (dx_completion_model_id env) ''completion'' ''missing choices[0].message.content'')) response)
        (\<lambda>expanded.
      and_then (drift_count env expanded ''count DRIFT HyDE expansion output'') (\<lambda>output_tokens.
        Inr (if expanded = [] then query else expanded,
             \<lparr>us_llm_calls = 1, us_prompt_tokens = prompt_tokens, us_output_tokens = output_tokens\<rparr>)))))))"

definition drift_embedding_error :: "('f, 'd, 'v) drift_env \<Rightarrow> string \<Rightarrow> string \<Rightarrow> query_error" where
  "drift_embedding_error env operation source = QueryEmbedding SearchDrift operation (dx_embedding_model_id env) source"

definition embed_expanded ::
  "('f, 'd, 'v) drift_env \<Rightarrow> string \<Rightarrow> query_error + 'f list \<times> usize" where
  "embed_expanded env expanded_query =
     and_then (map_err (drift_embedding_error env ''embed DRIFT expanded query'') (dx_embed env expanded_query))
       (\<lambda>(provider_prompt_tokens, embeddings).
     and_then (if 0 < unat provider_prompt_tokens then Inr (unat provider_prompt_tokens)
         else map_err (drift_embedding_error env ''count DRIFT expanded query embedding input'') (dx_count env expanded_query))
       (\<lambda>embedding_tokens.
       case embeddings of
         [] \<Rightarrow> Inl (drift_embedding_error env ''read DRIFT expanded query embedding''
                  (invalid_response (dx_embedding_model_id env) ''embedding conversion'' ''provider returned no embedding''))
       | embedding # _ \<Rightarrow> Inr (embedding, embedding_tokens)))"

definition build_ranked_context ::
  "('f, 'd, 'v) drift_env \<Rightarrow> 'r drift_random \<Rightarrow> 'f community_report list \<Rightarrow> string \<Rightarrow> 'r
   \<Rightarrow> (query_error + 'f ranked_report list \<times> usage) \<times> 'r" where
  "build_ranked_context env random reports query rng =
     (let context_error = QueryContext SearchDrift ''select DRIFT HyDE template'' in
      if reports = [] then (Inl (context_error ''no community reports are available''), rng)
      else
        case rd_choose_report random (length reports) rng of
          (choice, rng) \<Rightarrow>
            (and_then choice (\<lambda>chosen.
             and_then (ok_or (context_error (''random report index '' @ nat_to_dec chosen @ '' is outside ''
                 @ nat_to_dec (length reports))) (nth_opt reports chosen)) (\<lambda>template.
             and_then (expand_query env query template) (\<lambda>(expanded_query, usage).
             and_then (embed_expanded env expanded_query) (\<lambda>(embedding, embedding_tokens).
             and_then (rank_reports (dx_reals env) embedding reports (dx_k_followups env) (dx_index_name env)) (\<lambda>ranked.
               Inr (ranked, usage_add usage
                 \<lparr>us_llm_calls = 1, us_prompt_tokens = embedding_tokens, us_output_tokens = 0\<rparr>)))))),
             rng))"

subsection \<open>The primer\<close>

text \<open>\<open>str::replace\<close> and \<open>str::split_once\<close>, for a pattern that is not empty.\<close>

function replace_all :: "string \<Rightarrow> string \<Rightarrow> string \<Rightarrow> string" where
  "replace_all pattern replacement s =
     (if s = [] then []
      else if pattern \<noteq> [] \<and> take (length pattern) s = pattern
      then replacement @ replace_all pattern replacement (drop (length pattern) s)
      else hd s # replace_all pattern replacement (tl s))"
  by pat_completeness auto
termination by (relation "measure (\<lambda>(_, _, s). length s)") auto

declare replace_all.simps [simp del]

fun split_at_pattern :: "string \<Rightarrow> string \<Rightarrow> (string \<times> string) option" where
  "split_at_pattern pattern s =
     (if take (length pattern) s = pattern then Some ([], drop (length pattern) s)
      else case s of
        [] \<Rightarrow> None
      | c # cs \<Rightarrow> map_option (\<lambda>(before, after). (c # before, after)) (split_at_pattern pattern cs))"

declare split_at_pattern.simps [simp del]

definition primer_placeholder_error :: "string \<Rightarrow> query_error" where
  "primer_placeholder_error placeholder =
     QueryPrompt SearchDrift ''render DRIFT primer prompt'' ''DRIFT_PRIMER_PROMPT''
       (''failed to render DriftPrimer prompt template DRIFT_PRIMER_PROMPT from built-in GraphRAG 3.1.0 constant: missing ''
         @ placeholder @ '' placeholder'')"

definition render_primer_prompt :: "string \<Rightarrow> string \<Rightarrow> string \<Rightarrow> query_error + string" where
  "render_primer_prompt prompt query reports =
     (let normalized = replace_all ''}}'' ''}'' (replace_all ''{{'' ''{'' prompt) in
      and_then (ok_or (primer_placeholder_error ''{query}'') (split_at_pattern ''{query}'' normalized))
        (\<lambda>(before_query, after_query).
      and_then (ok_or (primer_placeholder_error ''{community_reports}'') (split_at_pattern ''{community_reports}'' after_query))
        (\<lambda>(between, after_reports).
        Inr (before_query @ query @ between @ reports @ after_reports))))"

definition run_fold ::
  "('f, 'd, 'v) drift_env \<Rightarrow> string \<Rightarrow> usize \<times> 'f ranked_report list \<Rightarrow> query_error + primer_response \<times> usage" where
  "run_fold env query ir =
     (case ir of (index, reports) \<Rightarrow>
      and_then (render_primer_prompt (dx_primer_prompt env) query
        (join_with [CHR 0x0A, CHR 0x0A] (map rk_full_content reports))) (\<lambda>prompt.
      and_then (drift_count env prompt ''count DRIFT primer prompt'') (\<lambda>prompt_tokens.
      and_then (map_err (InvalidQueryConfig SearchDrift ''build DRIFT primer completion request'')
        (dx_primer_request env prompt)) (\<lambda>_.
      and_then (read_completion env ''complete DRIFT primer fold'' ''read DRIFT primer response''
        (dx_complete_primer env index prompt)) (\<lambda>content.
      and_then (drift_count env content ''count DRIFT primer output'') (\<lambda>output_tokens.
      and_then (parse_primer (dx_serde env) (dx_regexes env) (dx_message env) content) (\<lambda>response.
        Inr (response, \<lparr>us_llm_calls = 1, us_prompt_tokens = prompt_tokens, us_output_tokens = output_tokens\<rparr>))))))))"

definition effective_primer_folds :: "('f, 'd, 'v) drift_env \<Rightarrow> usize" where
  "effective_primer_folds env = max (dx_primer_folds env) 1"

text \<open>The primer's answer over the results of its folds.\<close>

definition aggregate_primer ::
  "'f reals \<Rightarrow> (primer_response \<times> usage) list \<Rightarrow> query_error + 'f primer_aggregate" where
  "aggregate_primer re results =
     (let answers = map (pr_intermediate_answer \<circ> fst) results;
          followups = concat (map (pr_follow_up_queries \<circ> fst) results);
          err = drift_parse_error ''aggregate DRIFT primer responses''
      in if answers = [] then Inl (err ''primer returned no intermediate answer'')
         else if followups = [] then Inl (err ''primer returned no follow-up queries'')
         else Inr \<lparr>pa_answer = join_with [CHR 0x0A, CHR 0x0A] answers,
                   pa_score = re_div re
                     (foldl (re_add re) (re_sum_start re) (map (re_of_i64 re \<circ> pr_score \<circ> fst) results))
                     (re_of_i64 re (int (length results))),
                   pa_followups = followups,
                   pa_usage = foldl usage_add usage_default (map snd results)\<rparr>)"

definition run_primer ::
  "('f, 'd, 'v) drift_env \<Rightarrow> 'f ranked_report list \<Rightarrow> string \<Rightarrow> query_error + 'f primer_aggregate \<Rightarrow> bool" where
  "run_primer env reports query r \<longleftrightarrow>
     (\<exists>results. try_buffered_ordered
          (map (run_fold env query) (enumerate_from 0 (array_split reports (effective_primer_folds env))))
          (dx_concurrency env) results
        \<and> r = and_then results (aggregate_primer (dx_reals env)))"

subsection \<open>Local actions\<close>

text \<open>The text of a local completion: \<open>Inl\<close> when the provider fails.\<close>

fun collect_text :: "string \<Rightarrow> provider \<Rightarrow> string + string" where
  "collect_text raw [] = Inr raw"
| "collect_text raw (Inl source # chunks) = Inl source"
| "collect_text raw (Inr content # chunks) = collect_text (raw @ content) chunks"

definition run_action ::
  "('f, 'd, 'v) drift_env \<Rightarrow> string \<Rightarrow> nat \<Rightarrow> string
   \<Rightarrow> query_error + 'f drift_response \<times> 'd query_context drift_metadata" where
  "run_action env original_query round query =
     and_then (build_with_entity_filters (dx_local env) (dx_local_data env) False query None [] []) (\<lambda>built.
     and_then (case qc_text (lb_context built) of
         Text value \<Rightarrow> Inr value
       | _ \<Rightarrow> Inl (QueryContext SearchDrift ''read DRIFT Local context text'' ''DRIFT Local context must be a single string''))
       (\<lambda>context_text.
     and_then (map_err (QueryPrompt SearchDrift ''render DRIFT Local prompt'' ''drift_search_system_prompt.txt'')
       (dx_local_prompt env context_text ''multiple paragraphs'' original_query (dx_k_followups env))) (\<lambda>rendered.
     and_then (count_messages (\<lambda>s. drift_count env s ''count DRIFT Local completion input tokens'') 0 [rendered, query])
       (\<lambda>prompt_tokens.
     and_then (map_err (InvalidQueryConfig SearchDrift ''build DRIFT Local completion request'')
       (dx_local_request env rendered query)) (\<lambda>_.
     and_then (map_err (drift_completion_error env ''start DRIFT Local completion'') (dx_stream_local env round rendered query))
       (\<lambda>provider.
     and_then (map_err (drift_completion_error env ''consume DRIFT Local completion'') (collect_text [] provider)) (\<lambda>raw.
     and_then (drift_count env raw ''count DRIFT Local output'') (\<lambda>output_tokens.
     and_then (parse_action (dx_serde env) (dx_regexes env) (dx_floats env) (dx_debug env) raw) (\<lambda>response.
       Inr (response,
         \<lparr>dm_usage = usage_add (lb_usage built)
            \<lparr>us_llm_calls = 1, us_prompt_tokens = prompt_tokens, us_output_tokens = output_tokens\<rparr>,
          dm_context = Some (lb_context built)\<rparr>))))))))))"

subsection \<open>The depth loop\<close>

definition select_actions ::
  "'r drift_random \<Rightarrow> usize \<Rightarrow> ('f, 'c) drift_state \<Rightarrow> 'r \<Rightarrow> (query_error + usize list) \<times> 'r" where
  "select_actions random limit st rng =
     (case rd_shuffle_actions random (incomplete_ids st) rng of
        (shuffled, rng) \<Rightarrow> (map_ok (take limit) shuffled, rng))"

definition selected_queries :: "('f, 'c) drift_state \<Rightarrow> usize list \<Rightarrow> query_error + string list" where
  "selected_queries st selected =
     try_map (\<lambda>i. ok_or (QueryContext SearchDrift ''select DRIFT incomplete actions''
       (''action id '' @ nat_to_dec i @ '' is absent'')) (query_of st i)) selected"

fun apply_results ::
  "'f floats \<Rightarrow> usage \<Rightarrow> (usize \<times> 'f drift_response \<times> 'c drift_metadata) list \<Rightarrow> ('f, 'c) drift_state
   \<Rightarrow> query_error + usage \<times> ('f, 'c) drift_state" where
  "apply_results fl acc [] st = Inr (acc, st)"
| "apply_results fl acc ((i, response, metadata) # rs) st =
     and_then (state_apply fl i response metadata st) (\<lambda>st.
       apply_results fl (usage_add acc (dm_usage metadata)) rs st)"

text \<open>What \<open>run_depths\<close> may return, with \<open>n\<close> rounds to go.\<close>

fun run_depths ::
  "('f, 'd, 'v) drift_env \<Rightarrow> 'r drift_random \<Rightarrow> string \<Rightarrow> nat \<Rightarrow> usage \<Rightarrow> 'r \<Rightarrow> ('f, 'd query_context) drift_state
   \<Rightarrow> query_error + usage \<times> ('f, 'd query_context) drift_state \<Rightarrow> bool" where
  "run_depths env random query 0 acc rng st r \<longleftrightarrow> r = Inr (acc, st)"
| "run_depths env random query (Suc n) acc rng st r \<longleftrightarrow>
     (case select_actions random (dx_k_followups env) st rng of
        (Inl e, _) \<Rightarrow> r = Inl e
      | (Inr selected, rng) \<Rightarrow>
          if selected = [] then r = Inr (acc, st)
          else
            (case selected_queries st selected of
               Inl e \<Rightarrow> r = Inl e
             | Inr queries \<Rightarrow>
                 \<exists>results. try_buffered_ordered (map (run_action env query n) queries) (dx_concurrency env) results
                   \<and> (case and_then results (\<lambda>rs. apply_results (dx_floats env) acc (zip selected rs) st) of
                        Inl e \<Rightarrow> r = Inl e
                      | Inr (acc, st) \<Rightarrow> run_depths env random query n acc rng st r)))"

subsection \<open>The context of the answer\<close>

definition btree :: "(string \<times> 'a) list \<Rightarrow> (string, 'a) omap" where
  "btree entries = foldl (\<lambda>m (k, v). om_insert k v m) [] entries"

definition finite_json :: "'f floats \<Rightarrow> 'f \<Rightarrow> 'f json" where
  "finite_json fl x = (if fl_is_finite fl x then JNumber (NFloat x) else JNull)"

definition usize_json :: "usize \<Rightarrow> 'f json" where
  "usize_json n = JNumber (NInt (int n))"

definition node_json :: "'f floats \<Rightarrow> ('f, 'c) drift_action \<Rightarrow> 'f json" where
  "node_json fl a = JObject (btree
     [(''id'', usize_json (da_id a)), (''query'', JString (da_query a)),
      (''answer'', case da_answer a of None \<Rightarrow> JNull | Some s \<Rightarrow> JString s), (''score'', finite_json fl (da_score a)),
      (''metadata'', JObject (btree
         [(''llm_calls'', usize_json (us_llm_calls (dm_usage (da_metadata a)))),
          (''prompt_tokens'', usize_json (us_prompt_tokens (dm_usage (da_metadata a)))),
          (''output_tokens'', usize_json (us_output_tokens (dm_usage (da_metadata a))))]))])"

definition edge_json :: "'f drift_edge \<Rightarrow> 'f json" where
  "edge_json e = JObject (btree
     [(''source'', usize_json (de_source e)), (''target'', usize_json (de_target e)),
      (''weight'', JNumber (NFloat (de_weight e)))])"

definition state_to_json :: "('f, 'd, 'v) drift_env \<Rightarrow> ('f, 'c) drift_state \<Rightarrow> query_error + string" where
  "state_to_json env st =
     map_err (drift_parse_error ''serialize DRIFT action state'') (dx_to_json env (JObject (btree
       [(''nodes'', JArray (map (node_json (dx_floats env)) (ds_nodes st))),
        (''edges'', JArray (map edge_json (edges_in_graph_order st)))])))"

definition primer_table :: "'f ranked_report list \<Rightarrow> context_table" where
  "primer_table reports = context_table_new [''short_id'', ''community_id'', ''full_content'']
     (map (\<lambda>r. [rk_short_id r, rk_community_id r, rk_full_content r]) reports)"

definition ranking_table :: "'f reals \<Rightarrow> 'f ranked_report list \<Rightarrow> context_table" where
  "ranking_table re reports = context_table_new [''short_id'', ''similarity'']
     (map (\<lambda>r. [rk_short_id r, re_show re (rk_similarity r)]) reports)"

definition node_table :: "'f floats \<Rightarrow> 'f reals \<Rightarrow> ('f, 'c) drift_state \<Rightarrow> context_table" where
  "node_table fl re st = context_table_new [''id'', ''query'', ''answer'', ''score'']
     (map (\<lambda>a. [nat_to_dec (da_id a), da_query a, (case da_answer a of None \<Rightarrow> [] | Some s \<Rightarrow> s),
         if fl_is_finite fl (da_score a) then re_show re (da_score a) else []]) (ds_nodes st))"

definition edge_table :: "'f reals \<Rightarrow> ('f, 'c) drift_state \<Rightarrow> context_table" where
  "edge_table re st = context_table_new [''source'', ''target'', ''weight'']
     (map (\<lambda>e. [nat_to_dec (de_source e), nat_to_dec (de_target e), re_show re (de_weight e)]) (edges_in_graph_order st))"

definition aggregate_table :: "'f reals \<Rightarrow> 'f primer_aggregate \<Rightarrow> string \<Rightarrow> context_table" where
  "aggregate_table re primer followups = context_table_new [''answer'', ''score'', ''follow_up_queries'']
     [[pa_answer primer, re_show re (pa_score primer), followups]]"

text \<open>The contexts of the actions that ran, by query.\<close>

definition action_contexts :: "('f, 'd query_context) drift_state \<Rightarrow> (string \<times> 'd query_context) list" where
  "action_contexts st =
     List.map_filter (\<lambda>a. map_option (\<lambda>c. (da_query a, c)) (dm_context (da_metadata a))) (ds_nodes st)"

definition build_query_context ::
  "('f, 'd, 'v) drift_env \<Rightarrow> 'f ranked_report list \<Rightarrow> 'f primer_aggregate \<Rightarrow> ('f, 'd query_context) drift_state
   \<Rightarrow> string \<Rightarrow> string \<Rightarrow> query_error + 'd query_context" where
  "build_query_context env reports primer st state_context reduce_context =
     (let re = dx_reals env; fl = dx_floats env;
          frame = (\<lambda>t operation. to_dataframe (dx_frames env) SearchDrift operation t) in
      and_then (render_csv (dx_csv env) SearchDrift ''render DRIFT primer context'' (primer_table reports)) (\<lambda>primer_text.
      and_then (frame (node_table fl re st) ''build DRIFT node records'') (\<lambda>nodes.
      and_then (frame (edge_table re st) ''build DRIFT edge records'') (\<lambda>edges.
      and_then (frame (primer_table reports) ''build DRIFT primer records'') (\<lambda>top_k_reports.
      and_then (frame (ranking_table re reports) ''build DRIFT ranking records'') (\<lambda>ranking.
      and_then (map_err (drift_parse_error ''serialize DRIFT primer follow-ups'')
        (dx_to_json env (JArray (map JString (pa_followups primer))))) (\<lambda>followups.
      and_then (frame (aggregate_table re primer followups) ''build DRIFT primer aggregate'') (\<lambda>aggregate.
        Inr \<lparr>qc_text = TextComposite (btree
               [(''primer'', Text primer_text), (''state'', Text state_context),
                (''actions'', TextComposite (btree (map (\<lambda>(q, c). (q, qc_text c)) (action_contexts st)))),
                (''reduce'', Text reduce_context)]),
             qc_records = RecordsNamed (btree
               [(''primer'', RecordTables (btree [(''top_k_reports'', top_k_reports), (''ranking'', ranking)])),
                (''state'', RecordTables (btree [(''nodes'', nodes), (''edges'', edges)])),
                (''actions'', RecordsNamed (btree (map (\<lambda>(q, c). (q, qc_records c)) (action_contexts st)))),
                (''primer_response'', RecordTables (btree [(''aggregate'', aggregate)]))])\<rparr>))))))))"

text \<open>
  \<open>python_string_repr\<close> over UTF-8: a control character below \<open>U+0080\<close> is one byte, one from \<open>U+0080\<close> to
  \<open>U+009F\<close> the byte \<open>0xC2\<close> and its own code.
\<close>

definition hex_lower :: "nat \<Rightarrow> string" where
  "hex_lower n = map (\<lambda>d. if d < 10 then char_of (48 + d) else char_of (87 + d)) [n div 16, n mod 16]"

definition python_escape :: "nat \<Rightarrow> string" where
  "python_escape n = [CHR 0x5C, CHR ''x''] @ hex_lower n"

definition python_char :: "char \<Rightarrow> char \<Rightarrow> string" where
  "python_char quote c =
     (if c = CHR 0x5C then [CHR 0x5C, CHR 0x5C]
      else if c = CHR 0x0A then [CHR 0x5C, CHR ''n'']
      else if c = CHR 0x0D then [CHR 0x5C, CHR ''r'']
      else if c = CHR 0x09 then [CHR 0x5C, CHR ''t'']
      else if c = quote then [CHR 0x5C, c]
      else if of_char c < (32::nat) \<or> c = CHR 0x7F then python_escape (of_char c)
      else [c])"

fun python_body :: "char \<Rightarrow> string \<Rightarrow> string" where
  "python_body quote [] = []"
| "python_body quote (c # cs) =
     (case cs of
        d # ds \<Rightarrow>
          if c = CHR 0xC2 \<and> (128::nat) \<le> of_char d \<and> of_char d < (160::nat)
          then python_escape (of_char d) @ python_body quote ds
          else python_char quote c @ python_body quote cs
      | [] \<Rightarrow> python_char quote c)"

definition python_quote :: "string \<Rightarrow> char" where
  "python_quote s = (if CHR 0x27 \<in> set s \<and> CHR 0x22 \<notin> set s then CHR 0x22 else CHR 0x27)"

definition python_string_repr :: "string \<Rightarrow> string" where
  "python_string_repr s = python_quote s # python_body (python_quote s) s @ [python_quote s]"

definition python_list_repr :: "string list \<Rightarrow> string" where
  "python_list_repr answers = ''['' @ join_with '', '' (map python_string_repr answers) @ '']''"

subsection \<open>The search\<close>

record 'd drift_prepared =
  dp_context :: "'d query_context"
  dp_state_context :: string
  dp_reduce_context :: string
  dp_usage :: "(string, usage) omap"

text \<open>What follows the depth loop.\<close>

definition finish_prepare ::
  "('f, 'd, 'v) drift_env \<Rightarrow> 'f ranked_report list \<Rightarrow> usage \<Rightarrow> 'f primer_aggregate \<Rightarrow> usage
   \<Rightarrow> ('f, 'd query_context) drift_state \<Rightarrow> query_error + 'd drift_prepared" where
  "finish_prepare env ranked build_usage primer action_usage st =
     and_then (state_to_json env st) (\<lambda>state_context.
       let reduce_context = python_list_repr (reduce_answers st) in
       and_then (build_query_context env ranked primer st state_context reduce_context) (\<lambda>context.
         Inr \<lparr>dp_context = context, dp_state_context = state_context, dp_reduce_context = reduce_context,
              dp_usage = btree [(''build_context'', build_usage), (''primer'', pa_usage primer), (''action'', action_usage)]\<rparr>))"

text \<open>What \<open>prepare\<close> may return.\<close>

definition drift_prepare ::
  "('f, 'd, 'v) drift_env \<Rightarrow> 'r drift_random \<Rightarrow> 'f community_report list \<Rightarrow> string \<Rightarrow> 'r
   \<Rightarrow> query_error + 'd drift_prepared \<Rightarrow> bool" where
  "drift_prepare env random reports query rng r \<longleftrightarrow>
     (case build_ranked_context env random reports query rng of
        (Inl e, _) \<Rightarrow> r = Inl e
      | (Inr (ranked, build_usage), rng) \<Rightarrow>
          \<exists>primer. run_primer env ranked query primer
            \<and> (case primer of
                 Inl e \<Rightarrow> r = Inl e
               | Inr p \<Rightarrow>
                   \<exists>depths. run_depths env random query (dx_n_depth env) usage_default rng
                       (add_root (dx_floats env) query (pa_answer p) (pa_score p) (pa_followups p) state_default) depths
                     \<and> r = and_then depths (\<lambda>(action_usage, st). finish_prepare env ranked build_usage p action_usage st)))"

definition validate_query :: "string \<Rightarrow> query_error + unit" where
  "validate_query query =
     (if query = [] then Inl (InvalidQueryConfig SearchDrift ''validate DRIFT Search query'' ''DRIFT Search query cannot be empty'')
      else Inr ())"

definition render_reduce :: "('f, 'd, 'v) drift_env \<Rightarrow> string \<Rightarrow> string \<Rightarrow> query_error + string" where
  "render_reduce env context response_type =
     map_err (QueryPrompt SearchDrift ''render DRIFT reduce prompt'' ''drift_reduce_prompt.txt'')
       (dx_reduce_prompt env context response_type)"

text \<open>The rendered prompt and its tokens, once the request is built for a stream or not.\<close>

definition reduce_call ::
  "('f, 'd, 'v) drift_env \<Rightarrow> bool \<Rightarrow> string \<Rightarrow> string \<Rightarrow> 'd drift_prepared \<Rightarrow> query_error + string \<times> usize" where
  "reduce_call env is_stream query response_type prepared =
     and_then (render_reduce env (dp_reduce_context prepared) response_type) (\<lambda>rendered.
     and_then (count_messages (\<lambda>s. drift_count env s ''count DRIFT reduce completion input tokens'') 0 [rendered, query])
       (\<lambda>prompt_tokens.
     and_then (map_err (InvalidQueryConfig SearchDrift ''build DRIFT reduce completion request'')
       (dx_reduce_request env is_stream rendered query)) (\<lambda>_.
       Inr (rendered, prompt_tokens))))"

definition drift_result ::
  "'d query_context \<Rightarrow> (string, usage) omap \<Rightarrow> string \<Rightarrow> usize \<Rightarrow> usize \<Rightarrow> 'd query_context query_result" where
  "drift_result context categories answer prompt_tokens output_tokens =
     \<lparr>qr_response = answer, qr_context = context,
      qr_usage = from_categories (om_insert ''reduce''
        \<lparr>us_llm_calls = 1, us_prompt_tokens = prompt_tokens, us_output_tokens = output_tokens\<rparr> categories)\<rparr>"

definition reduce_answer ::
  "('f, 'd, 'v) drift_env \<Rightarrow> string \<Rightarrow> string \<Rightarrow> 'd drift_prepared \<Rightarrow> query_error + 'd query_context query_result" where
  "reduce_answer env query response_type prepared =
     and_then (reduce_call env False query response_type prepared) (\<lambda>(rendered, prompt_tokens).
     and_then (read_completion env ''complete DRIFT reduce response'' ''read DRIFT reduce response''
       (dx_complete_reduce env rendered query)) (\<lambda>answer.
     and_then (drift_count env answer ''count DRIFT reduce output'') (\<lambda>output_tokens.
       Inr (drift_result (dp_context prepared) (dp_usage prepared) answer prompt_tokens output_tokens))))"

text \<open>What \<open>drift_search\<close> may return.\<close>

definition drift_search ::
  "('f, 'd, 'v) drift_env \<Rightarrow> 'r drift_random \<Rightarrow> 'f community_report list \<Rightarrow> string \<Rightarrow> string \<Rightarrow> 'r
   \<Rightarrow> query_error + 'd query_context query_result \<Rightarrow> bool" where
  "drift_search env random reports query response_type rng r \<longleftrightarrow>
     (case validate_query query of
        Inl e \<Rightarrow> r = Inl e
      | Inr _ \<Rightarrow>
          \<exists>prepared. drift_prepare env random reports query rng prepared
            \<and> r = and_then prepared (reduce_answer env query response_type))"

subsection \<open>The event stream\<close>

datatype drift_stream_phase = PhaseContext | PhaseStart | PhaseTokens

record 'd drift_stream_state =
  dt_request :: "(string \<times> string) option" \<comment> \<open>the messages of the request\<close>
  dt_provider :: "provider option"
  dt_context :: "'d query_context"
  dt_response :: string
  dt_usage :: "(string, usage) omap"
  dt_prompt_tokens :: usize
  dt_phase :: drift_stream_phase

definition stream_error :: "('f, 'd, 'v) drift_env \<Rightarrow> string \<Rightarrow> query_error" where
  "stream_error env message =
     drift_completion_error env ''advance DRIFT reduce stream''
       (invalid_response (dx_completion_model_id env) ''query stream'' message)"

text \<open>The loop of the phase \<open>Tokens\<close> over what the provider still has.\<close>

fun drift_tokens ::
  "('f, 'd, 'v) drift_env \<Rightarrow> 'd drift_stream_state \<Rightarrow> provider
   \<Rightarrow> (query_error + 'd query_context query_event) \<times> 'd drift_stream_state option" where
  "drift_tokens env s [] =
     (case drift_count env (dt_response s) ''count DRIFT reduce output'' of
        Inl e \<Rightarrow> (Inl e, None)
      | Inr output_tokens \<Rightarrow>
          (Inr (CompletedEvent (drift_result (dt_context s) (dt_usage s) (dt_response s) (dt_prompt_tokens s) output_tokens)),
           None))"
| "drift_tokens env s (Inl source # chunks) =
     (Inl (drift_completion_error env ''consume DRIFT reduce stream'' source), None)"
| "drift_tokens env s (Inr content # chunks) =
     (if content = [] then drift_tokens env s chunks
      else (Inr (TokenEvent content), Some (s\<lparr>dt_response := dt_response s @ content, dt_provider := Some chunks\<rparr>)))"

definition drift_poll ::
  "('f, 'd, 'v) drift_env \<Rightarrow> 'd drift_stream_state
   \<Rightarrow> (query_error + 'd query_context query_event) \<times> 'd drift_stream_state option" where
  "drift_poll env s =
     (case dt_provider s of
        None \<Rightarrow> (Inl (stream_error env ''missing reduce stream''), None)
      | Some chunks \<Rightarrow> drift_tokens env s chunks)"

definition next_stream_event ::
  "('f, 'd, 'v) drift_env \<Rightarrow> 'd drift_stream_state
   \<Rightarrow> (query_error + 'd query_context query_event) \<times> 'd drift_stream_state option" where
  "next_stream_event env s =
     (case dt_phase s of
        PhaseContext \<Rightarrow> (Inr (ContextEvent (dt_context s)), Some (s\<lparr>dt_phase := PhaseStart\<rparr>))
      | PhaseStart \<Rightarrow>
          (case dt_request s of
             None \<Rightarrow> (Inl (stream_error env ''missing reduce request''), None)
           | Some (rendered, query) \<Rightarrow>
               (case dx_stream_reduce env rendered query of
                  Inl source \<Rightarrow> (Inl (drift_completion_error env ''start DRIFT reduce stream'' source), None)
                | Inr provider \<Rightarrow>
                    drift_poll env (s\<lparr>dt_request := None, dt_provider := Some provider, dt_phase := PhaseTokens\<rparr>)))
      | PhaseTokens \<Rightarrow> drift_poll env s)"

text \<open>\<open>stream::unfold\<close>. What is left to do: the phases, then the chunks of the provider.\<close>

definition stream_work :: "('f, 'd, 'v) drift_env \<Rightarrow> 'd drift_stream_state \<Rightarrow> nat" where
  "stream_work env s =
     (let chunks = (\<lambda>p. case p of Some c \<Rightarrow> length c | None \<Rightarrow> 0);
          started = (case dt_request s of
             Some (rendered, query) \<Rightarrow> (case dx_stream_reduce env rendered query of Inr c \<Rightarrow> length c | Inl _ \<Rightarrow> 0)
           | None \<Rightarrow> 0)
      in case dt_phase s of
           PhaseContext \<Rightarrow> started + 2 | PhaseStart \<Rightarrow> started + 1 | PhaseTokens \<Rightarrow> chunks (dt_provider s))"

lemma drift_tokens_left:
  "drift_tokens env s chunks = (event, Some s') \<Longrightarrow>
   dt_phase s' = dt_phase s \<and> (\<exists>c. dt_provider s' = Some c \<and> length c < length chunks)"
  by (induction env s chunks rule: drift_tokens.induct) (fastforce split: sum.splits if_splits)+

lemma next_stream_event_work:
  assumes "next_stream_event env s = (event, Some s')"
  shows "stream_work env s' < stream_work env s"
proof (cases "dt_phase s")
  case PhaseContext
  with assms show ?thesis by (auto simp: next_stream_event_def stream_work_def Let_def)
next
  case PhaseStart
  with assms show ?thesis
    by (auto simp: next_stream_event_def drift_poll_def stream_work_def split: option.splits sum.splits dest!: drift_tokens_left)
next
  case PhaseTokens
  with assms show ?thesis
    by (auto simp: next_stream_event_def drift_poll_def stream_work_def split: option.splits dest!: drift_tokens_left)
qed

function drift_events ::
  "('f, 'd, 'v) drift_env \<Rightarrow> 'd drift_stream_state option \<Rightarrow> (query_error + 'd query_context query_event) list" where
  "drift_events env None = []"
| "drift_events env (Some s) = (case next_stream_event env s of (event, s') \<Rightarrow> event # drift_events env s')"
  by pat_completeness auto
termination
  by (relation "measure (\<lambda>(env, st). case st of None \<Rightarrow> 0 | Some s \<Rightarrow> Suc (stream_work env s))")
    (auto split: option.split intro: next_stream_event_work [OF sym])

declare drift_events.simps [simp del]

definition reduce_stream ::
  "('f, 'd, 'v) drift_env \<Rightarrow> string \<Rightarrow> string \<Rightarrow> 'd drift_prepared
   \<Rightarrow> query_error + (query_error + 'd query_context query_event) list" where
  "reduce_stream env query response_type prepared =
     and_then (reduce_call env True query response_type prepared) (\<lambda>(rendered, prompt_tokens).
       Inr (drift_events env (Some \<lparr>dt_request = Some (rendered, query), dt_provider = None, dt_context = dp_context prepared,
         dt_response = [], dt_usage = dp_usage prepared, dt_prompt_tokens = prompt_tokens, dt_phase = PhaseContext\<rparr>)))"

text \<open>What \<open>drift_search_streaming\<close> may return.\<close>

definition drift_search_streaming ::
  "('f, 'd, 'v) drift_env \<Rightarrow> 'r drift_random \<Rightarrow> 'f community_report list \<Rightarrow> string \<Rightarrow> string \<Rightarrow> 'r
   \<Rightarrow> query_error + (query_error + 'd query_context query_event) list \<Rightarrow> bool" where
  "drift_search_streaming env random reports query response_type rng r \<longleftrightarrow>
     (case validate_query query of
        Inl e \<Rightarrow> r = Inl e
      | Inr _ \<Rightarrow>
          \<exists>prepared. drift_prepare env random reports query rng prepared
            \<and> r = and_then prepared (reduce_stream env query response_type))"

end
