(* ===== verification/Local_Context_Total.thy ===== *)
theory Local_Context_Total
  imports Local_Context
begin

text \<open>
  The Local Search context never fails on its own: every table it builds has rows of its own width, so
  that only the tokenizer, the CSV writer, the data frame library or the entity mapping can fail it.
\<close>

subsection \<open>Results that succeed\<close>

definition succeeds :: "'e + 'a \<Rightarrow> ('a \<Rightarrow> bool) \<Rightarrow> bool" where
  "succeeds r P \<longleftrightarrow> (\<exists>x. r = Inr x \<and> P x)"

lemma succeeds_Inr [simp]: "succeeds (Inr x) P = P x"
  by (simp add: succeeds_def)

lemma succeeds_and_then [intro]:
  "succeeds r Q \<Longrightarrow> (\<And>x. Q x \<Longrightarrow> succeeds (f x) P) \<Longrightarrow> succeeds (and_then r f) P"
  by (auto simp: succeeds_def)

lemma succeeds_any: "is_ok r \<Longrightarrow> succeeds r (\<lambda>_. True)"
  by (auto simp: succeeds_def is_ok_iff)

lemma succeeds_map_err: "is_ok r \<Longrightarrow> succeeds (map_err f r) (\<lambda>_. True)"
  by (auto simp: succeeds_def is_ok_iff)

lemma succeeds_is_ok: "succeeds r P \<Longrightarrow> is_ok r"
  by (auto simp: succeeds_def)

text \<open>Collaborators that never fail.\<close>

definition collaborators_total :: "('f, 'd, 'v) local_env \<Rightarrow> bool" where
  "collaborators_total env \<longleftrightarrow>
     (\<forall>s. is_ok (lo_count env s)) \<and> (\<forall>rows. is_ok (lo_csv env rows))
     \<and> (\<forall>height columns. is_ok (fr_new (lo_frames env) height columns))
     \<and> (\<forall>name vs d. is_ok (lo_with_column env name vs d))"

definition table_ok :: "context_table \<Rightarrow> bool" where
  "table_ok t \<longleftrightarrow> (\<forall>row \<in> set (ct_rows t). length row = length (ct_columns t))"

definition tables_ok :: "context_tables \<Rightarrow> bool" where
  "tables_ok ts \<longleftrightarrow> (\<forall>t \<in> snd ` set ts. table_ok t)"

definition section_ok :: "'f local_section option \<Rightarrow> bool" where
  "section_ok v \<longleftrightarrow> (\<forall>s. v = Some s \<longrightarrow> table_ok (sc_table s))"

lemma table_ok_empty [simp]: "table_ok (context_table_new columns [])"
  by (simp add: table_ok_def context_table_new_def)

lemma tables_ok_Nil [simp]: "tables_ok []"
  by (simp add: tables_ok_def)

lemma tables_ok_insert [simp, intro]: "table_ok t \<Longrightarrow> tables_ok ts \<Longrightarrow> tables_ok (om_insert k t ts)"
  by (induction ts) (auto simp: tables_ok_def split: if_splits)

lemma tables_ok_inserts: "tables_ok ts \<Longrightarrow> tables_ok us \<Longrightarrow> tables_ok (foldl (\<lambda>m (k, t). om_insert k t m) ts us)"
proof (induction us arbitrary: ts)
  case (Cons u us)
  obtain k t where u: "u = (k, t)" by fastforce
  have "table_ok t" "tables_ok us" using Cons.prems(2) by (simp_all add: tables_ok_def u)
  then show ?case using Cons.IH [of "om_insert k t ts"] Cons.prems(1) by (simp add: u)
qed simp

lemma section_ok_simps [simp]: "section_ok None" "section_ok (Some s) = table_ok (sc_table s)"
  by (simp_all add: section_ok_def)

subsection \<open>Tables\<close>

lemma validate_rows_ok: "table_ok t \<Longrightarrow> validate_rows m op t = Inr ()"
  by (simp add: validate_rows_Inr table_ok_def)

lemma render_delimited_section_ok: "table_ok t \<Longrightarrow> succeeds (render_delimited_section name m op t) (\<lambda>_. True)"
  by (simp add: render_delimited_section_def render_delimited_def validate_rows_ok)

lemma render_csv_section_ok:
  "collaborators_total env \<Longrightarrow> table_ok t \<Longrightarrow> succeeds (render_csv_section (lo_csv env) name m op t) (\<lambda>_. True)"
  unfolding render_csv_section_def render_csv_def
  by (rule succeeds_and_then [where Q = "\<lambda>_. True"])
    (auto simp: collaborators_total_def validate_rows_ok intro: succeeds_map_err)

lemma local_count_ok: "collaborators_total env \<Longrightarrow> succeeds (local_count env s op) (\<lambda>_. True)"
  by (auto simp: local_count_def collaborators_total_def intro: succeeds_map_err)

lemma fit_loop_ok:
  assumes "collaborators_total env"
  shows "table_ok t \<Longrightarrow> \<forall>row \<in> set rows. length row = length (ct_columns t) \<Longrightarrow>
    succeeds (fit_loop env op n t tokens rows) (\<lambda>(t, _). table_ok t)"
proof (induction rows arbitrary: t tokens)
  case (Cons row rows)
  have push: "table_ok (context_table_push row t)" "ct_columns (context_table_push row t) = ct_columns t"
    using Cons.prems by (simp_all add: table_ok_def context_table_push_def)
  have "render_delimited_row (lo_method env) op t row = Inr (delimited_record row)"
    using Cons.prems by (simp add: render_delimited_row_def validate_row_def)
  then show ?case using Cons.prems Cons.IH [OF push(1)] push(2)
    by (auto intro!: succeeds_and_then [OF local_count_ok [OF assms]])
qed simp

lemma fit_rows_ok:
  assumes "collaborators_total env" "\<forall>row \<in> set rows. length row = length columns"
  shows "succeeds (fit_delimited_rows env (context_table_new columns []) rows name n op) (\<lambda>f. table_ok (ft_table f))"
proof -
  have "succeeds (fit_loop env op n (context_table_new columns []) tokens rows) (\<lambda>(t, _). table_ok t)" for tokens
    by (rule fit_loop_ok [OF assms(1)]) (use assms(2) in \<open>simp_all add: context_table_new_def table_ok_def\<close>)
  then show ?thesis
    unfolding fit_delimited_rows_def render_delimited_header_def
    by (auto simp: validate_rows_ok intro!: succeeds_and_then [OF local_count_ok [OF assms(1)]] succeeds_and_then [where Q = "\<lambda>(t, _). table_ok t"])
qed

lemma to_dataframe_ok:
  assumes "collaborators_total env" "table_ok t"
  shows "succeeds (to_dataframe (lo_frames env) m op t) (\<lambda>_. True)"
proof -
  have "\<forall>row \<in> set (ct_rows t). length row = length (ct_columns t)" using assms(2) by (simp add: table_ok_def)
  then show ?thesis using assms
    by (auto simp: to_dataframe_def validate_rows_ok table_columns collaborators_total_def intro!: succeeds_map_err)
qed

subsection \<open>Sections\<close>

lemma relationship_section_succeeds:
  assumes "collaborators_total env"
  shows "succeeds (build_relationship_context env data capture es ps n learned) (\<lambda>(v, _). section_ok v)"
proof -
  obtain s f l where t: "filter_relationships_capture es (ld_relationships data) ps (lo_top_k_relationships env) learned capture = ((s, f), l)"
    by (metis surj_pair)
  show ?thesis unfolding build_relationship_context_def t
    by (auto simp: Let_def rank_filtered_relationship_section_def relationship_columns_def local_relationship_row_def
        simp del: not_None_eq
        intro!: succeeds_and_then [OF fit_rows_ok [OF assms]] succeeds_and_then [OF render_delimited_section_ok])
qed

lemma covariate_section_succeeds:
  assumes "collaborators_total env"
  shows "succeeds (build_covariate_context env data capture name gs ps n) section_ok"
  unfolding build_covariate_context_def Let_def
  by (auto simp: covariate_row_def covariate_columns_def
      intro!: succeeds_and_then [OF fit_rows_ok [OF assms]] succeeds_and_then [OF render_delimited_section_ok])

lemma add_relationship_succeeds:
  assumes "collaborators_total env" "section_ok v" "tables_ok (xa_tables a)"
  shows "succeeds (add_relationship_section env capture n v a) (\<lambda>a. tables_ok (xa_tables a))"
  using assms
  by (cases v) (auto simp: add_relationship_section_def intro!: succeeds_and_then [OF local_count_ok])

lemma add_covariate_succeeds:
  assumes "collaborators_total env" "section_ok v" "tables_ok (xa_tables a)"
  shows "succeeds (add_covariate_section env capture n name v a) (\<lambda>a. tables_ok (xa_tables a))"
  using assms
  by (cases v) (auto simp: add_covariate_section_def intro!: succeeds_and_then [OF local_count_ok])

lemma add_covariates_succeed:
  assumes "collaborators_total env"
  shows "tables_ok (xa_tables a) \<Longrightarrow>
    succeeds (add_covariate_sections env data capture ps n groups a) (\<lambda>a. tables_ok (xa_tables a))"
proof (induction groups arbitrary: a)
  case (Cons g groups)
  obtain name gs where g: "g = (name, gs)" by fastforce
  show ?case unfolding g add_covariate_sections.simps
    by (intro succeeds_and_then [OF covariate_section_succeeds [OF assms]]
        succeeds_and_then [OF add_covariate_succeeds [OF assms _ Cons.prems]] Cons.IH)
qed simp

lemma attempt_succeeds:
  assumes "collaborators_total env"
  shows "succeeds (build_local_expansion_attempt env data capture es rs cs n k learned) (\<lambda>(a, _). tables_ok (xa_tables a))"
  unfolding build_local_expansion_attempt_def
  by (rule succeeds_and_then [OF relationship_section_succeeds [OF assms]])
    (auto intro!: succeeds_and_then [OF add_relationship_succeeds [OF assms]]
      succeeds_and_then [OF add_covariates_succeed [OF assms]])

lemma expand_loop_succeeds:
  assumes "collaborators_total env"
  shows "tables_ok (xa_tables a) \<Longrightarrow>
    succeeds (expand_loop env data capture n k es fs rs cs learned a) (\<lambda>(a, _, _). tables_ok (xa_tables a))"
proof (induction fs arbitrary: es rs cs learned a)
  case (Cons f fs)
  then show ?case
    by (auto simp: Let_def intro!: succeeds_and_then [OF attempt_succeeds [OF assms]])
qed simp

lemma entity_section_succeeds:
  assumes "collaborators_total env"
  shows "succeeds (build_entity_section env capture es n) (\<lambda>s. table_ok (sc_table s))"
  unfolding build_entity_section_def
  by (auto simp: local_entity_row_def intro!: succeeds_and_then [OF fit_rows_ok [OF assms]]
      succeeds_and_then [OF render_delimited_section_ok] succeeds_and_then [OF local_count_ok [OF assms]])

lemma expand_graph_succeeds:
  assumes "collaborators_total env"
  shows "succeeds (expand_local_graph env data capture es n k) (\<lambda>(a, _, _). tables_ok (xa_tables a))"
  unfolding expand_local_graph_def
  by (rule succeeds_and_then [OF expand_loop_succeeds [OF assms]]) auto

lemma local_context_succeeds:
  assumes "collaborators_total env"
  shows "succeeds (build_local_context env data capture es n) (\<lambda>s. tables_ok (ls_tables s))"
  unfolding build_local_context_def
  by (auto intro!: succeeds_and_then [OF entity_section_succeeds [OF assms]]
      succeeds_and_then [OF expand_graph_succeeds [OF assms]])

lemma community_succeeds:
  assumes "collaborators_total env"
  shows "succeeds (build_community_context env data capture es n) section_ok"
  unfolding build_community_context_def fit_report_rows_def
  by (cases "select_community_reports env data capture (community_matches es)")
    (auto simp: Let_def empty_community_section_def community_columns_def split: option.split
      intro!: succeeds_and_then [OF fit_rows_ok [OF assms]] succeeds_and_then [OF render_csv_section_ok [OF assms]])

lemma source_succeeds:
  assumes "collaborators_total env"
  shows "succeeds (build_source_context env data capture es n) section_ok"
  unfolding build_source_context_def
  by (cases "select_source_text_units data es")
    (auto simp: Let_def missing_source_section_def
      intro!: succeeds_and_then [OF fit_rows_ok [OF assms]] succeeds_and_then [OF render_delimited_section_ok])

lemma turns_table_ok [simp]: "table_ok (turns_table (map turn_row turns))"
  by (simp add: table_ok_def turns_table_def context_table_new_def turn_row_def)

lemma fit_turns_succeeds:
  assumes "collaborators_total env"
  shows "table_ok t \<Longrightarrow> ct_columns t = [''turn'', ''content''] \<Longrightarrow>
    succeeds (fit_turns (lo_csv env) (lo_count env) n t turns) table_ok"
proof (induction turns arbitrary: t)
  case (Cons turn turns)
  have push: "table_ok (context_table_push (turn_row turn) t)" "ct_columns (context_table_push (turn_row turn) t) = ct_columns t"
    using Cons.prems by (auto simp: table_ok_def context_table_push_def turn_row_def)
  have count: "succeeds (conversation_count (lo_count env) s op) (\<lambda>_. True)" for s op
    using assms by (auto simp: conversation_count_def collaborators_total_def intro: succeeds_map_err)
  show ?case using Cons push
    by (auto simp: Let_def intro!: succeeds_and_then [OF render_csv_section_ok [OF assms]] succeeds_and_then [OF count])
qed simp

lemma conversation_succeeds:
  assumes "collaborators_total env"
  shows "succeeds (build_conversation_history env capture h n) section_ok"
proof -
  have start: "table_ok (turns_table [])" "ct_columns (turns_table []) = [''turn'', ''content'']"
    by (simp_all add: turns_table_def context_table_new_def table_ok_def)
  have built: "succeeds (build_user_context (lo_csv env) (lo_count env) k n h) (\<lambda>c. table_ok (cc_table c))" for k
    unfolding build_user_context_def
    by (auto simp: start intro!: succeeds_and_then [OF fit_turns_succeeds [OF assms start]]
        succeeds_and_then [OF render_csv_section_ok [OF assms]])
  show ?thesis
    unfolding build_conversation_history_def
    by (auto simp: Let_def intro!: succeeds_and_then [OF built] succeeds_and_then [OF local_count_ok [OF assms]])
qed

subsection \<open>The whole context\<close>

lemma add_section_tables: "section_ok v \<Longrightarrow> tables_ok (as_tables a) \<Longrightarrow> tables_ok (as_tables (add_section k name v a))"
  by (cases v) (auto simp: add_section_def Let_def)

lemma context_sections_succeed:
  assumes "collaborators_total env"
  shows "succeeds (build_context_sections env data capture es h) (\<lambda>a. tables_ok (as_tables a))"
proof -
  have talk: "succeeds (case h of None \<Rightarrow> Inr None | Some h \<Rightarrow> build_conversation_history env capture h n) section_ok" for n
    using conversation_succeeds [OF assms] by (cases h) auto
  show ?thesis unfolding build_context_sections_def Let_def
    by (rule succeeds_and_then [OF talk], rule succeeds_and_then [OF community_succeeds [OF assms]],
        rule succeeds_and_then [OF local_context_succeeds [OF assms]],
        rule succeeds_and_then [OF source_succeeds [OF assms]])
      (auto intro!: add_section_tables tables_ok_inserts)
qed

lemma context_records_succeed:
  assumes "collaborators_total env" "tables_ok ts"
  shows "is_ok (local_context_records env ts)"
proof -
  have row: "succeeds (and_then (to_dataframe (lo_frames env) (lo_method env) ''build Local context records'' t) (\<lambda>frame.
       and_then (if local_table_requires_in_context name then
           map_err (QueryContext (lo_method env) ''mark standard Local context records'')
             (lo_with_column env ''in_context'' (replicate (lo_height env frame) True) frame)
         else Inr frame) (\<lambda>frame. Inr (name, frame)))) (\<lambda>_. True)" if "table_ok t" for name t
  proof (rule succeeds_and_then [OF to_dataframe_ok [OF assms(1) that]])
    fix frame
    show "succeeds (and_then (if local_table_requires_in_context name then
           map_err (QueryContext (lo_method env) ''mark standard Local context records'')
             (lo_with_column env ''in_context'' (replicate (lo_height env frame) True) frame)
         else Inr frame) (\<lambda>frame. Inr (name, frame))) (\<lambda>_. True)"
      using assms(1) by (intro succeeds_and_then [where Q = "\<lambda>_. True"])
        (auto simp: collaborators_total_def intro: succeeds_map_err)
  qed
  show ?thesis using assms(2)
    by (auto simp: local_context_records_def is_ok_try_map tables_ok_def intro!: succeeds_is_ok [OF row])
qed

lemma build_succeeds:
  assumes "collaborators_total env"
    and "is_ok (map_entities env data (case history of None \<Rightarrow> query | Some h \<Rightarrow> mapping_query query (lo_history_max_turns env) h)
           include_names exclude_names)"
  shows "is_ok (build_with_entity_filters env data capture query history include_names exclude_names)"
proof -
  have "succeeds (and_then (build_context_sections env data capture es history) (\<lambda>assembly.
      and_then (local_context_records env (as_tables assembly)) (\<lambda>records. Inr (f assembly records)))) (\<lambda>_. True)" for es f
    by (rule succeeds_and_then [OF context_sections_succeed [OF assms(1)]])
      (auto intro!: succeeds_and_then [OF succeeds_any [OF context_records_succeed [OF assms(1)]]])
  then show ?thesis using assms(2)
    unfolding build_with_entity_filters_def Let_def is_ok_iff
    by (auto simp: succeeds_def)
qed

text \<open>The Local Search context never fails on its own: when the tokenizer, the CSV writer and the data frame
  library do not fail and the entities are mapped, the context and its records are built, whatever the
  query, the history, the data, the index and the budget are.\<close>

theorem local_context_never_fails:
  assumes "collaborators_total env"
    and "is_ok (map_entities env data (case history of None \<Rightarrow> query | Some h \<Rightarrow> mapping_query query (lo_history_max_turns env) h)
           include_names exclude_names)"
  shows "is_ok (build_with_entity_filters env data capture query history include_names exclude_names)"
  by (rule build_succeeds [OF assms])

text \<open>A sample with hundredths for floats, characters for tokens, no quoting and no embedding.\<close>

definition sample_local :: "(int, unit, unit) local_env" where
  "sample_local = \<lparr>lo_method = SearchLocal, lo_history_max_turns = 5, lo_top_k_entities = 2, lo_top_k_relationships = 1,
     lo_max_context_tokens = 400, lo_community_prop = 25, lo_text_unit_prop = 50, lo_rest_prop = (\<lambda>a b. max 0 (100 - a - b)),
     lo_proportion = (\<lambda>total v. nat (int total * v div 100)), lo_zero = 0, lo_nonneg = (\<lambda>v. 0 \<le> v),
     lo_total_cmp = compare, lo_is_zero = (\<lambda>v. v = 0), lo_finite = (\<lambda>_. True), lo_whole = (\<lambda>_. True),
     lo_show_one = (\<lambda>_. ''1.0''), lo_show = (\<lambda>_. ''1''), lo_count = (\<lambda>s. Inr (min (length s) 1000)),
     lo_csv = (\<lambda>rows. Inr (concat (map delimited_record rows))),
     lo_frames = \<lparr>fr_empty = (), fr_new = (\<lambda>_ _. Inr ())\<rparr>, lo_height = (\<lambda>_. 0), lo_with_column = (\<lambda>_ _ _. Inr ()),
     lo_embed = (\<lambda>_. Inl ''no model''), lo_vector_finite = (\<lambda>_. True), lo_embedding_model_id = ''m'',
     lo_search = (\<lambda>_ _. Inr []), lo_index_name = ''i'', lo_parse_uuid = (\<lambda>_. None), lo_lower = (\<lambda>s. s)\<rparr>"

definition sample_local_entity :: "string \<Rightarrow> string \<Rightarrow> string list \<Rightarrow> query_entity" where
  "sample_local_entity i title units = \<lparr>en_id = i, en_short_id = Some i, en_title = title, en_entity_type = None,
     en_description = Some title, en_community_ids = [''0''], en_text_unit_ids = units, en_rank = Some 1\<rparr>"

definition sample_local_data :: "int local_data" where
  "sample_local_data =
     (let es = [sample_local_entity ''1'' ''A'' [''t'', ''u''], sample_local_entity ''2'' ''B'' [''u'', ''v'']];
          rs = [\<lparr>rl_id = ''r'', rl_short_id = Some ''0'', rl_source = ''A'', rl_target = ''B'', rl_description = None,
                 rl_weight = Some 1, rl_rank = Some 2, rl_text_unit_ids = [''t'']\<rparr>];
          us = [\<lparr>tu_id = ''t'', tu_short_id = ''0'', tu_text = ''x'', tu_entity_ids = [], tu_relationship_ids = [],
                 tu_covariate_ids = [], tu_n_tokens = None, tu_document_id = None\<rparr>,
                \<lparr>tu_id = ''u'', tu_short_id = ''1'', tu_text = ''y'', tu_entity_ids = [], tu_relationship_ids = [],
                 tu_covariate_ids = [], tu_n_tokens = None, tu_document_id = None\<rparr>]
      in \<lparr>ld_entities = es, ld_reports = [], ld_text_units = us, ld_relationships = rs, ld_covariates = [],
          ld_index = query_index_new es ([] :: int community_report list) us rs []\<rparr>)"

lemma sample_local_mapped: "map_entities sample_local sample_local_data '''' [] [] = Inr (ld_entities sample_local_data, usage_default)"
  by code_simp


lemma sample_total: "collaborators_total sample_local"
  by (simp add: collaborators_total_def sample_local_def)

lemma sample_built: "is_ok (build_with_entity_filters sample_local sample_local_data capture '''' None [] [])"
  by (rule build_succeeds [OF sample_total]) (simp add: sample_local_mapped)

theorem local_context_never_fails_witness:
  "is_ok (build_with_entity_filters sample_local sample_local_data True '''' None [] [])"
  using local_context_never_fails [OF sample_total, of sample_local_data "''''" None "[]" "[]" True]
  by (simp add: sample_local_mapped)

end
