(* ===== verification/Drift_Search_Laws.thy ===== *)
theory Drift_Search_Laws
  imports Drift_Search Local_Context_Total
begin

text \<open>
  What DRIFT search guarantees: the depth loop explores a well-formed graph in which every answer is
  explained by a local call for its own query, the ranking is the stable order by similarity, the
  reduce context reads back, and the stream follows its protocol.
\<close>

subsection \<open>Random choices\<close>

text \<open>The contract of \<open>DriftRandom\<close>: a report index in range, and a reordering of the actions.\<close>

locale drift_randomness =
  fixes random :: "'r drift_random"
  assumes choose_bound: "rd_choose_report random len rng = (Inr i, rng') \<Longrightarrow> i < len"
    and shuffle_permutes: "rd_shuffle_actions random xs rng = (Inr ys, rng') \<Longrightarrow> mset ys = mset xs"
begin

lemma template_found:
  assumes "rd_choose_report random (length reports) rng = (Inr i, rng')"
  shows "nth_opt reports i = Some (reports ! i)"
  using choose_bound [OF assms] by (simp add: nth_opt_def)

lemma select_actions_incomplete:
  assumes "select_actions random limit st rng = (Inr selected, rng')"
  shows "set selected \<subseteq> set (incomplete_ids st) \<and> length selected \<le> limit"
proof -
  obtain ys where ys: "rd_shuffle_actions random (incomplete_ids st) rng = (Inr ys, rng')" "selected = take limit ys"
    using assms by (cases "rd_shuffle_actions random (incomplete_ids st) rng"; cases "fst (rd_shuffle_actions random (incomplete_ids st) rng)")
      (auto simp: select_actions_def)
  have "set ys = set (incomplete_ids st)" using shuffle_permutes [OF ys(1)] by (metis set_mset_mset)
  with ys(2) show ?thesis by (auto dest: in_set_takeD)
qed

end

lemma scripted_check_ok:
  "scripted_check seen order = Inr u \<Longrightarrow> distinct order \<and> (\<forall>i \<in> set order. i < length seen \<and> \<not> seen ! i)"
proof (induction seen order rule: scripted_check.induct)
  case (2 seen index order)
  then have step: "index < length seen" "\<not> seen ! index" "scripted_check (seen[index := True]) order = Inr u"
    by (auto split: if_splits)
  have "distinct order \<and> (\<forall>i \<in> set order. i < length seen \<and> \<not> seen[index := True] ! i)"
    using "2.IH" step by simp
  then show ?case using step(1,2) by (fastforce simp: nth_list_update split: if_splits)
qed simp

lemma scripted_shuffle_permutes:
  assumes "scripted_shuffle_actions xs rng = (Inr ys, rng')"
  shows "mset ys = mset xs"
proof -
  obtain order where len: "length order = length xs"
    and check: "scripted_check (replicate (length xs) False) order = Inr ()" and ys: "ys = map (\<lambda>i. xs ! i) order"
    using assms by (auto simp: scripted_shuffle_actions_def and_then_Inr_iff split: list.splits if_splits)
  have order: "distinct order" "set order \<subseteq> {..<length xs}" using scripted_check_ok [OF check] by auto
  then have "set order = {..<length xs}"
    using len by (metis card_lessThan card_subset_eq distinct_card finite_lessThan)
  then have "mset order = mset [0..<length xs]"
    using order(1) by (intro set_eq_iff_mset_eq_distinct [THEN iffD1]) (auto simp: lessThan_atLeast0)
  then have "mset (map (\<lambda>i. xs ! i) order) = mset (map (\<lambda>i. xs ! i) [0..<length xs])" by (simp add: mset_map)
  then show ?thesis using ys by (simp add: map_nth)
qed

interpretation scripted: drift_randomness scripted_random
  by unfold_locales
    (auto simp: scripted_random_def scripted_choose_report_def intro: scripted_shuffle_permutes split: list.splits if_splits)

subsection \<open>The graph only grows\<close>

text \<open>New nodes are incomplete, and old ones keep their place.\<close>

definition untouched :: "'f floats \<Rightarrow> ('f, 'c) drift_action \<Rightarrow> bool" where
  "untouched fl a \<longleftrightarrow> a = action_incomplete fl (da_id a) (da_query a)"

definition grows :: "'f floats \<Rightarrow> ('f, 'c) drift_state \<Rightarrow> ('f, 'c) drift_state \<Rightarrow> bool" where
  "grows fl st st' \<longleftrightarrow>
     (\<exists>ns es. ds_nodes st' = ds_nodes st @ ns \<and> ds_edges st' = ds_edges st @ es
        \<and> (\<forall>a \<in> set ns. untouched fl a))"

lemma grows_refl: "grows fl st st"
  by (simp add: grows_def)

lemma grows_trans: "grows fl a b \<Longrightarrow> grows fl b c \<Longrightarrow> grows fl a c"
  unfolding grows_def by (elim exE conjE) (rule exI, rule exI, auto)

lemma grows_extends: "grows fl st st' \<Longrightarrow> extends st st'"
  by (auto simp: grows_def extends_def)

lemma grows_node: "grows fl st st' \<Longrightarrow> i < length (ds_nodes st) \<Longrightarrow> ds_nodes st' ! i = ds_nodes st ! i"
  by (auto simp: grows_def nth_append)

lemma grows_new_node:
  "grows fl st st' \<Longrightarrow> length (ds_nodes st) \<le> i \<Longrightarrow> i < length (ds_nodes st') \<Longrightarrow>
   untouched fl (ds_nodes st' ! i)"
  by (auto simp: grows_def nth_append)

lemma add_followup_grows: "grows fl st (add_followup fl source st q)"
  by (auto simp: grows_def add_followup_def add_or_get_def untouched_def action_incomplete_def Let_def split: option.splits)

lemma add_followups_grows: "grows fl st (foldl (add_followup fl source) st qs)"
  by (induction qs arbitrary: st) (auto simp: grows_refl intro: grows_trans add_followup_grows)

text \<open>An edge to the node of a query.\<close>

definition leads_to :: "('f, 'c) drift_state \<Rightarrow> usize \<Rightarrow> string \<Rightarrow> bool" where
  "leads_to st i q \<longleftrightarrow> (\<exists>e \<in> set (ds_edges st). de_source e = i \<and> query_of st (de_target e) = Some q)"

lemma leads_to_extends: "extends st st' \<Longrightarrow> leads_to st i q \<Longrightarrow> leads_to st' i q"
  unfolding leads_to_def using extends_query by (fastforce simp: extends_def)

lemma add_followups_lead:
  "drift_wf st \<Longrightarrow> source < length (ds_nodes st) \<Longrightarrow> q \<in> set qs \<Longrightarrow> leads_to (foldl (add_followup fl source) st qs) source q"
proof (induction qs arbitrary: st)
  case (Cons p qs)
  let ?st = "add_followup fl source st p"
  have wf: "drift_wf ?st" "extends st ?st" using add_followup_wf [OF Cons.prems(1,2)] by simp_all
  have bound: "source < length (ds_nodes ?st)" using extends_length [OF wf(2)] Cons.prems(2) by simp
  show ?case
  proof (cases "q = p")
    case True
    obtain i st' where get: "add_or_get fl p st = (i, st')" by fastforce
    have "query_of ?st i = Some p" using add_or_get_wf(3) [OF Cons.prems(1) get]
      by (simp add: add_followup_def get query_of_def split: if_splits)
    then have "leads_to ?st source p" by (auto simp: leads_to_def add_followup_def get)
    then show ?thesis using leads_to_extends [OF grows_extends [OF add_followups_grows]] True by simp
  qed (use Cons wf(1) bound in simp)
qed simp

subsection \<open>Every answer is explained\<close>

definition explained ::
  "('f, 'd, 'v) drift_env \<Rightarrow> string \<Rightarrow> ('f, 'd query_context) drift_state \<Rightarrow> usize \<Rightarrow> bool" where
  "explained env query st i \<longleftrightarrow>
     (let a = ds_nodes st ! i in
      \<exists>round response metadata.
        run_action env query round (da_query a) = Inr (response, metadata)
        \<and> da_answer a = dr_answer response \<and> da_score a = dr_score response \<and> da_metadata a = metadata
        \<and> (\<forall>q \<in> set (dr_follow_up_queries response). leads_to st i q))"

definition explored ::
  "('f, 'd, 'v) drift_env \<Rightarrow> string \<Rightarrow> string \<Rightarrow> 'f \<Rightarrow> ('f, 'd query_context) drift_state \<Rightarrow> bool" where
  "explored env query answer score st \<longleftrightarrow>
     drift_wf st \<and> ds_nodes st \<noteq> []
     \<and> da_query (ds_nodes st ! 0) = query \<and> da_answer (ds_nodes st ! 0) = Some answer \<and> da_score (ds_nodes st ! 0) = score
     \<and> (\<forall>i. 0 < i \<and> i < length (ds_nodes st) \<longrightarrow> untouched (dx_floats env) (ds_nodes st ! i) \<or> explained env query st i)"

lemma explained_extends:
  assumes "explained env query st i" "ds_nodes st' ! i = ds_nodes st ! i" "extends st st'"
  shows "explained env query st' i"
  using assms(1) leads_to_extends [OF assms(3)] unfolding explained_def Let_def assms(2) by blast

text \<open>The state after the primer.\<close>

lemma root_state:
  "add_root fl query answer score followups state_default =
     foldl (add_followup fl 0) \<lparr>ds_nodes = [(action_incomplete fl 0 query)\<lparr>da_answer := Some answer, da_score := score\<rparr>],
       ds_ids_by_query = [(query, 0)], ds_edges = []\<rparr> followups"
  by (simp add: add_root_def add_or_get_def state_default_def set_node_def Let_def)

lemma root_leads:
  assumes "q \<in> set followups"
  shows "leads_to (add_root fl query answer score followups state_default) 0 q"
  unfolding root_state
  by (rule add_followups_lead [OF _ _ assms]) (auto simp: drift_wf_def query_of_def action_incomplete_def om_ok_Cons om_keys_def)

lemma explored_root:
  fixes env :: "('f, 'd, 'v) drift_env"
  shows "explored env query answer score (add_root (dx_floats env) query answer score followups state_default)"
proof -
  let ?fl = "dx_floats env"
  let ?st1 = "\<lparr>ds_nodes = [(action_incomplete ?fl 0 query)\<lparr>da_answer := Some answer, da_score := score\<rparr>],
    ds_ids_by_query = [(query, 0)], ds_edges = []\<rparr> :: ('f, 'd query_context) drift_state"
  let ?st = "add_root ?fl query answer score followups state_default :: ('f, 'd query_context) drift_state"
  have grows: "grows ?fl ?st1 ?st" unfolding root_state by (rule add_followups_grows)
  have node: "ds_nodes ?st ! 0 = ds_nodes ?st1 ! 0" using grows_node [OF grows, of 0] by simp
  have len: "1 \<le> length (ds_nodes ?st)" using extends_length [OF grows_extends [OF grows]] by simp
  have new: "untouched ?fl (ds_nodes ?st ! i)" if "0 < i" "i < length (ds_nodes ?st)" for i
    by (rule grows_new_node [OF grows]) (use that in auto)
  have wf: "drift_wf ?st" by (rule add_root_wf [OF drift_wf_default, THEN conjunct1])
  show ?thesis using wf len new by (auto simp: explored_def node action_incomplete_def)
qed

lemma explored_apply:
  assumes inv: "explored env query answer score st" and i: "0 < i" "i < length (ds_nodes st)"
    and call: "run_action env query round (da_query (ds_nodes st ! i)) = Inr (response, metadata)"
  shows "\<exists>st'. state_apply (dx_floats env) i response metadata st = Inr st' \<and> explored env query answer score st' \<and> extends st st'"
proof -
  let ?fl = "dx_floats env"
  let ?f = "\<lambda>a. a\<lparr>da_answer := dr_answer response, da_score := dr_score response, da_metadata := metadata\<rparr>"
  let ?st1 = "set_node i ?f st" and ?qs = "dr_follow_up_queries response"
  let ?st' = "foldl (add_followup ?fl i) ?st1 ?qs"
  have wf: "drift_wf st" using inv by (simp add: explored_def)
  have node: "drift_wf ?st1" "extends st ?st1" "length (ds_nodes ?st1) = length (ds_nodes st)"
    by (rule set_node_wf [OF wf]; simp)+
  have grows: "grows ?fl ?st1 ?st'" by (rule add_followups_grows)
  have ext: "extends st ?st'" by (rule extends_trans [OF node(2) grows_extends [OF grows]])
  have kept: "ds_nodes ?st' ! j = ds_nodes st ! j" if "j \<noteq> i" "j < length (ds_nodes st)" for j
    using grows_node [OF grows, of j] that node(3) by (simp add: set_node_def)
  have at_i: "ds_nodes ?st' ! i = ?f (ds_nodes st ! i)"
    using grows_node [OF grows, of i] i(2) node(3) by (simp add: set_node_def)
  have "leads_to ?st' i q" if "q \<in> set ?qs" for q
    using add_followups_lead [OF node(1) _ that] i(2) node(3) by simp
  then have expl: "explained env query ?st' i" using call by (auto simp: explained_def Let_def at_i)
  have others: "untouched ?fl (ds_nodes ?st' ! j) \<or> explained env query ?st' j"
    if "0 < j" "j < length (ds_nodes ?st')" for j
  proof (cases "j < length (ds_nodes st)")
    case True
    show ?thesis
    proof (cases "j = i")
      case False
      then have "untouched ?fl (ds_nodes st ! j) \<or> explained env query st j" using inv True that(1) by (simp add: explored_def)
      then show ?thesis using kept [OF False True] explained_extends [OF _ kept [OF False True] ext] by auto
    qed (use expl in simp)
  next
    case False
    then show ?thesis using grows_new_node [OF grows _ that(2)] node(3) by simp
  qed
  have "drift_wf ?st'" using add_followups_wf [OF node(1)] i(2) node(3) by simp
  moreover have "ds_nodes ?st' \<noteq> []" using at_i extends_length [OF ext] i(2) by auto
  moreover have "ds_nodes ?st' ! 0 = ds_nodes st ! 0" by (rule kept) (use i in auto)
  ultimately have "explored env query answer score ?st'" using inv others by (simp add: explored_def)
  then show ?thesis using ext i(2) by (simp add: state_apply_def)
qed

lemma explored_apply_results:
  assumes "explored env query answer score st"
    and "list_all2 (\<lambda>i r. 0 < i \<and> i < length (ds_nodes st) \<and> run_action env query round (da_query (ds_nodes st ! i)) = Inr r)
      selected rs"
  shows "\<exists>acc' st'. apply_results (dx_floats env) acc (zip selected rs) st = Inr (acc', st')
    \<and> explored env query answer score st' \<and> extends st st'"
  using assms
proof (induction selected rs arbitrary: acc st rule: list_induct2')
  case (4 i selected r rs)
  obtain response metadata where r: "r = (response, metadata)" by (cases r)
  with "4.prems"(2) have i: "0 < i" "i < length (ds_nodes st)"
    and call: "run_action env query round (da_query (ds_nodes st ! i)) = Inr (response, metadata)" by simp_all
  obtain st1 where st1: "state_apply (dx_floats env) i response metadata st = Inr st1" "explored env query answer score st1" "extends st st1"
    using explored_apply [OF "4.prems"(1) i call] by blast
  have same: "j < length (ds_nodes st1) \<and> da_query (ds_nodes st1 ! j) = da_query (ds_nodes st ! j)" if "j < length (ds_nodes st)" for j
    using extends_query [OF st1(3), of j] that by (auto simp: query_of_def split: if_splits)
  have "list_all2 (\<lambda>i r. 0 < i \<and> i < length (ds_nodes st1) \<and> run_action env query round (da_query (ds_nodes st1 ! i)) = Inr r) selected rs"
    by (rule list_all2_mono [OF "4.prems"(2) [simplified r list_all2_Cons, THEN conjunct2]]) (use same in auto)
  then obtain acc' st' where "apply_results (dx_floats env) (usage_add acc (dm_usage metadata)) (zip selected rs) st1 = Inr (acc', st')"
    "explored env query answer score st'" "extends st1 st'"
    using "4.IH" [OF st1(2)] by blast
  then show ?case using st1(1,3) by (auto simp: r intro: extends_trans)
qed (auto simp: extends_refl)

lemma calls_applied:
  assumes inv: "explored env query answer score st" and sel: "\<forall>i \<in> set selected. 0 < i \<and> i < length (ds_nodes st)"
    and run: "try_buffered_ordered (map (run_action env query n) (map (\<lambda>i. da_query (ds_nodes st ! i)) selected)) c (Inr rs)"
  shows "\<exists>acc' st'. apply_results (dx_floats env) acc (zip selected rs) st = Inr (acc', st')
    \<and> explored env query answer score st' \<and> extends st st'"
proof (rule explored_apply_results [OF inv])
  have "map Inr rs = map (run_action env query n) (map (\<lambda>i. da_query (ds_nodes st ! i)) selected)"
    by (rule try_buffered_ordered_Inr [OF run])
  then show "list_all2 (\<lambda>i r. 0 < i \<and> i < length (ds_nodes st) \<and> run_action env query n (da_query (ds_nodes st ! i)) = Inr r)
      selected rs"
    using sel by (auto simp: list_all2_conv_all_nth list_eq_iff_nth_eq)
qed

context drift_randomness
begin

lemma selected_calls:
  assumes inv: "explored env query answer score st" and sel: "select_actions random limit st rng = (Inr selected, rng')"
  shows "selected_queries st selected = Inr (map (\<lambda>i. da_query (ds_nodes st ! i)) selected)"
    and "\<forall>i \<in> set selected. 0 < i \<and> i < length (ds_nodes st)"
proof -
  have wf: "drift_wf st" using inv by (simp add: explored_def)
  have incomplete: "i < length (ds_nodes st) \<and> da_answer (ds_nodes st ! i) = None" if "i \<in> set selected" for i
  proof -
    have "i \<in> set (incomplete_ids st)" using select_actions_incomplete [OF sel] that by blast
    then obtain a where a: "a \<in> set (ds_nodes st)" "da_answer a = None" "da_id a = i" by (auto simp: incomplete_ids_def)
    then obtain j where "j < length (ds_nodes st)" "ds_nodes st ! j = a" by (auto simp: in_set_conv_nth)
    then show ?thesis using a wf by (auto simp: drift_wf_def)
  qed
  show "\<forall>i \<in> set selected. 0 < i \<and> i < length (ds_nodes st)"
  proof
    fix i assume "i \<in> set selected"
    from incomplete [OF this] show "0 < i \<and> i < length (ds_nodes st)" using inv by (cases "i = 0") (auto simp: explored_def)
  qed
  then show "selected_queries st selected = Inr (map (\<lambda>i. da_query (ds_nodes st ! i)) selected)"
    unfolding selected_queries_def by (intro try_map_total) (simp add: query_of_def)
qed

text \<open>The depth loop fails only with an error of the shuffle or of a call; what it returns is explored.\<close>

lemma run_depths_explored:
  assumes "explored env query answer score st" "run_depths env random query n acc rng st r"
  shows "case r of
      Inl e \<Rightarrow> (\<exists>xs rng rng'. rd_shuffle_actions random xs rng = (Inl e, rng')) \<or> (\<exists>round q. run_action env query round q = Inl e)
    | Inr (acc', st') \<Rightarrow> explored env query answer score st' \<and> extends st st'"
  using assms
proof (induction n arbitrary: acc rng st)
  case (Suc n)
  obtain choice rng1 where sel: "select_actions random (dx_k_followups env) st rng = (choice, rng1)" by fastforce
  show ?case
  proof (cases choice)
    case (Inl e)
    with sel obtain rng2 where "rd_shuffle_actions random (incomplete_ids st) rng = (Inl e, rng2)"
      by (cases "rd_shuffle_actions random (incomplete_ids st) rng"; cases "fst (rd_shuffle_actions random (incomplete_ids st) rng)")
        (auto simp: select_actions_def)
    then show ?thesis using Suc.prems(2) sel Inl by auto
  next
    case (Inr selected)
    note calls = selected_calls [OF Suc.prems(1) sel [unfolded Inr]]
    let ?queries = "map (\<lambda>i. da_query (ds_nodes st ! i)) selected"
    show ?thesis
    proof (cases "selected = []")
      case False
      with Suc.prems(2) sel Inr calls(1) obtain results where
        run: "try_buffered_ordered (map (run_action env query n) ?queries) (dx_concurrency env) results" and
        r: "case and_then results (\<lambda>rs. apply_results (dx_floats env) acc (zip selected rs) st) of
              Inl e \<Rightarrow> r = Inl e | Inr (acc, st) \<Rightarrow> run_depths env random query n acc rng1 st r"
        by auto
      show ?thesis
      proof (cases results)
        case (Inl e)
        then show ?thesis using r try_buffered_ordered_Inl run by force
      next
        case (Inr rs)
        from calls_applied [OF Suc.prems(1) calls(2) run [unfolded Inr]]
        obtain acc' st' where ap: "apply_results (dx_floats env) acc (zip selected rs) st = Inr (acc', st')"
          "explored env query answer score st'" "extends st st'"
          by blast
        then have "run_depths env random query n acc' rng1 st' r" using r Inr by simp
        from Suc.IH [OF ap(2) this] show ?thesis using ap(3) by (auto split: sum.splits intro: extends_trans)
      qed
    qed (use Suc.prems sel Inr extends_refl in auto)
  qed
qed (simp add: extends_refl)

lemma run_depths_returns:
  assumes "explored env query answer score st"
  shows "\<exists>r. run_depths env random query n acc rng st r"
  using assms
proof (induction n arbitrary: acc rng st)
  case 0
  show ?case by (rule exI [of _ "Inr (acc, st)"]) simp
next
  case (Suc n)
  obtain choice rng1 where sel: "select_actions random (dx_k_followups env) st rng = (choice, rng1)" by fastforce
  show ?case
  proof (cases choice)
    case (Inr selected)
    note calls = selected_calls [OF Suc.prems sel [unfolded Inr]]
    let ?queries = "map (\<lambda>i. da_query (ds_nodes st ! i)) selected"
    obtain results where run: "try_buffered_ordered (map (run_action env query n) ?queries) (dx_concurrency env) results"
      using try_buffered_ordered_returns by blast
    have "\<exists>r. case and_then results (\<lambda>rs. apply_results (dx_floats env) acc (zip selected rs) st) of
        Inl e \<Rightarrow> r = Inl e | Inr (acc, st) \<Rightarrow> run_depths env random query n acc rng1 st r"
    proof (cases "and_then results (\<lambda>rs. apply_results (dx_floats env) acc (zip selected rs) st)")
      case (Inr as)
      obtain acc' st' where as: "as = (acc', st')" by fastforce
      obtain rs where rs: "results = Inr rs" "apply_results (dx_floats env) acc (zip selected rs) st = Inr (acc', st')"
        using Inr as by (auto simp: and_then_Inr_iff)
      have "explored env query answer score st'"
        using calls_applied [OF Suc.prems calls(2) run [unfolded rs(1)], of acc] rs(2) by auto
      then show ?thesis using Suc.IH Inr as by simp
    qed simp
    then show ?thesis using sel Inr calls(1) run by (cases "selected = []") auto
  qed (use sel in simp)
qed

end

subsection \<open>Ranking\<close>

text \<open>A report with its similarity to the query.\<close>

definition similarity_to :: "'f reals \<Rightarrow> 'f list \<Rightarrow> 'f community_report \<Rightarrow> 'f" where
  "similarity_to re query report =
     (case rp_full_content_embedding report of
        Some vector \<Rightarrow> re_div re (dot re query vector) (re_mul re (norm re query) (norm re vector)))"

definition as_ranked :: "'f reals \<Rightarrow> 'f list \<Rightarrow> 'f community_report \<Rightarrow> 'f ranked_report" where
  "as_ranked re query report =
     \<lparr>rk_short_id = rp_short_id report, rk_community_id = rp_community_id report,
      rk_full_content = rp_full_content report, rk_similarity = similarity_to re query report\<rparr>"

definition comparable :: "'f reals \<Rightarrow> 'f list \<Rightarrow> 'f community_report \<Rightarrow> bool" where
  "comparable re query report \<longleftrightarrow>
     (\<exists>vector. rp_full_content_embedding report = Some vector \<and> length vector = length query
        \<and> list_all (re_f32_finite re) vector \<and> \<not> re_is_zero re (norm re vector))"

lemma rank_report_Inr:
  "rank_report re query index (i, report) = Inr x \<longleftrightarrow>
     x = (i, as_ranked re query report) \<and> query = query \<and> comparable re query report
       \<and> rp_full_content_embedding report \<noteq> Some []"
  by (cases "rp_full_content_embedding report")
    (auto simp: rank_report_def and_then_Inr_iff validate_document_vector_def as_ranked_def similarity_to_def comparable_def
      list_all_iff)

text \<open>C10: Ranking succeeds exactly when the query and every report have a usable vector of one dimension, and then it
  returns the reports of greatest similarity, best first, reports of equal similarity in their order.\<close>

theorem rank_reports_by_similarity:
  "rank_reports re query reports top_k index = Inr ranked \<longleftrightarrow>
     query \<noteq> [] \<and> list_all (re_f32_finite re) query \<and> \<not> re_is_zero re (norm re query)
     \<and> (\<forall>report \<in> set reports. comparable re query report)
     \<and> ranked = take top_k (sort_key (\<lambda>r. - re_key re (rk_similarity r)) (map (as_ranked re query) reports))"
proof -
  let ?key = "\<lambda>r. - re_key re (rk_similarity r)"
  let ?cmp = "\<lambda>l r. compare (re_key re (rk_similarity r)) (re_key re (rk_similarity l))"
  let ?pairs = "enumerate_from 0 (map (as_ranked re query) reports)"
  have "sorted_wrt (\<lambda>x y. fst x < fst y) (enumerate_from n (map (as_ranked re query) reports))" for n
    by (simp add: sorted_wrt_map [symmetric, of "(<)" fst] map_fst_enumerate_from)
  then have "sorted_wrt (\<lambda>x y. (similarity_desc re x y = Greater) = (?cmp (snd x) (snd y) = Greater)) ?pairs"
    by (rule sorted_wrt_mono_rel [rotated]) (auto simp: similarity_desc_def then_with_def compare_def)
  then have "map snd (sort_by (similarity_desc re) ?pairs) = map snd (sort_by (\<lambda>x y. ?cmp (snd x) (snd y)) ?pairs)"
    by (intro arg_cong [where f = "map snd"] sort_by_cong)
  also have "\<dots> = sort_by ?cmp (map snd ?pairs)" by (rule map_sort_by)
  also have "map snd ?pairs = map (as_ranked re query) reports" by (simp add: enumerate_from_conv)
  also have "sort_by ?cmp (map (as_ranked re query) reports) = sort_key ?key (map (as_ranked re query) reports)"
    by (rule sort_by_key) simp
  finally have sorted: "map snd (sort_by (similarity_desc re) ?pairs) = sort_key ?key (map (as_ranked re query) reports)" .
  have calls: "try_map (rank_report re query index) (enumerate_from n reports) = Inr xs \<longleftrightarrow>
      (\<forall>report \<in> set reports. comparable re query report \<and> rp_full_content_embedding report \<noteq> Some [])
      \<and> xs = enumerate_from n (map (as_ranked re query) reports)" for n xs
    by (induction reports arbitrary: n xs) (auto simp: and_then_Inr_iff rank_report_Inr)
  have "comparable re query report \<and> query \<noteq> [] \<longrightarrow> rp_full_content_embedding report \<noteq> Some []" for report
    by (auto simp: comparable_def)
  then show ?thesis
    by (auto simp: rank_reports_def and_then_Inr_iff validate_query_vector_def list_all_iff calls take_map [symmetric] sorted)
qed

subsection \<open>The reduce context reads back\<close>

definition hex_val :: "char \<Rightarrow> nat" where
  "hex_val c = (let n = of_char c in if n < 58 then n - 48 else n - 87)"

text \<open>A reader of Python string literals, as far as \<open>repr\<close> writes them.\<close>

fun read_python_body :: "char \<Rightarrow> string \<Rightarrow> (string \<times> string) option" where
  "read_python_body quote [] = None"
| "read_python_body quote (c # cs) =
     (if c = quote then Some ([], cs)
      else if c = CHR 0x5C then
        (case cs of
           [] \<Rightarrow> None
         | d # ds \<Rightarrow>
             if d = CHR ''n'' then map_option (apfst ((#) (CHR 0x0A))) (read_python_body quote ds)
             else if d = CHR ''r'' then map_option (apfst ((#) (CHR 0x0D))) (read_python_body quote ds)
             else if d = CHR ''t'' then map_option (apfst ((#) (CHR 0x09))) (read_python_body quote ds)
             else if d = CHR ''x'' then
               (case ds of
                  h # l # rest \<Rightarrow>
                    let n = 16 * hex_val h + hex_val l
                    in map_option (apfst ((@) (if n < 128 then [char_of n] else [CHR 0xC2, char_of n]))) (read_python_body quote rest)
                | _ \<Rightarrow> None)
             else map_option (apfst ((#) d)) (read_python_body quote ds))
      else map_option (apfst ((#) c)) (read_python_body quote cs))"

lemma hex_lower_cases:
  assumes "n < 256"
  shows "\<exists>h l. hex_lower n = [h, l] \<and> 16 * hex_val h + hex_val l = n"
proof -
  have digit: "hex_val (if d < 10 then char_of (48 + d) else char_of (87 + d)) = d" if "d < 16" for d
    using that by (auto simp: hex_val_def Let_def)
  have "n div 16 < 16" "n mod 16 < 16" using assms by auto
  then show ?thesis by (intro exI conjI) (simp add: hex_lower_def, simp add: digit)
qed

lemma read_python_escape:
  assumes "n < 256" "quote = CHR 0x27 \<or> quote = CHR 0x22"
  shows "read_python_body quote (python_escape n @ t)
    = map_option (apfst ((@) (if n < 128 then [char_of n] else [CHR 0xC2, char_of n]))) (read_python_body quote t)"
proof -
  obtain h l where "hex_lower n = [h, l]" "16 * hex_val h + hex_val l = n" using hex_lower_cases [OF assms(1)] by blast
  then show ?thesis using assms(2) by (auto simp: python_escape_def)
qed

lemma read_python_char:
  assumes "quote = CHR 0x27 \<or> quote = CHR 0x22"
  shows "read_python_body quote (python_char quote c @ t) = map_option (apfst ((#) c)) (read_python_body quote t)"
proof (cases "c = CHR 0x5C \<or> c = CHR 0x0A \<or> c = CHR 0x0D \<or> c = CHR 0x09 \<or> c = quote")
  case True
  with assms show ?thesis by (elim disjE) (simp_all add: python_char_def)
next
  case False
  then have special: "c \<noteq> quote" "c \<noteq> CHR 0x5C" by blast+
  from False have plain: "python_char quote c = (if of_char c < (32::nat) \<or> c = CHR 0x7F then python_escape (of_char c) else [c])"
    by (simp add: python_char_def)
  show ?thesis
  proof (cases "of_char c < (32::nat) \<or> c = CHR 0x7F")
    case True
    then have n: "of_char c < (128::nat)" by auto
    have "of_char c < (256::nat)" using n by linarith
    moreover have "(@) [c] = (#) c" by (rule ext) simp
    ultimately show ?thesis using read_python_escape [OF _ assms, of "of_char c" t] True n by (simp add: plain)
  next
    case False
    then have "python_char quote c = [c]" unfolding plain by (rule if_not_P)
    with special show ?thesis by simp
  qed
qed

lemma read_python_body_repr:
  assumes "quote = CHR 0x27 \<or> quote = CHR 0x22"
  shows "read_python_body quote (python_body quote s @ quote # rest) = Some (s, rest)"
  using assms
proof (induction quote s rule: python_body.induct)
  case (2 quote c cs)
  note quote = "2.prems"
  show ?case
  proof (cases cs)
    case Nil
    then show ?thesis using read_python_char [OF quote, of c "quote # rest"] by simp
  next
    case (Cons d ds)
    show ?thesis
    proof (cases "c = CHR 0xC2 \<and> (128::nat) \<le> of_char d \<and> of_char d < (160::nat)")
      case True
      then have "read_python_body quote (python_body quote (c # cs) @ quote # rest)
          = map_option (apfst ((@) [CHR 0xC2, d])) (read_python_body quote (python_body quote ds @ quote # rest))"
        using read_python_escape [of "of_char d" quote "python_body quote ds @ quote # rest"] quote by (simp add: Cons)
      then show ?thesis using "2.IH"(1) [OF Cons True quote] True by (simp add: Cons)
    next
      case False
      then have "python_body quote (c # cs) = python_char quote c @ python_body quote cs" 
        by (simp only: Cons python_body.simps(2) [of quote c "d # ds"] list.case if_not_P [OF False] if_False)
      then show ?thesis using read_python_char [OF quote, of c "python_body quote cs @ quote # rest"] "2.IH"(2) [OF Cons False quote]
        by simp
    qed
  qed
qed simp

lemma read_python_body_shorter: "read_python_body quote s = Some (a, rest) \<Longrightarrow> length rest < length s"
  by (induction quote s arbitrary: a rule: read_python_body.induct)
    (fastforce simp: Let_def split: if_splits list.splits)+

definition read_python_string :: "string \<Rightarrow> (string \<times> string) option" where
  "read_python_string s = (case s of [] \<Rightarrow> None | quote # cs \<Rightarrow> read_python_body quote cs)"

lemma read_python_string_repr: "read_python_string (python_string_repr s @ rest) = Some (s, rest)"
proof -
  have "python_quote s = CHR 0x27 \<or> python_quote s = CHR 0x22" by (simp add: python_quote_def)
  from read_python_body_repr [OF this] show ?thesis by (simp add: read_python_string_def python_string_repr_def)
qed

text \<open>The items of a list, up to its closing bracket.\<close>

function read_python_items :: "string \<Rightarrow> string list option" where
  "read_python_items s =
     (case read_python_string s of
        None \<Rightarrow> None
      | Some (item, rest) \<Rightarrow>
          if rest = '']'' then Some [item]
          else if take 2 rest = '', '' then map_option ((#) item) (read_python_items (drop 2 rest))
          else None)"
  by pat_completeness auto
termination
  by (relation "measure length")
    (auto simp: read_python_string_def split: list.splits dest!: read_python_body_shorter)

declare read_python_items.simps [simp del]

definition read_python_list :: "string \<Rightarrow> string list option" where
  "read_python_list s =
     (if s = ''[]'' then Some [] else if take 1 s = ''['' then read_python_items (drop 1 s) else None)"

lemma read_python_items_join:
  "xs \<noteq> [] \<Longrightarrow> read_python_items (join_with '', '' (map python_string_repr xs) @ '']'') = Some xs"
proof (induction xs)
  case (Cons x xs)
  show ?case
  proof (cases xs)
    case Nil
    then show ?thesis by (subst read_python_items.simps) (simp add: read_python_string_repr)
  next
    case (Cons y ys)
    then have "join_with '', '' (map python_string_repr (x # xs)) @ '']''
        = python_string_repr x @ '', '' @ join_with '', '' (map python_string_repr xs) @ '']''" by simp
    then show ?thesis using Cons Cons.IH by (subst read_python_items.simps) (simp add: read_python_string_repr)
  qed
qed simp

text \<open>C12: The reduce context is the list of the answers as Python writes it: every list of answers reads back from it.\<close>

theorem reduce_context_reads_back: "read_python_list (python_list_repr answers) = Some answers"
proof (cases "answers = []")
  case False
  then obtain x xs where "answers = x # xs" by (cases answers) simp_all
  then have "join_with '', '' (map python_string_repr answers) \<noteq> []" by (cases xs) (simp_all add: python_string_repr_def)
  then show ?thesis using read_python_items_join [OF False] by (auto simp: read_python_list_def python_list_repr_def)
qed (simp add: read_python_list_def python_list_repr_def)

subsection \<open>The stream\<close>

definition drift_stream_config :: "('f, 'd, 'v) drift_env \<Rightarrow> 'd drift_stream_state \<Rightarrow> 'd query_context stream_config" where
  "drift_stream_config env s =
     \<lparr>sc_context = dt_context s, sc_categories = dt_usage s, sc_completion_category = ''reduce'',
      sc_prompt_tokens = dt_prompt_tokens s, sc_completion_model_id = dx_completion_model_id env, sc_method = SearchDrift,
      sc_consume_operation = ''consume DRIFT reduce stream'', sc_output_count_operation = ''count DRIFT reduce output'',
      sc_output_count_is_context_error = True\<rparr>"

text \<open>One step over the provider is the step of the shared completion stream.\<close>

lemma drift_tokens_consume:
  "drift_tokens env s chunks =
     map_prod id (map_option (\<lambda>a. s\<lparr>dt_response := ac_response a, dt_provider := Some (ac_provider a)\<rparr>))
       (consume (dx_count env) (drift_stream_config env s) (dt_response s) chunks)"
  by (induction env s chunks rule: drift_tokens.induct)
    (auto simp: drift_count_def completed_event_def drift_stream_config_def drift_result_def drift_completion_error_def Let_def
      split: sum.splits)

lemma drift_events_tokens:
  assumes "dt_phase s = PhaseTokens" "dt_provider s = Some chunks"
  shows "drift_events env (Some s) =
    map (\<lambda>t. Inr (TokenEvent t)) (provider_tokens chunks)
      @ [final_event (dx_count env) (drift_stream_config env s) (dt_response s) chunks]"
  using assms
proof (induction chunks arbitrary: s rule: length_induct)
  case (1 chunks)
  have step: "next_stream_event env s = drift_tokens env s chunks"
    using "1.prems" by (simp add: next_stream_event_def drift_poll_def)
  have cfg: "drift_stream_config env (s\<lparr>dt_response := r, dt_provider := p\<rparr>) = drift_stream_config env s" for r p
    by (simp add: drift_stream_config_def)
  have "drift_events env (Some s) = (case drift_tokens env s ps of (event, s') \<Rightarrow> event # drift_events env s')
      \<Longrightarrow> length ps \<le> length chunks
      \<Longrightarrow> drift_events env (Some s) = map (\<lambda>t. Inr (TokenEvent t)) (provider_tokens ps)
        @ [final_event (dx_count env) (drift_stream_config env s) (dt_response s) ps]" for ps
  proof (induction ps)
    case Nil
    then show ?case
      by (auto simp: drift_tokens_consume provider_tokens_Cons final_event_Cons drift_events.simps(1))
  next
    case (Cons p ps)
    show ?case
    proof (cases p)
      case (Inl source)
      with Cons.prems(1) show ?thesis
        by (simp add: provider_tokens_Cons final_event_Cons drift_stream_config_def drift_completion_error_def drift_events.simps(1))
    next
      case (Inr content)
      show ?thesis
      proof (cases "content = []")
        case True
        then show ?thesis using Cons Inr by (simp add: provider_tokens_Cons final_event_Cons)
      next
        case False
        let ?s = "s\<lparr>dt_response := dt_response s @ content, dt_provider := Some ps\<rparr>"
        have "drift_events env (Some ?s) = map (\<lambda>t. Inr (TokenEvent t)) (provider_tokens ps)
            @ [final_event (dx_count env) (drift_stream_config env ?s) (dt_response ?s) ps]"
          by (rule "1.IH" [rule_format]) (use "1.prems" Cons.prems(2) in simp_all)
        then show ?thesis using Cons.prems(1) False Inr by (simp add: provider_tokens_Cons final_event_Cons cfg)
      qed
    qed
  qed
  then show ?case using drift_events.simps(2) [of env s] step by simp
qed

lemma reduce_stream_events:
  assumes "reduce_stream env query response_type prepared = Inr events"
  shows "\<exists>tokens final. events = Inr (ContextEvent (dp_context prepared)) # map (\<lambda>t. Inr (TokenEvent t)) tokens @ [final]
     \<and> [] \<notin> set tokens
     \<and> (case final of
          Inl e \<Rightarrow> True
        | Inr event \<Rightarrow> \<exists>prompt_tokens output_tokens. dx_count env (concat tokens) = Inr output_tokens
            \<and> event = CompletedEvent (drift_result (dp_context prepared) (dp_usage prepared) (concat tokens) prompt_tokens output_tokens))"
proof -
  obtain rendered prompt_tokens where
    events: "events = drift_events env (Some \<lparr>dt_request = Some (rendered, query), dt_provider = None, dt_context = dp_context prepared,
         dt_response = [], dt_usage = dp_usage prepared, dt_prompt_tokens = prompt_tokens, dt_phase = PhaseContext\<rparr>)"
    using assms by (auto simp: reduce_stream_def and_then_Inr_iff)
  let ?s = "\<lambda>r p ph. \<lparr>dt_request = r, dt_provider = p, dt_context = dp_context prepared,
         dt_response = [], dt_usage = dp_usage prepared, dt_prompt_tokens = prompt_tokens, dt_phase = ph\<rparr>"
  have start: "events = Inr (ContextEvent (dp_context prepared)) # drift_events env (Some (?s (Some (rendered, query)) None PhaseStart))"
    unfolding events by (simp add: drift_events.simps(2) next_stream_event_def)
  show ?thesis
  proof (cases "dx_stream_reduce env rendered query")
    case (Inl source)
    then have "events = Inr (ContextEvent (dp_context prepared)) # map (\<lambda>t. Inr (TokenEvent t)) []
        @ [Inl (drift_completion_error env ''start DRIFT reduce stream'' source)]"
      unfolding start by (simp add: drift_events.simps next_stream_event_def)
    then show ?thesis by (intro exI conjI) auto
  next
    case (Inr chunks)
    let ?t = "?s None (Some chunks) PhaseTokens"
    have "drift_events env (Some (?s (Some (rendered, query)) None PhaseStart)) = drift_events env (Some ?t)"
      using Inr by (simp add: drift_events.simps(2) next_stream_event_def)
    also have "\<dots> = map (\<lambda>t. Inr (TokenEvent t)) (provider_tokens chunks)
        @ [final_event (dx_count env) (drift_stream_config env ?t) [] chunks]"
      by (subst drift_events_tokens) simp_all
    finally have body: "events = Inr (ContextEvent (dp_context prepared)) # map (\<lambda>t. Inr (TokenEvent t)) (provider_tokens chunks)
        @ [final_event (dx_count env) (drift_stream_config env ?t) [] chunks]"
      unfolding start by simp
    moreover have "case final_event (dx_count env) (drift_stream_config env ?t) [] chunks of
          Inl e \<Rightarrow> True
        | Inr event \<Rightarrow> \<exists>prompt_tokens output_tokens. dx_count env (concat (provider_tokens chunks)) = Inr output_tokens
            \<and> event = CompletedEvent (drift_result (dp_context prepared) (dp_usage prepared) (concat (provider_tokens chunks))
                 prompt_tokens output_tokens)"
      by (auto simp: final_event_def completed_event_def drift_stream_config_def drift_result_def Let_def split: list.splits sum.splits)
    moreover have "[] \<notin> set (provider_tokens chunks)" by (simp add: provider_tokens_def)
    ultimately show ?thesis by blast
  qed
qed

text \<open>Whatever a streaming DRIFT search returns, its stream is the context, then the non-empty tokens, then
  exactly one final event; when that is the result, its answer is the tokens put together, its context the one announced,
  and its usage counts the reduce call beside those of the preparation.\<close>

theorem drift_stream_protocol:
  assumes "drift_search_streaming env random reports query response_type rng (Inr events)"
  shows "\<exists>prepared tokens final. drift_prepare env random reports query rng (Inr prepared)
     \<and> events = Inr (ContextEvent (dp_context prepared)) # map (\<lambda>t. Inr (TokenEvent t)) tokens @ [final]
     \<and> [] \<notin> set tokens
     \<and> (case final of
          Inl e \<Rightarrow> True
        | Inr event \<Rightarrow> \<exists>prompt_tokens output_tokens. dx_count env (concat tokens) = Inr output_tokens
            \<and> event = CompletedEvent (drift_result (dp_context prepared) (dp_usage prepared) (concat tokens) prompt_tokens output_tokens))"
proof -
  obtain p where "drift_prepare env random reports query rng p" "Inr events = and_then p (reduce_stream env query response_type)"
    using assms by (auto simp: drift_search_streaming_def split: sum.splits)
  then obtain prepared where "drift_prepare env random reports query rng (Inr prepared)"
    "reduce_stream env query response_type prepared = Inr events"
    by (cases p) auto
  with reduce_stream_events [OF this(2)] show ?thesis by blast
qed

subsection \<open>The search\<close>

lemma map_of_btree: "distinct (map fst entries) \<Longrightarrow> map_of (btree entries) = map_of entries"
proof -
  have "om_ok m \<Longrightarrow> distinct (map fst entries) \<Longrightarrow> om_ok (foldl (\<lambda>m (k, v). om_insert k v m) m entries)
      \<and> map_of (foldl (\<lambda>m (k, v). om_insert k v m) m entries) = map_of m ++ map_of entries" for m
  proof (induction entries arbitrary: m)
    case (Cons e entries)
    obtain k v where e: "e = (k, v)" by (cases e)
    have "om_ok (om_insert k v m)" using Cons.prems by simp
    moreover have "map_of entries k = None" using Cons.prems by (simp add: e map_of_eq_None_iff)
    ultimately show ?case using Cons.IH [of "om_insert k v m"] Cons.prems
      by (auto simp: e fun_eq_iff map_add_def split: option.splits)
  qed simp
  from this [of "[]"] show "distinct (map fst entries) \<Longrightarrow> map_of (btree entries) = map_of entries" by (simp add: btree_def)
qed

definition composite_part :: "string \<Rightarrow> 'd query_context \<Rightarrow> context_text option" where
  "composite_part name c = (case qc_text c of TextComposite parts \<Rightarrow> map_of parts name | _ \<Rightarrow> None)"

lemma finish_prepare_parts:
  assumes "finish_prepare env ranked build_usage primer action_usage st = Inr prepared"
  shows "\<exists>state_context. state_to_json env st = Inr state_context
     \<and> composite_part ''state'' (dp_context prepared) = Some (Text state_context)
     \<and> composite_part ''reduce'' (dp_context prepared) = Some (Text (python_list_repr (reduce_answers st)))
     \<and> dp_reduce_context prepared = python_list_repr (reduce_answers st)
     \<and> map_of (dp_usage prepared) ''action'' = Some action_usage"
  using assms
  by (auto simp: finish_prepare_def build_query_context_def and_then_Inr_iff Let_def composite_part_def map_of_btree)

context drift_randomness
begin

lemma prepare_explored:
  assumes "drift_prepare env random reports query rng (Inr prepared)"
  shows "\<exists>ranked build_usage rng1 primer st action_usage.
     build_ranked_context env random reports query rng = (Inr (ranked, build_usage), rng1)
     \<and> run_primer env ranked query (Inr primer)
     \<and> explored env query (pa_answer primer) (pa_score primer) st
     \<and> (\<forall>q \<in> set (pa_followups primer). leads_to st 0 q)
     \<and> finish_prepare env ranked build_usage primer action_usage st = Inr prepared"
proof -
  obtain ranked build_usage rng1 where build: "build_ranked_context env random reports query rng = (Inr (ranked, build_usage), rng1)"
    using assms by (auto simp: drift_prepare_def split: prod.splits sum.splits)
  obtain p where "run_primer env ranked query p" and p: "case p of
       Inl e \<Rightarrow> Inr prepared = Inl e
     | Inr p \<Rightarrow>
         \<exists>depths. run_depths env random query (dx_n_depth env) usage_default rng1
             (add_root (dx_floats env) query (pa_answer p) (pa_score p) (pa_followups p) state_default) depths
           \<and> Inr prepared = and_then depths (\<lambda>(action_usage, st). finish_prepare env ranked build_usage p action_usage st)"
    using assms build unfolding drift_prepare_def by auto
  then obtain primer depths where primer: "run_primer env ranked query (Inr primer)"
    and depths: "run_depths env random query (dx_n_depth env) usage_default rng1
       (add_root (dx_floats env) query (pa_answer primer) (pa_score primer) (pa_followups primer) state_default) depths"
    and prepared: "and_then depths (\<lambda>(action_usage, st). finish_prepare env ranked build_usage primer action_usage st) = Inr prepared"
    by (cases p) (auto dest: sym)
  let ?root = "add_root (dx_floats env) query (pa_answer primer) (pa_score primer) (pa_followups primer) state_default"
  obtain action_usage st where st: "depths = Inr (action_usage, st)"
    and finish: "finish_prepare env ranked build_usage primer action_usage st = Inr prepared"
    using prepared by (auto simp: and_then_Inr_iff)
  have root: "explored env query (pa_answer primer) (pa_score primer) ?root" by (rule explored_root)
  have "explored env query (pa_answer primer) (pa_score primer) st" "extends ?root st"
    using run_depths_explored [OF root depths] st by simp_all
  moreover have "leads_to ?root 0 q" if "q \<in> set (pa_followups primer)" for q
    by (rule root_leads [OF that])
  ultimately show ?thesis using build primer finish leads_to_extends by blast
qed

end


text \<open>C4: Whatever DRIFT search returns, with any randomness that chooses in range and only reorders: behind the answer is
  a well-formed graph whose first node is the query with the primer's answer, linked to the primer's follow-ups; every other
  node is untouched or holds exactly what a local call for its own query gave, and leads to all the follow-ups of that
  call; the context holds this graph and, as the text to reduce, its answers.\<close>

theorem drift_search_explored:
  assumes "drift_randomness random" and "drift_search env random reports query response_type rng (Inr result)"
  shows "\<exists>ranked build_usage rng1 primer st.
     build_ranked_context env random reports query rng = (Inr (ranked, build_usage), rng1)
     \<and> run_primer env ranked query (Inr primer)
     \<and> explored env query (pa_answer primer) (pa_score primer) st \<and> distinct (map da_query (ds_nodes st))
     \<and> (\<forall>q \<in> set (pa_followups primer). leads_to st 0 q)
     \<and> (\<exists>state_context. state_to_json env st = Inr state_context
          \<and> composite_part ''state'' (qr_context result) = Some (Text state_context))
     \<and> composite_part ''reduce'' (qr_context result) = Some (Text (python_list_repr (reduce_answers st)))"
proof -
  obtain p where "drift_prepare env random reports query rng p" "Inr result = and_then p (reduce_answer env query response_type)"
    using assms(2) by (auto simp: drift_search_def split: sum.splits)
  then obtain prepared where prepared: "drift_prepare env random reports query rng (Inr prepared)"
    and answer: "reduce_answer env query response_type prepared = Inr result"
    by (cases p) auto
  from answer have "qr_context result = dp_context prepared"
    by (auto simp: reduce_answer_def and_then_Inr_iff drift_result_def)
  moreover obtain ranked build_usage rng1 primer st action_usage where
    "build_ranked_context env random reports query rng = (Inr (ranked, build_usage), rng1)"
    "run_primer env ranked query (Inr primer)" "explored env query (pa_answer primer) (pa_score primer) st"
    "\<forall>q \<in> set (pa_followups primer). leads_to st 0 q"
    "finish_prepare env ranked build_usage primer action_usage st = Inr prepared"
    using drift_randomness.prepare_explored [OF assms(1) prepared] by blast
  moreover note finish_prepare_parts [OF this(5)]
  moreover have "distinct (map da_query (ds_nodes st))"
    using calculation(4) by (intro drift_wf_graph) (simp add: explored_def)
  ultimately show ?thesis by auto
qed

subsection \<open>A sample search\<close>

definition sample_reals :: "int reals" where
  "sample_reals = \<lparr>re_f32_finite = (\<lambda>_. True), re_of_f32 = id, re_sum_start = 0, re_add = (+), re_mul = (*), re_div = (\<lambda>a b. a div b),
     re_square = (\<lambda>x. x * x), re_sqrt = id, re_is_zero = (\<lambda>x. x = 0), re_key = id, re_of_i64 = id, re_show = int_to_dec\<rparr>"

definition sample_drift_serde :: "int serde" where
  "sample_drift_serde = sample_serde\<lparr>sd_from_str := (\<lambda>_. Some (JObject
     [(''intermediate_answer'', JString ''p''), (''response'', JString ''a''), (''score'', JNumber (NInt 5)),
      (''follow_up_queries'', JArray [JString ''''])]))\<rparr>"

definition sample_drift :: "(int, unit, unit) drift_env" where
  "sample_drift = \<lparr>dx_local = sample_local, dx_local_data = sample_local_data, dx_floats = sample_floats, dx_reals = sample_reals,
     dx_serde = sample_drift_serde, dx_regexes = \<lparr>rx_bare_key = id, rx_trailing_comma = id\<rparr>, dx_debug = id, dx_message = (\<lambda>_. ''''),
     dx_to_json = (\<lambda>_. Inr ''{}''), dx_count = (\<lambda>_. Inr 1), dx_csv = (\<lambda>rows. Inr (concat (map delimited_record rows))),
     dx_frames = \<lparr>fr_empty = (), fr_new = (\<lambda>_ _. Inr ())\<rparr>, dx_get_by_id = (\<lambda>_. Inr (Some [2])), dx_index_name = ''i'',
     dx_completion_model_id = ''m'', dx_embedding_model_id = ''e'', dx_concurrency = 2, dx_k_followups = 3, dx_primer_folds = 1,
     dx_n_depth = 1, dx_primer_prompt = ''{query} {community_reports}'', dx_local_prompt = (\<lambda>s _ _ _. Inr s),
     dx_reduce_prompt = (\<lambda>s _. Inr s), dx_hyde_request = (\<lambda>_. Inr ()), dx_primer_request = (\<lambda>_. Inr ()),
     dx_local_request = (\<lambda>_ _. Inr ()), dx_reduce_request = (\<lambda>_ _ _. Inr ()), dx_complete_hyde = (\<lambda>_. Inr (Some ''h'')),
     dx_embed = (\<lambda>_. Inr (0, [[1]])), dx_complete_primer = (\<lambda>_ _. CompletionContent ''{}''),
     dx_stream_local = (\<lambda>_ _ _. Inr [Inr ''{'', Inr ''}'']), dx_complete_reduce = (\<lambda>_ _. CompletionContent ''done''),
     dx_stream_reduce = (\<lambda>_ _. Inr [Inr ''do'', Inr '''', Inr ''ne''])\<rparr>"

definition sample_drift_reports :: "int community_report list" where
  "sample_drift_reports = [\<lparr>rp_id = ''r'', rp_short_id = ''0'', rp_community_id = ''0'', rp_title = ''t'', rp_summary = ''s'',
     rp_full_content = ''f'', rp_rank = None, rp_full_content_embedding = Some [2]\<rparr>]"

definition sample_script :: scripted_drift_random where
  "sample_script = \<lparr>sr_report_indices = [0], sr_action_orders = [[0]]\<rparr>"

definition sample_ranked_reports :: "int ranked_report list" where
  "sample_ranked_reports = [\<lparr>rk_short_id = ''0'', rk_community_id = ''0'', rk_full_content = ''f'', rk_similarity = 0\<rparr>]"

lemma sample_ranked_context:
  "build_ranked_context sample_drift scripted_random sample_drift_reports ''q'' sample_script =
     (Inr (sample_ranked_reports, \<lparr>us_llm_calls = 2, us_prompt_tokens = 2, us_output_tokens = 1\<rparr>), sample_script\<lparr>sr_report_indices := []\<rparr>)"
  by (simp add: build_ranked_context_def scripted_random_def scripted_choose_report_def sample_script_def sample_drift_reports_def
      nth_opt_def expand_query_def embed_expanded_def drift_count_def sample_drift_def rank_reports_def rank_report_def
      validate_query_vector_def validate_document_vector_def sample_reals_def norm_def dot_def sort_by_def sample_ranked_reports_def
      usage_add_def usize_sat_add_def usize_max_def)

lemma sample_fold: "run_fold sample_drift ''q'' (0, sample_ranked_reports) =
    Inr (\<lparr>pr_intermediate_answer = ''p'', pr_score = 5, pr_follow_up_queries = ['''']\<rparr>,
      \<lparr>us_llm_calls = 1, us_prompt_tokens = 1, us_output_tokens = 1\<rparr>)"
  by code_simp

lemma sample_action_parse:
  "parse_action (dx_serde sample_drift) (dx_regexes sample_drift) (dx_floats sample_drift) (dx_debug sample_drift) ''{}'' =
     Inr \<lparr>dr_answer = Some ''a'', dr_score = 5, dr_follow_up_queries = ['''']\<rparr>"
  by code_simp

lemma sample_action:
  "\<exists>metadata. run_action sample_drift ''q'' round '''' =
     Inr (\<lparr>dr_answer = Some ''a'', dr_score = 5, dr_follow_up_queries = ['''']\<rparr>, metadata)"
proof -
  obtain b where b: "build_with_entity_filters sample_local sample_local_data False '''' None [] [] = Inr b"
    using sample_built [of False] by (auto simp: is_ok_iff)
  then obtain s where s: "qc_text (lb_context b) = Text s"
    by (auto simp: build_with_entity_filters_def and_then_Inr_iff split: prod.splits)
  have "dx_local sample_drift = sample_local" "dx_local_data sample_drift = sample_local_data"
    "dx_local_prompt sample_drift a r g k = Inr a" "dx_count sample_drift s' = Inr 1"
    "dx_local_request sample_drift m q = Inr ()" "dx_stream_local sample_drift n m q = Inr [Inr ''{'', Inr ''}'']" for a r g k s' m q n
    by (simp_all add: sample_drift_def)
  with b s sample_action_parse show ?thesis by (simp add: run_action_def drift_count_def)
qed

definition sample_primer :: "int primer_aggregate" where
  "sample_primer = \<lparr>pa_answer = ''p'', pa_score = 5, pa_followups = [''''],
     pa_usage = \<lparr>us_llm_calls = 1, us_prompt_tokens = 1, us_output_tokens = 1\<rparr>\<rparr>"

lemma sample_run_primer: "run_primer sample_drift sample_ranked_reports ''q'' (Inr sample_primer)"
proof -
  let ?r = "(\<lparr>pr_intermediate_answer = ''p'', pr_score = 5, pr_follow_up_queries = ['''']\<rparr>,
      \<lparr>us_llm_calls = 1, us_prompt_tokens = 1, us_output_tokens = 1\<rparr>)"
  have "array_split sample_ranked_reports (effective_primer_folds sample_drift) = [sample_ranked_reports]"
    by (simp add: array_split_def effective_primer_folds_def sample_drift_def sample_ranked_reports_def Let_def usize_sat_add_def usize_max_def)
  then have "map (run_fold sample_drift ''q'') (enumerate_from 0 (array_split sample_ranked_reports (effective_primer_folds sample_drift)))
      = map Inr [?r]"
    by (simp add: sample_fold)
  moreover have "aggregate_primer (dx_reals sample_drift) [?r] = Inr sample_primer"
    by (simp add: aggregate_primer_def sample_drift_def sample_reals_def sample_primer_def usage_add_def usage_default_def
        usize_sat_add_def usize_max_def)
  ultimately show ?thesis
    unfolding run_primer_def
    by (intro exI [of _ "Inr [?r]"]) (simp only: try_buffered_ordered_values and_then.simps simp_thms)
qed

lemma sample_drift_fields:
  "dx_floats sample_drift = sample_floats" "dx_reals sample_drift = sample_reals" "dx_k_followups sample_drift = 3"
  "dx_concurrency sample_drift = 2" "dx_n_depth sample_drift = 1" "dx_to_json sample_drift j = Inr ''{}''"
  "dx_count sample_drift s = Inr 1" "dx_csv sample_drift rows = Inr (concat (map delimited_record rows))"
  "fr_new (dx_frames sample_drift) n cols = Inr ()" "dx_reduce_prompt sample_drift s t = Inr s"
  "dx_reduce_request sample_drift b s t = Inr ()" "dx_complete_reduce sample_drift s t = CompletionContent ''done''"
  "dx_stream_reduce sample_drift s t = Inr [Inr ''do'', Inr [], Inr ''ne'']"
  by (simp_all add: sample_drift_def)

lemma sample_depths:
  "\<exists>usage st. run_depths sample_drift scripted_random ''q'' 1 usage_default (sample_script\<lparr>sr_report_indices := []\<rparr>)
     (add_root sample_floats ''q'' ''p'' 5 [[]] state_default) (Inr (usage, st))"
proof -
  let ?st = "add_root sample_floats ''q'' ''p'' 5 [[]] state_default :: (int, unit query_context) drift_state"
  let ?r = "\<lparr>dr_answer = Some ''a'', dr_score = 5, dr_follow_up_queries = [[]]\<rparr> :: int drift_response"
  obtain metadata where action: "run_action sample_drift ''q'' 0 [] = Inr (?r, metadata)"
    using sample_action by blast
  have st: "?st = \<lparr>ds_nodes = [(action_incomplete sample_floats 0 ''q'')\<lparr>da_answer := Some ''p'', da_score := 5\<rparr>, action_incomplete sample_floats 1 []],
      ds_ids_by_query = [([], 1), (''q'', 0)], ds_edges = [\<lparr>de_source = 0, de_target = 1, de_weight = 1\<rparr>]\<rparr>"
    by (simp add: root_state add_followup_def add_or_get_def Let_def) (simp add: sample_floats_def)
  have sel: "select_actions scripted_random 3 ?st (sample_script\<lparr>sr_report_indices := []\<rparr>)
      = (Inr [1], \<lparr>sr_report_indices = [], sr_action_orders = []\<rparr>)"
    unfolding st by (simp add: select_actions_def scripted_random_def scripted_shuffle_actions_def sample_script_def incomplete_ids_def
        action_incomplete_def)
  have queries: "selected_queries ?st [1] = Inr [[]]"
    unfolding st by (simp add: selected_queries_def query_of_def action_incomplete_def)
  obtain acc' st' where ap: "apply_results sample_floats usage_default (zip [1] [(?r, metadata)]) ?st = Inr (acc', st')"
    unfolding st by (simp add: state_apply_def)
  have run: "try_buffered_ordered [run_action sample_drift ''q'' 0 []] 2 (Inr [(?r, metadata)])"
    using try_buffered_ordered_values [of "[(?r, metadata)]" 2] by (simp add: action)
  have "run_depths sample_drift scripted_random ''q'' (Suc 0) usage_default (sample_script\<lparr>sr_report_indices := []\<rparr>) ?st (Inr (acc', st'))"
    unfolding run_depths.simps sample_drift_fields sel prod.case sum.case queries list.map
    using run ap by (intro if_not_P [THEN iffD2] exI [of _ "Inr [(?r, metadata)]"]) auto
  then show ?thesis unfolding One_nat_def by blast
qed

lemma sample_prepares: "\<exists>prepared. drift_prepare sample_drift scripted_random sample_drift_reports ''q'' sample_script (Inr prepared)"
proof -
  obtain usage st where st: "run_depths sample_drift scripted_random ''q'' 1 usage_default (sample_script\<lparr>sr_report_indices := []\<rparr>)
     (add_root sample_floats ''q'' ''p'' 5 [[]] state_default) (Inr (usage, st))"
    using sample_depths by blast
  let ?u = "\<lparr>us_llm_calls = 2, us_prompt_tokens = 2, us_output_tokens = 1\<rparr>"
  have "is_ok (to_dataframe (dx_frames sample_drift) SearchDrift op (context_table_new columns rows))"
    if "\<forall>row \<in> set rows. length row = length columns" for op columns rows
    using that by (rule is_ok_to_dataframe) (simp add: sample_drift_fields)
  then have "is_ok (finish_prepare sample_drift sample_ranked_reports ?u sample_primer usage st)"
    unfolding finish_prepare_def build_query_context_def Let_def state_to_json_def primer_table_def ranking_table_def node_table_def
      edge_table_def aggregate_table_def sample_drift_fields map_err.simps and_then.simps
    by (intro is_ok_bind)
      (auto simp: render_csv_def sample_drift_fields is_ok_map_err validate_rows_Inr is_ok_iff [of "validate_rows _ _ _"] context_table_new_def
        intro!: is_ok_bind)
  then obtain prepared where "finish_prepare sample_drift sample_ranked_reports ?u sample_primer usage st = Inr prepared"
    by (auto simp: is_ok_iff)
  moreover have "pa_answer sample_primer = ''p''" "pa_score sample_primer = 5" "pa_followups sample_primer = [[]]"
    by (simp_all add: sample_primer_def)
  note fields = sample_drift_fields this
  have "run_depths sample_drift scripted_random ''q'' (dx_n_depth sample_drift) usage_default (sample_script\<lparr>sr_report_indices := []\<rparr>)
     (add_root (dx_floats sample_drift) ''q'' (pa_answer sample_primer) (pa_score sample_primer) (pa_followups sample_primer) state_default)
     (Inr (usage, st))"
    unfolding fields by (rule st)
  ultimately show ?thesis
    unfolding drift_prepare_def sample_ranked_context prod.case sum.case
    by (intro exI [of _ prepared] exI [of _ "Inr sample_primer"] conjI sample_run_primer)
      (simp only: sum.case, intro exI [of _ "Inr (usage, st)"] conjI, assumption, simp)
qed

theorem drift_search_explored_witness:
  "\<exists>result (primer :: int primer_aggregate) st. drift_search sample_drift scripted_random sample_drift_reports ''q'' ''text'' sample_script (Inr result)
     \<and> qr_response result = ''done'' \<and> explored sample_drift ''q'' (pa_answer primer) (pa_score primer) st
     \<and> composite_part ''reduce'' (qr_context result) = Some (Text (python_list_repr (reduce_answers st)))"
proof -
  obtain prepared where "drift_prepare sample_drift scripted_random sample_drift_reports ''q'' sample_script (Inr prepared)"
    using sample_prepares by blast
  moreover obtain result where "reduce_answer sample_drift ''q'' ''text'' prepared = Inr result" and answer: "qr_response result = ''done''"
    by (simp add: reduce_answer_def reduce_call_def render_reduce_def drift_count_def sample_drift_fields read_completion_def
        drift_result_def)
  ultimately have result: "drift_search sample_drift scripted_random sample_drift_reports ''q'' ''text'' sample_script (Inr result)"
    by (auto simp: drift_search_def validate_query_def intro!: exI [of _ "Inr prepared"])
  obtain primer :: "int primer_aggregate" and st :: "(int, unit query_context) drift_state" where
    "explored sample_drift ''q'' (pa_answer primer) (pa_score primer) st"
    "composite_part ''reduce'' (qr_context result) = Some (Text (python_list_repr (reduce_answers st)))"
    using drift_search_explored [OF scripted.drift_randomness_axioms result] by (elim exE conjE)
  with result answer show ?thesis by (intro exI [of _ result] exI [of _ primer] exI [of _ st] conjI)
qed

theorem drift_stream_protocol_witness:
  "\<exists>events (prepared :: unit drift_prepared) tokens final.
     drift_search_streaming sample_drift scripted_random sample_drift_reports ''q'' ''text'' sample_script (Inr events)
     \<and> events = Inr (ContextEvent (dp_context prepared)) # map (\<lambda>t. Inr (TokenEvent t)) tokens @ [final] \<and> [] \<notin> set tokens"
proof -
  obtain prepared where "drift_prepare sample_drift scripted_random sample_drift_reports ''q'' sample_script (Inr prepared)"
    using sample_prepares by blast
  moreover obtain events where "reduce_stream sample_drift ''q'' ''text'' prepared = Inr events"
    by (simp add: reduce_stream_def reduce_call_def render_reduce_def drift_count_def sample_drift_fields)
  ultimately have "drift_search_streaming sample_drift scripted_random sample_drift_reports ''q'' ''text'' sample_script (Inr events)"
    by (auto simp: drift_search_streaming_def validate_query_def intro!: exI [of _ "Inr prepared"])
  note streamed = this
  obtain prepared :: "unit drift_prepared" and tokens final where "events = Inr (ContextEvent (dp_context prepared)) # map (\<lambda>t. Inr (TokenEvent t)) tokens @ [final]"
    "[] \<notin> set tokens"
    using drift_stream_protocol [OF streamed] by (elim exE conjE)
  with streamed show ?thesis
    by (intro exI [of _ events] exI [of _ prepared] exI [of _ tokens] exI [of _ final] conjI)
qed

text \<open>Two of three reports, with the product of the vectors for the similarity.\<close>

theorem rank_reports_by_similarity_witness:
  "\<exists>ranked. rank_reports (sample_reals\<lparr>re_div := (\<lambda>a b. a)\<rparr>) [1]
     (map (\<lambda>(i, v). (sample_drift_reports ! 0)\<lparr>rp_short_id := i, rp_full_content_embedding := Some [v]\<rparr>) [(''0'', 2), (''1'', 3), (''2'', 2)])
     2 ''i'' = Inr ranked \<and> map rk_short_id ranked = [''1'', ''0'']"
  unfolding rank_reports_by_similarity
  by (simp add: comparable_def as_ranked_def similarity_to_def sample_drift_reports_def sample_reals_def norm_def dot_def)

end
