(* ===== verification/Global_Search_Laws.thy ===== *)
theory Global_Search_Laws
  imports Global_Search
begin

text \<open>
  What Global Search guarantees: the reduce context is the longest affordable prefix of the points by
  score, its evidence passes the event contract, and the answer follows the stream protocol.
\<close>

subsection \<open>The points chosen\<close>

definition point_cost :: "(string \<Rightarrow> query_error + usize) \<Rightarrow> ranked_point \<Rightarrow> usize" where
  "point_cost cnt p = (case cnt (point_text p) of Inl e \<Rightarrow> 0 | Inr n \<Rightarrow> n)"

definition points_cost :: "(string \<Rightarrow> query_error + usize) \<Rightarrow> usize \<Rightarrow> ranked_point list \<Rightarrow> usize" where
  "points_cost cnt start ps = foldl (\<lambda>t p. usize_sat_add t (point_cost cnt p)) start ps"

lemma select_points_prefix:
  "select_points cnt n positions st ps = Inr st' \<Longrightarrow> \<exists>k \<le> length ps.
     sx_selected st' = sx_selected st @ map point_text (take k ps)
     \<and> sx_decisions st' = foldl (\<lambda>ds p. mark_selected positions (fst p) ds) (sx_decisions st) (take k ps)
     \<and> sx_tokens st' = points_cost cnt (sx_tokens st) (take k ps)
     \<and> (sx_tokens st \<le> n \<longrightarrow> sx_tokens st' \<le> n)
     \<and> (k < length ps \<longrightarrow> sx_truncated st' \<and> n < points_cost cnt (sx_tokens st) (take (Suc k) ps))
     \<and> (k = length ps \<longrightarrow> sx_truncated st' = sx_truncated st)"
proof (induction ps arbitrary: st)
  case Nil
  then show ?case by (simp add: points_cost_def)
next
  case (Cons p ps)
  then obtain m where m: "cnt (point_text p) = Inr m"
    and rest: "(if n < usize_sat_add (sx_tokens st) m then Inr (st\<lparr>sx_truncated := True\<rparr>)
       else select_points cnt n positions
         (st\<lparr>sx_tokens := usize_sat_add (sx_tokens st) m,
             sx_decisions := mark_selected positions (fst p) (sx_decisions st),
             sx_selected := sx_selected st @ [point_text p]\<rparr>) ps) = Inr st'"
    by (auto simp: and_then_Inr_iff)
  have cost: "point_cost cnt p = m" by (simp add: point_cost_def m)
  show ?case
  proof (cases "n < usize_sat_add (sx_tokens st) m")
    case True
    then show ?thesis using rest by (intro exI [of _ 0]) (auto simp: points_cost_def cost)
  next
    case False
    then have "select_points cnt n positions
         (st\<lparr>sx_tokens := usize_sat_add (sx_tokens st) m,
             sx_decisions := mark_selected positions (fst p) (sx_decisions st),
             sx_selected := sx_selected st @ [point_text p]\<rparr>) ps = Inr st'" using rest by simp
    from Cons.IH [OF this] have "\<exists>k \<le> length ps.
       sx_selected st' = sx_selected st @ point_text p # map point_text (take k ps)
     \<and> sx_decisions st' = foldl (\<lambda>ds p. mark_selected positions (fst p) ds) (mark_selected positions (fst p) (sx_decisions st)) (take k ps)
     \<and> sx_tokens st' = points_cost cnt (usize_sat_add (sx_tokens st) m) (take k ps)
     \<and> (usize_sat_add (sx_tokens st) m \<le> n \<longrightarrow> sx_tokens st' \<le> n)
     \<and> (k < length ps \<longrightarrow> sx_truncated st' \<and> n < points_cost cnt (usize_sat_add (sx_tokens st) m) (take (Suc k) ps))
     \<and> (k = length ps \<longrightarrow> sx_truncated st' = sx_truncated st)" by simp
    then obtain k where "k \<le> length ps"
      "sx_selected st' = sx_selected st @ point_text p # map point_text (take k ps)"
      "sx_decisions st' = foldl (\<lambda>ds p. mark_selected positions (fst p) ds) (mark_selected positions (fst p) (sx_decisions st)) (take k ps)"
      "sx_tokens st' = points_cost cnt (usize_sat_add (sx_tokens st) m) (take k ps)"
      "usize_sat_add (sx_tokens st) m \<le> n \<longrightarrow> sx_tokens st' \<le> n"
      "k < length ps \<longrightarrow> sx_truncated st' \<and> n < points_cost cnt (usize_sat_add (sx_tokens st) m) (take (Suc k) ps)"
      "k = length ps \<longrightarrow> sx_truncated st' = sx_truncated st" by blast
    then show ?thesis using False by (intro exI [of _ "Suc k"]) (auto simp: points_cost_def cost)
  qed
qed

text \<open>C23: The reduce context: the positive points of all map calls, best score first and otherwise in order, are taken
  as long as they fit the token budget; the text joins exactly those, the counts are theirs, and the
  context is truncated exactly when a positive point was left out, the first of which would not have fit.\<close>

theorem reduce_context_best_points:
  assumes "build_reduce_context cnt outputs max_tokens capture capture_content = Inr r"
  shows "let ps = sort_key (\<lambda>p. - map_point.mp_score (snd p)) (positive_points outputs) in \<exists>k \<le> length ps.
     rx_text r = join_with [CHR 0x0A, CHR 0x0A] (map point_text (take k ps))
     \<and> rx_selected_count r = k \<and> rx_positive_count r = length ps \<and> (rx_has_positive_points r \<longleftrightarrow> ps \<noteq> [])
     \<and> rx_tokens_used r = points_cost cnt 0 (take k ps) \<and> rx_tokens_used r \<le> max_tokens
     \<and> (rx_truncated r \<longleftrightarrow> k < length ps)
     \<and> (k < length ps \<longrightarrow> max_tokens < points_cost cnt 0 (take (Suc k) ps))"
proof -
  let ?ps = "sort_by score_desc (positive_points outputs)"
  let ?ds = "if capture then initial_decisions capture_content outputs else []"
  obtain st where st: "select_points cnt max_tokens (decision_positions ?ds)
      \<lparr>sx_selected = [], sx_tokens = 0, sx_truncated = False, sx_decisions = ?ds\<rparr> ?ps = Inr st"
    and r: "r = \<lparr>rx_text = join_with [CHR 0x0A, CHR 0x0A] (sx_selected st), rx_has_positive_points = ?ps \<noteq> [],
             rx_candidate_count = length ?ds, rx_positive_count = length ?ps,
             rx_selected_count = length (sx_selected st), rx_tokens_used = sx_tokens st,
             rx_truncated = sx_truncated st, rx_decisions = sx_decisions st\<rparr>"
    using assms unfolding build_reduce_context_def Let_def by (auto simp: and_then_Inr_iff)
  obtain k where k: "k \<le> length ?ps" "sx_selected st = map point_text (take k ?ps)"
    "sx_tokens st = points_cost cnt 0 (take k ?ps)" "sx_tokens st \<le> max_tokens"
    "k < length ?ps \<longrightarrow> sx_truncated st \<and> max_tokens < points_cost cnt 0 (take (Suc k) ?ps)"
    "k = length ?ps \<longrightarrow> \<not> sx_truncated st"
    using select_points_prefix [OF st] by auto
  have "?ps = sort_key (\<lambda>p. - map_point.mp_score (snd p)) (positive_points outputs)"
    by (rule sort_by_key) (simp add: score_desc_def then_with_def compare_def)
  with k show ?thesis unfolding Let_def by (intro exI [of _ k]) (auto simp: r)
qed

subsection \<open>The decisions\<close>

definition as_selected :: "reduce_decision \<Rightarrow> reduce_decision" where
  "as_selected d = d\<lparr>rn_selected := True, rn_reason := decision_reason.Selected\<rparr>"

definition selecting_keys :: "(usize \<times> usize) set \<Rightarrow> reduce_decision list \<Rightarrow> reduce_decision list" where
  "selecting_keys ks ds = map (\<lambda>d. if decision_key d \<in> ks then as_selected d else d) ds"

lemma as_selected_key [simp]: "decision_key (as_selected d) = decision_key d"
  by (simp add: as_selected_def decision_key_def)

lemma selecting_keys_keys [simp]: "map decision_key (selecting_keys ks ds) = map decision_key ds"
  by (simp add: selecting_keys_def)

lemma selecting_keys_insert: "selecting_keys {k} (selecting_keys ks ds) = selecting_keys (insert k ks) ds"
  by (auto simp: selecting_keys_def as_selected_def)

lemma decision_positions_distinct:
  assumes "distinct (map decision_key ds)"
  shows "decision_positions ds k = Some i \<longleftrightarrow> i < length ds \<and> decision_key (ds ! i) = k"
proof -
  have pairs: "map (\<lambda>(i, d). (decision_key d, i)) (enumerate_from 0 ds) = zip (map decision_key ds) [0..<length ds]"
    by (simp add: enumerate_from_conv zip_map1 zip_commute [of "[0..<length ds]"] case_prod_unfold)
  have "decision_positions ds k = Some i \<longleftrightarrow> (k, i) \<in> set (zip (map decision_key ds) [0..<length ds])"
    using assms by (simp add: decision_positions_def pairs collect_map_distinct)
  then show ?thesis by (auto simp: set_zip intro!: exI [of _ i])
qed

lemma mark_selected_key:
  assumes "distinct (map decision_key ds)" "map decision_key ds' = map decision_key ds"
  shows "mark_selected (decision_positions ds) k ds' = selecting_keys {k} ds'"
proof (cases "decision_positions ds k")
  case None
  then have "k \<notin> decision_key ` set ds"
    using decision_positions_distinct [OF assms(1), of k] by (metis imageE in_set_conv_nth option.distinct(1))
  then have "k \<notin> decision_key ` set ds'" using assms(2) by (metis list.set_map)
  then show ?thesis using None by (auto simp: mark_selected_def selecting_keys_def intro!: map_idI [symmetric])
next
  case (Some i)
  then have i: "i < length ds" "decision_key (ds ! i) = k" using decision_positions_distinct [OF assms(1)] by auto
  have len: "length ds' = length ds" using assms(2) by (metis length_map)
  have "decision_key (ds' ! j) = k \<longleftrightarrow> j = i" if "j < length ds" for j
  proof -
    have "decision_key (ds' ! j) = map decision_key ds ! j" using assms(2) that len by (metis nth_map)
    then show ?thesis using assms(1) i that by (auto simp: distinct_conv_nth)
  qed
  then show ?thesis using Some i len
    by (auto simp: mark_selected_def selecting_keys_def as_selected_def nth_list_update intro!: nth_equalityI)
qed

lemma mark_selected_keys:
  assumes "distinct (map decision_key ds)"
  shows "foldl (\<lambda>ds' p. mark_selected (decision_positions ds) (fst p) ds') ds ps = selecting_keys (fst ` set ps) ds"
proof (induction ps rule: rev_induct)
  case Nil
  then show ?case by (simp add: selecting_keys_def)
next
  case (snoc p ps)
  then show ?case by (simp add: mark_selected_key [OF assms] selecting_keys_insert)
qed

lemma decisions_positive:
  "map (\<lambda>d. (decision_key d, rn_score d)) (filter (\<lambda>d. 0 < rn_score d) (initial_decisions c outputs)) =
   map (\<lambda>p. (fst p, map_point.mp_score (snd p))) (positive_points outputs)"
proof -
  have one: "map (\<lambda>d. (decision_key d, rn_score d)) (filter (\<lambda>d. 0 < rn_score d) (map (\<lambda>(i, p).
         \<lparr>rn_batch_index = b, rn_point_index = i, rn_score = map_point.mp_score p, rn_selected = False,
          rn_reason = (if 0 < map_point.mp_score p then TokenBudget else NonPositiveScore), rn_answer = f p\<rparr>) xs)) =
      map (\<lambda>p. (fst p, map_point.mp_score (snd p))) (map (\<lambda>(i, p). ((b, i), p)) (filter (\<lambda>(_, p). 0 < map_point.mp_score p) xs))"
    for b f and xs :: "(nat \<times> map_point) list"
    by (induction xs) (auto simp: decision_key_def)
  show ?thesis
    by (induction outputs) (simp_all only: initial_decisions_def positive_points_def list.map concat.simps filter_append map_append
        filter.simps one)
qed

lemma initial_decisions_distinct:
  assumes "distinct (map mr_batch_index outputs)"
  shows "distinct (map decision_key (initial_decisions c outputs))"
proof -
  have keys: "map decision_key (initial_decisions c outputs) =
      concat (map (\<lambda>output. map (\<lambda>i. (mr_batch_index output, i)) [0..<length (mr_points output)]) outputs)" for outputs
  proof -
    have "map decision_key (map (\<lambda>(i, p). \<lparr>rn_batch_index = b, rn_point_index = i, rn_score = map_point.mp_score p,
          rn_selected = False, rn_reason = (if 0 < map_point.mp_score p then TokenBudget else NonPositiveScore),
          rn_answer = f p\<rparr>) (enumerate_from n xs)) = map (\<lambda>i. (b, i)) [n..<n + length xs]" for b n f and xs :: "map_point list"
      by (subst map_fst_enumerate_from [symmetric]) (simp add: decision_key_def case_prod_unfold)
    from this [of _ _ 0] show ?thesis
      by (induction outputs) (simp_all add: initial_decisions_def)
  qed
  show ?thesis unfolding keys using assms
    by (induction outputs) (auto simp: distinct_map inj_on_def)
qed

lemma initial_decisions_state:
  "d \<in> set (initial_decisions c outputs) \<Longrightarrow>
   \<not> rn_selected d \<and> rn_reason d = (if 0 < rn_score d then TokenBudget else NonPositiveScore)"
  by (auto simp: initial_decisions_def)

lemma all_some_Some: "all_some xs = Some ys \<longleftrightarrow> xs = map Some ys"
proof (induction xs arbitrary: ys rule: all_some.induct)
  case (3 x xs)
  then show ?case by (cases ys) auto
qed auto

lemma map_eq_map_Some: "map f xs = map Some ys \<Longrightarrow> ys = map (the \<circ> f) xs"
proof (induction xs arbitrary: ys)
  case (Cons x xs)
  then show ?case by (cases ys) auto
qed simp

definition decision_evidence :: "reduce_decision \<Rightarrow> map_point_decision" where
  "decision_evidence d =
     \<lparr>md_batch_index = of_nat (rn_batch_index d), md_point_index = of_nat (rn_point_index d), md_score = rn_score d,
      md_selected = rn_selected d, md_reason = rn_reason d, md_answer = rn_answer d\<rparr>"

lemma reduce_event_points:
  assumes "reduce_event with_content r budget = Some e"
  shows "rd_points e = map decision_evidence (rx_decisions r)"
proof -
  let ?f = "\<lambda>d. Option.bind (u32_index (rn_batch_index d)) (\<lambda>batch_index.
         Option.bind (u32_index (rn_point_index d)) (\<lambda>point_index.
           Some \<lparr>md_batch_index = batch_index, md_point_index = point_index, md_score = rn_score d,
                 md_selected = rn_selected d, md_reason = rn_reason d, md_answer = rn_answer d\<rparr>))"
  obtain ps where ps: "all_some (map ?f (rx_decisions r)) = Some ps" "rd_points e = ps"
    using assms unfolding reduce_event_def by (auto simp: bind_eq_Some_conv)
  then have eq: "map ?f (rx_decisions r) = map Some ps" by (simp add: all_some_Some)
  have "the (?f d) = decision_evidence d" if "d \<in> set (rx_decisions r)" for d
  proof -
    have "?f d \<noteq> None" using eq that by (metis (no_types, lifting) imageE image_eqI list.set_map option.distinct(1))
    then show ?thesis by (auto simp: u32_index_def decision_evidence_def split: if_splits)
  qed
  then show ?thesis using map_eq_map_Some [OF eq] ps(2) by simp
qed

text \<open>The decisions of the points, once the first ones are selected.\<close>

lemma selected_decisions:
  assumes distinct: "distinct (map decision_key init)"
    and initial: "\<And>d. d \<in> set init \<Longrightarrow> \<not> rn_selected d \<and> rn_reason d = (if 0 < rn_score d then TokenBudget else NonPositiveScore)"
    and positive: "mset (map decision_key (filter (\<lambda>d. 0 < rn_score d) init)) = mset (map fst ps)"
    and ds: "ds = selecting_keys (fst ` set (take k ps)) init" and k: "k \<le> length ps"
  shows "\<forall>d \<in> set ds. decision_valid (decision_evidence d)"
    "length (filter (\<lambda>d. 0 < rn_score d) ds) = length ps"
    "length (filter rn_selected ds) = k"
    "(\<exists>d \<in> set ds. rn_reason d = TokenBudget) \<longleftrightarrow> k < length ps"
proof -
  let ?K = "fst ` set (take k ps)" and ?P = "filter (\<lambda>d. 0 < rn_score d) init"
  have keys: "decision_key ` set ?P = fst ` set ps"
    using positive by (metis list.set_map mset_eq_setD)
  have dist_ps: "distinct (map fst ps)"
    using distinct positive by (metis distinct_map_filter mset_eq_imp_distinct_iff)
  have K: "?K \<subseteq> decision_key ` set ?P" unfolding keys using set_take_subset by fastforce
  have score: "0 < rn_score d" if d: "d \<in> set init" "decision_key d \<in> ?K" for d
  proof -
    obtain d' where d': "d' \<in> set ?P" "decision_key d = decision_key d'" using K d(2) by blast
    then have "d = d'" using distinct d(1) by (auto simp: distinct_map dest: inj_onD)
    then show ?thesis using d'(1) by simp
  qed
  have scores: "rn_score (if decision_key d \<in> ?K then as_selected d else d) = rn_score d" for d
    by (simp add: as_selected_def)
  show "\<forall>d \<in> set ds. decision_valid (decision_evidence d)"
  proof
    fix d assume "d \<in> set ds"
    then obtain i where i: "i \<in> set init" "d = (if decision_key i \<in> ?K then as_selected i else i)"
      unfolding ds selecting_keys_def set_map by (elim imageE)
    show "decision_valid (decision_evidence d)"
    proof (cases "decision_key i \<in> ?K")
      case True
      then show ?thesis using score [OF i(1) True] i(2)
        by (simp add: decision_valid_def decision_evidence_def as_selected_def)
    next
      case False
      then show ?thesis using initial [OF i(1)] i(2)
        by (auto simp: decision_valid_def decision_evidence_def)
    qed
  qed
  have "length ?P = length ps" using positive by (metis length_map size_mset)
  moreover have "length (filter (\<lambda>d. 0 < rn_score d) ds) = length ?P"
    by (simp add: ds selecting_keys_def filter_map o_def scores)
  ultimately show "length (filter (\<lambda>d. 0 < rn_score d) ds) = length ps" by simp
  have selected: "rn_selected (if decision_key d \<in> ?K then as_selected d else d) \<longleftrightarrow> decision_key d \<in> ?K" if "d \<in> set init" for d
    using initial [OF that] by (simp add: as_selected_def)
  have "length (filter rn_selected ds) = length (filter (\<lambda>d. decision_key d \<in> ?K) init)"
    unfolding ds selecting_keys_def using selected by (simp add: filter_map o_def cong: filter_cong)
  also have "\<dots> = length (filter (\<lambda>x. x \<in> ?K) (map decision_key init))"
    by (simp add: filter_map o_def)
  also have "\<dots> = card (set (filter (\<lambda>x. x \<in> ?K) (map decision_key init)))"
    by (rule distinct_card [OF distinct_filter [OF distinct], symmetric])
  also have "set (filter (\<lambda>x. x \<in> ?K) (map decision_key init)) = ?K"
    using K by auto
  also have "card ?K = k"
  proof -
    have "distinct (map fst (take k ps))" using dist_ps by (simp add: take_map [symmetric])
    then show ?thesis using k by (metis distinct_card length_map length_take list.set_map min.absorb2)
  qed
  finally show "length (filter rn_selected ds) = k" .
  have "(\<exists>d \<in> set ds. rn_reason d = TokenBudget) \<longleftrightarrow> (\<exists>d \<in> set init. decision_key d \<notin> ?K \<and> rn_reason d = TokenBudget)"
    unfolding ds selecting_keys_def set_map bex_simps by (auto simp: as_selected_def)
  also have "\<dots> \<longleftrightarrow> (\<exists>d \<in> set ?P. decision_key d \<notin> ?K)" using initial by auto
  also have "\<dots> \<longleftrightarrow> \<not> fst ` set ps \<subseteq> ?K" unfolding keys [symmetric] by auto
  also have "\<dots> \<longleftrightarrow> k < length ps"
  proof
    assume "\<not> fst ` set ps \<subseteq> ?K"
    then show "k < length ps" using k by (cases "k = length ps") auto
  next
    assume less: "k < length ps"
    have "map fst ps ! k \<notin> set (take k (map fst ps))"
    proof
      assume "map fst ps ! k \<in> set (take k (map fst ps))"
      then obtain i where "i < k" "map fst ps ! i = map fst ps ! k" by (auto simp only: in_set_conv_nth length_take nth_take min_less_iff_conj)
      then show False using nth_eq_iff_index_eq [OF dist_ps, of i k] less by simp
    qed
    then have "map fst ps ! k \<notin> set (map fst (take k ps))" by (simp only: take_map not_False_eq_True)
    moreover have "map fst ps ! k \<in> fst ` set ps" using less by simp
    ultimately show "\<not> fst ` set ps \<subseteq> ?K" by (metis list.set_map subsetD)
  qed
  finally show "(\<exists>d \<in> set ds. rn_reason d = TokenBudget) \<longleftrightarrow> k < length ps" .
qed

text \<open>C16: The reduce evidence: when the map calls are of different batches, the event built from the reduce context passes
  its contract: the counts are those of its points, a point is selected, over budget or not positive in
  agreement with its score, and the truncation flag agrees with the points.\<close>

theorem reduce_event_passes_contract:
  assumes "build_reduce_context cnt outputs max_tokens True capture_content = Inr r"
    and "reduce_event with_content r max_tokens = Some e"
    and "distinct (map mr_batch_index outputs)" "max_tokens \<le> usize_max" "length (rx_decisions r) \<le> usize_max"
  shows "reduce_context_built_validate e = Inr ()"
proof -
  let ?ps = "sort_by score_desc (positive_points outputs)" and ?init = "initial_decisions capture_content outputs"
  obtain st where st: "select_points cnt max_tokens (decision_positions ?init)
      \<lparr>sx_selected = [], sx_tokens = 0, sx_truncated = False, sx_decisions = ?init\<rparr> ?ps = Inr st"
    and r: "r = \<lparr>rx_text = join_with [CHR 0x0A, CHR 0x0A] (sx_selected st), rx_has_positive_points = ?ps \<noteq> [],
             rx_candidate_count = length ?init, rx_positive_count = length ?ps,
             rx_selected_count = length (sx_selected st), rx_tokens_used = sx_tokens st,
             rx_truncated = sx_truncated st, rx_decisions = sx_decisions st\<rparr>"
    using assms(1) unfolding build_reduce_context_def Let_def by (auto simp: and_then_Inr_iff)
  obtain k where k: "k \<le> length ?ps" "length (sx_selected st) = k"
    "sx_decisions st = foldl (\<lambda>ds p. mark_selected (decision_positions ?init) (fst p) ds) ?init (take k ?ps)"
    "sx_tokens st \<le> max_tokens" "sx_truncated st \<longleftrightarrow> k < length ?ps"
    using select_points_prefix [OF st] by (auto simp: min_def)
  have distinct: "distinct (map decision_key ?init)" by (rule initial_decisions_distinct [OF assms(3)])
  have ds: "sx_decisions st = selecting_keys (fst ` set (take k ?ps)) ?init"
    unfolding k(3) by (rule mark_selected_keys [OF distinct])
  have "map decision_key (filter (\<lambda>d. 0 < rn_score d) ?init) = map fst (positive_points outputs)"
    using arg_cong [OF decisions_positive [of capture_content outputs], of "map fst"] by (simp add: o_def)
  then have "mset (map decision_key (filter (\<lambda>d. 0 < rn_score d) ?init)) = mset (map fst ?ps)"
    by (simp add: mset_sort_by)
  note decisions = selected_decisions [OF distinct initial_decisions_state this ds k(1)]
  have points: "rd_points e = map decision_evidence (sx_decisions st)"
    using reduce_event_points [OF assms(2)] by (simp add: r)
  have fields: "rd_candidate_point_count e = of_nat (length ?init)" "rd_positive_point_count e = of_nat (length ?ps)"
    "rd_selected_point_count e = of_nat k" "rd_token_budget e = of_nat max_tokens" "rd_tokens_used e = of_nat (sx_tokens st)"
    "rd_truncated e = sx_truncated st"
    using assms(2) k(2) by (auto simp: reduce_event_def r bind_eq_Some_conv)
  have len: "length (sx_decisions st) = length ?init" by (simp add: ds selecting_keys_def)
  have bound: "length ?init < 2 ^ 64" using assms(5) len by (simp add: r usize_max_def)
  have "length ?ps \<le> length ?init"
    using decisions(2) length_filter_le [of "\<lambda>d. 0 < rn_score d" "sx_decisions st"] len by simp
  then have small: "length ?ps < 2 ^ 64" "k < 2 ^ 64" using bound k(1) by simp_all
  have tokens: "(of_nat (sx_tokens st) :: u64) \<le> of_nat max_tokens"
    using k(4) assms(4) by (simp add: word_le_nat_alt unat_of_nat take_bit_nat_eq_self usize_max_def)
  show ?thesis
    unfolding reduce_context_built_validate_Inr reduce_points_ok_def points fields
    using decisions tokens bound small len k(5)
    by (auto simp: filter_map o_def decision_evidence_def u64_of_len_def)
qed


subsection \<open>Capturing evidence\<close>

definition forget_ids :: "('f, 'd) batching \<Rightarrow> ('f, 'd) batching" where
  "forget_ids b = b\<lparr>bt_batch_report_ids := []\<rparr>"

definition forget_report_ids :: "('f, 'd) global_context_result \<Rightarrow> ('f, 'd) global_context_result" where
  "forget_report_ids r = r\<lparr>gr_batch_report_ids := []\<rparr>"

lemma cut_batch_forget: "map_ok forget_ids (cut_batch g capture b) = cut_batch g False (forget_ids b)"
  by (auto simp: cut_batch_def forget_ids_def Let_def and_then_case split: sum.splits)

lemma batch_step_forget:
  "map_ok forget_ids (batch_step g capture n b report) = batch_step g False n (forget_ids b) report"
proof -
  have cut: "cut_batch g False (forget_ids b) = map_ok forget_ids (cut_batch g capture b)"
    by (simp add: cut_batch_forget)
  have [simp]: "bt_current_tokens (forget_ids b) = bt_current_tokens b" by (simp add: forget_ids_def)
  show ?thesis unfolding batch_step_def cut
    by (cases "cut_batch g capture b") (auto simp: forget_ids_def and_then_case split: sum.splits)
qed

lemma batch_all_forget:
  "map_ok forget_ids (batch_all g capture n reports b) = batch_all g False n reports (forget_ids b)"
proof (induction reports arbitrary: b)
  case (Cons report reports)
  have "map_ok forget_ids (and_then r (batch_all g capture n reports)) =
      and_then (map_ok forget_ids r) (batch_all g False n reports)" for r
    by (cases r) (simp_all add: Cons.IH)
  then show ?case by (simp add: batch_step_forget [of g capture, symmetric])
qed simp

lemma batch_reports_forget:
  "map_ok forget_report_ids (batch_reports g reports usage ratings capture) = batch_reports g reports usage ratings False"
proof -
  have last: "map_ok forget_report_ids (and_then (and_then r (cut_batch g capture)) (\<lambda>b.
        Inr \<lparr>gr_batches = bt_batches b, gr_records = bt_records b, gr_batch_report_ids = bt_batch_report_ids b,
             gr_usage = usage, gr_dynamic_ratings = ratings\<rparr>)) =
      and_then (and_then (map_ok forget_ids r) (cut_batch g False)) (\<lambda>b.
        Inr \<lparr>gr_batches = bt_batches b, gr_records = bt_records b, gr_batch_report_ids = bt_batch_report_ids b,
             gr_usage = usage, gr_dynamic_ratings = ratings\<rparr>)" for r
  proof (cases r)
    case (Inr b)
    show ?thesis using cut_batch_forget [of g capture b, symmetric]
      by (cases "cut_batch g capture b") (auto simp: Inr forget_ids_def forget_report_ids_def)
  qed simp
  have fields: "forget_ids \<lparr>bt_current = [], bt_current_tokens = n, bt_batches = [], bt_records = [], bt_batch_report_ids = []\<rparr> =
      \<lparr>bt_current = [], bt_current_tokens = n, bt_batches = [], bt_records = [], bt_batch_report_ids = []\<rparr>" for n
    by (simp add: forget_ids_def)
  note tail = last [of "batch_all g capture n reports \<lparr>bt_current = [], bt_current_tokens = n, bt_batches = [],
      bt_records = [], bt_batch_report_ids = []\<rparr>" for n, unfolded and_then_assoc batch_all_forget fields]
  have nested: "map_ok forget_report_ids (and_then a (\<lambda>x. and_then (c x) t)) = and_then a (\<lambda>x. and_then (c x) t')"
    if "\<And>y. map_ok forget_report_ids (t y) = t' y" for a :: "query_error + string" and c :: "string \<Rightarrow> query_error + usize" and t t'
    by (simp add: map_ok_and_then that)
  show ?thesis
  proof (cases "reports = []")
    case False
    then show ?thesis unfolding batch_reports_def by (simp only: if_False) (rule nested, rule tail)
  qed (simp add: batch_reports_def forget_report_ids_def)
qed

lemma build_global_forget:
  "map_option (map_ok forget_report_ids) (build_global env data capture query) = build_global env data False query"
proof -
  have "map_option (map_ok forget_report_ids) (build_selected g entities all_reports reports usage ratings capture) =
      build_selected g entities all_reports reports usage ratings False" for g :: "('f, 'd) gctx" and entities all_reports reports usage ratings
    by (simp add: build_selected_def option.map_comp comp_def case_prod_unfold batch_reports_forget)
  then show ?thesis
    by (auto simp: build_global_def build_fixed_def split: option.split sum.split)
qed

definition forget_decisions :: "selecting \<Rightarrow> selecting" where
  "forget_decisions st = st\<lparr>sx_decisions := []\<rparr>"

lemma select_points_forget:
  "map_ok forget_decisions (select_points cnt n positions st ps) = select_points cnt n positions' (forget_decisions st) ps"
proof (induction ps arbitrary: st)
  case (Cons p ps)
  have [simp]: "mark_selected positions' key [] = []" for key
    by (simp add: mark_selected_def split: option.split)
  have upd: "forget_decisions (st\<lparr>sx_tokens := n, sx_decisions := ds, sx_selected := ts\<rparr>) =
      forget_decisions st\<lparr>sx_tokens := n, sx_decisions := [], sx_selected := ts\<rparr>" for n ds ts
    by (cases st) (simp add: forget_decisions_def)
  have proj: "sx_tokens (forget_decisions st) = sx_tokens st" "sx_selected (forget_decisions st) = sx_selected st"
    "sx_decisions (forget_decisions st) = []" "forget_decisions (st\<lparr>sx_truncated := True\<rparr>) = forget_decisions st\<lparr>sx_truncated := True\<rparr>"
    by (cases st; simp add: forget_decisions_def)+
  show ?case by (cases "cnt (point_text p)") (simp_all add: Cons.IH upd proj)
qed simp

definition forget_evidence :: "reduce_context \<Rightarrow> reduce_context" where
  "forget_evidence r = r\<lparr>rx_candidate_count := 0, rx_decisions := []\<rparr>"

lemma build_reduce_context_forget:
  "map_ok forget_evidence (build_reduce_context cnt outputs n capture capture_content) =
   build_reduce_context cnt outputs n False capture_content'"
proof -
  let ?st = "\<lambda>ds. \<lparr>sx_selected = [], sx_tokens = 0, sx_truncated = False, sx_decisions = ds\<rparr>"
  let ?ds = "if capture then initial_decisions capture_content outputs else []"
  let ?ps = "sort_by score_desc (positive_points outputs)"
  have "select_points cnt n (decision_positions []) (?st []) ?ps =
      map_ok forget_decisions (select_points cnt n (decision_positions ?ds) (?st ?ds) ?ps)"
    unfolding select_points_forget [of _ _ "decision_positions ?ds" _ _ "decision_positions []"] by (simp add: forget_decisions_def)
  then show ?thesis
    by (cases "select_points cnt n (decision_positions ?ds) (?st ?ds) ?ps")
      (simp_all add: build_reduce_context_def Let_def forget_evidence_def forget_decisions_def)
qed

lemma finish_stream_forget:
  "finish_stream env (forget_report_ids built) False False query response_type outputs =
   finish_stream env built capture with_content query response_type outputs"
proof -
  have same: "gr_usage (forget_report_ids built) = gr_usage built"
    "global_context g shown debug (forget_report_ids built) = global_context g shown debug built" for g shown debug
    by (simp_all add: forget_report_ids_def global_context_def fun_eq_iff)
  have reduce: "build_reduce_context c outputs n False (False \<and> False) =
      map_ok forget_evidence (build_reduce_context c outputs n capture (capture \<and> with_content))" for c n
    by (rule build_reduce_context_forget [symmetric])
  show ?thesis
    unfolding finish_stream_def same reduce
    by (cases "build_reduce_context (\<lambda>s. search_count env s ''count Global reduce point tokens'') outputs
          (ge_data_max_tokens env) capture (capture \<and> with_content)") (simp_all add: forget_evidence_def cong del: if_weak_cong)
qed

text \<open>C17: Explainability does not interfere: whether evidence is captured, with content or without, changes nothing in
  what a global search may answer: its events, its context, its usage or its error.\<close>

theorem global_capture_does_not_interfere:
  "prepare_global_stream env data capture with_content query response_type r \<longleftrightarrow>
   prepare_global_stream env data False False query response_type r"
proof (cases "build_global env data capture query")
  case None
  then show ?thesis using build_global_forget [of env data capture query] by (simp add: prepare_global_stream_def)
next
  case (Some built)
  show ?thesis
  proof (cases built)
    case (Inl e)
    then have "build_global env data False query = Some (Inl e)"
      using build_global_forget [of env data capture query] Some by simp
    then show ?thesis using Some Inl by (simp add: prepare_global_stream_def)
  next
    case (Inr b)
    have "gr_batches (forget_report_ids b) = gr_batches b" by (simp add: forget_report_ids_def)
    moreover have "build_global env data False query = Some (Inr (forget_report_ids b))"
      using build_global_forget [of env data capture query] Some Inr by simp
    moreover have "finish_stream env (forget_report_ids b) False False query response_type =
        finish_stream env b capture with_content query response_type"
      by (rule ext) (rule finish_stream_forget)
    ultimately show ?thesis using Some Inr by (simp add: prepare_global_stream_def)
  qed
qed

subsection \<open>The stream of the answer\<close>

lemma run_map_calls_all:
  "run_map_calls env query batches (Inr outputs) \<Longrightarrow> map Inr outputs = map_calls env query batches"
  by (auto simp: run_map_calls_def dest: try_buffered_ordered_Inr)

lemma run_map_calls_returns:
  "\<forall>r \<in> set (map_calls env query batches). is_ok r \<Longrightarrow> \<exists>outputs. run_map_calls env query batches (Inr outputs)"
  by (simp add: run_map_calls_def try_buffered_ordered_all_ok)

lemma instrumented_stream:
  assumes "\<And>c. final \<noteq> Inr (ContextEvent c)" "\<And>t. final \<noteq> Inr (TokenEvent t)"
  shows "fst (instrumented reduce (map (\<lambda>t. Inr (TokenEvent t)) tokens @ [final])) = map (\<lambda>t. Inr (TokenEvent t)) tokens @ [final]"
    "snd (instrumented reduce (map (\<lambda>t. Inr (TokenEvent t)) tokens @ [final])) = snd (instrumented reduce [final])"
    "await_completion (map (\<lambda>t. Inr (TokenEvent t)) tokens @ [final]) = await_completion [final]"
proof -
  have one: "fst (instrumented reduce [final]) = [final]"
    by (cases final rule: sum.exhaust; cases "projr final") (use assms in auto)
  show "fst (instrumented reduce (map (\<lambda>t. Inr (TokenEvent t)) tokens @ [final])) = map (\<lambda>t. Inr (TokenEvent t)) tokens @ [final]"
    "snd (instrumented reduce (map (\<lambda>t. Inr (TokenEvent t)) tokens @ [final])) = snd (instrumented reduce [final])"
    "await_completion (map (\<lambda>t. Inr (TokenEvent t)) tokens @ [final]) = await_completion [final]"
    by (induction tokens) (simp_all add: one case_prod_unfold)
qed

lemma search_categories:
  "om_insert ''reduce'' r (om_insert ''build_context'' b (om_insert ''map'' m [])) =
     [(''build_context'', b), (''map'', m), (''reduce'', r)]"
  "om_insert ''build_context'' b (om_insert ''map'' m (om_insert ''reduce'' r [])) =
     [(''build_context'', b), (''map'', m), (''reduce'', r)]"
proof -
  have "''build_context'' < ''map''" "''build_context'' < ''reduce''" "''map'' < ''reduce''" by code_simp+
  then show "om_insert ''reduce'' r (om_insert ''build_context'' b (om_insert ''map'' m [])) =
     [(''build_context'', b), (''map'', m), (''reduce'', r)]"
    "om_insert ''build_context'' b (om_insert ''map'' m (om_insert ''reduce'' r [])) =
     [(''build_context'', b), (''map'', m), (''reduce'', r)]" by simp_all
qed

text \<open>What follows the map calls is a context, tokens and one final event.\<close>

lemma completion_stream_shape:
  "completion_event_stream cnt cfg ps =
     Inr (ContextEvent (sc_context cfg)) # map (\<lambda>t. Inr (TokenEvent t)) (provider_tokens ps) @ [final_event cnt cfg [] ps]"
  using stream_events_running [of cnt cfg ps "[]"] unfolding completion_event_stream_def
  by (subst stream_events.simps) (simp add: next_event_def)

lemma final_event_cases:
  obtains e where "final_event cnt cfg [] ps = Inl e"
  | n where "final_event cnt cfg [] ps = Inr (CompletedEvent \<lparr>qr_response = concat (provider_tokens ps), qr_context = sc_context cfg,
      qr_usage = from_categories (om_insert (sc_completion_category cfg)
        \<lparr>us_llm_calls = 1, us_prompt_tokens = sc_prompt_tokens cfg, us_output_tokens = n\<rparr> (sc_categories cfg))\<rparr>)"
proof (cases "final_event cnt cfg [] ps")
  case (Inr ev)
  then have "completed_event cnt cfg (concat (provider_tokens ps)) = Inr ev"
    unfolding final_event_def by (cases "dropWhile is_content ps") (auto split: sum.splits)
  then show thesis using that(2) Inr by (auto simp: completed_event_def Let_def split: sum.splits)
qed (rule that(1))

lemma finish_stream_shape:
  assumes "finish_stream env built capture with_content query response_type outputs = Inr events"
  shows "\<exists>context tokens final. events = Inr (ContextEvent context) # map (\<lambda>t. Inr (TokenEvent t)) tokens @ [final]
     \<and> (\<forall>result. final = Inr (CompletedEvent result) \<longrightarrow> qr_response result = concat tokens \<and> qr_context result = context
          \<and> (\<exists>reduce. qr_usage result = from_categories [(''build_context'', gr_usage built), (''map'', sum_map_usage outputs),
                 (''reduce'', reduce)] \<and> us_llm_calls reduce = (if positive_points outputs = [] then 0 else 1)))
     \<and> (positive_points outputs = [] \<longrightarrow> tokens = [no_data_answer] \<and> (\<exists>result. final = Inr (CompletedEvent result)))
     \<and> (\<forall>c. final \<noteq> Inr (ContextEvent c)) \<and> (\<forall>t. final \<noteq> Inr (TokenEvent t))"
proof -
  obtain reduce frame ctx where
    reduce: "build_reduce_context (\<lambda>s. search_count env s ''count Global reduce point tokens'') outputs
       (ge_data_max_tokens env) capture (capture \<and> with_content) = Inr reduce"
    and rest: "(if \<not> rx_has_positive_points reduce then Inr (no_data_stream ctx (gr_usage built) (sum_map_usage outputs))
       else
         and_then (map_err (QueryPrompt SearchGlobal ''render Global Search reduce prompt'' ''global_search_reduce_system_prompt.txt'')
           (ge_reduce_prompt env (rx_text reduce) response_type (ge_reduce_max_length env))) (\<lambda>rendered.
         and_then (count_messages (\<lambda>s. search_count env s ''count Global reduce completion input tokens'') 0 [rendered, query])
           (\<lambda>prompt_tokens.
         and_then (map_err (InvalidQueryConfig SearchGlobal ''build Global Search reduce request'')
           (ge_reduce_request env rendered query)) (\<lambda>_.
         and_then (map_err (completion_error env ''start Global Search reduce stream'') (ge_stream env rendered query)) (\<lambda>provider.
           Inr (completion_event_stream (gc_count (ge_context env))
             \<lparr>sc_context = ctx,
              sc_categories = om_insert ''build_context'' (gr_usage built) (om_insert ''map'' (sum_map_usage outputs) []),
              sc_completion_category = ''reduce'', sc_prompt_tokens = prompt_tokens,
              sc_completion_model_id = ge_model_id env, sc_method = SearchGlobal,
              sc_consume_operation = ''consume Global Search reduce stream'',
              sc_output_count_operation = ''count Global reduce output tokens'',
              sc_output_count_is_context_error = True\<rparr> provider)))))) = Inr events"
    using assms unfolding finish_stream_def by (auto simp only: and_then_Inr_iff)
  have positive: "rx_has_positive_points reduce \<longleftrightarrow> positive_points outputs \<noteq> []"
    using reduce unfolding build_reduce_context_def Let_def and_then_Inr_iff by (auto simp: sort_by_eq_Nil)
  show ?thesis
  proof (cases "positive_points outputs = []")
    case True
    then have "events = no_data_stream ctx (gr_usage built) (sum_map_usage outputs)" using rest positive by simp
    then show ?thesis using True
      by (intro exI [of _ ctx] exI [of _ "[no_data_answer]"] exI [of _ "last events"])
        (auto simp: no_data_stream_def search_categories intro!: exI [of _ usage_default], simp add: usage_default_def)
  next
    case False
    then obtain cfg provider where events: "events = completion_event_stream (gc_count (ge_context env)) cfg provider"
      and cfg: "sc_context cfg = ctx" "sc_completion_category cfg = ''reduce''"
        "sc_categories cfg = om_insert ''build_context'' (gr_usage built) (om_insert ''map'' (sum_map_usage outputs) [])"
      using rest positive by (auto simp only: and_then_Inr_iff if_False not_not if_not_P sum.inject stream_config.simps)
    let ?final = "final_event (gc_count (ge_context env)) cfg [] provider"
    let ?shape = "\<lambda>final. (\<forall>result. final = Inr (CompletedEvent result) \<longrightarrow>
          qr_response result = concat (provider_tokens provider) \<and> qr_context result = ctx
          \<and> (\<exists>reduce. qr_usage result = from_categories [(''build_context'', gr_usage built), (''map'', sum_map_usage outputs),
                 (''reduce'', reduce)] \<and> us_llm_calls reduce = 1))
        \<and> (\<forall>c. final \<noteq> Inr (ContextEvent c)) \<and> (\<forall>t. final \<noteq> Inr (TokenEvent t))"
    have "?shape ?final"
    proof (cases rule: final_event_cases [of "gc_count (ge_context env)" cfg provider])
      case (2 n)
      then show ?thesis by (simp only: cfg search_categories) auto
    qed simp
    then show ?thesis unfolding events completion_stream_shape cfg using False
      by (intro exI [of _ ctx] exI [of _ "provider_tokens provider"] exI [of _ ?final]) simp
  qed
qed

text \<open>C15: The protocol of a global search: when a search starts at all, its map calls all succeeded and the consumer sees the
  context first, then tokens, then exactly one final event, an error or a completion; the completion's response is
  the concatenation of the tokens, its context the one announced, and its usage lists the three phases;
  without positive points the answer is the fixed one and no reduce call is counted. The instrumentation passes the
  events on unchanged and is told of exactly one ending, and \<open>global_search\<close> returns the final event.\<close>

theorem global_stream_protocol:
  assumes "prepare_global_stream env data capture with_content query response_type (Inr events)"
  shows "\<exists>built outputs context tokens final.
     build_global env data capture query = Some (Inr built)
     \<and> map Inr outputs = map_calls env query (gr_batches built)
     \<and> events = Inr (ContextEvent context) # map (\<lambda>t. Inr (TokenEvent t)) tokens @ [final]
     \<and> (\<forall>result. final = Inr (CompletedEvent result) \<longrightarrow> qr_response result = concat tokens \<and> qr_context result = context
          \<and> (\<exists>reduce. qr_usage result = from_categories [(''build_context'', gr_usage built), (''map'', sum_map_usage outputs),
                 (''reduce'', reduce)] \<and> us_llm_calls reduce = (if positive_points outputs = [] then 0 else 1)))
     \<and> (positive_points outputs = [] \<longrightarrow> tokens = [no_data_answer] \<and> (\<exists>result. final = Inr (CompletedEvent result)))
     \<and> await_completion events = (case final of Inl e \<Rightarrow> Inl e | Inr (CompletedEvent result) \<Rightarrow> Inr result)
     \<and> (\<forall>reduce. fst (instrumented reduce events) = events
          \<and> filter (\<lambda>c. c = FinishSuccess \<or> c = FinishStreamEnded \<or> (\<exists>e. c = FinishError e)) (snd (instrumented reduce events))
              = [case final of Inl e \<Rightarrow> FinishError e | _ \<Rightarrow> FinishSuccess])"
proof -
  obtain built where built: "build_global env data capture query = Some (Inr built)"
    using assms by (auto simp: prepare_global_stream_def split: option.splits sum.splits)
  then obtain outputs where "run_map_calls env query (gr_batches built) (Inr outputs)"
    and events: "finish_stream env built capture with_content query response_type outputs = Inr events"
    using assms by (auto simp: prepare_global_stream_def) (metis and_then_Inr_iff)
  then have outputs: "map Inr outputs = map_calls env query (gr_batches built)" by (intro run_map_calls_all)
  obtain ctx tokens final where shape: "events = Inr (ContextEvent ctx) # map (\<lambda>t. Inr (TokenEvent t)) tokens @ [final]"
    "\<forall>result. final = Inr (CompletedEvent result) \<longrightarrow> qr_response result = concat tokens \<and> qr_context result = ctx
          \<and> (\<exists>reduce. qr_usage result = from_categories [(''build_context'', gr_usage built), (''map'', sum_map_usage outputs),
                 (''reduce'', reduce)] \<and> us_llm_calls reduce = (if positive_points outputs = [] then 0 else 1))"
    "positive_points outputs = [] \<longrightarrow> tokens = [no_data_answer] \<and> (\<exists>result. final = Inr (CompletedEvent result))"
    and final: "\<And>c. final \<noteq> Inr (ContextEvent c)" "\<And>t. final \<noteq> Inr (TokenEvent t)"
    using finish_stream_shape [OF events] by blast
  have await: "await_completion events = (case final of Inl e \<Rightarrow> Inl e | Inr (CompletedEvent result) \<Rightarrow> Inr result)"
    using instrumented_stream(3) [OF final] final by (auto simp: shape(1) split: sum.split query_event.split)
  have calls: "filter (\<lambda>c. c = FinishSuccess \<or> c = FinishStreamEnded \<or> (\<exists>e. c = FinishError e)) (snd (instrumented reduce [final]))
      = [case final of Inl e \<Rightarrow> FinishError e | _ \<Rightarrow> FinishSuccess]" for reduce
  proof (cases final)
    case (Inr ev)
    then show ?thesis using final by (cases ev) (auto split: option.split)
  qed simp
  have "fst (instrumented reduce events) = events \<and> snd (instrumented reduce events) = snd (instrumented reduce [final])" for reduce
    using instrumented_stream(1,2) [OF final] by (simp add: shape(1) case_prod_unfold)
  then have "\<forall>reduce. fst (instrumented reduce events) = events
      \<and> filter (\<lambda>c. c = FinishSuccess \<or> c = FinishStreamEnded \<or> (\<exists>e. c = FinishError e)) (snd (instrumented reduce events))
          = [case final of Inl e \<Rightarrow> FinishError e | _ \<Rightarrow> FinishSuccess]"
    using calls by (simp only: simp_thms)
  with built outputs shape await show ?thesis by (intro exI conjI) assumption+
qed

text \<open>When the parameters do not fail, a search starts.\<close>

lemma global_search_starts:
  assumes "build_global env data capture query = Some (Inr built)"
    and "\<forall>r \<in> set (map_calls env query (gr_batches built)). is_ok r"
    and "\<And>outputs. map Inr outputs = map_calls env query (gr_batches built) \<Longrightarrow>
      is_ok (finish_stream env built capture with_content query response_type outputs)"
  shows "\<exists>events. prepare_global_stream env data capture with_content query response_type (Inr events)"
proof -
  obtain outputs where run: "run_map_calls env query (gr_batches built) (Inr outputs)"
    using run_map_calls_returns [OF assms(2)] by blast
  obtain events where "finish_stream env built capture with_content query response_type outputs = Inr events"
    using assms(3) [OF run_map_calls_all [OF run]] by (auto simp: is_ok_iff)
  then show ?thesis using run assms(1) by (auto simp: prepare_global_stream_def intro!: exI [of _ "Inr outputs"])
qed

subsection \<open>A sample search\<close>

definition sample_point_serde :: "int serde" where
  "sample_point_serde = sample_serde\<lparr>sd_from_str := (\<lambda>_. Some (JObject [(''points'', JArray
     [JObject [(''description'', JString ''one''), (''score'', JNumber (NInt 7))],
      JObject [(''description'', JString ''two''), (''score'', JNumber (NInt 0))]])]))\<rparr>"

definition sample_search :: "(int, unit) search_env" where
  "sample_search = \<lparr>ge_context = sample_gctx, ge_serde = sample_point_serde, ge_rate = sample_rate_env, ge_dynamic = None,
     ge_debug_id = id, ge_shown = (\<lambda>_. ''1''), ge_debug = (\<lambda>_. ''1''),
     ge_map_prompt = (\<lambda>s _. Inr s), ge_reduce_prompt = (\<lambda>s _ _. Inr s), ge_map_request = (\<lambda>_ _. Inr ()),
     ge_reduce_request = (\<lambda>_ _. Inr ()), ge_complete = (\<lambda>_ _ _. CompletionContent ''{}''),
     ge_stream = (\<lambda>_ _. Inr [Inr ''an'', Inr ''swer'']), ge_model_id = ''m'', ge_map_max_length = 10, ge_reduce_max_length = 10,
     ge_data_max_tokens = 100, ge_concurrent_requests = 2, ge_points_json = (\<lambda>_. ''[]'')\<rparr>"

definition sample_search_data :: "int search_data" where
  "sample_search_data = \<lparr>gd_entities = [], gd_reports = sample_ranked, gd_communities = []\<rparr>"

definition sample_output :: "usize \<Rightarrow> string \<Rightarrow> map_search_result" where
  "sample_output i batch = \<lparr>mr_batch_index = i, mr_raw_response = ''{}'',
     mr_points = [\<lparr>mp_answer = ''one'', mp_score = 7\<rparr>, \<lparr>mp_answer = ''two'', mp_score = 0\<rparr>], mr_context = batch,
     mr_usage = \<lparr>us_llm_calls = 1, us_prompt_tokens = usize_sat_add (usize_sat_add 0 1) 1, us_output_tokens = 1\<rparr>\<rparr>"

lemma sample_map_call: "run_map_call sample_search query (i, batch) = Inr (sample_output i batch)"
proof -
  have "parse_map_points sample_point_serde ''{}'' = [\<lparr>mp_answer = ''one'', mp_score = 7\<rparr>, \<lparr>mp_answer = ''two'', mp_score = 0\<rparr>]"
    by code_simp
  then show ?thesis
    by (simp add: run_map_call_def sample_search_def sample_output_def search_count_def sample_gctx_def)
qed

definition sample_outputs :: "map_search_result list" where
  "sample_outputs = [sample_output 0 ''a'', sample_output 1 ''b'']"

definition sample_reduce :: reduce_context where
  "sample_reduce = \<lparr>rx_text = point_text ((0, 0), \<lparr>mp_answer = ''one'', mp_score = 7\<rparr>), rx_has_positive_points = True,
     rx_candidate_count = 4, rx_positive_count = 2, rx_selected_count = 1, rx_tokens_used = 1, rx_truncated = True,
     rx_decisions = map (\<lambda>(b, i). \<lparr>rn_batch_index = b, rn_point_index = i, rn_score = (if i = 0 then 7 else 0),
        rn_selected = (b, i) = (0, 0), rn_reason = (if (b, i) = (0, 0) then Selected else if i = 0 then TokenBudget else NonPositiveScore),
        rn_answer = None\<rparr>) [(0, 0), (0, 1), (1, 0), (1, 1)]\<rparr>"

lemma sample_reduce: "build_reduce_context (\<lambda>_. Inr 1) sample_outputs 1 True False = Inr sample_reduce"
proof -
  have decisions: "initial_decisions False sample_outputs = map (\<lambda>(b, i). \<lparr>rn_batch_index = b, rn_point_index = i, rn_score = (if i = 0 then 7 else 0),
        rn_selected = False, rn_reason = (if i = 0 then TokenBudget else NonPositiveScore), rn_answer = None\<rparr>) [(0, 0), (0, 1), (1, 0), (1, 1)]"
    by (simp add: initial_decisions_def sample_outputs_def sample_output_def)
  have points: "sort_by score_desc (positive_points sample_outputs) =
      [((0, 0), \<lparr>mp_answer = ''one'', mp_score = 7\<rparr>), ((1, 0), \<lparr>mp_answer = ''one'', mp_score = 7\<rparr>)]"
    by (simp add: positive_points_def sample_outputs_def sample_output_def sort_by_def score_desc_def then_with_def compare_def)
  have first: "decision_positions (initial_decisions False sample_outputs) (0, 0) = Some 0"
    unfolding decisions by (simp add: decision_positions_def collect_map_def decision_key_def)
  show ?thesis
    unfolding build_reduce_context_def Let_def points sample_reduce_def
    by (simp add: first mark_selected_def usize_sat_add_def usize_max_def) (simp add: decisions)
qed

theorem reduce_context_best_points_witness:
  "rx_positive_count sample_reduce = 2 \<and> rx_tokens_used sample_reduce \<le> 1
     \<and> (rx_truncated sample_reduce \<longleftrightarrow> rx_selected_count sample_reduce < 2)"
proof -
  have "length (sort_key (\<lambda>p. - map_point.mp_score (snd p)) (positive_points sample_outputs)) = 2"
    by (simp add: positive_points_def sample_outputs_def sample_output_def)
  then show ?thesis using reduce_context_best_points [OF sample_reduce] unfolding Let_def by auto
qed

theorem reduce_event_passes_contract_witness:
  "\<exists>e. reduce_event False sample_reduce 1 = Some e \<and> reduce_context_built_validate e = Inr ()"
proof -
  obtain e where e: "reduce_event False sample_reduce 1 = Some e"
    by (simp add: reduce_event_def sample_reduce_def u32_index_def)
  have "distinct (map mr_batch_index sample_outputs)" "length (rx_decisions sample_reduce) \<le> usize_max" "1 \<le> usize_max"
    by (simp_all add: sample_outputs_def sample_output_def sample_reduce_def usize_max_def)
  with reduce_event_passes_contract [OF sample_reduce e] e show ?thesis by auto
qed

lemma sample_frames: "is_ok (fr_new (gc_frames sample_gctx) n cols)"
  by (simp add: sample_gctx_def)

lemma sample_search_starts:
  "\<exists>events. prepare_global_stream sample_search sample_search_data True False ''q'' ''text'' (Inr events)"
proof -
  obtain built where built: "build_global sample_search sample_search_data True ''q'' = Some (Inr built)"
    using sample_global_context by (auto simp: build_global_def build_fixed_def sample_search_def sample_search_data_def)
  show ?thesis
  proof (rule global_search_starts [OF built])
    show "\<forall>r \<in> set (map_calls sample_search ''q'' (gr_batches built)). is_ok r"
      by (auto simp: map_calls_def sample_map_call)
    fix outputs
    assume "map Inr outputs = map_calls sample_search ''q'' (gr_batches built)"
    have "is_ok (build_reduce_context (\<lambda>s. search_count sample_search s op) outputs n c d)" for op n c d
    proof -
      have "is_ok (select_points (\<lambda>s. search_count sample_search s op) n positions st ps)" for positions st ps
        by (induction ps arbitrary: st) (simp_all add: search_count_def sample_search_def sample_gctx_def)
      then show ?thesis unfolding build_reduce_context_def Let_def by (intro is_ok_bind) simp_all
    qed
    moreover have "is_ok (map_outputs_frame sample_search outputs)"
      unfolding map_outputs_frame_def by (rule is_ok_to_dataframe) (simp_all add: sample_search_def sample_frames)
    moreover have "is_ok (global_context (ge_context sample_search) shown debug built s frame)" for shown debug s frame
      unfolding global_context_def dynamic_context_def Let_def
      by (auto intro!: is_ok_bind is_ok_to_dataframe simp: sample_search_def sample_frames)
    ultimately show "is_ok (finish_stream sample_search built True False ''q'' ''text'' outputs)"
      unfolding finish_stream_def
      by (intro is_ok_bind) (simp_all add: sample_search_def search_count_def sample_gctx_def)
  qed
qed

theorem global_stream_protocol_witness:
  "\<exists>events ctx tokens final.
     prepare_global_stream sample_search sample_search_data True False ''q'' ''text'' (Inr events)
     \<and> events = Inr (ContextEvent ctx) # map (\<lambda>t. Inr (TokenEvent t)) tokens @ [final]
     \<and> await_completion events = (case final of Inl e \<Rightarrow> Inl e | Inr (CompletedEvent result) \<Rightarrow> Inr result)"
proof -
  obtain events where events: "prepare_global_stream sample_search sample_search_data True False ''q'' ''text'' (Inr events)"
    using sample_search_starts by blast
  from global_stream_protocol [OF events] events show ?thesis by blast
qed

end
