(* ===== verification/Indexer_Adapters.thy ===== *)
theory Indexer_Adapters
  imports Query_Index
begin

text \<open>
  Adapting the index tables to the query model (\<open>query/indexer_adapters.rs\<close>): schema checks, typed cells,
  and the rows of each table.

  A data frame is its height and its named columns, a column its physical type and its values; the
  types and values are those the code distinguishes. Parameters (record \<open>frame_lib\<close>): the names of
  types, the message for a cell out of bounds, and floating point numbers; a 32-bit float is its widened
  value. Lists in cells are read within their bounds, where reading does not fail.
\<close>

datatype dtype =
    DtNull | DtString | DtInt32 | DtInt64 | DtUInt32 | DtUInt64 | DtFloat32 | DtFloat64
  | DtList dtype | DtOther string

datatype 'f any_value =
    AnyNull | AnyString string | AnyStringOwned string
  | AnyInt32 int | AnyInt64 int | AnyUInt32 int | AnyUInt64 int
  | AnyFloat32 'f | AnyFloat64 'f
  | AnyList "'f any_value list" | AnyOther string

record 'f column =
  cl_dtype :: dtype
  cl_cells :: "'f any_value list"

record 'f data_frame =
  df_height :: usize
  df_columns :: "(string \<times> 'f column) list"

record 'f frame_lib =
  fl_show :: "dtype \<Rightarrow> string"
  fl_out_of_bounds :: "usize \<Rightarrow> string"
  fl_finite :: "'f \<Rightarrow> bool"
  fl_integral :: "'f \<Rightarrow> bool" \<comment> \<open>\<open>fract() == 0.0\<close>\<close>
  fl_in_i64 :: "'f \<Rightarrow> bool" \<comment> \<open>\<open>>= i64::MIN as f64\<close> and \<open>< i64::MAX as f64\<close>\<close>
  fl_to_i64 :: "'f \<Rightarrow> i64" \<comment> \<open>\<open>as i64\<close>\<close>
  fl_of_int :: "int \<Rightarrow> 'f" \<comment> \<open>\<open>as f64\<close>\<close>

definition df_column :: "'f data_frame \<Rightarrow> string \<Rightarrow> 'f column option" where
  "df_column df name = map_of (df_columns df) name"

definition invalid_value ::
  "search_method \<Rightarrow> string \<Rightarrow> string \<Rightarrow> string \<Rightarrow> string \<Rightarrow> usize \<Rightarrow> string \<Rightarrow> query_error" where
  "invalid_value method table column expected actual row message =
     InvalidQueryTable method ''adapt query table''
       \<lparr>td_table = table, td_column = column, td_expected = expected, td_actual = actual,
        td_row = '' at row '' @ nat_to_dec row, td_message = message\<rparr>"

subsection \<open>Columns\<close>

definition is_integer_type :: "dtype \<Rightarrow> bool" where
  "is_integer_type t \<longleftrightarrow> t \<in> {DtInt32, DtInt64, DtUInt32, DtUInt64}"

text \<open>The expected types the code names.\<close>

datatype expected =
    ExString | ExNullableString | ExStringOrInteger | ExNullableStringOrInteger | ExInteger | ExNullableInteger
  | ExNullableCommunity | ExNullableFloat | ExNullableStringOrList | ExStringList | ExIntegerList

fun expected_name :: "expected \<Rightarrow> string" where
  "expected_name ExString = ''string''"
| "expected_name ExNullableString = ''nullable string''"
| "expected_name ExStringOrInteger = ''string or integer''"
| "expected_name ExNullableStringOrInteger = ''nullable string or integer''"
| "expected_name ExInteger = ''integer''"
| "expected_name ExNullableInteger = ''nullable integer''"
| "expected_name ExNullableCommunity = ''nullable community number''"
| "expected_name ExNullableFloat = ''nullable float''"
| "expected_name ExNullableStringOrList = ''nullable string or list<string>''"
| "expected_name ExStringList = ''list<string>''"
| "expected_name ExIntegerList = ''list<integer>''"

definition is_nullable :: "expected \<Rightarrow> bool" where
  "is_nullable e \<longleftrightarrow> (e \<in> {ExNullableString, ExNullableStringOrInteger, ExNullableInteger, ExNullableCommunity,
                         ExNullableFloat, ExNullableStringOrList})"

definition column_type_matches :: "dtype \<Rightarrow> expected \<Rightarrow> bool" where
  "column_type_matches t e =
     (if t = DtNull \<and> is_nullable e then True
      else case e of
        ExString \<Rightarrow> t = DtString
      | ExNullableString \<Rightarrow> t = DtString
      | ExStringOrInteger \<Rightarrow> t = DtString \<or> is_integer_type t
      | ExNullableStringOrInteger \<Rightarrow> t = DtString \<or> is_integer_type t
      | ExInteger \<Rightarrow> is_integer_type t
      | ExNullableInteger \<Rightarrow> is_integer_type t
      | ExNullableCommunity \<Rightarrow> is_integer_type t \<or> t = DtFloat32 \<or> t = DtFloat64
      | ExNullableFloat \<Rightarrow> t = DtFloat32 \<or> t = DtFloat64 \<or> is_integer_type t
      | ExNullableStringOrList \<Rightarrow> t = DtString \<or> t = DtList DtString \<or> t = DtList DtNull
      | ExStringList \<Rightarrow> t = DtList DtString \<or> t = DtList DtNull
      | ExIntegerList \<Rightarrow> (case t of DtList inner \<Rightarrow> inner = DtNull \<or> is_integer_type inner | _ \<Rightarrow> False))"

definition validate_column_type ::
  "'f frame_lib \<Rightarrow> search_method \<Rightarrow> string \<Rightarrow> 'f column \<Rightarrow> usize \<Rightarrow> string \<Rightarrow> expected \<Rightarrow> query_error + unit" where
  "validate_column_type fl method table column row name expected =
     (if column_type_matches (cl_dtype column) expected then Inr ()
      else Inl (invalid_value method table name (expected_name expected) (fl_show fl (cl_dtype column)) row
             ''column has an incompatible physical type''))"

definition required_column ::
  "'f frame_lib \<Rightarrow> search_method \<Rightarrow> string \<Rightarrow> 'f data_frame \<Rightarrow> usize \<Rightarrow> string \<Rightarrow> expected \<Rightarrow> query_error + 'f column" where
  "required_column fl method table df row name expected =
     (case df_column df name of
        None \<Rightarrow> Inl (invalid_value method table name (expected_name expected) ''missing'' row ''required column is absent'')
      | Some column \<Rightarrow>
          and_then (validate_column_type fl method table column row name expected) (\<lambda>_. Inr column))"

definition optional_column ::
  "'f frame_lib \<Rightarrow> search_method \<Rightarrow> string \<Rightarrow> 'f data_frame \<Rightarrow> usize \<Rightarrow> string \<Rightarrow> expected
   \<Rightarrow> query_error + 'f column option" where
  "optional_column fl method table df row name expected =
     (case df_column df name of
        None \<Rightarrow> Inr None
      | Some column \<Rightarrow>
          if cl_dtype column = DtNull then Inr (Some column)
          else and_then (validate_column_type fl method table column row name expected) (\<lambda>_. Inr (Some column)))"

definition validate_schema ::
  "'f frame_lib \<Rightarrow> search_method \<Rightarrow> string \<Rightarrow> 'f data_frame \<Rightarrow> (string \<times> expected) list \<Rightarrow> (string \<times> expected) list
   \<Rightarrow> query_error + unit" where
  "validate_schema fl method table df required optional =
     and_then (try_map (\<lambda>(name, expected). required_column fl method table df 0 name expected) required) (\<lambda>_.
     and_then (try_map (\<lambda>(name, expected). optional_column fl method table df 0 name expected) optional) (\<lambda>_.
       Inr ()))"

subsection \<open>Cells\<close>

definition get_cell ::
  "'f frame_lib \<Rightarrow> search_method \<Rightarrow> string \<Rightarrow> 'f column \<Rightarrow> usize \<Rightarrow> string \<Rightarrow> expected
   \<Rightarrow> query_error + 'f any_value \<times> string" where
  "get_cell fl method table column row name expected =
     (let actual = fl_show fl (cl_dtype column) in
      if row < length (cl_cells column) then Inr (cl_cells column ! row, actual)
      else Inl (invalid_value method table name (expected_name expected) actual row (fl_out_of_bounds fl row)))"

definition required_value ::
  "'f frame_lib \<Rightarrow> search_method \<Rightarrow> string \<Rightarrow> 'f data_frame \<Rightarrow> usize \<Rightarrow> string \<Rightarrow> expected
   \<Rightarrow> query_error + 'f any_value \<times> string" where
  "required_value fl method table df row name expected =
     and_then (required_column fl method table df row name expected) (\<lambda>column.
       get_cell fl method table column row name expected)"

definition optional_value ::
  "'f frame_lib \<Rightarrow> search_method \<Rightarrow> string \<Rightarrow> 'f data_frame \<Rightarrow> usize \<Rightarrow> string \<Rightarrow> expected
   \<Rightarrow> query_error + ('f any_value \<times> string) option" where
  "optional_value fl method table df row name expected =
     and_then (optional_column fl method table df row name expected) (\<lambda>column.
       case column of
         None \<Rightarrow> Inr None
       | Some column \<Rightarrow> and_then (get_cell fl method table column row name expected) (\<lambda>v. Inr (Some v)))"

fun string_value :: "'f any_value \<Rightarrow> string option" where
  "string_value (AnyString s) = Some s"
| "string_value (AnyStringOwned s) = Some s"
| "string_value _ = None"

fun integer_value :: "'f any_value \<Rightarrow> string + i64 option" where
  "integer_value AnyNull = Inr None"
| "integer_value (AnyInt32 n) = Inr (Some n)"
| "integer_value (AnyInt64 n) = Inr (Some n)"
| "integer_value (AnyUInt32 n) = Inr (Some n)"
| "integer_value (AnyUInt64 n) =
     (if n \<le> i64_max then Inr (Some n) else Inl (''unsigned value '' @ int_to_dec n @ '' exceeds i64''))"
| "integer_value _ = Inl ''incompatible integer value''"

definition stringish_value :: "'f any_value \<Rightarrow> string option" where
  "stringish_value v =
     (case string_value v of
        Some s \<Rightarrow> Some s
      | None \<Rightarrow> (case integer_value v of Inr (Some n) \<Rightarrow> Some (int_to_dec n) | _ \<Rightarrow> None))"

definition required_string ::
  "'f frame_lib \<Rightarrow> search_method \<Rightarrow> string \<Rightarrow> 'f data_frame \<Rightarrow> usize \<Rightarrow> string \<Rightarrow> query_error + string" where
  "required_string fl method table df row name =
     and_then (required_value fl method table df row name ExString) (\<lambda>(v, actual).
       ok_or (invalid_value method table name ''string'' actual row ''value is null or not UTF-8'') (string_value v))"

definition required_graphrag_string ::
  "'f frame_lib \<Rightarrow> search_method \<Rightarrow> string \<Rightarrow> 'f data_frame \<Rightarrow> usize \<Rightarrow> string \<Rightarrow> query_error + string" where
  "required_graphrag_string fl method table df row name =
     and_then (required_value fl method table df row name ExString) (\<lambda>(v, actual).
       if v = AnyNull then Inr ''None''
       else ok_or (invalid_value method table name ''string'' actual row ''value is not UTF-8'') (string_value v))"

definition required_graphrag_stringish ::
  "'f frame_lib \<Rightarrow> search_method \<Rightarrow> string \<Rightarrow> 'f data_frame \<Rightarrow> usize \<Rightarrow> string \<Rightarrow> query_error + string" where
  "required_graphrag_stringish fl method table df row name =
     and_then (required_value fl method table df row name ExStringOrInteger) (\<lambda>(v, actual).
       if v = AnyNull then Inr ''None''
       else ok_or (invalid_value method table name ''string or integer'' actual row ''value is incompatible'')
              (stringish_value v))"

definition optional_string ::
  "'f frame_lib \<Rightarrow> search_method \<Rightarrow> string \<Rightarrow> 'f data_frame \<Rightarrow> usize \<Rightarrow> string \<Rightarrow> query_error + string option" where
  "optional_string fl method table df row name =
     and_then (optional_value fl method table df row name ExNullableString) (\<lambda>cell.
       case cell of
         None \<Rightarrow> Inr None
       | Some (v, actual) \<Rightarrow>
           if v = AnyNull then Inr None
           else and_then (ok_or (invalid_value method table name ''nullable string'' actual row ''incompatible value'')
                  (string_value v)) (\<lambda>s. Inr (Some s)))"

definition optional_stringish ::
  "'f frame_lib \<Rightarrow> search_method \<Rightarrow> string \<Rightarrow> 'f data_frame \<Rightarrow> usize \<Rightarrow> string \<Rightarrow> query_error + string option" where
  "optional_stringish fl method table df row name =
     and_then (optional_value fl method table df row name ExNullableStringOrInteger) (\<lambda>cell.
       case cell of
         None \<Rightarrow> Inr None
       | Some (v, actual) \<Rightarrow>
           if v = AnyNull then Inr None
           else and_then (ok_or (invalid_value method table name ''nullable string or integer'' actual row ''incompatible value'')
                  (stringish_value v)) (\<lambda>s. Inr (Some s)))"

definition required_i64 ::
  "'f frame_lib \<Rightarrow> search_method \<Rightarrow> string \<Rightarrow> 'f data_frame \<Rightarrow> usize \<Rightarrow> string \<Rightarrow> query_error + i64" where
  "required_i64 fl method table df row name =
     and_then (required_value fl method table df row name ExInteger) (\<lambda>(v, actual).
     and_then (map_err (invalid_value method table name ''integer'' actual row) (integer_value v)) (\<lambda>n.
       ok_or (invalid_value method table name ''integer'' actual row ''value is null'') n))"

definition optional_i64 ::
  "'f frame_lib \<Rightarrow> search_method \<Rightarrow> string \<Rightarrow> 'f data_frame \<Rightarrow> usize \<Rightarrow> string \<Rightarrow> query_error + i64 option" where
  "optional_i64 fl method table df row name =
     and_then (optional_value fl method table df row name ExNullableInteger) (\<lambda>cell.
       case cell of
         None \<Rightarrow> Inr None
       | Some (v, actual) \<Rightarrow> map_err (invalid_value method table name ''nullable integer'' actual row) (integer_value v))"

definition integral_f64 ::
  "'f frame_lib \<Rightarrow> search_method \<Rightarrow> string \<Rightarrow> 'f \<Rightarrow> string \<Rightarrow> string \<Rightarrow> usize \<Rightarrow> query_error + i64" where
  "integral_f64 fl method table v name actual row =
     (if fl_finite fl v \<and> fl_integral fl v \<and> fl_in_i64 fl v then Inr (fl_to_i64 fl v)
      else Inl (invalid_value method table name ''integral finite community number'' actual row
             ''value cannot be represented as i64''))"

definition optional_community_id ::
  "'f frame_lib \<Rightarrow> search_method \<Rightarrow> string \<Rightarrow> 'f data_frame \<Rightarrow> usize \<Rightarrow> string \<Rightarrow> query_error + i64 option" where
  "optional_community_id fl method table df row name =
     and_then (optional_value fl method table df row name ExNullableCommunity) (\<lambda>cell.
       case cell of
         None \<Rightarrow> Inr None
       | Some (v, actual) \<Rightarrow>
           (case v of
              AnyNull \<Rightarrow> Inr None
            | AnyFloat32 x \<Rightarrow> and_then (integral_f64 fl method table x name actual row) (\<lambda>n. Inr (Some n))
            | AnyFloat64 x \<Rightarrow> and_then (integral_f64 fl method table x name actual row) (\<lambda>n. Inr (Some n))
            | _ \<Rightarrow> map_err (invalid_value method table name ''nullable community number'' actual row) (integer_value v)))"

definition required_community_id ::
  "'f frame_lib \<Rightarrow> search_method \<Rightarrow> string \<Rightarrow> 'f data_frame \<Rightarrow> usize \<Rightarrow> string \<Rightarrow> query_error + i64" where
  "required_community_id fl method table df row name =
     and_then (optional_community_id fl method table df row name) (\<lambda>n.
       ok_or (invalid_value method table name ''nullable community number''
         (case df_column df name of None \<Rightarrow> ''missing'' | Some column \<Rightarrow> fl_show fl (cl_dtype column)) row ''value is null'') n)"

definition optional_f64 ::
  "'f frame_lib \<Rightarrow> search_method \<Rightarrow> string \<Rightarrow> 'f data_frame \<Rightarrow> usize \<Rightarrow> string \<Rightarrow> query_error + 'f option" where
  "optional_f64 fl method table df row name =
     and_then (optional_value fl method table df row name ExNullableFloat) (\<lambda>cell.
       case cell of
         None \<Rightarrow> Inr None
       | Some (v, actual) \<Rightarrow>
           (let finite = (\<lambda>x. if fl_finite fl x then Inr (Some x)
                  else Inl (invalid_value method table name ''finite float'' actual row ''value is non-finite'')) in
            case v of
              AnyNull \<Rightarrow> Inr None
            | AnyFloat32 x \<Rightarrow> finite x
            | AnyFloat64 x \<Rightarrow> finite x
            | AnyInt32 n \<Rightarrow> finite (fl_of_int fl n)
            | AnyInt64 n \<Rightarrow> finite (fl_of_int fl n)
            | AnyUInt32 n \<Rightarrow> finite (fl_of_int fl n)
            | AnyUInt64 n \<Rightarrow> finite (fl_of_int fl n)
            | _ \<Rightarrow> Inl (invalid_value method table name ''nullable float'' actual row ''incompatible value'')))"

definition string_list_value ::
  "search_method \<Rightarrow> string \<Rightarrow> 'f any_value \<Rightarrow> string \<Rightarrow> expected \<Rightarrow> string \<Rightarrow> usize \<Rightarrow> query_error + string list" where
  "string_list_value method table v name expected actual row =
     (case v of
        AnyNull \<Rightarrow> Inr []
      | AnyList items \<Rightarrow>
          try_map (\<lambda>item. ok_or (invalid_value method table name (expected_name expected) actual row
            ''list contains a null or non-string value'') (string_value item)) items
      | _ \<Rightarrow> Inl (invalid_value method table name (expected_name expected) actual row ''incompatible value''))"

definition optional_string_list ::
  "'f frame_lib \<Rightarrow> search_method \<Rightarrow> string \<Rightarrow> 'f data_frame \<Rightarrow> usize \<Rightarrow> string \<Rightarrow> query_error + string list" where
  "optional_string_list fl method table df row name =
     and_then (optional_value fl method table df row name ExNullableStringOrList) (\<lambda>cell.
       case cell of
         None \<Rightarrow> Inr []
       | Some (v, actual) \<Rightarrow>
           (case string_value v of
              Some s \<Rightarrow> Inr [s]
            | None \<Rightarrow> string_list_value method table v name ExNullableStringOrList actual row))"

definition required_string_list ::
  "'f frame_lib \<Rightarrow> search_method \<Rightarrow> string \<Rightarrow> 'f data_frame \<Rightarrow> usize \<Rightarrow> string \<Rightarrow> query_error + string list" where
  "required_string_list fl method table df row name =
     and_then (required_value fl method table df row name ExStringList) (\<lambda>(v, actual).
       if v = AnyNull then Inl (invalid_value method table name ''list<string>'' actual row ''value is null'')
       else string_list_value method table v name ExStringList actual row)"

definition required_i64_list ::
  "'f frame_lib \<Rightarrow> search_method \<Rightarrow> string \<Rightarrow> 'f data_frame \<Rightarrow> usize \<Rightarrow> string \<Rightarrow> query_error + i64 list" where
  "required_i64_list fl method table df row name =
     and_then (required_value fl method table df row name ExIntegerList) (\<lambda>(v, actual).
       case v of
         AnyNull \<Rightarrow> Inl (invalid_value method table name ''list<integer>'' actual row ''value is null'')
       | AnyList items \<Rightarrow>
           try_map (\<lambda>item.
             and_then (map_err (invalid_value method table name ''list<integer>'' actual row) (integer_value item)) (\<lambda>n.
               ok_or (invalid_value method table name ''list<integer>'' actual row ''list contains a null value'') n)) items
       | _ \<Rightarrow> Inl (invalid_value method table name ''list<integer>'' actual row ''incompatible value''))"

subsection \<open>Tables\<close>

definition text_unit_row ::
  "'f frame_lib \<Rightarrow> search_method \<Rightarrow> 'f data_frame \<Rightarrow> usize \<Rightarrow> query_error + text_unit" where
  "text_unit_row fl method df row =
     (let t = ''text_units'' in
      and_then (required_string fl method t df row ''id'') (\<lambda>i.
      and_then (required_string fl method t df row ''text'') (\<lambda>txt.
      and_then (optional_string_list fl method t df row ''entity_ids'') (\<lambda>entity_ids.
      and_then (optional_string_list fl method t df row ''relationship_ids'') (\<lambda>relationship_ids.
      and_then (optional_i64 fl method t df row ''n_tokens'') (\<lambda>n_tokens.
      and_then (optional_string fl method t df row ''document_id'') (\<lambda>document_id.
        Inr \<lparr>tu_id = i, tu_short_id = nat_to_dec row, tu_text = txt, tu_entity_ids = entity_ids,
             tu_relationship_ids = relationship_ids, tu_covariate_ids = [], tu_n_tokens = n_tokens,
             tu_document_id = document_id\<rparr>)))))))"

definition read_indexer_text_units ::
  "'f frame_lib \<Rightarrow> search_method \<Rightarrow> 'f data_frame \<Rightarrow> query_error + text_unit list" where
  "read_indexer_text_units fl method df =
     and_then (validate_schema fl method ''text_units'' df
       [(''id'', ExString), (''text'', ExString)]
       [(''entity_ids'', ExNullableStringOrList), (''relationship_ids'', ExNullableStringOrList),
        (''n_tokens'', ExNullableInteger), (''document_id'', ExNullableString)]) (\<lambda>_.
       try_map (text_unit_row fl method df) [0..<df_height df])"

definition relationship_of_row ::
  "'f frame_lib \<Rightarrow> search_method \<Rightarrow> 'f data_frame \<Rightarrow> usize \<Rightarrow> query_error + 'f query_relationship" where
  "relationship_of_row fl method df row =
     (let t = ''relationships'' in
      and_then (required_string fl method t df row ''id'') (\<lambda>i.
      and_then (optional_stringish fl method t df row ''human_readable_id'') (\<lambda>short_id.
      and_then (required_string fl method t df row ''source'') (\<lambda>source.
      and_then (required_string fl method t df row ''target'') (\<lambda>target.
      and_then (optional_string fl method t df row ''description'') (\<lambda>description.
      and_then (optional_f64 fl method t df row ''weight'') (\<lambda>weight.
      and_then (optional_i64 fl method t df row ''combined_degree'') (\<lambda>rank.
      and_then (optional_string_list fl method t df row ''text_unit_ids'') (\<lambda>text_unit_ids.
        Inr \<lparr>rl_id = i, rl_short_id = short_id, rl_source = source, rl_target = target, rl_description = description,
             rl_weight = weight, rl_rank = rank, rl_text_unit_ids = text_unit_ids\<rparr>)))))))))"

definition read_indexer_relationships ::
  "'f frame_lib \<Rightarrow> search_method \<Rightarrow> 'f data_frame \<Rightarrow> query_error + 'f query_relationship list" where
  "read_indexer_relationships fl method df =
     and_then (validate_schema fl method ''relationships'' df
       [(''id'', ExString), (''source'', ExString), (''target'', ExString)]
       [(''human_readable_id'', ExNullableStringOrInteger), (''description'', ExNullableString),
        (''weight'', ExNullableFloat), (''combined_degree'', ExNullableInteger),
        (''text_unit_ids'', ExNullableStringOrList)]) (\<lambda>_.
       try_map (relationship_of_row fl method df) [0..<df_height df])"

definition covariate_of_row ::
  "'f frame_lib \<Rightarrow> search_method \<Rightarrow> 'f data_frame \<Rightarrow> usize \<Rightarrow> query_error + query_covariate" where
  "covariate_of_row fl method df row =
     (let t = ''covariates'' in
      and_then (required_graphrag_stringish fl method t df row ''id'') (\<lambda>i.
      and_then (optional_stringish fl method t df row ''human_readable_id'') (\<lambda>short_id.
      and_then (required_graphrag_string fl method t df row ''subject_id'') (\<lambda>subject_id.
      and_then (required_graphrag_string fl method t df row ''type'') (\<lambda>covariate_type.
      and_then (optional_string fl method t df row ''object_id'') (\<lambda>object_id.
      and_then (optional_string fl method t df row ''status'') (\<lambda>status.
      and_then (optional_string fl method t df row ''start_date'') (\<lambda>start_date.
      and_then (optional_string fl method t df row ''end_date'') (\<lambda>end_date.
      and_then (optional_string fl method t df row ''description'') (\<lambda>description.
        Inr \<lparr>qv_id = i, qv_short_id = short_id, qv_subject_id = subject_id, qv_covariate_type = covariate_type,
             qv_object_id = object_id, qv_status = status, qv_start_date = start_date, qv_end_date = end_date,
             qv_description = description\<rparr>))))))))))"

definition read_indexer_covariates ::
  "'f frame_lib \<Rightarrow> search_method \<Rightarrow> 'f data_frame \<Rightarrow> query_error + query_covariate list" where
  "read_indexer_covariates fl method df =
     and_then (validate_schema fl method ''covariates'' df
       [(''id'', ExStringOrInteger), (''subject_id'', ExString), (''type'', ExString)]
       [(''human_readable_id'', ExNullableStringOrInteger), (''object_id'', ExNullableString),
        (''status'', ExNullableString), (''start_date'', ExNullableString), (''end_date'', ExNullableString),
        (''description'', ExNullableString)]) (\<lambda>_.
       try_map (covariate_of_row fl method df) [0..<df_height df])"

record community_membership =
  mb_community :: i64
  mb_level :: i64
  mb_entity_ids :: "string list"

definition community_memberships ::
  "'f frame_lib \<Rightarrow> search_method \<Rightarrow> 'f data_frame \<Rightarrow> query_error + community_membership list" where
  "community_memberships fl method df =
     try_map (\<lambda>row.
       and_then (required_i64 fl method ''communities'' df row ''community'') (\<lambda>community.
       and_then (required_i64 fl method ''communities'' df row ''level'') (\<lambda>level.
       and_then (required_string_list fl method ''communities'' df row ''entity_ids'') (\<lambda>entity_ids.
         Inr \<lparr>mb_community = community, mb_level = level, mb_entity_ids = entity_ids\<rparr>)))) [0..<df_height df]"

text \<open>A sorted set of integers is a set here; it is listed in order when it is read.\<close>

definition add_membership :: "i64 \<Rightarrow> (string \<rightharpoonup> i64 set) \<Rightarrow> community_membership \<Rightarrow> string \<rightharpoonup> i64 set" where
  "add_membership community_level membership row =
     (if mb_level row \<le> community_level then
        foldl (\<lambda>m entity_id. m(entity_id \<mapsto> insert (mb_community row) (case m entity_id of None \<Rightarrow> {} | Some s \<Rightarrow> s)))
          membership (mb_entity_ids row)
      else membership)"

definition entity_of_row ::
  "'f frame_lib \<Rightarrow> search_method \<Rightarrow> (string \<rightharpoonup> i64 set) \<Rightarrow> 'f data_frame \<Rightarrow> usize \<Rightarrow> string
   \<Rightarrow> query_error + query_entity" where
  "entity_of_row fl method membership df row i =
     (let t = ''entities'';
          community_ids = (case membership i of None \<Rightarrow> [''-1''] | Some s \<Rightarrow> map int_to_dec (sorted_list_of_set s)) in
      and_then (optional_stringish fl method t df row ''human_readable_id'') (\<lambda>short_id.
      and_then (required_string fl method t df row ''title'') (\<lambda>title.
      and_then (optional_string fl method t df row ''type'') (\<lambda>entity_type.
      and_then (optional_string fl method t df row ''description'') (\<lambda>description.
      and_then (optional_string_list fl method t df row ''text_unit_ids'') (\<lambda>text_unit_ids.
      and_then (optional_i64 fl method t df row ''degree'') (\<lambda>rank.
        Inr \<lparr>en_id = i, en_short_id = short_id, en_title = title, en_entity_type = entity_type,
             en_description = description, en_community_ids = community_ids, en_text_unit_ids = text_unit_ids,
             en_rank = rank\<rparr>)))))))"

fun entity_rows ::
  "'f frame_lib \<Rightarrow> search_method \<Rightarrow> (string \<rightharpoonup> i64 set) \<Rightarrow> 'f data_frame \<Rightarrow> string set \<Rightarrow> usize list
   \<Rightarrow> query_error + query_entity list" where
  "entity_rows fl method membership df seen_ids [] = Inr []"
| "entity_rows fl method membership df seen_ids (row # rows) =
     and_then (required_string fl method ''entities'' df row ''id'') (\<lambda>i.
       if i \<in> seen_ids then entity_rows fl method membership df seen_ids rows
       else
         and_then (entity_of_row fl method membership df row i) (\<lambda>e.
         and_then (entity_rows fl method membership df (insert i seen_ids) rows) (\<lambda>es. Inr (e # es))))"

definition read_indexer_entities ::
  "'f frame_lib \<Rightarrow> search_method \<Rightarrow> 'f data_frame \<Rightarrow> 'f data_frame \<Rightarrow> i64 \<Rightarrow> query_error + query_entity list" where
  "read_indexer_entities fl method entities communities community_level =
     and_then (validate_schema fl method ''entities'' entities
       [(''id'', ExString), (''title'', ExString)]
       [(''human_readable_id'', ExNullableStringOrInteger), (''type'', ExNullableString),
        (''description'', ExNullableString), (''degree'', ExNullableInteger),
        (''text_unit_ids'', ExNullableStringOrList)]) (\<lambda>_.
     and_then (validate_schema fl method ''communities'' communities
       [(''community'', ExInteger), (''level'', ExInteger), (''entity_ids'', ExStringList)] []) (\<lambda>_.
     and_then (community_memberships fl method communities) (\<lambda>rows.
       entity_rows fl method (foldl (add_membership community_level) Map.empty rows) entities {} [0..<df_height entities])))"

text \<open>Rows that the loops skip are \<open>None\<close>.\<close>

definition try_filter_map :: "('a \<Rightarrow> 'e + 'b option) \<Rightarrow> 'a list \<Rightarrow> 'e + 'b list" where
  "try_filter_map f xs = and_then (try_map f xs) (\<lambda>ys. Inr (List.map_filter id ys))"

definition community_rollup_rows ::
  "'f frame_lib \<Rightarrow> search_method \<Rightarrow> 'f data_frame \<Rightarrow> i64 \<Rightarrow> query_error + (i64 \<times> string) list" where
  "community_rollup_rows fl method df community_level =
     try_filter_map (\<lambda>row.
       and_then (required_i64 fl method ''communities'' df row ''level'') (\<lambda>level.
         if community_level < level then Inr None
         else
           and_then (optional_string fl method ''communities'' df row ''title'') (\<lambda>title.
             case title of
               None \<Rightarrow> Inr None
             | Some title \<Rightarrow>
                 and_then (optional_community_id fl method ''communities'' df row ''community'') (\<lambda>community.
                   Inr (Some (case community of None \<Rightarrow> -1 | Some c \<Rightarrow> c, title)))))) [0..<df_height df]"

definition validate_dynamic_community_rows ::
  "'f frame_lib \<Rightarrow> search_method \<Rightarrow> 'f data_frame \<Rightarrow> query_error + unit" where
  "validate_dynamic_community_rows fl method df =
     and_then (try_map (\<lambda>row. required_i64 fl method ''communities'' df row ''level'') [0..<df_height df]) (\<lambda>_. Inr ())"

fun roll_up :: "i64 \<times> string \<Rightarrow> (string \<times> i64) list \<Rightarrow> (string \<times> i64) list" where
  "roll_up (community, title) [] = [(title, community)]"
| "roll_up (community, title) ((t, c) # rest) =
     (if t = title then (t, max c community) # rest else (t, c) # roll_up (community, title) rest)"

definition allowed_communities :: "(i64 \<times> string) list \<Rightarrow> i64 list" where
  "allowed_communities rows =
     foldl (\<lambda>cs (_, c). if c \<in> set cs then cs else cs @ [c]) [] (foldl (\<lambda>m row. roll_up row m) [] rows)"

definition report_of_row ::
  "'f frame_lib \<Rightarrow> search_method \<Rightarrow> 'f data_frame \<Rightarrow> usize \<Rightarrow> i64 \<Rightarrow> query_error + 'f community_report" where
  "report_of_row fl method df row community =
     (let t = ''community_reports'' in
      and_then (required_string fl method t df row ''id'') (\<lambda>i.
      and_then (required_string fl method t df row ''title'') (\<lambda>title.
      and_then (required_string fl method t df row ''summary'') (\<lambda>summary.
      and_then (required_string fl method t df row ''full_content'') (\<lambda>full_content.
      and_then (optional_f64 fl method t df row ''rank'') (\<lambda>rank.
        Inr \<lparr>rp_id = i, rp_short_id = int_to_dec community, rp_community_id = int_to_dec community, rp_title = title,
             rp_summary = summary, rp_full_content = full_content, rp_rank = rank,
             rp_full_content_embedding = None\<rparr>))))))"

definition report_community ::
  "'f frame_lib \<Rightarrow> search_method \<Rightarrow> 'f data_frame \<Rightarrow> bool \<Rightarrow> usize \<Rightarrow> query_error + i64 option" where
  "report_community fl method reports dynamic row =
     (if dynamic then
        and_then (required_community_id fl method ''community_reports'' reports row ''community'') (\<lambda>c. Inr (Some c))
      else optional_community_id fl method ''community_reports'' reports row ''community'')"

definition report_row_of ::
  "'f frame_lib \<Rightarrow> search_method \<Rightarrow> 'f data_frame \<Rightarrow> i64 \<Rightarrow> bool \<Rightarrow> i64 list option \<Rightarrow> usize
   \<Rightarrow> query_error + 'f community_report option" where
  "report_row_of fl method reports community_level dynamic allowed row =
     and_then (required_i64 fl method ''community_reports'' reports row ''level'') (\<lambda>level.
       if community_level < level then Inr None
       else
         and_then (report_community fl method reports dynamic row) (\<lambda>community.
           case community of
             None \<Rightarrow> Inr None
           | Some c \<Rightarrow>
               if (case allowed of None \<Rightarrow> False | Some cs \<Rightarrow> c \<notin> set cs) then Inr None
               else and_then (report_of_row fl method reports row c) (\<lambda>r. Inr (Some r))))"

definition allowed_reports ::
  "'f frame_lib \<Rightarrow> search_method \<Rightarrow> 'f data_frame \<Rightarrow> i64 \<Rightarrow> bool \<Rightarrow> query_error + i64 list option" where
  "allowed_reports fl method communities community_level dynamic =
     (if dynamic then and_then (validate_dynamic_community_rows fl method communities) (\<lambda>_. Inr None)
      else and_then (community_rollup_rows fl method communities community_level) (\<lambda>rows.
             Inr (Some (allowed_communities rows))))"

definition read_indexer_reports ::
  "'f frame_lib \<Rightarrow> search_method \<Rightarrow> 'f data_frame \<Rightarrow> 'f data_frame \<Rightarrow> i64 \<Rightarrow> bool
   \<Rightarrow> query_error + 'f community_report list" where
  "read_indexer_reports fl method reports communities community_level dynamic =
     and_then (validate_schema fl method ''community_reports'' reports
       [(''id'', ExString), (''community'', ExNullableCommunity), (''level'', ExInteger), (''title'', ExString),
        (''summary'', ExString), (''full_content'', ExString)] [(''rank'', ExNullableFloat)]) (\<lambda>_.
     and_then (validate_schema fl method ''communities'' communities
       (if dynamic then [(''level'', ExInteger), (''entity_ids'', ExStringList)]
        else [(''level'', ExInteger), (''entity_ids'', ExStringList), (''community'', ExNullableCommunity),
              (''title'', ExNullableString)]) []) (\<lambda>_.
     and_then (allowed_reports fl method communities community_level dynamic) (\<lambda>allowed.
       try_filter_map (report_row_of fl method reports community_level dynamic allowed) [0..<df_height reports])))"

definition community_of_row ::
  "'f frame_lib \<Rightarrow> search_method \<Rightarrow> 'f data_frame \<Rightarrow> i64 set \<Rightarrow> usize \<Rightarrow> query_error + community option" where
  "community_of_row fl method df report_ids row =
     (let t = ''communities'' in
      and_then (required_i64 fl method t df row ''community'') (\<lambda>c.
        if c \<notin> report_ids then Inr None
        else
          and_then (required_string fl method t df row ''id'') (\<lambda>i.
          and_then (required_string fl method t df row ''title'') (\<lambda>title.
          and_then (required_i64 fl method t df row ''level'') (\<lambda>level.
          and_then (required_i64 fl method t df row ''parent'') (\<lambda>parent.
          and_then (required_i64_list fl method t df row ''children'') (\<lambda>children.
            Inr (Some \<lparr>cm_id = i, cm_short_id = int_to_dec c, cm_title = title, cm_level = level, cm_parent = parent,
                       cm_children = children\<rparr>))))))))"

definition read_indexer_communities ::
  "'f frame_lib \<Rightarrow> search_method \<Rightarrow> 'f data_frame \<Rightarrow> 'f data_frame \<Rightarrow> query_error + community list" where
  "read_indexer_communities fl method communities reports =
     and_then (validate_schema fl method ''communities'' communities
       [(''id'', ExString), (''community'', ExInteger), (''title'', ExString), (''level'', ExInteger),
        (''parent'', ExInteger), (''children'', ExIntegerList)] []) (\<lambda>_.
     and_then (validate_schema fl method ''community_reports'' reports [(''community'', ExInteger)] []) (\<lambda>_.
     and_then (try_map (\<lambda>row. required_i64 fl method ''community_reports'' reports row ''community'') [0..<df_height reports])
       (\<lambda>report_ids.
       try_filter_map (community_of_row fl method communities (set report_ids)) [0..<df_height communities])))"

text \<open>Hydrating updates the reports in place, so it returns them with its result: those before an error are updated.
  The store is what it returns for an identifier: a missing index, another error, or the vector if any.\<close>

datatype 'f lookup_result = LookupMissingIndex string | LookupFailed string | LookupVector "'f list option"

fun read_indexer_report_embeddings ::
  "(string \<Rightarrow> 'f lookup_result) \<Rightarrow> string \<Rightarrow> search_method \<Rightarrow> 'f community_report list \<Rightarrow> usize
   \<Rightarrow> (query_error + usize) \<times> 'f community_report list" where
  "read_indexer_report_embeddings get_by_id index method [] missing = (Inr missing, [])"
| "read_indexer_report_embeddings get_by_id index method (r # rs) missing =
     (case get_by_id (rp_id r) of
        LookupMissingIndex source \<Rightarrow>
          (Inl (MissingVectorIndex method ''hydrate community report embeddings'' index source), r # rs)
      | LookupFailed source \<Rightarrow>
          (Inl (InvalidVectorIndex method ''hydrate community report embeddings'' index source), r # rs)
      | LookupVector v \<Rightarrow>
          (case read_indexer_report_embeddings get_by_id index method rs (if v = None then usize_sat_add missing 1 else missing) of
             (result, rs) \<Rightarrow> (result, r\<lparr>rp_full_content_embedding := v\<rparr> # rs)))"

end
