(* ===== verification/Indexer_Adapters_Laws.thy ===== *)
theory Indexer_Adapters_Laws
  imports Indexer_Adapters
begin

text \<open>
  What the table adapters guarantee: every failure is a typed error of the table, conforming frames
  only fail on missing or null data, entities are the first rows of their identifiers with their
  communities, and reports follow the roll-up by title.
\<close>

subsection \<open>Failures\<close>

definition fails_within :: "'e + 'a \<Rightarrow> ('e \<Rightarrow> bool) \<Rightarrow> bool" where
  "fails_within r P \<longleftrightarrow> (\<forall>e. r = Inl e \<longrightarrow> P e)"

lemma fails_within_simps [simp]: "fails_within (Inr x) P" "fails_within (Inl e) P = P e"
  by (simp_all add: fails_within_def)

lemma fails_within_and_then:
  "fails_within r P \<Longrightarrow> (\<And>x. r = Inr x \<Longrightarrow> fails_within (f x) P) \<Longrightarrow> fails_within (and_then r f) P"
  by (cases r) auto

lemma fails_within_ok_or [simp]: "fails_within (ok_or e v) P \<longleftrightarrow> (v = None \<longrightarrow> P e)"
  by (cases v) auto

lemma fails_within_try_map: "(\<And>x. x \<in> set xs \<Longrightarrow> fails_within (f x) P) \<Longrightarrow> fails_within (try_map f xs) P"
  by (induction xs) (auto intro!: fails_within_and_then)

text \<open>A cell of its column's type. The unsigned values above the \<open>i64\<close> range are those of \<open>over\<close>: with
  \<open>UNIV\<close> any cell of its type conforms, with the empty set every unsigned value also fits \<open>i64\<close>.\<close>

fun cell_conforms :: "int set \<Rightarrow> dtype \<Rightarrow> 'f any_value \<Rightarrow> bool" where
  "cell_conforms over t AnyNull = True"
| "cell_conforms over DtString (AnyString s) = True"
| "cell_conforms over DtString (AnyStringOwned s) = True"
| "cell_conforms over DtInt32 (AnyInt32 n) = True"
| "cell_conforms over DtInt64 (AnyInt64 n) = True"
| "cell_conforms over DtUInt32 (AnyUInt32 n) = True"
| "cell_conforms over DtUInt64 (AnyUInt64 n) = (n \<le> i64_max \<or> n \<in> over)"
| "cell_conforms over DtFloat32 (AnyFloat32 x) = True"
| "cell_conforms over DtFloat64 (AnyFloat64 x) = True"
| "cell_conforms over (DtList t) (AnyList vs) = list_all (cell_conforms over t) vs"
| "cell_conforms over t v = False"

definition frame_conforms :: "int set \<Rightarrow> 'f data_frame \<Rightarrow> bool" where
  "frame_conforms over df \<longleftrightarrow>
     (\<forall>(name, c) \<in> set (df_columns df).
        length (cl_cells c) = df_height df \<and> list_all (cell_conforms over (cl_dtype c)) (cl_cells c))"

text \<open>The complaints about missing or null data and about numbers out of range. An unsigned value above the
  range is named in an integer column; where a string or an integer is read it is reported as
  incompatible, though its type is allowed there.\<close>

definition overflow_complaints :: "int set \<Rightarrow> string set" where
  "overflow_complaints over =
     (\<lambda>n. ''unsigned value '' @ int_to_dec n @ '' exceeds i64'') ` over
     \<union> (if over = {} then {} else {''value is incompatible'', ''incompatible value''})"

definition data_complaints :: "int set \<Rightarrow> string set" where
  "data_complaints over =
     {''required column is absent'', ''column has an incompatible physical type'', ''value is null or not UTF-8'',
      ''value is null'', ''value cannot be represented as i64'', ''value is non-finite'',
      ''list contains a null or non-string value'', ''list contains a null value''} \<union> overflow_complaints over"

lemma overflow_named:
  "n \<in> over \<Longrightarrow> ''unsigned value '' @ int_to_dec n @ '' exceeds i64'' \<in> overflow_complaints over"
  by (auto simp: overflow_complaints_def)

lemma overflow_incompatible:
  "''value is incompatible'' \<in> overflow_complaints over \<longleftrightarrow> over \<noteq> {}"
  "''incompatible value'' \<in> overflow_complaints over \<longleftrightarrow> over \<noteq> {}"
  by (auto simp: overflow_complaints_def)

definition table_error :: "search_method \<Rightarrow> string set \<Rightarrow> int set \<Rightarrow> bool \<Rightarrow> query_error \<Rightarrow> bool" where
  "table_error method tables over conforms e \<longleftrightarrow>
     (\<exists>d. e = InvalidQueryTable method ''adapt query table'' d \<and> td_table d \<in> tables
        \<and> (conforms \<longrightarrow> td_message d \<in> data_complaints over))"

lemma table_error_invalid_value:
  "table_error method tables over conforms (invalid_value method t column ex actual row message) \<longleftrightarrow>
     t \<in> tables \<and> (conforms \<longrightarrow> message \<in> data_complaints over)"
  by (simp add: table_error_def invalid_value_def)

definition cells_ok :: "int set \<Rightarrow> bool \<Rightarrow> 'f data_frame \<Rightarrow> usize \<Rightarrow> bool" where
  "cells_ok over conforms df row \<longleftrightarrow> conforms \<longrightarrow> frame_conforms over df \<and> row < df_height df"

lemma required_column_fails:
  "t \<in> tables \<Longrightarrow> fails_within (required_column fl method t df row name ex) (table_error method tables over conforms)"
  by (auto simp: required_column_def validate_column_type_def table_error_invalid_value data_complaints_def
      intro!: fails_within_and_then split: option.split)

lemma optional_column_fails:
  "t \<in> tables \<Longrightarrow> fails_within (optional_column fl method t df row name ex) (table_error method tables over conforms)"
  by (auto simp: optional_column_def validate_column_type_def table_error_invalid_value data_complaints_def
      intro!: fails_within_and_then split: option.split)


lemma df_column_conforms:
  "frame_conforms over df \<Longrightarrow> df_column df name = Some c \<Longrightarrow>
   length (cl_cells c) = df_height df \<and> list_all (cell_conforms over (cl_dtype c)) (cl_cells c)"
  unfolding frame_conforms_def df_column_def by (drule map_of_SomeD) blast

lemma required_value_fails:
  assumes "t \<in> tables" "cells_ok over conforms df row"
  shows "fails_within (required_value fl method t df row name ex) (table_error method tables over conforms)"
  unfolding required_value_def
proof (rule fails_within_and_then [OF required_column_fails [OF assms(1)]])
  fix c assume "required_column fl method t df row name ex = Inr c"
  then have c: "df_column df name = Some c"
    by (auto simp: required_column_def and_then_Inr_iff split: option.splits)
  show "fails_within (get_cell fl method t c row name ex) (table_error method tables over conforms)"
    using assms df_column_conforms [OF _ c, of over] by (auto simp: get_cell_def cells_ok_def table_error_invalid_value Let_def)
qed

lemma optional_value_fails:
  assumes "t \<in> tables" "cells_ok over conforms df row"
  shows "fails_within (optional_value fl method t df row name ex) (table_error method tables over conforms)"
  unfolding optional_value_def
proof (rule fails_within_and_then [OF optional_column_fails [OF assms(1)]])
  fix v assume v: "optional_column fl method t df row name ex = Inr v"
  show "fails_within (case v of None \<Rightarrow> Inr None
     | Some column \<Rightarrow> and_then (get_cell fl method t column row name ex) (\<lambda>v. Inr (Some v))) (table_error method tables over conforms)"
  proof (cases v)
    case (Some c)
    then have c: "df_column df name = Some c"
      using v by (auto simp: optional_column_def and_then_Inr_iff split: option.splits if_splits)
    show ?thesis
      using Some assms df_column_conforms [OF _ c, of over]
      by (auto simp: get_cell_def cells_ok_def table_error_invalid_value Let_def intro!: fails_within_and_then)
  qed simp
qed

lemma required_column_Inr:
  "required_column fl method t df row name ex = Inr c \<longleftrightarrow> df_column df name = Some c \<and> column_type_matches (cl_dtype c) ex"
  by (auto simp: required_column_def validate_column_type_def and_then_Inr_iff split: option.splits)

lemma optional_column_Inr:
  "optional_column fl method t df row name ex = Inr (Some c) \<Longrightarrow>
   df_column df name = Some c \<and> (cl_dtype c = DtNull \<or> column_type_matches (cl_dtype c) ex)"
  by (auto simp: optional_column_def validate_column_type_def and_then_Inr_iff split: option.splits if_splits)

lemma get_cell_conforms:
  "get_cell fl method t c row name ex = Inr (v, actual) \<Longrightarrow> list_all (cell_conforms over (cl_dtype c)) (cl_cells c) \<Longrightarrow>
   cell_conforms over (cl_dtype c) v"
  by (auto simp: get_cell_def Let_def list_all_length split: if_splits)

lemma required_value_conforms:
  assumes "required_value fl method t df row name ex = Inr (v, actual)" "frame_conforms over df"
  obtains d where "column_type_matches d ex" "cell_conforms over d v"
proof -
  obtain c where c: "required_column fl method t df row name ex = Inr c" "get_cell fl method t c row name ex = Inr (v, actual)"
    using assms(1) by (auto simp: required_value_def and_then_Inr_iff)
  then have "df_column df name = Some c" "column_type_matches (cl_dtype c) ex" by (simp_all add: required_column_Inr)
  then show thesis using that get_cell_conforms [OF c(2)] df_column_conforms [OF assms(2)] by blast
qed

lemma optional_value_conforms:
  assumes "optional_value fl method t df row name ex = Inr (Some (v, actual))" "frame_conforms over df"
  obtains d where "d = DtNull \<or> column_type_matches d ex" "cell_conforms over d v"
proof -
  obtain c where c: "optional_column fl method t df row name ex = Inr (Some c)" "get_cell fl method t c row name ex = Inr (v, actual)"
    using assms(1) by (auto simp: optional_value_def and_then_Inr_iff split: option.splits)
  from optional_column_Inr [OF c(1)] show thesis
    using that get_cell_conforms [OF c(2)] df_column_conforms [OF assms(2)] by blast
qed

lemmas conforming_cells = is_integer_type_def stringish_value_def

lemma string_cell: "cell_conforms over DtString v \<Longrightarrow> v = AnyNull \<or> (\<exists>s. string_value v = Some s)"
  by (cases v) auto

lemma null_cell: "cell_conforms over DtNull v \<Longrightarrow> v = AnyNull"
  by (cases v) auto

lemma integer_cell:
  "cell_conforms over d v \<Longrightarrow> is_integer_type d \<Longrightarrow>
   (\<exists>n. integer_value v = Inr n)
     \<or> (\<exists>n \<in> over. integer_value v = Inl (''unsigned value '' @ int_to_dec n @ '' exceeds i64''))"
  by (cases "(over, d, v)" rule: cell_conforms.cases) (auto simp: is_integer_type_def)

text \<open>What an integer reader complains about in a conforming cell.\<close>

lemma integer_error:
  assumes "cell_conforms over d v" "d = DtNull \<or> is_integer_type d" "integer_value v = Inl e"
  shows "e \<in> data_complaints over"
proof -
  have "e \<in> overflow_complaints over"
    using assms(2)
  proof
    assume "d = DtNull"
    then show ?thesis using assms(1,3) null_cell [of over v] by simp
  next
    assume "is_integer_type d"
    then obtain n where "n \<in> over" "e = ''unsigned value '' @ int_to_dec n @ '' exceeds i64''"
      using integer_cell [OF assms(1)] assms(3) by auto
    then show ?thesis by (simp only: overflow_named)
  qed
  then show ?thesis by (simp add: data_complaints_def)
qed

lemma stringish_cell:
  "cell_conforms over d v \<Longrightarrow> d = DtNull \<or> d = DtString \<or> is_integer_type d \<Longrightarrow>
   v = AnyNull \<or> (\<exists>s. stringish_value v = Some s) \<or> over \<noteq> {}"
  by (cases "(over, d, v)" rule: cell_conforms.cases) (auto simp: is_integer_type_def stringish_value_def)

lemma float_cell:
  "cell_conforms over d v \<Longrightarrow> d = DtNull \<or> d = DtFloat32 \<or> d = DtFloat64 \<or> is_integer_type d \<Longrightarrow>
   v = AnyNull \<or> (\<exists>x. v = AnyFloat32 x \<or> v = AnyFloat64 x)
     \<or> (\<exists>n. (v = AnyInt32 n \<or> v = AnyInt64 n \<or> v = AnyUInt32 n \<or> v = AnyUInt64 n)
          \<and> (integer_value v = Inr (Some n)
             \<or> n \<in> over \<and> integer_value v = Inl (''unsigned value '' @ int_to_dec n @ '' exceeds i64'')))"
  by (cases "(over, d, v)" rule: cell_conforms.cases) (auto simp: is_integer_type_def)

lemma list_cell: "cell_conforms over (DtList d) v \<Longrightarrow> v = AnyNull \<or> (\<exists>vs. v = AnyList vs \<and> list_all (cell_conforms over d) vs)"
  by (cases v) auto

lemma cells_conform: "cells_ok over True df row \<Longrightarrow> frame_conforms over df"
  by (simp add: cells_ok_def)

text \<open>After a required or an optional cell: what is left to check is said for conforming cells and otherwise only
  for the table of the error.\<close>

lemma required_cell_fails:
  assumes "t \<in> tables" "cells_ok over conforms df row"
    and "\<And>v actual d. column_type_matches d ex \<Longrightarrow> (conforms \<Longrightarrow> cell_conforms over d v) \<Longrightarrow>
      fails_within (f (v, actual)) (table_error method tables over conforms)"
  shows "fails_within (and_then (required_value fl method t df row name ex) f) (table_error method tables over conforms)"
proof (rule fails_within_and_then [OF required_value_fails [OF assms(1,2)]])
  fix x assume x: "required_value fl method t df row name ex = Inr x"
  obtain v actual where va: "x = (v, actual)" by fastforce
  obtain c where c: "required_column fl method t df row name ex = Inr c" "get_cell fl method t c row name ex = Inr (v, actual)"
    using x va by (auto simp: required_value_def and_then_Inr_iff)
  then have col: "df_column df name = Some c" "column_type_matches (cl_dtype c) ex" by (simp_all add: required_column_Inr)
  show "fails_within (f x) (table_error method tables over conforms)"
    unfolding va
  proof (rule assms(3) [OF col(2)])
    assume conforms
    then show "cell_conforms over (cl_dtype c) v"
      using assms(2) get_cell_conforms [OF c(2)] df_column_conforms [OF _ col(1), of over] by (simp add: cells_ok_def)
  qed
qed

lemma optional_cell_fails:
  assumes "t \<in> tables" "cells_ok over conforms df row"
    and "fails_within (f None) (table_error method tables over conforms)"
    and "\<And>v actual d. d = DtNull \<or> column_type_matches d ex \<Longrightarrow> (conforms \<Longrightarrow> cell_conforms over d v) \<Longrightarrow>
      fails_within (f (Some (v, actual))) (table_error method tables over conforms)"
  shows "fails_within (and_then (optional_value fl method t df row name ex) f) (table_error method tables over conforms)"
proof (rule fails_within_and_then [OF optional_value_fails [OF assms(1,2)]])
  fix x assume x: "optional_value fl method t df row name ex = Inr x"
  show "fails_within (f x) (table_error method tables over conforms)"
  proof (cases x)
    case (Some y)
    obtain v actual where va: "y = (v, actual)" by fastforce
    obtain c where c: "optional_column fl method t df row name ex = Inr (Some c)" "get_cell fl method t c row name ex = Inr (v, actual)"
      using x Some va by (auto simp: optional_value_def and_then_Inr_iff split: option.splits)
    note col = optional_column_Inr [OF c(1)]
    show ?thesis unfolding Some va
    proof (rule assms(4) [OF col [THEN conjunct2]])
      assume conforms
      then show "cell_conforms over (cl_dtype c) v"
        using assms(2) get_cell_conforms [OF c(2)] df_column_conforms [OF _ col [THEN conjunct1], of over] by (simp add: cells_ok_def)
    qed
  qed (simp add: assms(3))
qed

named_theorems cell_fails \<open>what a reader of a cell may fail with\<close>

lemma column_type_matches_simps:
  "column_type_matches d ExString \<longleftrightarrow> d = DtString"
  "column_type_matches d ExNullableString \<longleftrightarrow> d = DtNull \<or> d = DtString"
  "column_type_matches d ExStringOrInteger \<longleftrightarrow> d = DtString \<or> is_integer_type d"
  "column_type_matches d ExNullableStringOrInteger \<longleftrightarrow> d = DtNull \<or> d = DtString \<or> is_integer_type d"
  "column_type_matches d ExInteger \<longleftrightarrow> is_integer_type d"
  "column_type_matches d ExNullableInteger \<longleftrightarrow> d = DtNull \<or> is_integer_type d"
  "column_type_matches d ExNullableCommunity \<longleftrightarrow> d = DtNull \<or> d = DtFloat32 \<or> d = DtFloat64 \<or> is_integer_type d"
  "column_type_matches d ExNullableFloat \<longleftrightarrow> d = DtNull \<or> d = DtFloat32 \<or> d = DtFloat64 \<or> is_integer_type d"
  "column_type_matches d ExNullableStringOrList \<longleftrightarrow> d = DtNull \<or> d = DtString \<or> d = DtList DtString \<or> d = DtList DtNull"
  "column_type_matches d ExStringList \<longleftrightarrow> d = DtList DtString \<or> d = DtList DtNull"
  "column_type_matches d ExIntegerList \<longleftrightarrow> (\<exists>i. d = DtList i \<and> (i = DtNull \<or> is_integer_type i))"
  by (auto simp: column_type_matches_def is_nullable_def split: dtype.splits)

lemmas complaints = table_error_invalid_value data_complaints_def column_type_matches_simps
  overflow_incompatible overflow_named [simplified]

lemma required_string_fails [cell_fails]:
  "t \<in> tables \<Longrightarrow> cells_ok over conforms df row \<Longrightarrow>
   fails_within (required_string fl method t df row name) (table_error method tables over conforms)"
  unfolding required_string_def by (rule required_cell_fails) (auto simp: complaints)

lemma required_graphrag_string_fails [cell_fails]:
  "t \<in> tables \<Longrightarrow> cells_ok over conforms df row \<Longrightarrow>
   fails_within (required_graphrag_string fl method t df row name) (table_error method tables over conforms)"
  unfolding required_graphrag_string_def
  by (rule required_cell_fails) (auto simp: complaints dest!: string_cell)

lemma required_graphrag_stringish_fails [cell_fails]:
  "t \<in> tables \<Longrightarrow> cells_ok over conforms df row \<Longrightarrow>
   fails_within (required_graphrag_stringish fl method t df row name) (table_error method tables over conforms)"
  unfolding required_graphrag_stringish_def
  by (rule required_cell_fails) (auto simp: complaints dest!: stringish_cell)

lemma optional_string_fails [cell_fails]:
  "t \<in> tables \<Longrightarrow> cells_ok over conforms df row \<Longrightarrow>
   fails_within (optional_string fl method t df row name) (table_error method tables over conforms)"
  unfolding optional_string_def
  by (rule optional_cell_fails) (auto simp: complaints intro!: fails_within_and_then dest!: string_cell null_cell)

lemma optional_stringish_fails [cell_fails]:
  "t \<in> tables \<Longrightarrow> cells_ok over conforms df row \<Longrightarrow>
   fails_within (optional_stringish fl method t df row name) (table_error method tables over conforms)"
  unfolding optional_stringish_def
  by (rule optional_cell_fails) (auto simp: complaints intro!: fails_within_and_then dest!: stringish_cell)

lemma fails_within_map_err: "fails_within (map_err g r) P \<longleftrightarrow> (\<forall>e. r = Inl e \<longrightarrow> P (g e))"
  by (cases r) simp_all

lemma integer_value_fails:
  assumes "t \<in> tables" "conforms \<Longrightarrow> cell_conforms over d v" "d = DtNull \<or> is_integer_type d"
  shows "fails_within (map_err (invalid_value method t name ex actual row) (integer_value v))
    (table_error method tables over conforms)"
  using assms integer_error [of over d v] by (auto simp: fails_within_map_err table_error_invalid_value)

lemma required_i64_fails [cell_fails]:
  "t \<in> tables \<Longrightarrow> cells_ok over conforms df row \<Longrightarrow>
   fails_within (required_i64 fl method t df row name) (table_error method tables over conforms)"
  unfolding required_i64_def
  by (rule required_cell_fails)
    (auto simp: complaints intro!: fails_within_and_then [OF integer_value_fails])

lemma optional_i64_fails [cell_fails]:
  "t \<in> tables \<Longrightarrow> cells_ok over conforms df row \<Longrightarrow>
   fails_within (optional_i64 fl method t df row name) (table_error method tables over conforms)"
  unfolding optional_i64_def
  by (rule optional_cell_fails) (auto simp: column_type_matches_simps intro!: integer_value_fails)

lemma integral_f64_fails:
  "t \<in> tables \<Longrightarrow> fails_within (integral_f64 fl method t x name actual row) (table_error method tables over conforms)"
  by (simp add: integral_f64_def complaints)

lemma optional_community_id_fails [cell_fails]:
  assumes "t \<in> tables" "cells_ok over conforms df row"
  shows "fails_within (optional_community_id fl method t df row name) (table_error method tables over conforms)"
  unfolding optional_community_id_def
proof (rule optional_cell_fails [OF assms])
  fix v :: "'a any_value" and actual d
  assume d: "d = DtNull \<or> column_type_matches d ExNullableCommunity" "conforms \<Longrightarrow> cell_conforms over d v"
  have cell: "conforms \<Longrightarrow> v = AnyNull \<or> (\<exists>x. v = AnyFloat32 x \<or> v = AnyFloat64 x)
      \<or> (\<exists>n. integer_value v = Inr (Some n))
      \<or> (\<exists>n \<in> over. integer_value v = Inl (''unsigned value '' @ int_to_dec n @ '' exceeds i64''))"
    using d float_cell [of over d v] by (auto simp: column_type_matches_simps)
  show "fails_within (case Some (v, actual) of
         None \<Rightarrow> Inr None
       | Some (v, actual) \<Rightarrow>
           (case v of
              AnyNull \<Rightarrow> Inr None
            | AnyFloat32 x \<Rightarrow> and_then (integral_f64 fl method t x name actual row) (\<lambda>n. Inr (Some n))
            | AnyFloat64 x \<Rightarrow> and_then (integral_f64 fl method t x name actual row) (\<lambda>n. Inr (Some n))
            | _ \<Rightarrow> map_err (invalid_value method t name ''nullable community number'' actual row) (integer_value v)))
     (table_error method tables over conforms)"
    using cell assms(1)
    by (cases v) (auto simp: complaints fails_within_map_err intro!: fails_within_and_then integral_f64_fails)
qed simp

lemma required_community_id_fails [cell_fails]:
  "t \<in> tables \<Longrightarrow> cells_ok over conforms df row \<Longrightarrow>
   fails_within (required_community_id fl method t df row name) (table_error method tables over conforms)"
  unfolding required_community_id_def
  by (rule fails_within_and_then [OF optional_community_id_fails]) (auto simp: complaints)

lemma optional_f64_fails [cell_fails]:
  assumes "t \<in> tables" "cells_ok over conforms df row"
  shows "fails_within (optional_f64 fl method t df row name) (table_error method tables over conforms)"
  unfolding optional_f64_def
proof (rule optional_cell_fails [OF assms])
  fix v :: "'a any_value" and actual d
  assume d: "d = DtNull \<or> column_type_matches d ExNullableFloat" "conforms \<Longrightarrow> cell_conforms over d v"
  have cell: "conforms \<Longrightarrow> v = AnyNull \<or> (\<exists>x. v = AnyFloat32 x \<or> v = AnyFloat64 x)
      \<or> (\<exists>n. v = AnyInt32 n \<or> v = AnyInt64 n \<or> v = AnyUInt32 n \<or> v = AnyUInt64 n)"
    using d float_cell [of over d v] by (auto simp: column_type_matches_simps)
  show "fails_within (case Some (v, actual) of
         None \<Rightarrow> Inr None
       | Some (v, actual) \<Rightarrow>
           (let finite = (\<lambda>x. if fl_finite fl x then Inr (Some x)
                  else Inl (invalid_value method t name ''finite float'' actual row ''value is non-finite'')) in
            case v of
              AnyNull \<Rightarrow> Inr None
            | AnyFloat32 x \<Rightarrow> finite x
            | AnyFloat64 x \<Rightarrow> finite x
            | AnyInt32 n \<Rightarrow> finite (fl_of_int fl n)
            | AnyInt64 n \<Rightarrow> finite (fl_of_int fl n)
            | AnyUInt32 n \<Rightarrow> finite (fl_of_int fl n)
            | AnyUInt64 n \<Rightarrow> finite (fl_of_int fl n)
            | _ \<Rightarrow> Inl (invalid_value method t name ''nullable float'' actual row ''incompatible value'')))
     (table_error method tables over conforms)"
    using cell assms(1) by (cases v) (auto simp: complaints)
qed simp

lemma string_list_fails:
  assumes "t \<in> tables" "conforms \<Longrightarrow> v = AnyNull \<or> (\<exists>vs. v = AnyList vs)"
  shows "fails_within (string_list_value method t v name ex actual row) (table_error method tables over conforms)"
  using assms by (cases v) (auto simp: string_list_value_def complaints intro!: fails_within_try_map)

lemma optional_string_list_fails [cell_fails]:
  "t \<in> tables \<Longrightarrow> cells_ok over conforms df row \<Longrightarrow>
   fails_within (optional_string_list fl method t df row name) (table_error method tables over conforms)"
  unfolding optional_string_list_def
  by (rule optional_cell_fails)
    (auto simp: column_type_matches_simps intro!: string_list_fails dest!: null_cell string_cell list_cell split: option.split)

lemma required_string_list_fails [cell_fails]:
  "t \<in> tables \<Longrightarrow> cells_ok over conforms df row \<Longrightarrow>
   fails_within (required_string_list fl method t df row name) (table_error method tables over conforms)"
  unfolding required_string_list_def
  by (rule required_cell_fails) (auto simp: complaints intro!: string_list_fails dest!: list_cell)

lemma required_i64_list_fails [cell_fails]:
  assumes "t \<in> tables" "cells_ok over conforms df row"
  shows "fails_within (required_i64_list fl method t df row name) (table_error method tables over conforms)"
  unfolding required_i64_list_def
proof (rule required_cell_fails [OF assms])
  fix v :: "'a any_value" and actual d
  assume d: "column_type_matches d ExIntegerList" "conforms \<Longrightarrow> cell_conforms over d v"
  then obtain i where i: "d = DtList i" "i = DtNull \<or> is_integer_type i" by (auto simp: column_type_matches_simps)
  have cell: "conforms \<Longrightarrow> v = AnyNull \<or>
      (\<exists>vs. v = AnyList vs \<and> (\<forall>item \<in> set vs. \<forall>e. integer_value item = Inl e \<longrightarrow> e \<in> data_complaints over))"
    using d(2) i(2) integer_error list_cell [of over i v] by (fastforce simp: i(1) list_all_iff)
  show "fails_within (case (v, actual) of (v, actual) \<Rightarrow>
       case v of
         AnyNull \<Rightarrow> Inl (invalid_value method t name ''list<integer>'' actual row ''value is null'')
       | AnyList items \<Rightarrow>
           try_map (\<lambda>item.
             and_then (map_err (invalid_value method t name ''list<integer>'' actual row) (integer_value item)) (\<lambda>n.
               ok_or (invalid_value method t name ''list<integer>'' actual row ''list contains a null value'') n)) items
       | _ \<Rightarrow> Inl (invalid_value method t name ''list<integer>'' actual row ''incompatible value''))
     (table_error method tables over conforms)"
    using cell assms(1)
    by (cases v) (auto simp: complaints fails_within_map_err intro!: fails_within_try_map fails_within_and_then)
qed

subsection \<open>Tables\<close>












subsection \<open>Entities\<close>

lemma insert_memberships:
  "foldl (\<lambda>m entity_id. m(entity_id \<mapsto> insert c (case m entity_id of None \<Rightarrow> {} | Some s \<Rightarrow> s))) m ids i =
     (if i \<in> set ids then Some (insert c (case m i of None \<Rightarrow> {} | Some s \<Rightarrow> s)) else m i)"
proof (induction ids rule: rev_induct)
  case (snoc x xs)
  then show ?case by (cases "x = i"; cases "i \<in> set xs") simp_all
qed simp

definition member_communities :: "community_membership list \<Rightarrow> i64 \<Rightarrow> string \<Rightarrow> i64 set" where
  "member_communities ms level i = mb_community ` {m \<in> set ms. mb_level m \<le> level \<and> i \<in> set (mb_entity_ids m)}"

definition community_labels :: "community_membership list \<Rightarrow> i64 \<Rightarrow> string \<Rightarrow> string list" where
  "community_labels ms level i =
     (if member_communities ms level i = {} then [''-1'']
      else map int_to_dec (sorted_list_of_set (member_communities ms level i)))"

lemma member_communities_snoc:
  "member_communities (ms @ [m]) level i =
     (if mb_level m \<le> level \<and> i \<in> set (mb_entity_ids m) then insert (mb_community m) (member_communities ms level i)
      else member_communities ms level i)"
  by (auto simp: member_communities_def)

lemma memberships_at:
  "foldl (add_membership level) Map.empty ms i =
     (if member_communities ms level i = {} then None else Some (member_communities ms level i))"
proof (induction ms rule: rev_induct)
  case (snoc m ms)
  then show ?case by (simp add: member_communities_snoc add_membership_def insert_memberships)
qed (simp add: member_communities_def)

lemma try_map_map: "try_map f (map g xs) = try_map (\<lambda>x. f (g x)) xs"
  by (induction xs) simp_all

lemma entity_of_row_fields:
  assumes "entity_of_row fl method membership df row i = Inr e"
  shows "en_id e = i \<and> required_string fl method ''entities'' df row ''title'' = Inr (en_title e)
     \<and> en_community_ids e = (case membership i of None \<Rightarrow> [''-1''] | Some s \<Rightarrow> map int_to_dec (sorted_list_of_set s))"
  using assms by (auto simp: entity_of_row_def Let_def and_then_Inr_iff)

lemma entity_rows_exact:
  "entity_rows fl method membership df seen rows = Inr es \<Longrightarrow>
   \<exists>ids. try_map (\<lambda>row. required_string fl method ''entities'' df row ''id'') rows = Inr ids
     \<and> try_map (\<lambda>k. entity_of_row fl method membership df (rows ! k) (ids ! k))
         (filter (\<lambda>k. ids ! k \<notin> seen \<union> set (take k ids)) [0..<length rows]) = Inr es"
proof (induction rows arbitrary: seen es)
  case (Cons row rows)
  obtain i where i: "required_string fl method ''entities'' df row ''id'' = Inr i"
    using Cons.prems by (auto simp: and_then_Inr_iff)
  have upt: "[0..<length (row # rows)] = 0 # map Suc [0..<length rows]"
    by (simp add: map_Suc_upt upt_conv_Cons del: upt_Suc)
  have shift: "try_map (\<lambda>k. entity_of_row fl method membership df ((row # rows) ! k) ((i # ids) ! k))
         (filter (\<lambda>k. (i # ids) ! k \<notin> seen \<union> set (take k (i # ids))) (map Suc [0..<length rows])) =
      try_map (\<lambda>k. entity_of_row fl method membership df (rows ! k) (ids ! k))
         (filter (\<lambda>k. ids ! k \<notin> insert i seen \<union> set (take k ids)) [0..<length rows])" for ids
    by (simp add: filter_map o_def try_map_map conj_ac)
  show ?case
  proof (cases "i \<in> seen")
    case True
    then obtain ids where ids: "try_map (\<lambda>row. required_string fl method ''entities'' df row ''id'') rows = Inr ids"
      "try_map (\<lambda>k. entity_of_row fl method membership df (rows ! k) (ids ! k))
         (filter (\<lambda>k. ids ! k \<notin> seen \<union> set (take k ids)) [0..<length rows]) = Inr es"
      using Cons.IH [of seen es] Cons.prems by (auto simp: i)
    then show ?thesis unfolding upt
      by (intro exI [of _ "i # ids"]) (use True shift [of ids] in \<open>simp add: i insert_absorb\<close>)
  next
    case False
    then obtain e es' where e: "entity_of_row fl method membership df row i = Inr e" "es = e # es'"
      "entity_rows fl method membership df (insert i seen) rows = Inr es'"
      using Cons.prems by (auto simp: i and_then_Inr_iff)
    obtain ids where ids: "try_map (\<lambda>row. required_string fl method ''entities'' df row ''id'') rows = Inr ids"
      "try_map (\<lambda>k. entity_of_row fl method membership df (rows ! k) (ids ! k))
         (filter (\<lambda>k. ids ! k \<notin> insert i seen \<union> set (take k ids)) [0..<length rows]) = Inr es'"
      using Cons.IH [OF e(3)] by auto
    then show ?thesis unfolding upt
      by (intro exI [of _ "i # ids"]) (use False shift [of ids] e(1,2) in \<open>simp add: i\<close>)
  qed
qed simp

lemma distinct_first_occurrences: "distinct (map ((!) ids) (filter (\<lambda>k. ids ! k \<notin> set (take k ids)) [0..<length ids]))"
proof -
  have "ids ! j \<noteq> ids ! k" if "j < k" "k < length ids" "ids ! k \<notin> set (take k ids)" for j k
    using that by (metis in_set_conv_nth length_take min.absorb4 nth_take)
  then have "inj_on ((!) ids) (set (filter (\<lambda>k. ids ! k \<notin> set (take k ids)) [0..<length ids]))"
    by (intro linorder_inj_onI) auto
  then show ?thesis by (simp only: distinct_map distinct_filter distinct_upt simp_thms)
qed

lemma set_first_occurrences: "(!) ids ` {k. k < length ids \<and> ids ! k \<notin> set (take k ids)} = set ids"
proof
  show "set ids \<subseteq> (!) ids ` {k. k < length ids \<and> ids ! k \<notin> set (take k ids)}"
  proof
    fix i assume "i \<in> set ids"
    then have ex: "\<exists>k. k < length ids \<and> ids ! k = i" by (simp add: in_set_conv_nth)
    define k where "k = (LEAST k. k < length ids \<and> ids ! k = i)"
    have k: "k < length ids" "ids ! k = i" using LeastI_ex [OF ex] by (simp_all add: k_def)
    have "ids ! j \<noteq> i" if "j < k" for j using not_less_Least [of j "\<lambda>k. k < length ids \<and> ids ! k = i", folded k_def] that k(1) by auto
    then have "i \<notin> set (take k ids)" by (auto simp: in_set_conv_nth)
    then show "i \<in> (!) ids ` {k. k < length ids \<and> ids ! k \<notin> set (take k ids)}" using k by auto
  qed
qed auto

text \<open>C20: Reading entities: one entity for each identifier of the table, in the order and with the title of its first row, and
  labelled with exactly the communities at or below the level that list it, in increasing order, or with \<open>-1\<close>.\<close>

theorem indexer_entities_exact:
  assumes "read_indexer_entities fl method entities communities level = Inr es"
  shows "\<exists>ids ms. let firsts = filter (\<lambda>row. ids ! row \<notin> set (take row ids)) [0..<df_height entities] in
     try_map (\<lambda>row. required_string fl method ''entities'' entities row ''id'') [0..<df_height entities] = Inr ids
     \<and> community_memberships fl method communities = Inr ms
     \<and> map en_id es = map ((!) ids) firsts \<and> distinct (map en_id es) \<and> set (map en_id es) = set ids
     \<and> try_map (\<lambda>row. required_string fl method ''entities'' entities row ''title'') firsts = Inr (map en_title es)
     \<and> (\<forall>e \<in> set es. en_community_ids e = community_labels ms level (en_id e))"
proof -
  let ?h = "df_height entities"
  obtain ms where ms: "community_memberships fl method communities = Inr ms"
    and rows: "entity_rows fl method (foldl (add_membership level) Map.empty ms) entities {} [0..<?h] = Inr es"
    using assms by (auto simp: read_indexer_entities_def and_then_Inr_iff)
  obtain ids where ids: "try_map (\<lambda>row. required_string fl method ''entities'' entities row ''id'') [0..<?h] = Inr ids"
    and es: "try_map (\<lambda>k. entity_of_row fl method (foldl (add_membership level) Map.empty ms) entities ([0..<?h] ! k) (ids ! k))
         (filter (\<lambda>k. ids ! k \<notin> {} \<union> set (take k ids)) [0..<length [0..<?h]]) = Inr es"
    using entity_rows_exact [OF rows] by blast
  let ?firsts = "filter (\<lambda>k. ids ! k \<notin> set (take k ids)) [0..<?h]"
  have h: "length ids = ?h" using try_map_length [OF ids] by simp
  have all2: "list_all2 (\<lambda>k e. entity_of_row fl method (foldl (add_membership level) Map.empty ms) entities ([0..<?h] ! k) (ids ! k) = Inr e) ?firsts es"
    using es by (simp add: try_map_Inr_iff)
  have fields: "list_all2 (\<lambda>k e. en_id e = ids ! k \<and> required_string fl method ''entities'' entities k ''title'' = Inr (en_title e)
      \<and> en_community_ids e = community_labels ms level (ids ! k)) ?firsts es"
  proof (rule list.rel_mono_strong [OF all2])
    fix k e assume "k \<in> set ?firsts"
      "entity_of_row fl method (foldl (add_membership level) Map.empty ms) entities ([0..<?h] ! k) (ids ! k) = Inr e"
    then show "en_id e = ids ! k \<and> required_string fl method ''entities'' entities k ''title'' = Inr (en_title e)
      \<and> en_community_ids e = community_labels ms level (ids ! k)"
      by (auto dest!: entity_of_row_fields simp: memberships_at community_labels_def)
  qed
  have labels: "\<forall>e \<in> set es. en_community_ids e = community_labels ms level (en_id e)"
    using fields by (auto simp: list_all2_conv_all_nth in_set_conv_nth)
  have names: "map en_id es = map ((!) ids) ?firsts"
    using fields by (auto simp: list_all2_conv_all_nth intro!: nth_equalityI)
  have titles: "try_map (\<lambda>row. required_string fl method ''entities'' entities row ''title'') ?firsts = Inr (map en_title es)"
    using fields by (auto simp: try_map_Inr_iff list_all2_conv_all_nth)
  have "distinct (map en_id es)" unfolding names h [symmetric] by (rule distinct_first_occurrences)
  moreover have "set (map en_id es) = set ids"
    unfolding names h [symmetric] using set_first_occurrences [of ids] by auto
  ultimately show ?thesis unfolding Let_def using ids ms names titles labels by blast
qed

subsection \<open>Reports\<close>

definition rolled_up :: "(i64 \<times> string) list \<Rightarrow> i64 \<Rightarrow> bool" where
  "rolled_up rows c \<longleftrightarrow> (\<exists>title. (c, title) \<in> set rows \<and> (\<forall>c'. (c', title) \<in> set rows \<longrightarrow> c' \<le> c))"

lemma roll_up_titles:
  "map fst (roll_up (c, t) m) = (if t \<in> fst ` set m then map fst m else map fst m @ [t])"
  by (induction "(c, t)" m rule: roll_up.induct) auto

lemma roll_up_entry:
  assumes "distinct (map fst m)"
  shows "(t', c') \<in> set (roll_up (c, t) m) \<longleftrightarrow>
     (if t' \<noteq> t then (t', c') \<in> set m
      else (\<exists>c0. (t, c0) \<in> set m \<and> c' = max c0 c) \<or> ((\<forall>c0. (t, c0) \<notin> set m) \<and> c' = c))"
  using assms
proof (induction "(c, t)" m rule: roll_up.induct)
  case (2 t1 c1 rest)
  have "\<And>c0. (t1, c0) \<notin> set rest" using 2(2) by force
  then show ?case using 2 by (cases "t1 = t") auto
qed auto

definition roll_up_inv :: "(i64 \<times> string) list \<Rightarrow> (string \<times> i64) list \<Rightarrow> bool" where
  "roll_up_inv rows m \<longleftrightarrow> distinct (map fst m) \<and> fst ` set m = snd ` set rows
     \<and> (\<forall>t c. (t, c) \<in> set m \<longrightarrow> (c, t) \<in> set rows \<and> (\<forall>c'. (c', t) \<in> set rows \<longrightarrow> c' \<le> c))"

lemma roll_up_step:
  assumes inv: "roll_up_inv rows m"
  shows "roll_up_inv (rows @ [(c, t)]) (roll_up (c, t) m)"
proof -
  have titles: "fst ` set m = snd ` set rows" and dist: "distinct (map fst m)" using inv by (simp_all add: roll_up_inv_def)
  have "distinct (map fst (roll_up (c, t) m))" using dist by (simp add: roll_up_titles)
  moreover have "fst ` set (roll_up (c, t) m) = set (map fst (roll_up (c, t) m))" by simp
  then have "fst ` set (roll_up (c, t) m) = snd ` set (rows @ [(c, t)])"
    unfolding roll_up_titles using titles by auto
  moreover have "(c'', t') \<in> set (rows @ [(c, t)]) \<and> (\<forall>c'. (c', t') \<in> set (rows @ [(c, t)]) \<longrightarrow> c' \<le> c'')"
    if entry: "(t', c'') \<in> set (roll_up (c, t) m)" for t' c''
  proof (cases "t' = t \<and> (\<forall>c0. (t, c0) \<notin> set m)")
    case True
    then have "t \<notin> fst ` set m" by auto
    then have "\<And>c'. (c', t) \<notin> set rows" unfolding titles by force
    then show ?thesis using entry True by (auto simp: roll_up_entry [OF dist])
  next
    case False
    then obtain c0 where c0: "(t', c0) \<in> set m" "c'' = (if t' = t then max c0 c else c0)"
      using entry by (auto simp: roll_up_entry [OF dist] split: if_splits)
    then have max: "(c0, t') \<in> set rows" "\<And>c'. (c', t') \<in> set rows \<Longrightarrow> c' \<le> c0" using inv by (auto simp: roll_up_inv_def)
    have "c' \<le> c''" if "(c', t') \<in> set rows" for c' using max(2) [OF that] c0(2) by auto
    moreover have "(c'', t') \<in> set (rows @ [(c, t)])" using max(1) c0(2) by (auto simp: max_def)
    ultimately show ?thesis using c0(2) by auto
  qed
  ultimately show ?thesis by (auto simp: roll_up_inv_def)
qed

lemma roll_up_fold: "roll_up_inv rows (foldl (\<lambda>m row. roll_up row m) [] rows)"
proof (induction rows rule: rev_induct)
  case (snoc row rows)
  then show ?case using roll_up_step [of rows _ "fst row" "snd row"] by simp
qed (simp add: roll_up_inv_def)

text \<open>The communities kept are the greatest ones of each title.\<close>

lemma allowed_communities_rolled_up: "c \<in> set (allowed_communities rows) \<longleftrightarrow> rolled_up rows c"
proof -
  have fold: "set (foldl (\<lambda>cs (_, c). if c \<in> set cs then cs else cs @ [c]) cs m) = set cs \<union> snd ` set m" for cs and m :: "(string \<times> i64) list"
    by (induction m arbitrary: cs) auto
  let ?m = "foldl (\<lambda>m row. roll_up row m) [] rows"
  have inv: "roll_up_inv rows ?m" by (rule roll_up_fold)
  have "c \<in> snd ` set ?m \<longleftrightarrow> rolled_up rows c"
  proof
    assume "c \<in> snd ` set ?m"
    then obtain t where "(t, c) \<in> set ?m" by auto
    then show "rolled_up rows c" using inv unfolding roll_up_inv_def rolled_up_def by blast
  next
    assume "rolled_up rows c"
    then obtain t where t: "(c, t) \<in> set rows" "\<And>c'. (c', t) \<in> set rows \<Longrightarrow> c' \<le> c" by (auto simp: rolled_up_def)
    then have "t \<in> fst ` set ?m" using inv by (force simp: roll_up_inv_def)
    then obtain c0 where c0: "(t, c0) \<in> set ?m" by auto
    then have "(c0, t) \<in> set rows" "c \<le> c0" using inv t(1) by (auto simp: roll_up_inv_def)
    then have "c0 = c" using t(2) [of c0] by simp
    then show "c \<in> snd ` set ?m" using c0 by force
  qed
  then show ?thesis by (simp add: allowed_communities_def fold)
qed

lemma report_row_kept:
  assumes "report_row_of fl method reports level False (Some cs) row = Inr r"
  obtains l c where "required_i64 fl method ''community_reports'' reports row ''level'' = Inr l"
    and "l \<le> level \<longrightarrow> optional_community_id fl method ''community_reports'' reports row ''community'' = Inr c"
    and "if l \<le> level \<and> (\<exists>c'. c = Some c' \<and> c' \<in> set cs)
         then \<exists>r'. report_of_row fl method reports row (the c) = Inr r' \<and> r = Some r' else r = None"
proof -
  obtain l where l: "required_i64 fl method ''community_reports'' reports row ''level'' = Inr l"
    using assms by (auto simp: report_row_of_def and_then_Inr_iff)
  show thesis
  proof (cases "l \<le> level")
    case True
    then obtain c where c: "optional_community_id fl method ''community_reports'' reports row ''community'' = Inr c"
      using assms l by (auto simp: report_row_of_def report_community_def and_then_Inr_iff)
    show thesis
      by (rule that [OF l, of c])
        (use assms l c True in \<open>auto simp: report_row_of_def report_community_def and_then_Inr_iff split: option.splits if_splits\<close>)
  next
    case False
    then have "r = None" using assms l by (simp add: report_row_of_def)
    then show thesis using that [OF l, of None] False by simp
  qed
qed

text \<open>C19: Reading reports without dynamic selection: the reports are exactly those of the rows at or below the level whose
  community is the greatest one with some title among the communities at or below the level, in table order,
  each with the fields of its row.\<close>

theorem indexer_reports_rolled_up:
  assumes "read_indexer_reports fl method reports communities level False = Inr rs"
  shows "\<exists>rows cs. let kept = filter (\<lambda>(row, l, c). l \<le> level \<and> (\<exists>c'. c = Some c' \<and> rolled_up rows c')) cs in
     community_rollup_rows fl method communities level = Inr rows
     \<and> map fst cs = [0..<df_height reports]
     \<and> (\<forall>(row, l, c) \<in> set cs. required_i64 fl method ''community_reports'' reports row ''level'' = Inr l
          \<and> (l \<le> level \<longrightarrow> optional_community_id fl method ''community_reports'' reports row ''community'' = Inr c))
     \<and> try_map (\<lambda>(row, l, c). report_of_row fl method reports row (the c)) kept = Inr rs"
proof -
  obtain rows where rows: "community_rollup_rows fl method communities level = Inr rows"
    and reports: "try_filter_map (report_row_of fl method reports level False (Some (allowed_communities rows))) [0..<df_height reports] = Inr rs"
    using assms by (auto simp: read_indexer_reports_def allowed_reports_def and_then_Inr_iff)
  let ?cs_ok = "\<lambda>(row, l, c). required_i64 fl method ''community_reports'' reports row ''level'' = Inr l
          \<and> (l \<le> level \<longrightarrow> optional_community_id fl method ''community_reports'' reports row ''community'' = Inr c)"
  let ?keep = "\<lambda>(row, l, c). l \<le> level \<and> (\<exists>c'. c = Some c' \<and> rolled_up rows c')"
  have "try_filter_map (report_row_of fl method reports level False (Some (allowed_communities rows))) xs = Inr rs' \<Longrightarrow>
      \<exists>cs. map fst cs = xs \<and> (\<forall>x \<in> set cs. ?cs_ok x)
        \<and> try_map (\<lambda>(row, l, c). report_of_row fl method reports row (the c)) (filter ?keep cs) = Inr rs'" for xs rs'
  proof (induction xs arbitrary: rs')
    case (Cons x xs)
    then obtain r rs1 where r: "report_row_of fl method reports level False (Some (allowed_communities rows)) x = Inr r"
      and rs1: "try_filter_map (report_row_of fl method reports level False (Some (allowed_communities rows))) xs = Inr rs1"
      and rs': "rs' = (case r of None \<Rightarrow> rs1 | Some r \<Rightarrow> r # rs1)"
      by (auto simp: try_filter_map_def and_then_Inr_iff List.map_filter_def split: option.splits)
    obtain cs where cs: "map fst cs = xs" "\<forall>x \<in> set cs. ?cs_ok x"
      "try_map (\<lambda>(row, l, c). report_of_row fl method reports row (the c)) (filter ?keep cs) = Inr rs1"
      using Cons.IH [OF rs1] by blast
    obtain l c where l: "required_i64 fl method ''community_reports'' reports x ''level'' = Inr l"
      and c: "l \<le> level \<longrightarrow> optional_community_id fl method ''community_reports'' reports x ''community'' = Inr c"
      and step: "if ?keep (x, l, c) then (\<exists>r'. report_of_row fl method reports x (the c) = Inr r' \<and> r = Some r') else r = None"
      using report_row_kept [OF r] unfolding allowed_communities_rolled_up by auto
    show ?case
      by (intro exI [of _ "(x, l, c) # cs"]) (use cs l c step in \<open>auto simp: rs' split: if_splits\<close>)
  qed (simp add: try_filter_map_def List.map_filter_def)
  from this [OF reports] rows show ?thesis unfolding Let_def by blast
qed

subsection \<open>A sample index\<close>

definition sample_lib :: "int frame_lib" where
  "sample_lib = \<lparr>fl_show = (\<lambda>_. ''type''), fl_out_of_bounds = (\<lambda>_. ''out of bounds''), fl_finite = (\<lambda>_. True),
     fl_integral = (\<lambda>_. True), fl_in_i64 = (\<lambda>_. True), fl_to_i64 = id, fl_of_int = id\<rparr>"

definition strings_column :: "string list \<Rightarrow> int column" where
  "strings_column ss = \<lparr>cl_dtype = DtString, cl_cells = map AnyString ss\<rparr>"

definition ints_column :: "int list \<Rightarrow> int column" where
  "ints_column ns = \<lparr>cl_dtype = DtInt64, cl_cells = map AnyInt64 ns\<rparr>"

definition sample_communities_frame :: "int data_frame" where
  "sample_communities_frame = \<lparr>df_height = 3, df_columns =
     [(''community'', ints_column [0, 1, 2]), (''level'', ints_column [0, 1, 2]), (''title'', strings_column [''A'', ''A'', ''B'']),
      (''entity_ids'', \<lparr>cl_dtype = DtList DtString, cl_cells = [AnyList [AnyString ''x''], AnyList [AnyString ''x''], AnyNull]\<rparr>)]\<rparr>"

definition sample_entities_frame :: "int data_frame" where
  "sample_entities_frame = \<lparr>df_height = 3, df_columns =
     [(''id'', strings_column [''x'', ''y'', ''x'']), (''title'', strings_column [''X'', ''Y'', ''Z''])]\<rparr>"

definition sample_reports_frame :: "int data_frame" where
  "sample_reports_frame = \<lparr>df_height = 3, df_columns =
     [(''id'', strings_column [''r0'', ''r1'', ''r2'']), (''community'', ints_column [0, 1, 2]), (''level'', ints_column [0, 1, 2]),
      (''title'', strings_column [''A'', ''A'', ''B'']), (''summary'', strings_column [''s'', ''s'', ''s'']),
      (''full_content'', strings_column [''c'', ''c'', ''c''])]\<rparr>"

lemma sample_entities_read:
  "is_ok (read_indexer_entities sample_lib SearchLocal
     sample_entities_frame (sample_communities_frame\<lparr>df_height := 2\<rparr>) 1)"
  by code_simp

lemma sample_reports_read:
  "read_indexer_reports sample_lib SearchLocal sample_reports_frame sample_communities_frame 1 False =
     Inr [\<lparr>rp_id = ''r1'', rp_short_id = ''1'', rp_community_id = ''1'', rp_title = ''A'', rp_summary = ''s'',
       rp_full_content = ''c'', rp_rank = None, rp_full_content_embedding = None\<rparr>]"
  by code_simp

theorem indexer_entities_exact_witness:
  "\<exists>es ms. read_indexer_entities sample_lib SearchLocal sample_entities_frame (sample_communities_frame\<lparr>df_height := 2\<rparr>) 1 = Inr es
     \<and> distinct (map en_id es) \<and> (\<forall>e \<in> set es. en_community_ids e = community_labels ms 1 (en_id e))"
proof -
  obtain es where es: "read_indexer_entities sample_lib SearchLocal sample_entities_frame (sample_communities_frame\<lparr>df_height := 2\<rparr>) 1 = Inr es"
    using sample_entities_read by (auto simp: is_ok_iff)
  from indexer_entities_exact [OF es] es show ?thesis unfolding Let_def by blast
qed

theorem indexer_reports_rolled_up_witness:
  "\<exists>rows c. community_rollup_rows sample_lib SearchLocal sample_communities_frame 1 = Inr rows \<and> rolled_up rows c"
proof -
  obtain rows and cs :: "(nat \<times> int \<times> int option) list" where rows: "community_rollup_rows sample_lib SearchLocal sample_communities_frame 1 = Inr rows"
    and kept: "try_map (\<lambda>(row, l, c). report_of_row sample_lib SearchLocal sample_reports_frame row (the c))
      (filter (\<lambda>(row, l, c). l \<le> 1 \<and> (\<exists>c'. c = Some c' \<and> rolled_up rows c')) cs) =
      Inr [\<lparr>rp_id = ''r1'', rp_short_id = ''1'', rp_community_id = ''1'', rp_title = ''A'', rp_summary = ''s'',
       rp_full_content = ''c'', rp_rank = None, rp_full_content_embedding = None\<rparr>]"
    using indexer_reports_rolled_up [OF sample_reports_read] unfolding Let_def by blast
  have "filter (\<lambda>(row, l, c). l \<le> 1 \<and> (\<exists>c'. c = Some c' \<and> rolled_up rows c')) cs \<noteq> []"
    using kept by auto
  then have "\<exists>c. rolled_up rows c" by (auto simp: filter_empty_conv)
  with rows show ?thesis by blast
qed

subsection \<open>Embeddings\<close>

text \<open>Hydrating keeps every report but for its embedding, which is the vector stored under its identifier, and counts the
  reports that have none.\<close>

lemma embeddings_hydrated:
  "read_indexer_report_embeddings get_by_id index method rs missing = (Inr m, rs') \<Longrightarrow>
   list_all2 (\<lambda>r r'. \<exists>v. get_by_id (rp_id r) = LookupVector v \<and> r' = r\<lparr>rp_full_content_embedding := v\<rparr>) rs rs'
   \<and> (missing \<le> usize_max \<longrightarrow> m = min usize_max (missing + length (filter (\<lambda>r. rp_full_content_embedding r = None) rs')))"
proof (induction rs arbitrary: missing rs' m)
  case (Cons r rs)
  then obtain v rs1 where v: "get_by_id (rp_id r) = LookupVector v" "rs' = r\<lparr>rp_full_content_embedding := v\<rparr> # rs1"
    "read_indexer_report_embeddings get_by_id index method rs (if v = None then usize_sat_add missing 1 else missing) = (Inr m, rs1)"
    by (auto split: lookup_result.splits prod.splits)
  from Cons.IH [OF v(3)] show ?case by (auto simp: v usize_sat_add_def min_def split: if_splits)
qed auto

end
