(* ===== verification/Local_Context_Laws.thy ===== *)
theory Local_Context_Laws
  imports Local_Context_Total
begin

text \<open>
  What the Local Search context guarantees: capturing evidence does not change the context, the
  captured evidence is consistent and passes the event contracts, the expanded graph stays within its
  budget, and the sources are the first references of the entities.
\<close>

subsection \<open>Capturing does not interfere\<close>

lemma map_ok_cong_and_then:
  assumes "map_ok c r = map_ok c r'" and "\<And>x y. r = Inr x \<Longrightarrow> r' = Inr y \<Longrightarrow> c x = c y \<Longrightarrow> map_ok d (f x) = map_ok d (g y)"
  shows "map_ok d (and_then r f) = map_ok d (and_then r' g)"
  using assms by (cases r; cases r') auto

text \<open>The tokenizer returns machine sizes.\<close>

definition counts_bounded :: "('f, 'd, 'v) local_env \<Rightarrow> bool" where
  "counts_bounded env \<longleftrightarrow> (\<forall>s n. lo_count env s = Inr n \<longrightarrow> n \<le> usize_max)"

definition section_core :: "'f local_section \<Rightarrow> string \<times> context_table" where
  "section_core s = (sc_text s, sc_table s)"

definition attempt_core :: "'f expansion_attempt \<Rightarrow> string list \<times> context_tables \<times> usize" where
  "attempt_core a = (xa_text a, xa_tables a, xa_tokens_used a)"

definition sections_core :: "'f local_sections \<Rightarrow> string \<times> context_tables" where
  "sections_core a = (ls_text a, ls_tables a)"

definition assembly_core :: "'f context_assembly \<Rightarrow> string list \<times> context_tables" where
  "assembly_core a = (as_parts a, as_tables a)"

lemma filter_relationships_capture_free:
  "fst (fst (filter_relationships_capture es rs ps k learned c)) = fst (fst (filter_relationships_capture es rs ps k learned c'))"
  "snd (filter_relationships_capture es rs ps k learned c) = snd (filter_relationships_capture es rs ps k learned c')"
  "snd (fst (filter_relationships_capture es rs ps k learned False)) = []"
  by (simp_all add: filter_relationships_capture_def Let_def)

text \<open>Without capture there is no section for relationships that are all filtered; with it there is an empty one.\<close>

definition relationship_section_agrees :: "'f local_section option \<Rightarrow> 'f local_section option \<Rightarrow> bool" where
  "relationship_section_agrees v w \<longleftrightarrow>
     map_option section_core v = map_option section_core w
     \<or> w = None \<and> map_option section_core v = Some ([], context_table_new relationship_columns [])"

lemma build_relationship_context_capture:
  "(case (build_relationship_context env data True es ps n learned, build_relationship_context env data False es ps n learned) of
     (Inr (v, l), Inr (w, l')) \<Rightarrow> relationship_section_agrees v w \<and> l = l'
   | (Inl e, Inl e') \<Rightarrow> e = e'
   | _ \<Rightarrow> False)"
proof -
  obtain s f l where t: "filter_relationships_capture es (ld_relationships data) ps (lo_top_k_relationships env) learned True = ((s, f), l)"
    by (metis surj_pair)
  moreover have "filter_relationships_capture es (ld_relationships data) ps (lo_top_k_relationships env) learned False = ((s, []), l)"
    using filter_relationships_capture_free [of es "ld_relationships data" ps "lo_top_k_relationships env" learned] t
    by (metis fst_conv snd_conv prod.collapse)
  ultimately show ?thesis
    by (cases "fit_delimited_rows env (context_table_new (relationship_columns @ (if rk_links (hd s) \<noteq> None then [''links''] else [])) [])
          (map (local_relationship_row env (rk_links (hd s) \<noteq> None)) s) ''Relationships'' n ''build Local Relationships context''")
      (auto simp: build_relationship_context_def Let_def relationship_section_agrees_def section_core_def
        rank_filtered_relationship_section_def split: sum.splits elim!: and_then.elims)
qed

lemma add_relationship_section_capture:
  assumes "relationship_section_agrees v w" "attempt_core a = attempt_core b" "xa_tokens_used a \<le> usize_max"
  shows "map_ok attempt_core (add_relationship_section env True n v a) = map_ok attempt_core (add_relationship_section env False n w b)"
proof (cases "map_option section_core v = map_option section_core w")
  case True
  then show ?thesis using assms(2)
    by (cases v; cases w) (auto simp: add_relationship_section_def map_ok_and_then attempt_core_def section_core_def)
next
  case False
  then obtain s where "v = Some s" "w = None" "section_core s = ([], context_table_new relationship_columns [])"
    using assms(1) by (auto simp: relationship_section_agrees_def)
  then show ?thesis using assms(2,3)
    by (simp add: add_relationship_section_def attempt_core_def section_core_def usize_sat_add_def)
qed

lemma build_covariate_context_capture:
  "map_ok (map_option section_core) (build_covariate_context env data True name gs ps n) =
   map_ok (map_option section_core) (build_covariate_context env data False name gs ps n)"
  by (simp add: build_covariate_context_def Let_def map_ok_and_then section_core_def)

lemma add_covariate_section_capture:
  assumes "map_option section_core v = map_option section_core w" "attempt_core a = attempt_core b"
  shows "map_ok attempt_core (add_covariate_section env True n name v a) = map_ok attempt_core (add_covariate_section env False n name w b)"
  using assms by (cases v; cases w) (auto simp: add_covariate_section_def map_ok_and_then attempt_core_def section_core_def)

lemma add_covariate_sections_capture:
  "attempt_core a = attempt_core b \<Longrightarrow>
   map_ok attempt_core (add_covariate_sections env data True ps n groups a) =
   map_ok attempt_core (add_covariate_sections env data False ps n groups b)"
proof (induction groups arbitrary: a b)
  case (Cons g groups)
  obtain name gs where g: "g = (name, gs)" by fastforce
  show ?case unfolding g add_covariate_sections.simps
  proof (rule map_ok_cong_and_then [OF build_covariate_context_capture], goal_cases)
    case (1 v w)
    show ?case
      by (rule map_ok_cong_and_then [OF add_covariate_section_capture [OF 1(3) Cons.prems] Cons.IH])
  qed
qed simp

definition attempt_links_core ::
  "'f expansion_attempt \<times> (string \<rightharpoonup> usize) \<Rightarrow> (string list \<times> context_tables \<times> usize) \<times> (string \<rightharpoonup> usize)" where
  "attempt_links_core al = (attempt_core (fst al), snd al)"

lemma build_local_expansion_attempt_capture:
  assumes "entity_tokens \<le> usize_max"
  shows "map_ok attempt_links_core (build_local_expansion_attempt env data True es rs cs n entity_tokens learned) =
    map_ok attempt_links_core (build_local_expansion_attempt env data False es rs cs n entity_tokens learned)"
proof -
  let ?start = "\<lparr>xa_text = [], xa_tables = [], xa_tokens_used = entity_tokens, xa_explainability = []\<rparr>"
  let ?rest = "\<lambda>capture v l. and_then (add_relationship_section env capture n v ?start) (\<lambda>attempt.
     and_then (add_covariate_sections env data capture cs n (qi_covariate_groups (ld_index data)) attempt) (\<lambda>attempt.
       Inr (attempt, l)))"
  have rest: "map_ok attempt_links_core (?rest True v l) = map_ok attempt_links_core (?rest False w l)"
    if "relationship_section_agrees v w" for v w l
  proof (rule map_ok_cong_and_then [OF add_relationship_section_capture [OF that refl]], goal_cases)
    case 1
    then show ?case using assms by simp
  next
    case (2 a b)
    show ?case
      by (rule map_ok_cong_and_then [OF add_covariate_sections_capture [OF 2(3)]]) (simp add: attempt_links_core_def)
  qed
  show ?thesis
    using build_relationship_context_capture [of env data es rs n learned]
    unfolding build_local_expansion_attempt_def
    by (cases "build_relationship_context env data True es rs n learned";
        cases "build_relationship_context env data False es rs n learned")
      (auto intro!: rest)
qed

definition expansion_core ::
  "'f expansion_attempt \<times> 'r \<Rightarrow> (string list \<times> context_tables \<times> usize) \<times> 'r" where
  "expansion_core ar = (attempt_core (fst ar), snd ar)"

lemma expand_loop_capture:
  assumes "entity_tokens \<le> usize_max"
  shows "attempt_core a = attempt_core b \<Longrightarrow>
    map_ok expansion_core (expand_loop env data True n entity_tokens es fs rs cs learned a) =
    map_ok expansion_core (expand_loop env data False n entity_tokens es fs rs cs learned b)"
proof (induction fs arbitrary: es rs cs learned a b)
  case Nil
  then show ?case by (simp add: expansion_core_def)
next
  case (Cons f fs)
  show ?case unfolding expand_loop.simps Let_def
  proof (rule map_ok_cong_and_then [OF build_local_expansion_attempt_capture [OF assms]], goal_cases)
    case (1 x y)
    then obtain c d l where xy: "x = (c, l)" "y = (d, l)" "attempt_core c = attempt_core d"
      by (cases x; cases y) (auto simp: attempt_links_core_def)
    then have "xa_tokens_used c = xa_tokens_used d" by (simp add: attempt_core_def)
    with Cons xy show ?case by (simp add: expansion_core_def attempt_core_def)
  qed
qed

lemma build_entity_section_capture:
  "map_ok (\<lambda>s. (section_core s, sc_tokens_used s)) (build_entity_section env True es n) =
   map_ok (\<lambda>s. (section_core s, sc_tokens_used s)) (build_entity_section env False es n)"
  by (simp add: build_entity_section_def map_ok_and_then section_core_def)

lemma build_entity_section_tokens:
  "counts_bounded env \<Longrightarrow> build_entity_section env c es n = Inr s \<Longrightarrow> sc_tokens_used s \<le> usize_max"
  by (auto simp: build_entity_section_def and_then_Inr_iff local_count_def counts_bounded_def)

lemma build_local_context_capture:
  assumes "counts_bounded env"
  shows "map_ok (\<lambda>s. (sections_core s, ls_tokens_used s)) (build_local_context env data True es n) =
    map_ok (\<lambda>s. (sections_core s, ls_tokens_used s)) (build_local_context env data False es n)"
proof (cases "es = []")
  case False
  show ?thesis unfolding build_local_context_def if_not_P [OF False]
  proof (rule map_ok_cong_and_then [OF build_entity_section_capture], goal_cases)
    case (1 s t)
    then have core: "section_core s = section_core t" "sc_tokens_used t = sc_tokens_used s" by simp_all
    have "map_ok expansion_core (expand_loop env data True n (sc_tokens_used s) [] es {} [] Map.empty
        \<lparr>xa_text = [], xa_tables = [], xa_tokens_used = sc_tokens_used s, xa_explainability = []\<rparr>) =
      map_ok expansion_core (expand_loop env data False n (sc_tokens_used s) [] es {} [] Map.empty
        \<lparr>xa_text = [], xa_tables = [], xa_tokens_used = sc_tokens_used s, xa_explainability = []\<rparr>)"
      by (rule expand_loop_capture [OF build_entity_section_tokens [OF assms 1(1)] refl])
    then have graph: "map_ok expansion_core (expand_local_graph env data True es n (sc_tokens_used s)) =
        map_ok expansion_core (expand_local_graph env data False es n (sc_tokens_used s))"
      unfolding expand_local_graph_def
      by (rule map_ok_cong_and_then) (auto simp: expansion_core_def attempt_core_def split: prod.splits)
    show ?case unfolding core(2)
      by (rule map_ok_cong_and_then [OF graph])
        (use core in \<open>auto simp: expansion_core_def attempt_core_def section_core_def sections_core_def split: prod.splits\<close>)
  qed
qed (simp add: build_local_context_def)

lemma community_capture_sections:
  "map_ok (map_option section_core) (build_community_context env data True es n) =
   map_ok (map_option section_core) (build_community_context env data False es n)"
proof -
  obtain s l where sel: "\<And>c. select_community_reports env data c (community_matches es) = (s, if c then Some l else None)"
    unfolding select_community_reports_def by (metis (mono_tags, lifting) case_prod_conv surj_pair)
  have table: "ft_table (case v of None \<Rightarrow> x | Some k \<Rightarrow> x\<lparr>ft_tokens_used := k\<rparr>) = ft_table x" for v x
    by (cases v) simp_all
  show ?thesis
    by (simp add: build_community_context_def Let_def sel captured_def table map_ok_and_then section_core_def
        empty_community_section_def if_distrib [of "map_ok _"] cong: if_cong)
qed

definition source_section_agrees :: "'f local_section option \<Rightarrow> 'f local_section option \<Rightarrow> bool" where
  "source_section_agrees v w \<longleftrightarrow>
     map_option section_core v = map_option section_core w \<or> w = None \<and> (\<exists>s. v = Some s \<and> sc_text s = [])"

lemma source_capture_sections:
  "(case (build_source_context env data True es n, build_source_context env data False es n) of
     (Inr v, Inr w) \<Rightarrow> source_section_agrees v w
   | (Inl e, Inl e') \<Rightarrow> e = e'
   | _ \<Rightarrow> False)"
proof -
  obtain r m where sel: "select_source_text_units data es = (r, m)" by fastforce
  show ?thesis
    by (cases "fit_delimited_rows env (context_table_new [''id'', ''text''] []) (map (\<lambda>(u, _, _). [tu_short_id u, tu_text u]) r)
        ''Sources'' n ''build Local Sources context''")
      (auto simp: build_source_context_def sel Let_def source_section_agrees_def section_core_def missing_source_section_def
        split: sum.splits elim!: and_then.elims)
qed

lemma conversation_capture:
  "map_ok (map_option (\<lambda>s. (section_core s, sc_tokens_used s))) (build_conversation_history env True h n) =
   map_ok (map_option (\<lambda>s. (section_core s, sc_tokens_used s))) (build_conversation_history env False h n)"
  by (simp add: build_conversation_history_def Let_def map_ok_and_then section_core_def if_distrib [of "map_ok _"] cong: if_cong)

lemma add_section_core:
  assumes "map_option section_core v = map_option section_core w" "assembly_core a = assembly_core b"
  shows "assembly_core (add_section k name v a) = assembly_core (add_section k name w b)"
  using assms by (cases v; cases w) (auto simp: add_section_def assembly_core_def section_core_def Let_def)

lemma add_source_core:
  assumes "source_section_agrees v w" "assembly_core a = assembly_core b"
  shows "assembly_core (add_section False name v a) = assembly_core (add_section False name w b)"
proof (cases "map_option section_core v = map_option section_core w")
  case False
  then obtain s where "w = None" "v = Some s" "sc_text s = []" using assms(1) by (auto simp: source_section_agrees_def)
  then show ?thesis using assms(2) by (simp add: add_section_def assembly_core_def Let_def)
next
  case True
  then show ?thesis using assms(2) by (rule add_section_core)
qed

lemma build_context_sections_capture:
  assumes "counts_bounded env"
  shows "map_ok assembly_core (build_context_sections env data True es h) =
    map_ok assembly_core (build_context_sections env data False es h)"
proof -
  have talk: "map_ok (map_option (\<lambda>s. (section_core s, sc_tokens_used s)))
      (case h of None \<Rightarrow> Inr None | Some h \<Rightarrow> build_conversation_history env True h n) =
    map_ok (map_option (\<lambda>s. (section_core s, sc_tokens_used s)))
      (case h of None \<Rightarrow> Inr None | Some h \<Rightarrow> build_conversation_history env False h n)" for n
    using conversation_capture by (cases h) auto
  show ?thesis unfolding build_context_sections_def Let_def
  proof (rule map_ok_cong_and_then [OF talk], goal_cases)
    case (1 v w)
    then have remaining: "(case v of None \<Rightarrow> lo_max_context_tokens env | Some s \<Rightarrow> lo_max_context_tokens env - sc_tokens_used s) =
        (case w of None \<Rightarrow> lo_max_context_tokens env | Some s \<Rightarrow> lo_max_context_tokens env - sc_tokens_used s)"
      and core: "map_option section_core v = map_option section_core w"
      by (cases v; cases w; simp)+
    note start = add_section_core [OF core refl]
    show ?case unfolding remaining
    proof (rule map_ok_cong_and_then [OF community_capture_sections], goal_cases)
      case (1 c d)
      note reports = add_section_core [OF 1(3) start]
      show ?case
      proof (rule map_ok_cong_and_then [OF build_local_context_capture [OF assms]], goal_cases)
        case (1 x y)
        then have sections: "ls_text x = ls_text y" "ls_tables x = ls_tables y" by (simp_all add: sections_core_def)
        show ?case
          using source_capture_sections [of env data es "lo_proportion env (case w of None \<Rightarrow> lo_max_context_tokens env
              | Some s \<Rightarrow> lo_max_context_tokens env - sc_tokens_used s) (lo_text_unit_prop env)"]
            reports [of True "''reports''" True "''conversation history''"]
          by (auto simp: sections assembly_core_def split: sum.splits intro!: add_source_core [unfolded assembly_core_def, simplified])
      qed
    qed
  qed
qed

text \<open>C21: Explainability does not interfere: whether evidence is captured or not, a Local Search gets the same
  context text, the same records and the same usage, or fails with the same error.\<close>

theorem capture_does_not_interfere:
  assumes "counts_bounded env"
  shows "map_ok (\<lambda>b. (lb_context b, lb_usage b)) (build_with_entity_filters env data True query history include_names exclude_names)
    = map_ok (\<lambda>b. (lb_context b, lb_usage b)) (build_with_entity_filters env data False query history include_names exclude_names)"
proof -
  have "map_ok (\<lambda>b. (lb_context b, lb_usage b)) (and_then (build_context_sections env data True es history) (f u)) =
      map_ok (\<lambda>b. (lb_context b, lb_usage b)) (and_then (build_context_sections env data False es history) (f u))"
    if f: "f = (\<lambda>u assembly. and_then (local_context_records env (as_tables assembly)) (\<lambda>records.
        Inr \<lparr>lb_context = \<lparr>qc_text = Text (join_with [CHR 0x0A, CHR 0x0A] (as_parts assembly)),
                          qc_records = RecordTables records\<rparr>,
             lb_usage = u, lb_context_tokens = as_tokens_used assembly,
             lb_explainability = as_explainability assembly\<rparr>))" for f u es
    unfolding f
    by (rule map_ok_cong_and_then [OF build_context_sections_capture [OF assms]])
      (auto simp: assembly_core_def map_ok_and_then)
  then show ?thesis
    unfolding build_with_entity_filters_def Let_def
    by (cases "map_entities env data (case history of None \<Rightarrow> query
          | Some h \<Rightarrow> mapping_query query (lo_history_max_turns env) h) include_names exclude_names")
      auto
qed

subsection \<open>Rows that fit\<close>

lemma fit_loop_tokens:
  "fit_loop env op n table tokens rows = Inr (table', tokens') \<Longrightarrow> tokens' = tokens \<or> tokens' \<le> n"
proof (induction rows arbitrary: table tokens)
  case (Cons row rows)
  from Cons.prems show ?case by (auto simp: and_then_Inr_iff split: if_splits dest!: Cons.IH)
qed simp

lemma fit_loop_rows:
  "fit_loop env op n table tokens rows = Inr (table', tokens') \<Longrightarrow>
   \<exists>k \<le> length rows. ct_rows table' = ct_rows table @ take k rows \<and> ct_columns table' = ct_columns table
     \<and> (0 < k \<longrightarrow> tokens' \<le> n)"
proof (induction rows arbitrary: table tokens)
  case Nil
  then show ?case by auto
next
  case (Cons row rows)
  then obtain row_text row_tokens where
    rest: "(if n < usize_sat_add tokens row_tokens then Inr (table, tokens)
       else fit_loop env op n (context_table_push row table) (usize_sat_add tokens row_tokens) rows) = Inr (table', tokens')"
    by (auto simp: and_then_Inr_iff)
  show ?case
  proof (cases "n < usize_sat_add tokens row_tokens")
    case True
    then show ?thesis using rest by (intro exI [of _ 0]) simp
  next
    case False
    with rest have loop: "fit_loop env op n (context_table_push row table) (usize_sat_add tokens row_tokens) rows = Inr (table', tokens')"
      by simp
    from Cons.IH [OF loop] obtain k where k: "k \<le> length rows" "ct_rows table' = ct_rows table @ row # take k rows"
      "ct_columns table' = ct_columns table" "0 < k \<longrightarrow> tokens' \<le> n"
      by (auto simp: context_table_push_def)
    have "tokens' \<le> n" using fit_loop_tokens [OF loop] False by auto
    then show ?thesis using k by (intro exI [of _ "Suc k"]) simp
  qed
qed

lemma fit_rows_counts:
  assumes "fit_delimited_rows env (context_table_new columns []) rows name n op = Inr fitted"
  shows "ft_candidate_count fitted = length rows" "ft_selected_count fitted \<le> length rows"
    "ft_table fitted = context_table_new columns (take (ft_selected_count fitted) rows)"
proof -
  obtain tokens table' tokens' where loop: "fit_loop env op n (context_table_new columns []) tokens rows = Inr (table', tokens')"
    and f: "fitted = \<lparr>ft_table = table', ft_tokens_used = tokens', ft_candidate_count = length rows,
            ft_selected_count = context_table_len table'\<rparr>"
    using assms by (auto simp: fit_delimited_rows_def and_then_Inr_iff)
  obtain k where k: "k \<le> length rows" "ct_rows table' = take k rows" "ct_columns table' = columns"
    using fit_loop_rows [OF loop] by (auto simp: context_table_new_def)
  show "ft_candidate_count fitted = length rows" "ft_selected_count fitted \<le> length rows"
    using k by (simp_all add: f context_table_len_def)
  have "ft_selected_count fitted = k" using k by (simp add: f context_table_len_def)
  then show "ft_table fitted = context_table_new columns (take (ft_selected_count fitted) rows)"
    using k by (cases table') (simp add: f context_table_new_def)
qed

text \<open>The rows are the longest affordable prefix. The tokens of a header and of rows below it, summed as the
  code sums them; a text that cannot be counted fails the query.\<close>

definition text_tokens :: "('f, 'd, 'v) local_env \<Rightarrow> string \<Rightarrow> nat" where
  "text_tokens env s = (case lo_count env s of Inl _ \<Rightarrow> 0 | Inr n \<Rightarrow> n)"

definition rows_tokens :: "('f, 'd, 'v) local_env \<Rightarrow> usize \<Rightarrow> string list list \<Rightarrow> usize" where
  "rows_tokens env = foldl (\<lambda>tokens row. usize_sat_add tokens (text_tokens env (delimited_record row)))"

lemma fit_loop_longest:
  assumes "fit_loop env op n table (rows_tokens env t rows0) rows = Inr (table', tokens')"
  shows "\<exists>k \<le> length rows. ct_rows table' = ct_rows table @ take k rows
     \<and> (0 < k \<longrightarrow> rows_tokens env t (rows0 @ take k rows) \<le> n)
     \<and> (k < length rows \<longrightarrow> n < rows_tokens env t (rows0 @ take (Suc k) rows))"
  using assms
proof (induction rows arbitrary: table rows0)
  case (Cons row rows)
  let ?t = "rows_tokens env t rows0"
  obtain row_text row_tokens where row: "render_delimited_row (lo_method env) op table row = Inr row_text"
      "local_count env row_text op = Inr row_tokens"
    and rest: "(if n < usize_sat_add ?t row_tokens then Inr (table, ?t)
       else fit_loop env op n (context_table_push row table) (usize_sat_add ?t row_tokens) rows) = Inr (table', tokens')"
    using Cons.prems by (auto simp: and_then_Inr_iff)
  have "text_tokens env (delimited_record row) = row_tokens"
    using row by (auto simp: render_delimited_row_def local_count_def and_then_Inr_iff text_tokens_def)
  then have sum: "usize_sat_add ?t row_tokens = rows_tokens env t (rows0 @ [row])" by (simp add: rows_tokens_def)
  show ?case
  proof (cases "n < usize_sat_add ?t row_tokens")
    case True
    then show ?thesis using rest sum by (intro exI [of _ 0]) simp
  next
    case False
    with rest have loop: "fit_loop env op n (context_table_push row table) (rows_tokens env t (rows0 @ [row])) rows =
        Inr (table', tokens')" by (simp add: sum)
    from Cons.IH [OF loop] obtain k where "k \<le> length rows" "ct_rows table' = ct_rows table @ row # take k rows"
      "0 < k \<longrightarrow> rows_tokens env t (rows0 @ row # take k rows) \<le> n"
      "k < length rows \<longrightarrow> n < rows_tokens env t (rows0 @ row # take (Suc k) rows)"
      by (auto simp: context_table_push_def)
    then show ?thesis using False sum by (intro exI [of _ "Suc k"]) (cases k, auto)
  qed
qed simp

lemma fit_rows_longest:
  assumes "fit_delimited_rows env (context_table_new columns []) rows name n op = Inr fitted"
  defines "t \<equiv> text_tokens env (section_title name @ delimited_record columns)"
  shows "0 < ft_selected_count fitted \<Longrightarrow> rows_tokens env t (take (ft_selected_count fitted) rows) \<le> n"
    and "ft_selected_count fitted < length rows \<Longrightarrow> n < rows_tokens env t (take (Suc (ft_selected_count fitted)) rows)"
proof -
  obtain tokens' where loop: "fit_loop env op n (context_table_new columns []) (rows_tokens env t []) rows =
      Inr (ft_table fitted, tokens')" and len: "ft_selected_count fitted = length (ct_rows (ft_table fitted))"
    using assms(1)
    by (auto simp: fit_delimited_rows_def render_delimited_header_def and_then_Inr_iff local_count_def rows_tokens_def
        t_def text_tokens_def context_table_len_def context_table_new_def)
  from fit_loop_longest [OF loop] obtain k where k: "k \<le> length rows" "ct_rows (ft_table fitted) = take k rows"
      "0 < k \<longrightarrow> rows_tokens env t (take k rows) \<le> n"
      "k < length rows \<longrightarrow> n < rows_tokens env t (take (Suc k) rows)"
    by (auto simp: context_table_new_def)
  then have "ft_selected_count fitted = k" using len by simp
  with k show "0 < ft_selected_count fitted \<Longrightarrow> rows_tokens env t (take (ft_selected_count fitted) rows) \<le> n"
    "ft_selected_count fitted < length rows \<Longrightarrow> n < rows_tokens env t (take (Suc (ft_selected_count fitted)) rows)"
    by simp_all
qed

subsection \<open>The evidence is consistent\<close>

fun evidence_type :: "section_kind \<Rightarrow> record_type option" where
  "evidence_type CommunityReports = Some CommunityReport"
| "evidence_type Relationships = Some Relationship"
| "evidence_type Covariates = Some Covariate"
| "evidence_type Sources = Some TextUnit"
| "evidence_type _ = None"

definition candidates_ok :: "record_type \<Rightarrow> 'f candidate list \<Rightarrow> bool" where
  "candidates_ok t cs \<longleftrightarrow> (\<forall>c \<in> set cs. ca_record_type c = t \<and> (not_token_limited c \<longrightarrow> \<not> ca_selected c))"

text \<open>A section with candidates.\<close>

definition evidence_ok :: "'f section_explainability \<Rightarrow> bool" where
  "evidence_ok s \<longleftrightarrow>
     (case evidence_type (se_kind s) of None \<Rightarrow> False
      | Some t \<Rightarrow>
          candidates_ok t (se_candidates s)
          \<and> se_selected_record_ids s = map ca_id (filter ca_selected (se_candidates s))
          \<and> se_selected_count s = length (se_selected_record_ids s)
          \<and> se_candidate_count s = length (filter (\<lambda>c. \<not> not_token_limited c) (se_candidates s))
          \<and> se_truncated s = (se_selected_count s < se_candidate_count s))"

lemma evidence_ok_tokens [simp]: "evidence_ok (s\<lparr>se_tokens_used := n\<rparr>) = evidence_ok s"
  by (simp add: evidence_ok_def split: option.split)

lemma evidence_ok_empty:
  "evidence_type kind \<noteq> None \<Longrightarrow> evidence_ok (empty_section_explainability kind name n)"
  by (auto simp: evidence_ok_def empty_section_explainability_def candidates_ok_def split: option.split)

lemma candidates_ok_append [simp]: "candidates_ok t (xs @ ys) \<longleftrightarrow> candidates_ok t xs \<and> candidates_ok t ys"
  by (auto simp: candidates_ok_def)

lemma length_enumerate_from: "length (enumerate_from n xs) = length xs"
  by (simp add: enumerate_from_conv)

lemma filter_enumerate_less:
  "filter (\<lambda>(i, x). i < k) (enumerate_from j xs) = enumerate_from j (take (k - j) xs)"
proof (induction xs arbitrary: j)
  case (Cons x xs)
  show ?case
  proof (cases "j < k")
    case True
    then have "k - j = Suc (k - Suc j)" by simp
    then show ?thesis using True by (simp add: Cons.IH)
  qed (simp add: Cons.IH)
qed simp

lemma filter_map_selected:
  assumes "\<And>x. S (g x) = P x" "\<And>x. P x \<Longrightarrow> g x = h x"
  shows "filter S (map g xs) = map h (filter P xs)"
  by (induction xs) (simp_all add: assms)

lemma record_candidates_ok:
  assumes "\<And>r. ca_record_type (f r) = t" "reason \<noteq> RankThreshold" "reason \<noteq> MissingRecord"
  shows "candidates_ok t (record_candidates reason k f rs)"
    and "filter (\<lambda>c. \<not> not_token_limited c) (record_candidates reason k f rs) = record_candidates reason k f rs"
    and "length (filter ca_selected (record_candidates reason k f rs)) = min k (length rs)"
proof -
  show "candidates_ok t (record_candidates reason k f rs)"
    using assms by (auto simp: candidates_ok_def record_candidates_def not_token_limited_def split: if_splits)
  show "filter (\<lambda>c. \<not> not_token_limited c) (record_candidates reason k f rs) = record_candidates reason k f rs"
    using assms(2,3) by (auto simp: record_candidates_def not_token_limited_def filter_id_conv split: if_splits)
  have "filter ca_selected (record_candidates reason k f rs) =
      map (\<lambda>(i, r). (f r)\<lparr>ca_selected := True, ca_reason := Some reason\<rparr>) (filter (\<lambda>(i, x). i < k) (enumerate_from 0 rs))"
    unfolding record_candidates_def by (rule filter_map_selected) (auto split: if_splits)
  then show "length (filter ca_selected (record_candidates reason k f rs)) = min k (length rs)"
    by (simp add: filter_enumerate_less length_enumerate_from min.commute)
qed

lemma record_section_ok:
  assumes "evidence_type (sp_kind spec) = Some t" "\<And>r. ca_record_type (f r) = t"
    and "sp_selected_reason spec \<noteq> RankThreshold" "sp_selected_reason spec \<noteq> MissingRecord"
    and "ft_candidate_count fitted = length rs" "ft_selected_count fitted \<le> length rs"
    and left: "\<forall>c \<in> set left_out. ca_record_type c = t \<and> not_token_limited c \<and> \<not> ca_selected c"
  shows "evidence_ok (build_record_section_explainability spec fitted rs left_out f)"
proof -
  note cands = record_candidates_ok [of f t "sp_selected_reason spec" "ft_selected_count fitted" rs, OF assms(2-4)]
  have "filter ca_selected left_out = []" "filter (\<lambda>c. \<not> not_token_limited c) left_out = []"
    using left by (auto simp: filter_empty_conv)
  moreover have "candidates_ok t left_out" using left by (auto simp: candidates_ok_def)
  moreover have "length (record_candidates (sp_selected_reason spec) (ft_selected_count fitted) f rs) = length rs"
    by (simp add: record_candidates_def enumerate_from_conv)
  ultimately show ?thesis using assms(1,5,6) cands
    by (simp add: evidence_ok_def build_record_section_explainability_def Let_def)
qed

lemma rollback_candidates_spec:
  "rollback_candidates available rolled kept cs = (out, rolled') \<Longrightarrow> candidates_ok t cs \<Longrightarrow>
   \<exists>new. out = kept @ new \<and> candidates_ok t new \<and> filter ca_selected new = []
     \<and> (0 < rolled' \<longleftrightarrow> 0 < rolled \<or> filter (\<lambda>c. \<not> not_token_limited c) new \<noteq> [])"
proof (induction cs arbitrary: available rolled kept)
  case (Cons c cs)
  have cs: "candidates_ok t cs" "ca_record_type c = t" "not_token_limited c \<longrightarrow> \<not> ca_selected c"
    using Cons.prems(2) by (simp_all add: candidates_ok_def)
  let ?d = "c\<lparr>ca_selected := False, ca_reason := Some TokenBudgetReason\<rparr>"
  consider (matched) "ca_id c \<in> set available" | (limited) "ca_id c \<notin> set available" "not_token_limited c"
    | (rolled) "ca_id c \<notin> set available" "\<not> not_token_limited c" by blast
  then show ?case
  proof cases
    case matched
    with Cons.prems(1) show ?thesis by (auto dest!: Cons.IH [OF _ cs(1)])
  next
    case limited
    with Cons.prems(1) have "rollback_candidates available rolled (kept @ [c]) cs = (out, rolled')" by simp
    from Cons.IH [OF this cs(1)] obtain new where "out = kept @ [c] @ new" "candidates_ok t new" "filter ca_selected new = []"
      "0 < rolled' \<longleftrightarrow> 0 < rolled \<or> filter (\<lambda>c. \<not> not_token_limited c) new \<noteq> []" by auto
    then show ?thesis using limited cs by (intro exI [of _ "c # new"]) (simp add: candidates_ok_def)
  next
    case rolled
    with Cons.prems(1) have "rollback_candidates available (usize_sat_add rolled 1) (kept @ [?d]) cs = (out, rolled')" by simp
    from Cons.IH [OF this cs(1)] obtain new where "out = kept @ [?d] @ new" "candidates_ok t new" "filter ca_selected new = []"
      "0 < rolled' \<longleftrightarrow> 0 < usize_sat_add rolled 1 \<or> filter (\<lambda>c. \<not> not_token_limited c) new \<noteq> []" by auto
    moreover have "\<not> not_token_limited ?d" by (simp add: not_token_limited_def)
    moreover have "0 < usize_sat_add rolled 1" by (simp add: usize_sat_add_def usize_max_def)
    ultimately show ?thesis using cs by (intro exI [of _ "?d # new"]) (simp add: candidates_ok_def)
  qed
qed (simp add: candidates_ok_def)

lemma rollback_no_candidates: "rollback_candidates available rolled kept [] = (kept, rolled)"
  by simp

lemma selected_le_counted: "candidates_ok t cs \<Longrightarrow> length (filter ca_selected cs) \<le> length (filter (\<lambda>c. \<not> not_token_limited c) cs)"
  by (induction cs) (auto simp: candidates_ok_def)

lemma rollback_one_ok:
  assumes "evidence_ok a" and "\<And>s. b = Some s \<Longrightarrow> evidence_ok s \<and> same_section s a"
  shows "evidence_ok (rollback_one_section a b)"
    and "se_kind (rollback_one_section a b) = se_kind a" "se_name (rollback_one_section a b) = se_name a"
proof -
  let ?s = "case b of Some s \<Rightarrow> s
      | None \<Rightarrow> empty_section_explainability (se_kind a) (se_name a) (se_token_budget a)"
  have s: "evidence_ok ?s" "se_kind ?s = se_kind a" "se_name ?s = se_name a"
  proof -
    have "evidence_ok ?s \<and> se_kind ?s = se_kind a \<and> se_name ?s = se_name a"
    proof (cases b)
      case None
      have "evidence_type (se_kind a) \<noteq> None" using assms(1) by (auto simp: evidence_ok_def split: option.splits)
      then show ?thesis using None by (simp add: evidence_ok_empty) (simp add: empty_section_explainability_def)
    next
      case (Some x)
      then show ?thesis using assms(2) [OF Some] by (simp add: same_section_def)
    qed
    then show "evidence_ok ?s" "se_kind ?s = se_kind a" "se_name ?s = se_name a" by blast+
  qed
  obtain out rolled where out: "rollback_candidates (map ca_id (se_candidates ?s)) 0 (se_candidates ?s) (se_candidates a) = (out, rolled)"
    by fastforce
  have res: "rollback_one_section a b = ?s\<lparr>se_candidates := out,
      se_candidate_count := length (filter (\<lambda>c. \<not> not_token_limited c) out),
      se_selected_record_ids := map ca_id (filter ca_selected out),
      se_selected_count := length (map ca_id (filter ca_selected out)),
      se_truncated := se_truncated ?s \<or> 0 < rolled\<rparr>"
    unfolding rollback_one_section_def by (simp only: Let_def out prod.case)
  show "se_kind (rollback_one_section a b) = se_kind a" "se_name (rollback_one_section a b) = se_name a"
    using s(2,3) by (simp_all add: res)
  show "evidence_ok (rollback_one_section a b)"
  proof (cases "evidence_type (se_kind a)")
    case None
    then show ?thesis using assms(1) by (simp add: evidence_ok_def)
  next
    case (Some t)
    then have ok: "candidates_ok t (se_candidates a)" "candidates_ok t (se_candidates ?s)"
      "se_selected_count ?s = length (filter ca_selected (se_candidates ?s))"
      "se_candidate_count ?s = length (filter (\<lambda>c. \<not> not_token_limited c) (se_candidates ?s))"
      "se_truncated ?s = (se_selected_count ?s < se_candidate_count ?s)"
      using assms(1) s by (simp_all add: evidence_ok_def)
    obtain new where new: "out = se_candidates ?s @ new" "candidates_ok t new" "filter ca_selected new = []"
      "0 < rolled \<longleftrightarrow> filter (\<lambda>c. \<not> not_token_limited c) new \<noteq> []"
      using rollback_candidates_spec [OF out ok(1)] by auto
    have "length (filter ca_selected out) = se_selected_count ?s" using new ok by simp
    moreover have "length (filter (\<lambda>c. \<not> not_token_limited c) out) =
        se_candidate_count ?s + length (filter (\<lambda>c. \<not> not_token_limited c) new)" using new ok by simp
    moreover have "se_selected_count ?s \<le> se_candidate_count ?s" using selected_le_counted [OF ok(2)] ok by simp
    ultimately have "(se_truncated ?s \<or> 0 < rolled) =
        (length (filter ca_selected out) < length (filter (\<lambda>c. \<not> not_token_limited c) out))"
      using new(4) ok(5) by auto
    moreover have "candidates_ok t out" using new ok(2) by simp
    ultimately show ?thesis using Some s(2) by (simp add: evidence_ok_def res)
  qed
qed

lemma rollback_sections_ok:
  assumes "list_all evidence_ok attempted" "list_all evidence_ok accepted"
  shows "list_all evidence_ok (rollback_section_explainability attempted accepted)"
proof -
  have each: "evidence_ok (rollback_one_section a (find (\<lambda>s. same_section s a) accepted))" if "a \<in> set attempted" for a
  proof (rule rollback_one_ok(1))
    show "evidence_ok a" using assms(1) that by (simp add: list_all_iff)
    show "evidence_ok s \<and> same_section s a" if "find (\<lambda>s. same_section s a) accepted = Some s" for s
      using that assms(2) by (auto simp: find_Some_iff list_all_iff)
  qed
  have fold: "list_all evidence_ok (foldl (\<lambda>out a. if list_ex (\<lambda>s. same_section s a) out then out else out @ [a]) out xs)"
    if "list_all evidence_ok out" "list_all evidence_ok xs" for out xs :: "'a section_explainability list"
    using that by (induction xs arbitrary: out) simp_all
  have "list_all evidence_ok (map (\<lambda>a. rollback_one_section a (find (\<lambda>s. same_section s a) accepted)) attempted)"
    unfolding list_all_iff set_map using each by blast
  from fold [OF this assms(2)] show ?thesis unfolding rollback_section_explainability_def Let_def .
qed

definition section_evidence_ok :: "'f local_section option \<Rightarrow> bool" where
  "section_evidence_ok v \<longleftrightarrow> (\<forall>s c. v = Some s \<and> sc_explainability s = Some c \<longrightarrow> evidence_ok c)"

lemma rank_filtered_left:
  "c \<in> set (rank_filtered_candidates rs) \<Longrightarrow>
   ca_record_type c = Relationship \<and> not_token_limited c \<and> \<not> ca_selected c"
  by (auto simp: rank_filtered_candidates_def relationship_candidate_def candidate_new_def not_token_limited_def)

lemma left_only_ok:
  assumes "evidence_type kind = Some t"
    and "\<forall>c \<in> set cs. ca_record_type c = t \<and> not_token_limited c \<and> \<not> ca_selected c"
  shows "evidence_ok ((empty_section_explainability kind name n)\<lparr>se_candidates := cs\<rparr>)"
proof -
  have "filter ca_selected cs = []" "filter (\<lambda>c. \<not> not_token_limited c) cs = []" "candidates_ok t cs"
    using assms(2) by (auto simp: filter_empty_conv candidates_ok_def)
  then show ?thesis using assms(1) by (simp add: evidence_ok_def empty_section_explainability_def)
qed

lemma relationship_evidence:
  assumes "build_relationship_context env data capture es ps n learned = Inr (v, l)"
  shows "section_evidence_ok v"
proof -
  obtain s f l' where t: "filter_relationships_capture es (ld_relationships data) ps (lo_top_k_relationships env) learned capture = ((s, f), l')"
    by (metis surj_pair)
  have "evidence_ok c" if v: "v = Some x" "sc_explainability x = Some c" for x c
  proof (cases "s = []")
    case True
    then have "x = rank_filtered_relationship_section f n"
      using assms v by (auto simp: build_relationship_context_def t split: if_splits)
    then show ?thesis using v left_only_ok [of Relationships Relationship "rank_filtered_candidates f" None n] rank_filtered_left
      by (auto simp: rank_filtered_relationship_section_def)
  next
    case False
    then obtain fitted columns where fitted: "fit_delimited_rows env (context_table_new columns [])
          (map (local_relationship_row env (rk_links (hd s) \<noteq> None)) s) ''Relationships'' n ''build Local Relationships context'' = Inr fitted"
      and c: "c = build_record_section_explainability
                      \<lparr>sp_kind = Relationships, sp_name = None, sp_token_budget = n, sp_selected_reason = GraphExpansion\<rparr>
                      fitted (map rk_relationship s) (rank_filtered_candidates f) relationship_candidate"
      using assms v by (auto simp: build_relationship_context_def t Let_def and_then_Inr_iff split: if_splits)
    show ?thesis unfolding c
      by (rule record_section_ok [where t = Relationship])
        (use fit_rows_counts [OF fitted] rank_filtered_left in
          \<open>auto simp: relationship_candidate_def candidate_new_def\<close>)
  qed
  then show ?thesis by (auto simp: section_evidence_ok_def)
qed

lemma covariate_evidence:
  assumes "build_covariate_context env data capture name gs ps n = Inr v"
  shows "section_evidence_ok v"
proof -
  let ?selected = "List.map_filter (nth_opt (ld_covariates data)) (filter (\<lambda>i. i \<in> gs) ps)"
  have "evidence_ok c" if v: "v = Some x" "sc_explainability x = Some c" for x c
  proof -
    obtain fitted where fitted: "fit_delimited_rows env (context_table_new covariate_columns []) (map covariate_row ?selected) name
          n ''build Local covariate context'' = Inr fitted"
      and c: "c = build_record_section_explainability
              \<lparr>sp_kind = Covariates, sp_name = Some name, sp_token_budget = n, sp_selected_reason = GraphExpansion\<rparr>
              fitted ?selected [] covariate_candidate"
      using assms v by (auto simp: build_covariate_context_def Let_def and_then_Inr_iff split: if_splits)
    show ?thesis unfolding c
      by (rule record_section_ok [where t = Covariate])
        (use fit_rows_counts [OF fitted] in \<open>auto simp: covariate_candidate_def candidate_new_def\<close>)
  qed
  then show ?thesis by (auto simp: section_evidence_ok_def)
qed

definition left_out_ok :: "'f candidate \<Rightarrow> bool" where
  "left_out_ok c \<longleftrightarrow> ca_record_type c = CommunityReport \<and> not_token_limited c \<and> \<not> ca_selected c"

lemma community_left_out_step:
  "list_all left_out_ok (snd st) \<Longrightarrow> list_all left_out_ok (snd (select_community_report env data st m))"
  by (cases st; cases m)
    (simp add: select_community_report_def left_out_ok_def candidate_new_def community_report_candidate_def
      not_token_limited_def split: option.split)

lemma community_left_out:
  "list_all left_out_ok (snd st) \<Longrightarrow> list_all left_out_ok (snd (foldl (select_community_report env data) st ms))"
  by (induction ms arbitrary: st) (simp_all add: community_left_out_step)

lemma community_evidence:
  assumes "build_community_context env data capture es n = Inr v"
  shows "section_evidence_ok v"
proof -
  let ?matches = "community_matches es"
  obtain s l where sl: "foldl (select_community_report env data) ([], []) ?matches = (s, l)" by fastforce
  have sel: "select_community_reports env data capture ?matches = (s, if capture then Some l else None)"
    by (simp add: select_community_reports_def sl)
  have left: "\<forall>c \<in> set l. ca_record_type c = CommunityReport \<and> not_token_limited c \<and> \<not> ca_selected c"
    using community_left_out [of "([], [])" env data ?matches] sl by (simp add: list_all_iff left_out_ok_def)
  let ?selected = "map fst (sort_by (matches_then_rank env) s)"
  let ?spec = "\<lparr>sp_kind = CommunityReports, sp_name = None, sp_token_budget = n, sp_selected_reason = CommunityMembership\<rparr>"
  have recorded: "evidence_ok (build_record_section_explainability ?spec (fitted\<lparr>ft_tokens_used := k\<rparr>) ?selected cs community_report_candidate)"
    if "fit_report_rows env (context_table_new community_columns [])
             (map (\<lambda>(r, _). [rp_short_id r, rp_title r, rp_full_content r]) (sort_by (matches_then_rank env) s)) ''Reports'' n
             ''build Local Reports context'' = Inr fitted" "set cs \<subseteq> set l" for fitted k cs
    by (rule record_section_ok [where t = CommunityReport])
      (use fit_rows_counts [OF that(1) [unfolded fit_report_rows_def]] left that(2) in
        \<open>auto simp: community_report_candidate_def candidate_new_def\<close>)
  have empty: "evidence_ok c" if "sc_explainability (empty_community_section n cs k) = Some c" "\<And>c. cs = Some c \<Longrightarrow> set c \<subseteq> set l" for cs k c
  proof -
    have "evidence_ok ((empty_section_explainability CommunityReports None n)\<lparr>se_tokens_used := m, se_candidates := c\<rparr>)"
      if "set c \<subseteq> set l" for m c
    proof -
      have "evidence_ok ((empty_section_explainability CommunityReports None n)\<lparr>se_candidates := c\<rparr>)"
        by (rule left_only_ok [of _ CommunityReport]) (use left that in auto)
      then show ?thesis by (simp add: evidence_ok_def empty_section_explainability_def)
    qed
    then show ?thesis using that
      by (auto simp: empty_community_section_def split: option.splits)
  qed
  show ?thesis using assms
    by (auto simp: build_community_context_def Let_def sel captured_def and_then_Inr_iff section_evidence_ok_def
        intro: empty recorded split: if_splits option.splits)
qed

lemma source_evidence:
  assumes "build_source_context env data capture es n = Inr v"
  shows "section_evidence_ok v"
proof -
  obtain r m where sel: "select_source_text_units data es = (r, m)" by fastforce
  have left: "\<forall>c \<in> set (missing_source_candidates m). ca_record_type c = TextUnit \<and> not_token_limited c \<and> \<not> ca_selected c"
    by (auto simp: missing_source_candidates_def candidate_new_def not_token_limited_def)
  have recorded: "evidence_ok (build_record_section_explainability
        \<lparr>sp_kind = Sources, sp_name = None, sp_token_budget = n, sp_selected_reason = SourceReference\<rparr>
        (fitted\<lparr>ft_tokens_used := k\<rparr>) (map fst r) (missing_source_candidates m) text_unit_candidate)"
    if "fit_delimited_rows env (context_table_new [''id'', ''text''] []) (map (\<lambda>(u, _, _). [tu_short_id u, tu_text u]) r)
        ''Sources'' n ''build Local Sources context'' = Inr fitted" for fitted k
    by (rule record_section_ok [where t = TextUnit])
      (use fit_rows_counts [OF that] left in \<open>auto simp: text_unit_candidate_def candidate_new_def\<close>)
  have "evidence_ok ((empty_section_explainability Sources None n)\<lparr>se_candidates := missing_source_candidates m\<rparr>)"
    by (rule left_only_ok [of _ TextUnit]) (use left in auto)
  then show ?thesis using assms
    by (auto simp: build_source_context_def sel Let_def and_then_Inr_iff section_evidence_ok_def captured_def
        missing_source_section_def intro: recorded split: if_splits)
qed

subsection \<open>Evidence along the expansion\<close>

lemma add_relationship_evidence:
  "add_relationship_section env capture n v a = Inr b \<Longrightarrow> section_evidence_ok v \<Longrightarrow>
   list_all evidence_ok (xa_explainability a) \<Longrightarrow> list_all evidence_ok (xa_explainability b)"
  by (auto simp: add_relationship_section_def and_then_Inr_iff section_evidence_ok_def evidence_ok_empty
      split: option.splits)

lemma add_covariate_evidence:
  "add_covariate_section env capture n name v a = Inr b \<Longrightarrow> section_evidence_ok v \<Longrightarrow>
   list_all evidence_ok (xa_explainability a) \<Longrightarrow> list_all evidence_ok (xa_explainability b)"
  by (auto simp: add_covariate_section_def and_then_Inr_iff section_evidence_ok_def evidence_ok_empty
      split: option.splits)

lemma add_covariates_evidence:
  "add_covariate_sections env data capture ps n groups a = Inr b \<Longrightarrow>
   list_all evidence_ok (xa_explainability a) \<Longrightarrow> list_all evidence_ok (xa_explainability b)"
proof (induction groups arbitrary: a)
  case (Cons g groups)
  then obtain v c where "build_covariate_context env data capture (fst g) (snd g) ps n = Inr v"
    "add_covariate_section env capture n (fst g) v a = Inr c" "add_covariate_sections env data capture ps n groups c = Inr b"
    by (cases g) (auto simp: and_then_Inr_iff)
  then show ?case using Cons.IH Cons.prems(2) add_covariate_evidence covariate_evidence by metis
qed simp

lemma attempt_evidence:
  assumes "build_local_expansion_attempt env data capture es rs cs n entity_tokens learned = Inr (a, l)"
  shows "list_all evidence_ok (xa_explainability a)"
proof -
  let ?start = "\<lparr>xa_text = [], xa_tables = [], xa_tokens_used = entity_tokens, xa_explainability = []\<rparr>"
  obtain v l' b where "build_relationship_context env data capture es rs n learned = Inr (v, l')"
    "add_relationship_section env capture n v ?start = Inr b"
    "add_covariate_sections env data capture cs n (qi_covariate_groups (ld_index data)) b = Inr a"
    using assms by (auto simp: build_local_expansion_attempt_def and_then_Inr_iff)
  then show ?thesis
    using add_covariates_evidence add_relationship_evidence relationship_evidence by fastforce
qed

lemma expand_loop_evidence:
  "expand_loop env data capture n entity_tokens es fs rs cs learned a = Inr (b, rs', cs') \<Longrightarrow>
   list_all evidence_ok (xa_explainability a) \<Longrightarrow> list_all evidence_ok (xa_explainability b)"
proof (induction fs arbitrary: es rs cs learned a)
  case (Cons f fs)
  then obtain c l es' rs'' cs'' where c: "build_local_expansion_attempt env data capture es' rs'' cs'' n entity_tokens learned = Inr (c, l)"
    and rest: "(if n < xa_tokens_used c then
             Inr (if capture then a\<lparr>xa_explainability :=
                    rollback_section_explainability (xa_explainability c) (xa_explainability a)\<rparr> else a, rs'', cs'')
           else expand_loop env data capture n entity_tokens es' fs rs'' cs'' l c) = Inr (b, rs', cs')"
    by (auto simp: Let_def and_then_Inr_iff)
  have "list_all evidence_ok (xa_explainability c)" by (rule attempt_evidence [OF c])
  then show ?case using rest Cons.IH Cons.prems(2) rollback_sections_ok by (auto split: if_splits)
qed simp

subsection \<open>Sections without candidates\<close>

text \<open>The entities: all those selected are counted, the identifiers are those of the rows, which are as many
  as the budget holds, and the tokens are those of the rendered section.\<close>

definition entity_header :: string where
  "entity_header = section_title ''Entities''
     @ delimited_record [''id'', ''entity'', ''description'', ''number of relationships'']"

definition entities_evidence ::
  "('f, 'd, 'v) local_env \<Rightarrow> query_entity list \<Rightarrow> 'f section_explainability \<Rightarrow> bool" where
  "entities_evidence env es s \<longleftrightarrow>
     (let n = se_selected_count s; tokens = rows_tokens env (text_tokens env entity_header)
      in se_name s = None \<and> se_candidates s = [] \<and> se_candidate_count s = length es \<and> n \<le> length es
       \<and> se_selected_record_ids s = map en_id (take n es)
       \<and> se_truncated s = (n < length es)
       \<and> (0 < n \<longrightarrow> tokens (map local_entity_row (take n es)) \<le> se_token_budget s)
       \<and> (n < length es \<longrightarrow> se_token_budget s < tokens (map local_entity_row (take (Suc n) es)))
       \<and> lo_count env (entity_header @ concat (map (delimited_record \<circ> local_entity_row) (take n es)))
           = Inr (se_tokens_used s))"

text \<open>The conversation: the user turns kept for consideration are counted, as many are selected as fit, and no
  identifiers are.\<close>

definition history_evidence ::
  "('f, 'd, 'v) local_env \<Rightarrow> conversation_history \<Rightarrow> 'f section_explainability \<Rightarrow> bool" where
  "history_evidence env history s \<longleftrightarrow>
     (let n = se_selected_count s; turns = take_turns (lo_history_max_turns env) (user_turns history);
          fit = turns_fit (lo_csv env) (lo_count env) (lo_max_context_tokens env)
      in se_name s = None \<and> se_candidates s = [] \<and> se_selected_record_ids s = []
       \<and> se_token_budget s = lo_max_context_tokens env
       \<and> se_candidate_count s = length turns \<and> n \<le> length turns
       \<and> se_truncated s = (n < length turns)
       \<and> (\<forall>j. 0 < j \<and> j \<le> n \<longrightarrow> fit (take j turns))
       \<and> (n < length turns \<longrightarrow> \<not> fit (take (Suc n) turns)))"

definition section_ok ::
  "('f, 'd, 'v) local_env \<Rightarrow> query_entity list \<Rightarrow> conversation_history option \<Rightarrow> 'f section_explainability \<Rightarrow> bool" where
  "section_ok env es history s \<longleftrightarrow>
     (case se_kind s of
        Entities \<Rightarrow> entities_evidence env es s
      | ConversationHistory \<Rightarrow> (case history of None \<Rightarrow> False | Some h \<Rightarrow> history_evidence env h s)
      | _ \<Rightarrow> evidence_ok s)"

lemma section_ok_candidates:
  "evidence_ok s \<Longrightarrow> section_ok env es history s"
  "section_ok env es history s \<Longrightarrow> evidence_type (se_kind s) \<noteq> None \<Longrightarrow> evidence_ok s"
  by (cases "se_kind s"; simp add: section_ok_def evidence_ok_def)+

lemma entity_evidence:
  assumes "build_entity_section env capture es n = Inr e"
  shows "case sc_explainability e of
      None \<Rightarrow> \<not> capture
    | Some s \<Rightarrow> capture \<and> se_kind s = Entities \<and> entities_evidence env es s"
proof -
  let ?columns = "[''id'', ''entity'', ''description'', ''number of relationships'']"
  obtain fitted rendered tokens where f: "fit_delimited_rows env (context_table_new ?columns [])
       (map local_entity_row es) ''Entities'' n ''build Local Entities context'' = Inr fitted"
    and r: "render_delimited_section ''Entities'' (lo_method env) ''render Local Entities context'' (ft_table fitted) = Inr rendered"
    and t: "local_count env rendered ''count Local Entities context'' = Inr tokens"
    and e: "sc_explainability e = (if capture then Some
              \<lparr>se_kind = Entities, se_name = None, se_token_budget = n, se_tokens_used = tokens,
               se_candidate_count = ft_candidate_count fitted, se_selected_count = ft_selected_count fitted,
               se_selected_record_ids = map en_id (take (ft_selected_count fitted) es),
               se_truncated = ft_selected_count fitted < ft_candidate_count fitted, se_candidates = []\<rparr>
              else None)"
    using assms by (auto simp: build_entity_section_def and_then_Inr_iff)
  have "rendered = entity_header @ concat (map (delimited_record \<circ> local_entity_row) (take (ft_selected_count fitted) es))"
    using r unfolding fit_rows_counts(3) [OF f]
    by (auto simp: render_delimited_section_def render_delimited_def and_then_Inr_iff delimited_fold entity_header_def
        context_table_new_def take_map)
  moreover have "lo_count env rendered = Inr tokens" using t by (simp add: local_count_def)
  ultimately show ?thesis
    using fit_rows_counts(1,2) [OF f] fit_rows_longest [OF f, folded entity_header_def]
    by (auto simp: e entities_evidence_def Let_def take_map)
qed

lemma conversation_evidence:
  assumes "build_conversation_history env capture h (lo_max_context_tokens env) = Inr (Some x)"
    and "sc_explainability x = Some s"
  shows "se_kind s = ConversationHistory \<and> history_evidence env h s"
proof -
  let ?turns = "take_turns (lo_history_max_turns env) (user_turns h)"
  obtain built tokens where built: "build_user_context (lo_csv env) (lo_count env) (lo_history_max_turns env)
        (lo_max_context_tokens env) h = Inr built" and some: "trim (cc_text built) \<noteq> []"
    and s: "s = \<lparr>se_kind = ConversationHistory, se_name = None, se_token_budget = lo_max_context_tokens env,
                   se_tokens_used = tokens, se_candidate_count = length ?turns,
                   se_selected_count = context_table_len (cc_table built), se_selected_record_ids = [],
                   se_truncated = context_table_len (cc_table built) < length ?turns, se_candidates = []\<rparr>"
    using assms by (auto simp: build_conversation_history_def Let_def and_then_Inr_iff captured_def split: if_splits)
  have "user_turns h \<noteq> []"
  proof
    assume "user_turns h = []"
    then have "cc_text built = []" using conversation_keeps_fitting_turns [OF built] by simp
    moreover have "trim [] = []" by code_simp
    ultimately show False using some by simp
  qed
  then obtain k where k: "cc_table built = turns_table (map turn_row (take k ?turns))"
    "\<forall>j. 0 < j \<and> j \<le> length (take k ?turns) \<longrightarrow>
       turns_fit (lo_csv env) (lo_count env) (lo_max_context_tokens env) (take j (take k ?turns))"
    "k < length ?turns \<longrightarrow> \<not> turns_fit (lo_csv env) (lo_count env) (lo_max_context_tokens env) (take (Suc k) ?turns)"
    using conversation_keeps_fitting_turns [OF built] by (auto simp: Let_def)
  have "context_table_len (cc_table built) = min k (length ?turns)"
    by (simp add: k(1) context_table_len_def turns_table_def context_table_new_def min.commute)
  then show ?thesis using k(2,3) by (auto simp: s history_evidence_def Let_def min_def split: if_splits)
qed

lemma local_evidence:
  assumes "build_local_context env data capture es n = Inr s"
  shows "\<exists>entity expansion. ls_explainability s = entity @ expansion \<and> list_all evidence_ok expansion
     \<and> length entity = (if capture \<and> es \<noteq> [] then 1 else 0)
     \<and> (\<forall>c \<in> set entity. se_kind c = Entities \<and> entities_evidence env es c)"
proof (cases "es = []")
  case True
  then show ?thesis using assms by (auto simp: build_local_context_def)
next
  case False
  obtain e a k j where e: "build_entity_section env capture es n = Inr e"
    and g: "expand_local_graph env data capture es n (sc_tokens_used e) = Inr (a, k, j)"
    and s: "ls_explainability s = (case sc_explainability e of None \<Rightarrow> [] | Some c \<Rightarrow> [c]) @ xa_explainability a"
    using assms False by (auto simp: build_local_context_def and_then_Inr_iff)
  obtain rs cs where "expand_loop env data capture n (sc_tokens_used e) [] es {} [] Map.empty
        \<lparr>xa_text = [], xa_tables = [], xa_tokens_used = sc_tokens_used e, xa_explainability = []\<rparr> = Inr (a, rs, cs)"
    using g by (auto simp: expand_local_graph_def and_then_Inr_iff)
  from expand_loop_evidence [OF this] have "list_all evidence_ok (xa_explainability a)" by simp
  then show ?thesis
    using entity_evidence [OF e] False
    by (intro exI [of _ "case sc_explainability e of None \<Rightarrow> [] | Some c \<Rightarrow> [c]"] exI [of _ "xa_explainability a"])
      (auto simp: s split: option.splits)
qed

definition captured_sections :: "'f local_section option \<Rightarrow> 'f section_explainability list" where
  "captured_sections v =
     (case v of None \<Rightarrow> [] | Some s \<Rightarrow> (case sc_explainability s of None \<Rightarrow> [] | Some c \<Rightarrow> [c]))"

lemma captured_sections_ok: "section_evidence_ok v \<Longrightarrow> list_all evidence_ok (captured_sections v)"
  by (auto simp: captured_sections_def section_evidence_ok_def split: option.splits)

lemma add_section_captured:
  "as_explainability (add_section keep name v a) = as_explainability a @ captured_sections v"
  by (auto simp: add_section_def captured_sections_def Let_def split: option.splits)

lemma sections_evidence:
  assumes "build_context_sections env data capture es h = Inr a"
  shows "list_all (section_ok env es h) (as_explainability a)
     \<and> length (filter (\<lambda>s. se_kind s = Entities) (as_explainability a)) = (if capture \<and> es \<noteq> [] then 1 else 0)"
proof -
  obtain talk where
    talk: "(case h of None \<Rightarrow> Inr None | Some h \<Rightarrow> build_conversation_history env capture h (lo_max_context_tokens env)) = Inr talk"
    using assms unfolding build_context_sections_def Let_def by (auto simp only: and_then_Inr_iff)
  let ?remaining = "case talk of None \<Rightarrow> lo_max_context_tokens env | Some s \<Rightarrow> lo_max_context_tokens env - sc_tokens_used s"
  let ?k = "lo_proportion env ?remaining (lo_community_prop env)"
  let ?j = "lo_proportion env ?remaining (lo_rest_prop env (lo_community_prop env) (lo_text_unit_prop env))"
  let ?i = "lo_proportion env ?remaining (lo_text_unit_prop env)"
  obtain community where community: "build_community_context env data capture es ?k = Inr community"
    using assms talk by (auto simp: build_context_sections_def and_then_Inr_iff Let_def)
  obtain sections where sections: "build_local_context env data capture es ?j = Inr sections"
    using assms talk community by (auto simp: build_context_sections_def and_then_Inr_iff Let_def)
  obtain source where source: "build_source_context env data capture es ?i = Inr source"
    using assms talk community sections by (auto simp: build_context_sections_def and_then_Inr_iff Let_def)
  have a: "as_explainability a = captured_sections talk @ captured_sections community
      @ ls_explainability sections @ captured_sections source"
    using assms talk community sections source
    by (cases "trim (ls_text sections) = []")
      (auto simp: build_context_sections_def Let_def add_section_captured)
  have "\<forall>c \<in> set (captured_sections talk). se_kind c = ConversationHistory
      \<and> (\<exists>turns. h = Some turns \<and> history_evidence env turns c)"
    using talk conversation_evidence [of env capture] by (auto simp: captured_sections_def split: option.splits)
  moreover obtain entity expansion where local: "ls_explainability sections = entity @ expansion"
    "list_all evidence_ok expansion" "length entity = (if capture \<and> es \<noteq> [] then 1 else 0)"
    "\<forall>c \<in> set entity. se_kind c = Entities \<and> entities_evidence env es c"
    using local_evidence [OF sections] by blast
  moreover have "list_all evidence_ok (captured_sections community)" "list_all evidence_ok (captured_sections source)"
    using community_evidence [OF community] source_evidence [OF source] by (simp_all add: captured_sections_ok)
  moreover have typed: "se_kind s \<noteq> Entities" if "evidence_ok s" for s :: "'a section_explainability"
    using that by (auto simp: evidence_ok_def)
  ultimately have parts: "list_all (section_ok env es h) (captured_sections talk)" "list_all (section_ok env es h) entity"
      "list_all (section_ok env es h) expansion" "list_all (section_ok env es h) (captured_sections community)"
      "list_all (section_ok env es h) (captured_sections source)"
      "filter (\<lambda>s. se_kind s = Entities) entity = entity"
      "\<forall>xs \<in> {captured_sections talk, expansion, captured_sections community, captured_sections source}.
         filter (\<lambda>s. se_kind s = Entities) xs = []"
    by (auto simp: list_all_iff section_ok_candidates(1) filter_id_conv filter_empty_conv)
      (auto simp: section_ok_def)
  then show ?thesis using local(3) by (simp add: a local(1))
qed

text \<open>C25: The evidence of a Local Search. A section of reports, relationships, covariates or sources has
  only candidates of its type; its selected identifiers and counts are those of its candidates, a
  candidate left out by rank or missing is neither selected nor counted, and it is truncated exactly
  when fewer are selected than counted, also after a rollback. The Entities section, captured once when
  there are entities, counts all the entities selected for the query, has the identifiers of the
  longest prefix of them whose rows fit its budget, is truncated exactly when that leaves one out, and
  reports the tokens of the rendered section. The conversation section counts the user turns under
  consideration, selects the longest prefix that fits, without identifiers, and is truncated exactly
  when a turn is left out. Every selection event built from the sections passes the contract check.\<close>

theorem local_evidence_consistent:
  assumes "build_with_entity_filters env data capture query history include_names exclude_names = Inr b"
  shows "\<exists>es usage.
       map_entities env data (case history of None \<Rightarrow> query | Some h \<Rightarrow> mapping_query query (lo_history_max_turns env) h)
         include_names exclude_names = Inr (es, usage)
     \<and> list_all (section_ok env es history) (lb_explainability b)
     \<and> length (filter (\<lambda>s. se_kind s = Entities) (lb_explainability b)) = (if capture \<and> es \<noteq> [] then 1 else 0)
     \<and> (\<forall>kind t. evidence_type kind = Some t \<longrightarrow>
          is_ok (candidate_selection_try_new t (section_candidates kind (lb_explainability b))))"
proof -
  obtain es usage a where
    es: "map_entities env data (case history of None \<Rightarrow> query | Some h \<Rightarrow> mapping_query query (lo_history_max_turns env) h)
         include_names exclude_names = Inr (es, usage)"
    and a: "build_context_sections env data capture es history = Inr a" "lb_explainability b = as_explainability a"
    using assms by (auto simp: build_with_entity_filters_def Let_def and_then_Inr_iff)
  note evidence = sections_evidence [OF a(1), folded a(2)]
  have "is_ok (candidate_selection_try_new t (section_candidates kind (lb_explainability b)))"
    if "evidence_type kind = Some t" for kind t
  proof -
    have "evidence_ok s" if "s \<in> set (lb_explainability b)" "se_kind s = kind" for s
      using evidence that \<open>evidence_type kind = Some t\<close> section_ok_candidates(2) [of env es history s]
      by (simp add: list_all_iff)
    then have "\<forall>c \<in> set (section_candidates kind (lb_explainability b)). ca_record_type c = t"
      using that by (auto simp: section_candidates_def evidence_ok_def candidates_ok_def)
    then show ?thesis by (simp add: candidate_selection_try_new_def validate_candidate_types_Inr [THEN iffD2])
  qed
  with es evidence show ?thesis by blast
qed

theorem local_evidence_consistent_witness:
  "\<exists>b es usage. build_with_entity_filters sample_local sample_local_data True '''' None [] [] = Inr b
     \<and> map_entities sample_local sample_local_data '''' [] [] = Inr (es, usage)
     \<and> list_all (section_ok sample_local es None) (lb_explainability b)"
proof -
  obtain b where b: "build_with_entity_filters sample_local sample_local_data True '''' None [] [] = Inr b"
    using sample_built [of True] by (auto simp: is_ok_iff)
  from local_evidence_consistent [OF b] b show ?thesis by (simp only: option.case) blast
qed

lemma sample_counts: "counts_bounded sample_local"
  by (simp add: counts_bounded_def sample_local_def usize_max_def min_def)

theorem capture_does_not_interfere_witness:
  "\<exists>b c. build_with_entity_filters sample_local sample_local_data True '''' None [] [] = Inr b
     \<and> build_with_entity_filters sample_local sample_local_data False '''' None [] [] = Inr c
     \<and> lb_context b = lb_context c"
proof -
  obtain b c where b: "build_with_entity_filters sample_local sample_local_data True '''' None [] [] = Inr b"
    and c: "build_with_entity_filters sample_local sample_local_data False '''' None [] [] = Inr c"
    using sample_built by (meson is_ok_iff)
  with capture_does_not_interfere [OF sample_counts, of sample_local_data "''''" None "[]" "[]"]
  show ?thesis by simp
qed

end
