(* ===== verification/Local_Context_Bounds.thy ===== *)
theory Local_Context_Bounds
  imports Local_Context_Total
begin

text \<open>
  What the Local Search context contains: the graph of the longest prefix of the entities that fits its
  budget, and the text units the entities refer to, each once and in the order of its first reference.
\<close>

subsection \<open>The longest prefix of entities that fits\<close>

definition relationships_at :: "'f local_data \<Rightarrow> query_entity list \<Rightarrow> usize set" where
  "relationships_at data es =
     \<Union> (set (map (\<lambda>e. set (case qi_relationships_by_entity (ld_index data) (en_title e) of None \<Rightarrow> [] | Some l \<Rightarrow> l)) es))"

definition covariates_at :: "'f local_data \<Rightarrow> query_entity list \<Rightarrow> usize list" where
  "covariates_at data es =
     concat (map (\<lambda>e. case qi_covariates_by_subject (ld_index data) (en_title e) of None \<Rightarrow> [] | Some l \<Rightarrow> l) es)"

lemma at_snoc:
  "relationships_at data (es @ [e]) = relationships_at data es \<union>
     set (case qi_relationships_by_entity (ld_index data) (en_title e) of None \<Rightarrow> [] | Some l \<Rightarrow> l)"
  "covariates_at data (es @ [e]) = covariates_at data es @
     (case qi_covariates_by_subject (ld_index data) (en_title e) of None \<Rightarrow> [] | Some l \<Rightarrow> l)"
  by (auto simp: relationships_at_def covariates_at_def)

text \<open>The graph of the first \<open>k\<close> entities, with the link counts learned on the way.\<close>

fun graph_of_prefix ::
  "('f, 'd, 'v) local_env \<Rightarrow> 'f local_data \<Rightarrow> bool \<Rightarrow> usize \<Rightarrow> usize \<Rightarrow> query_entity list \<Rightarrow> nat
   \<Rightarrow> query_error + 'f expansion_attempt \<times> (string \<rightharpoonup> usize)" where
  "graph_of_prefix env data capture n entity_tokens es 0 =
     Inr (\<lparr>xa_text = [], xa_tables = [], xa_tokens_used = entity_tokens, xa_explainability = []\<rparr>, Map.empty)"
| "graph_of_prefix env data capture n entity_tokens es (Suc k) =
     and_then (graph_of_prefix env data capture n entity_tokens es k) (\<lambda>(_, learned).
       build_local_expansion_attempt env data capture (take (Suc k) es) (relationships_at data (take (Suc k) es))
         (covariates_at data (take (Suc k) es)) n entity_tokens learned)"

definition prefix_fits ::
  "('f, 'd, 'v) local_env \<Rightarrow> 'f local_data \<Rightarrow> bool \<Rightarrow> usize \<Rightarrow> usize \<Rightarrow> query_entity list \<Rightarrow> nat \<Rightarrow> bool" where
  "prefix_fits env data capture n entity_tokens es k \<longleftrightarrow>
     (\<exists>a learned. graph_of_prefix env data capture n entity_tokens es k = Inr (a, learned) \<and> xa_tokens_used a \<le> n)"

lemma expand_loop_prefix:
  assumes "expand_loop env data capture n entity_tokens current rest (relationships_at data current)
      (covariates_at data current) learned a = Inr (b, rs, cs)"
    and "graph_of_prefix env data capture n entity_tokens (current @ rest) (length current) = Inr (a, learned)"
  shows "\<exists>k c l. length current \<le> k \<and> k \<le> length (current @ rest)
    \<and> graph_of_prefix env data capture n entity_tokens (current @ rest) k = Inr (c, l)
    \<and> xa_text b = xa_text c \<and> xa_tables b = xa_tables c \<and> xa_tokens_used b = xa_tokens_used c
    \<and> (\<forall>j. length current < j \<and> j \<le> k \<longrightarrow> prefix_fits env data capture n entity_tokens (current @ rest) j)
    \<and> (k < length (current @ rest) \<longrightarrow> \<not> prefix_fits env data capture n entity_tokens (current @ rest) (Suc k))"
  using assms
proof (induction rest arbitrary: current learned a)
  case Nil
  then show ?case by (intro exI [of _ "length current"] exI [of _ a] exI [of _ learned]) auto
next
  case (Cons e es)
  let ?es = "current @ e # es" and ?now = "current @ [e]"
  obtain c l where attempt: "build_local_expansion_attempt env data capture ?now (relationships_at data ?now)
        (covariates_at data ?now) n entity_tokens learned = Inr (c, l)"
    and rest: "(if n < xa_tokens_used c then
             Inr (if capture then a\<lparr>xa_explainability :=
                    rollback_section_explainability (xa_explainability c) (xa_explainability a)\<rparr> else a,
                  relationships_at data ?now, covariates_at data ?now)
           else expand_loop env data capture n entity_tokens ?now es (relationships_at data ?now)
             (covariates_at data ?now) l c) = Inr (b, rs, cs)"
    using Cons.prems(1) unfolding expand_loop.simps Let_def at_snoc [symmetric] by (auto simp: and_then_Inr_iff)
  have next_prefix: "graph_of_prefix env data capture n entity_tokens ?es (Suc (length current)) = Inr (c, l)"
    using Cons.prems(2) attempt by simp
  show ?case
  proof (cases "n < xa_tokens_used c")
    case True
    have "\<not> prefix_fits env data capture n entity_tokens ?es (Suc (length current))"
      unfolding prefix_fits_def next_prefix using True by auto
    moreover have "xa_text b = xa_text a" "xa_tables b = xa_tables a" "xa_tokens_used b = xa_tokens_used a"
      using rest True by (auto split: if_splits)
    ultimately show ?thesis using Cons.prems(2)
      by (intro exI [of _ "length current"] exI [of _ a] exI [of _ learned]) auto
  next
    case False
    have fits: "prefix_fits env data capture n entity_tokens ?es (Suc (length current))"
      unfolding prefix_fits_def next_prefix using False by auto
    have loop: "expand_loop env data capture n entity_tokens ?now es (relationships_at data ?now)
        (covariates_at data ?now) l c = Inr (b, rs, cs)" using rest False by simp
    obtain k d m where k: "length ?now \<le> k" "k \<le> length (?now @ es)"
      "graph_of_prefix env data capture n entity_tokens (?now @ es) k = Inr (d, m)"
      "xa_text b = xa_text d" "xa_tables b = xa_tables d" "xa_tokens_used b = xa_tokens_used d"
      "\<forall>j. length ?now < j \<and> j \<le> k \<longrightarrow> prefix_fits env data capture n entity_tokens (?now @ es) j"
      "k < length (?now @ es) \<longrightarrow> \<not> prefix_fits env data capture n entity_tokens (?now @ es) (Suc k)"
      using Cons.IH [OF loop] next_prefix by auto
    have "prefix_fits env data capture n entity_tokens ?es j" if "length current < j" "j \<le> k" for j
      using k(7) fits that by (cases "j = Suc (length current)") auto
    then show ?thesis using k
      by (intro exI [of _ k] exI [of _ d] exI [of _ m]) auto
  qed
qed

text \<open>C27: The local graph of a Local Search: the context has the relationships and covariates of the longest prefix of
  the entities all of whose prefixes fit the token budget, together with the entity table; when not even
  the first entity fits, only the entity table is left.\<close>

theorem local_graph_longest_prefix:
  assumes "build_local_context env data capture es n = Inr s" and "es \<noteq> []"
  shows "\<exists>entity k a learned. build_entity_section env capture es n = Inr entity
    \<and> k \<le> length es
    \<and> graph_of_prefix env data capture n (sc_tokens_used entity) es k = Inr (a, learned)
    \<and> ls_tables s = om_insert ''entities'' (sc_table entity) (xa_tables a)
    \<and> ls_text s = join_with [CHR 0x0A, CHR 0x0A] (filter (\<lambda>t. trim t \<noteq> []) (sc_text entity # xa_text a))
    \<and> ls_tokens_used s = xa_tokens_used a
    \<and> (ls_tokens_used s \<le> n \<or> k = 0)
    \<and> (\<forall>j. 0 < j \<and> j \<le> k \<longrightarrow> prefix_fits env data capture n (sc_tokens_used entity) es j)
    \<and> (k < length es \<longrightarrow> \<not> prefix_fits env data capture n (sc_tokens_used entity) es (Suc k))"
proof -
  obtain entity b rs cs where entity: "build_entity_section env capture es n = Inr entity"
    and loop: "expand_loop env data capture n (sc_tokens_used entity) [] es {} [] Map.empty
        \<lparr>xa_text = [], xa_tables = [], xa_tokens_used = sc_tokens_used entity, xa_explainability = []\<rparr> = Inr (b, rs, cs)"
    and s: "ls_tables s = om_insert ''entities'' (sc_table entity) (xa_tables b)"
      "ls_text s = join_with [CHR 0x0A, CHR 0x0A] (filter (\<lambda>t. trim t \<noteq> []) (sc_text entity # xa_text b))"
      "ls_tokens_used s = xa_tokens_used b"
    using assms by (auto simp: build_local_context_def expand_local_graph_def and_then_Inr_iff)
  have "expand_loop env data capture n (sc_tokens_used entity) [] es (relationships_at data []) (covariates_at data []) Map.empty
        \<lparr>xa_text = [], xa_tables = [], xa_tokens_used = sc_tokens_used entity, xa_explainability = []\<rparr> = Inr (b, rs, cs)"
    using loop by (simp add: relationships_at_def covariates_at_def)
  from expand_loop_prefix [OF this] obtain k a learned where k: "k \<le> length es"
    "graph_of_prefix env data capture n (sc_tokens_used entity) es k = Inr (a, learned)"
    "xa_text b = xa_text a" "xa_tables b = xa_tables a" "xa_tokens_used b = xa_tokens_used a"
    "\<forall>j. 0 < j \<and> j \<le> k \<longrightarrow> prefix_fits env data capture n (sc_tokens_used entity) es j"
    "k < length es \<longrightarrow> \<not> prefix_fits env data capture n (sc_tokens_used entity) es (Suc k)"
    by auto
  have "xa_tokens_used a \<le> n \<or> k = 0"
    using k(2,6) by (cases "k = 0") (auto simp: prefix_fits_def)
  then show ?thesis using entity s k by (intro exI [of _ entity] exI [of _ k] exI [of _ a] exI [of _ learned]) simp
qed

theorem local_graph_longest_prefix_witness:
  "\<exists>s. build_local_context sample_local sample_local_data False (ld_entities sample_local_data) 100 = Inr s
    \<and> (\<exists>k a learned. graph_of_prefix sample_local sample_local_data False 100
          (case build_entity_section sample_local False (ld_entities sample_local_data) 100 of Inl _ \<Rightarrow> 0 | Inr e \<Rightarrow> sc_tokens_used e)
          (ld_entities sample_local_data) k = Inr (a, learned)
        \<and> ls_tokens_used s = xa_tokens_used a)"
proof -
  obtain s where s: "build_local_context sample_local sample_local_data False (ld_entities sample_local_data) 100 = Inr s"
    using local_context_succeeds [OF sample_total, of sample_local_data False "ld_entities sample_local_data" 100]
    by (auto simp: succeeds_def)
  moreover have "ld_entities sample_local_data \<noteq> []" by (simp add: sample_local_data_def Let_def)
  from local_graph_longest_prefix [OF s this] obtain entity k a learned where
    "build_entity_section sample_local False (ld_entities sample_local_data) 100 = Inr entity"
    "graph_of_prefix sample_local sample_local_data False 100 (sc_tokens_used entity) (ld_entities sample_local_data) k = Inr (a, learned)"
    "ls_tokens_used s = xa_tokens_used a" by blast
  ultimately show ?thesis by auto
qed

subsection \<open>The sources\<close>

text \<open>The index is the one the data are loaded with.\<close>

definition indexed :: "'f local_data \<Rightarrow> bool" where
  "indexed data \<longleftrightarrow>
     (let new = query_index_new (ld_entities data) (ld_reports data) (ld_text_units data) (ld_relationships data) (ld_covariates data)
      in ld_index data = new
         \<or> (\<exists>name. ld_index data = query_index_single_group (ld_entities data) (ld_reports data) (ld_text_units data)
               (ld_relationships data) (ld_covariates data) name))"

definition text_unit_of :: "'f local_data \<Rightarrow> string \<Rightarrow> text_unit option" where
  "text_unit_of data i = find (\<lambda>u. tu_id u = i) (rev (ld_text_units data))"

definition relationships_of :: "'f local_data \<Rightarrow> query_entity \<Rightarrow> 'f query_relationship list" where
  "relationships_of data e = filter (\<lambda>r. rl_source r = en_title e \<or> rl_target r = en_title e) (ld_relationships data)"

text \<open>All references of the entities to text units, with the position of the entity.\<close>

definition references :: "query_entity list \<Rightarrow> (string \<times> usize \<times> query_entity) list" where
  "references es = concat (map (\<lambda>(order, e). map (\<lambda>i. (i, order, e)) (en_text_unit_ids e)) (enumerate_from 0 es))"

text \<open>The text unit of an identifier, ranked by its first reference.\<close>

definition source_of :: "'f local_data \<Rightarrow> query_entity list \<Rightarrow> string \<Rightarrow> (text_unit \<times> usize \<times> usize) option" where
  "source_of data es i =
     (case (text_unit_of data i, find (\<lambda>r. fst r = i) (references es)) of
        (Some u, Some (_, order, e)) \<Rightarrow> Some (u, order, count_relationships (relationships_of data e) u)
      | _ \<Rightarrow> None)"

lemma map_filter_snoc:
  "List.map_filter f (xs @ [x]) = List.map_filter f xs @ (case f x of None \<Rightarrow> [] | Some y \<Rightarrow> [y])"
  by (auto simp: List.map_filter_def)

lemma find_last_position:
  "Option.bind (map_option last (nonempty (positions_of P xs))) (nth_opt xs) = find P (rev xs)"
proof (induction xs rule: rev_induct)
  case (snoc x xs)
  have "nth_opt (xs @ [x]) (last (positions_of P xs)) = nth_opt xs (last (positions_of P xs))" if "positions_of P xs \<noteq> []"
    using last_in_set [OF that] by (auto simp: nth_opt_def nth_append set_positions_of)
  with snoc show ?case
    by (auto simp: positions_of_snoc nonempty_def nth_opt_def split: if_splits)
qed (simp add: nonempty_def)

lemma filter_positions:
  "List.map_filter (nth_opt xs) (case nonempty (positions_of P xs) of None \<Rightarrow> [] | Some l \<Rightarrow> l) = filter P xs"
proof -
  have "List.map_filter (nth_opt xs) (positions_of P xs) = filter P xs"
  proof (induction xs rule: rev_induct)
    case (snoc x xs)
    have "List.map_filter (nth_opt (xs @ [x])) (positions_of P xs) = List.map_filter (nth_opt xs) (positions_of P xs)"
      unfolding List.map_filter_def
      by (intro map_cong filter_cong) (auto simp: nth_opt_def nth_append set_positions_of)
    moreover have "nth_opt (xs @ [x]) (length xs) = Some x" by (simp add: nth_opt_def)
    ultimately show ?case using snoc by (auto simp: positions_of_snoc map_filter_snoc)
  qed (simp add: List.map_filter_def)
  then show ?thesis by (cases "positions_of P xs = []") (simp_all add: nonempty_def)
qed

lemma indexed_text_unit:
  "indexed data \<Longrightarrow>
   Option.bind (qi_text_unit_by_id (ld_index data) i) (nth_opt (ld_text_units data)) = text_unit_of data i"
  by (auto simp: indexed_def query_index_single_group_def query_index_new_def index_last_at find_last_position text_unit_of_def Let_def)

lemma indexed_relationships:
  assumes "indexed data"
  shows "List.map_filter (nth_opt (ld_relationships data))
      (case qi_relationships_by_entity (ld_index data) (en_title e) of None \<Rightarrow> [] | Some l \<Rightarrow> l) = relationships_of data e"
proof -
  have positions: "index_positions relationship_keys (ld_relationships data) (en_title e) =
      nonempty (positions_of (\<lambda>r. en_title e \<in> set (relationship_keys r)) (ld_relationships data))"
    by (rule index_positions_at) (simp add: relationship_keys_def)
  have ends: "(\<lambda>r. en_title e \<in> set (relationship_keys r)) = (\<lambda>r. rl_source r = en_title e \<or> rl_target r = en_title e)"
    by (auto simp: relationship_keys_def)
  have "qi_relationships_by_entity (ld_index data) = index_positions relationship_keys (ld_relationships data)"
    using assms by (auto simp: indexed_def query_index_single_group_def query_index_new_def Let_def)
  then show ?thesis by (simp only: positions [unfolded ends] filter_positions relationships_of_def)
qed

text \<open>The loops as one loop over all references.\<close>

definition reference_step ::
  "'f local_data \<Rightarrow> source_selection \<Rightarrow> string \<times> usize \<times> query_entity \<Rightarrow> source_selection" where
  "reference_step data st r = source_step data (fst (snd r)) (relationships_of data (snd (snd r))) st (fst r)"

lemma source_steps_references:
  assumes "indexed data"
  shows "foldl (source_entity_step data) st (enumerate_from 0 es) = foldl (reference_step data) st (references es)"
proof -
  have entity: "source_entity_step data st (order, e) = foldl (reference_step data) st (map (\<lambda>i. (i, order, e)) (en_text_unit_ids e))" for st order e
    by (simp add: source_entity_step_def indexed_relationships [OF assms] reference_step_def foldl_map)
  have "foldl (source_entity_step data) st xs =
      foldl (reference_step data) st (concat (map (\<lambda>(order, e). map (\<lambda>i. (i, order, e)) (en_text_unit_ids e)) xs))" for xs st
    by (induction xs arbitrary: st) (auto simp: entity)
  then show ?thesis by (simp add: references_def)
qed

definition sources_among :: "'f local_data \<Rightarrow> (string \<times> usize \<times> query_entity) list \<Rightarrow> string \<Rightarrow> (text_unit \<times> usize \<times> usize) option" where
  "sources_among data rs i =
     (case (text_unit_of data i, find (\<lambda>r. fst r = i) rs) of
        (Some u, Some (_, order, e)) \<Rightarrow> Some (u, order, count_relationships (relationships_of data e) u)
      | _ \<Rightarrow> None)"

definition first_ids :: "(string \<times> 'a) list \<Rightarrow> string list" where
  "first_ids rs = rev (remdups (rev (map fst rs)))"

lemma first_ids_snoc: "first_ids (rs @ [r]) = first_ids rs @ (if fst r \<in> fst ` set rs then [] else [fst r])"
  by (simp add: first_ids_def)

lemma set_first_ids: "set (first_ids rs) = fst ` set rs"
  by (simp add: first_ids_def)

lemma find_snoc: "find P (xs @ [x]) = (case find P xs of None \<Rightarrow> if P x then Some x else None | Some y \<Rightarrow> Some y)"
  by (induction xs) auto

lemma find_fst_None: "find (\<lambda>r. fst r = i) rs = None \<longleftrightarrow> i \<notin> fst ` set rs"
  by (force simp: find_None_iff)

lemma reference_steps:
  assumes "indexed data"
  shows "foldl (reference_step data) \<lparr>so_seen = {}, so_ranked = [], so_missing = []\<rparr> rs =
    \<lparr>so_seen = fst ` set rs, so_ranked = List.map_filter (sources_among data rs) (first_ids rs),
     so_missing = filter (\<lambda>i. text_unit_of data i = None) (first_ids rs)\<rparr>"
proof (induction rs rule: rev_induct)
  case (snoc r rs)
  have old: "List.map_filter (sources_among data (rs @ [r])) (first_ids rs) = List.map_filter (sources_among data rs) (first_ids rs)"
    unfolding List.map_filter_def
    by (intro map_cong filter_cong)
      (auto simp: sources_among_def find_snoc set_first_ids find_fst_None split: option.splits)
  show ?case
  proof (cases "fst r \<in> fst ` set rs")
    case True
    then show ?thesis unfolding foldl_append foldl.simps snoc.IH
      by (simp add: reference_step_def source_step_def first_ids_snoc old insert_absorb)
  next
    case False
    then have "find (\<lambda>x. fst x = fst r) rs = None" by (simp add: find_fst_None)
    then have here: "sources_among data (rs @ [r]) (fst r) =
        map_option (\<lambda>u. (u, fst (snd r), count_relationships (relationships_of data (snd (snd r))) u)) (text_unit_of data (fst r))"
      by (cases r) (simp add: sources_among_def find_snoc split: option.split)
    show ?thesis using False unfolding foldl_append foldl.simps snoc.IH
      by (simp add: reference_step_def source_step_def indexed_text_unit [OF assms] first_ids_snoc map_filter_snoc old here
          split: option.split)
  qed
qed (simp add: first_ids_def List.map_filter_def)

text \<open>The sources of a Local Search: with the index of the data, the selected text units are those the entities
  refer to, each once, ranked by the position of its first entity and then by the number of that entity's
  relationships it supports, most first, and otherwise in the order of reference; the references to text
  units that do not exist are reported as missing, each once.\<close>

theorem sources_first_references:
  assumes "indexed data"
  shows "let ids = rev (remdups (rev (concat (map en_text_unit_ids es)))) in
     select_source_text_units data es =
       (sort_by order_then_count (List.map_filter (source_of data es) ids), filter (\<lambda>i. text_unit_of data i = None) ids)"
proof -
  have ids: "first_ids (references es) = rev (remdups (rev (concat (map en_text_unit_ids es))))"
  proof -
    have "map fst (concat (map (\<lambda>(order, e). map (\<lambda>i. (i, order, e)) (en_text_unit_ids e)) (enumerate_from n es))) =
        concat (map en_text_unit_ids es)" for n
      by (induction es arbitrary: n) (simp_all add: o_def)
    then show ?thesis by (simp add: first_ids_def references_def)
  qed
  have "source_of data es = sources_among data (references es)"
    by (rule ext) (simp add: source_of_def sources_among_def)
  then show ?thesis
    by (simp add: Let_def select_source_text_units_def source_steps_references [OF assms] reference_steps [OF assms] ids)
qed

text \<open>The sample refers to two existing text units and a missing one.\<close>

theorem sources_first_references_witness:
  "snd (select_source_text_units sample_local_data (ld_entities sample_local_data)) = [''v'']"
proof -
  have "indexed sample_local_data" by (simp add: indexed_def sample_local_data_def Let_def)
  from sources_first_references [OF this, of "ld_entities sample_local_data"] show ?thesis
    by (simp add: Let_def) (simp add: sample_local_data_def sample_local_entity_def text_unit_of_def Let_def)
qed

end
