(* ===== verification/Query_Session.thy ===== *)
theory Query_Session
  imports Expl_Sink Expl_Events Conversation
begin

text \<open>
  The explainability session of one query (\<open>query/explainability.rs\<close>), the handles of the query
  methods (\<open>QueryInstrumentation\<close> of \<open>query/observability.rs\<close>), and the stable error categories.

  The state \<open>'s\<close> is everything the sinks share, the clock included: \<open>now\<close> and \<open>elapsed\<close> read it.
  Generated span identifiers are arguments. A \<open>Duration\<close> is its number of milliseconds. Tracing is left
  out, and with it what it is only told: the kind of a sidecar failure.
\<close>

subsection \<open>Error categories\<close>

datatype graphloom_error =
    QueryFailed query_error
  | InvalidRoot string string
  | ExplainabilityOutput string
  | Telemetry string
  | OtherError string \<comment> \<open>the variants of the indexing side\<close>

fun query_error_kind :: "query_error \<Rightarrow> string" where
  "query_error_kind (InvalidQueryConfig _ _ _) = ''invalid_query_config''"
| "query_error_kind (MissingQueryTable _ _ _) = ''missing_query_table''"
| "query_error_kind (InvalidQueryTable _ _ _) = ''invalid_query_table''"
| "query_error_kind (MissingVectorIndex _ _ _ _) = ''missing_vector_index''"
| "query_error_kind (InvalidVectorIndex _ _ _ _) = ''invalid_vector_index''"
| "query_error_kind (QueryPrompt _ _ _ _) = ''query_prompt''"
| "query_error_kind (QueryEmbedding _ _ _ _) = ''query_embedding''"
| "query_error_kind (QueryCompletion _ _ _ _) = ''query_completion''"
| "query_error_kind (QueryParse _ _ _) = ''query_parse''"
| "query_error_kind (QueryContext _ _ _) = ''query_context''"
| "query_error_kind (QueryRuntime _ _ _) = ''query_runtime''"
| "query_error_kind (QueryMethod _ _ _) = ''query_method''"

fun graphloom_error_kind :: "graphloom_error \<Rightarrow> string" where
  "graphloom_error_kind (QueryFailed error) = query_error_kind error"
| "graphloom_error_kind (InvalidRoot _ _) = ''invalid_query_config''"
| "graphloom_error_kind (ExplainabilityOutput _) = ''explainability_output''"
| "graphloom_error_kind (Telemetry _) = ''telemetry_output''"
| "graphloom_error_kind (OtherError _) = ''query_runtime''"

subsection \<open>The session\<close>

record ('s, 'f) explainability_options =
  xo_run_id :: run_id
  xo_content_mode :: content_mode
  xo_sink :: "('s, 'f expl_event) sink"

text \<open>What never changes, and what does: \<open>delivery_failure_count\<close> is an atomic counter, which wraps.\<close>

record ('s, 'f) query_session =
  qx_run_id :: run_id
  qx_content_mode :: content_mode
  qx_sink :: "('s, 'f expl_event) sink"
  qx_method :: query_method
  qx_root_span :: span_id
  qx_now :: "'s \<Rightarrow> datetime"
  qx_elapsed :: "'s \<Rightarrow> nat"

record 's session_state =
  xs_world :: 's
  xs_delivery_failures :: u64
  xs_terminal_started :: bool

definition session_new ::
  "('s \<Rightarrow> datetime) \<Rightarrow> ('s \<Rightarrow> nat) \<Rightarrow> span_id \<Rightarrow> ('s, 'f) explainability_options \<Rightarrow> search_method
   \<Rightarrow> ('s, 'f) query_session" where
  "session_new now elapsed root options method =
     \<lparr>qx_run_id = xo_run_id options, qx_content_mode = xo_content_mode options, qx_sink = xo_sink options,
      qx_method = query_method_from method, qx_root_span = root, qx_now = now, qx_elapsed = elapsed\<rparr>"

definition session_state_new :: "'s \<Rightarrow> 's session_state" where
  "session_state_new w = \<lparr>xs_world = w, xs_delivery_failures = 0, xs_terminal_started = False\<rparr>"

definition session_content :: "('s, 'f) query_session \<Rightarrow> string \<Rightarrow> string option" where
  "session_content q v = (if includes_content (qx_content_mode q) then Some v else None)"

definition mark_sidecar_failure :: "'s session_state \<Rightarrow> 's session_state" where
  "mark_sidecar_failure st = st\<lparr>xs_delivery_failures := xs_delivery_failures st + 1\<rparr>"

definition session_emit ::
  "('s, 'f) query_session \<Rightarrow> span_id \<Rightarrow> span_id option \<Rightarrow> 'f expl_event \<Rightarrow> 's session_state \<Rightarrow> 's session_state" where
  "session_emit q span parent event st =
     (let r = \<lparr>rec_run_id = qx_run_id q, rec_timestamp = qx_now q (xs_world st), rec_span_id = span,
               rec_parent_span_id = parent, rec_event = event\<rparr>
      in case sk_emit (qx_sink q) r (xs_world st) of
           (Inl _, w) \<Rightarrow> st\<lparr>xs_world := w, xs_delivery_failures := xs_delivery_failures st + 1\<rparr>
         | (Inr _, w) \<Rightarrow> st\<lparr>xs_world := w\<rparr>)"

definition session_emit_contract ::
  "('s, 'f) query_session \<Rightarrow> span_id \<Rightarrow> span_id option \<Rightarrow> contract_error + 'f expl_event
   \<Rightarrow> 's session_state \<Rightarrow> 's session_state" where
  "session_emit_contract q span parent event st =
     (case event of Inr e \<Rightarrow> session_emit q span parent e st | Inl _ \<Rightarrow> mark_sidecar_failure st)"

text \<open>\<open>u64::try_from\<close> of a count, and of \<open>as_millis\<close>.\<close>

definition try_u64 :: "nat \<Rightarrow> u64 option" where
  "try_u64 n = (if n < 2 ^ 64 then Some (of_nat n) else None)"

definition try_u32 :: "nat \<Rightarrow> u32 option" where
  "try_u32 n = (if n < 2 ^ 32 then Some (of_nat n) else None)"

definition or_mark :: "'a option \<Rightarrow> 's session_state \<Rightarrow> 'a option \<times> 's session_state" where
  "or_mark converted st = (converted, if converted = None then mark_sidecar_failure st else st)"

definition session_usize_to_u64 :: "usize \<Rightarrow> 's session_state \<Rightarrow> u64 option \<times> 's session_state" where
  "session_usize_to_u64 n = or_mark (try_u64 n)"

definition session_usize_to_u32 :: "usize \<Rightarrow> 's session_state \<Rightarrow> u32 option \<times> 's session_state" where
  "session_usize_to_u32 n = or_mark (try_u32 n)"

definition session_duration_millis :: "nat \<Rightarrow> 's session_state \<Rightarrow> u64 option \<times> 's session_state" where
  "session_duration_millis duration = or_mark (try_u64 duration)"

definition session_emit_start ::
  "('s, 'f) query_session \<Rightarrow> string \<Rightarrow> 's session_state \<Rightarrow> 's session_state" where
  "session_emit_start q query st =
     session_emit q (qx_root_span q) None
       (QueryStarted \<lparr>qs_method = qx_method q, qs_query = session_content q query\<rparr>)
       (session_emit q (qx_root_span q) None
         (RunStarted \<lparr>rs_kind = Query, rs_content_mode = qx_content_mode q\<rparr>) st)"

subsection \<open>The end of a run\<close>

definition delivery_failed_event :: "'f expl_event" where
  "delivery_failed_event =
     RunFailed \<lparr>rf_error_kind = ''explainability_delivery'',
       rf_message = ''One or more explainability records could not be delivered.''\<rparr>"

fun query_error_message :: "query_method \<Rightarrow> string" where
  "query_error_message Global = ''Global query execution failed.''"
| "query_error_message Basic = ''Basic query execution failed.''"
| "query_error_message Local = ''Local query execution failed.''"
| "query_error_message Drift = ''Local query execution failed.''"

definition begin_terminal :: "'s session_state \<Rightarrow> bool \<times> 's session_state" where
  "begin_terminal st = (\<not> xs_terminal_started st, st\<lparr>xs_terminal_started := True\<rparr>)"

definition session_finish_run :: "('s, 'f) query_session \<Rightarrow> 's session_state \<Rightarrow> 's session_state" where
  "session_finish_run q st =
     (case sk_finish_run (qx_sink q) (qx_run_id q) (xs_world st) of (_, w) \<Rightarrow> st\<lparr>xs_world := w\<rparr>)"

definition finish_success :: "('s, 'f) query_session \<Rightarrow> 's session_state \<Rightarrow> 's session_state" where
  "finish_success q st =
     (case begin_terminal st of
        (False, st) \<Rightarrow> st
      | (True, st) \<Rightarrow>
          (case session_duration_millis (qx_elapsed q (xs_world st)) st of (elapsed_ms, st) \<Rightarrow>
           let event = if xs_delivery_failures st = 0
                       then map_option (\<lambda>v. RunCompleted \<lparr>rc_elapsed_ms = v\<rparr>) elapsed_ms
                       else Some delivery_failed_event
           in session_finish_run q
                (case event of
                   Some event \<Rightarrow> session_emit q (qx_root_span q) None event st
                 | None \<Rightarrow> session_emit q (qx_root_span q) None delivery_failed_event st)))"

definition finish_failure :: "('s, 'f) query_session \<Rightarrow> string \<Rightarrow> string \<Rightarrow> 's session_state \<Rightarrow> 's session_state" where
  "finish_failure q error_kind message st =
     (case begin_terminal st of
        (False, st) \<Rightarrow> st
      | (True, st) \<Rightarrow>
          session_finish_run q (session_emit q (qx_root_span q) None
            (RunFailed \<lparr>rf_error_kind = error_kind, rf_message = message\<rparr>) st))"

definition finish_query_error :: "('s, 'f) query_session \<Rightarrow> query_error \<Rightarrow> 's session_state \<Rightarrow> 's session_state" where
  "finish_query_error q error = finish_failure q (query_error_kind error) (query_error_message (qx_method q))"

definition finish_graphloom_error ::
  "('s, 'f) query_session \<Rightarrow> graphloom_error \<Rightarrow> 's session_state \<Rightarrow> 's session_state" where
  "finish_graphloom_error q error =
     finish_failure q (graphloom_error_kind error) (query_error_message (qx_method q))"

definition finish_stream_ended :: "('s, 'f) query_session \<Rightarrow> 's session_state \<Rightarrow> 's session_state" where
  "finish_stream_ended q = finish_failure q ''query_completion'' (query_error_message (qx_method q))"

subsection \<open>Method handles\<close>

record local_spans =
  lsp_root :: span_id
  lsp_mapping :: span_id
  lsp_embedding :: span_id
  lsp_retrieval :: span_id
  lsp_graph_expansion :: span_id
  lsp_context :: span_id
  lsp_llm :: span_id

record global_spans =
  gsp_selection :: span_id
  gsp_context :: span_id
  gsp_map :: span_id
  gsp_reduce :: span_id

record basic_spans =
  bsp_embedding :: span_id
  bsp_retrieval :: span_id
  bsp_context :: span_id
  bsp_llm :: span_id

datatype ('s, 'f) method_explainability =
    BasicHandle "('s, 'f) query_session" basic_spans
  | LocalHandle "('s, 'f) query_session" local_spans
  | GlobalHandle "('s, 'f) query_session" global_spans

fun handle_session :: "('s, 'f) method_explainability \<Rightarrow> ('s, 'f) query_session" where
  "handle_session (BasicHandle q _) = q"
| "handle_session (LocalHandle q _) = q"
| "handle_session (GlobalHandle q _) = q"

text \<open>The identifiers generated for one request.\<close>

record request_spans =
  rsp_root :: span_id
  rsp_basic :: basic_spans
  rsp_local :: local_spans
  rsp_global :: global_spans

text \<open>The request (\<open>QueryOptions\<close> of \<open>query/mod.rs\<close>); a callback is a value of type \<open>'cb\<close>.\<close>

record ('s, 'f, 'cb) query_options =
  qo_project_root :: string
  qo_query :: string
  qo_method :: search_method
  qo_data_dir :: "string option"
  qo_community_level :: i64
  qo_dynamic_community_selection :: bool
  qo_response_type :: string
  qo_callbacks :: "'cb list"
  qo_conversation_history :: "conversation_history option"
  qo_explainability :: "('s, 'f) explainability_options option"

definition query_options_new :: "string \<Rightarrow> string \<Rightarrow> search_method \<Rightarrow> ('s, 'f, 'cb) query_options" where
  "query_options_new root query method =
     \<lparr>qo_project_root = root, qo_query = query, qo_method = method, qo_data_dir = None, qo_community_level = 2,
      qo_dynamic_community_selection = False, qo_response_type = ''Multiple Paragraphs'', qo_callbacks = [],
      qo_conversation_history = None, qo_explainability = None\<rparr>"

definition with_explainability ::
  "('s, 'f) explainability_options \<Rightarrow> ('s, 'f, 'cb) query_options \<Rightarrow> ('s, 'f, 'cb) query_options" where
  "with_explainability explainability options = options\<lparr>qo_explainability := Some explainability\<rparr>"

definition session_start ::
  "('s \<Rightarrow> datetime) \<Rightarrow> ('s \<Rightarrow> nat) \<Rightarrow> span_id \<Rightarrow> ('s, 'f, 'cb) query_options \<Rightarrow> 's session_state
   \<Rightarrow> ('s, 'f) query_session option \<times> 's session_state" where
  "session_start now elapsed root options st =
     (if qo_method options \<notin> {SearchBasic, SearchLocal, SearchGlobal} then (None, st)
      else case qo_explainability options of
          None \<Rightarrow> (None, st)
        | Some explainability \<Rightarrow>
            let q = session_new now elapsed root explainability (qo_method options)
            in (Some q, session_emit_start q (qo_query options) st))"

text \<open>\<open>QueryInstrumentation::start\<close>, without the tracing session.\<close>

definition instrumentation_start ::
  "('s \<Rightarrow> datetime) \<Rightarrow> ('s \<Rightarrow> nat) \<Rightarrow> request_spans \<Rightarrow> ('s, 'f, 'cb) query_options \<Rightarrow> 's session_state
   \<Rightarrow> ('s, 'f) method_explainability option \<times> 's session_state" where
  "instrumentation_start now elapsed ids options st =
     (case qo_method options of
        SearchBasic \<Rightarrow> map_prod (map_option (\<lambda>q. BasicHandle q (rsp_basic ids))) id
          (session_start now elapsed (rsp_root ids) options st)
      | SearchLocal \<Rightarrow> map_prod (map_option (\<lambda>q. LocalHandle q ((rsp_local ids)\<lparr>lsp_root := rsp_root ids\<rparr>))) id
          (session_start now elapsed (rsp_root ids) options st)
      | SearchGlobal \<Rightarrow> map_prod (map_option (\<lambda>q. GlobalHandle q (rsp_global ids))) id
          (session_start now elapsed (rsp_root ids) options st)
      | SearchDrift \<Rightarrow> (None, st))"

fun basic_explainability ::
  "('s, 'f) method_explainability option \<Rightarrow> (('s, 'f) query_session \<times> basic_spans) option" where
  "basic_explainability (Some (BasicHandle q spans)) = Some (q, spans)"
| "basic_explainability _ = None"

text \<open>An operation of the explainability session of an instrumentation, when there is one.\<close>

fun with_instrumentation ::
  "('s, 'f) method_explainability option \<Rightarrow> (('s, 'f) query_session \<Rightarrow> 's session_state \<Rightarrow> 's session_state)
   \<Rightarrow> 's session_state \<Rightarrow> 's session_state" where
  "with_instrumentation None f st = st"
| "with_instrumentation (Some handle) f st = f (handle_session handle) st"

definition instrumentation_finish_success ::
  "('s, 'f) method_explainability option \<Rightarrow> 's session_state \<Rightarrow> 's session_state" where
  "instrumentation_finish_success h = with_instrumentation h finish_success"

definition instrumentation_finish_query_error ::
  "('s, 'f) method_explainability option \<Rightarrow> query_error \<Rightarrow> 's session_state \<Rightarrow> 's session_state" where
  "instrumentation_finish_query_error h error = with_instrumentation h (\<lambda>q. finish_query_error q error)"

definition instrumentation_finish_graphloom_error ::
  "('s, 'f) method_explainability option \<Rightarrow> graphloom_error \<Rightarrow> 's session_state \<Rightarrow> 's session_state" where
  "instrumentation_finish_graphloom_error h error = with_instrumentation h (\<lambda>q. finish_graphloom_error q error)"

definition instrumentation_finish_stream_ended ::
  "('s, 'f) method_explainability option \<Rightarrow> 's session_state \<Rightarrow> 's session_state" where
  "instrumentation_finish_stream_ended h = with_instrumentation h finish_stream_ended"

end
