(* ===== verification/Basic_Search.thy ===== *)
theory Basic_Search
  imports Query_Index Streaming Query_Session
begin

text \<open>
  Basic Search: the Sources context (\<open>query/basic/context.rs\<close>), the completion and its event stream
  (\<open>query/basic/search.rs\<close>), and the request around them (\<open>query\<close> of \<open>query/engine.rs\<close>), with every
  record that explains it.

  Parameters (records \<open>basic_env\<close>, \<open>basic_query_runtime\<close>): the embedding model, the vector index, the
  tokenizer, the CSV writer, data frames, the prompt template, building requests and the completion
  model. The CSV writer's bytes are a string, so decoding them cannot fail. Callbacks are left out.
\<close>

subsection \<open>Stages on the session state\<close>

text \<open>The question mark, in code that also moves the session state.\<close>

fun run_then ::
  "('e + 'a) \<times> 'st \<Rightarrow> ('a \<Rightarrow> 'st \<Rightarrow> ('e + 'b) \<times> 'st) \<Rightarrow> ('e + 'b) \<times> 'st" where
  "run_then (Inl e, st) f = (Inl e, st)"
| "run_then (Inr x, st) f = f x st"

type_synonym ('s, 'f) basic_handle = "('s, 'f) query_session \<times> basic_spans"

text \<open>\<open>if let Some(session) = explainability\<close>.\<close>

fun if_some :: "'h option \<Rightarrow> ('h \<Rightarrow> 'st \<Rightarrow> 'st) \<Rightarrow> 'st \<Rightarrow> 'st" where
  "if_some None f st = st"
| "if_some (Some h) f st = f h st"

subsection \<open>The Sources context\<close>

record ('f, 'd, 'v) basic_env =
  be_k :: usize
  be_max_context_tokens :: usize
  be_text_units :: "text_unit list"
  be_embed :: "string \<Rightarrow> string + u64 \<times> 'v list"
  be_vector_finite :: "'v \<Rightarrow> bool"
  be_vector_len :: "'v \<Rightarrow> usize"
  be_embedding_model_id :: string
  be_search :: "'v \<Rightarrow> usize \<Rightarrow> vector_error + (string \<times> 'f) list" \<comment> \<open>document and score, as \<open>f64\<close>\<close>
  be_score_finite :: "'f \<Rightarrow> bool"
  be_index_name :: string
  be_count :: "string \<Rightarrow> string + usize"
  be_csv :: csv_writer
  be_frames :: "'d frames"

record 'f ann_metadata =
  am_score :: "'f option"
  am_rank :: "u32 option"

record 'f basic_retrieval =
  bt_matched_ids :: "string set"
  bt_usage :: usage
  bt_metadata_by_id :: "(string \<rightharpoonup> 'f ann_metadata) option"

record basic_budget =
  bb_selected :: "text_unit list"
  bb_tokens_used :: usize
  bb_truncated :: bool

record 'd basic_built =
  bu_context :: "'d query_context"
  bu_usage :: usage

definition resolve_prompt_tokens ::
  "(string \<Rightarrow> string + usize) \<Rightarrow> u64 \<Rightarrow> string \<Rightarrow> search_method \<Rightarrow> string \<Rightarrow> string \<Rightarrow> query_error + usize" where
  "resolve_prompt_tokens cnt provider_prompt_tokens input method operation model_id =
     (if 0 < unat provider_prompt_tokens then Inr (unat provider_prompt_tokens)
      else map_err (QueryEmbedding method operation model_id) (cnt input))"

definition basic_embedding_error :: "('f, 'd, 'v) basic_env \<Rightarrow> string \<Rightarrow> string \<Rightarrow> query_error" where
  "basic_embedding_error env operation source = QueryEmbedding SearchBasic operation (be_embedding_model_id env) source"

definition basic_search_error :: "('f, 'd, 'v) basic_env \<Rightarrow> vector_error \<Rightarrow> query_error" where
  "basic_search_error env e =
     (case e of
        MissingIndex source \<Rightarrow> MissingVectorIndex SearchBasic ''search text_unit_text'' (be_index_name env) source
      | OtherVectorError source \<Rightarrow> InvalidVectorIndex SearchBasic ''search text_unit_text'' (be_index_name env) source)"

definition emit_embedding_started ::
  "('f, 'd, 'v) basic_env \<Rightarrow> string \<Rightarrow> ('s, 'f) basic_handle \<Rightarrow> 's session_state \<Rightarrow> 's session_state" where
  "emit_embedding_started env query h st =
     (case h of (q, spans) \<Rightarrow>
        session_emit q (bsp_embedding spans) (Some (qx_root_span q))
          (EmbeddingStarted \<lparr>es_model_id = be_embedding_model_id env, es_input = session_content q query\<rparr>) st)"

text \<open>Both counts are converted before either is looked at.\<close>

definition emit_embedding_completed ::
  "('f, 'd, 'v) basic_env \<Rightarrow> usize \<Rightarrow> usize \<Rightarrow> ('s, 'f) basic_handle \<Rightarrow> 's session_state \<Rightarrow> 's session_state" where
  "emit_embedding_completed env prompt_tokens len h st =
     (case h of (q, spans) \<Rightarrow>
      case session_usize_to_u64 prompt_tokens st of (tokens, st) \<Rightarrow>
      case session_usize_to_u32 len st of (dimensions, st) \<Rightarrow>
      case (tokens, dimensions) of
        (Some tokens, Some dimensions) \<Rightarrow>
          session_emit q (bsp_embedding spans) (Some (qx_root_span q))
            (EmbeddingCompleted \<lparr>ec_model_id = be_embedding_model_id env, ec_prompt_tokens = tokens,
               ec_dimensions = dimensions\<rparr>) st
      | _ \<Rightarrow> st)"

text \<open>The loop over the enumerated results: the candidates pushed, the first metadata of each document.\<close>

definition retrieved_candidate ::
  "('f, 'd, 'v) basic_env \<Rightarrow> string \<Rightarrow> 'f option \<Rightarrow> u32 option \<Rightarrow> 'f candidate" where
  "retrieved_candidate env i score rank =
     (candidate_new i TextUnit)
       \<lparr>ca_short_id := collect_map (map (\<lambda>u. (tu_id u, tu_short_id u)) (be_text_units env)) i,
        ca_score := score, ca_rank := rank, ca_reason := Some AnnResult\<rparr>"

fun retrieved_loop ::
  "('f, 'd, 'v) basic_env \<Rightarrow> (usize \<times> string \<times> 'f) list \<Rightarrow> 'f candidate list \<Rightarrow> (string \<rightharpoonup> 'f ann_metadata)
   \<Rightarrow> 's session_state \<Rightarrow> ('f candidate list \<times> (string \<rightharpoonup> 'f ann_metadata)) \<times> 's session_state" where
  "retrieved_loop env [] candidates metadata st = ((candidates, metadata), st)"
| "retrieved_loop env ((index, i, result_score) # results) candidates metadata st =
     (case session_usize_to_u32 (usize_sat_add index 1) st of (rank, st) \<Rightarrow>
      let score = (if be_score_finite env result_score then Some result_score else None);
          st = (if score = None then mark_sidecar_failure st else st)
      in retrieved_loop env results (candidates @ [retrieved_candidate env i score rank])
           (if i \<in> dom metadata then metadata else metadata(i \<mapsto> \<lparr>am_score = score, am_rank = rank\<rparr>)) st)"

definition emit_retrieved_candidates ::
  "('f, 'd, 'v) basic_env \<Rightarrow> ('s, 'f) basic_handle option \<Rightarrow> (string \<times> 'f) list \<Rightarrow> 's session_state
   \<Rightarrow> (string \<rightharpoonup> 'f ann_metadata) option \<times> 's session_state" where
  "emit_retrieved_candidates env explainability results st =
     (case explainability of
        None \<Rightarrow> (None, st)
      | Some (q, spans) \<Rightarrow>
          (case retrieved_loop env (enumerate_from 0 results) [] Map.empty st of
             ((candidates, metadata), st) \<Rightarrow>
               (Some metadata,
                session_emit_contract q (bsp_retrieval spans) (Some (qx_root_span q))
                  (map_ok CandidatesRetrieved (candidate_collection_try_new TextUnit candidates)) st)))"

definition basic_retrieve ::
  "('f, 'd, 'v) basic_env \<Rightarrow> string \<Rightarrow> ('s, 'f) basic_handle option \<Rightarrow> 's session_state
   \<Rightarrow> (query_error + 'f basic_retrieval) \<times> 's session_state" where
  "basic_retrieve env query explainability st =
     (let st = if_some explainability (emit_embedding_started env query) st in
      run_then (map_err (basic_embedding_error env ''embed Basic Search query'') (be_embed env query), st)
        (\<lambda>(usage, embeddings) st.
      run_then (resolve_prompt_tokens (be_count env) usage query SearchBasic
                  ''count Basic Search embedding input tokens'' (be_embedding_model_id env), st) (\<lambda>prompt_tokens st.
      run_then (case embeddings of
          [] \<Rightarrow> Inl (basic_embedding_error env ''read Basic Search query embedding'' ''provider returned no query embedding'')
        | vector # _ \<Rightarrow>
            if be_vector_finite env vector then Inr vector
            else Inl (basic_embedding_error env ''validate Basic Search query embedding''
                   ''provider returned a non-finite query embedding''), st) (\<lambda>vector st.
      let st = if_some explainability (emit_embedding_completed env prompt_tokens (be_vector_len env vector)) st in
      run_then (map_err (basic_search_error env) (be_search env vector (be_k env)), st) (\<lambda>results st.
      case emit_retrieved_candidates env explainability results st of (metadata, st) \<Rightarrow>
        (Inr \<lparr>bt_matched_ids = fst ` set results,
              bt_usage = \<lparr>us_llm_calls = 1, us_prompt_tokens = prompt_tokens, us_output_tokens = 0\<rparr>,
              bt_metadata_by_id = metadata\<rparr>, st))))))"

definition basic_token_error :: "string \<Rightarrow> query_error" where
  "basic_token_error source = QueryContext SearchBasic ''count Sources tokens'' source"

definition sources_row :: "text_unit \<Rightarrow> string" where
  "sources_row u = tu_short_id u @ ''|'' @ tu_text u @ [CHR 0x0A]"

fun budget_loop ::
  "('f, 'd, 'v) basic_env \<Rightarrow> text_unit list \<Rightarrow> text_unit list \<Rightarrow> usize
   \<Rightarrow> query_error + text_unit list \<times> usize" where
  "budget_loop env [] selected tokens = Inr (selected, tokens)"
| "budget_loop env (u # us) selected tokens =
     and_then (map_err basic_token_error (be_count env (sources_row u))) (\<lambda>row_tokens.
       if be_max_context_tokens env < usize_sat_add tokens row_tokens then Inr (selected, tokens)
       else budget_loop env us (selected @ [u]) (usize_sat_add tokens row_tokens))"

definition within_budget :: "('f, 'd, 'v) basic_env \<Rightarrow> text_unit list \<Rightarrow> query_error + basic_budget" where
  "within_budget env candidates =
     and_then (map_err basic_token_error (be_count env (''id|text'' @ [CHR 0x0A]))) (\<lambda>tokens.
     and_then (budget_loop env candidates [] tokens) (\<lambda>(selected, tokens).
       Inr \<lparr>bb_selected = selected, bb_tokens_used = tokens,
            bb_truncated = (length selected < length candidates)\<rparr>))"

definition emit_context_budget ::
  "('f, 'd, 'v) basic_env \<Rightarrow> ('s, 'f) basic_handle \<Rightarrow> 's session_state \<Rightarrow> 's session_state" where
  "emit_context_budget env h st =
     (case h of (q, spans) \<Rightarrow>
      case session_usize_to_u64 (be_max_context_tokens env) st of
        (None, st) \<Rightarrow> st
      | (Some token_budget, st) \<Rightarrow>
          session_emit q (bsp_context spans) (Some (qx_root_span q))
            (ContextBudgetAllocated \<lparr>cb_total_token_budget = token_budget,
               cb_sections = [\<lparr>sb_section = Sources, sb_token_budget = token_budget\<rparr>]\<rparr>) st)"

definition filtered_candidate ::
  "usize \<Rightarrow> (string \<rightharpoonup> 'f ann_metadata) \<Rightarrow> usize \<times> text_unit \<Rightarrow> 'f candidate" where
  "filtered_candidate selected_count metadata iu =
     (case iu of (index, u) \<Rightarrow>
      let m = metadata (tu_id u);
          selected = (index < selected_count)
      in (candidate_new (tu_id u) TextUnit)
           \<lparr>ca_short_id := Some (tu_short_id u),
            ca_score := Option.bind m am_score,
            ca_rank := Option.bind m am_rank,
            ca_selected := selected,
            ca_reason := Some (if selected then AnnResult else TokenBudgetReason)\<rparr>)"

definition emit_filtered_candidates ::
  "('s, 'f) basic_handle option \<Rightarrow> text_unit list \<Rightarrow> usize \<Rightarrow> (string \<rightharpoonup> 'f ann_metadata) option
   \<Rightarrow> 's session_state \<Rightarrow> 's session_state" where
  "emit_filtered_candidates explainability candidates selected_count metadata_by_id st =
     (case (explainability, metadata_by_id) of
        (Some (q, spans), Some metadata) \<Rightarrow>
          session_emit_contract q (bsp_retrieval spans) (Some (qx_root_span q))
            (map_ok CandidatesFiltered (candidate_collection_try_new TextUnit
               (map (filtered_candidate selected_count metadata) (enumerate_from 0 candidates)))) st
      | _ \<Rightarrow> st)"

definition basic_section :: "text_unit list \<Rightarrow> basic_budget \<Rightarrow> u64 \<Rightarrow> u64 \<Rightarrow> u64 \<Rightarrow> u64 \<Rightarrow> context_section" where
  "basic_section candidates fitted token_budget tokens_used candidate_count selected_count =
     (context_section_new Sources token_budget)
       \<lparr>cs_tokens_used := tokens_used, cs_candidate_count := candidate_count,
        cs_selected_count := selected_count, cs_truncated := bb_truncated fitted,
        cs_selected_record_ids := map tu_id (bb_selected fitted)\<rparr>"

definition emit_context_completed ::
  "('f, 'd, 'v) basic_env \<Rightarrow> text_unit list \<Rightarrow> basic_budget \<Rightarrow> string \<Rightarrow> ('s, 'f) basic_handle
   \<Rightarrow> 's session_state \<Rightarrow> 's session_state" where
  "emit_context_completed env candidates fitted context_text h st =
     (case h of (q, spans) \<Rightarrow>
      case session_usize_to_u64 (be_max_context_tokens env) st of (token_budget, st) \<Rightarrow>
      case session_usize_to_u64 (bb_tokens_used fitted) st of (tokens_used, st) \<Rightarrow>
      case session_usize_to_u64 (length candidates) st of (candidate_count, st) \<Rightarrow>
      case session_usize_to_u64 (length (bb_selected fitted)) st of (selected_count, st) \<Rightarrow>
      case (token_budget, tokens_used, candidate_count, selected_count) of
        (Some token_budget, Some tokens_used, Some candidate_count, Some selected_count) \<Rightarrow>
          session_emit q (bsp_context spans) (Some (qx_root_span q))
            (ContextCompleted \<lparr>cco_tokens_used = tokens_used, cco_context = session_content q context_text\<rparr>)
            (session_emit q (bsp_context spans) (Some (qx_root_span q))
              (ContextSectionBuilt
                \<lparr>sbu_section = basic_section candidates fitted token_budget tokens_used candidate_count selected_count\<rparr>) st)
      | _ \<Rightarrow> st)"

definition pandas_escape_field :: "string \<Rightarrow> string" where
  "pandas_escape_field v =
     (if CHR 0x5C \<in> set v then concat (map (\<lambda>c. if c = CHR 0x5C then [CHR 0x5C, CHR 0x5C] else [c]) v) else v)"

definition render_sources :: "('f, 'd, 'v) basic_env \<Rightarrow> text_unit list \<Rightarrow> query_error + string" where
  "render_sources env text_units =
     map_err (QueryContext SearchBasic ''render Sources CSV'')
       (be_csv env ([''id'', ''text'']
          # map (\<lambda>u. [pandas_escape_field (tu_short_id u), pandas_escape_field (tu_text u)]) text_units))"

definition emit_retrieval_skipped ::
  "('s, 'f) basic_handle \<Rightarrow> 's session_state \<Rightarrow> 's session_state" where
  "emit_retrieval_skipped h st =
     (case h of (q, spans) \<Rightarrow>
        session_emit q (bsp_retrieval spans) (Some (qx_root_span q)) (BasicRetrievalSkipped \<lparr>bs_reason = EmptyQuery\<rparr>) st)"

definition basic_build ::
  "('f, 'd, 'v) basic_env \<Rightarrow> string \<Rightarrow> ('s, 'f) basic_handle option \<Rightarrow> 's session_state
   \<Rightarrow> (query_error + 'd basic_built) \<times> 's session_state" where
  "basic_build env query explainability st =
     run_then
       (if query = [] then
          (Inr \<lparr>bt_matched_ids = {}, bt_usage = usage_default,
                bt_metadata_by_id = (if explainability = None then None else Some Map.empty)\<rparr>,
           if_some explainability emit_retrieval_skipped st)
        else basic_retrieve env query explainability st) (\<lambda>retrieved st.
     let candidates = filter (\<lambda>u. tu_id u \<in> bt_matched_ids retrieved) (be_text_units env);
         st = if_some explainability (emit_context_budget env) st
     in run_then (within_budget env candidates, st) (\<lambda>fitted st.
     let st = emit_filtered_candidates explainability candidates (length (bb_selected fitted))
                (bt_metadata_by_id retrieved) st
     in run_then (render_sources env (bb_selected fitted), st) (\<lambda>context_text st.
     let st = if_some explainability (emit_context_completed env candidates fitted context_text) st
     in run_then (map_err (QueryContext SearchBasic ''build Sources records'')
           (fr_new (be_frames env) (length (bb_selected fitted))
              [(''id'', map tu_short_id (bb_selected fitted)), (''text'', map tu_text (bb_selected fitted))]), st)
         (\<lambda>records st.
       (Inr \<lparr>bu_context = \<lparr>qc_text = Text context_text, qc_records = RecordTables [(''sources'', records)]\<rparr>,
             bu_usage = bt_usage retrieved\<rparr>, st)))))"


subsection \<open>The completion\<close>

record ('f, 'd, 'v) basic_query_runtime =
  br_context :: "('f, 'd, 'v) basic_env"
  br_prompt :: "string \<Rightarrow> string \<Rightarrow> string + string" \<comment> \<open>rendered with a context and a response type\<close>
  br_request :: "string \<Rightarrow> string \<Rightarrow> string + unit" \<comment> \<open>call arguments and validation, for the two messages\<close>
  br_stream :: "string \<Rightarrow> string \<Rightarrow> string + provider"
  br_completion_model_id :: string

type_synonym 'd stream_item = "query_error + 'd query_context query_event"

text \<open>\<open>BasicCompletionState\<close>, with the events the inner stream has left.\<close>

record ('s, 'f, 'd) basic_completion_state =
  bz_events :: "'d stream_item list"
  bz_instrumentation :: "('s, 'f) method_explainability option"
  bz_llm_elapsed :: "'s \<Rightarrow> nat"
  bz_completion_model_id :: string

fun basic_context_text :: "context_text \<Rightarrow> query_error + string" where
  "basic_context_text (Text v) = Inr v"
| "basic_context_text _ =
     Inl (QueryContext SearchBasic ''read Basic Search context text'' ''Basic Search requires one context string'')"

definition basic_count :: "('f, 'd, 'v) basic_query_runtime \<Rightarrow> string \<Rightarrow> query_error + usize" where
  "basic_count rt s =
     map_err (QueryContext SearchBasic ''count Basic Search completion input tokens'') (be_count (br_context rt) s)"

definition emit_llm_started ::
  "('f, 'd, 'v) basic_query_runtime \<Rightarrow> string \<Rightarrow> usize \<Rightarrow> ('s, 'f) basic_handle \<Rightarrow> 's session_state \<Rightarrow> 's session_state" where
  "emit_llm_started rt rendered prompt_tokens h st =
     (case h of (q, spans) \<Rightarrow>
      case session_usize_to_u64 prompt_tokens st of
        (None, st) \<Rightarrow> st
      | (Some prompt_tokens, st) \<Rightarrow>
          session_emit q (bsp_llm spans) (Some (qx_root_span q))
            (LlmRequestStarted \<lparr>ls_model_id = br_completion_model_id rt, ls_prompt_tokens = prompt_tokens,
               ls_prompt = session_content q rendered\<rparr>) st)"

definition basic_stream_config ::
  "('f, 'd, 'v) basic_query_runtime \<Rightarrow> 'd basic_built \<Rightarrow> usize \<Rightarrow> 'd query_context stream_config" where
  "basic_stream_config rt built prompt_tokens =
     \<lparr>sc_context = bu_context built, sc_categories = [(''build_context'', bu_usage built)],
      sc_completion_category = ''response'', sc_prompt_tokens = prompt_tokens,
      sc_completion_model_id = br_completion_model_id rt, sc_method = SearchBasic,
      sc_consume_operation = ''consume Basic Search completion stream'',
      sc_output_count_operation = ''count Basic Search output tokens'',
      sc_output_count_is_context_error = False\<rparr>"

text \<open>\<open>llm_elapsed\<close> is the time since \<open>llm_started\<close>, which is taken here.\<close>

definition prepare_basic_stream ::
  "('s \<Rightarrow> nat) \<Rightarrow> ('f, 'd, 'v) basic_query_runtime \<Rightarrow> string \<Rightarrow> string \<Rightarrow> ('s, 'f) method_explainability option
   \<Rightarrow> 's session_state \<Rightarrow> (query_error + ('s, 'f, 'd) basic_completion_state) \<times> 's session_state" where
  "prepare_basic_stream llm_elapsed rt query response_type instrumentation st =
     (let explainability = basic_explainability instrumentation in
      run_then (basic_build (br_context rt) query explainability st) (\<lambda>built st.
      run_then (basic_context_text (qc_text (bu_context built)), st) (\<lambda>context_text st.
      run_then (map_err (QueryPrompt SearchBasic ''render Basic Search prompt'' ''basic_search_system_prompt.txt'')
          (br_prompt rt context_text response_type), st) (\<lambda>rendered st.
      run_then (count_messages (basic_count rt) 0 [rendered, query], st) (\<lambda>prompt_tokens st.
      run_then (map_err (InvalidQueryConfig SearchBasic ''build Basic Search completion request'')
          (br_request rt rendered query), st) (\<lambda>_ st.
      let st = if_some explainability (emit_llm_started rt rendered prompt_tokens) st in
      run_then (map_err (QueryCompletion SearchBasic ''start Basic Search completion stream'' (br_completion_model_id rt))
          (br_stream rt rendered query), st) (\<lambda>provider st.
        (Inr \<lparr>bz_events = completion_event_stream (be_count (br_context rt))
                (basic_stream_config rt built prompt_tokens) provider,
              bz_instrumentation = instrumentation, bz_llm_elapsed = llm_elapsed,
              bz_completion_model_id = br_completion_model_id rt\<rparr>, st))))))))"

definition basic_search_streaming ::
  "('s \<Rightarrow> nat) \<Rightarrow> ('f, 'd, 'v) basic_query_runtime \<Rightarrow> string \<Rightarrow> string \<Rightarrow> ('s, 'f) method_explainability option
   \<Rightarrow> 's session_state \<Rightarrow> (query_error + ('s, 'f, 'd) basic_completion_state) \<times> 's session_state" where
  "basic_search_streaming llm_elapsed rt query response_type instrumentation st =
     (case prepare_basic_stream llm_elapsed rt query response_type instrumentation st of
        (Inr events, st) \<Rightarrow> (Inr events, st)
      | (Inl error, st) \<Rightarrow> (Inl error, instrumentation_finish_query_error instrumentation error st))"

definition emit_llm_completed ::
  "string \<Rightarrow> ('s \<Rightarrow> nat) \<Rightarrow> 'd query_context query_result \<Rightarrow> ('s, 'f) basic_handle \<Rightarrow> 's session_state
   \<Rightarrow> 's session_state" where
  "emit_llm_completed completion_model_id llm_elapsed r h st =
     (case h of (q, spans) \<Rightarrow>
      case map_of (qu_categories (qr_usage r)) ''response'' of
        None \<Rightarrow> mark_sidecar_failure st
      | Some usage \<Rightarrow>
          (case session_usize_to_u64 (us_prompt_tokens usage) st of (input_tokens, st) \<Rightarrow>
           case session_usize_to_u64 (us_output_tokens usage) st of (output_tokens, st) \<Rightarrow>
           case session_duration_millis (llm_elapsed (xs_world st)) st of (elapsed_ms, st) \<Rightarrow>
           case (input_tokens, output_tokens, elapsed_ms) of
             (Some input_tokens, Some output_tokens, Some elapsed_ms) \<Rightarrow>
               session_emit q (bsp_llm spans) (Some (qx_root_span q))
                 (LlmRequestCompleted \<lparr>lc_model_id = completion_model_id, lc_input_tokens = input_tokens,
                    lc_output_tokens = output_tokens, lc_elapsed_ms = elapsed_ms,
                    lc_response = session_content q (qr_response r)\<rparr>) st
           | _ \<Rightarrow> st))"

fun next_basic_completion_event ::
  "('s, 'f, 'd) basic_completion_state option \<Rightarrow> 's session_state
   \<Rightarrow> ('d stream_item \<times> ('s, 'f, 'd) basic_completion_state option) option \<times> 's session_state" where
  "next_basic_completion_event None st = (None, st)"
| "next_basic_completion_event (Some state) st =
     (let instrumentation = bz_instrumentation state in
      case bz_events state of
        Inr (CompletedEvent r) # rest \<Rightarrow>
          (Some (Inr (CompletedEvent r), None),
           instrumentation_finish_success instrumentation
             (if_some (basic_explainability instrumentation)
               (emit_llm_completed (bz_completion_model_id state) (bz_llm_elapsed state) r) st))
      | Inr event # rest \<Rightarrow> (Some (Inr event, Some (state\<lparr>bz_events := rest\<rparr>)), st)
      | Inl error # rest \<Rightarrow>
          (Some (Inl error, None), instrumentation_finish_query_error instrumentation error st)
      | [] \<Rightarrow> (None, instrumentation_finish_stream_ended instrumentation st))"

definition events_left :: "('s, 'f, 'd) basic_completion_state option \<Rightarrow> nat" where
  "events_left state = (case state of None \<Rightarrow> 0 | Some s \<Rightarrow> Suc (length (bz_events s)))"

lemma next_basic_completion_event_less:
  "next_basic_completion_event state st = (Some (event, state'), st') \<Longrightarrow> events_left state' < events_left state"
  by (cases "(state, st)" rule: next_basic_completion_event.cases)
    (auto simp: events_left_def Let_def split: list.splits sum.splits query_event.splits)

text \<open>Every event of the stream, read to its end.\<close>

function basic_stream_events ::
  "('s, 'f, 'd) basic_completion_state option \<Rightarrow> 's session_state \<Rightarrow> 'd stream_item list \<times> 's session_state" where
  "basic_stream_events state st =
     (case next_basic_completion_event state st of
        (None, st) \<Rightarrow> ([], st)
      | (Some (event, state'), st) \<Rightarrow> (case basic_stream_events state' st of (events, st) \<Rightarrow> (event # events, st)))"
  by pat_completeness auto

termination
  by (relation "measure (\<lambda>(state, st). events_left state)") (auto dest: next_basic_completion_event_less [OF sym])

declare basic_stream_events.simps [simp del]

definition aggregate_error :: query_error where
  "aggregate_error =
     QueryCompletion SearchBasic ''aggregate Basic Search stream'' ''unknown''
       ''stream ended without a completed event''"

text \<open>\<open>while let Some(event) = events.next()\<close>, up to the completion.\<close>

function basic_search_loop ::
  "('s, 'f, 'd) basic_completion_state option \<Rightarrow> 's session_state
   \<Rightarrow> (query_error + 'd query_context query_result) \<times> 's session_state" where
  "basic_search_loop state st =
     (case next_basic_completion_event state st of
        (None, st) \<Rightarrow> (Inl aggregate_error, st)
      | (Some (Inl error, state'), st) \<Rightarrow> (Inl error, st)
      | (Some (Inr (CompletedEvent r), state'), st) \<Rightarrow> (Inr r, st)
      | (Some (Inr _, state'), st) \<Rightarrow> basic_search_loop state' st)"
  by pat_completeness auto

termination
  by (relation "measure (\<lambda>(state, st). events_left state)") (auto dest: next_basic_completion_event_less [OF sym])

declare basic_search_loop.simps [simp del]

definition basic_search ::
  "('s \<Rightarrow> nat) \<Rightarrow> ('f, 'd, 'v) basic_query_runtime \<Rightarrow> string \<Rightarrow> string \<Rightarrow> ('s, 'f) method_explainability option
   \<Rightarrow> 's session_state \<Rightarrow> (query_error + 'd query_context query_result) \<times> 's session_state" where
  "basic_search llm_elapsed rt query response_type instrumentation st =
     run_then (basic_search_streaming llm_elapsed rt query response_type instrumentation st)
       (\<lambda>events. basic_search_loop (Some events))"

end
