(* ===== verification/Query_Config.thy ===== *)
theory Query_Config
  imports Query_Parse Query_Types Conversation
begin

text \<open>
  Query configuration (\<open>config/query.rs\<close>), what each method requires (\<open>query/requirements.rs\<close>), and the
  checks of a request (\<open>validate_*_requirements\<close> of \<open>query/runtime.rs\<close>).

  Floating point is the record \<open>float_ops\<close>.
\<close>

record 'f float_ops =
  fl_finite :: "'f \<Rightarrow> bool"
  fl_le :: "'f \<Rightarrow> 'f \<Rightarrow> bool"
  fl_add :: "'f \<Rightarrow> 'f \<Rightarrow> 'f"
  fl_of :: "nat \<Rightarrow> 'f" \<comment> \<open>the literals \<open>0.0\<close>, \<open>1.0\<close> and \<open>2.0\<close>\<close>

subsection \<open>Values\<close>

definition validate_model_id :: "string \<Rightarrow> string \<Rightarrow> string + unit" where
  "validate_model_id v field = (if trim v = [] then Inl (field @ '' must not be empty'') else Inr ())"

definition validate_positive :: "usize \<Rightarrow> string \<Rightarrow> string + unit" where
  "validate_positive v field = (if v = 0 then Inl (field @ '' must be greater than zero'') else Inr ())"

definition validate_optional_positive :: "u32 option \<Rightarrow> string \<Rightarrow> string + unit" where
  "validate_optional_positive v field =
     (if v = Some 0 then Inl (field @ '' must be greater than zero when configured'') else Inr ())"

definition validate_ratio :: "'f float_ops \<Rightarrow> 'f \<Rightarrow> string \<Rightarrow> string + unit" where
  "validate_ratio fl v field =
     (if \<not> fl_finite fl v \<or> \<not> (fl_le fl (fl_of fl 0) v \<and> fl_le fl v (fl_of fl 1))
      then Inl (field @ '' must be finite and between 0 and 1'') else Inr ())"

definition validate_temperature :: "'f float_ops \<Rightarrow> 'f \<Rightarrow> string \<Rightarrow> string + unit" where
  "validate_temperature fl v field =
     (if \<not> fl_finite fl v \<or> \<not> (fl_le fl (fl_of fl 0) v \<and> fl_le fl v (fl_of fl 2))
      then Inl (field @ '' must be finite and between 0 and 2'') else Inr ())"

subsection \<open>Method configurations\<close>

record 'f local_search_config =
  lsc_prompt :: "string option"
  lsc_completion_model_id :: string
  lsc_embedding_model_id :: string
  lsc_text_unit_prop :: 'f
  lsc_community_prop :: 'f
  lsc_conversation_history_max_turns :: usize
  lsc_top_k_entities :: usize
  lsc_top_k_relationships :: usize
  lsc_max_context_tokens :: usize

text \<open>The negation of \<open>a + b > 1.0\<close>, on finite numbers.\<close>

definition props_fit :: "'f float_ops \<Rightarrow> 'f \<Rightarrow> 'f \<Rightarrow> bool" where
  "props_fit fl a b = fl_le fl (fl_add fl a b) (fl_of fl 1)"

definition local_config_validate :: "'f float_ops \<Rightarrow> 'f local_search_config \<Rightarrow> string + unit" where
  "local_config_validate fl c =
     and_then (validate_model_id (lsc_completion_model_id c) ''completion_model_id'') (\<lambda>_.
     and_then (validate_model_id (lsc_embedding_model_id c) ''embedding_model_id'') (\<lambda>_.
     and_then (validate_ratio fl (lsc_text_unit_prop c) ''text_unit_prop'') (\<lambda>_.
     and_then (validate_ratio fl (lsc_community_prop c) ''community_prop'') (\<lambda>_.
       if \<not> props_fit fl (lsc_text_unit_prop c) (lsc_community_prop c)
       then Inl ''text_unit_prop + community_prop must not exceed 1''
       else
         and_then (validate_positive (lsc_top_k_entities c) ''top_k_entities'') (\<lambda>_.
         and_then (validate_positive (lsc_top_k_relationships c) ''top_k_relationships'') (\<lambda>_.
           validate_positive (lsc_max_context_tokens c) ''max_context_tokens''))))))"

record global_search_config =
  gsc_map_prompt :: "string option"
  gsc_reduce_prompt :: "string option"
  gsc_knowledge_prompt :: "string option"
  gsc_completion_model_id :: string
  gsc_max_context_tokens :: usize
  gsc_data_max_tokens :: usize
  gsc_map_max_length :: usize
  gsc_reduce_max_length :: usize
  gsc_dynamic_search_threshold :: i64
  gsc_dynamic_search_keep_parent :: bool
  gsc_dynamic_search_num_repeats :: usize
  gsc_dynamic_search_use_summary :: bool
  gsc_dynamic_search_max_level :: i64

definition global_config_validate :: "global_search_config \<Rightarrow> string + unit" where
  "global_config_validate c =
     and_then (validate_model_id (gsc_completion_model_id c) ''completion_model_id'') (\<lambda>_.
     and_then (validate_positive (gsc_max_context_tokens c) ''max_context_tokens'') (\<lambda>_.
     and_then (validate_positive (gsc_data_max_tokens c) ''data_max_tokens'') (\<lambda>_.
     and_then (validate_positive (gsc_map_max_length c) ''map_max_length'') (\<lambda>_.
     and_then (validate_positive (gsc_reduce_max_length c) ''reduce_max_length'') (\<lambda>_.
     and_then (validate_positive (gsc_dynamic_search_num_repeats c) ''dynamic_search_num_repeats'') (\<lambda>_.
       if gsc_dynamic_search_max_level c < 0 then Inl ''dynamic_search_max_level must be non-negative''
       else Inr ()))))))"

record basic_search_config =
  bsc_prompt :: "string option"
  bsc_completion_model_id :: string
  bsc_embedding_model_id :: string
  bsc_k :: usize
  bsc_max_context_tokens :: usize

definition basic_config_validate :: "basic_search_config \<Rightarrow> string + unit" where
  "basic_config_validate c =
     and_then (validate_model_id (bsc_completion_model_id c) ''completion_model_id'') (\<lambda>_.
     and_then (validate_model_id (bsc_embedding_model_id c) ''embedding_model_id'') (\<lambda>_.
     and_then (validate_positive (bsc_k c) ''k'') (\<lambda>_.
       validate_positive (bsc_max_context_tokens c) ''max_context_tokens'')))"

record 'f drift_search_config =
  dsc_prompt :: "string option"
  dsc_reduce_prompt :: "string option"
  dsc_completion_model_id :: string
  dsc_embedding_model_id :: string
  dsc_data_max_tokens :: usize
  dsc_reduce_max_tokens :: "u32 option"
  dsc_reduce_temperature :: 'f
  dsc_reduce_max_completion_tokens :: "u32 option"
  dsc_concurrency :: usize
  dsc_drift_k_followups :: usize
  dsc_primer_folds :: usize
  dsc_primer_llm_max_tokens :: usize
  dsc_n_depth :: usize
  dsc_local_search_text_unit_prop :: 'f
  dsc_local_search_community_prop :: 'f
  dsc_local_search_top_k_mapped_entities :: usize
  dsc_local_search_top_k_relationships :: usize
  dsc_local_search_max_data_tokens :: usize
  dsc_local_search_temperature :: 'f
  dsc_local_search_top_p :: 'f
  dsc_local_search_n :: usize
  dsc_local_search_llm_max_gen_tokens :: "u32 option"
  dsc_local_search_llm_max_gen_completion_tokens :: "u32 option"

definition drift_config_validate :: "'f float_ops \<Rightarrow> 'f drift_search_config \<Rightarrow> string + unit" where
  "drift_config_validate fl c =
     and_then (validate_model_id (dsc_completion_model_id c) ''completion_model_id'') (\<lambda>_.
     and_then (validate_model_id (dsc_embedding_model_id c) ''embedding_model_id'') (\<lambda>_.
     and_then (validate_positive (dsc_data_max_tokens c) ''data_max_tokens'') (\<lambda>_.
     and_then (validate_optional_positive (dsc_reduce_max_tokens c) ''reduce_max_tokens'') (\<lambda>_.
     and_then (validate_temperature fl (dsc_reduce_temperature c) ''reduce_temperature'') (\<lambda>_.
     and_then (validate_optional_positive (dsc_reduce_max_completion_tokens c) ''reduce_max_completion_tokens'') (\<lambda>_.
     and_then (validate_positive (dsc_concurrency c) ''concurrency'') (\<lambda>_.
     and_then (validate_positive (dsc_drift_k_followups c) ''drift_k_followups'') (\<lambda>_.
     and_then (validate_positive (dsc_primer_llm_max_tokens c) ''primer_llm_max_tokens'') (\<lambda>_.
     and_then (validate_positive (dsc_n_depth c) ''n_depth'') (\<lambda>_.
     and_then (validate_ratio fl (dsc_local_search_text_unit_prop c) ''local_search_text_unit_prop'') (\<lambda>_.
     and_then (validate_ratio fl (dsc_local_search_community_prop c) ''local_search_community_prop'') (\<lambda>_.
       if \<not> props_fit fl (dsc_local_search_text_unit_prop c) (dsc_local_search_community_prop c)
       then Inl ''local_search_text_unit_prop + local_search_community_prop must not exceed 1''
       else
         and_then (validate_positive (dsc_local_search_top_k_mapped_entities c) ''local_search_top_k_mapped_entities'') (\<lambda>_.
         and_then (validate_positive (dsc_local_search_top_k_relationships c) ''local_search_top_k_relationships'') (\<lambda>_.
         and_then (validate_positive (dsc_local_search_max_data_tokens c) ''local_search_max_data_tokens'') (\<lambda>_.
         and_then (validate_temperature fl (dsc_local_search_temperature c) ''local_search_temperature'') (\<lambda>_.
         and_then (validate_ratio fl (dsc_local_search_top_p c) ''local_search_top_p'') (\<lambda>_.
         and_then (validate_positive (dsc_local_search_n c) ''local_search_n'') (\<lambda>_.
         and_then (validate_optional_positive (dsc_local_search_llm_max_gen_tokens c) ''local_search_llm_max_gen_tokens'') (\<lambda>_.
           validate_optional_positive (dsc_local_search_llm_max_gen_completion_tokens c)
             ''local_search_llm_max_gen_completion_tokens'')))))))))))))))))))"

text \<open>The query part of \<open>GraphRagConfig\<close>.\<close>

record 'f query_config =
  gr_local_search :: "'f local_search_config"
  gr_global_search :: global_search_config
  gr_drift_search :: "'f drift_search_config"
  gr_basic_search :: basic_search_config
  gr_concurrent_requests :: usize

subsection \<open>What a method requires\<close>

datatype query_table =
  TableEntities | TableCommunities | TableCommunityReports | TableTextUnits | TableRelationships | TableCovariates

fun query_table_name :: "query_table \<Rightarrow> string" where
  "query_table_name TableEntities = ''entities''"
| "query_table_name TableCommunities = ''communities''"
| "query_table_name TableCommunityReports = ''community_reports''"
| "query_table_name TableTextUnits = ''text_units''"
| "query_table_name TableRelationships = ''relationships''"
| "query_table_name TableCovariates = ''covariates''"

datatype query_embedding = EntityDescription | CommunityFullContent | TextUnitText

fun query_embedding_name :: "query_embedding \<Rightarrow> string" where
  "query_embedding_name EntityDescription = ''entity_description''"
| "query_embedding_name CommunityFullContent = ''community_full_content''"
| "query_embedding_name TextUnitText = ''text_unit_text''"

datatype query_prompt =
  PromptBasic | PromptLocal | PromptGlobalMap | PromptGlobalReduce | PromptGlobalKnowledge | PromptDrift | PromptDriftReduce

record query_requirements =
  qr_tables :: "query_table set"
  qr_optional_tables :: "query_table set"
  qr_embeddings :: "query_embedding set"
  qr_completion_models :: "string set"
  qr_embedding_models :: "string set"
  qr_prompts :: "query_prompt set"

fun requirements_for_method :: "search_method \<Rightarrow> 'f query_config \<Rightarrow> query_requirements" where
  "requirements_for_method SearchGlobal c =
     \<lparr>qr_tables = {TableEntities, TableCommunities, TableCommunityReports}, qr_optional_tables = {},
      qr_embeddings = {}, qr_completion_models = {gsc_completion_model_id (gr_global_search c)},
      qr_embedding_models = {}, qr_prompts = {PromptGlobalMap, PromptGlobalReduce, PromptGlobalKnowledge}\<rparr>"
| "requirements_for_method SearchLocal c =
     \<lparr>qr_tables = {TableEntities, TableCommunities, TableCommunityReports, TableTextUnits, TableRelationships},
      qr_optional_tables = {TableCovariates}, qr_embeddings = {EntityDescription},
      qr_completion_models = {lsc_completion_model_id (gr_local_search c)},
      qr_embedding_models = {lsc_embedding_model_id (gr_local_search c)}, qr_prompts = {PromptLocal}\<rparr>"
| "requirements_for_method SearchDrift c =
     \<lparr>qr_tables = {TableEntities, TableCommunities, TableCommunityReports, TableTextUnits, TableRelationships},
      qr_optional_tables = {}, qr_embeddings = {EntityDescription, CommunityFullContent},
      qr_completion_models = {dsc_completion_model_id (gr_drift_search c)},
      qr_embedding_models = {dsc_embedding_model_id (gr_drift_search c)}, qr_prompts = {PromptDrift, PromptDriftReduce}\<rparr>"
| "requirements_for_method SearchBasic c =
     \<lparr>qr_tables = {TableTextUnits}, qr_optional_tables = {}, qr_embeddings = {TextUnitText},
      qr_completion_models = {bsc_completion_model_id (gr_basic_search c)},
      qr_embedding_models = {bsc_embedding_model_id (gr_basic_search c)}, qr_prompts = {PromptBasic}\<rparr>"

end
