(* ===== verification/Query_Engine.thy ===== *)
theory Query_Engine
  imports Basic_Search Query_Config
begin

text \<open>
  The query engine (\<open>query/engine.rs\<close>): request checks (\<open>validate_*_requirements\<close> of
  \<open>query/runtime.rs\<close>), the cache of prepared resources, and a Basic request from start to end.

  A request sees the outside world as it is when it runs: its record \<open>engine_env\<close> has the file system
  and what building a runtime returns. The cache is the only state the requests share; a cell is
  prepared by one request at a time, so requests are taken one after the other. A prepared runtime is
  what \<open>QueryRuntimeFactory\<close> returns without its callbacks.
\<close>

record 'f engine_env =
  en_root :: string
  en_output_dir :: string
  en_config :: "'f query_config"
  en_float :: "'f float_ops"
  en_canonicalize :: "string \<Rightarrow> string + string"
  en_is_dir :: "string \<Rightarrow> string + bool" \<comment> \<open>\<open>metadata\<close>\<close>
  en_is_absolute :: "string \<Rightarrow> bool"
  en_join :: "string \<Rightarrow> string \<Rightarrow> string"

subsection \<open>Request checks\<close>

definition check_level :: "search_method \<Rightarrow> ('s, 'f, 'cb) query_options \<Rightarrow> query_error + unit" where
  "check_level method options =
     (if qo_community_level options < 0
      then Inl (InvalidQueryConfig method ''validate query options'' ''community_level must be non-negative'')
      else Inr ())"

definition validate_basic_requirements :: "'f engine_env \<Rightarrow> ('s, 'f, 'cb) query_options \<Rightarrow> query_error + unit" where
  "validate_basic_requirements env options =
     and_then (check_level SearchBasic options) (\<lambda>_.
       map_err (InvalidQueryConfig SearchBasic ''validate Basic Search config'')
         (basic_config_validate (gr_basic_search (en_config env))))"

definition validate_local_requirements :: "'f engine_env \<Rightarrow> ('s, 'f, 'cb) query_options \<Rightarrow> query_error + unit" where
  "validate_local_requirements env options =
     and_then (check_level SearchLocal options) (\<lambda>_.
     and_then (map_err (InvalidQueryConfig SearchLocal ''validate Local Search config'')
         (local_config_validate (en_float env) (gr_local_search (en_config env)))) (\<lambda>_.
       case qo_conversation_history options of
         None \<Rightarrow> Inr ()
       | Some history \<Rightarrow>
           map_err (InvalidQueryConfig SearchLocal ''validate Local Search conversation history'')
             (conversation_validate history)))"

definition validate_global_requirements :: "'f engine_env \<Rightarrow> ('s, 'f, 'cb) query_options \<Rightarrow> query_error + unit" where
  "validate_global_requirements env options =
     and_then (check_level SearchGlobal options) (\<lambda>_.
     and_then (map_err (InvalidQueryConfig SearchGlobal ''validate Global Search config'')
         (global_config_validate (gr_global_search (en_config env)))) (\<lambda>_.
       if gr_concurrent_requests (en_config env) = 0
       then Inl (InvalidQueryConfig SearchGlobal ''validate Global Search config''
              ''concurrent_requests must be greater than zero'')
       else Inr ()))"

definition validate_drift_requirements :: "'f engine_env \<Rightarrow> ('s, 'f, 'cb) query_options \<Rightarrow> query_error + unit" where
  "validate_drift_requirements env options =
     (if qo_query options = []
      then Inl (InvalidQueryConfig SearchDrift ''validate DRIFT Search query'' ''DRIFT Search query cannot be empty'')
      else and_then (check_level SearchDrift options) (\<lambda>_.
        map_err (InvalidQueryConfig SearchDrift ''validate DRIFT Search config'')
          (drift_config_validate (en_float env) (gr_drift_search (en_config env)))))"

definition canonical_query_root :: "'f engine_env \<Rightarrow> string \<Rightarrow> search_method \<Rightarrow> string \<Rightarrow> query_error + string" where
  "canonical_query_root env root method operation =
     and_then (map_err (\<lambda>source. InvalidQueryConfig method operation
         (''project root must be an existing directory: '' @ source)) (en_canonicalize env root)) (\<lambda>canonical.
     and_then (map_err (\<lambda>source. InvalidQueryConfig method operation
         (''cannot inspect project root: '' @ source)) (en_is_dir env canonical)) (\<lambda>is_dir.
       if \<not> is_dir then Inl (InvalidQueryConfig method operation ''project root must be a directory'')
       else Inr canonical))"

definition validate_project_root :: "'f engine_env \<Rightarrow> ('s, 'f, 'cb) query_options \<Rightarrow> query_error + unit" where
  "validate_project_root env options =
     and_then (canonical_query_root env (en_root env) (qo_method options) ''resolve QueryEngine project root'')
       (\<lambda>engine_root.
     and_then (canonical_query_root env (qo_project_root options) (qo_method options)
         ''resolve QueryOptions project root'') (\<lambda>options_root.
       if engine_root \<noteq> options_root
       then Inl (InvalidQueryConfig (qo_method options) ''validate QueryEngine project root''
              ''QueryOptions project_root does not match the QueryEngine root'')
       else Inr ()))"

subsection \<open>The resource cache\<close>

datatype data_root_key = Canonical string | Unresolved string

record resource_key =
  rk_data_root :: data_root_key
  rk_community_level :: i64
  rk_dynamic_community_selection :: bool

fun is_canonical :: "data_root_key \<Rightarrow> bool" where
  "is_canonical (Canonical _) = True"
| "is_canonical (Unresolved _) = False"

definition is_cacheable :: "resource_key \<Rightarrow> bool" where
  "is_cacheable key = is_canonical (rk_data_root key)"

fun classify_data_root :: "string \<Rightarrow> string + string \<Rightarrow> data_root_key" where
  "classify_data_root unresolved (Inr path) = Canonical path"
| "classify_data_root unresolved (Inl _) = Unresolved unresolved"

definition engine_key ::
  "'f engine_env \<Rightarrow> ('s, 'f, 'cb) query_options \<Rightarrow> bool \<Rightarrow> bool \<Rightarrow> resource_key" where
  "engine_key env options include_community_level dynamic =
     (let unresolved = (case qo_data_dir options of
          None \<Rightarrow> en_output_dir env
        | Some path \<Rightarrow> if en_is_absolute env path then path else en_join env (en_root env) path)
      in \<lparr>rk_data_root = classify_data_root unresolved (en_canonicalize env unresolved),
          rk_community_level = (if include_community_level then qo_community_level options else 0),
          rk_dynamic_community_selection = dynamic\<rparr>)"

text \<open>A cell is empty until a preparation has succeeded.\<close>

type_synonym 'rt runtime_cache = "resource_key \<rightharpoonup> 'rt option"

definition cache_cell :: "'rt runtime_cache \<Rightarrow> resource_key \<Rightarrow> 'rt runtime_cache" where
  "cache_cell cache key = (if key \<in> dom cache then cache else cache(key \<mapsto> None))"

definition get_or_try_init ::
  "resource_key \<Rightarrow> query_error + 'rt \<Rightarrow> 'rt runtime_cache \<Rightarrow> (query_error + 'rt) \<times> 'rt runtime_cache" where
  "get_or_try_init key init cache =
     (case cache key of
        Some (Some runtime) \<Rightarrow> (Inr runtime, cache)
      | _ \<Rightarrow> (case init of
            Inl error \<Rightarrow> (Inl error, cache)
          | Inr runtime \<Rightarrow> (Inr runtime, cache(key \<mapsto> Some runtime))))"

definition resource_options :: "('s, 'f, 'cb) query_options \<Rightarrow> ('s, 'f, 'cb) query_options" where
  "resource_options options =
     options\<lparr>qo_callbacks := [], qo_conversation_history := None, qo_explainability := None\<rparr>"

text \<open>\<open>build\<close> is what the factory returns for some options; the runtime comes with the callbacks of the
  request.\<close>

definition runtime_for_key ::
  "(('s, 'f, 'cb) query_options \<Rightarrow> query_error + 'rt) \<Rightarrow> ('s, 'f, 'cb) query_options \<Rightarrow> resource_key
   \<Rightarrow> 'rt runtime_cache \<Rightarrow> (query_error + 'rt \<times> 'cb list) \<times> 'rt runtime_cache" where
  "runtime_for_key build options key cache =
     map_prod (map_ok (\<lambda>runtime. (runtime, qo_callbacks options))) id
       (if is_cacheable key
        then get_or_try_init key (build (resource_options options)) (cache_cell cache key)
        else (build (resource_options options), cache))"

definition basic_runtime ::
  "'f engine_env \<Rightarrow> (('s, 'f, 'cb) query_options \<Rightarrow> query_error + 'rt) \<Rightarrow> ('s, 'f, 'cb) query_options
   \<Rightarrow> 'rt runtime_cache \<Rightarrow> (query_error + 'rt \<times> 'cb list) \<times> 'rt runtime_cache" where
  "basic_runtime env build options cache =
     run_then (validate_basic_requirements env options, cache) (\<lambda>_.
       runtime_for_key build options (engine_key env options False False))"

definition local_runtime ::
  "'f engine_env \<Rightarrow> (('s, 'f, 'cb) query_options \<Rightarrow> query_error + 'rt) \<Rightarrow> ('s, 'f, 'cb) query_options
   \<Rightarrow> 'rt runtime_cache \<Rightarrow> (query_error + 'rt \<times> 'cb list) \<times> 'rt runtime_cache" where
  "local_runtime env build options cache =
     run_then (validate_local_requirements env options, cache) (\<lambda>_.
       runtime_for_key build options (engine_key env options True False))"

definition global_runtime ::
  "'f engine_env \<Rightarrow> (('s, 'f, 'cb) query_options \<Rightarrow> query_error + 'rt) \<Rightarrow> ('s, 'f, 'cb) query_options
   \<Rightarrow> 'rt runtime_cache \<Rightarrow> (query_error + 'rt \<times> 'cb list) \<times> 'rt runtime_cache" where
  "global_runtime env build options cache =
     run_then (validate_global_requirements env options, cache) (\<lambda>_.
       runtime_for_key build options (engine_key env options True (qo_dynamic_community_selection options)))"

definition drift_runtime ::
  "'f engine_env \<Rightarrow> (('s, 'f, 'cb) query_options \<Rightarrow> query_error + 'rt) \<Rightarrow> ('s, 'f, 'cb) query_options
   \<Rightarrow> 'rt runtime_cache \<Rightarrow> (query_error + 'rt \<times> 'cb list) \<times> 'rt runtime_cache" where
  "drift_runtime env build options cache =
     run_then (validate_drift_requirements env options, cache) (\<lambda>_.
       runtime_for_key build options (engine_key env options True False))"

subsection \<open>A Basic request\<close>

text \<open>The Basic arm of \<open>query_inner\<close>, on the cache and the session state.\<close>

definition query_inner ::
  "'f engine_env \<Rightarrow> (('s, 'f, 'cb) query_options \<Rightarrow> query_error + ('f, 'd, 'v) basic_query_runtime) \<Rightarrow> ('s \<Rightarrow> nat)
   \<Rightarrow> ('s, 'f, 'cb) query_options \<Rightarrow> ('s, 'f) method_explainability option
   \<Rightarrow> ('f, 'd, 'v) basic_query_runtime runtime_cache \<times> 's session_state
   \<Rightarrow> (query_error + 'd query_context query_result) \<times> ('f, 'd, 'v) basic_query_runtime runtime_cache \<times> 's session_state" where
  "query_inner env build llm_elapsed options instrumentation s =
     run_then (validate_project_root env options, s) (\<lambda>_ (cache, st).
     case basic_runtime env build options cache of (runtime, cache) \<Rightarrow>
     run_then (runtime, (cache, st)) (\<lambda>(rt, _) (cache, st).
     case basic_search llm_elapsed rt (qo_query options) (qo_response_type options) instrumentation st of
       (answer, st) \<Rightarrow> (answer, (cache, st))))"

definition query_with_session ::
  "'f engine_env \<Rightarrow> (('s, 'f, 'cb) query_options \<Rightarrow> query_error + ('f, 'd, 'v) basic_query_runtime) \<Rightarrow> ('s \<Rightarrow> nat)
   \<Rightarrow> ('s, 'f, 'cb) query_options \<Rightarrow> ('s, 'f) method_explainability option
   \<Rightarrow> ('f, 'd, 'v) basic_query_runtime runtime_cache \<times> 's session_state
   \<Rightarrow> (graphloom_error + 'd query_context query_result) \<times> ('f, 'd, 'v) basic_query_runtime runtime_cache \<times> 's session_state" where
  "query_with_session env build llm_elapsed options instrumentation s =
     (case query_inner env build llm_elapsed options instrumentation s of
        (Inl error, (cache, st)) \<Rightarrow>
          (Inl (QueryFailed error),
           (cache, instrumentation_finish_graphloom_error instrumentation (QueryFailed error) st))
      | (Inr answer, s) \<Rightarrow> (Inr answer, s))"

definition engine_query ::
  "'f engine_env \<Rightarrow> (('s, 'f, 'cb) query_options \<Rightarrow> query_error + ('f, 'd, 'v) basic_query_runtime)
   \<Rightarrow> ('s \<Rightarrow> datetime) \<Rightarrow> ('s \<Rightarrow> nat) \<Rightarrow> ('s \<Rightarrow> nat) \<Rightarrow> request_spans \<Rightarrow> ('s, 'f, 'cb) query_options
   \<Rightarrow> ('f, 'd, 'v) basic_query_runtime runtime_cache \<times> 's session_state
   \<Rightarrow> (graphloom_error + 'd query_context query_result) \<times> ('f, 'd, 'v) basic_query_runtime runtime_cache \<times> 's session_state" where
  "engine_query env build now elapsed llm_elapsed ids options s =
     (case s of (cache, st) \<Rightarrow>
      case instrumentation_start now elapsed ids options st of (instrumentation, st) \<Rightarrow>
        query_with_session env build llm_elapsed options instrumentation (cache, st))"

end
