(* ===== verification/Query_Session_Laws.thy ===== *)
theory Query_Session_Laws
  imports Query_Session
begin

text \<open>
  What a session does to its sink. Everything between the start and the end of a run is a sequence of
  \<open>sidecar_step\<close>s: a stage record is emitted or a failure is counted. The sequences carry a bound on
  their length, because the failure counter is a 64-bit word. \<open>logged_sink\<close> wraps any sink and keeps the
  calls it received.
\<close>

named_theorems stepping

fun stage_event :: "'f expl_event \<Rightarrow> bool" where
  "stage_event (RunStarted _) = False"
| "stage_event (RunCompleted _) = False"
| "stage_event (RunFailed _) = False"
| "stage_event (QueryStarted _) = False"
| "stage_event _ = True"

inductive sidecar_step :: "('s, 'f) query_session \<Rightarrow> 's session_state \<Rightarrow> 's session_state \<Rightarrow> bool"
  for q :: "('s, 'f) query_session" where
  stage: "stage_event event \<Longrightarrow> sidecar_step q st (session_emit q span parent event st)"
| mark: "sidecar_step q st (mark_sidecar_failure st)"

text \<open>At most \<open>n\<close> steps.\<close>

definition sidecar_steps ::
  "('s, 'f) query_session \<Rightarrow> nat \<Rightarrow> 's session_state \<Rightarrow> 's session_state \<Rightarrow> bool" where
  "sidecar_steps q n st st' \<longleftrightarrow> (\<exists>k \<le> n. (sidecar_step q ^^ k) st st')"

subsection \<open>Sequences of steps\<close>

lemma steps_refl [simp, stepping]: "sidecar_steps q n st st"
  by (auto simp: sidecar_steps_def intro!: exI [of _ 0])

lemma steps_le: "sidecar_steps q m st st' \<Longrightarrow> m \<le> n \<Longrightarrow> sidecar_steps q n st st'"
  by (auto simp: sidecar_steps_def intro: order_trans)

lemma steps_Suc: "sidecar_steps q n st0 st \<Longrightarrow> sidecar_steps q (Suc n) st0 st"
  by (erule steps_le) simp

lemma steps_step: "sidecar_steps q n st0 st \<Longrightarrow> sidecar_step q st st' \<Longrightarrow> sidecar_steps q (Suc n) st0 st'"
  unfolding sidecar_steps_def by (elim exE conjE, rule exI [of _ "Suc _"]) auto

lemma steps_emit [stepping]:
  "sidecar_steps q n st0 st \<Longrightarrow> stage_event event \<Longrightarrow>
   sidecar_steps q (Suc n) st0 (session_emit q span parent event st)"
  by (erule steps_step) (rule sidecar_step.stage)

lemma steps_mark [stepping]:
  "sidecar_steps q n st0 st \<Longrightarrow> sidecar_steps q (Suc n) st0 (mark_sidecar_failure st)"
  by (erule steps_step) (rule sidecar_step.mark)

lemma steps_emit_contract [stepping]:
  "sidecar_steps q n st0 st \<Longrightarrow> (\<And>e. event = Inr e \<Longrightarrow> stage_event e) \<Longrightarrow>
   sidecar_steps q (Suc n) st0 (session_emit_contract q span parent event st)"
  by (auto simp: session_emit_contract_def split: sum.splits intro: stepping)

lemma steps_or_mark [stepping]:
  "or_mark converted st = (v, st') \<Longrightarrow> sidecar_steps q n st0 st \<Longrightarrow> sidecar_steps q (Suc n) st0 st'"
  by (auto simp: or_mark_def split: if_splits intro: stepping steps_Suc)

lemmas conversions = session_usize_to_u64_def session_usize_to_u32_def session_duration_millis_def

lemma steps_terminal:
  assumes "sidecar_steps q n st st'"
  shows "xs_terminal_started st' = xs_terminal_started st"
proof -
  have one: "xs_terminal_started z = xs_terminal_started y" if "sidecar_step q y z" for y z
    using that by cases (auto simp: session_emit_def mark_sidecar_failure_def Let_def split: prod.splits sum.splits)
  have "(sidecar_step q ^^ k) st st' \<Longrightarrow> xs_terminal_started st' = xs_terminal_started st" for k
    by (induction k arbitrary: st') (auto dest: one)
  then show ?thesis using assms by (auto simp: sidecar_steps_def)
qed

subsection \<open>The calls a sink receives\<close>

datatype 'ev sink_call = EmitCall "'ev expl_record" bool | FinishCall run_id

definition logged_sink :: "('s, 'ev) sink \<Rightarrow> ('ev sink_call list \<times> 's, 'ev) sink" where
  "logged_sink k =
     \<lparr>sk_emit = (\<lambda>r (log, s). case sk_emit k r s of (res, s') \<Rightarrow> (res, log @ [EmitCall r (is_ok res)], s')),
      sk_finish_run = (\<lambda>r (log, s). case sk_finish_run k r s of (res, s') \<Rightarrow> (res, log @ [FinishCall r], s'))\<rparr>"

abbreviation calls :: "('ev sink_call list \<times> 's) session_state \<Rightarrow> 'ev sink_call list" where
  "calls st \<equiv> fst (xs_world st)"

definition emit_call :: "'ev expl_record \<times> bool \<Rightarrow> 'ev sink_call" where
  "emit_call ro = EmitCall (fst ro) (snd ro)"

definition rejected :: "('ev expl_record \<times> bool) list \<Rightarrow> nat" where
  "rejected rs = length (filter (\<lambda>ro. \<not> snd ro) rs)"

lemma rejected_simps [simp]:
  "rejected [] = 0" "rejected (ro # rs) = (if snd ro then 0 else 1) + rejected rs"
  "rejected (rs @ rs') = rejected rs + rejected rs'"
  by (simp_all add: rejected_def)

text \<open>One record, emitted to a logged sink.\<close>

lemma emit_logged:
  assumes "qx_sink q = logged_sink k"
  shows "\<exists>r ok. rec_run_id r = qx_run_id q \<and> rec_span_id r = span \<and> rec_event r = event
     \<and> calls (session_emit q span parent event st) = calls st @ [emit_call (r, ok)]
     \<and> xs_delivery_failures (session_emit q span parent event st) =
         xs_delivery_failures st + of_nat (rejected [(r, ok)])
     \<and> xs_terminal_started (session_emit q span parent event st) = xs_terminal_started st"
proof -
  define r where "r = \<lparr>rec_run_id = qx_run_id q, rec_timestamp = qx_now q (xs_world st), rec_span_id = span,
               rec_parent_span_id = parent, rec_event = event\<rparr>"
  obtain log s where w: "xs_world st = (log, s)" by fastforce
  obtain res s' where e: "sk_emit k r s = (res, s')" by fastforce
  have e': "sk_emit k \<lparr>rec_run_id = qx_run_id q, rec_timestamp = qx_now q (log, s), rec_span_id = span,
               rec_parent_span_id = parent, rec_event = event\<rparr> s = (res, s')"
    using e by (simp add: r_def w)
  have "session_emit q span parent event st =
      (if is_ok res then st\<lparr>xs_world := (log @ [EmitCall r True], s')\<rparr>
       else st\<lparr>xs_world := (log @ [EmitCall r False], s'), xs_delivery_failures := xs_delivery_failures st + 1\<rparr>)"
    using assms w e' by (cases res) (simp_all add: session_emit_def logged_sink_def Let_def r_def)
  then show ?thesis
    using w by (intro exI [of _ r] exI [of _ "is_ok res"]) (simp add: r_def emit_call_def)
qed

text \<open>What a sequence of steps leaves in the log: stage records of the run, and a counter that has
  grown by the rejected ones and the failures counted besides.\<close>

definition stage_calls ::
  "('s, 'f) query_session \<Rightarrow> ('f expl_event expl_record \<times> bool) list \<Rightarrow> bool" where
  "stage_calls q rs \<longleftrightarrow> (\<forall>ro \<in> set rs. rec_run_id (fst ro) = qx_run_id q \<and> stage_event (rec_event (fst ro)))"

lemma relpowp_logged:
  assumes k: "qx_sink q = logged_sink k"
  shows "(sidecar_step q ^^ n) st st' \<Longrightarrow> \<exists>rs marks. calls st' = calls st @ map emit_call rs \<and> stage_calls q rs
     \<and> xs_delivery_failures st' = xs_delivery_failures st + of_nat (rejected rs + marks)
     \<and> rejected rs + marks \<le> n"
proof (induction n arbitrary: st')
  case 0
  then show ?case by (intro exI [of _ "[]"] exI [of _ 0]) (simp add: stage_calls_def)
next
  case (Suc n)
  then obtain y where y: "(sidecar_step q ^^ n) st y" "sidecar_step q y st'" by auto
  from Suc.IH [OF y(1)] obtain rs marks where IH: "calls y = calls st @ map emit_call rs" "stage_calls q rs"
    "xs_delivery_failures y = xs_delivery_failures st + of_nat (rejected rs + marks)" "rejected rs + marks \<le> n" by blast
  from y(2) show ?case
  proof cases
    case (stage event span parent)
    obtain r ok where r: "rec_run_id r = qx_run_id q" "rec_event r = event"
       "calls st' = calls y @ [emit_call (r, ok)]"
       "xs_delivery_failures st' = xs_delivery_failures y + of_nat (rejected [(r, ok)])"
      using emit_logged [OF k, of span event parent y] unfolding stage(1) by blast
    show ?thesis
      using IH r stage(2) by (intro exI [of _ "rs @ [(r, ok)]"] exI [of _ marks]) (auto simp: stage_calls_def)
  next
    case mark
    then show ?thesis
      using IH by (intro exI [of _ rs] exI [of _ "Suc marks"]) (simp add: mark_sidecar_failure_def)
  qed
qed

lemma steps_logged:
  assumes "sidecar_steps q n st st'" and "qx_sink q = logged_sink k"
  shows "\<exists>rs lost. calls st' = calls st @ map emit_call rs \<and> stage_calls q rs
     \<and> xs_delivery_failures st' = xs_delivery_failures st + of_nat (rejected rs + lost)
     \<and> rejected rs + lost \<le> n"
  using assms(1) relpowp_logged [OF assms(2), of _ st st'] by (fastforce simp: sidecar_steps_def)

subsection \<open>The end of a run, once\<close>

lemma finish_run_logged:
  "qx_sink q = logged_sink k \<Longrightarrow> calls (session_finish_run q st) = calls st @ [FinishCall (qx_run_id q)]
     \<and> xs_delivery_failures (session_finish_run q st) = xs_delivery_failures st
     \<and> xs_terminal_started (session_finish_run q st) = xs_terminal_started st"
  by (cases "xs_world st") (auto simp: session_finish_run_def logged_sink_def split: prod.splits)

lemma finish_again [simp]:
  assumes "xs_terminal_started st"
  shows "finish_success q st = st" "finish_failure q kind message st = st"
  using assms by (simp_all add: finish_success_def finish_failure_def begin_terminal_def)

lemma finish_failure_logged:
  assumes "\<not> xs_terminal_started st" and k: "qx_sink q = logged_sink k"
  shows "\<exists>r ok. rec_run_id r = qx_run_id q
     \<and> rec_event r = RunFailed \<lparr>rf_error_kind = kind, rf_message = message\<rparr>
     \<and> calls (finish_failure q kind message st) = calls st @ [emit_call (r, ok), FinishCall (qx_run_id q)]
     \<and> xs_delivery_failures (finish_failure q kind message st) =
         xs_delivery_failures st + of_nat (rejected [(r, ok)])
     \<and> xs_terminal_started (finish_failure q kind message st)"
  using emit_logged [OF k, of "qx_root_span q" "RunFailed \<lparr>rf_error_kind = kind, rf_message = message\<rparr>" None
      "st\<lparr>xs_terminal_started := True\<rparr>"] finish_run_logged [OF k] assms(1)
  by (fastforce simp: finish_failure_def begin_terminal_def)

text \<open>A success is reported as one only when nothing was counted against the run.\<close>

lemma finish_success_logged:
  assumes "\<not> xs_terminal_started st" and k: "qx_sink q = logged_sink k"
  shows "\<exists>r ok. rec_run_id r = qx_run_id q
     \<and> rec_event r = (if xs_delivery_failures st = 0 \<and> qx_elapsed q (xs_world st) < 2 ^ 64
         then RunCompleted \<lparr>rc_elapsed_ms = of_nat (qx_elapsed q (xs_world st))\<rparr> else delivery_failed_event)
     \<and> calls (finish_success q st) = calls st @ [emit_call (r, ok), FinishCall (qx_run_id q)]
     \<and> xs_delivery_failures (finish_success q st) = xs_delivery_failures st
         + of_nat ((if qx_elapsed q (xs_world st) < 2 ^ 64 then 0 else 1) + rejected [(r, ok)])
     \<and> xs_terminal_started (finish_success q st)"
proof -
  let ?event = "if xs_delivery_failures st = 0 \<and> qx_elapsed q (xs_world st) < 2 ^ 64
      then RunCompleted \<lparr>rc_elapsed_ms = of_nat (qx_elapsed q (xs_world st))\<rparr> else delivery_failed_event"
  obtain st1 where st1: "finish_success q st = session_finish_run q (session_emit q (qx_root_span q) None ?event st1)"
    "calls st1 = calls st" "xs_terminal_started st1"
    "xs_delivery_failures st1 = xs_delivery_failures st + of_nat (if qx_elapsed q (xs_world st) < 2 ^ 64 then 0 else 1)"
  proof (cases "qx_elapsed q (xs_world st) < 2 ^ 64")
    case True
    then show ?thesis
      using assms(1) by (intro that [of "st\<lparr>xs_terminal_started := True\<rparr>"])
        (simp_all add: finish_success_def begin_terminal_def conversions or_mark_def try_u64_def)
  next
    case False
    then show ?thesis
      using assms(1) by (intro that [of "mark_sidecar_failure (st\<lparr>xs_terminal_started := True\<rparr>)"])
        (simp_all add: finish_success_def begin_terminal_def conversions or_mark_def try_u64_def
          mark_sidecar_failure_def Let_def)
  qed
  obtain r ok where r: "rec_run_id r = qx_run_id q" "rec_event r = ?event"
     "calls (session_emit q (qx_root_span q) None ?event st1) = calls st1 @ [emit_call (r, ok)]"
     "xs_delivery_failures (session_emit q (qx_root_span q) None ?event st1) =
        xs_delivery_failures st1 + of_nat (rejected [(r, ok)])"
     "xs_terminal_started (session_emit q (qx_root_span q) None ?event st1) = xs_terminal_started st1"
    using emit_logged [OF k, of "qx_root_span q" ?event None st1] by blast
  show ?thesis
    using st1 r finish_run_logged [OF k] by (intro exI [of _ r] exI [of _ ok]) (simp del: finish_again)
qed

subsection \<open>The start of a run\<close>

lemma emit_start_logged:
  assumes k: "qx_sink q = logged_sink k"
  shows "\<exists>r1 ok1 r2 ok2. rec_run_id r1 = qx_run_id q \<and> rec_run_id r2 = qx_run_id q
     \<and> rec_event r1 = RunStarted \<lparr>rs_kind = Query, rs_content_mode = qx_content_mode q\<rparr>
     \<and> rec_event r2 = QueryStarted \<lparr>qs_method = qx_method q, qs_query = session_content q query\<rparr>
     \<and> calls (session_emit_start q query st) = calls st @ [emit_call (r1, ok1), emit_call (r2, ok2)]
     \<and> xs_delivery_failures (session_emit_start q query st) =
         xs_delivery_failures st + of_nat (rejected [(r1, ok1), (r2, ok2)])
     \<and> xs_terminal_started (session_emit_start q query st) = xs_terminal_started st"
proof -
  let ?e1 = "RunStarted \<lparr>rs_kind = Query, rs_content_mode = qx_content_mode q\<rparr>"
  let ?e2 = "QueryStarted \<lparr>qs_method = qx_method q, qs_query = session_content q query\<rparr>"
  let ?st1 = "session_emit q (qx_root_span q) None ?e1 st"
  obtain r1 ok1 where r1: "rec_run_id r1 = qx_run_id q" "rec_event r1 = ?e1"
     "calls ?st1 = calls st @ [emit_call (r1, ok1)]"
     "xs_delivery_failures ?st1 = xs_delivery_failures st + of_nat (rejected [(r1, ok1)])"
     "xs_terminal_started ?st1 = xs_terminal_started st"
    using emit_logged [OF k, of "qx_root_span q" ?e1 None st] by blast
  obtain r2 ok2 where r2: "rec_run_id r2 = qx_run_id q" "rec_event r2 = ?e2"
     "calls (session_emit q (qx_root_span q) None ?e2 ?st1) = calls ?st1 @ [emit_call (r2, ok2)]"
     "xs_delivery_failures (session_emit q (qx_root_span q) None ?e2 ?st1) =
        xs_delivery_failures ?st1 + of_nat (rejected [(r2, ok2)])"
     "xs_terminal_started (session_emit q (qx_root_span q) None ?e2 ?st1) = xs_terminal_started ?st1"
    using emit_logged [OF k, of "qx_root_span q" ?e2 None ?st1] by blast
  show ?thesis
    using r1 r2 unfolding session_emit_start_def
    by (intro exI [of _ r1] exI [of _ ok1] exI [of _ r2] exI [of _ ok2]) simp
qed

end
