(* ===== verification/Basic_Search_Laws.thy ===== *)
theory Basic_Search_Laws
  imports Basic_Search Query_Session_Laws
begin

text \<open>
  Basic Search: the context it builds is what a definition without any session says, whichever session
  watches and whatever its sink does; it holds the longest affordable prefix of the matched text units;
  and the records of a search are sidecar steps followed by one end of the run.
\<close>

subsection \<open>The context without a session\<close>

definition basic_matched :: "('f, 'd, 'v) basic_env \<Rightarrow> string \<Rightarrow> query_error + string set \<times> usage" where
  "basic_matched env query =
     (if query = [] then Inr ({}, usage_default)
      else
        and_then (map_err (basic_embedding_error env ''embed Basic Search query'') (be_embed env query)) (\<lambda>(usage, embeddings).
        and_then (resolve_prompt_tokens (be_count env) usage query SearchBasic
                    ''count Basic Search embedding input tokens'' (be_embedding_model_id env)) (\<lambda>prompt_tokens.
        and_then (case embeddings of
            [] \<Rightarrow> Inl (basic_embedding_error env ''read Basic Search query embedding'' ''provider returned no query embedding'')
          | vector # _ \<Rightarrow>
              if be_vector_finite env vector then Inr vector
              else Inl (basic_embedding_error env ''validate Basic Search query embedding''
                     ''provider returned a non-finite query embedding'')) (\<lambda>vector.
        and_then (map_err (basic_search_error env) (be_search env vector (be_k env))) (\<lambda>results.
          Inr (fst ` set results,
               \<lparr>us_llm_calls = 1, us_prompt_tokens = prompt_tokens, us_output_tokens = 0\<rparr>))))))"

definition basic_candidates :: "('f, 'd, 'v) basic_env \<Rightarrow> string set \<Rightarrow> text_unit list" where
  "basic_candidates env ids = filter (\<lambda>u. tu_id u \<in> ids) (be_text_units env)"

definition basic_context :: "('f, 'd, 'v) basic_env \<Rightarrow> string \<Rightarrow> query_error + 'd basic_built" where
  "basic_context env query =
     and_then (basic_matched env query) (\<lambda>(ids, usage).
     and_then (within_budget env (basic_candidates env ids)) (\<lambda>fitted.
     and_then (render_sources env (bb_selected fitted)) (\<lambda>context_text.
     and_then (map_err (QueryContext SearchBasic ''build Sources records'')
         (fr_new (be_frames env) (length (bb_selected fitted))
            [(''id'', map tu_short_id (bb_selected fitted)), (''text'', map tu_text (bb_selected fitted))])) (\<lambda>records.
       Inr \<lparr>bu_context = \<lparr>qc_text = Text context_text, qc_records = RecordTables [(''sources'', records)]\<rparr>,
            bu_usage = usage\<rparr>))))"

lemma fst_run_then:
  "fst (run_then (r, st) f) = (case r of Inl e \<Rightarrow> Inl e | Inr x \<Rightarrow> fst (f x st))"
  by (cases r) simp_all

lemma run_then_steps:
  "sidecar_steps q m st0 (snd p) \<Longrightarrow> m \<le> n \<Longrightarrow>
   (\<And>x st. p = (Inr x, st) \<Longrightarrow> sidecar_steps q m st0 st \<Longrightarrow> sidecar_steps q n st0 (snd (f x st))) \<Longrightarrow>
   sidecar_steps q n st0 (snd (run_then p f))"
  by (cases "(p, f)" rule: run_then.cases) (auto intro: steps_le)

lemma run_then_value_steps:
  "sidecar_steps q m st0 st \<Longrightarrow> m \<le> n \<Longrightarrow> (\<And>x. r = Inr x \<Longrightarrow> sidecar_steps q n st0 (snd (f x st))) \<Longrightarrow>
   sidecar_steps q n st0 (snd (run_then (r, st) f))"
  by (rule run_then_steps [where m = m]) auto

lemma basic_retrieve_result:
  "query \<noteq> [] \<Longrightarrow>
   map_ok (\<lambda>r. (bt_matched_ids r, bt_usage r)) (fst (basic_retrieve env query h st)) = basic_matched env query"
  by (cases "be_embed env query")
    (auto simp: basic_retrieve_def basic_matched_def fst_run_then Let_def and_then_case
      split: sum.splits prod.splits list.splits)

lemma map_ok_eq_cases:
  "map_ok d r = r' \<Longrightarrow> (\<exists>e. r = Inl e \<and> r' = Inl e) \<or> (\<exists>x. r = Inr x \<and> r' = Inr (d x))"
  by (cases r) auto

lemma basic_build_result: "fst (basic_build env query h st) = basic_context env query"
proof (cases "query = []")
  case True
  then show ?thesis
    by (simp add: basic_build_def basic_context_def basic_matched_def basic_candidates_def fst_run_then Let_def
        and_then_case split: sum.splits)
next
  case False
  obtain r st1 where r: "basic_retrieve env query h st = (r, st1)" by fastforce
  from map_ok_eq_cases [OF basic_retrieve_result [OF False, of env h st]] show ?thesis
    using False
    by (auto simp: r basic_build_def basic_context_def basic_candidates_def fst_run_then Let_def and_then_case
        split: sum.splits)
qed

subsection \<open>The records of building it\<close>

lemma steps_conversions [stepping]:
  "session_usize_to_u64 c st = (v, st') \<Longrightarrow> sidecar_steps q n st0 st \<Longrightarrow> sidecar_steps q (Suc n) st0 st'"
  "session_usize_to_u32 c st = (w, st') \<Longrightarrow> sidecar_steps q n st0 st \<Longrightarrow> sidecar_steps q (Suc n) st0 st'"
  "session_duration_millis d st = (v, st') \<Longrightarrow> sidecar_steps q n st0 st \<Longrightarrow> sidecar_steps q (Suc n) st0 st'"
  unfolding conversions by (rule steps_or_mark; assumption)+

lemma emit_embedding_started_steps:
  "sidecar_steps q n st0 st \<Longrightarrow> sidecar_steps q (n + 1) st0 (emit_embedding_started env query (q, spans) st)"
  by (auto simp: emit_embedding_started_def intro: stepping)

lemma emit_embedding_completed_steps:
  assumes "sidecar_steps q n st0 st"
  shows "sidecar_steps q (n + 3) st0 (emit_embedding_completed env tokens len (q, spans) st)"
proof -
  obtain v1 st1 v2 st2 where c: "session_usize_to_u64 tokens st = (v1, st1)" "session_usize_to_u32 len st1 = (v2, st2)"
    by (metis prod.exhaust)
  have st2: "sidecar_steps q (Suc (Suc n)) st0 st2"
    by (rule steps_conversions(2) [OF c(2)] steps_conversions(1) [OF c(1)] assms)+
  then have "sidecar_steps q (n + 3) st0 st2" by (rule steps_le) simp
  with st2 show ?thesis
    by (auto simp: emit_embedding_completed_def c eval_nat_numeral split: option.splits intro!: steps_emit)
qed

lemma retrieved_loop_steps:
  "sidecar_steps q n st0 st \<Longrightarrow>
   sidecar_steps q (n + 2 * length results) st0 (snd (retrieved_loop env results candidates metadata st))"
proof (induction results arbitrary: candidates metadata st n)
  case (Cons r results)
  obtain index i score where r: "r = (index, i, score)" by (metis prod.exhaust)
  obtain rank st1 where c: "session_usize_to_u32 (usize_sat_add index 1) st = (rank, st1)" by fastforce
  have "sidecar_steps q (Suc (Suc n)) st0 (if be_score_finite env score then st1 else mark_sidecar_failure st1)"
    using steps_conversions(2) [OF c Cons.prems] by (auto intro: stepping steps_Suc)
  from Cons.IH [OF this] show ?case
    by (auto simp: r c [simplified] Let_def split: if_splits)
qed simp

lemma emit_retrieved_steps:
  assumes "emit_retrieved_candidates env (Some (q, spans)) results st = (m, st')" "sidecar_steps q n st0 st"
  shows "sidecar_steps q (n + 2 * length results + 1) st0 st'"
proof -
  obtain candidates metadata st1
    where l: "retrieved_loop env (enumerate_from 0 results) [] Map.empty st = ((candidates, metadata), st1)"
    by (metis prod.exhaust)
  have "sidecar_steps q (n + 2 * length results) st0 st1"
    using retrieved_loop_steps [OF assms(2), of "enumerate_from 0 results" env "[]" Map.empty] l
    by (simp add: enumerate_from_conv)
  then show ?thesis
    using assms(1) by (auto simp: emit_retrieved_candidates_def l intro!: steps_emit_contract dest: map_ok_eq_cases)
qed

lemma emit_context_steps:
  "sidecar_steps q n st0 st \<Longrightarrow> sidecar_steps q (n + 1) st0 (emit_retrieval_skipped (q, spans) st)"
  "sidecar_steps q n st0 st \<Longrightarrow> sidecar_steps q (n + 2) st0 (emit_context_budget env (q, spans) st)"
  "sidecar_steps q n st0 st \<Longrightarrow>
   sidecar_steps q (n + 1) st0 (emit_filtered_candidates (Some (q, spans)) cs k metadata st)"
  by (auto simp: emit_retrieval_skipped_def emit_context_budget_def emit_filtered_candidates_def eval_nat_numeral
      split: prod.splits option.splits
      intro!: steps_emit_contract intro: stepping steps_Suc dest: map_ok_eq_cases)

lemma emit_context_completed_steps:
  assumes "sidecar_steps q n st0 st"
  shows "sidecar_steps q (n + 6) st0 (emit_context_completed env cs fitted context_text (q, spans) st)"
proof -
  obtain v1 st1 v2 st2 v3 st3 v4 st4 where
    c: "session_usize_to_u64 (be_max_context_tokens env) st = (v1, st1)"
      "session_usize_to_u64 (bb_tokens_used fitted) st1 = (v2, st2)"
      "session_usize_to_u64 (length cs) st2 = (v3, st3)"
      "session_usize_to_u64 (length (bb_selected fitted)) st3 = (v4, st4)"
    by (metis prod.exhaust)
  have st4: "sidecar_steps q (Suc (Suc (Suc (Suc n)))) st0 st4" by (rule c [THEN steps_conversions(1)] assms)+
  then have "sidecar_steps q (n + 6) st0 st4" by (rule steps_le) simp
  with st4 show ?thesis
    by (auto simp: emit_context_completed_def c eval_nat_numeral split: option.splits intro!: steps_emit)
qed

text \<open>Building a context takes at most two steps for each result of the vector search, and a few more.\<close>

definition search_bounded :: "('f, 'd, 'v) basic_env \<Rightarrow> nat \<Rightarrow> bool" where
  "search_bounded env bound \<longleftrightarrow> (\<forall>v k results. be_search env v k = Inr results \<longrightarrow> length results \<le> bound)"

lemma basic_retrieve_steps:
  assumes "sidecar_steps q n st0 st" and bounded: "search_bounded env bound"
  shows "sidecar_steps q (n + 2 * bound + 5) st0 (snd (basic_retrieve env query (Some (q, spans)) st))"
proof -
  note started = emit_embedding_started_steps [OF assms(1), of env query spans]
  have completed: "sidecar_steps q (n + 4) st0
      (emit_embedding_completed env tokens len (q, spans) (emit_embedding_started env query (q, spans) st))" for tokens len
    using emit_embedding_completed_steps [OF started, of env tokens len spans] by (simp add: add.commute)
  have retrieved: "sidecar_steps q (n + 2 * bound + 5) st0 st'"
    if "emit_retrieved_candidates env (Some (q, spans)) results st1 = (m, st')" "sidecar_steps q (n + 4) st0 st1"
      "be_search env v (be_k env) = Inr results" for results st1 m st' v
  proof -
    have "length results \<le> bound" using bounded that(3) unfolding search_bounded_def by blast
    then show ?thesis by (intro steps_le [OF emit_retrieved_steps [OF that(1,2)]]) simp
  qed
  show ?thesis
    unfolding basic_retrieve_def Let_def if_some.simps
    by (auto intro!: run_then_value_steps [OF started] run_then_value_steps [OF completed]
        intro: retrieved [OF _ completed] split: prod.splits)
qed

lemma basic_build_steps:
  assumes "sidecar_steps q n st0 st" and bounded: "search_bounded env bound"
  shows "sidecar_steps q (n + 2 * bound + 14) st0 (snd (basic_build env query (Some (q, spans)) st))"
proof -
  let ?n = "n + 2 * bound + 5"
  have skipped: "sidecar_steps q ?n st0 (emit_retrieval_skipped (q, spans) st)"
    by (rule steps_le [OF emit_context_steps(1) [OF assms(1)]]) simp
  have ids: "sidecar_steps q ?n st0 (snd (if query = [] then
          (Inr \<lparr>bt_matched_ids = {}, bt_usage = usage_default,
                bt_metadata_by_id = (if Some (q, spans) = None then None else Some Map.empty)\<rparr>,
           emit_retrieval_skipped (q, spans) st)
        else basic_retrieve env query (Some (q, spans)) st))"
    using skipped basic_retrieve_steps [OF assms] by simp
  have budget: "sidecar_steps q (?n + 2) st0 (emit_context_budget env (q, spans) st1)"
    if "sidecar_steps q ?n st0 st1" for st1 by (rule emit_context_steps(2) [OF that])
  have filtered: "sidecar_steps q (?n + 3) st0 (emit_filtered_candidates (Some (q, spans)) cs k m st1)"
    if "sidecar_steps q (?n + 2) st0 st1" for cs k m st1 using emit_context_steps(3) [OF that] by simp
  have completed: "sidecar_steps q (n + 2 * bound + 14) st0 (emit_context_completed env cs fitted rendered (q, spans) st1)"
    if "sidecar_steps q (?n + 3) st0 st1" for cs fitted rendered st1
    by (rule steps_le [OF emit_context_completed_steps [OF that]]) simp
  show ?thesis
    unfolding basic_build_def Let_def if_some.simps
  proof (rule run_then_steps [OF ids])
    fix x st1
    assume "sidecar_steps q ?n st0 st1"
    note budget = budget [OF this]
    note filtered = filtered [OF budget]
    note completed = completed [OF filtered]
    show "sidecar_steps q (n + 2 * bound + 14) st0 (snd (run_then (within_budget env
        (filter (\<lambda>u. tu_id u \<in> bt_matched_ids x) (be_text_units env)), emit_context_budget env (q, spans) st1)
       (\<lambda>fitted st. run_then (render_sources env (bb_selected fitted),
           emit_filtered_candidates (Some (q, spans)) (filter (\<lambda>u. tu_id u \<in> bt_matched_ids x) (be_text_units env))
             (length (bb_selected fitted)) (bt_metadata_by_id x) st)
         (\<lambda>context_text st. run_then (map_err (QueryContext SearchBasic ''build Sources records'')
             (fr_new (be_frames env) (length (bb_selected fitted))
               [(''id'', map tu_short_id (bb_selected fitted)), (''text'', map tu_text (bb_selected fitted))]),
             emit_context_completed env (filter (\<lambda>u. tu_id u \<in> bt_matched_ids x) (be_text_units env)) fitted
               context_text (q, spans) st)
           (\<lambda>records st. (Inr \<lparr>bu_context = \<lparr>qc_text = Text context_text, qc_records = RecordTables [(''sources'', records)]\<rparr>,
              bu_usage = bt_usage x\<rparr>, st))))))"
      by (intro run_then_value_steps [OF budget] run_then_value_steps [OF filtered] run_then_value_steps [OF completed])
        (simp_all add: completed)
  qed simp
qed


subsection \<open>The longest affordable prefix\<close>

text \<open>The tokens of the header and of the rows, summed as the code sums them.\<close>

definition token_count :: "('f, 'd, 'v) basic_env \<Rightarrow> string \<Rightarrow> nat" where
  "token_count env s = (case be_count env s of Inl _ \<Rightarrow> 0 | Inr n \<Rightarrow> n)"

definition sources_tokens :: "('f, 'd, 'v) basic_env \<Rightarrow> text_unit list \<Rightarrow> usize" where
  "sources_tokens env us =
     foldl (\<lambda>tokens u. usize_sat_add tokens (token_count env (sources_row u)))
       (token_count env (''id|text'' @ [CHR 0x0A])) us"

lemma budget_loop_prefix:
  assumes "budget_loop env us selected (foldl (\<lambda>t u. usize_sat_add t (token_count env (sources_row u))) t0 us0) =
     Inr (selected', tokens)"
  shows "\<exists>n \<le> length us. selected' = selected @ take n us
     \<and> tokens = foldl (\<lambda>t u. usize_sat_add t (token_count env (sources_row u))) t0 (us0 @ take n us)
     \<and> (0 < n \<longrightarrow> tokens \<le> be_max_context_tokens env)
     \<and> (n < length us \<longrightarrow> be_max_context_tokens env <
          foldl (\<lambda>t u. usize_sat_add t (token_count env (sources_row u))) t0 (us0 @ take (Suc n) us))"
  using assms
proof (induction us arbitrary: selected us0)
  case (Cons u us)
  let ?sum = "foldl (\<lambda>t u. usize_sat_add t (token_count env (sources_row u))) t0"
  obtain row_tokens where r: "be_count env (sources_row u) = Inr row_tokens"
    using Cons.prems by (cases "be_count env (sources_row u)") simp_all
  then have tc: "token_count env (sources_row u) = row_tokens" by (simp add: token_count_def)
  show ?case
  proof (cases "be_max_context_tokens env < usize_sat_add (?sum us0) row_tokens")
    case True
    then show ?thesis using Cons.prems r tc by (intro exI [of _ 0]) simp
  next
    case False
    then have rec: "budget_loop env us (selected @ [u]) (?sum (us0 @ [u])) = Inr (selected', tokens)"
      using Cons.prems r tc by simp
    obtain n where n: "n \<le> length us" "selected' = (selected @ [u]) @ take n us"
       "tokens = ?sum ((us0 @ [u]) @ take n us)" "0 < n \<longrightarrow> tokens \<le> be_max_context_tokens env"
       "n < length us \<longrightarrow> be_max_context_tokens env < ?sum ((us0 @ [u]) @ take (Suc n) us)"
      using Cons.IH [OF rec] by blast
    then show ?thesis using False tc by (intro exI [of _ "Suc n"]) auto
  qed
qed simp

text \<open>C22: The Sources context holds the longest affordable prefix: of the text units the vector index
  matched, in table order, it takes the first \<open>n\<close>, where the rows of the first \<open>n\<close> fit the token budget
  with the header and the rows of the first \<open>n + 1\<close> do not; the text is the CSV of exactly those units,
  and the records are their identifiers and texts.\<close>

theorem basic_context_longest_prefix:
  assumes "fst (basic_build env query explainability st) = Inr built"
  shows "\<exists>ids n body records. map_ok fst (basic_matched env query) = Inr ids
     \<and> n \<le> length (basic_candidates env ids)
     \<and> (0 < n \<longrightarrow> sources_tokens env (take n (basic_candidates env ids)) \<le> be_max_context_tokens env)
     \<and> (n < length (basic_candidates env ids) \<longrightarrow>
          be_max_context_tokens env < sources_tokens env (take (Suc n) (basic_candidates env ids)))
     \<and> render_sources env (take n (basic_candidates env ids)) = Inr body
     \<and> fr_new (be_frames env) n [(''id'', map tu_short_id (take n (basic_candidates env ids))),
           (''text'', map tu_text (take n (basic_candidates env ids)))] = Inr records
     \<and> bu_context built = \<lparr>qc_text = Text body, qc_records = RecordTables [(''sources'', records)]\<rparr>"
proof -
  obtain ids usage fitted body records where b: "basic_matched env query = Inr (ids, usage)"
    "within_budget env (basic_candidates env ids) = Inr fitted"
    "render_sources env (bb_selected fitted) = Inr body"
    "fr_new (be_frames env) (length (bb_selected fitted)) [(''id'', map tu_short_id (bb_selected fitted)),
           (''text'', map tu_text (bb_selected fitted))] = Inr records"
    "bu_context built = \<lparr>qc_text = Text body, qc_records = RecordTables [(''sources'', records)]\<rparr>"
    using assms by (auto simp: basic_build_result basic_context_def and_then_Inr_iff split: prod.splits)
  obtain tokens where t: "be_count env (''id|text'' @ [CHR 0x0A]) = Inr tokens"
    "\<exists>used. budget_loop env (basic_candidates env ids) [] tokens = Inr (bb_selected fitted, used)"
    using b(2) by (auto simp: within_budget_def and_then_Inr_iff)
  then obtain used where l: "budget_loop env (basic_candidates env ids) []
      (foldl (\<lambda>t u. usize_sat_add t (token_count env (sources_row u))) (token_count env (''id|text'' @ [CHR 0x0A])) []) =
      Inr (bb_selected fitted, used)" by (auto simp: token_count_def)
  from budget_loop_prefix [OF l] obtain n where n: "n \<le> length (basic_candidates env ids)"
    "bb_selected fitted = take n (basic_candidates env ids)"
    "used = sources_tokens env (take n (basic_candidates env ids))"
    "0 < n \<longrightarrow> used \<le> be_max_context_tokens env"
    "n < length (basic_candidates env ids) \<longrightarrow>
       be_max_context_tokens env < sources_tokens env (take (Suc n) (basic_candidates env ids))"
    by (auto simp: sources_tokens_def)
  show ?thesis
    using b n by (intro exI [of _ ids] exI [of _ n] exI [of _ body] exI [of _ records]) simp
qed


definition sample_unit :: "string \<Rightarrow> text_unit" where
  "sample_unit i =
     \<lparr>tu_id = ''unit'' @ i, tu_short_id = i, tu_text = ''abc'', tu_entity_ids = [], tu_relationship_ids = [],
      tu_covariate_ids = [], tu_n_tokens = None, tu_document_id = None\<rparr>"

definition sample_basic_env :: "usize \<Rightarrow> (nat, (string \<times> string list) list, nat) basic_env" where
  "sample_basic_env budget =
     \<lparr>be_k = 2, be_max_context_tokens = budget, be_text_units = map sample_unit [''1'', ''2'', ''3''],
      be_embed = (\<lambda>_. Inr (0, [7])), be_vector_finite = (\<lambda>_. True), be_vector_len = (\<lambda>_. 1),
      be_embedding_model_id = ''embed'', be_search = (\<lambda>_ _. Inr [(''unit3'', 5), (''unit1'', 4)]),
      be_score_finite = (\<lambda>_. True), be_index_name = ''text_unit_text'', be_count = (\<lambda>s. Inr (length s)),
      be_csv = (\<lambda>records. Inr (concat (concat records))),
      be_frames = \<lparr>fr_empty = [], fr_new = (\<lambda>_ columns. Inr columns)\<rparr>\<rparr>"

theorem basic_context_longest_prefix_witness:
  "\<exists>ids n body. map_ok fst (basic_matched (sample_basic_env 16) ''q'') = Inr ids
     \<and> n \<le> length (basic_candidates (sample_basic_env 16) ids)
     \<and> (0 < n \<longrightarrow> sources_tokens (sample_basic_env 16) (take n (basic_candidates (sample_basic_env 16) ids)) \<le> 16)
     \<and> (n < length (basic_candidates (sample_basic_env 16) ids) \<longrightarrow>
          16 < sources_tokens (sample_basic_env 16) (take (Suc n) (basic_candidates (sample_basic_env 16) ids)))
     \<and> Text body = Text ''idtext1abc''"
proof -
  obtain built where built: "fst (basic_build (sample_basic_env 16) ''q''
      (None :: (unit, nat) basic_handle option) (session_state_new ())) = Inr built"
    "qc_text (bu_context built) = Text ''idtext1abc''"
    by (simp add: basic_build_def basic_retrieve_def sample_basic_env_def sample_unit_def resolve_prompt_tokens_def
        emit_retrieved_candidates_def emit_filtered_candidates_def within_budget_def sources_row_def
        usize_sat_add_def usize_max_def render_sources_def pandas_escape_field_def)
  have "be_max_context_tokens (sample_basic_env 16) = 16" by (simp add: sample_basic_env_def)
  then show ?thesis using basic_context_longest_prefix [OF built(1)] built(2) by auto
qed

subsection \<open>The search without a session\<close>

definition basic_events ::
  "('f, 'd, 'v) basic_query_runtime \<Rightarrow> string \<Rightarrow> string \<Rightarrow> query_error + 'd stream_item list" where
  "basic_events rt query response_type =
     and_then (basic_context (br_context rt) query) (\<lambda>built.
     and_then (basic_context_text (qc_text (bu_context built))) (\<lambda>context_text.
     and_then (map_err (QueryPrompt SearchBasic ''render Basic Search prompt'' ''basic_search_system_prompt.txt'')
          (br_prompt rt context_text response_type)) (\<lambda>rendered.
     and_then (count_messages (basic_count rt) 0 [rendered, query]) (\<lambda>prompt_tokens.
     and_then (map_err (InvalidQueryConfig SearchBasic ''build Basic Search completion request'')
          (br_request rt rendered query)) (\<lambda>_.
     and_then (map_err (QueryCompletion SearchBasic ''start Basic Search completion stream'' (br_completion_model_id rt))
          (br_stream rt rendered query)) (\<lambda>provider.
       Inr (completion_event_stream (be_count (br_context rt)) (basic_stream_config rt built prompt_tokens) provider)))))))"

fun stream_result :: "'d stream_item list \<Rightarrow> query_error + 'd query_context query_result" where
  "stream_result [] = Inl aggregate_error"
| "stream_result (Inl e # _) = Inl e"
| "stream_result (Inr (CompletedEvent r) # _) = Inr r"
| "stream_result (Inr _ # es) = stream_result es"

definition basic_answer ::
  "('f, 'd, 'v) basic_query_runtime \<Rightarrow> string \<Rightarrow> string \<Rightarrow> query_error + 'd query_context query_result" where
  "basic_answer rt query response_type = and_then (basic_events rt query response_type) stream_result"

lemma prepare_basic_stream_result:
  "fst (prepare_basic_stream llm_elapsed rt query response_type instrumentation st) =
     map_ok (\<lambda>es. \<lparr>bz_events = es, bz_instrumentation = instrumentation, bz_llm_elapsed = llm_elapsed,
                   bz_completion_model_id = br_completion_model_id rt\<rparr>) (basic_events rt query response_type)"
proof -
  obtain r st1 where b: "basic_build (br_context rt) query (basic_explainability instrumentation) st = (r, st1)"
    by fastforce
  then have r: "basic_context (br_context rt) query = r"
    using basic_build_result [of "br_context rt" query "basic_explainability instrumentation" st] by simp
  show ?thesis
    by (cases r) (auto simp: prepare_basic_stream_def basic_events_def b r fst_run_then Let_def and_then_case
        split: sum.splits)
qed

lemma emit_llm_started_steps:
  "sidecar_steps q n st0 st \<Longrightarrow>
   sidecar_steps q (Suc (Suc n)) st0 (emit_llm_started rt rendered tokens (q, spans) st)"
  by (auto simp: emit_llm_started_def split: prod.splits option.splits intro: stepping steps_Suc)

lemma prepare_basic_stream_steps:
  assumes "sidecar_steps q n st0 st" and "search_bounded (br_context rt) bound"
  shows "sidecar_steps q (n + 2 * bound + 16) st0
    (snd (prepare_basic_stream llm_elapsed rt query response_type (Some (BasicHandle q spans)) st))"
proof -
  let ?n = "n + 2 * bound + 14"
  have llm: "sidecar_steps q (n + 2 * bound + 16) st0 (emit_llm_started rt rendered tokens (q, spans) st')"
    if "sidecar_steps q ?n st0 st'" for rendered tokens st'
    by (rule steps_le [OF emit_llm_started_steps [OF that]]) simp
  have built: "sidecar_steps q ?n st0 (snd (basic_build (br_context rt) query (Some (q, spans)) st))"
    by (rule basic_build_steps [OF assms])
  show ?thesis
    unfolding prepare_basic_stream_def Let_def basic_explainability.simps if_some.simps
    by (rule run_then_steps [OF built])
      (auto intro!: run_then_value_steps [where m = ?n] run_then_value_steps [OF llm] intro: llm)
qed

lemma emit_llm_completed_steps:
  assumes "sidecar_steps q n st0 st"
  shows "sidecar_steps q (n + 4) st0 (emit_llm_completed i llm_elapsed r (q, spans) st)"
proof (cases "map_of (qu_categories (qr_usage r)) ''response''")
  case None
  have "sidecar_steps q (Suc n) st0 (mark_sidecar_failure st)" by (rule steps_mark [OF assms])
  then show ?thesis by (auto simp: emit_llm_completed_def None intro: steps_le)
next
  case (Some usage)
  obtain v1 st1 v2 st2 v3 st3 where
    c: "session_usize_to_u64 (us_prompt_tokens usage) st = (v1, st1)"
      "session_usize_to_u64 (us_output_tokens usage) st1 = (v2, st2)"
      "session_duration_millis (llm_elapsed (xs_world st2)) st2 = (v3, st3)"
    by (metis prod.exhaust)
  have st3: "sidecar_steps q (Suc (Suc (Suc n))) st0 st3"
    by (rule steps_conversions(3) [OF c(3)] steps_conversions(1) [OF c(2)] steps_conversions(1) [OF c(1)] assms)+
  then have "sidecar_steps q (n + 4) st0 st3" by (rule steps_le) simp
  with st3 show ?thesis
    by (auto simp: emit_llm_completed_def Some c eval_nat_numeral split: option.splits intro!: steps_emit)
qed

text \<open>Reading the stream to its completion: its result, and one end of the run.\<close>

lemma basic_search_loop_result: "fst (basic_search_loop (Some state) st) = stream_result (bz_events state)"
proof (induction "bz_events state" arbitrary: state)
  case Nil
  then show ?case by (subst basic_search_loop.simps) (simp add: Let_def)
next
  case (Cons e es)
  then show ?case
    using Cons.hyps(1) [of "state\<lparr>bz_events := es\<rparr>"]
    by (subst basic_search_loop.simps) (auto simp: Let_def split: sum.splits query_event.splits list.splits)
qed

lemma basic_search_loop_end:
  assumes "bz_instrumentation state = Some (BasicHandle q spans)" "sidecar_steps q n st0 st"
  shows "\<exists>st1. sidecar_steps q (n + 4) st0 st1 \<and> snd (basic_search_loop (Some state) st) =
     (case stream_result (bz_events state) of Inr _ \<Rightarrow> finish_success q st1 | Inl e \<Rightarrow> finish_query_error q e st1)"
  using assms
proof (induction "bz_events state" arbitrary: state)
  case Nil
  then show ?case
    by (subst basic_search_loop.simps)
      (auto simp: Let_def instrumentation_finish_stream_ended_def finish_stream_ended_def finish_query_error_def
        aggregate_error_def intro!: exI [of _ st] intro: steps_le)
next
  case (Cons e es)
  show ?case
  proof (cases "\<exists>ev. e = Inr ev \<and> (\<forall>r. ev \<noteq> CompletedEvent r)")
    case True
    then obtain ev where e: "e = Inr ev" "\<forall>r. ev \<noteq> CompletedEvent r" by blast
    have "basic_search_loop (Some state) st = basic_search_loop (Some (state\<lparr>bz_events := es\<rparr>)) st"
      using e Cons.hyps(2) [symmetric]
      by (subst basic_search_loop.simps) (cases ev; simp add: Let_def)
    moreover have "stream_result (bz_events state) = stream_result es"
      using e Cons.hyps(2) [symmetric] by (cases ev) simp_all
    ultimately show ?thesis
      using Cons.hyps(1) [of "state\<lparr>bz_events := es\<rparr>"] Cons.prems by simp
  next
    case False
    then consider (error) x where "e = Inl x" | (finished) r where "e = Inr (CompletedEvent r)"
      by (cases e) auto
    then show ?thesis
    proof cases
      case error
      then show ?thesis
        using Cons.hyps(2) [symmetric] Cons.prems
        by (subst basic_search_loop.simps)
          (auto simp: Let_def instrumentation_finish_query_error_def intro!: exI [of _ st] intro: steps_le)
    next
      case finished
      then show ?thesis
        using Cons.hyps(2) [symmetric] Cons.prems
        by (subst basic_search_loop.simps)
          (auto simp: Let_def instrumentation_finish_success_def intro!: emit_llm_completed_steps)
    qed
  qed
qed

lemma basic_search_result:
  "fst (basic_search llm_elapsed rt query response_type instrumentation st) = basic_answer rt query response_type"
proof -
  obtain r st1 where p: "prepare_basic_stream llm_elapsed rt query response_type instrumentation st = (r, st1)"
    by fastforce
  from prepare_basic_stream_result [of llm_elapsed rt query response_type instrumentation st] show ?thesis
    by (cases "basic_events rt query response_type")
      (auto simp: basic_search_def basic_search_streaming_def basic_answer_def p basic_search_loop_result)
qed

lemma basic_search_end:
  fixes st :: "'s session_state"
  assumes "search_bounded (br_context rt) bound"
  shows "\<exists>st1. sidecar_steps q (2 * bound + 20) st st1 \<and>
     snd (basic_search llm_elapsed rt query response_type (Some (BasicHandle q spans)) st) =
       (case basic_answer rt query response_type of
          Inr _ \<Rightarrow> finish_success q st1 | Inl e \<Rightarrow> finish_query_error q e st1)"
proof -
  let ?h = "Some (BasicHandle q spans)"
  obtain r st1 where p: "prepare_basic_stream llm_elapsed rt query response_type ?h st = (r, st1)"
    by fastforce
  have st1: "sidecar_steps q (2 * bound + 16) st st1"
    using prepare_basic_stream_steps [OF steps_refl assms, of q 0 st llm_elapsed query response_type spans] p by simp
  have r: "r = map_ok (\<lambda>es. \<lparr>bz_events = es, bz_instrumentation = ?h, bz_llm_elapsed = llm_elapsed,
                   bz_completion_model_id = br_completion_model_id rt\<rparr>) (basic_events rt query response_type)"
    using prepare_basic_stream_result [of llm_elapsed rt query response_type ?h st] p by simp
  show ?thesis
  proof (cases "basic_events rt query response_type")
    case (Inl e)
    then show ?thesis
      using steps_le [OF st1, of "2 * bound + 20"] p r
      by (auto simp: basic_search_def basic_search_streaming_def basic_answer_def
          instrumentation_finish_query_error_def)
  next
    case (Inr es)
    then show ?thesis
      using basic_search_loop_end [of "\<lparr>bz_events = es, bz_instrumentation = ?h, bz_llm_elapsed = llm_elapsed,
                   bz_completion_model_id = br_completion_model_id rt\<rparr>" q spans "2 * bound + 16" st st1] st1 p r
      by (auto simp: basic_search_def basic_search_streaming_def basic_answer_def add.commute)
  qed
qed

end
