(* ===== verification/Query_Engine_Laws.thy ===== *)
theory Query_Engine_Laws
  imports Query_Engine Basic_Search_Laws
begin

text \<open>
  The engine: prepared resources are a snapshot per key, explaining a request changes neither its
  answer nor the cache, and an explained request reports exactly one run.
\<close>

subsection \<open>Snapshots\<close>

type_synonym ('s, 'f, 'cb, 'rt) engine_request =
  "'f engine_env \<times> (('s, 'f, 'cb) query_options \<Rightarrow> query_error + 'rt) \<times> ('s, 'f, 'cb) query_options"

fun run_requests :: "('s, 'f, 'cb, 'rt) engine_request list \<Rightarrow> 'rt runtime_cache \<Rightarrow> 'rt runtime_cache" where
  "run_requests [] cache = cache"
| "run_requests ((env, build, options) # requests) cache =
     run_requests requests (snd (basic_runtime env build options cache))"

text \<open>The first runtime that a valid request has prepared for a key.\<close>

fun first_prepared :: "resource_key \<Rightarrow> ('s, 'f, 'cb, 'rt) engine_request list \<Rightarrow> 'rt option" where
  "first_prepared key [] = None"
| "first_prepared key ((env, build, options) # requests) =
     (if is_ok (validate_basic_requirements env options) \<and> engine_key env options False False = key
      then (case build (resource_options options) of
              Inr runtime \<Rightarrow> Some runtime
            | Inl _ \<Rightarrow> first_prepared key requests)
      else first_prepared key requests)"

definition prepared :: "'rt runtime_cache \<Rightarrow> resource_key \<Rightarrow> 'rt option" where
  "prepared cache key = Option.bind (cache key) id"

lemma basic_runtime_prepared:
  assumes "is_cacheable key"
  shows "prepared (snd (basic_runtime env build options cache)) key =
     (if is_ok (validate_basic_requirements env options) \<and> engine_key env options False False = key
          \<and> prepared cache key = None
      then (case build (resource_options options) of Inr runtime \<Rightarrow> Some runtime | Inl _ \<Rightarrow> None)
      else prepared cache key)"
  using assms
  by (cases "validate_basic_requirements env options")
    (auto simp: basic_runtime_def runtime_for_key_def get_or_try_init_def cache_cell_def prepared_def
      split: sum.splits option.splits)

lemma run_requests_prepared:
  "is_cacheable key \<Longrightarrow> prepared (run_requests requests cache) key =
     (case prepared cache key of Some runtime \<Rightarrow> Some runtime | None \<Rightarrow> first_prepared key requests)"
proof (induction requests cache rule: run_requests.induct)
  case (2 env build options requests cache)
  then show ?case
    by (auto simp: basic_runtime_prepared split: option.splits sum.splits)
qed (simp split: option.splits)

text \<open>C13: A data root that resolves is read once: whatever requests came before, in any order and with
  any outside world, a valid request for a prepared key gets the runtime of the first preparation that
  succeeded, with its own callbacks; a failed preparation leaves nothing behind, so the next request
  prepares again; and a root that does not resolve is built for the request alone and leaves the cache
  as it was.\<close>

theorem engine_snapshot:
  assumes "is_ok (validate_basic_requirements env options)"
  shows "let key = engine_key env options False False;
             with_callbacks = map_ok (\<lambda>runtime. (runtime, qo_callbacks options))
         in (is_cacheable key \<longrightarrow>
              fst (basic_runtime env build options (run_requests requests Map.empty)) =
                with_callbacks (case first_prepared key requests of
                    Some runtime \<Rightarrow> Inr runtime
                  | None \<Rightarrow> build (resource_options options)))
          \<and> (\<not> is_cacheable key \<longrightarrow>
              basic_runtime env build options cache = (with_callbacks (build (resource_options options)), cache))"
proof -
  let ?key = "engine_key env options False False" and ?cache = "run_requests requests Map.empty"
  let ?with = "map_ok (\<lambda>runtime. (runtime, qo_callbacks options))"
  have v: "validate_basic_requirements env options = Inr ()" using assms(1) by (auto simp: is_ok_iff)
  have "fst (basic_runtime env build options ?cache) =
        ?with (case first_prepared ?key requests of
             Some runtime \<Rightarrow> Inr runtime | None \<Rightarrow> build (resource_options options))" if c: "is_cacheable ?key"
  proof -
    have "first_prepared ?key requests = prepared ?cache ?key"
      using run_requests_prepared [OF c, of requests Map.empty] by (simp add: prepared_def)
    then show ?thesis
      using c by (auto simp: basic_runtime_def v runtime_for_key_def get_or_try_init_def cache_cell_def prepared_def
          split: sum.splits option.splits)
  qed
  then show ?thesis by (simp add: basic_runtime_def v runtime_for_key_def Let_def)
qed

definition sample_query_config :: "nat query_config" where
  "sample_query_config =
     \<lparr>gr_local_search = \<lparr>lsc_prompt = None, lsc_completion_model_id = ''chat'', lsc_embedding_model_id = ''embed'',
        lsc_text_unit_prop = 0, lsc_community_prop = 0, lsc_conversation_history_max_turns = 5,
        lsc_top_k_entities = 10, lsc_top_k_relationships = 10, lsc_max_context_tokens = 12000\<rparr>,
      gr_global_search = \<lparr>gsc_map_prompt = None, gsc_reduce_prompt = None, gsc_knowledge_prompt = None,
        gsc_completion_model_id = ''chat'', gsc_max_context_tokens = 12000, gsc_data_max_tokens = 12000,
        gsc_map_max_length = 1000, gsc_reduce_max_length = 2000, gsc_dynamic_search_threshold = 1,
        gsc_dynamic_search_keep_parent = False, gsc_dynamic_search_num_repeats = 1,
        gsc_dynamic_search_use_summary = False, gsc_dynamic_search_max_level = 2\<rparr>,
      gr_drift_search = \<lparr>dsc_prompt = None, dsc_reduce_prompt = None, dsc_completion_model_id = ''chat'',
        dsc_embedding_model_id = ''embed'', dsc_data_max_tokens = 12000, dsc_reduce_max_tokens = None,
        dsc_reduce_temperature = 0, dsc_reduce_max_completion_tokens = None, dsc_concurrency = 32,
        dsc_drift_k_followups = 20, dsc_primer_folds = 5, dsc_primer_llm_max_tokens = 12000, dsc_n_depth = 3,
        dsc_local_search_text_unit_prop = 0, dsc_local_search_community_prop = 0,
        dsc_local_search_top_k_mapped_entities = 10, dsc_local_search_top_k_relationships = 10,
        dsc_local_search_max_data_tokens = 12000, dsc_local_search_temperature = 0, dsc_local_search_top_p = 1,
        dsc_local_search_n = 1, dsc_local_search_llm_max_gen_tokens = None,
        dsc_local_search_llm_max_gen_completion_tokens = None\<rparr>,
      gr_basic_search = \<lparr>bsc_prompt = None, bsc_completion_model_id = ''chat'', bsc_embedding_model_id = ''embed'',
        bsc_k = 10, bsc_max_context_tokens = 12000\<rparr>,
      gr_concurrent_requests = 4\<rparr>"

definition sample_engine_env :: "nat engine_env" where
  "sample_engine_env =
     \<lparr>en_root = ''/p'', en_output_dir = ''/p/output'', en_config = sample_query_config,
      en_float = \<lparr>fl_finite = (\<lambda>_. True), fl_le = (\<le>), fl_add = (+), fl_of = (\<lambda>n. n)\<rparr>,
      en_canonicalize = Inr, en_is_dir = (\<lambda>_. Inr True), en_is_absolute = (\<lambda>_. True), en_join = (@)\<rparr>"

abbreviation sample_options :: "(unit, nat, nat) query_options" where
  "sample_options \<equiv> query_options_new ''/p'' ''q'' SearchBasic"

lemma sample_valid: "validate_basic_requirements sample_engine_env sample_options = Inr ()"
proof -
  have "trim ''chat'' \<noteq> []" "trim ''embed'' \<noteq> []" by code_simp+
  then show ?thesis
    by (simp add: validate_basic_requirements_def check_level_def query_options_new_def sample_engine_env_def
        sample_query_config_def basic_config_validate_def validate_model_id_def validate_positive_def)
qed

text \<open>The first preparation fails and the second succeeds; a later request that would have read other
  data gets what the second prepared.\<close>

theorem engine_snapshot_witness:
  "fst (basic_runtime sample_engine_env (\<lambda>_. Inr (2::nat)) sample_options
      (run_requests [(sample_engine_env, \<lambda>_. Inl (QueryRuntime SearchBasic ''load'' ''busy''), sample_options),
                     (sample_engine_env, \<lambda>_. Inr 1, sample_options)] Map.empty)) = Inr (1, [])"
proof -
  let ?requests = "[(sample_engine_env, \<lambda>_. Inl (QueryRuntime SearchBasic ''load'' ''busy''), sample_options),
                     (sample_engine_env, \<lambda>_. Inr (1::nat), sample_options)]"
  let ?key = "engine_key sample_engine_env sample_options False False"
  have c: "is_cacheable ?key"
    by (simp add: engine_key_def query_options_new_def sample_engine_env_def is_cacheable_def Let_def)
  have f: "first_prepared ?key ?requests = Some 1"
    by (simp add: sample_valid)
  have "is_ok (validate_basic_requirements sample_engine_env sample_options)" by (simp add: sample_valid)
  from engine_snapshot [OF this, of "\<lambda>_. Inr (2::nat)" ?requests] c f show ?thesis
    by (simp add: query_options_new_def)
qed

subsection \<open>One request, with and without a session\<close>

definition inner_answer ::
  "'f engine_env \<Rightarrow> (('s, 'f, 'cb) query_options \<Rightarrow> query_error + ('f, 'd, 'v) basic_query_runtime)
   \<Rightarrow> ('s, 'f, 'cb) query_options \<Rightarrow> ('f, 'd, 'v) basic_query_runtime runtime_cache
   \<Rightarrow> (query_error + 'd query_context query_result) \<times> ('f, 'd, 'v) basic_query_runtime runtime_cache" where
  "inner_answer env build options cache =
     run_then (validate_project_root env options, cache) (\<lambda>_ cache.
     case basic_runtime env build options cache of (runtime, cache) \<Rightarrow>
       (and_then runtime (\<lambda>(rt, _). basic_answer rt (qo_query options) (qo_response_type options)), cache))"

lemma query_inner_answer:
  "map_prod id fst (query_inner env build llm_elapsed options h (cache, st)) = inner_answer env build options cache"
proof -
  obtain runtime cache' where b: "basic_runtime env build options cache = (runtime, cache')" by fastforce
  show ?thesis
    by (cases "validate_project_root env options"; cases runtime)
      (auto simp: query_inner_def inner_answer_def b basic_search_result [symmetric, of _ _ _ llm_elapsed h st]
        split: prod.splits)
qed

text \<open>The vector search of the runtime that a request uses returns at most \<open>bound\<close> results.\<close>

definition request_bounded ::
  "'f engine_env \<Rightarrow> (('s, 'f, 'cb) query_options \<Rightarrow> query_error + ('f, 'd, 'v) basic_query_runtime)
   \<Rightarrow> ('s, 'f, 'cb) query_options \<Rightarrow> ('f, 'd, 'v) basic_query_runtime runtime_cache \<Rightarrow> nat \<Rightarrow> bool" where
  "request_bounded env build options cache bound \<longleftrightarrow>
     (case fst (basic_runtime env build options cache) of
        Inl _ \<Rightarrow> True
      | Inr (runtime, _) \<Rightarrow> search_bounded (br_context runtime) bound)"

lemma query_inner_end:
  assumes "query_inner env build llm_elapsed options (Some (BasicHandle q spans)) (cache, st) = (answer, (cache', st'))"
    and "request_bounded env build options cache bound"
  shows "(\<exists>e. answer = Inl e \<and> st' = st) \<or> (\<exists>st1. sidecar_steps q (2 * bound + 20) st st1 \<and> st' =
     (case answer of Inr _ \<Rightarrow> finish_success q st1 | Inl e \<Rightarrow> finish_query_error q e st1))"
proof -
  obtain runtime cache1 where b: "basic_runtime env build options cache = (runtime, cache1)" by fastforce
  show ?thesis
  proof (cases "validate_project_root env options")
    case (Inl e)
    then show ?thesis using assms(1) by (auto simp: query_inner_def)
  next
    case (Inr u)
    show ?thesis
    proof (cases runtime)
      case (Inl e)
      then show ?thesis using assms(1) Inr by (auto simp: query_inner_def b)
    next
      case Rt: (Inr r)
      obtain rt callbacks where r: "r = (rt, callbacks)" by fastforce
      have "answer = basic_answer rt (qo_query options) (qo_response_type options)"
        and st': "st' = snd (basic_search llm_elapsed rt (qo_query options) (qo_response_type options)
              (Some (BasicHandle q spans)) st)"
        using assms(1) Inr basic_search_result [of llm_elapsed rt "qo_query options" "qo_response_type options"
            "Some (BasicHandle q spans)" st]
        by (auto simp: query_inner_def b Rt r split: prod.splits)
      moreover have "search_bounded (br_context rt) bound"
        using assms(2) by (simp add: request_bounded_def b Rt r)
      ultimately show ?thesis
        using basic_search_end [of rt bound q st llm_elapsed "qo_query options" "qo_response_type options" spans] by simp
    qed
  qed
qed

lemma terminal_started:
  "xs_terminal_started (finish_success q st)" "xs_terminal_started (finish_failure q kind message st)"
proof -
  have e: "xs_terminal_started (session_emit q span parent event st) = xs_terminal_started st" for span parent event st
    by (simp add: session_emit_def Let_def split: prod.splits sum.splits)
  have f: "xs_terminal_started (session_finish_run q st) = xs_terminal_started st" for st
    by (simp add: session_finish_run_def split: prod.splits)
  show "xs_terminal_started (finish_failure q kind message st)"
    by (cases "xs_terminal_started st") (simp_all add: finish_failure_def begin_terminal_def e f)
  show "xs_terminal_started (finish_success q st)"
    by (cases "xs_terminal_started st")
      (simp_all add: finish_success_def begin_terminal_def e f conversions or_mark_def mark_sidecar_failure_def
        Let_def split: option.splits)
qed

text \<open>However a request fails, and however often its end is reported, the state is that of one end.\<close>

lemma query_with_session_end:
  assumes "query_with_session env build llm_elapsed options (Some (BasicHandle q spans)) (cache, st) = (answer, (cache', st'))"
    and "\<not> xs_terminal_started st" and bounded: "request_bounded env build options cache bound"
  shows "\<exists>st1. sidecar_steps q (2 * bound + 20) st st1 \<and> st' =
     (case answer of Inr _ \<Rightarrow> finish_success q st1 | Inl e \<Rightarrow> finish_graphloom_error q e st1)"
proof -
  obtain a cache1 st2 where i: "query_inner env build llm_elapsed options (Some (BasicHandle q spans)) (cache, st) =
      (a, (cache1, st2))" by (metis prod.exhaust)
  from query_inner_end [OF i bounded] show ?thesis
  proof (elim disjE exE conjE)
    fix e assume "a = Inl e" "st2 = st"
    then show ?thesis
      using assms(1) by (intro exI [of _ st])
        (auto simp: query_with_session_def i instrumentation_finish_graphloom_error_def)
  next
    fix st1
    assume st1: "sidecar_steps q (2 * bound + 20) st st1"
      "st2 = (case a of Inr _ \<Rightarrow> finish_success q st1 | Inl e \<Rightarrow> finish_query_error q e st1)"
    then show ?thesis
      using assms(1) finish_again(2) [OF terminal_started(2)] by (intro exI [of _ st1])
        (cases a, auto simp: query_with_session_def i instrumentation_finish_graphloom_error_def
          finish_graphloom_error_def finish_query_error_def)
  qed
qed

text \<open>C14: Explaining a request does not change it: a Basic request gives the same answer and leaves the
  same resource cache whether it is explained or not, in whichever content mode, and whatever the sink
  does with the records.\<close>

theorem engine_query_unobserved:
  assumes "qo_method options = SearchBasic"
  shows "map_prod id fst (engine_query env build now elapsed llm_elapsed ids options (cache, st)) =
         map_prod id fst (engine_query env build now' elapsed' llm_elapsed' ids'
           (options\<lparr>qo_explainability := explainability\<rparr>) (cache, st'))"
proof -
  let ?plain = "map_prod (map_err QueryFailed) id (inner_answer env build options cache)"
  have w: "map_prod id fst (query_with_session env build llm_elapsed o' h (cache, st)) =
      map_prod (map_err QueryFailed) id (inner_answer env build o' cache)" for llm_elapsed o' h st
    using query_inner_answer [of env build llm_elapsed o' h cache st]
    by (auto simp: query_with_session_def split: prod.splits sum.splits dest!: sym [of _ "inner_answer env build o' cache"])
  have key: "runtime_for_key build (options\<lparr>qo_explainability := explainability\<rparr>) key = runtime_for_key build options key" for key
    by (rule ext) (simp add: runtime_for_key_def resource_options_def)
  have opt: "inner_answer env build (options\<lparr>qo_explainability := explainability\<rparr>) cache = inner_answer env build options cache"
    by (simp add: inner_answer_def validate_project_root_def basic_runtime_def validate_basic_requirements_def
        check_level_def key engine_key_def cong: option.case_cong if_cong)
  have "map_prod id fst (engine_query env build now elapsed llm_elapsed ids o' (cache, st)) =
      map_prod (map_err QueryFailed) id (inner_answer env build o' cache)" for now elapsed llm_elapsed ids o' st
    by (simp add: engine_query_def w split: prod.splits)
  then show ?thesis by (simp add: opt)
qed

definition sample_runtime :: "(nat, (string \<times> string list) list, nat) basic_query_runtime" where
  "sample_runtime =
     \<lparr>br_context = sample_basic_env 100, br_prompt = (\<lambda>context response_type. Inr context),
      br_request = (\<lambda>_ _. Inr ()), br_stream = (\<lambda>_ _. Inr [Inr ''an '', Inr ''answer'']),
      br_completion_model_id = ''chat''\<rparr>"

definition sample_explainability :: "content_mode \<Rightarrow> (nat expl_event sink_call list \<times> unit, nat) explainability_options" where
  "sample_explainability mode = \<lparr>xo_run_id = RunId ''run'', xo_content_mode = mode, xo_sink = logged_sink noop_sink\<rparr>"

definition sample_spans :: request_spans where
  "sample_spans =
     \<lparr>rsp_root = SpanId ''root'',
      rsp_basic = \<lparr>bsp_embedding = SpanId ''e'', bsp_retrieval = SpanId ''r'', bsp_context = SpanId ''c'', bsp_llm = SpanId ''l''\<rparr>,
      rsp_local = \<lparr>lsp_root = SpanId ''root'', lsp_mapping = SpanId ''m'', lsp_embedding = SpanId ''e'',
        lsp_retrieval = SpanId ''r'', lsp_graph_expansion = SpanId ''g'', lsp_context = SpanId ''c'', lsp_llm = SpanId ''l''\<rparr>,
      rsp_global = \<lparr>gsp_selection = SpanId ''s'', gsp_context = SpanId ''c'', gsp_map = SpanId ''m'', gsp_reduce = SpanId ''d''\<rparr>\<rparr>"

definition sample_explained :: "(nat expl_event sink_call list \<times> unit, nat, nat) query_options" where
  "sample_explained = with_explainability (sample_explainability Content) (query_options_new ''/p'' ''q'' SearchBasic)"

definition sample_query ::
  "(nat expl_event sink_call list \<times> unit, nat, nat) query_options
   \<Rightarrow> (graphloom_error + (string \<times> string list) list query_context query_result)
      \<times> (nat, (string \<times> string list) list, nat) basic_query_runtime runtime_cache
      \<times> (nat expl_event sink_call list \<times> unit) session_state" where
  "sample_query options =
     engine_query sample_engine_env (\<lambda>_. Inr sample_runtime) (\<lambda>_. 0) (\<lambda>_. 5) (\<lambda>_. 3) sample_spans options
       (Map.empty, session_state_new ([], ()))"

theorem engine_query_unobserved_witness:
  "map_prod id fst (sample_query sample_explained) = map_prod id fst (sample_query (query_options_new ''/p'' ''q'' SearchBasic))"
proof -
  have m: "qo_method sample_explained = SearchBasic"
    by (simp add: sample_explained_def with_explainability_def query_options_new_def)
  have plain: "sample_explained\<lparr>qo_explainability := None\<rparr> = query_options_new ''/p'' ''q'' SearchBasic"
    by (simp add: sample_explained_def with_explainability_def query_options_new_def)
  have "map_prod id fst (sample_query sample_explained) =
      map_prod id fst (sample_query (sample_explained\<lparr>qo_explainability := None\<rparr>))"
    unfolding sample_query_def by (rule engine_query_unobserved [OF m])
  then show ?thesis by (simp only: plain)
qed

lemma unat_of_nat_u64: "n < 2 ^ 64 \<Longrightarrow> unat (of_nat n :: u64) = n"
  by (simp add: unat_of_nat take_bit_nat_eq_self)

text \<open>C3: An explained Basic request is one run to its sink, whatever that sink accepts: the run and the
  query are announced, only stage records follow, then one record ends the run and the sink is told to
  finish it, once, whatever fails and wherever. A failed request ends with its error category. An
  answered one ends as completed if and only if the session's failure counter is zero when it ends, and
  as a delivery failure otherwise; the counter counts at least every rejected record, and beside them the
  evidence that could not be recorded, so a run that ends as completed had every record before its end
  accepted. The counter is a 64-bit word: the vector search is taken to return at most \<open>2 ^ 62\<close> results.\<close>

theorem engine_query_reports_one_run:
  assumes "qo_method options = SearchBasic"
    and "qo_explainability options = Some x" "xo_sink x = logged_sink k"
    and "request_bounded env build options cache (2 ^ 62)"
    and "engine_query env build now elapsed llm_elapsed ids options (cache, session_state_new ([], w)) = (answer, (cache', st))"
  shows "\<exists>started a asked b stages final c.
     calls st = [EmitCall started a, EmitCall asked b] @ map emit_call stages @ [EmitCall final c, FinishCall (xo_run_id x)]
   \<and> (\<forall>r \<in> {started, asked, final} \<union> fst ` set stages. rec_run_id r = xo_run_id x)
   \<and> rec_event started = RunStarted \<lparr>rs_kind = Query, rs_content_mode = xo_content_mode x\<rparr>
   \<and> rec_event asked = QueryStarted \<lparr>qs_method = Basic,
        qs_query = (if includes_content (xo_content_mode x) then Some (qo_query options) else None)\<rparr>
   \<and> (\<forall>r \<in> fst ` set stages. stage_event (rec_event r))
   \<and> rejected ([(started, a), (asked, b)] @ stages @ [(final, c)]) \<le> unat (xs_delivery_failures st)
   \<and> (case answer of
        Inl e \<Rightarrow> rec_event final =
          RunFailed \<lparr>rf_error_kind = graphloom_error_kind e, rf_message = ''Basic query execution failed.''\<rparr>
      | Inr _ \<Rightarrow>
          if unat (xs_delivery_failures st) = rejected [(final, c)]
          then (\<exists>ms. rec_event final = RunCompleted ms) \<and> a \<and> b \<and> (\<forall>(r, ok) \<in> set stages. ok)
          else rec_event final = delivery_failed_event)"
proof -
  define q where "q = session_new now elapsed (rsp_root ids) x SearchBasic"
  have q: "qx_sink q = logged_sink k" "qx_run_id q = xo_run_id x" "qx_content_mode q = xo_content_mode x" "qx_method q = Basic"
    by (simp_all add: q_def session_new_def assms(3))
  let ?st0 = "session_state_new ([], w)" and ?h = "Some (BasicHandle q (rsp_basic ids))"
  let ?st1 = "session_emit_start q (qo_query options) ?st0"
  have run: "query_with_session env build llm_elapsed options ?h (cache, ?st1) = (answer, (cache', st))"
    using assms by (simp add: engine_query_def instrumentation_start_def session_start_def q_def Let_def)
  obtain started a asked b where s: "rec_run_id started = xo_run_id x" "rec_run_id asked = xo_run_id x"
     "rec_event started = RunStarted \<lparr>rs_kind = Query, rs_content_mode = xo_content_mode x\<rparr>"
     "rec_event asked = QueryStarted \<lparr>qs_method = Basic, qs_query = session_content q (qo_query options)\<rparr>"
     "calls ?st1 = [emit_call (started, a), emit_call (asked, b)]"
     "xs_delivery_failures ?st1 = of_nat (rejected [(started, a), (asked, b)])" "\<not> xs_terminal_started ?st1"
    using emit_start_logged [OF q(1), of "qo_query options" ?st0] unfolding q
    by (auto simp: session_state_new_def)
  obtain st1 where st1: "sidecar_steps q (2 * 2 ^ 62 + 20) ?st1 st1"
     "st = (case answer of Inr _ \<Rightarrow> finish_success q st1 | Inl e \<Rightarrow> finish_graphloom_error q e st1)"
    using query_with_session_end [OF run s(7) assms(4)] by blast
  obtain stages lost where l: "calls st1 = calls ?st1 @ map emit_call stages" "stage_calls q stages"
     "xs_delivery_failures st1 = xs_delivery_failures ?st1 + of_nat (rejected stages + lost)"
     "rejected stages + lost \<le> 2 * 2 ^ 62 + 20"
    using steps_logged [OF st1(1) q(1)] by blast
  let ?before = "rejected [(started, a), (asked, b)] + rejected stages + lost"
  have counted: "xs_delivery_failures st1 = of_nat ?before" "?before \<le> 2 * 2 ^ 62 + 22"
    using l(3,4) s(6) by (simp_all add: ac_simps)
  have t: "\<not> xs_terminal_started st1" using steps_terminal [OF st1(1)] s(7) by simp
  obtain final c late where f: "rec_run_id final = xo_run_id x"
     "calls st = calls st1 @ [emit_call (final, c), FinishCall (xo_run_id x)]"
     "xs_delivery_failures st = xs_delivery_failures st1 + of_nat (late + rejected [(final, c)])" "late \<le> 1"
     "case answer of
        Inl e \<Rightarrow> rec_event final =
          RunFailed \<lparr>rf_error_kind = graphloom_error_kind e, rf_message = ''Basic query execution failed.''\<rparr>
      | Inr _ \<Rightarrow> if xs_delivery_failures st1 = 0 \<and> late = 0 then \<exists>ms. rec_event final = RunCompleted ms
          else rec_event final = delivery_failed_event"
  proof (cases answer)
    case (Inl e)
    then have st: "st = finish_failure q (graphloom_error_kind e) ''Basic query execution failed.'' st1"
      using st1(2) q(4) by (simp add: finish_graphloom_error_def)
    obtain r ok where "rec_run_id r = qx_run_id q"
       "rec_event r = RunFailed \<lparr>rf_error_kind = graphloom_error_kind e, rf_message = ''Basic query execution failed.''\<rparr>"
       "calls st = calls st1 @ [emit_call (r, ok), FinishCall (qx_run_id q)]"
       "xs_delivery_failures st = xs_delivery_failures st1 + of_nat (rejected [(r, ok)])"
      using finish_failure_logged [OF t q(1)] unfolding st by blast
    then show ?thesis using Inl q(2) by (intro that [of r ok 0]) (simp_all del: rejected_simps)
  next
    case (Inr r)
    let ?late = "if qx_elapsed q (xs_world st1) < 2 ^ 64 then 0 else (1::nat)"
    have st: "st = finish_success q st1" using st1(2) Inr by simp
    obtain e ok where "rec_run_id e = qx_run_id q"
       "rec_event e = (if xs_delivery_failures st1 = 0 \<and> qx_elapsed q (xs_world st1) < 2 ^ 64
         then RunCompleted \<lparr>rc_elapsed_ms = of_nat (qx_elapsed q (xs_world st1))\<rparr> else delivery_failed_event)"
       "calls st = calls st1 @ [emit_call (e, ok), FinishCall (qx_run_id q)]"
       "xs_delivery_failures st = xs_delivery_failures st1 + of_nat (?late + rejected [(e, ok)])"
      using finish_success_logged [OF t q(1)] unfolding st by blast
    then show ?thesis using Inr q(2) by (intro that [of e ok ?late]) (simp_all del: rejected_simps)
  qed
  have total: "unat (xs_delivery_failures st) = ?before + late + rejected [(final, c)]"
  proof -
    have "xs_delivery_failures st = of_nat (?before + late + rejected [(final, c)])"
      unfolding f(3) counted(1) by (simp only: of_nat_add ac_simps)
    moreover have "?before + late + rejected [(final, c)] < 2 ^ 64" using counted(2) f(4) by simp
    ultimately show ?thesis by (simp only: unat_of_nat_u64)
  qed
  have calls_eq: "calls st = [EmitCall started a, EmitCall asked b] @ map emit_call stages
      @ [EmitCall final c, FinishCall (xo_run_id x)]"
    using s(5) l(1) f(2) by (simp add: emit_call_def)
  have ids: "\<forall>r \<in> {started, asked, final} \<union> fst ` set stages. rec_run_id r = xo_run_id x"
    "\<forall>r \<in> fst ` set stages. stage_event (rec_event r)"
    using s(1,2) f(1) l(2) q(2) by (auto simp: stage_calls_def)
  have asked_event: "rec_event asked = QueryStarted \<lparr>qs_method = Basic,
        qs_query = (if includes_content (xo_content_mode x) then Some (qo_query options) else None)\<rparr>"
    using s(4) q(3) by (simp add: session_content_def)
  have rejections: "rejected ([(started, a), (asked, b)] @ stages @ [(final, c)]) \<le> unat (xs_delivery_failures st)"
    unfolding total by (simp del: unat_eq_0)
  have none: "xs_delivery_failures st1 = 0 \<longleftrightarrow> ?before = 0"
  proof -
    have "unat (xs_delivery_failures st1) = ?before"
      unfolding counted(1) using counted(2) by (intro unat_of_nat_u64) simp
    then show ?thesis using unat_eq_zero [of "xs_delivery_failures st1"] by (simp only:)
  qed
  have ending: "case answer of
        Inl e \<Rightarrow> rec_event final =
          RunFailed \<lparr>rf_error_kind = graphloom_error_kind e, rf_message = ''Basic query execution failed.''\<rparr>
      | Inr _ \<Rightarrow>
          if unat (xs_delivery_failures st) = rejected [(final, c)]
          then (\<exists>ms. rec_event final = RunCompleted ms) \<and> a \<and> b \<and> (\<forall>(r, ok) \<in> set stages. ok)
          else rec_event final = delivery_failed_event"
  proof (cases answer)
    case (Inr r)
    have accepted: "a \<and> b \<and> (\<forall>(r, ok) \<in> set stages. ok)" if "?before = 0"
      using that by (auto simp: rejected_def filter_empty_conv split: if_splits)
    have counter: "unat (xs_delivery_failures st) = rejected [(final, c)] \<longleftrightarrow> xs_delivery_failures st1 = 0 \<and> late = 0"
      unfolding total none by auto
    show ?thesis
    proof (cases "xs_delivery_failures st1 = 0 \<and> late = 0")
      case True
      then have "?before = 0" using none by blast
      from accepted [OF this] show ?thesis using f(5) counter True Inr by simp
    next
      case False
      then show ?thesis using f(5) counter Inr by (simp only: sum.case if_False)
    qed
  qed (use f(5) in simp)
  show ?thesis
    using calls_eq ids s(3) asked_event rejections ending
    by (intro exI [of _ started] exI [of _ a] exI [of _ asked] exI [of _ b] exI [of _ stages] exI [of _ final]
        exI [of _ c] conjI) assumption+
qed

lemma sample_bounded: "request_bounded sample_engine_env (\<lambda>_. Inr sample_runtime) options Map.empty (2 ^ 62)"
proof -
  have "search_bounded (br_context sample_runtime) (2 ^ 62)"
    by (simp add: search_bounded_def sample_runtime_def sample_basic_env_def)
  moreover have "fst p = sample_runtime"
    if "fst (basic_runtime sample_engine_env (\<lambda>_. Inr sample_runtime) options Map.empty) = Inr p" for p
    using that by (cases "validate_basic_requirements sample_engine_env options")
      (auto simp: basic_runtime_def runtime_for_key_def get_or_try_init_def cache_cell_def split: if_splits)
  ultimately show ?thesis by (auto simp: request_bounded_def split: sum.split)
qed

theorem engine_query_reports_one_run_witness:
  "\<exists>answer cache st started a asked b stages final c.
     sample_query sample_explained = (answer, (cache, st))
   \<and> calls st = [EmitCall started a, EmitCall asked b] @ map emit_call stages @ [EmitCall final c, FinishCall (RunId ''run'')]
   \<and> rec_event asked = QueryStarted \<lparr>qs_method = Basic, qs_query = Some ''q''\<rparr>
   \<and> (\<forall>r \<in> fst ` set stages. stage_event (rec_event r))
   \<and> rejected ([(started, a), (asked, b)] @ stages @ [(final, c)]) \<le> unat (xs_delivery_failures st)
   \<and> (case answer of
        Inl e \<Rightarrow> rec_event final =
          RunFailed \<lparr>rf_error_kind = graphloom_error_kind e, rf_message = ''Basic query execution failed.''\<rparr>
      | Inr _ \<Rightarrow>
          if unat (xs_delivery_failures st) = rejected [(final, c)]
          then (\<exists>ms. rec_event final = RunCompleted ms) \<and> a \<and> b \<and> (\<forall>(r, ok) \<in> set stages. ok)
          else rec_event final = delivery_failed_event)"
proof -
  obtain answer cache st where run: "sample_query sample_explained = (answer, (cache, st))"
    by (metis prod.exhaust)
  have o: "qo_method sample_explained = SearchBasic" "qo_query sample_explained = ''q''"
    "qo_explainability sample_explained = Some (sample_explainability Content)"
    "xo_sink (sample_explainability Content) = logged_sink noop_sink"
    "xo_run_id (sample_explainability Content) = RunId ''run''"
    "includes_content (xo_content_mode (sample_explainability Content))"
    by (simp_all add: sample_explained_def sample_explainability_def with_explainability_def query_options_new_def)
  from engine_query_reports_one_run [OF o(1,3,4) sample_bounded run [unfolded sample_query_def]] show ?thesis
    unfolding o(2,5) if_P [OF o(6)]
    by (elim exE conjE, intro exI conjI) (rule run | assumption)+
qed

end
