(* ===== verification/Spec2Isabelle.thy ===== *)
theory Spec2Isabelle
  imports Chunking Cache_Key_Laws Expl_Wire Expl_Follow Update
    Drift_Search_Laws Global_Search_Laws Indexer_Adapters_Laws Local_Context_Laws Local_Context_Bounds
    Query_Engine_Laws
begin

text \<open>
  GraphLoom, a Rust implementation of GraphRAG: a verification library.

  \<^bold>\<open>The program.\<close> Documents are chunked (crate \<open>graphloom-chunking\<close>); a model extracts entities and
  relationships, which are merged into a graph, clustered into communities and reported on (crate
  \<open>graphloom\<close>, \<open>operations/\<close>); later runs merge a delta index into the previous one
  (\<open>operations/update.rs\<close>). Queries (\<open>query/\<close>) read the index: Local Search builds one mixed context
  around entities, Global Search maps the question over batches of community reports, which Dynamic
  Community Selection may choose, and reduces the points, DRIFT search explores a graph of follow-up
  questions. All of them stream their answer. Every run can explain itself (\<open>explainability/\<close>): records
  of what was considered and selected go through a chain of sinks to a recorder, which numbers them,
  stores them in a run history and publishes them live. Paths below are relative to
  \<open>src/crates/graphloom/src\<close> unless another crate is named.

  \<^bold>\<open>Theories and sources.\<close>

  \<^item> \<open>Prelude\<close>: machine integers, results, ordered maps, decimal numbers. \<open>Json\<close>: \<open>serde_json::Value\<close>.
    \<open>Stable_Sort\<close>: \<open>slice::sort_by\<close>.
  \<^item> \<open>Chunking\<close>: \<open>graphloom-chunking\<close> (\<open>token_chunker.rs\<close>, \<open>config.rs\<close>, \<open>encoding.rs\<close>, \<open>transformers.rs\<close>,
    \<open>chunker.rs\<close>).
  \<^item> \<open>Graph_Build\<close>: \<open>operations/graph/merge.rs\<close>, \<open>finalize.rs\<close>. \<open>Communities\<close>: \<open>operations/communities.rs\<close>.
    \<open>Update\<close>: \<open>operations/update.rs\<close>.
  \<^item> \<open>Expl_Types\<close>, \<open>Expl_Events\<close>, \<open>Expl_Wire\<close>: \<open>explainability/record.rs\<close>, \<open>dto.rs\<close>, \<open>content_mode.rs\<close>, \<open>event.rs\<close>,
    \<open>validation.rs\<close>. \<open>Expl_Store\<close>: \<open>store.rs\<close>. \<open>Expl_Hub\<close>: \<open>live_hub.rs\<close>. \<open>Expl_Sink\<close>: \<open>sink.rs\<close>.
    \<open>Expl_Recorder\<close>, \<open>Expl_Recorder_Laws\<close>: \<open>store_recorder.rs\<close>. \<open>Expl_Sse\<close>, \<open>Expl_Sse_Laws\<close>:
    \<open>explainability/sse.rs\<close> of \<open>graphloom-studio\<close>; \<open>Expl_Follow\<close>: the recorder as what the event stream follows.
  \<^item> \<open>Indexer_Adapters\<close>, \<open>Indexer_Adapters_Laws\<close>: \<open>query/indexer_adapters.rs\<close>.
  \<^item> \<open>Query_Types\<close>, \<open>Context_Table\<close>, \<open>Query_Index\<close>: \<open>query/error.rs\<close>, \<open>result.rs\<close>, \<open>data_model.rs\<close>, \<open>context/csv.rs\<close>,
    \<open>data_index.rs\<close>. \<open>Conversation\<close>: \<open>context/conversation.rs\<close>.
  \<^item> \<open>Local_Context\<close>, \<open>Local_Context_Total\<close>, \<open>Local_Context_Laws\<close>, \<open>Local_Context_Bounds\<close>: \<open>query/local/context.rs\<close>.
  \<^item> \<open>Query_Parse\<close>: \<open>query/global/parse.rs\<close> and the JSON repairs of \<open>dynamic.rs\<close>. \<open>Python_Random\<close>: \<open>random.rs\<close>.
    \<open>Dynamic_Selection\<close>: \<open>dynamic.rs\<close>. \<open>Global_Context\<close>: \<open>context.rs\<close>. \<open>Global_Search\<close>, \<open>Global_Search_Laws\<close>:
    \<open>search.rs\<close>. \<open>Query_Concurrency\<close>: \<open>query/concurrency.rs\<close>. \<open>Streaming\<close>: \<open>query/streaming.rs\<close>.
  \<^item> \<open>Drift\<close>: \<open>query/drift/parse.rs\<close>, \<open>action.rs\<close>, \<open>state.rs\<close>. \<open>Drift_Search\<close>, \<open>Drift_Search_Laws\<close>: \<open>context.rs\<close>, \<open>primer.rs\<close>,
    \<open>search.rs\<close>.
  \<^item> \<open>Query_Session\<close>, \<open>Query_Session_Laws\<close>: \<open>query/explainability.rs\<close>, the instrumentation of \<open>query/observability.rs\<close>.
    \<open>Basic_Search\<close>, \<open>Basic_Search_Laws\<close>: \<open>query/basic\<close>. \<open>Query_Config\<close>: \<open>config/query.rs\<close>, \<open>query/requirements.rs\<close>.
    \<open>Query_Engine\<close>, \<open>Query_Engine_Laws\<close>: \<open>query/engine.rs\<close>, the request checks of \<open>query/runtime.rs\<close>.
  \<^item> \<open>Cache_Key\<close>, \<open>Cache_Key_Laws\<close>: \<open>cache_key.rs\<close> of \<open>graphloom-llm\<close>.

  \<^bold>\<open>How code is represented.\<close> A struct is a record, an enum a datatype, a method a function on the
  record; \<open>Result\<close> is \<open>error + value\<close> and the question mark \<open>and_then\<close>. \<open>u64\<close> and \<open>u32\<close> are words,
  \<open>usize\<close> a natural number and \<open>i64\<close> an integer, with the 64-bit bounds written where the code saturates
  or checks. A \<open>BTreeMap\<close> is an ordered association list. Concurrent code is a step relation whose steps
  run from one suspension point to the next: the recorder with its clients and writer, the live hub's
  publish and subscribe, the bounded executor. Third-party code (tokenizers, models, embeddings, the
  CSV writer, data frames, JSON and UUID parsing, regular expressions, floating point, Leiden, the text
  splitter) is a parameter: a field of an environment record or an argument.

  \<^bold>\<open>What the lemmas show.\<close>

  \<^item> The recorder, for any store meeting the locale \<open>run_history_store\<close> (interpreted on the in-memory store):
    the stored log of a run is the accepted records numbered without gaps, whatever the interleaving and
    whichever clients are dropped; finishing a run is a barrier; shutdown drains; only stored envelopes are
    published; a subscription leaves no gap; the event stream of a run delivers its log exactly and ends once the run
    is closed, and the recorder's steps are among those it was verified against. The store refines an abstract contract; the limits
    that reading and writing an event check are the same.
  \<^item> Indexing: merging groups rows as a reference does and leaves a closed graph; the largest component and the
    clusters partition the nodes; an update rebases identifiers or reports overflow and leaves no dangling
    reference; chunks cover the text with the configured overlap.
  \<^item> Reading the index: the table adapters are type safe; entities are the first rows of their identifiers with their
    communities; reports follow the roll-up by title.
  \<^item> Queries: the contexts are the longest affordable prefixes of their candidates and are exactly what their
    definitions say; capturing evidence does not interfere; captured evidence has the counts of what was
    considered and selected and passes the contracts of the events; streams follow their protocol; the executor is bounded, ordered and fail-fast; parsing model output
    finds the leftmost balanced object; behind a DRIFT answer is a well-formed graph whose answers are
    those of calls for their own queries.
  \<^item> Requests: an explained Basic request is one run to any sink, with one end whatever fails, reported as completed
    exactly if its failure counter, which counts every rejected record, is zero; explaining it changes
    neither its answer nor the shared cache; prepared resources are a snapshot per resolved data root. Between its
    start and its end a session only takes a bounded number of the steps of \<open>sidecar_step\<close>, by induction on which
    its log and its counter are known.
  \<^item> Model requests: the cache text of a request is always written, is ASCII, ignores the order of keys and the
    excluded parameters; a scalar reads back from it by the rules of YAML, unless a fold met a run of spaces.

  \<^bold>\<open>Bounds and fuel.\<close> No definition takes fuel. Loops that may not end in the code are partial functions
  (\<open>partial_function (option)\<close>): the window loop of the chunker, shown total, and the rejection sampling of the
  shuffle, whose termination depends on the generator; its users have \<open>None\<close> for a shuffle that does not return.
  The depth loop of DRIFT is given its number of rounds, as in the code.

  \<^bold>\<open>Not modelled.\<close> Pure input and output and orchestration: the command line, configuration loading, project
  layout, prompts, model and vector clients, cache stores, storage back ends, the SQLite and JSON-lines histories,
  the workflows that connect operations to tables, Studio's HTTP framework, telemetry. The event stream is
  assumed to start once its run has its live channel, or after that is closed. Elapsed times,
  callbacks and tracing. In the queries, request building, and in Local and Global Search the emission of the
  explanatory events, whose payloads are modelled; in Basic Search every record is. The JSON text of events. The components of the manifest give the reasons part
  by part.
\<close>

end
